(* ===== verification/Prelude.thy ===== *)
theory Prelude
  imports Main "HOL-Library.Word" "HOL-Library.Monad_Syntax"
begin

text \<open>
  Shared vocabulary of the development: Python exceptions as values, Python list and
  byte-string slicing, big-endian byte codecs (the \<^verbatim>\<open>struct\<close> formats the
  storage layer uses), and the generic lemmas about them.  The collections declared here
  are filled by the component theories and used by their proofs.
\<close>

named_theorems py_defs "definitions that unfold Python primitives"
named_theorems len_simps "lengths of encodings and slices"

section \<open>Exceptions as values\<close>

datatype pyerr =
    StructError
  | ValueError
  | IndexError
  | KeyError
  | TypeError
  | RuntimeError
  | AttributeError
  | ZeroDivisionError
  | OverflowError
  | UnicodeError
  | OSError

type_synonym 'a result = "pyerr + 'a"

definition bindr :: "'a result \<Rightarrow> ('a \<Rightarrow> 'b result) \<Rightarrow> 'b result" where
  "bindr r f = (case r of Inl e \<Rightarrow> Inl e | Inr x \<Rightarrow> f x)"

lemma bindr_simps [simp]:
  "bindr (Inl e) f = Inl e"
  "bindr (Inr x) f = f x"
  by (simp_all add: bindr_def)

lemma bindr_Inr_iff: "bindr r f = Inr y \<longleftrightarrow> (\<exists>x. r = Inr x \<and> f x = Inr y)"
  by (cases r) auto

lemma bindr_Inr_right [simp]: "bindr r Inr = r"
  by (cases r) auto

lemma bindr_assoc: "bindr (bindr r f) g = bindr r (\<lambda>x. bindr (f x) g)"
  by (cases r) auto

definition is_ok :: "'a result \<Rightarrow> bool" where
  "is_ok r = (case r of Inl _ \<Rightarrow> False | Inr _ \<Rightarrow> True)"

lemma is_ok_simps [simp]: "\<not> is_ok (Inl e)" "is_ok (Inr x)"
  by (simp_all add: is_ok_def)

lemma is_ok_iff: "is_ok r \<longleftrightarrow> (\<exists>x. r = Inr x)"
  by (cases r) auto

text \<open>\<open>mapr\<close> runs a fallible function over a list, stopping at the first exception.\<close>

fun mapr :: "('a \<Rightarrow> 'b result) \<Rightarrow> 'a list \<Rightarrow> 'b list result" where
  "mapr f [] = Inr []"
| "mapr f (x # xs) = bindr (f x) (\<lambda>y. bindr (mapr f xs) (\<lambda>ys. Inr (y # ys)))"

lemma mapr_Inr: "mapr (\<lambda>x. Inr (f x)) xs = Inr (map f xs)"
  by (induction xs) auto

lemma mapr_length: "mapr f xs = Inr ys \<Longrightarrow> length ys = length xs"
  by (induction xs arbitrary: ys) (auto simp: bindr_Inr_iff)

section \<open>Python slices\<close>

text \<open>
  A slice bound is clamped into the sequence, a negative bound counting from the end;
  \<^verbatim>\<open>xs[i:j]\<close> is empty when the bounds cross, and assigning to a slice replaces
  exactly the selected range, so the sequence changes its length unless the lengths agree.
\<close>

definition py_bound :: "nat \<Rightarrow> int \<Rightarrow> nat" where
  "py_bound n i = nat (if i < 0 then max 0 (int n + i) else min i (int n))"

definition py_slice :: "'a list \<Rightarrow> int \<Rightarrow> int \<Rightarrow> 'a list" where
  "py_slice xs i j =
     (let a = py_bound (length xs) i; b = py_bound (length xs) j
      in take (b - a) (drop a xs))"

definition py_setslice :: "'a list \<Rightarrow> int \<Rightarrow> int \<Rightarrow> 'a list \<Rightarrow> 'a list" where
  "py_setslice xs i j ys =
     (let a = py_bound (length xs) i; b = max a (py_bound (length xs) j)
      in take a xs @ ys @ drop b xs)"

text \<open>The in-range view the storage proofs use: a window of a list and its overwriting.\<close>

definition window :: "'a list \<Rightarrow> nat \<Rightarrow> nat \<Rightarrow> 'a list" where
  "window xs a n = take n (drop a xs)"

definition splice :: "'a list \<Rightarrow> nat \<Rightarrow> 'a list \<Rightarrow> 'a list" where
  "splice xs a ys = take a xs @ ys @ drop (a + length ys) xs"

lemma py_bound_in_range [simp]: "i \<le> n \<Longrightarrow> py_bound n (int i) = i"
  by (simp add: py_bound_def)

lemma py_bound_le: "py_bound n i \<le> n"
  by (auto simp: py_bound_def)

lemma py_slice_window:
  "a + n \<le> length xs \<Longrightarrow> py_slice xs (int a) (int (a + n)) = window xs a n"
  by (simp add: py_slice_def window_def Let_def py_bound_def flip: of_nat_add)

lemma py_setslice_splice:
  "a + length ys \<le> length xs \<Longrightarrow>
   py_setslice xs (int a) (int (a + length ys)) ys = splice xs a ys"
  by (simp add: py_setslice_def splice_def Let_def py_bound_def flip: of_nat_add)

lemma length_window [len_simps]: "a + n \<le> length xs \<Longrightarrow> length (window xs a n) = n"
  by (simp add: window_def)

lemma length_splice [len_simps]:
  "a + length ys \<le> length xs \<Longrightarrow> length (splice xs a ys) = length xs"
  by (simp add: splice_def)

lemma window_splice_same:
  "a + length ys \<le> length xs \<Longrightarrow> window (splice xs a ys) a (length ys) = ys"
  by (simp add: window_def splice_def)

lemma nth_splice:
  "a + length ys \<le> length xs \<Longrightarrow> i < length xs \<Longrightarrow>
   splice xs a ys ! i = (if a \<le> i \<and> i < a + length ys then ys ! (i - a) else xs ! i)"
  by (auto simp: splice_def nth_append min_def)

lemma nth_window: "a + n \<le> length xs \<Longrightarrow> i < n \<Longrightarrow> window xs a n ! i = xs ! (a + i)"
  by (simp add: window_def)

lemma window_eqI:
  assumes "a + n \<le> length xs" and "b + n \<le> length ys"
    and "\<And>i. i < n \<Longrightarrow> xs ! (a + i) = ys ! (b + i)"
  shows "window xs a n = window ys b n"
  using assms by (intro nth_equalityI) (auto simp: length_window nth_window)

lemma window_splice_other:
  assumes "a + length ys \<le> length xs" and "b + n \<le> length xs"
    and "b + n \<le> a \<or> a + length ys \<le> b"
  shows "window (splice xs a ys) b n = window xs b n"
  using assms by (intro window_eqI) (auto simp: length_splice nth_splice)

lemma splice_splice:
  assumes "a + length xs + length ys \<le> length d"
  shows "splice (splice d a xs) (a + length xs) ys = splice d a (xs @ ys)"
  using assms by (intro nth_equalityI) (auto simp: length_splice nth_splice nth_append)

lemma splice_Nil [simp]: "splice d a [] = d"
  by (simp add: splice_def)

lemma window_append_split:
  "window d a (m + n) = window d a m @ window d (a + m) n"
  by (simp add: window_def take_add add.commute)

lemma window_append1: "a + n \<le> length xs \<Longrightarrow> window (xs @ ys) a n = window xs a n"
  by (simp add: window_def)

lemma window_append2:
  "length xs \<le> a \<Longrightarrow> window (xs @ ys) a n = window ys (a - length xs) n"
  by (simp add: window_def)

lemma window_all: "window xs 0 (length xs) = xs"
  by (simp add: window_def)

lemma py_slice_mid:
  "i = int (length xs) \<Longrightarrow> j = int (length xs + length ys) \<Longrightarrow> py_slice (xs @ ys @ zs) i j = ys"
  using py_slice_window [of "length xs" "length ys" "xs @ ys @ zs"] by (simp add: window_def)

lemma py_slice_prefix: "j = int (length xs) \<Longrightarrow> py_slice (xs @ zs) 0 j = xs"
  using py_slice_mid [of 0 "[]" j xs zs] by simp

lemma py_slice_take: "0 \<le> j \<Longrightarrow> py_slice xs 0 j = take (nat j) xs"
  by (auto simp add: py_slice_def Let_def py_bound_def min_def)

section \<open>Big-endian byte codecs\<close>

type_synonym byte = "8 word"

fun be_enc :: "nat \<Rightarrow> nat \<Rightarrow> byte list" where
  "be_enc 0 v = []"
| "be_enc (Suc n) v = be_enc n (v div 256) @ [of_nat v]"

definition be_dec :: "byte list \<Rightarrow> nat" where
  "be_dec bs = foldl (\<lambda>a b. a * 256 + unat b) 0 bs"

lemma length_be_enc [simp, len_simps]: "length (be_enc n v) = n"
  by (induction n arbitrary: v) auto

lemma be_dec_Nil [simp]: "be_dec [] = 0"
  by (simp add: be_dec_def)

lemma be_dec_snoc [simp]: "be_dec (bs @ [b]) = be_dec bs * 256 + unat b"
  by (simp add: be_dec_def)

lemma unat_byte_less [simp]: "unat (b :: byte) < 256"
  using unsigned_less [of b, where ?'a = nat] by simp

lemma unat_of_nat_byte: "unat (of_nat v :: byte) = v mod 256"
  by (simp add: unat_of_nat)

lemma be_dec_enc_mod: "be_dec (be_enc n v) = v mod 256 ^ n"
proof (induction n arbitrary: v)
  case 0
  then show ?case by simp
next
  case (Suc n)
  have "be_dec (be_enc (Suc n) v) = (v div 256) mod 256 ^ n * 256 + v mod 256"
    by (simp add: Suc.IH unat_of_nat_byte)
  also have "\<dots> = v mod (256 * 256 ^ n)"
    by (simp add: mod_mult2_eq mult.commute)
  finally show ?case by simp
qed

lemma be_dec_enc [simp]: "v < 256 ^ n \<Longrightarrow> be_dec (be_enc n v) = v"
  by (simp add: be_dec_enc_mod)

lemma be_dec_bound: "be_dec bs < 256 ^ length bs"
proof (induction bs rule: rev_induct)
  case Nil
  then show ?case by simp
next
  case (snoc b bs)
  have "unat b < 256" by simp
  with snoc have "be_dec bs * 256 + unat b < 256 ^ length bs * 256" by linarith
  then show ?case by (simp add: mult.commute)
qed

lemma be_enc_dec: "be_enc (length bs) (be_dec bs) = bs"
proof (induction bs rule: rev_induct)
  case Nil
  then show ?case by simp
next
  case (snoc b bs)
  have b: "unat b < 256" by simp
  have "(of_nat (be_dec bs * 256 + unat b) :: byte) = b"
    by (rule word_unat_eq_iff [THEN iffD2]) (simp add: unat_of_nat_byte del: of_nat_add)
  with snoc b show ?case by (simp del: of_nat_add of_nat_mult)
qed

lemma be_dec_inj: "length xs = length ys \<Longrightarrow> be_dec xs = be_dec ys \<Longrightarrow> xs = ys"
  by (metis be_enc_dec)

text \<open>
  \<^verbatim>\<open>struct.pack\<close> of an unsigned (\<open>pack_u\<close>) and of a signed two's-complement
  (\<open>pack_s\<close>) integer of \<open>n\<close> bytes: a value that does not fit raises
  \<^verbatim>\<open>struct.error\<close>.  \<open>unpack_u\<close> and \<open>unpack_s\<close> need exactly \<open>n\<close> bytes.
\<close>

definition pack_u :: "nat \<Rightarrow> int \<Rightarrow> byte list result" where
  "pack_u n v = (if 0 \<le> v \<and> v < 256 ^ n then Inr (be_enc n (nat v)) else Inl StructError)"

definition unpack_u :: "nat \<Rightarrow> byte list \<Rightarrow> int result" where
  "unpack_u n bs = (if length bs = n then Inr (int (be_dec bs)) else Inl StructError)"

definition pack_s :: "nat \<Rightarrow> int \<Rightarrow> byte list result" where
  "pack_s n v =
     (if - (256 ^ n) \<le> 2 * v \<and> 2 * v < 256 ^ n
      then Inr (be_enc n (nat (v mod 256 ^ n))) else Inl StructError)"

definition unpack_s :: "nat \<Rightarrow> byte list \<Rightarrow> int result" where
  "unpack_s n bs =
     (if length bs = n
      then let v = int (be_dec bs) in Inr (if 2 * v < 256 ^ n then v else v - 256 ^ n)
      else Inl StructError)"

lemma pack_u_ok: "0 \<le> v \<Longrightarrow> v < 256 ^ n \<Longrightarrow> pack_u n v = Inr (be_enc n (nat v))"
  by (simp add: pack_u_def)

lemma pack_u_length [len_simps]: "pack_u n v = Inr bs \<Longrightarrow> length bs = n"
  by (auto simp: pack_u_def split: if_splits)

lemma pack_s_length [len_simps]: "pack_s n v = Inr bs \<Longrightarrow> length bs = n"
  by (auto simp: pack_s_def split: if_splits)

lemma unpack_pack_u: "pack_u n v = Inr bs \<Longrightarrow> unpack_u n bs = Inr v"
  by (auto simp: pack_u_def unpack_u_def nat_less_iff split: if_splits)

lemma unpack_pack_s:
  assumes "pack_s n v = Inr bs"
  shows "unpack_s n bs = Inr v"
proof -
  have range: "- (256 ^ n) \<le> 2 * v" "2 * v < 256 ^ n"
    and bs: "bs = be_enc n (nat (v mod 256 ^ n))"
    using assms by (auto simp: pack_s_def split: if_splits)
  have "nat (v mod 256 ^ n) < 256 ^ n"
    by (simp add: nat_less_iff)
  then have dec: "int (be_dec bs) = v mod 256 ^ n"
    by (simp add: bs)
  have "v mod 256 ^ n = (if 0 \<le> v then v else v + 256 ^ n)"
  proof (cases "0 \<le> v")
    case True
    with range show ?thesis by (simp add: mod_pos_pos_trivial)
  next
    case False
    with range have "(v + 256 ^ n) mod 256 ^ n = v + 256 ^ n"
      by (intro mod_pos_pos_trivial) auto
    with False show ?thesis by simp
  qed
  with range dec show ?thesis
    by (auto simp: unpack_s_def Let_def bs)
qed

text \<open>Bytewise (lexicographic) comparison, as Python compares \<^verbatim>\<open>bytes\<close>.\<close>

fun bytes_less :: "byte list \<Rightarrow> byte list \<Rightarrow> bool" where
  "bytes_less _ [] = False"
| "bytes_less [] (y # ys) = True"
| "bytes_less (x # xs) (y # ys) = (x < y \<or> x = y \<and> bytes_less xs ys)"

lemma be_dec_Cons: "be_dec (b # bs) = unat b * 256 ^ length bs + be_dec bs"
proof (induction bs rule: rev_induct)
  case Nil
  then show ?case using be_dec_snoc [of "[]" b] by simp
next
  case (snoc c bs)
  have "be_dec (b # bs @ [c]) = be_dec (b # bs) * 256 + unat c"
    using be_dec_snoc [of "b # bs" c] by simp
  with snoc show ?case by (simp add: algebra_simps)
qed

lemma bytes_less_be_dec:
  "length xs = length ys \<Longrightarrow> bytes_less xs ys \<longleftrightarrow> be_dec xs < be_dec ys"
proof (induction xs ys rule: list_induct2)
  case Nil
  then show ?case by simp
next
  case (Cons x xs y ys)
  let ?k = "256 ^ length ys :: nat"
  have b: "be_dec xs < ?k" "be_dec ys < ?k"
    using be_dec_bound [of xs] be_dec_bound [of ys] Cons.hyps by simp_all
  consider "unat x < unat y" | "x = y" | "unat y < unat x"
    by (metis linorder_neqE_nat word_unat_eq_iff)
  then show ?case
  proof cases
    case 1
    then have "(unat x + 1) * ?k \<le> unat y * ?k" by (intro mult_right_mono) auto
    with b have "unat x * ?k + be_dec xs < unat y * ?k + be_dec ys" by simp
    with 1 Cons show ?thesis by (simp add: be_dec_Cons word_less_nat_alt)
  next
    case 2
    with Cons show ?thesis by (simp add: be_dec_Cons)
  next
    case 3
    then have "(unat y + 1) * ?k \<le> unat x * ?k" by (intro mult_right_mono) auto
    with b have "unat y * ?k + be_dec ys < unat x * ?k + be_dec xs" by simp
    with 3 Cons show ?thesis by (auto simp add: be_dec_Cons word_less_nat_alt)
  qed
qed

section \<open>Bits of unbounded integers\<close>

text \<open>
  Python's \<^verbatim>\<open>v ^ (1 << 63)\<close> on its unbounded integers: the bit is set in a value
  that lacks it and cleared in one that has it, the sign of the number being kept.
\<close>

unbundle bit_operations_syntax

lemma xor_pow2_nonneg_less:
  assumes "0 \<le> (v::int)" and "v < 2 ^ n"
  shows "v XOR 2 ^ n = v + 2 ^ n"
proof -
  have "bit v m \<Longrightarrow> m \<noteq> n" for m
    using assms bit_take_bit_iff [of n v m] by (auto simp: take_bit_int_eq_self)
  then have disj: "v AND 2 ^ n = 0"
    by (intro bit_eqI) (auto simp: bit_simps)
  have "v XOR 2 ^ n = v OR 2 ^ n"
    using disj by (simp add: bit_eq_iff bit_simps) blast
  also have "\<dots> = v + 2 ^ n"
    using disj by (simp add: disjunctive_add_eq_or)
  finally show ?thesis .
qed

lemma xor_pow2_upper:
  assumes "2 ^ n \<le> (v::int)" and "v < 2 ^ Suc n"
  shows "v XOR 2 ^ n = v - 2 ^ n"
proof -
  have "(v - 2 ^ n) XOR 2 ^ n = v"
    using assms by (subst xor_pow2_nonneg_less) auto
  then have "v XOR 2 ^ n = ((v - 2 ^ n) XOR 2 ^ n) XOR 2 ^ n" by simp
  also have "\<dots> = v - 2 ^ n" by (simp add: xor.assoc)
  finally show ?thesis .
qed

lemma xor_pow2_negative: "(v::int) < 0 \<Longrightarrow> v XOR 2 ^ n < 0"
  by (simp add: xor_negative_int_iff)

section \<open>Fixed binary layouts\<close>

text \<open>
  A \<^verbatim>\<open>struct\<close> format is a list of big-endian fields.  Packing fails on the first
  value out of range; unpacking needs exactly the number of bytes of the format.
\<close>

datatype fmt = FU nat | FS nat

fun fmt_size :: "fmt \<Rightarrow> nat" where
  "fmt_size (FU n) = n"
| "fmt_size (FS n) = n"

definition calcsize :: "fmt list \<Rightarrow> nat" where
  "calcsize fs = sum_list (map fmt_size fs)"

fun pack_field :: "fmt \<Rightarrow> int \<Rightarrow> byte list result" where
  "pack_field (FU n) v = pack_u n v"
| "pack_field (FS n) v = pack_s n v"

fun unpack_field :: "fmt \<Rightarrow> byte list \<Rightarrow> int result" where
  "unpack_field (FU n) bs = unpack_u n bs"
| "unpack_field (FS n) bs = unpack_s n bs"

fun pack_fields :: "(fmt \<times> int) list \<Rightarrow> byte list result" where
  "pack_fields [] = Inr []"
| "pack_fields ((f, v) # fvs) =
     bindr (pack_field f v) (\<lambda>b. bindr (pack_fields fvs) (\<lambda>bs. Inr (b @ bs)))"

fun unpack_seq :: "fmt list \<Rightarrow> byte list \<Rightarrow> int list result" where
  "unpack_seq [] bs = Inr []"
| "unpack_seq (f # fs) bs =
     bindr (unpack_field f (take (fmt_size f) bs)) (\<lambda>v.
       bindr (unpack_seq fs (drop (fmt_size f) bs)) (\<lambda>vs. Inr (v # vs)))"

definition unpack_fields :: "fmt list \<Rightarrow> byte list \<Rightarrow> int list result" where
  "unpack_fields fs bs = (if length bs = calcsize fs then unpack_seq fs bs else Inl StructError)"

definition field_ok :: "fmt \<Rightarrow> int \<Rightarrow> bool" where
  "field_ok f v = is_ok (pack_field f v)"

lemma calcsize_simps [simp]:
  "calcsize [] = 0"
  "calcsize (f # fs) = fmt_size f + calcsize fs"
  by (simp_all add: calcsize_def)

lemma pack_field_length: "pack_field f v = Inr bs \<Longrightarrow> length bs = fmt_size f"
  by (cases f) (auto dest: pack_u_length pack_s_length)

lemma unpack_pack_field: "pack_field f v = Inr bs \<Longrightarrow> unpack_field f bs = Inr v"
  by (cases f) (auto dest: unpack_pack_u unpack_pack_s)

lemma pack_fields_length [len_simps]:
  "pack_fields fvs = Inr bs \<Longrightarrow> length bs = calcsize (map fst fvs)"
  by (induction fvs arbitrary: bs rule: pack_fields.induct)
    (auto simp: bindr_Inr_iff dest: pack_field_length)

lemma unpack_seq_pack_fields:
  "pack_fields fvs = Inr bs \<Longrightarrow> unpack_seq (map fst fvs) bs = Inr (map snd fvs)"
proof (induction fvs arbitrary: bs rule: pack_fields.induct)
  case 1
  then show ?case by simp
next
  case (2 f v fvs)
  then obtain b bs' where b: "pack_field f v = Inr b" and bs': "pack_fields fvs = Inr bs'"
    and bs: "bs = b @ bs'"
    by (auto simp: bindr_Inr_iff)
  then show ?case
    using 2(1) [OF bs'] pack_field_length [OF b] unpack_pack_field [OF b] by simp
qed

lemma unpack_pack_fields:
  "pack_fields fvs = Inr bs \<Longrightarrow> unpack_fields (map fst fvs) bs = Inr (map snd fvs)"
  by (simp add: unpack_fields_def pack_fields_length unpack_seq_pack_fields)

lemma pack_fields_ok_iff:
  "is_ok (pack_fields fvs) \<longleftrightarrow> (\<forall>(f, v) \<in> set fvs. field_ok f v)"
  by (induction fvs rule: pack_fields.induct)
    (auto simp: field_ok_def is_ok_iff bindr_Inr_iff)

lemma pack_fields_error: "pack_fields fvs = Inl e \<Longrightarrow> e = StructError"
proof (induction fvs rule: pack_fields.induct)
  case (2 f v fvs)
  have "pack_field f v = Inl e' \<Longrightarrow> e' = StructError" for e'
    by (cases f) (auto simp: pack_u_def pack_s_def split: if_splits)
  with 2 show ?case by (cases "pack_field f v"; cases "pack_fields fvs") auto
qed simp

lemma field_ok_simps [simp]:
  "field_ok (FU n) v \<longleftrightarrow> 0 \<le> v \<and> v < 256 ^ n"
  "field_ok (FS n) v \<longleftrightarrow> - (256 ^ n) \<le> 2 * v \<and> 2 * v < 256 ^ n"
  by (simp_all add: field_ok_def pack_u_def pack_s_def)

section \<open>The interface of a column codec\<close>

text \<open>
  What a record format relies on in the codec of one column type: a storable value has an
  encoding, the decoder recovers the value from the front of any longer byte string, and the
  declared size is the number of bytes it occupies.
\<close>

locale column_codec =
  fixes enc :: "'c \<Rightarrow> 'v \<Rightarrow> byte list result"
    and dec :: "'c \<Rightarrow> byte list \<Rightarrow> 'v result"
    and siz :: "'c \<Rightarrow> 'v \<Rightarrow> int result"
    and ok :: "'c \<Rightarrow> 'v \<Rightarrow> bool"
  assumes enc_total: "ok c v \<Longrightarrow> \<exists>bs. enc c v = Inr bs"
    and dec_enc: "ok c v \<Longrightarrow> enc c v = Inr bs \<Longrightarrow> dec c (bs @ rest) = Inr v"
    and siz_enc: "ok c v \<Longrightarrow> enc c v = Inr bs \<Longrightarrow> siz c v = Inr (int (length bs))"

end
