(* ===== verification/Types.thy ===== *)
theory Types
  imports Prelude
begin

text \<open>
  The SQL data type system, \<^verbatim>\<open>src/pysql/types.py\<close>: runtime values, the
  data types with their storage format, implicit coercion, and the parser of type names.
  Text is modelled over the code points 0 to 255 (Isabelle's \<^typ>\<open>char\<close>), which UTF-8
  encodes in one or two bytes; a byte sequence that encodes a code point above 255 is
  outside the model and counted as undecodable.  Conversions between numbers and text that
  Python's runtime performs (decimal parsing, float rounding and printing) are the fields of
  \<open>py_runtime\<close>, a parameter of the operations that use them.
\<close>

section \<open>Type identifiers and runtime values\<close>

datatype type_id =
    T_NULL | T_BOOLEAN | T_INTEGER | T_FLOAT | T_TEXT | T_VARCHAR | T_CHAR
  | T_BLOB | T_DECIMAL | T_TIMESTAMP

text \<open>
  Values: the \<^verbatim>\<open>NULL\<close> singleton, Python's \<^verbatim>\<open>None\<close>, booleans,
  unbounded integers, floats given by their IEEE 754 binary64 bits, strings and byte strings.
\<close>

datatype pyval =
    VNull
  | VNone
  | VBool bool
  | VInt int
  | VFloat "64 word"
  | VStr string
  | VBytes "byte list"

definition is_null_value :: "pyval \<Rightarrow> bool" where
  "is_null_value v = (v = VNull)"

definition null_like :: "pyval \<Rightarrow> bool" where
  "null_like v = (v = VNull \<or> v = VNone)"

record py_runtime =
  rt_int_of_str :: "string \<Rightarrow> int option"
  rt_int_of_float :: "64 word \<Rightarrow> int result"
  rt_float_of_int :: "int \<Rightarrow> 64 word result"
  rt_float_of_str :: "string \<Rightarrow> 64 word option"
  rt_float_repr :: "64 word \<Rightarrow> string"
  rt_bytes_repr :: "byte list \<Rightarrow> string"

section \<open>Python conversions\<close>

definition float_one :: "64 word" where
  "float_one = 0x3FF0000000000000"

definition float_is_zero :: "64 word \<Rightarrow> bool" where
  "float_is_zero f = (f AND 0x7FFFFFFFFFFFFFFF = 0)"

fun py_bool :: "pyval \<Rightarrow> bool" where
  "py_bool VNull = False"
| "py_bool VNone = False"
| "py_bool (VBool b) = b"
| "py_bool (VInt i) = (i \<noteq> 0)"
| "py_bool (VFloat f) = (\<not> float_is_zero f)"
| "py_bool (VStr s) = (s \<noteq> [])"
| "py_bool (VBytes bs) = (bs \<noteq> [])"

fun digits_of :: "nat \<Rightarrow> string" where
  "digits_of n =
     (if n < 10 then [char_of (48 + n)] else digits_of (n div 10) @ [char_of (48 + n mod 10)])"

declare digits_of.simps [simp del]

definition str_of_int :: "int \<Rightarrow> string" where
  "str_of_int i = (if i < 0 then CHR ''-'' # digits_of (nat (- i)) else digits_of (nat i))"

fun py_str :: "py_runtime \<Rightarrow> pyval \<Rightarrow> string" where
  "py_str rt VNull = ''NULL''"
| "py_str rt VNone = ''None''"
| "py_str rt (VBool b) = (if b then ''True'' else ''False'')"
| "py_str rt (VInt i) = str_of_int i"
| "py_str rt (VFloat f) = rt_float_repr rt f"
| "py_str rt (VStr s) = s"
| "py_str rt (VBytes bs) = rt_bytes_repr rt bs"

fun py_int :: "py_runtime \<Rightarrow> pyval \<Rightarrow> int result" where
  "py_int rt VNull = Inl TypeError"
| "py_int rt VNone = Inl TypeError"
| "py_int rt (VBool b) = Inr (of_bool b)"
| "py_int rt (VInt i) = Inr i"
| "py_int rt (VFloat f) = rt_int_of_float rt f"
| "py_int rt (VStr s) =
     (case rt_int_of_str rt s of None \<Rightarrow> Inl ValueError | Some i \<Rightarrow> Inr i)"
| "py_int rt (VBytes bs) =
     (case rt_int_of_str rt (map (\<lambda>b. char_of (unat b)) bs) of
        None \<Rightarrow> Inl ValueError | Some i \<Rightarrow> Inr i)"

fun py_float :: "py_runtime \<Rightarrow> pyval \<Rightarrow> 64 word result" where
  "py_float rt VNull = Inl TypeError"
| "py_float rt VNone = Inl TypeError"
| "py_float rt (VBool b) = Inr (if b then float_one else 0)"
| "py_float rt (VInt i) = rt_float_of_int rt i"
| "py_float rt (VFloat f) = Inr f"
| "py_float rt (VStr s) =
     (case rt_float_of_str rt s of None \<Rightarrow> Inl ValueError | Some f \<Rightarrow> Inr f)"
| "py_float rt (VBytes bs) =
     (case rt_float_of_str rt (map (\<lambda>b. char_of (unat b)) bs) of
        None \<Rightarrow> Inl ValueError | Some f \<Rightarrow> Inr f)"

text \<open>\<^verbatim>\<open>bytes(value)\<close>: an integer gives that many zero bytes.\<close>

fun py_bytes :: "pyval \<Rightarrow> byte list result" where
  "py_bytes (VBytes bs) = Inr bs"
| "py_bytes (VInt i) = (if i < 0 then Inl ValueError else Inr (replicate (nat i) 0))"
| "py_bytes (VBool b) = Inr (replicate (of_bool b) 0)"
| "py_bytes v = Inl TypeError"

section \<open>UTF-8\<close>

definition utf8_char :: "char \<Rightarrow> byte list" where
  "utf8_char c =
     (let n = (of_char c :: nat) in
      if n < 128 then [of_nat n] else [of_nat (192 + n div 64), of_nat (128 + n mod 64)])"

definition utf8_encode :: "string \<Rightarrow> byte list" where
  "utf8_encode s = concat (map utf8_char s)"

fun utf8_decode :: "byte list \<Rightarrow> string result" where
  "utf8_decode [] = Inr []"
| "utf8_decode (b # bs) =
     (if b < 128 then bindr (utf8_decode bs) (\<lambda>s. Inr (char_of (unat b) # s))
      else case bs of
          [] \<Rightarrow> Inl UnicodeError
        | c # cs \<Rightarrow>
            if (b = 194 \<or> b = 195) \<and> 128 \<le> c \<and> c < 192
            then bindr (utf8_decode cs)
                   (\<lambda>s. Inr (char_of ((unat b - 192) * 64 + (unat c - 128)) # s))
            else Inl UnicodeError)"

text \<open>\<^verbatim>\<open>str.isspace\<close> on the modelled code points, and \<^verbatim>\<open>rstrip\<close>.\<close>

definition py_isspace :: "char \<Rightarrow> bool" where
  "py_isspace c =
     (let n = (of_char c :: nat) in
      9 \<le> n \<and> n \<le> 13 \<or> 28 \<le> n \<and> n \<le> 32 \<or> n = 133 \<or> n = 160)"

definition py_rstrip :: "string \<Rightarrow> string" where
  "py_rstrip s = rev (dropWhile py_isspace (rev s))"

definition py_strip :: "string \<Rightarrow> string" where
  "py_strip s = py_rstrip (dropWhile py_isspace s)"

lemma utf8_encode_simps [simp]:
  "utf8_encode [] = []"
  "utf8_encode (c # s) = utf8_char c @ utf8_encode s"
  "utf8_encode (s @ t) = utf8_encode s @ utf8_encode t"
  by (simp_all add: utf8_encode_def)

lemma of_char_less_256 [simp]: "(of_char c :: nat) < 256"
  by (cases c) (auto simp: of_char_def split: if_splits)

lemma utf8_decode_char:
  "utf8_decode (utf8_char c @ bs) = bindr (utf8_decode bs) (\<lambda>s. Inr (c # s))"
proof (cases "(of_char c :: nat) < 128")
  case True
  then have "(of_nat (of_char c) :: byte) < 128" "unat (of_nat (of_char c) :: byte) = of_char c"
    by (simp_all add: word_less_nat_alt unat_of_nat_byte)
  with True show ?thesis by (simp add: utf8_char_def)
next
  case False
  define n where "n = (of_char c :: nat)"
  have n: "128 \<le> n" "n < 256" using False by (simp_all add: n_def)
  then have "n div 64 = 2 \<or> n div 64 = 3" by auto
  moreover have "n = n div 64 * 64 + n mod 64" by simp
  moreover have "unat (of_nat (192 + n div 64) :: byte) = 192 + n div 64"
    using n by (simp only: unat_of_nat_byte) auto
  moreover have "unat (of_nat (128 + n mod 64) :: byte) = 128 + n mod 64"
    by (simp only: unat_of_nat_byte) auto
  moreover have "char_of n = c" by (simp add: n_def)
  ultimately show ?thesis
    using n unfolding utf8_char_def Let_def n_def [symmetric]
    by (auto simp add: word_less_nat_alt word_le_nat_alt word_unat_eq_iff)
qed

lemma utf8_decode_encode [simp]: "utf8_decode (utf8_encode s) = Inr s"
  by (induction s) (auto simp: utf8_decode_char)

lemma utf8_decode_encode_append:
  "utf8_decode (utf8_encode s @ bs) = bindr (utf8_decode bs) (\<lambda>t. Inr (s @ t))"
  by (induction s) (auto simp: utf8_decode_char bindr_assoc)

section \<open>Data types\<close>

datatype data_type =
    NullType
  | BooleanType
  | IntegerType
  | FloatType
  | TextType
  | VarCharType int
  | CharType int
  | BlobType
  | TimestampType

fun type_id_of :: "data_type \<Rightarrow> type_id" where
  "type_id_of NullType = T_NULL"
| "type_id_of BooleanType = T_BOOLEAN"
| "type_id_of IntegerType = T_INTEGER"
| "type_id_of FloatType = T_FLOAT"
| "type_id_of TextType = T_TEXT"
| "type_id_of (VarCharType n) = T_VARCHAR"
| "type_id_of (CharType n) = T_CHAR"
| "type_id_of BlobType = T_BLOB"
| "type_id_of TimestampType = T_TIMESTAMP"

text \<open>\<^verbatim>\<open>encoded.ljust(n, b"\x20")\<close>\<close>

definition ljust_space :: "byte list \<Rightarrow> int \<Rightarrow> byte list" where
  "ljust_space bs n = bs @ replicate (nat n - length bs) 32"

text \<open>The sort-preserving key of a float: all bits flipped when negative, else the sign bit.\<close>

definition float_key :: "64 word \<Rightarrow> 64 word" where
  "float_key w = (if drop_bit 63 w \<noteq> 0 then w XOR 0xFFFFFFFFFFFFFFFF else w XOR push_bit 63 1)"

definition float_unkey :: "64 word \<Rightarrow> 64 word" where
  "float_unkey w = (if drop_bit 63 w \<noteq> 0 then w XOR push_bit 63 1 else w XOR 0xFFFFFFFFFFFFFFFF)"

definition int_serialize :: "int \<Rightarrow> byte list result" where
  "int_serialize v = pack_u 8 (v XOR 2 ^ 63)"

definition int_deserialize :: "byte list \<Rightarrow> int result" where
  "int_deserialize data = bindr (unpack_u 8 (py_slice data 0 8)) (\<lambda>e. Inr (e XOR 2 ^ 63))"

fun storage_size :: "py_runtime \<Rightarrow> data_type \<Rightarrow> pyval \<Rightarrow> int result" where
  "storage_size rt NullType v = Inr 0"
| "storage_size rt BooleanType v = Inr 1"
| "storage_size rt IntegerType v = Inr 8"
| "storage_size rt FloatType v = Inr 8"
| "storage_size rt TextType v = Inr (4 + int (length (utf8_encode (py_str rt v))))"
| "storage_size rt (VarCharType n) v = Inr (2 + min (int (length (utf8_encode (py_str rt v)))) n)"
| "storage_size rt (CharType n) v = Inr n"
| "storage_size rt BlobType v = bindr (py_bytes v) (\<lambda>bs. Inr (4 + int (length bs)))"
| "storage_size rt TimestampType v = Inr 8"

fun serialize :: "py_runtime \<Rightarrow> data_type \<Rightarrow> pyval \<Rightarrow> byte list result" where
  "serialize rt NullType v = Inr []"
| "serialize rt BooleanType v = Inr [of_bool (py_bool v)]"
| "serialize rt IntegerType v = bindr (py_int rt v) int_serialize"
| "serialize rt FloatType v =
     bindr (py_float rt v) (\<lambda>f. Inr (be_enc 8 (unat (float_key f))))"
| "serialize rt TextType v =
     (let encoded = utf8_encode (py_str rt v) in
      bindr (pack_u 4 (int (length encoded))) (\<lambda>l. Inr (l @ encoded)))"
| "serialize rt (VarCharType n) v =
     (let encoded = py_slice (utf8_encode (py_str rt v)) 0 n in
      bindr (pack_u 2 (int (length encoded))) (\<lambda>l. Inr (l @ encoded)))"
| "serialize rt (CharType n) v =
     Inr (ljust_space (py_slice (utf8_encode (py_str rt v)) 0 n) n)"
| "serialize rt BlobType v =
     bindr (py_bytes v) (\<lambda>raw. bindr (pack_u 4 (int (length raw))) (\<lambda>l. Inr (l @ raw)))"
| "serialize rt TimestampType v = bindr (py_int rt v) int_serialize"

fun deserialize :: "data_type \<Rightarrow> byte list \<Rightarrow> pyval result" where
  "deserialize NullType data = Inr VNull"
| "deserialize BooleanType data =
     (case py_slice data 0 1 of [b] \<Rightarrow> Inr (VBool (b \<noteq> 0)) | _ \<Rightarrow> Inl StructError)"
| "deserialize IntegerType data = bindr (int_deserialize data) (\<lambda>i. Inr (VInt i))"
| "deserialize FloatType data =
     Inr (VFloat (float_unkey (of_nat (be_dec (py_slice data 0 8)))))"
| "deserialize TextType data =
     bindr (unpack_u 4 (py_slice data 0 4)) (\<lambda>len.
       bindr (utf8_decode (py_slice data 4 (4 + len))) (\<lambda>s. Inr (VStr s)))"
| "deserialize (VarCharType n) data =
     bindr (unpack_u 2 (py_slice data 0 2)) (\<lambda>len.
       bindr (utf8_decode (py_slice data 2 (2 + len))) (\<lambda>s. Inr (VStr s)))"
| "deserialize (CharType n) data =
     bindr (utf8_decode (py_slice data 0 n)) (\<lambda>s. Inr (VStr (py_rstrip s)))"
| "deserialize BlobType data =
     bindr (unpack_u 4 (py_slice data 0 4)) (\<lambda>len. Inr (VBytes (py_slice data 4 (4 + len))))"
| "deserialize TimestampType data = bindr (int_deserialize data) (\<lambda>i. Inr (VInt i))"

fun validate :: "data_type \<Rightarrow> pyval \<Rightarrow> bool" where
  "validate NullType v = is_null_value v"
| "validate BooleanType v = (case v of VBool _ \<Rightarrow> True | VInt _ \<Rightarrow> True | _ \<Rightarrow> False)"
| "validate IntegerType v =
     (case v of VInt i \<Rightarrow> - (2 ^ 63) \<le> i \<and> i < 2 ^ 63 | _ \<Rightarrow> False)"
| "validate FloatType v = (case v of VInt _ \<Rightarrow> True | VFloat _ \<Rightarrow> True | _ \<Rightarrow> False)"
| "validate TextType v = (case v of VStr _ \<Rightarrow> True | _ \<Rightarrow> False)"
| "validate (VarCharType n) v =
     (case v of VStr s \<Rightarrow> int (length (utf8_encode s)) \<le> n | _ \<Rightarrow> False)"
| "validate (CharType n) v =
     (case v of VStr s \<Rightarrow> int (length (utf8_encode s)) \<le> n | _ \<Rightarrow> False)"
| "validate BlobType v = (case v of VBytes _ \<Rightarrow> True | _ \<Rightarrow> False)"
| "validate TimestampType v =
     (case v of VBool _ \<Rightarrow> True | VInt _ \<Rightarrow> True | VFloat _ \<Rightarrow> True | _ \<Rightarrow> False)"

fun default_value :: "data_type \<Rightarrow> pyval" where
  "default_value NullType = VNull"
| "default_value BooleanType = VBool False"
| "default_value IntegerType = VInt 0"
| "default_value FloatType = VFloat 0"
| "default_value TextType = VStr []"
| "default_value (VarCharType n) = VStr []"
| "default_value (CharType n) = VStr []"
| "default_value BlobType = VBytes []"
| "default_value TimestampType = VInt 0"

fun is_compatible :: "data_type \<Rightarrow> data_type \<Rightarrow> bool" where
  "is_compatible BooleanType other = (type_id_of other \<in> {T_BOOLEAN, T_INTEGER})"
| "is_compatible IntegerType other = (type_id_of other \<in> {T_INTEGER, T_BOOLEAN, T_FLOAT})"
| "is_compatible FloatType other = (type_id_of other \<in> {T_FLOAT, T_INTEGER})"
| "is_compatible (VarCharType n) other = (type_id_of other \<in> {T_VARCHAR, T_TEXT, T_CHAR})"
| "is_compatible (CharType n) other = (type_id_of other \<in> {T_CHAR, T_VARCHAR, T_TEXT})"
| "is_compatible t other = (type_id_of t = type_id_of other)"

section \<open>Coercion\<close>

fun type_precedence :: "type_id \<Rightarrow> int" where
  "type_precedence T_NULL = 0"
| "type_precedence T_BOOLEAN = 1"
| "type_precedence T_INTEGER = 2"
| "type_precedence T_FLOAT = 3"
| "type_precedence T_CHAR = 4"
| "type_precedence T_VARCHAR = 5"
| "type_precedence T_TEXT = 6"
| "type_precedence T_BLOB = 7"
| "type_precedence T_TIMESTAMP = 8"
| "type_precedence T_DECIMAL = -1"

definition coercion_rules :: "(type_id \<times> type_id) list" where
  "coercion_rules =
     [(T_BOOLEAN, T_INTEGER), (T_INTEGER, T_FLOAT), (T_CHAR, T_VARCHAR),
      (T_CHAR, T_TEXT), (T_VARCHAR, T_TEXT), (T_INTEGER, T_TIMESTAMP)]"

definition can_coerce :: "data_type \<Rightarrow> data_type \<Rightarrow> bool" where
  "can_coerce from_type to_type =
     (if type_id_of from_type = T_NULL then True
      else if type_id_of from_type = type_id_of to_type then True
      else (type_id_of from_type, type_id_of to_type) \<in> set coercion_rules)"

definition coerce_value ::
  "py_runtime \<Rightarrow> pyval \<Rightarrow> data_type \<Rightarrow> data_type \<Rightarrow> pyval result" where
  "coerce_value rt v from_type to_type =
     (if is_null_value v then Inr VNull
      else if type_id_of from_type = type_id_of to_type then Inr v
      else if \<not> can_coerce from_type to_type then Inl TypeError
      else let key = (type_id_of from_type, type_id_of to_type) in
        if key = (T_BOOLEAN, T_INTEGER) then bindr (py_int rt v) (\<lambda>i. Inr (VInt i))
        else if key = (T_INTEGER, T_FLOAT) then bindr (py_float rt v) (\<lambda>f. Inr (VFloat f))
        else if key \<in> {(T_CHAR, T_VARCHAR), (T_CHAR, T_TEXT), (T_VARCHAR, T_TEXT)}
        then Inr (VStr (py_str rt v))
        else if key = (T_INTEGER, T_TIMESTAMP) then bindr (py_int rt v) (\<lambda>i. Inr (VInt i))
        else Inl TypeError)"

definition resolve_common_type :: "data_type \<Rightarrow> data_type \<Rightarrow> data_type result" where
  "resolve_common_type a b =
     (if type_id_of a = T_NULL then Inr b
      else if type_id_of b = T_NULL then Inr a
      else if type_id_of a = type_id_of b then Inr a
      else if type_precedence (type_id_of b) \<le> type_precedence (type_id_of a) \<and> can_coerce b a
      then Inr a
      else if can_coerce a b then Inr b
      else Inl TypeError)"

section \<open>Type names\<close>

text \<open>
  \<^verbatim>\<open>str.upper\<close> on ASCII letters; SQL type names and keywords are ASCII, so
  upper-casing of the other modelled code points never decides anything here.
\<close>

definition upper_char :: "char \<Rightarrow> char" where
  "upper_char c =
     (let n = (of_char c :: nat) in if 97 \<le> n \<and> n \<le> 122 then char_of (n - 32) else c)"

definition py_upper :: "string \<Rightarrow> string" where
  "py_upper s = map upper_char s"

definition startswith :: "string \<Rightarrow> string \<Rightarrow> bool" where
  "startswith s p = (take (length p) s = p)"

text \<open>\<^verbatim>\<open>s.split("(")[1]\<close> and \<^verbatim>\<open>s.rstrip(")")\<close>\<close>

definition after_lparen :: "string \<Rightarrow> string" where
  "after_lparen s =
     takeWhile (\<lambda>c. c \<noteq> CHR ''('') (tl (dropWhile (\<lambda>c. c \<noteq> CHR ''('') s))"

definition rstrip_rparen :: "string \<Rightarrow> string" where
  "rstrip_rparen s = rev (dropWhile (\<lambda>c. c = CHR '')'') (rev s))"

definition type_param :: "py_runtime \<Rightarrow> string \<Rightarrow> int result" where
  "type_param rt s = py_int rt (VStr (rstrip_rparen (after_lparen s)))"

definition type_from_string :: "py_runtime \<Rightarrow> string \<Rightarrow> data_type result" where
  "type_from_string rt str =
     (let s = py_upper (py_strip str) in
      if s = ''INTEGER'' \<or> s = ''INT'' then Inr IntegerType
      else if s = ''FLOAT'' \<or> s = ''DOUBLE'' \<or> s = ''REAL'' then Inr FloatType
      else if s = ''BOOLEAN'' \<or> s = ''BOOL'' then Inr BooleanType
      else if s = ''TEXT'' then Inr TextType
      else if s = ''BLOB'' then Inr BlobType
      else if s = ''TIMESTAMP'' then Inr TimestampType
      else if startswith s ''VARCHAR'' then
        (if CHR ''('' \<in> set s then bindr (type_param rt s) (\<lambda>n. Inr (VarCharType n))
         else Inr (VarCharType 255))
      else if startswith s ''CHAR'' then
        (if CHR ''('' \<in> set s then bindr (type_param rt s) (\<lambda>n. Inr (CharType n))
         else Inr (CharType 1))
      else Inl ValueError)"

section \<open>Storage round trips\<close>

text \<open>The values each type stores and reads back unchanged.\<close>

fun storable :: "data_type \<Rightarrow> pyval \<Rightarrow> bool" where
  "storable NullType v = (v = VNull)"
| "storable BooleanType v = (case v of VBool _ \<Rightarrow> True | _ \<Rightarrow> False)"
| "storable IntegerType v = (case v of VInt i \<Rightarrow> 0 \<le> i \<and> i < 2 ^ 64 | _ \<Rightarrow> False)"
| "storable FloatType v = (case v of VFloat _ \<Rightarrow> True | _ \<Rightarrow> False)"
| "storable TextType v =
     (case v of VStr s \<Rightarrow> length (utf8_encode s) < 2 ^ 32 | _ \<Rightarrow> False)"
| "storable (VarCharType n) v =
     (case v of VStr s \<Rightarrow> int (length (utf8_encode s)) \<le> n \<and> length (utf8_encode s) < 2 ^ 16
      | _ \<Rightarrow> False)"
| "storable (CharType n) v =
     (case v of VStr s \<Rightarrow> int (length (utf8_encode s)) \<le> n \<and> py_rstrip s = s | _ \<Rightarrow> False)"
| "storable BlobType v = (case v of VBytes bs \<Rightarrow> length bs < 2 ^ 32 | _ \<Rightarrow> False)"
| "storable TimestampType v = (case v of VInt i \<Rightarrow> 0 \<le> i \<and> i < 2 ^ 64 | _ \<Rightarrow> False)"

lemma int_serialize_nonneg:
  assumes "0 \<le> i" and "i < 2 ^ 64"
  shows "\<exists>e. int_serialize i = Inr (be_enc 8 e) \<and> e < 256 ^ 8 \<and> int e XOR 2 ^ 63 = i"
proof -
  have "0 \<le> i XOR 2 ^ 63 \<and> i XOR 2 ^ 63 < 2 ^ 64"
    using assms xor_pow2_nonneg_less [of i 63] xor_pow2_upper [of 63 i]
    by (cases "i < 2 ^ 63") auto
  then show ?thesis
    by (intro exI [of _ "nat (i XOR 2 ^ 63)"])
      (auto simp: int_serialize_def pack_u_def nat_less_iff xor.assoc)
qed

lemma int_deserialize_enc:
  "e < 256 ^ 8 \<Longrightarrow> int_deserialize (be_enc 8 e @ rest) = Inr (int e XOR 2 ^ 63)"
  by (simp add: int_deserialize_def py_slice_take unpack_u_def)

lemma int_serialize_negative: "i < 0 \<Longrightarrow> int_serialize i = Inl StructError"
  using xor_pow2_negative [of i 63] by (simp add: int_serialize_def pack_u_def)

lemma float_sign_bit: "drop_bit 63 (w :: 64 word) \<noteq> 0 \<longleftrightarrow> 2 ^ 63 \<le> uint w"
proof -
  have "drop_bit 63 w \<noteq> 0 \<longleftrightarrow> unat (drop_bit 63 w) \<noteq> 0"
    by (simp only: unsigned_eq_0_iff)
  also have "\<dots> \<longleftrightarrow> unat w div 2 ^ 63 \<noteq> 0"
    by (simp only: unat_drop_bit_eq drop_bit_eq_div [of 63 "unat w"])
  also have "\<dots> \<longleftrightarrow> 2 ^ 63 \<le> unat w"
    by (simp add: div_eq_0_iff linorder_not_less)
  also have "\<dots> \<longleftrightarrow> 2 ^ 63 \<le> uint w"
    by (simp only: uint_nat numeral_power_le_of_nat_cancel_iff)
  finally show ?thesis .
qed

lemma uint_64_less: "uint (w :: 64 word) < 2 ^ 64"
  using unsigned_less [of w, where ?'a = int] by simp

lemma uint_xor_ones: "uint (w XOR (0xFFFFFFFFFFFFFFFF :: 64 word)) = 2 ^ 64 - 1 - uint w"
proof -
  have m1: "(0xFFFFFFFFFFFFFFFF :: 64 word) = - 1" by simp
  have "w XOR - 1 = - 1 - w" by (simp add: not_eq_complement)
  moreover have "uint (- 1 - w) = uint (- 1 :: 64 word) - uint w"
    by (rule uint_sub_lem [THEN iffD1]) (use uint_64_less [of w] in \<open>simp add: unsigned_minus_1_eq_mask mask_eq_exp_minus_1\<close>)
  ultimately show ?thesis
    unfolding m1 by (simp add: unsigned_minus_1_eq_mask mask_eq_exp_minus_1)
qed

lemma uint_xor_sign:
  "uint (w XOR push_bit 63 (1 :: 64 word)) =
     (if 2 ^ 63 \<le> uint w then uint w - 2 ^ 63 else uint w + 2 ^ 63)"
proof -
  have "uint (w XOR push_bit 63 (1 :: 64 word)) = uint w XOR 2 ^ 63"
    by (simp add: unsigned_xor_eq)
  then show ?thesis
    using xor_pow2_nonneg_less [of "uint w" 63] xor_pow2_upper [of 63 "uint w"] uint_64_less [of w]
    by simp
qed

lemma uint_float_key:
  "uint (float_key w) = (if 2 ^ 63 \<le> uint w then 2 ^ 64 - 1 - uint w else uint w + 2 ^ 63)"
  by (auto simp only: float_key_def float_sign_bit uint_xor_ones uint_xor_sign
      split: if_splits)

lemma uint_float_unkey:
  "uint (float_unkey w) = (if 2 ^ 63 \<le> uint w then uint w - 2 ^ 63 else 2 ^ 64 - 1 - uint w)"
  by (auto simp only: float_unkey_def float_sign_bit uint_xor_ones uint_xor_sign
      split: if_splits)

lemma float_unkey_key [simp]: "float_unkey (float_key w) = w"
  by (rule word_uint_eqI) (use uint_64_less [of w] in \<open>simp add: uint_float_key uint_float_unkey\<close>)

lemma float_key_unkey [simp]: "float_key (float_unkey w) = w"
  by (rule word_uint_eqI) (use uint_64_less [of w] in \<open>simp add: uint_float_key uint_float_unkey\<close>)

lemma unat_float_bytes:
  "be_dec (be_enc 8 (unat (w :: 64 word))) = unat w"
  using unsigned_less [of w, where ?'a = nat] by (simp add: be_dec_enc_mod)

text \<open>Every storable value is encoded, in as many bytes as declared, and decoded again.\<close>

lemma serialize_total: "storable c v \<Longrightarrow> \<exists>bs. serialize rt c v = Inr bs"
proof (cases c)
  case IntegerType
  moreover assume "storable c v"
  ultimately show ?thesis
    using int_serialize_nonneg by (fastforce split: pyval.splits)
next
  case TimestampType
  moreover assume "storable c v"
  ultimately show ?thesis
    using int_serialize_nonneg by (fastforce split: pyval.splits)
qed (auto simp: Let_def pack_u_def py_slice_take split: pyval.splits)

lemma decode_int_column:
  assumes "0 \<le> i" "i < 2 ^ 64" "int_serialize i = Inr bs"
  shows "int_deserialize (bs @ rest) = Inr i" and "length bs = 8"
proof -
  obtain e where "bs = be_enc 8 e" "e < 256 ^ 8" "int e XOR 2 ^ 63 = i"
    using int_serialize_nonneg [OF assms(1,2)] assms(3) by auto
  then show "int_deserialize (bs @ rest) = Inr i" and "length bs = 8"
    using int_deserialize_enc by simp_all
qed

lemma decode_prefixed:
  assumes "pack_u k (int (length body)) = Inr l"
  shows "unpack_u k (py_slice (l @ body @ rest) 0 (int k)) = Inr (int (length body))"
    and "py_slice (l @ body @ rest) (int k) (int k + int (length body)) = body"
    and "length l = k"
proof -
  show len: "length l = k" using assms by (rule pack_u_length)
  then have "py_slice (l @ body @ rest) 0 (int k) = l"
    by (intro py_slice_prefix) simp
  then show "unpack_u k (py_slice (l @ body @ rest) 0 (int k)) = Inr (int (length body))"
    using unpack_pack_u [OF assms] by simp
  show "py_slice (l @ body @ rest) (int k) (int k + int (length body)) = body"
    by (rule py_slice_mid) (simp_all add: len)
qed

lemma py_slice_utf8 [simp]:
  "int (length bs) \<le> n \<Longrightarrow> py_slice bs 0 n = bs"
  by (simp add: py_slice_take nat_le_iff le_nat_iff)

lemma char_of_32 [simp]: "char_of (32 :: nat) = CHR '' ''"
  by code_simp

lemma utf8_decode_spaces: "utf8_decode (replicate k 32) = Inr (replicate k CHR '' '')"
  by (induction k) auto

lemma py_rstrip_spaces: "py_rstrip (s @ replicate k CHR '' '') = py_rstrip s"
proof -
  have "py_isspace CHR '' ''" by (simp add: py_isspace_def)
  then have "dropWhile py_isspace (replicate k CHR '' '' @ rev s) = dropWhile py_isspace (rev s)"
    by (induction k) auto
  then show ?thesis by (simp add: py_rstrip_def)
qed

lemma char_column:
  assumes "int (length (utf8_encode s)) \<le> n" and "py_rstrip s = s"
  shows "deserialize (CharType n) (ljust_space (utf8_encode s) n @ rest) = Inr (VStr s)"
    and "length (ljust_space (utf8_encode s) n) = nat n"
proof -
  show len: "length (ljust_space (utf8_encode s) n) = nat n"
    using assms(1) by (simp add: ljust_space_def)
  then have "py_slice (ljust_space (utf8_encode s) n @ rest) 0 n = ljust_space (utf8_encode s) n"
    by (intro py_slice_prefix) (use assms(1) in simp)
  then show "deserialize (CharType n) (ljust_space (utf8_encode s) n @ rest) = Inr (VStr s)"
    using assms(2)
    by (simp add: ljust_space_def utf8_decode_encode_append utf8_decode_spaces py_rstrip_spaces)
qed

lemma float_column:
  "deserialize FloatType (be_enc 8 (unat (float_key f)) @ rest) = Inr (VFloat f)"
proof -
  have "py_slice (be_enc 8 (unat (float_key f)) @ rest) 0 8 = be_enc 8 (unat (float_key f))"
    by (rule py_slice_prefix) simp
  then show ?thesis by (simp add: unat_float_bytes)
qed

lemma deserialize_serialize:
  assumes "storable c v" and "serialize rt c v = Inr bs"
  shows "deserialize c (bs @ rest) = Inr v"
proof (cases c)
  case NullType
  with assms show ?thesis by simp
next
  case BooleanType
  with assms show ?thesis
    by (auto split: pyval.splits simp: py_slice_take)
next
  case IntegerType
  with assms show ?thesis
    by (auto split: pyval.splits simp: decode_int_column(1))
next
  case TimestampType
  with assms show ?thesis
    by (auto split: pyval.splits simp: decode_int_column(1))
next
  case FloatType
  with assms show ?thesis
    by (auto split: pyval.splits simp: float_column simp del: deserialize.simps)
next
  case TextType
  with assms show ?thesis
    by (auto split: pyval.splits simp: Let_def bindr_Inr_iff)
      (use decode_prefixed(1,2) [of 4] in \<open>simp\<close>)
next
  case (VarCharType n)
  with assms show ?thesis
    by (auto split: pyval.splits simp: Let_def bindr_Inr_iff)
      (use decode_prefixed(1,2) [of 2] in \<open>simp\<close>)
next
  case BlobType
  with assms show ?thesis
    by (auto split: pyval.splits simp: Let_def bindr_Inr_iff)
      (use decode_prefixed(1,2) [of 4] in \<open>simp\<close>)
next
  case (CharType n)
  with assms show ?thesis
    by (auto split: pyval.splits simp: char_column(1) simp del: deserialize.simps)
qed

lemma storage_size_serialize:
  assumes "storable c v" and "serialize rt c v = Inr bs"
  shows "storage_size rt c v = Inr (int (length bs))"
  using assms
  by (cases c) (auto split: pyval.splits
      simp: Let_def bindr_Inr_iff decode_int_column(2) char_column(2) len_simps)

interpretation types_codec:
  column_codec "serialize rt" deserialize "storage_size rt" storable for rt
  by unfold_locales (rule serialize_total, assumption, rule deserialize_serialize,
      assumption+, rule storage_size_serialize, assumption+)

text \<open>
  C29: every value a column type can hold is written in exactly the number of bytes the type
  declares, and read back unchanged from the front of any byte string that starts with it.
\<close>

theorem column_roundtrip:
  assumes "storable c v"
  shows "\<exists>bs. serialize rt c v = Inr bs \<and> deserialize c (bs @ rest) = Inr v \<and>
           storage_size rt c v = Inr (int (length bs))"
proof -
  obtain bs where "serialize rt c v = Inr bs"
    using types_codec.enc_total [OF assms] by blast
  with assms show ?thesis
    using types_codec.dec_enc types_codec.siz_enc by blast
qed

theorem column_roundtrip_witness:
  "\<forall>rt. \<exists>bs. serialize rt (VarCharType 3) (VStr ''abc'') = Inr bs \<and>
     deserialize (VarCharType 3) (bs @ [7]) = Inr (VStr ''abc'') \<and>
     storage_size rt (VarCharType 3) (VStr ''abc'') = Inr (int (length bs))"
  by (rule allI, rule column_roundtrip) (simp add: utf8_char_def)

text \<open>
  An INTEGER or TIMESTAMP column accepts negative numbers but cannot store them.
  Flipping bit 63 of a negative unbounded integer leaves it negative, so
  \<^verbatim>\<open>struct.pack(">Q", ..)\<close> raises for every negative value the type validates.
\<close>

theorem negative_integers_not_storable:
  assumes "- (2 ^ 63) \<le> i" and "i < 0"
  shows "validate IntegerType (VInt i) \<and> validate TimestampType (VInt i) \<and>
    serialize rt IntegerType (VInt i) = Inl StructError \<and>
    serialize rt TimestampType (VInt i) = Inl StructError"
  using assms by (simp_all add: int_serialize_negative)

theorem negative_integers_not_storable_witness:
  "\<forall>rt. serialize rt IntegerType (VInt (- 1)) = Inl StructError"
  using negative_integers_not_storable [of "- 1"] by simp

text \<open>
  On the integers it can store, the integer encoding preserves order: comparing the
  stored bytes compares the numbers (the range is that of non-negative 64-bit integers).
\<close>

theorem int_bytes_order:
  assumes "0 \<le> a" "a < 2 ^ 63" "0 \<le> b" "b < 2 ^ 63"
    and "serialize rt IntegerType (VInt a) = Inr xs"
    and "serialize rt IntegerType (VInt b) = Inr ys"
  shows "bytes_less xs ys \<longleftrightarrow> a < b"
proof -
  have "int_serialize v = Inr zs \<Longrightarrow> length zs = 8 \<and> int (be_dec zs) = v + 2 ^ 63"
    if "0 \<le> v" "v < 2 ^ 63" for v zs
    using that xor_pow2_nonneg_less [of v 63]
    by (auto simp: int_serialize_def pack_u_def nat_less_iff split: if_splits)
  from this [of a xs] this [of b ys] assms
  have "length xs = length ys" "int (be_dec xs) < int (be_dec ys) \<longleftrightarrow> a < b" by auto
  then show ?thesis by (simp add: bytes_less_be_dec)
qed

theorem int_bytes_order_witness:
  "\<forall>rt. \<exists>xs ys. serialize rt IntegerType (VInt 1) = Inr xs \<and>
     serialize rt IntegerType (VInt 2) = Inr ys \<and> bytes_less xs ys"
proof
  fix rt :: py_runtime
  obtain xs ys where "serialize rt IntegerType (VInt 1) = Inr xs"
    and "serialize rt IntegerType (VInt 2) = Inr ys"
    using serialize_total [of IntegerType "VInt 1" rt]
      serialize_total [of IntegerType "VInt 2" rt] by auto
  moreover from this have "bytes_less xs ys \<longleftrightarrow> (1::int) < 2"
    by (intro int_bytes_order) simp_all
  ultimately show "\<exists>xs ys. serialize rt IntegerType (VInt 1) = Inr xs \<and>
     serialize rt IntegerType (VInt 2) = Inr ys \<and> bytes_less xs ys" by auto
qed

text \<open>
  The order of floats read off their bits: magnitude, negated when the sign bit is set.  On
  numbers (not NaN) this is the IEEE order, except that it separates -0 from +0 in the key.
\<close>

definition float_rank :: "64 word \<Rightarrow> int" where
  "float_rank w = (if 2 ^ 63 \<le> uint w then 2 ^ 63 - uint w else uint w)"

definition float_neg :: "64 word \<Rightarrow> bool" where
  "float_neg w = (2 ^ 63 \<le> uint w)"

text \<open>
  The float encoding preserves order: comparing the stored bytes compares the signed
  magnitudes of the floats, with -0 placed just before +0.
\<close>

theorem float_bytes_order:
  assumes "serialize rt FloatType (VFloat a) = Inr xs"
    and "serialize rt FloatType (VFloat b) = Inr ys"
  shows "bytes_less xs ys \<longleftrightarrow>
    float_rank a < float_rank b \<or> float_rank a = float_rank b \<and> float_neg a \<and> \<not> float_neg b"
proof -
  have xs: "xs = be_enc 8 (unat (float_key a))" and ys: "ys = be_enc 8 (unat (float_key b))"
    using assms by auto
  have "bytes_less xs ys \<longleftrightarrow> uint (float_key a) < uint (float_key b)"
    unfolding xs ys by (simp add: bytes_less_be_dec unat_float_bytes word_less_nat_alt
        flip: word_less_def)
  also have "\<dots> \<longleftrightarrow> float_rank a < float_rank b \<or>
      float_rank a = float_rank b \<and> float_neg a \<and> \<not> float_neg b"
  proof -
    define u v where "u = uint a" and "v = uint b"
    have "0 \<le> u" "0 \<le> v" "u < 2 ^ 64" "v < 2 ^ 64"
      using uint_64_less [of a] uint_64_less [of b] by (simp_all add: u_def v_def)
    then show ?thesis
      unfolding uint_float_key float_rank_def float_neg_def u_def [symmetric] v_def [symmetric]
      by auto
  qed
  finally show ?thesis .
qed

theorem float_bytes_order_witness:
  "bytes_less (be_enc 8 (unat (float_key 5))) (be_enc 8 (unat (float_key 6))) \<longleftrightarrow>
     float_rank 5 < float_rank 6 \<or>
     float_rank 5 = float_rank 6 \<and> float_neg 5 \<and> \<not> float_neg 6"
  by (rule float_bytes_order [of rt]) simp_all

text \<open>
  C34: when two types have a common type, it is one of them and both coerce to it; and the
  answer does not depend on the order of the arguments, up to the type's identifier.
\<close>

theorem resolve_common_type_sound:
  assumes "resolve_common_type a b = Inr c"
  shows "c \<in> {a, b} \<and> can_coerce a c \<and> can_coerce b c \<and>
    (\<exists>c'. resolve_common_type b a = Inr c' \<and> type_id_of c' = type_id_of c)"
  using assms
  by (cases a; cases b)
    (auto simp add: resolve_common_type_def can_coerce_def coercion_rules_def split: if_splits)

theorem resolve_common_type_sound_witness:
  "can_coerce (CharType 3) TextType"
  using resolve_common_type_sound [of "CharType 3" TextType TextType]
  by (simp add: resolve_common_type_def can_coerce_def coercion_rules_def)

end
