(* ===== verification/Record_Codec.thy ===== *)
theory Record_Codec
  imports Types
begin

text \<open>
  Record layout, \<^verbatim>\<open>RecordSerializer\<close> of \<^verbatim>\<open>src/pysql/storage/heap.py\<close>:
  a bitmap of the null columns followed by the encodings of the others in schema order.
  The column loops take the column codec as arguments and their laws are proved once, for any
  codec that meets the \<^theory_text>\<open>column_codec\<close> contract.
\<close>

record table_schema =
  ts_table_name :: string
  ts_column_names :: "string list"
  ts_column_types :: "data_type list"
  ts_primary_key :: "string option"

definition num_columns :: "table_schema \<Rightarrow> nat" where
  "num_columns s = length (ts_column_names s)"

fun index_of :: "string \<Rightarrow> string list \<Rightarrow> nat result" where
  "index_of x [] = Inl ValueError"
| "index_of x (y # ys) = (if x = y then Inr 0 else bindr (index_of x ys) (\<lambda>i. Inr (Suc i)))"

definition column_index :: "table_schema \<Rightarrow> string \<Rightarrow> nat result" where
  "column_index s name = index_of name (ts_column_names s)"

section \<open>The column loops\<close>

definition null_bitmap_size :: "nat \<Rightarrow> nat" where
  "null_bitmap_size n = (n + 7) div 8"

fun mark_nulls :: "('v \<Rightarrow> bool) \<Rightarrow> nat \<Rightarrow> 'v list \<Rightarrow> byte list \<Rightarrow> byte list" where
  "mark_nulls nul i [] bm = bm"
| "mark_nulls nul i (v # vs) bm =
     mark_nulls nul (Suc i) vs
       (if nul v then bm[i div 8 := bm ! (i div 8) OR push_bit (i mod 8) 1] else bm)"

fun ser_columns ::
  "('v \<Rightarrow> bool) \<Rightarrow> ('c \<Rightarrow> 'v \<Rightarrow> byte list result) \<Rightarrow> 'c list \<Rightarrow> nat \<Rightarrow> 'v list \<Rightarrow> byte list result"
where
  "ser_columns nul enc cs i [] = Inr []"
| "ser_columns nul enc cs i (v # vs) =
     (if nul v then ser_columns nul enc cs (Suc i) vs
      else if length cs \<le> i then Inl IndexError
      else bindr (enc (cs ! i) v) (\<lambda>b.
        bindr (ser_columns nul enc cs (Suc i) vs) (\<lambda>bs. Inr (b @ bs))))"

fun des_columns ::
  "'v \<Rightarrow> ('c \<Rightarrow> byte list \<Rightarrow> 'v result) \<Rightarrow> ('c \<Rightarrow> 'v \<Rightarrow> int result) \<Rightarrow> 'c list \<Rightarrow> byte list \<Rightarrow>
   byte list \<Rightarrow> int \<Rightarrow> nat \<Rightarrow> nat \<Rightarrow> 'v list result"
where
  "des_columns nv dec siz cs bm data off i 0 = Inr []"
| "des_columns nv dec siz cs bm data off i (Suc n) =
     (if length bm \<le> i div 8 then Inl IndexError
      else if bit (bm ! (i div 8)) (i mod 8) then
        bindr (des_columns nv dec siz cs bm data off (Suc i) n) (\<lambda>vs. Inr (nv # vs))
      else if length cs \<le> i then Inl IndexError
      else bindr (dec (cs ! i) (py_slice data off (int (length data)))) (\<lambda>v.
        bindr (siz (cs ! i) v) (\<lambda>k.
          bindr (des_columns nv dec siz cs bm data (off + k) (Suc i) n) (\<lambda>vs. Inr (v # vs)))))"

section \<open>The serializer\<close>

definition record_serialize :: "py_runtime \<Rightarrow> table_schema \<Rightarrow> pyval list \<Rightarrow> byte list result" where
  "record_serialize rt s values =
     (if length values \<noteq> num_columns s then Inl ValueError
      else bindr (ser_columns null_like (serialize rt) (ts_column_types s) 0 values) (\<lambda>bs.
        Inr (mark_nulls null_like 0 values (replicate (null_bitmap_size (num_columns s)) 0) @ bs)))"

definition record_deserialize :: "py_runtime \<Rightarrow> table_schema \<Rightarrow> byte list \<Rightarrow> pyval list result" where
  "record_deserialize rt s data =
     (let k = null_bitmap_size (num_columns s) in
      des_columns VNull deserialize (storage_size rt) (ts_column_types s)
        (py_slice data 0 (int k)) data (int k) 0 (num_columns s))"

section \<open>The bitmap marks exactly the null columns\<close>

lemma length_mark_nulls [simp]: "length (mark_nulls nul i vs bm) = length bm"
  by (induction nul i vs bm rule: mark_nulls.induct) auto

lemma mark_nulls_bit:
  assumes "k div 8 < length bm"
  shows "bit (mark_nulls nul i vs bm ! (k div 8)) (k mod 8) \<longleftrightarrow>
    bit (bm ! (k div 8)) (k mod 8) \<or> (i \<le> k \<and> k < i + length vs \<and> nul (vs ! (k - i)))"
  using assms
proof (induction nul i vs bm rule: mark_nulls.induct)
  case (1 nul i bm)
  then show ?case by auto
next
  case (2 nul i v vs bm)
  let ?bm = "if nul v then bm[i div 8 := bm ! (i div 8) OR push_bit (i mod 8) 1] else bm"
  have same: "k div 8 = i div 8 \<and> k mod 8 = i mod 8 \<longleftrightarrow> k = i"
    by (metis div_mult_mod_eq)
  have "bit (?bm ! (k div 8)) (k mod 8) \<longleftrightarrow> bit (bm ! (k div 8)) (k mod 8) \<or> k = i \<and> nul v"
  proof (cases "k div 8 = i div 8")
    case True
    then show ?thesis using 2(2) same
      by (auto simp: bit_simps)
  next
    case False
    then show ?thesis by auto
  qed
  moreover have "i \<le> k \<and> k < i + length (v # vs) \<and> nul ((v # vs) ! (k - i)) \<longleftrightarrow>
      k = i \<and> nul v \<or> Suc i \<le> k \<and> k < Suc i + length vs \<and> nul (vs ! (k - Suc i))"
    by (cases "k = i") (auto simp: nth_Cons')
  ultimately show ?case using 2(1) 2(2) by simp
qed

lemma fresh_bitmap_bit: "\<not> bit (replicate n (0 :: byte) ! j) m" if "j < n"
  using that by simp

context column_codec
begin

text \<open>
  Reading back: with the bitmap of the values in place, decoding the encodings that start at
  the offset recovers every value, nulls normalised.
\<close>

lemma columns_roundtrip:
  assumes "ser_columns nul enc cs i vs = Inr bs"
    and "i + length vs \<le> length cs"
    and "\<And>j. j < length vs \<Longrightarrow> \<not> nul (vs ! j) \<Longrightarrow> ok (cs ! (i + j)) (vs ! j)"
    and "\<And>j. j < length vs \<Longrightarrow> (i + j) div 8 < length bm \<and>
           (bit (bm ! ((i + j) div 8)) ((i + j) mod 8) \<longleftrightarrow> nul (vs ! j))"
    and "data = front @ bs @ rest" and "off = int (length front)"
  shows "des_columns nv dec siz cs bm data off i (length vs) =
    Inr (map (\<lambda>v. if nul v then nv else v) vs)"
  using assms
proof (induction vs arbitrary: i bs off front)
  case Nil
  then show ?case by simp
next
  case (Cons v vs)
  have hd: "i div 8 < length bm" "bit (bm ! (i div 8)) (i mod 8) \<longleftrightarrow> nul v"
    using Cons.prems(4) [of 0] by simp_all
  have okv: "\<not> nul (vs ! j) \<Longrightarrow> ok (cs ! (Suc i + j)) (vs ! j)" if "j < length vs" for j
    using Cons.prems(3) [of "Suc j"] that by simp
  have bmv: "(Suc i + j) div 8 < length bm \<and>
      (bit (bm ! ((Suc i + j) div 8)) ((Suc i + j) mod 8) \<longleftrightarrow> nul (vs ! j))" if "j < length vs" for j
    using Cons.prems(4) [of "Suc j"] that by simp
  have len: "Suc i + length vs \<le> length cs" "i < length cs" using Cons.prems(2) by simp_all
  show ?case
  proof (cases "nul v")
    case True
    then have "ser_columns nul enc cs (Suc i) vs = Inr bs" using Cons.prems(1) by simp
    from Cons.IH [OF this len(1) okv bmv Cons.prems(5,6)] show ?thesis
      using True hd by simp
  next
    case False
    then obtain b bs' where b: "enc (cs ! i) v = Inr b" and bs': "ser_columns nul enc cs (Suc i) vs = Inr bs'"
      and bs: "bs = b @ bs'"
      using Cons.prems(1) len by (auto simp: bindr_Inr_iff)
    have okc: "ok (cs ! i) v" using Cons.prems(3) [of 0] False by simp
    have sl: "py_slice data off (int (length data)) = b @ bs' @ rest"
      using py_slice_mid [of off front "int (length data)" "bs @ rest" "[]"] Cons.prems(5,6) bs by simp
    have "data = (front @ b) @ bs' @ rest" "off + int (length b) = int (length (front @ b))"
      using Cons.prems(5,6) bs by simp_all
    from Cons.IH [OF bs' len(1) okv bmv this] show ?thesis
      using False hd len sl dec_enc [OF okc b, of "bs' @ rest"] siz_enc [OF okc b] by simp
  qed
qed

lemma columns_total:
  assumes "i + length vs \<le> length cs"
    and "\<And>j. j < length vs \<Longrightarrow> \<not> nul (vs ! j) \<Longrightarrow> ok (cs ! (i + j)) (vs ! j)"
  shows "\<exists>bs. ser_columns nul enc cs i vs = Inr bs"
  using assms
proof (induction vs arbitrary: i)
  case Nil
  then show ?case by simp
next
  case (Cons v vs)
  have "\<exists>bs. ser_columns nul enc cs (Suc i) vs = Inr bs"
  proof (rule Cons.IH)
    show "Suc i + length vs \<le> length cs" using Cons.prems(1) by simp
    show "ok (cs ! (Suc i + j)) (vs ! j)" if "j < length vs" "\<not> nul (vs ! j)" for j
      using Cons.prems(2) [of "Suc j"] that by simp
  qed
  then show ?case
    using Cons.prems(1) enc_total [of "cs ! i" v] Cons.prems(2) [of 0] by auto
qed

end

section \<open>Records\<close>

definition fits_schema :: "table_schema \<Rightarrow> pyval list \<Rightarrow> bool" where
  "fits_schema s values =
     (length values = num_columns s \<and> length (ts_column_types s) = num_columns s \<and>
      (\<forall>j < length values. null_like (values ! j) \<or> storable (ts_column_types s ! j) (values ! j)))"

definition normalise_nulls :: "pyval list \<Rightarrow> pyval list" where
  "normalise_nulls = map (\<lambda>v. if null_like v then VNull else v)"

lemma record_serialize_total:
  assumes "fits_schema s vs"
  shows "\<exists>bs. record_serialize rt s vs = Inr bs"
proof -
  have "\<exists>bs. ser_columns null_like (serialize rt) (ts_column_types s) 0 vs = Inr bs"
    using assms by (intro types_codec.columns_total) (auto simp: fits_schema_def)
  with assms show ?thesis by (auto simp: fits_schema_def record_serialize_def)
qed

lemma record_deserialize_serialize:
  assumes fits: "fits_schema s vs" and ser: "record_serialize rt s vs = Inr bs"
  shows "record_deserialize rt s bs = Inr (normalise_nulls vs)"
proof -
  let ?n = "num_columns s" and ?bm = "mark_nulls null_like 0 vs (replicate (null_bitmap_size (num_columns s)) 0)"
  have n: "length vs = ?n" "length (ts_column_types s) = ?n" using fits by (simp_all add: fits_schema_def)
  obtain cs where cs: "ser_columns null_like (serialize rt) (ts_column_types s) 0 vs = Inr cs"
    and bs: "bs = ?bm @ cs"
    using ser n by (auto simp: record_serialize_def bindr_Inr_iff)
  have j8: "j div 8 < null_bitmap_size ?n" if "j < ?n" for j
    using that by (simp add: null_bitmap_size_def)
  have bm: "(0 + j) div 8 < length ?bm \<and>
      (bit (?bm ! ((0 + j) div 8)) ((0 + j) mod 8) \<longleftrightarrow> null_like (vs ! j))" if "j < length vs" for j
    using that n j8 mark_nulls_bit [of j "replicate (null_bitmap_size ?n) 0" null_like 0 vs] by simp
  have "des_columns VNull deserialize (storage_size rt) (ts_column_types s) ?bm bs
      (int (null_bitmap_size ?n)) 0 (length vs) = Inr (map (\<lambda>v. if null_like v then VNull else v) vs)"
  proof (rule types_codec.columns_roundtrip [OF cs _ _ bm, where front = ?bm and rest = "[]"])
    show "0 + length vs \<le> length (ts_column_types s)" using n by simp
    show "storable (ts_column_types s ! (0 + j)) (vs ! j)" if "j < length vs" "\<not> null_like (vs ! j)" for j
      using fits that by (auto simp: fits_schema_def)
  qed (simp_all add: bs)
  moreover have "py_slice bs 0 (int (null_bitmap_size ?n)) = ?bm"
    unfolding bs by (rule py_slice_prefix) simp
  ultimately show ?thesis
    by (simp add: record_deserialize_def Let_def n normalise_nulls_def)
qed

lemma record_nonempty:
  assumes "record_serialize rt s vs = Inr bs" and "0 < num_columns s"
  shows "bs \<noteq> []"
proof -
  have "length (mark_nulls null_like 0 vs (replicate (null_bitmap_size (num_columns s)) 0)) \<noteq> 0"
    using assms(2) by (simp only: length_mark_nulls length_replicate null_bitmap_size_def)
  then have "mark_nulls null_like 0 vs (replicate (null_bitmap_size (num_columns s)) 0) \<noteq> []"
    by (simp only: length_0_conv not_False_eq_True)
  then show ?thesis using assms(1)
    by (auto simp: record_serialize_def bindr_Inr_iff split: if_splits)
qed

text \<open>The two null objects are written alike.\<close>

lemma serialize_normalised: "record_serialize rt s (normalise_nulls vs) = record_serialize rt s vs"
proof -
  have nul: "null_like (if null_like v then VNull else v) = null_like v" for v
    by (simp add: null_like_def)
  have "mark_nulls null_like i (normalise_nulls vs) bm = mark_nulls null_like i vs bm" for i bm
    by (induction vs arbitrary: i bm) (simp_all add: normalise_nulls_def nul)
  moreover have "ser_columns null_like (serialize rt) cs i (normalise_nulls vs) = ser_columns null_like (serialize rt) cs i vs"
    for cs i
    by (induction vs arbitrary: i) (simp_all add: normalise_nulls_def nul)
  moreover have "length (normalise_nulls vs) = length vs" by (simp add: normalise_nulls_def)
  ultimately show ?thesis by (simp add: record_serialize_def)
qed

text \<open>
  A row whose values fit the schema's column types is serialized, and deserializing the
  record gives the row back, null columns (which occupy no data bytes) included.
\<close>

theorem record_roundtrip:
  assumes "fits_schema s vs"
  shows "\<exists>bs. record_serialize rt s vs = Inr bs \<and>
    record_deserialize rt s bs = Inr (normalise_nulls vs)"
  using record_serialize_total [OF assms, of rt] record_deserialize_serialize [OF assms] by blast

definition user_schema :: table_schema where
  "user_schema = \<lparr>ts_table_name = ''users'', ts_column_names = [''id'', ''name'', ''ok''],
     ts_column_types = [IntegerType, VarCharType 10, BooleanType], ts_primary_key = Some ''id''\<rparr>"

lemma user_row_fits: "fits_schema user_schema [VInt 7, VNull, VBool True]"
  by (auto simp: fits_schema_def user_schema_def num_columns_def null_like_def is_null_value_def
      less_Suc_eq numeral_3_eq_3)

theorem record_roundtrip_witness:
  "\<forall>rt. \<exists>bs. record_serialize rt user_schema [VInt 7, VNull, VBool True] = Inr bs \<and>
     record_deserialize rt user_schema bs = Inr [VInt 7, VNull, VBool True]"
proof
  fix rt :: py_runtime
  have "normalise_nulls [VInt 7, VNull, VBool True] = [VInt 7, VNull, VBool True]"
    by (simp add: normalise_nulls_def null_like_def is_null_value_def)
  then show "\<exists>bs. record_serialize rt user_schema [VInt 7, VNull, VBool True] = Inr bs \<and>
     record_deserialize rt user_schema bs = Inr [VInt 7, VNull, VBool True]"
    using record_roundtrip [OF user_row_fits, of rt] by simp
qed

end
