(* ===== verification/Page.thy ===== *)
theory Page
  imports Prelude
begin

text \<open>
  Slotted pages and the disk manager, \<^verbatim>\<open>src/pysql/storage/page.py\<close>: the page
  header and slot entries with their binary layout, the record operations of a page
  (insert, read, update, delete, compact), serialisation with its CRC32, and the database
  file as a sequence of 4096-byte pages.  Integers are Python's; slices follow
  \<^theory_text>\<open>py_slice\<close> and \<^theory_text>\<open>py_setslice\<close>, so an out-of-range write changes the length of the
  buffer exactly as a \<^verbatim>\<open>bytearray\<close> does.
\<close>

section \<open>Layout constants, header and slots\<close>

definition PAGE_SIZE :: int where "PAGE_SIZE = 4096"
definition HEADER_SIZE :: int where "HEADER_SIZE = 32"
definition SLOT_SIZE :: int where "SLOT_SIZE = 4"
definition INVALID_PAGE_ID :: int where "INVALID_PAGE_ID = 0xFFFFFFFF"

lemmas page_consts = PAGE_SIZE_def HEADER_SIZE_def SLOT_SIZE_def INVALID_PAGE_ID_def

datatype page_type = FREE | HEAP_DATA | BTREE_INTERNAL | BTREE_LEAF | OVERFLOW | METADATA

fun page_type_code :: "page_type \<Rightarrow> int" where
  "page_type_code FREE = 0"
| "page_type_code HEAP_DATA = 1"
| "page_type_code BTREE_INTERNAL = 2"
| "page_type_code BTREE_LEAF = 3"
| "page_type_code OVERFLOW = 4"
| "page_type_code METADATA = 5"

definition page_type_of :: "int \<Rightarrow> page_type result" where
  "page_type_of n =
     (if n = 0 then Inr FREE else if n = 1 then Inr HEAP_DATA
      else if n = 2 then Inr BTREE_INTERNAL else if n = 3 then Inr BTREE_LEAF
      else if n = 4 then Inr OVERFLOW else if n = 5 then Inr METADATA
      else Inl ValueError)"

lemma page_type_of_code [simp]: "page_type_of (page_type_code t) = Inr t"
  by (cases t) (simp_all add: page_type_of_def)

definition FLAG_DIRTY :: int where "FLAG_DIRTY = 1"

record slot_entry =
  se_offset :: int
  se_length :: int

definition slot_deleted :: "slot_entry \<Rightarrow> bool" where
  "slot_deleted s = (se_length s = 0)"

definition slot_fmt :: "fmt list" where "slot_fmt = [FU 2, FU 2]"

definition slot_pack :: "slot_entry \<Rightarrow> byte list result" where
  "slot_pack s = pack_fields [(FU 2, se_offset s), (FU 2, se_length s)]"

definition slot_unpack :: "byte list \<Rightarrow> slot_entry result" where
  "slot_unpack data =
     bindr (unpack_fields slot_fmt (py_slice data 0 SLOT_SIZE))
       (\<lambda>vs. Inr \<lparr>se_offset = vs ! 0, se_length = vs ! 1\<rparr>)"

record page_header =
  ph_page_id :: int
  ph_page_type :: page_type
  ph_flags :: int
  ph_num_slots :: int
  ph_free_space :: int
  ph_data_end :: int
  ph_next_page :: int
  ph_prev_page :: int
  ph_lsn :: int
  ph_checksum :: int

definition header_init :: "int \<Rightarrow> page_type \<Rightarrow> page_header" where
  "header_init pid ptype =
     \<lparr>ph_page_id = pid, ph_page_type = ptype, ph_flags = 0, ph_num_slots = 0,
      ph_free_space = PAGE_SIZE - HEADER_SIZE, ph_data_end = PAGE_SIZE,
      ph_next_page = INVALID_PAGE_ID, ph_prev_page = INVALID_PAGE_ID,
      ph_lsn = 0, ph_checksum = 0\<rparr>"

definition header_fmt :: "fmt list" where
  "header_fmt = [FU 4, FU 1, FU 1, FU 2, FU 2, FU 2, FU 4, FU 4, FS 8, FU 4]"

definition header_values :: "page_header \<Rightarrow> int list" where
  "header_values h =
     [ph_page_id h, page_type_code (ph_page_type h), ph_flags h, ph_num_slots h,
      ph_free_space h, ph_data_end h, ph_next_page h, ph_prev_page h, ph_lsn h,
      ph_checksum h]"

definition header_pack :: "page_header \<Rightarrow> byte list result" where
  "header_pack h = pack_fields (zip header_fmt (header_values h))"

definition header_unpack :: "byte list \<Rightarrow> page_header result" where
  "header_unpack data =
     bindr (unpack_fields header_fmt (py_slice data 0 HEADER_SIZE)) (\<lambda>vs.
       bindr (page_type_of (vs ! 1)) (\<lambda>ptype.
         Inr \<lparr>ph_page_id = vs ! 0, ph_page_type = ptype, ph_flags = vs ! 2,
              ph_num_slots = vs ! 3, ph_free_space = vs ! 4, ph_data_end = vs ! 5,
              ph_next_page = vs ! 6, ph_prev_page = vs ! 7, ph_lsn = vs ! 8,
              ph_checksum = vs ! 9\<rparr>))"

section \<open>CRC32\<close>

text \<open>\<^verbatim>\<open>zlib.crc32\<close>: the reflected polynomial 0xEDB88320, one byte at a time.\<close>

fun crc_shift :: "nat \<Rightarrow> 32 word \<Rightarrow> 32 word" where
  "crc_shift 0 c = c"
| "crc_shift (Suc k) c =
     crc_shift k (if bit c 0 then drop_bit 1 c XOR 0xEDB88320 else drop_bit 1 c)"

definition crc32 :: "byte list \<Rightarrow> 32 word" where
  "crc32 bs = NOT (foldl (\<lambda>c b. crc_shift 8 (c XOR ucast b)) (NOT 0) bs)"

section \<open>Pages\<close>

record page =
  pg_data :: "byte list"
  pg_header :: page_header
  pg_slots :: "slot_entry list"

definition write_header :: "page \<Rightarrow> page result" where
  "write_header p =
     bindr (header_pack (pg_header p)) (\<lambda>hb.
       Inr (p\<lparr>pg_data := py_setslice (pg_data p) 0 HEADER_SIZE hb\<rparr>))"

definition page_new :: "int \<Rightarrow> page_type \<Rightarrow> page result" where
  "page_new pid ptype =
     write_header \<lparr>pg_data = replicate (nat PAGE_SIZE) 0,
                   pg_header = header_init pid ptype, pg_slots = []\<rparr>"

fun read_slots :: "byte list \<Rightarrow> nat \<Rightarrow> nat \<Rightarrow> slot_entry list result" where
  "read_slots data i 0 = Inr []"
| "read_slots data i (Suc n) =
     (let off = HEADER_SIZE + int i * SLOT_SIZE in
      bindr (slot_unpack (py_slice data off (off + SLOT_SIZE))) (\<lambda>s.
        bindr (read_slots data (Suc i) n) (\<lambda>ss. Inr (s # ss))))"

definition from_bytes :: "byte list \<Rightarrow> page result" where
  "from_bytes bs =
     (let data = py_slice bs 0 PAGE_SIZE in
      bindr (header_unpack (py_slice data 0 HEADER_SIZE)) (\<lambda>h.
        bindr (read_slots data 0 (nat (ph_num_slots h))) (\<lambda>ss.
          Inr \<lparr>pg_data = data, pg_header = h, pg_slots = ss\<rparr>)))"

fun write_slots_at :: "nat \<Rightarrow> slot_entry list \<Rightarrow> byte list \<Rightarrow> byte list result" where
  "write_slots_at i [] data = Inr data"
| "write_slots_at i (s # ss) data =
     bindr (slot_pack s) (\<lambda>b.
       let off = HEADER_SIZE + int i * SLOT_SIZE in
       write_slots_at (Suc i) ss (py_setslice data off (off + SLOT_SIZE) b))"

definition write_slots :: "page \<Rightarrow> page result" where
  "write_slots p =
     bindr (write_slots_at 0 (pg_slots p) (pg_data p)) (\<lambda>d. Inr (p\<lparr>pg_data := d\<rparr>))"

text \<open>The checksum covers everything but its own four bytes, the last of the header.\<close>

definition page_crc :: "byte list \<Rightarrow> int" where
  "page_crc data =
     uint (crc32 (py_slice data 0 (HEADER_SIZE - 4) @ drop (nat HEADER_SIZE) data))"

definition to_bytes :: "page \<Rightarrow> (page \<times> byte list) result" where
  "to_bytes p =
     bindr (write_header p) (\<lambda>p1.
       bindr (write_slots p1) (\<lambda>p2.
         let c = page_crc (pg_data p2) in
         bindr (pack_u 4 c) (\<lambda>cb.
           let d = py_setslice (pg_data p2) (HEADER_SIZE - 4) HEADER_SIZE cb in
           Inr (p2\<lparr>pg_data := d, pg_header := (pg_header p2)\<lparr>ph_checksum := c\<rparr>\<rparr>, d))))"

definition verify_checksum :: "page \<Rightarrow> bool" where
  "verify_checksum p = (ph_checksum (pg_header p) = page_crc (pg_data p))"

section \<open>Record operations\<close>

text \<open>
  \<^verbatim>\<open>insert_record\<close>: the check compares the record with the header's free-space
  count, the record goes just below the data region, and the first tombstoned slot is reused
  if there is one.
\<close>

fun first_deleted :: "slot_entry list \<Rightarrow> nat option" where
  "first_deleted [] = None"
| "first_deleted (s # ss) =
     (if slot_deleted s then Some 0 else map_option Suc (first_deleted ss))"

definition insert_record :: "page \<Rightarrow> byte list \<Rightarrow> page \<times> nat option" where
  "insert_record p rec =
     (let h = pg_header p;
          record_len = int (length rec);
          space_needed = record_len + SLOT_SIZE in
      if space_needed > ph_free_space h then (p, None)
      else
        let new_data_end = ph_data_end h - record_len;
            d = py_setslice (pg_data p) new_data_end (new_data_end + record_len) rec;
            slot = \<lparr>se_offset = new_data_end, se_length = record_len\<rparr>;
            (ss, n, idx, used) =
              (case first_deleted (pg_slots p) of
                 Some i \<Rightarrow> ((pg_slots p)[i := slot], ph_num_slots h, i, record_len)
               | None \<Rightarrow> (pg_slots p @ [slot], ph_num_slots h + 1, length (pg_slots p), space_needed))
        in (p\<lparr>pg_data := d, pg_slots := ss,
              pg_header := h\<lparr>ph_num_slots := n, ph_data_end := new_data_end,
                ph_free_space := ph_free_space h - used,
                ph_flags := ph_flags h OR FLAG_DIRTY\<rparr>\<rparr>, Some idx))"

definition slot_bytes :: "byte list \<Rightarrow> slot_entry \<Rightarrow> byte list" where
  "slot_bytes data s = py_slice data (se_offset s) (se_offset s + se_length s)"

definition read_record :: "page \<Rightarrow> nat \<Rightarrow> byte list option" where
  "read_record p i =
     (if length (pg_slots p) \<le> i then None
      else let slot = pg_slots p ! i in
        if slot_deleted slot then None else Some (slot_bytes (pg_data p) slot))"

definition delete_record :: "page \<Rightarrow> nat \<Rightarrow> page \<times> bool" where
  "delete_record p i =
     (if length (pg_slots p) \<le> i then (p, False)
      else let slot = pg_slots p ! i; h = pg_header p in
        if slot_deleted slot then (p, False)
        else (p\<lparr>pg_slots := (pg_slots p)[i := \<lparr>se_offset = 0, se_length = 0\<rparr>],
                pg_header := h\<lparr>ph_free_space := ph_free_space h + se_length slot,
                               ph_flags := ph_flags h OR FLAG_DIRTY\<rparr>\<rparr>, True))"

definition swap_slots :: "nat \<Rightarrow> nat \<Rightarrow> slot_entry list \<Rightarrow> slot_entry list" where
  "swap_slots i j ss = ss[i := ss ! j, j := ss ! i]"

definition update_record :: "page \<Rightarrow> nat \<Rightarrow> byte list \<Rightarrow> page \<times> bool" where
  "update_record p i rec =
     (if length (pg_slots p) \<le> i then (p, False)
      else let slot = pg_slots p ! i; h = pg_header p; n = int (length rec) in
        if slot_deleted slot then (p, False)
        else if n \<le> se_length slot then
          (p\<lparr>pg_data := py_setslice (pg_data p) (se_offset slot) (se_offset slot + n) rec,
             pg_slots := (pg_slots p)[i := \<lparr>se_offset = se_offset slot, se_length = n\<rparr>],
             pg_header := h\<lparr>ph_free_space := ph_free_space h + (se_length slot - n),
                            ph_flags := ph_flags h OR FLAG_DIRTY\<rparr>\<rparr>, True)
        else
          let (p1, _) = delete_record p i in
          (case insert_record p1 rec of
             (p2, None) \<Rightarrow> (p2, False)
           | (p2, Some j) \<Rightarrow>
               (if j \<noteq> i then p2\<lparr>pg_slots := swap_slots i j (pg_slots p2)\<rparr> else p2, True)))"

fun live_records_from :: "nat \<Rightarrow> byte list \<Rightarrow> slot_entry list \<Rightarrow> (nat \<times> byte list) list" where
  "live_records_from i data [] = []"
| "live_records_from i data (s # ss) =
     (if slot_deleted s then live_records_from (Suc i) data ss
      else (i, slot_bytes data s) # live_records_from (Suc i) data ss)"

definition get_all_records :: "page \<Rightarrow> (nat \<times> byte list) list" where
  "get_all_records p = live_records_from 0 (pg_data p) (pg_slots p)"

definition get_num_records :: "page \<Rightarrow> nat" where
  "get_num_records p = length (filter (\<lambda>s. \<not> slot_deleted s) (pg_slots p))"

definition get_free_space :: "page \<Rightarrow> int" where
  "get_free_space p = ph_free_space (pg_header p)"

fun compact_loop ::
  "(nat \<times> byte list) list \<Rightarrow> int \<Rightarrow> byte list \<Rightarrow> slot_entry list \<Rightarrow>
   int \<times> byte list \<times> slot_entry list" where
  "compact_loop [] data_end data ss = (data_end, data, ss)"
| "compact_loop ((i, rec) # rs) data_end data ss =
     (let e = data_end - int (length rec) in
      compact_loop rs e (py_setslice data e (e + int (length rec)) rec)
        (ss[i := \<lparr>se_offset = e, se_length = int (length rec)\<rparr>]))"

definition compact :: "page \<Rightarrow> page" where
  "compact p =
     (let (data_end, data, ss) =
            compact_loop (get_all_records p) PAGE_SIZE (pg_data p) (pg_slots p);
          slot_dir_end = HEADER_SIZE + int (length ss) * SLOT_SIZE;
          h = pg_header p
      in p\<lparr>pg_data := data, pg_slots := ss,
           pg_header := h\<lparr>ph_data_end := data_end, ph_free_space := data_end - slot_dir_end,
                          ph_flags := ph_flags h OR FLAG_DIRTY\<rparr>\<rparr>)"

end
