(* ===== verification/Page_Safety.thy ===== *)
theory Page_Safety
  imports Page
begin

text \<open>
  The well-formedness invariant of slotted pages and what every record operation does under
  it.  The central quantity is the \<open>gap\<close>, the contiguous room between the slot directory and
  the record data; the header's free-space count also counts the holes deletions leave.
\<close>

definition live :: "page \<Rightarrow> nat \<Rightarrow> bool" where
  "live p i = (i < length (pg_slots p) \<and> \<not> slot_deleted (pg_slots p ! i))"

definition dir_end :: "page \<Rightarrow> int" where
  "dir_end p = HEADER_SIZE + int (length (pg_slots p)) * SLOT_SIZE"

definition gap :: "page \<Rightarrow> int" where
  "gap p = ph_data_end (pg_header p) - dir_end p"

definition used :: "slot_entry list \<Rightarrow> int" where
  "used ss = sum_list (map se_length ss)"

definition apart :: "slot_entry \<Rightarrow> slot_entry \<Rightarrow> bool" where
  "apart s t = (slot_deleted s \<or> slot_deleted t \<or>
     se_offset s + se_length s \<le> se_offset t \<or> se_offset t + se_length t \<le> se_offset s)"

definition slots_apart :: "slot_entry list \<Rightarrow> bool" where
  "slots_apart ss =
     (\<forall>i < length ss. \<forall>j < length ss. i \<noteq> j \<longrightarrow> apart (ss ! i) (ss ! j))"

definition slot_in :: "int \<Rightarrow> slot_entry \<Rightarrow> bool" where
  "slot_in d s = (0 \<le> se_offset s \<and> 0 \<le> se_length s \<and>
     se_offset s + se_length s \<le> PAGE_SIZE \<and> (slot_deleted s \<or> d \<le> se_offset s))"

definition accounted :: "page \<Rightarrow> bool" where
  "accounted p = (ph_free_space (pg_header p) = PAGE_SIZE - dir_end p - used (pg_slots p))"

definition page_wf :: "page \<Rightarrow> bool" where
  "page_wf p =
     (int (length (pg_data p)) = PAGE_SIZE \<and>
      ph_num_slots (pg_header p) = int (length (pg_slots p)) \<and>
      dir_end p \<le> ph_data_end (pg_header p) \<and> ph_data_end (pg_header p) \<le> PAGE_SIZE \<and>
      (\<forall>s \<in> set (pg_slots p). slot_in (ph_data_end (pg_header p)) s) \<and>
      slots_apart (pg_slots p) \<and> accounted p)"

lemmas wf_defs = page_wf_def accounted_def dir_end_def gap_def page_consts

section \<open>Helper lemmas\<close>

lemma first_deleted_Some:
  "first_deleted ss = Some i \<Longrightarrow>
   i < length ss \<and> slot_deleted (ss ! i) \<and> (\<forall>j < i. \<not> slot_deleted (ss ! j))"
proof (induction ss arbitrary: i)
  case (Cons s ss)
  then show ?case
    by (auto simp: nth_Cons split: if_splits nat.splits)
qed simp

lemma first_deleted_None: "first_deleted ss = None \<longleftrightarrow> (\<forall>s \<in> set ss. \<not> slot_deleted s)"
  by (induction ss) auto

lemma used_update:
  "i < length ss \<Longrightarrow> used (ss[i := s]) = used ss + se_length s - se_length (ss ! i)"
  unfolding used_def
  by (induction ss arbitrary: i) (auto simp: nth_Cons split: nat.splits)

lemma used_append [simp]: "used (ss @ [s]) = used ss + se_length s"
  by (simp add: used_def)

lemma used_index: "used ss = (\<Sum>i < length ss. se_length (ss ! i))"
  by (simp add: used_def sum_list_sum_nth atLeast0LessThan)

lemma apart_sym: "apart s t \<Longrightarrow> apart t s"
  by (auto simp: apart_def)

lemma slots_apart_update:
  assumes "slots_apart ss"
    and "\<And>j. j < length ss \<Longrightarrow> j \<noteq> i \<Longrightarrow> apart s (ss ! j)"
  shows "slots_apart (ss[i := s])"
  using assms
  by (cases "i < length ss") (auto simp: slots_apart_def nth_list_update intro: apart_sym)

lemma slots_apart_append:
  assumes "slots_apart ss" and "\<And>t. t \<in> set ss \<Longrightarrow> apart s t"
  shows "slots_apart (ss @ [s])"
  using assms by (auto simp: slots_apart_def nth_append less_Suc_eq intro: apart_sym)

lemma slot_bytes_window:
  assumes "slot_in d s" and "int (length data) = PAGE_SIZE"
  shows "slot_bytes data s = window data (nat (se_offset s)) (nat (se_length s))"
    and "nat (se_offset s) + nat (se_length s) \<le> length data"
proof -
  have bounds: "0 \<le> se_offset s" "0 \<le> se_length s"
    "se_offset s + se_length s \<le> int (length data)"
    using assms by (simp_all add: slot_in_def)
  then show le: "nat (se_offset s) + nat (se_length s) \<le> length data"
    by linarith
  show "slot_bytes data s = window data (nat (se_offset s)) (nat (se_length s))"
    using py_slice_window [OF le] bounds by (simp add: slot_bytes_def)
qed

lemma setslice_page:
  assumes "int (length data) = PAGE_SIZE" and "0 \<le> a" and "a + int (length rec) \<le> PAGE_SIZE"
  shows "py_setslice data a (a + int (length rec)) rec = splice data (nat a) rec"
    and "int (length (splice data (nat a) rec)) = PAGE_SIZE"
    and "nat a + length rec \<le> length data"
proof -
  show le: "nat a + length rec \<le> length data" using assms by linarith
  show "py_setslice data a (a + int (length rec)) rec = splice data (nat a) rec"
    using py_setslice_splice [OF le] assms(2) by simp
  show "int (length (splice data (nat a) rec)) = PAGE_SIZE"
    using length_splice [OF le] assms(1) by simp
qed

text \<open>A write below every live record, or into another record's bytes, changes none of them.\<close>

lemma slot_bytes_unchanged:
  assumes "slot_in d s" and "int (length data) = PAGE_SIZE"
    and "0 \<le> a" and "a + int (length rec) \<le> PAGE_SIZE"
    and "a + int (length rec) \<le> se_offset s \<or> se_offset s + se_length s \<le> a"
  shows "slot_bytes (splice data (nat a) rec) s = slot_bytes data s"
proof -
  have in_range: "nat a + length rec \<le> length data"
    using setslice_page(3) assms by blast
  have "nat (se_offset s) + nat (se_length s) \<le> nat a \<or>
      nat a + length rec \<le> nat (se_offset s)"
    using assms by (auto simp: slot_in_def)
  then show ?thesis
    using slot_bytes_window [OF assms(1)] in_range assms
      setslice_page(2) [OF assms(2-4)] window_splice_other [OF in_range]
    by auto
qed

lemma slot_bytes_written:
  assumes "int (length data) = PAGE_SIZE" and "0 \<le> a" and "a + int (length rec) \<le> PAGE_SIZE"
  shows "slot_bytes (splice data (nat a) rec) \<lparr>se_offset = a, se_length = int (length rec)\<rparr> = rec"
  using slot_bytes_window(1) [of 0 "\<lparr>se_offset = a, se_length = int (length rec)\<rparr>"
      "splice data (nat a) rec"] assms setslice_page [OF assms]
  by (simp add: slot_in_def window_splice_same)

text \<open>Disjoint records inside the data region occupy no more than the region.\<close>

lemma used_le_region:
  assumes "\<forall>s \<in> set ss. slot_in d s" and "slots_apart ss" and "d \<le> PAGE_SIZE"
  shows "used ss \<le> PAGE_SIZE - d"
proof -
  define A where "A i = {se_offset (ss ! i) ..< se_offset (ss ! i) + se_length (ss ! i)}" for i
  have sl: "slot_in d (ss ! i)" if "i < length ss" for i
    using assms(1) that by simp
  have "used ss = (\<Sum>i < length ss. int (card (A i)))"
    using sl by (auto simp: used_index A_def slot_in_def intro!: sum.cong)
  also have "\<dots> = int (card (\<Union>i \<in> {..<length ss}. A i))"
  proof (subst card_UN_disjoint)
    show "\<forall>i \<in> {..<length ss}. \<forall>j \<in> {..<length ss}. i \<noteq> j \<longrightarrow> A i \<inter> A j = {}"
      using assms(2) sl
      by (fastforce simp: slots_apart_def apart_def A_def slot_deleted_def slot_in_def)
  qed (simp_all add: A_def)
  also have "\<dots> \<le> int (card {d ..< PAGE_SIZE})"
  proof -
    have "(\<Union>i \<in> {..<length ss}. A i) \<subseteq> {d ..< PAGE_SIZE}"
      using sl by (fastforce simp: A_def slot_in_def slot_deleted_def)
    then show ?thesis
      by (intro of_nat_mono card_mono finite_atLeastLessThan_int)
  qed
  also have "\<dots> = PAGE_SIZE - d" using assms(3) by simp
  finally show ?thesis .
qed

lemma gap_le_free: "page_wf p \<Longrightarrow> gap p \<le> ph_free_space (pg_header p)"
  using used_le_region [of "pg_slots p" "ph_data_end (pg_header p)"]
  by (simp add: page_wf_def accounted_def gap_def)

section \<open>Deletion\<close>

lemma delete_record_live:
  assumes "live p i"
  shows "delete_record p i =
    (p\<lparr>pg_slots := (pg_slots p)[i := \<lparr>se_offset = 0, se_length = 0\<rparr>],
       pg_header := (pg_header p)\<lparr>ph_free_space :=
           ph_free_space (pg_header p) + se_length (pg_slots p ! i),
         ph_flags := ph_flags (pg_header p) OR FLAG_DIRTY\<rparr>\<rparr>, True)"
  using assms by (simp add: delete_record_def live_def Let_def)

lemma delete_record_dead: "\<not> live p i \<Longrightarrow> delete_record p i = (p, False)"
  by (auto simp: delete_record_def live_def Let_def)

lemma read_record_live_iff: "read_record p i \<noteq> None \<longleftrightarrow> live p i"
  by (auto simp: read_record_def live_def Let_def)

lemma slot_in_zero [simp]: "slot_in d \<lparr>se_offset = 0, se_length = 0\<rparr>"
  by (simp add: slot_in_def slot_deleted_def PAGE_SIZE_def)

lemma delete_record_wf:
  assumes "page_wf p"
  shows "page_wf (fst (delete_record p i))"
proof (cases "live p i")
  case True
  with assms show ?thesis
    by (auto simp: delete_record_live live_def page_wf_def accounted_def dir_end_def used_update
        intro!: slots_apart_update dest: set_update_subset_insert [THEN subsetD])
      (auto simp: apart_def slot_deleted_def)
next
  case False
  with assms show ?thesis by (simp add: delete_record_dead)
qed

lemma delete_record_read:
  "read_record (fst (delete_record p i)) j = (if i = j then None else read_record p j)"
proof (cases "live p i")
  case True
  then show ?thesis
    by (auto simp: delete_record_live live_def read_record_def Let_def nth_list_update
        slot_deleted_def)
next
  case False
  then show ?thesis
    using read_record_live_iff [of p i] by (auto simp add: delete_record_dead)
qed

lemma delete_record_gap: "gap (fst (delete_record p i)) = gap p"
  by (simp add: delete_record_def gap_def dir_end_def Let_def)

section \<open>Insertion\<close>

text \<open>The page after a successful insertion, with slot \<open>i\<close> chosen and \<open>k\<close> new slots.\<close>

lemma insert_record_refuse:
  "ph_free_space (pg_header p) < int (length rec) + SLOT_SIZE \<Longrightarrow> insert_record p rec = (p, None)"
  by (simp add: insert_record_def Let_def)

lemma insert_record_slot:
  assumes "int (length rec) + SLOT_SIZE \<le> ph_free_space (pg_header p)"
  shows "snd (insert_record p rec) =
    Some (case first_deleted (pg_slots p) of Some i \<Rightarrow> i | None \<Rightarrow> length (pg_slots p))"
  using assms by (auto simp: insert_record_def Let_def split: option.splits)

lemma insert_wf_reuse:
  assumes wf: "page_wf p" and room: "int (length rec) + SLOT_SIZE \<le> gap p"
    and fd: "first_deleted (pg_slots p) = Some i"
  defines "e \<equiv> ph_data_end (pg_header p) - int (length rec)"
  shows "page_wf (fst (insert_record p rec))"
    and "snd (insert_record p rec) = Some i"
    and "pg_data (fst (insert_record p rec)) = splice (pg_data p) (nat e) rec"
    and "pg_slots (fst (insert_record p rec)) =
           (pg_slots p)[i := \<lparr>se_offset = e, se_length = int (length rec)\<rparr>]"
proof -
  let ?h = "pg_header p" and ?s = "\<lparr>se_offset = e, se_length = int (length rec)\<rparr>"
  have i: "i < length (pg_slots p)" "slot_deleted (pg_slots p ! i)"
    using first_deleted_Some [OF fd] by auto
  have e: "0 \<le> e" "e + int (length rec) \<le> PAGE_SIZE" "dir_end p \<le> e"
    "e + int (length rec) = ph_data_end ?h"
    using wf room by (auto simp: wf_defs e_def)
  have data: "int (length (pg_data p)) = PAGE_SIZE"
    using wf by (simp add: page_wf_def)
  note set = setslice_page [OF data e(1,2)]
  have fs: "int (length rec) + SLOT_SIZE \<le> ph_free_space ?h"
    using gap_le_free [OF wf] room by simp
  have ins: "insert_record p rec =
    (p\<lparr>pg_data := splice (pg_data p) (nat e) rec, pg_slots := (pg_slots p)[i := ?s],
       pg_header := ?h\<lparr>ph_num_slots := ph_num_slots ?h, ph_data_end := e,
         ph_free_space := ph_free_space ?h - int (length rec),
         ph_flags := ph_flags ?h OR FLAG_DIRTY\<rparr>\<rparr>, Some i)"
    using fs fd set(1) by (simp add: insert_record_def Let_def e_def)
  show "snd (insert_record p rec) = Some i"
    and "pg_data (fst (insert_record p rec)) = splice (pg_data p) (nat e) rec"
    and "pg_slots (fst (insert_record p rec)) = (pg_slots p)[i := ?s]"
    by (simp_all add: ins)
  have in_old: "slot_in (ph_data_end ?h) s" if "s \<in> set (pg_slots p)" for s
    using wf that by (simp add: page_wf_def)
  have "slot_in e s" if "s \<in> set ((pg_slots p)[i := ?s])" for s
  proof (cases "s = ?s")
    case True
    then show ?thesis using e by (simp add: slot_in_def)
  next
    case False
    then have "slot_in (ph_data_end ?h) s"
      using that in_old set_update_subset_insert [of "pg_slots p" i ?s] by blast
    then show ?thesis using e(4) by (auto simp: slot_in_def)
  qed
  moreover have "slots_apart ((pg_slots p)[i := ?s])"
    using wf in_old e(4)
    by (intro slots_apart_update) (fastforce simp: page_wf_def apart_def slot_in_def)+
  moreover have "accounted (fst (insert_record p rec))"
    using wf i by (simp add: ins page_wf_def accounted_def dir_end_def used_update slot_deleted_def)
  ultimately show "page_wf (fst (insert_record p rec))"
    using wf e set(2) by (simp add: ins page_wf_def dir_end_def accounted_def)
qed

lemma insert_wf_append:
  assumes wf: "page_wf p" and room: "int (length rec) + SLOT_SIZE \<le> gap p"
    and fd: "first_deleted (pg_slots p) = None"
  defines "e \<equiv> ph_data_end (pg_header p) - int (length rec)"
  shows "page_wf (fst (insert_record p rec))"
    and "snd (insert_record p rec) = Some (length (pg_slots p))"
    and "pg_data (fst (insert_record p rec)) = splice (pg_data p) (nat e) rec"
    and "pg_slots (fst (insert_record p rec)) =
           pg_slots p @ [\<lparr>se_offset = e, se_length = int (length rec)\<rparr>]"
proof -
  let ?h = "pg_header p" and ?s = "\<lparr>se_offset = e, se_length = int (length rec)\<rparr>"
  have e: "0 \<le> e" "e + int (length rec) \<le> PAGE_SIZE" "dir_end p + SLOT_SIZE \<le> e"
    "e + int (length rec) = ph_data_end ?h"
    using wf room by (auto simp: wf_defs e_def)
  have data: "int (length (pg_data p)) = PAGE_SIZE"
    using wf by (simp add: page_wf_def)
  note set = setslice_page [OF data e(1,2)]
  have fs: "int (length rec) + SLOT_SIZE \<le> ph_free_space ?h"
    using gap_le_free [OF wf] room by simp
  have ins: "insert_record p rec =
    (p\<lparr>pg_data := splice (pg_data p) (nat e) rec, pg_slots := pg_slots p @ [?s],
       pg_header := ?h\<lparr>ph_num_slots := ph_num_slots ?h + 1, ph_data_end := e,
         ph_free_space := ph_free_space ?h - (int (length rec) + SLOT_SIZE),
         ph_flags := ph_flags ?h OR FLAG_DIRTY\<rparr>\<rparr>, Some (length (pg_slots p)))"
    using fs fd set(1) by (simp add: insert_record_def Let_def e_def)
  show "snd (insert_record p rec) = Some (length (pg_slots p))"
    and "pg_data (fst (insert_record p rec)) = splice (pg_data p) (nat e) rec"
    and "pg_slots (fst (insert_record p rec)) = pg_slots p @ [?s]"
    by (simp_all add: ins)
  have in_old: "slot_in (ph_data_end ?h) s" if "s \<in> set (pg_slots p)" for s
    using wf that by (simp add: page_wf_def)
  have "slot_in e s" if "s \<in> set (pg_slots p @ [?s])" for s
    using that in_old [of s] e by (auto simp: slot_in_def)
  moreover have "slots_apart (pg_slots p @ [?s])"
    using wf in_old e(4)
    by (intro slots_apart_append) (fastforce simp: page_wf_def apart_def slot_in_def)+
  moreover have "accounted (fst (insert_record p rec))"
    using wf by (simp add: ins page_wf_def accounted_def dir_end_def algebra_simps)
  ultimately show "page_wf (fst (insert_record p rec))"
    using wf e set(2) by (simp add: ins page_wf_def dir_end_def algebra_simps)
qed

text \<open>Under the room condition both cases read back the new record and every old one.\<close>

lemma insert_record_correct:
  assumes wf: "page_wf p" and room: "int (length rec) + SLOT_SIZE \<le> gap p" and ne: "rec \<noteq> []"
  obtains i p' where "insert_record p rec = (p', Some i)" "page_wf p'" "\<not> live p i"
    "read_record p' i = Some rec" "\<And>j. j \<noteq> i \<Longrightarrow> read_record p' j = read_record p j"
    "gap p' \<le> gap p - int (length rec)"
proof -
  define e where "e = ph_data_end (pg_header p) - int (length rec)"
  define s where "s = \<lparr>se_offset = e, se_length = int (length rec)\<rparr>"
  define p' where "p' = fst (insert_record p rec)"
  define i where
    "i = (case first_deleted (pg_slots p) of Some i \<Rightarrow> i | None \<Rightarrow> length (pg_slots p))"
  have data: "int (length (pg_data p)) = PAGE_SIZE"
    using wf by (simp add: page_wf_def)
  have e: "0 \<le> e" "e + int (length rec) \<le> PAGE_SIZE" "e + int (length rec) = ph_data_end (pg_header p)"
    using wf room by (auto simp: wf_defs e_def)
  have case_facts: "page_wf p' \<and> snd (insert_record p rec) = Some i \<and>
      pg_data p' = splice (pg_data p) (nat e) rec \<and>
      i < length (pg_slots p') \<and> pg_slots p' ! i = s \<and> \<not> live p i \<and>
      (\<forall>j. j \<noteq> i \<longrightarrow> (j < length (pg_slots p') \<longleftrightarrow> j < length (pg_slots p)) \<and>
           (j < length (pg_slots p) \<longrightarrow> pg_slots p' ! j = pg_slots p ! j))"
  proof (cases "first_deleted (pg_slots p)")
    case None
    with insert_wf_append [OF wf room None] show ?thesis
      by (auto simp: p'_def i_def s_def e_def live_def nth_append)
  next
    case (Some k)
    with insert_wf_reuse [OF wf room Some] first_deleted_Some [OF Some] show ?thesis
      by (auto simp: p'_def i_def s_def e_def live_def nth_list_update)
  qed
  have "read_record p' i = Some rec"
    using case_facts slot_bytes_written [OF data e(1,2)] ne
    by (simp add: read_record_def Let_def s_def slot_deleted_def)
  moreover have "read_record p' j = read_record p j" if "j \<noteq> i" for j
  proof (cases "live p j")
    case True
    then have sl: "slot_in (ph_data_end (pg_header p)) (pg_slots p ! j)"
      and "e + int (length rec) \<le> se_offset (pg_slots p ! j)"
      using wf e(3) by (auto simp: page_wf_def live_def slot_in_def)
    then have "slot_bytes (pg_data p') (pg_slots p ! j) = slot_bytes (pg_data p) (pg_slots p ! j)"
      using case_facts slot_bytes_unchanged [OF sl data e(1,2)] by simp
    then show ?thesis
      using case_facts that True by (auto simp add: read_record_def live_def Let_def not_le)
  next
    case False
    with case_facts that show ?thesis by (auto simp: read_record_def live_def Let_def)
  qed
  moreover have "gap p' \<le> gap p - int (length rec)"
  proof (cases "first_deleted (pg_slots p)")
    case None
    show ?thesis
      using insert_wf_append [OF wf room None] gap_le_free [OF wf] room None
      by (simp add: p'_def gap_def dir_end_def insert_record_def Let_def SLOT_SIZE_def)
  next
    case (Some k)
    then show ?thesis
      using insert_wf_reuse [OF wf room Some] gap_le_free [OF wf] room
      by (simp add: p'_def gap_def dir_end_def insert_record_def Let_def)
  qed
  moreover have "insert_record p rec = (p', Some i)"
    using case_facts by (simp add: p'_def prod_eq_iff)
  ultimately show ?thesis using case_facts that by blast
qed

section \<open>Compaction\<close>

lemma live_records_fst: "i \<in> fst ` set (live_records_from k data ss) \<Longrightarrow> k \<le> i"
  by (induction ss arbitrary: k) (fastforce split: if_splits)+

lemma live_records_distinct: "distinct (map fst (live_records_from k data ss))"
proof (induction ss arbitrary: k)
  case (Cons s ss)
  have "k \<notin> fst ` set (live_records_from (Suc k) data ss)"
    using live_records_fst [of k "Suc k" data ss] by auto
  with Cons show ?case by simp
qed simp

lemma live_records_set:
  "set (live_records_from k data ss) =
     {(k + i, slot_bytes data (ss ! i)) | i. i < length ss \<and> \<not> slot_deleted (ss ! i)}"
proof (induction ss arbitrary: k)
  case Nil
  then show ?case by simp
next
  case (Cons s ss)
  have split: "{(k + i, slot_bytes data ((s # ss) ! i)) | i.
        i < length (s # ss) \<and> \<not> slot_deleted ((s # ss) ! i)} =
      (if slot_deleted s then {} else {(k, slot_bytes data s)}) \<union>
      {(Suc k + i, slot_bytes data (ss ! i)) | i. i < length ss \<and> \<not> slot_deleted (ss ! i)}"
    (is "?L = ?R")
  proof (rule set_eqI)
    fix x
    show "x \<in> ?L \<longleftrightarrow> x \<in> ?R"
      by (auto simp: less_Suc_eq_0_disj)
  qed
  show ?case unfolding split using Cons.IH by simp
qed

lemma slot_bytes_length:
  "slot_in d s \<Longrightarrow> int (length data) = PAGE_SIZE \<Longrightarrow>
   int (length (slot_bytes data s)) = se_length s"
  using slot_bytes_window [of d s data]
  by (simp add: length_window slot_in_def)

lemma live_records_total:
  assumes "\<forall>s \<in> set ss. slot_in d s" and "int (length data) = PAGE_SIZE"
  shows "(\<Sum>(i, r) \<leftarrow> live_records_from k data ss. int (length r)) = used ss"
  using assms
  by (induction ss arbitrary: k) (auto simp: used_def slot_deleted_def slot_bytes_length)

definition placed :: "int \<Rightarrow> byte list \<Rightarrow> slot_entry list \<Rightarrow> (nat \<Rightarrow> byte list) \<Rightarrow> nat set \<Rightarrow> bool" where
  "placed d data ss R D =
     ((\<forall>i \<in> D. i < length ss \<and> slot_in d (ss ! i) \<and> \<not> slot_deleted (ss ! i) \<and>
          slot_bytes data (ss ! i) = R i) \<and>
      (\<forall>i \<in> D. \<forall>j \<in> D. i \<noteq> j \<longrightarrow> apart (ss ! i) (ss ! j)))"

lemma placed_step:
  assumes "placed d data ss R D" and "i \<notin> D" and "i < length ss" and "rec \<noteq> []" and "R i = rec"
    and "int (length data) = PAGE_SIZE" and "d \<le> PAGE_SIZE" and "0 \<le> d - int (length rec)"
  defines "e \<equiv> d - int (length rec)"
  shows "placed e (splice data (nat e) rec)
           (ss[i := \<lparr>se_offset = e, se_length = int (length rec)\<rparr>]) R (insert i D)"
proof -
  let ?s = "\<lparr>se_offset = e, se_length = int (length rec)\<rparr>"
  have e: "0 \<le> e" "e + int (length rec) \<le> PAGE_SIZE"
    using assms by (simp_all add: e_def)
  have old: "slot_in e (ss ! j) \<and> \<not> slot_deleted (ss ! j) \<and> d \<le> se_offset (ss ! j) \<and>
      slot_bytes (splice data (nat e) rec) (ss ! j) = R j" if "j \<in> D" for j
  proof -
    have sl: "slot_in d (ss ! j)" and nd: "\<not> slot_deleted (ss ! j)"
      and "slot_bytes data (ss ! j) = R j"
      using assms(1) that by (auto simp: placed_def)
    moreover have "e + int (length rec) \<le> se_offset (ss ! j)"
      using sl nd by (simp add: slot_in_def e_def)
    ultimately show ?thesis
      using slot_bytes_unchanged [OF sl assms(6) e] by (auto simp: slot_in_def e_def)
  qed
  have "apart ?s (ss ! j)" if "j \<in> D" for j
    using old [OF that] by (simp add: apart_def e_def)
  moreover have "slot_in e ?s" "\<not> slot_deleted ?s"
    using e assms(4) by (simp_all add: slot_in_def slot_deleted_def)
  moreover have "slot_bytes (splice data (nat e) rec) ?s = rec"
    by (rule slot_bytes_written [OF assms(6) e])
  ultimately show ?thesis
    using assms(1-3,5) old unfolding placed_def
    by (auto simp: nth_list_update intro: apart_sym)
qed

lemma compact_loop_placed:
  assumes "placed d data ss R D" and "distinct (map fst L)" and "fst ` set L \<inter> D = {}"
    and "\<forall>(i, r) \<in> set L. i < length ss \<and> r \<noteq> [] \<and> R i = r"
    and "int (length data) = PAGE_SIZE" and "d \<le> PAGE_SIZE"
    and "(\<Sum>(i, r) \<leftarrow> L. int (length r)) \<le> d"
    and "compact_loop L d data ss = (d', data', ss')"
  shows "placed d' data' ss' R (D \<union> fst ` set L) \<and>
    d' = d - (\<Sum>(i, r) \<leftarrow> L. int (length r)) \<and>
    int (length data') = PAGE_SIZE \<and> length ss' = length ss \<and>
    (\<forall>j. j \<notin> fst ` set L \<longrightarrow> ss' ! j = ss ! j)"
  using assms
proof (induction L arbitrary: d data ss D)
  case Nil
  then show ?case by simp
next
  case (Cons ir L)
  obtain i rec where ir: "ir = (i, rec)" by (cases ir)
  define e where "e = d - int (length rec)"
  define ss1 where "ss1 = ss[i := \<lparr>se_offset = e, se_length = int (length rec)\<rparr>]"
  define data1 where "data1 = splice data (nat e) rec"
  note prems = Cons.prems [unfolded ir, simplified]
  have nonneg: "0 \<le> (\<Sum>(i, r) \<leftarrow> L. int (length r))"
    by (rule sum_list_nonneg) auto
  have e: "0 \<le> e" "e + int (length rec) \<le> PAGE_SIZE" "e \<le> PAGE_SIZE"
    "(\<Sum>(i, r) \<leftarrow> L. int (length r)) \<le> e"
    using prems nonneg by (simp_all add: e_def)
  have data: "int (length data) = PAGE_SIZE" using prems by simp
  note set = setslice_page [OF data e(1,2)]
  have ed: "e + int (length rec) = d" by (simp add: e_def)
  have step: "placed e data1 ss1 R (insert i D)"
    unfolding data1_def ss1_def e_def by (rule placed_step) (use prems e in \<open>auto simp: e_def\<close>)
  have run: "compact_loop L e data1 ss1 = (d', data', ss')"
    using prems set(1) [unfolded ed] by (simp add: data1_def ss1_def Let_def flip: e_def)
  have rest: "distinct (map fst L)" "fst ` set L \<inter> insert i D = {}"
    "\<forall>(j, r) \<in> set L. j < length ss1 \<and> r \<noteq> [] \<and> R j = r"
    "int (length data1) = PAGE_SIZE"
    using prems set(2) by (auto simp: ss1_def data1_def)
  have IH: "placed d' data' ss' R (insert i D \<union> fst ` set L)"
    "d' = e - (\<Sum>(i, r) \<leftarrow> L. int (length r))"
    "int (length data') = PAGE_SIZE" "length ss' = length ss1"
    "\<forall>j. j \<notin> fst ` set L \<longrightarrow> ss' ! j = ss1 ! j"
    using Cons.IH [OF step rest e(3,4) run] by blast+
  have "placed d' data' ss' R (D \<union> fst ` set (ir # L))"
    using IH(1) by (simp add: ir)
  moreover have "d' = d - (\<Sum>(i, r) \<leftarrow> ir # L. int (length r))"
    using IH(2) by (simp add: ir e_def)
  moreover have "\<forall>j. j \<notin> fst ` set (ir # L) \<longrightarrow> ss' ! j = ss ! j"
    using IH(5) by (simp add: ir ss1_def)
  ultimately show ?case using IH(3,4) by (simp add: ss1_def)
qed

lemma compact_facts:
  assumes wf: "page_wf p"
  shows "page_wf (compact p)" and "\<And>i. read_record (compact p) i = read_record p i"
    and "gap (compact p) = ph_free_space (pg_header (compact p))"
    and "ph_free_space (pg_header (compact p)) = ph_free_space (pg_header p)"
proof -
  let ?h = "pg_header p" and ?ss = "pg_slots p" and ?data = "pg_data p"
  define R where "R i = slot_bytes ?data (?ss ! i)" for i
  define L where "L = get_all_records p"
  obtain d' data' ss' where run: "compact_loop L PAGE_SIZE ?data ?ss = (d', data', ss')"
    by (cases "compact_loop L PAGE_SIZE ?data ?ss")
  have data: "int (length ?data) = PAGE_SIZE"
    and sl: "\<forall>s \<in> set ?ss. slot_in (ph_data_end ?h) s"
    and de: "dir_end p \<le> ph_data_end ?h" "ph_data_end ?h \<le> PAGE_SIZE"
    and acc: "ph_free_space ?h = PAGE_SIZE - dir_end p - used ?ss"
    using wf by (simp_all add: page_wf_def accounted_def)
  have Lset: "fst ` set L = {i. live p i}"
    by (force simp: L_def get_all_records_def live_records_set live_def)
  have Lrec: "\<forall>(i, r) \<in> set L. i < length ?ss \<and> r \<noteq> [] \<and> R i = r"
  proof -
    have "slot_bytes ?data (?ss ! i) \<noteq> []" if "i < length ?ss" "\<not> slot_deleted (?ss ! i)" for i
      using that sl slot_bytes_length [of "ph_data_end ?h" "?ss ! i" ?data] data
      by (auto simp: slot_deleted_def)
    then show ?thesis
      by (auto simp: L_def get_all_records_def live_records_set R_def)
  qed
  have total: "(\<Sum>(i, r) \<leftarrow> L. int (length r)) = used ?ss"
    unfolding L_def get_all_records_def by (rule live_records_total [OF sl data])
  have used: "used ?ss \<le> PAGE_SIZE - ph_data_end ?h"
    using used_le_region sl de wf by (auto simp: page_wf_def)
  have "0 \<le> dir_end p" by (simp add: wf_defs)
  then have le: "(\<Sum>(i, r) \<leftarrow> L. int (length r)) \<le> PAGE_SIZE" using used de total by simp
  have "placed PAGE_SIZE ?data ?ss R {}" by (simp add: placed_def)
  from compact_loop_placed [OF this _ _ Lrec data order_refl le run]
  have pl: "placed d' data' ss' R {i. live p i}" and d': "d' = PAGE_SIZE - used ?ss"
    and data': "int (length data') = PAGE_SIZE" and len: "length ss' = length ?ss"
    and other: "\<And>j. \<not> live p j \<Longrightarrow> ss' ! j = ?ss ! j"
    using live_records_distinct [of 0 ?data ?ss] total Lset
    by (auto simp add: L_def get_all_records_def)
  have alive: "slot_in d' (ss' ! i) \<and> slot_deleted (ss' ! i) = slot_deleted (?ss ! i) \<and>
      se_length (ss' ! i) = se_length (?ss ! i) \<and>
      (live p i \<longrightarrow> slot_bytes data' (ss' ! i) = slot_bytes ?data (?ss ! i))"
    if "i < length ?ss" for i
  proof (cases "live p i")
    case True
    then have "slot_in d' (ss' ! i)" "\<not> slot_deleted (ss' ! i)" "slot_bytes data' (ss' ! i) = R i"
      using pl by (auto simp: placed_def)
    then show ?thesis
      using True slot_bytes_length [of d' "ss' ! i" data'] data' sl
        slot_bytes_length [OF _ data, of "ph_data_end ?h" "?ss ! i"]
      by (auto simp: live_def R_def)
  next
    case False
    then have "slot_deleted (?ss ! i)" "slot_in (ph_data_end ?h) (?ss ! i)"
      using that sl by (auto simp: live_def)
    then show ?thesis using False other by (auto simp: slot_in_def)
  qed
  have cp: "compact p = p\<lparr>pg_data := data', pg_slots := ss',
      pg_header := ?h\<lparr>ph_data_end := d', ph_free_space := d' - dir_end p,
        ph_flags := ph_flags ?h OR FLAG_DIRTY\<rparr>\<rparr>"
    using run len by (simp add: compact_def L_def dir_end_def Let_def)
  have used': "used ss' = used ?ss"
    unfolding used_index len using alive by (intro sum.cong) auto
  have de': "dir_end (compact p) = dir_end p"
    by (simp add: cp dir_end_def len)
  have "slots_apart ss'"
    unfolding slots_apart_def
  proof (intro allI impI)
    fix i j assume ij: "i < length ss'" "j < length ss'" "i \<noteq> j"
    show "apart (ss' ! i) (ss' ! j)"
    proof (cases "live p i \<and> live p j")
      case True
      then show ?thesis using pl ij by (auto simp: placed_def)
    next
      case False
      then show ?thesis using alive ij by (auto simp: live_def apart_def len)
    qed
  qed
  moreover have "slot_in d' s" if "s \<in> set ss'" for s
    using that alive by (auto simp: in_set_conv_nth len)
  moreover have "0 \<le> used ?ss"
    unfolding used_def by (rule sum_list_nonneg) (use sl in \<open>auto simp: slot_in_def\<close>)
  ultimately show "page_wf (compact p)"
    using wf used used' de d' data' len de'
    by (simp add: page_wf_def accounted_def) (simp add: cp)
  show "read_record (compact p) i = read_record p i" for i
    using alive [of i] by (auto simp: cp read_record_def Let_def live_def len)
  show "gap (compact p) = ph_free_space (pg_header (compact p))"
    unfolding gap_def de' by (simp add: cp)
  show "ph_free_space (pg_header (compact p)) = ph_free_space ?h"
    using acc d' by (simp add: cp)
qed

section \<open>Update\<close>

lemma update_shrink:
  assumes wf: "page_wf p" and lv: "live p i"
    and le: "int (length rec) \<le> se_length (pg_slots p ! i)" and ne: "rec \<noteq> []"
  shows "snd (update_record p i rec)" and "page_wf (fst (update_record p i rec))"
    and "read_record (fst (update_record p i rec)) j =
           (if i = j then Some rec else read_record p j)"
proof -
  let ?ss = "pg_slots p" and ?h = "pg_header p"
  let ?s = "?ss ! i"
  let ?t = "\<lparr>se_offset = se_offset ?s, se_length = int (length rec)\<rparr>"
  have data: "int (length (pg_data p)) = PAGE_SIZE" and i: "i < length ?ss" "\<not> slot_deleted ?s"
    and sl: "\<And>k. k < length ?ss \<Longrightarrow> slot_in (ph_data_end ?h) (?ss ! k)"
    and ap: "\<And>k. k < length ?ss \<Longrightarrow> k \<noteq> i \<Longrightarrow> apart ?s (?ss ! k)"
    using wf lv by (auto simp: page_wf_def live_def slots_apart_def)
  have a: "0 \<le> se_offset ?s" "se_offset ?s + int (length rec) \<le> PAGE_SIZE"
    using sl [OF i(1)] le by (auto simp: slot_in_def)
  note set = setslice_page [OF data a]
  have upd: "update_record p i rec =
    (p\<lparr>pg_data := splice (pg_data p) (nat (se_offset ?s)) rec, pg_slots := ?ss[i := ?t],
       pg_header := ?h\<lparr>ph_free_space := ph_free_space ?h + (se_length ?s - int (length rec)),
         ph_flags := ph_flags ?h OR FLAG_DIRTY\<rparr>\<rparr>, True)"
    using i le set(1) by (simp add: update_record_def Let_def)
  then show "snd (update_record p i rec)" by simp
  have t: "slot_in (ph_data_end ?h) ?t" "\<not> slot_deleted ?t"
    using sl [OF i(1)] i le ne by (auto simp: slot_in_def slot_deleted_def)
  have "\<forall>s \<in> set (?ss[i := ?t]). slot_in (ph_data_end ?h) s"
    using t sl i(1) by (auto simp: in_set_conv_nth nth_list_update)
  moreover have "slots_apart (?ss[i := ?t])"
    using wf ap le t(2) i(2) sl
    by (intro slots_apart_update) (fastforce simp: page_wf_def apart_def)+
  ultimately show "page_wf (fst (update_record p i rec))"
    using wf set(2) i by (simp add: upd page_wf_def accounted_def dir_end_def used_update)
  have other: "slot_bytes (splice (pg_data p) (nat (se_offset ?s)) rec) (?ss ! k) =
      slot_bytes (pg_data p) (?ss ! k)" if "k < length ?ss" "k \<noteq> i" "\<not> slot_deleted (?ss ! k)" for k
    using ap [OF that(1,2)] that(3) i(2) le
    by (intro slot_bytes_unchanged [OF sl [OF that(1)] data a]) (auto simp: apart_def)
  show "read_record (fst (update_record p i rec)) j = (if i = j then Some rec else read_record p j)"
    using i t other [of j] slot_bytes_written [OF data a]
    by (auto simp: upd read_record_def Let_def nth_list_update)
qed

lemma swap_slots_nth:
  "i < length ss \<Longrightarrow> j < length ss \<Longrightarrow> k < length ss \<Longrightarrow>
   swap_slots i j ss ! k = ss ! (if k = i then j else if k = j then i else k)"
  by (auto simp: swap_slots_def nth_list_update)

lemma swap_slots_length [simp]: "length (swap_slots i j ss) = length ss"
  by (simp add: swap_slots_def)

lemma swap_slots_mset: "i < length ss \<Longrightarrow> j < length ss \<Longrightarrow> set (swap_slots i j ss) = set ss"
  by (simp add: swap_slots_def set_swap)

lemma swap_slots_used:
  assumes "i < length ss" "j < length ss"
  shows "used (swap_slots i j ss) = used ss"
  using assms unfolding swap_slots_def
  by (simp add: used_update nth_list_update)

lemma swap_slots_apart:
  assumes "i < length ss" "j < length ss" "slots_apart ss"
  shows "slots_apart (swap_slots i j ss)"
  using assms unfolding slots_apart_def by (simp add: swap_slots_nth)

lemma swap_page_wf:
  assumes "page_wf p" "i < length (pg_slots p)" "j < length (pg_slots p)"
  shows "page_wf (p\<lparr>pg_slots := swap_slots i j (pg_slots p)\<rparr>)"
  using assms
  by (simp add: page_wf_def accounted_def dir_end_def swap_slots_mset swap_slots_used swap_slots_apart)

lemma swap_page_read:
  assumes "i < length (pg_slots p)" "j < length (pg_slots p)"
  shows "read_record (p\<lparr>pg_slots := swap_slots i j (pg_slots p)\<rparr>) k =
    read_record p (if k = i then j else if k = j then i else k)"
  using assms by (simp add: read_record_def Let_def swap_slots_nth)

text \<open>
  A growing update deletes and re-inserts, then swaps the directory entries back, so the
  record keeps its slot even when insertion picked an earlier tombstone.
\<close>

lemma update_grow:
  assumes wf: "page_wf p" and lv: "live p i"
    and gt: "se_length (pg_slots p ! i) < int (length rec)"
    and room: "int (length rec) + SLOT_SIZE \<le> gap p"
  shows "snd (update_record p i rec)" and "page_wf (fst (update_record p i rec))"
    and "read_record (fst (update_record p i rec)) j =
           (if i = j then Some rec else read_record p j)"
proof -
  define p1 where "p1 = fst (delete_record p i)"
  have p1: "delete_record p i = (p1, True)" "page_wf p1" "gap p1 = gap p"
    "\<And>k. read_record p1 k = (if i = k then None else read_record p k)"
    "length (pg_slots p1) = length (pg_slots p)"
  proof -
    show "delete_record p i = (p1, True)" "length (pg_slots p1) = length (pg_slots p)"
      using delete_record_live [OF lv] by (simp_all add: p1_def)
    show "page_wf p1" "gap p1 = gap p"
      "\<And>k. read_record p1 k = (if i = k then None else read_record p k)"
      unfolding p1_def by (rule delete_record_wf [OF wf] delete_record_gap delete_record_read)+
  qed
  have ne: "rec \<noteq> []" using gt wf lv by (auto simp: page_wf_def slot_in_def live_def)
  obtain k p2 where ins: "insert_record p1 rec = (p2, Some k)" and p2: "page_wf p2"
    "\<not> live p1 k" "read_record p2 k = Some rec" "\<And>m. m \<noteq> k \<Longrightarrow> read_record p2 m = read_record p1 m"
    using insert_record_correct [OF p1(2) _ ne] room p1(3) by (metis (no_types))
  have i: "i < length (pg_slots p)" "\<not> slot_deleted (pg_slots p ! i)"
    using lv by (auto simp: live_def)
  have k: "k < length (pg_slots p2)"
    using p2(3) by (auto simp: read_record_def split: if_splits)
  have "pg_slots p1 ! i \<in> set (pg_slots p1)"
    by (rule nth_mem) (use i p1(5) in simp)
  moreover have "slot_deleted (pg_slots p1 ! i)"
    using delete_record_live [OF lv] i by (simp add: p1_def slot_deleted_def)
  ultimately have "first_deleted (pg_slots p1) \<noteq> None"
    unfolding first_deleted_None by blast
  then have len: "length (pg_slots p2) = length (pg_slots p)"
    using ins p1(5) by (auto simp: insert_record_def Let_def split: option.splits if_splits)
  have upd: "update_record p i rec =
      (if k \<noteq> i then p2\<lparr>pg_slots := swap_slots i k (pg_slots p2)\<rparr> else p2, True)"
    using i gt p1(1) ins by (simp add: update_record_def Let_def)
  then show "snd (update_record p i rec)" by simp
  show "page_wf (fst (update_record p i rec))"
    using swap_page_wf [of p2 i k] p2(1) i k len by (simp add: upd)
  have ki: "k \<noteq> i \<Longrightarrow> read_record p k = None"
    using p2(2) p1(4) read_record_live_iff [of p1 k] by auto
  show "read_record (fst (update_record p i rec)) j = (if i = j then Some rec else read_record p j)"
  proof (cases "k = i")
    case True
    then show ?thesis using p2(3,4) p1(4) by (auto simp: upd)
  next
    case False
    then show ?thesis
      using swap_page_read [of i p2 k j] i k len p2(3) p2(4) p1(4) ki by (auto simp: upd)
  qed
qed

end
