(* ===== verification/Page_Bytes.thy ===== *)
theory Page_Bytes
  imports Page_Safety
begin

text \<open>
  The byte image of a page and the disk manager: a well-formed page is written and read back
  unchanged with a valid checksum, a page whose space check went wrong cannot be written at
  all, and the database file returns for each page the bytes last written for it.
\<close>

section \<open>Slot and header round trips\<close>

lemma slot_pack_length:
  assumes b: "slot_pack s = Inr b"
  shows "length b = 4"
  using pack_fields_length [OF b [unfolded slot_pack_def]] by (simp add: slot_fmt_def)

lemma slot_pack_unpack:
  assumes b: "slot_pack s = Inr b"
  shows "slot_unpack b = Inr s"
proof -
  have "unpack_fields slot_fmt b = Inr [se_offset s, se_length s]"
    using unpack_pack_fields [OF b [unfolded slot_pack_def]] by (simp add: slot_fmt_def)
  then show ?thesis
    by (simp only: slot_unpack_def) (simp add: py_slice_take SLOT_SIZE_def slot_pack_length [OF b])
qed

lemma slot_pack_total: "slot_in d s \<Longrightarrow> \<exists>b. slot_pack s = Inr b"
  unfolding slot_pack_def is_ok_iff [symmetric] pack_fields_ok_iff
  by (auto simp: slot_in_def PAGE_SIZE_def)

definition hdr_ok :: "page_header \<Rightarrow> bool" where
  "hdr_ok h = (\<forall>(f, v) \<in> set (zip header_fmt (header_values h)). field_ok f v)"

lemma header_pack_total: "hdr_ok h \<Longrightarrow> \<exists>b. header_pack h = Inr b"
  unfolding header_pack_def is_ok_iff [symmetric] pack_fields_ok_iff by (simp add: hdr_ok_def)

lemma header_pack_length:
  assumes b: "header_pack h = Inr b"
  shows "length b = 32"
  using pack_fields_length [OF b [unfolded header_pack_def]]
  by (simp add: header_fmt_def header_values_def)

lemma header_pack_unpack:
  assumes b: "header_pack h = Inr b"
  shows "header_unpack b = Inr h"
proof -
  have "unpack_fields header_fmt b = Inr (header_values h)"
    using unpack_pack_fields [OF b [unfolded header_pack_def]]
    by (simp add: header_fmt_def header_values_def)
  with header_pack_length [OF b] show ?thesis
    by (simp add: header_unpack_def header_values_def py_slice_take HEADER_SIZE_def)
qed

lemma write_slots_splice:
  assumes "mapr slot_pack ss = Inr bs" and "32 + 4 * (i + length ss) \<le> length data"
  shows "write_slots_at i ss data = Inr (splice data (32 + 4 * i) (concat bs)) \<and>
         length (concat bs) = 4 * length ss"
  using assms
proof (induction ss arbitrary: i data bs)
  case Nil
  then show ?case by simp
next
  case (Cons s ss)
  then obtain b bs' where b: "slot_pack s = Inr b" and bs': "mapr slot_pack ss = Inr bs'"
    and bs: "bs = b # bs'"
    by (auto simp: bindr_Inr_iff)
  have lb: "length b = 4" using b by (rule slot_pack_length)
  have step: "py_setslice data (HEADER_SIZE + int i * SLOT_SIZE)
      (HEADER_SIZE + int i * SLOT_SIZE + SLOT_SIZE) b = splice data (32 + 4 * i) b"
    using py_setslice_splice [of "32 + 4 * i" b data] Cons.prems(2) lb
    by (simp add: HEADER_SIZE_def SLOT_SIZE_def algebra_simps)
  have "32 + 4 * (Suc i + length ss) \<le> length (splice data (32 + 4 * i) b)"
    using Cons.prems(2) lb by (simp add: length_splice)
  note IH = Cons.IH [OF bs' this]
  have "splice (splice data (32 + 4 * i) b) (32 + 4 * i + length b) (concat bs') =
      splice data (32 + 4 * i) (b @ concat bs')"
    by (rule splice_splice) (use IH Cons.prems(2) lb in simp)
  then show ?case using IH b step lb by (simp add: bs Let_def)
qed

lemma read_slots_window:
  assumes "mapr slot_pack ss = Inr bs" and "32 + 4 * (i + length ss) \<le> length data"
    and "window data (32 + 4 * i) (4 * length ss) = concat bs"
  shows "read_slots data i (length ss) = Inr ss"
  using assms
proof (induction ss arbitrary: i bs)
  case Nil
  then show ?case by simp
next
  case (Cons s ss)
  then obtain b bs' where b: "slot_pack s = Inr b" and bs': "mapr slot_pack ss = Inr bs'"
    and bs: "bs = b # bs'"
    by (auto simp: bindr_Inr_iff)
  have lb: "length b = 4" using b by (rule slot_pack_length)
  have "window data (32 + 4 * i) 4 @ window data (32 + 4 * i + 4) (4 * length ss) = b @ concat bs'"
    using Cons.prems(3) window_append_split [of data "32 + 4 * i" 4 "4 * length ss"]
    by (simp add: bs)
  moreover have "length (window data (32 + 4 * i) 4) = length b"
    using Cons.prems(2) lb by (simp add: length_window)
  ultimately have w: "window data (32 + 4 * i) 4 = b"
      "window data (32 + 4 * Suc i) (4 * length ss) = concat bs'"
    by (simp_all add: algebra_simps)
  have "py_slice data (HEADER_SIZE + int i * SLOT_SIZE)
      (HEADER_SIZE + int i * SLOT_SIZE + SLOT_SIZE) = b"
    using py_slice_window [of "32 + 4 * i" 4 data] Cons.prems(2) w(1)
    by (simp add: HEADER_SIZE_def SLOT_SIZE_def algebra_simps)
  moreover have "read_slots data (Suc i) (length ss) = Inr ss"
    using Cons.IH [OF bs' _ w(2)] Cons.prems(2) by simp
  ultimately show ?case
    using slot_pack_unpack [OF b] by (simp add: Let_def)
qed

lemma mapr_slot_pack_total:
  "\<forall>s \<in> set ss. slot_in d s \<Longrightarrow> \<exists>bs. mapr slot_pack ss = Inr bs"
  using slot_pack_total by (induction ss) fastforce+

section \<open>Whole pages\<close>

lemma pack_fields_append:
  "pack_fields (xs @ ys) =
     bindr (pack_fields xs) (\<lambda>a. bindr (pack_fields ys) (\<lambda>b. Inr (a @ b)))"
  by (induction xs rule: pack_fields.induct) (simp_all add: bindr_assoc)

text \<open>Patching the last four header bytes is packing the header with that checksum.\<close>

lemma header_pack_checksum:
  assumes hb: "header_pack h = Inr hb" and cb: "pack_u 4 c = Inr cb"
  shows "header_pack (h\<lparr>ph_checksum := c\<rparr>) = Inr (take 28 hb @ cb)"
proof -
  define front where "front = zip (take 9 header_fmt) (take 9 (header_values h))"
  have z: "zip header_fmt (header_values (h\<lparr>ph_checksum := k\<rparr>)) = front @ [(FU 4, k)]" for k
    by (simp add: front_def header_fmt_def header_values_def)
  have hp: "header_pack (h\<lparr>ph_checksum := k\<rparr>) =
      bindr (pack_fields front) (\<lambda>a. bindr (pack_u 4 k) (\<lambda>b. Inr (a @ b)))" for k
    unfolding header_pack_def z pack_fields_append by (cases "pack_u 4 k") simp_all
  obtain a b where a: "pack_fields front = Inr a" and b: "hb = a @ b"
    using hb hp [of "ph_checksum h"]
    by (cases "pack_fields front"; cases "pack_u 4 (ph_checksum h)") simp_all
  have "length a = 28"
    using pack_fields_length [OF a] by (simp add: front_def header_fmt_def header_values_def)
  then show ?thesis using hp [of c] a b cb by simp
qed

lemma page_crc_range: "0 \<le> page_crc d \<and> page_crc d < 256 ^ 4"
  unfolding page_crc_def by (simp add: uint_lt2p [where 'a = 32, simplified])

text \<open>
  The bytes of a well-formed page: the header with its checksum, the slot directory, and
  above the directory the page's own record area.
\<close>

lemma to_bytes_layout:
  assumes wf: "page_wf p" and hdr: "hdr_ok (pg_header p)"
  obtains hb sb d where "header_pack (pg_header p) = Inr hb"
    "mapr slot_pack (pg_slots p) = Inr sb" "length (concat sb) = 4 * length (pg_slots p)"
    "32 + 4 * length (pg_slots p) \<le> 4096" "length d = 4096"
    "d = splice (splice (pg_data p) 0 hb) 32 (concat sb)"
    "to_bytes p = Inr (p\<lparr>pg_data := splice d 28 (be_enc 4 (nat (page_crc d))),
       pg_header := (pg_header p)\<lparr>ph_checksum := page_crc d\<rparr>\<rparr>,
       splice d 28 (be_enc 4 (nat (page_crc d))))"
proof -
  obtain hb where hb: "header_pack (pg_header p) = Inr hb" using header_pack_total [OF hdr] by blast
  obtain sb where sb: "mapr slot_pack (pg_slots p) = Inr sb"
    using mapr_slot_pack_total wf unfolding page_wf_def by meson
  have len: "length (pg_data p) = 4096" and dir: "32 + 4 * length (pg_slots p) \<le> 4096"
    using wf by (simp_all add: wf_defs)
  define d1 where "d1 = splice (pg_data p) 0 hb"
  have d1: "length d1 = 4096" using header_pack_length [OF hb] len by (simp add: d1_def length_splice)
  have s1: "py_setslice (pg_data p) 0 HEADER_SIZE hb = d1"
    using py_setslice_splice [of 0 hb "pg_data p"] header_pack_length [OF hb] len
    by (simp add: d1_def HEADER_SIZE_def)
  have dir': "32 + 4 * (0 + length (pg_slots p)) \<le> length d1" using dir d1 by simp
  note ws = write_slots_splice [OF sb dir']
  define d where "d = splice d1 32 (concat sb)"
  have d: "length d = 4096" using ws d1 dir by (simp add: d_def length_splice)
  have s2: "py_setslice d (HEADER_SIZE - 4) HEADER_SIZE (be_enc 4 v) = splice d 28 (be_enc 4 v)" for v
    using py_setslice_splice [of 28 "be_enc 4 v" d] d by (simp add: HEADER_SIZE_def)
  show thesis
  proof (rule that [OF hb sb _ dir d])
    show "length (concat sb) = 4 * length (pg_slots p)" using ws by simp
    show "d = splice (splice (pg_data p) 0 hb) 32 (concat sb)" by (simp add: d_def d1_def)
    show "to_bytes p = Inr (p\<lparr>pg_data := splice d 28 (be_enc 4 (nat (page_crc d))),
       pg_header := (pg_header p)\<lparr>ph_checksum := page_crc d\<rparr>\<rparr>,
       splice d 28 (be_enc 4 (nat (page_crc d))))"
      using ws page_crc_range [of d]
      by (simp add: to_bytes_def write_header_def hb s1 write_slots_def Let_def d_def [symmetric]
          pack_u_ok s2)
  qed
qed

lemma to_bytes_wf:
  assumes wf: "page_wf p" and hdr: "hdr_ok (pg_header p)"
  obtains p' bs where "to_bytes p = Inr (p', bs)" "length bs = 4096"
    "pg_data p' = bs" "pg_slots p' = pg_slots p"
    "\<exists>c. pg_header p' = (pg_header p)\<lparr>ph_checksum := c\<rparr>"
    "from_bytes bs = Inr p'" "verify_checksum p'"
    "\<forall>i. dir_end p \<le> int i \<and> i < 4096 \<longrightarrow> bs ! i = pg_data p ! i"
proof -
  obtain hb sb d where hb: "header_pack (pg_header p) = Inr hb"
    and sb: "mapr slot_pack (pg_slots p) = Inr sb"
    and lsb: "length (concat sb) = 4 * length (pg_slots p)"
    and dir: "32 + 4 * length (pg_slots p) \<le> 4096" and d: "length d = 4096"
    and d_eq: "d = splice (splice (pg_data p) 0 hb) 32 (concat sb)"
    and tb: "to_bytes p = Inr (p\<lparr>pg_data := splice d 28 (be_enc 4 (nat (page_crc d))),
       pg_header := (pg_header p)\<lparr>ph_checksum := page_crc d\<rparr>\<rparr>,
       splice d 28 (be_enc 4 (nat (page_crc d))))"
    by (rule to_bytes_layout [OF wf hdr])
  define c where "c = page_crc d"
  define cb where "cb = be_enc 4 (nat c)"
  define bs where "bs = splice d 28 cb"
  define p' where "p' = p\<lparr>pg_data := bs, pg_header := (pg_header p)\<lparr>ph_checksum := c\<rparr>\<rparr>"
  have len: "length (pg_data p) = 4096" and lhb: "length hb = 32"
    using wf header_pack_length [OF hb] by (simp_all add: wf_defs)
  have cb: "length cb = 4" "pack_u 4 c = Inr cb"
    using page_crc_range [of d] by (simp_all add: cb_def c_def pack_u_ok)
  have lbs: "length bs = 4096" using d cb(1) by (simp add: bs_def length_splice)
  have nth: "i < 4096 \<Longrightarrow> bs ! i = (if i < 28 then hb ! i else if i < 32 then cb ! (i - 28)
      else if i < 32 + 4 * length (pg_slots p) then concat sb ! (i - 32) else pg_data p ! i)" for i
    using len lhb lsb dir cb(1) d
    by (auto simp: bs_def d_eq nth_splice length_splice simp del: length_concat)
  have "take 32 bs = take 28 hb @ cb"
    by (rule nth_equalityI) (use lbs lhb cb(1) in \<open>auto simp: nth nth_append\<close>)
  then have hu: "header_unpack (take 32 bs) = Inr ((pg_header p)\<lparr>ph_checksum := c\<rparr>)"
    using header_pack_unpack [OF header_pack_checksum [OF hb cb(2)]] by simp
  have "window bs 32 (4 * length (pg_slots p)) = concat sb"
    by (rule nth_equalityI)
      (use lbs lsb dir in \<open>auto simp: length_window nth_window nth simp del: length_concat\<close>)
  then have rs: "read_slots bs 0 (length (pg_slots p)) = Inr (pg_slots p)"
    using read_slots_window [OF sb, of 0 bs] lbs dir by simp
  have ns: "ph_num_slots (pg_header p) = int (length (pg_slots p))"
    using wf by (simp add: page_wf_def)
  have fb: "from_bytes bs = Inr p'"
    using hu rs lbs ns
    by (simp add: from_bytes_def Let_def py_slice_take PAGE_SIZE_def HEADER_SIZE_def p'_def)
  have "take 28 bs = take 28 d" "drop 32 bs = drop 32 d"
    using d cb(1) by (auto simp: bs_def splice_def)
  then have "page_crc bs = c"
    by (simp add: page_crc_def c_def HEADER_SIZE_def py_slice_take)
  then have "verify_checksum p'" by (simp add: verify_checksum_def p'_def)
  moreover have "\<forall>i. dir_end p \<le> int i \<and> i < 4096 \<longrightarrow> bs ! i = pg_data p ! i"
    by (auto simp: nth dir_end_def page_consts)
  moreover have "to_bytes p = Inr (p', bs)"
    unfolding p'_def bs_def cb_def c_def by (rule tb)
  moreover have "pg_data p' = bs" "pg_slots p' = pg_slots p"
    "\<exists>c. pg_header p' = (pg_header p)\<lparr>ph_checksum := c\<rparr>"
    by (auto simp: p'_def)
  ultimately show thesis using lbs fb by (intro that)
qed

end
