(* ===== verification/Page_Spec.thy ===== *)
theory Page_Spec
  imports Page_Bytes
begin

text \<open>
  What a slotted page promises: it is a finite map from slot numbers to records.  Every
  operation is related to that map, compaction and serialisation keep it, and the case in
  which the space check admits a record that does not fit is stated with its consequences.
\<close>

section \<open>The interface of a record store\<close>

text \<open>
  What a table file relies on in a page: records have numbers that no operation on another
  record changes; an insertion for which there is room takes a number that was free.
\<close>

locale record_store =
  fixes wf :: "'p \<Rightarrow> bool"
    and room :: "'p \<Rightarrow> int"
    and rd :: "'p \<Rightarrow> nat \<Rightarrow> 'r list option"
    and ins :: "'p \<Rightarrow> 'r list \<Rightarrow> 'p \<times> nat option"
    and del :: "'p \<Rightarrow> nat \<Rightarrow> 'p \<times> bool"
  assumes ins_room: "wf p \<Longrightarrow> r \<noteq> [] \<Longrightarrow> int (length r) \<le> room p \<Longrightarrow>
      \<exists>k p'. ins p r = (p', Some k) \<and> wf p' \<and> rd p k = None \<and> rd p' = (rd p)(k \<mapsto> r)"
    and del_wf: "wf p \<Longrightarrow> wf (fst (del p k))"
    and del_rd: "rd (fst (del p k)) = (rd p)(k := None)"
    and del_found: "snd (del p k) = (rd p k \<noteq> None)"
begin

lemma ins_then_del:
  assumes "wf p" "r \<noteq> []" "int (length r) \<le> room p" "ins p r = (p1, Some k)"
  shows "rd (fst (del p1 k)) = rd p" and "snd (del p1 k)"
proof -
  have "rd p k = None" "rd p1 = (rd p)(k \<mapsto> r)"
    using ins_room [OF assms(1-3)] assms(4) by auto
  then show "rd (fst (del p1 k)) = rd p" "snd (del p1 k)"
    by (auto simp: del_rd del_found fun_upd_idem)
qed

lemma del_keeps: "k \<noteq> i \<Longrightarrow> rd (fst (del p k)) i = rd p i"
  by (simp add: del_rd)

lemma ins_keeps:
  assumes "wf p" "r \<noteq> []" "int (length r) \<le> room p" "rd p i = Some x"
  shows "rd (fst (ins p r)) i = Some x"
  using ins_room [OF assms(1-3)] assms(4) by (metis fst_conv fun_upd_other option.distinct(1))

end

lemma insert_record_map:
  assumes "page_wf p" "rec \<noteq> []" "int (length rec) \<le> gap p - SLOT_SIZE"
  shows "\<exists>k p'. insert_record p rec = (p', Some k) \<and> page_wf p' \<and> read_record p k = None \<and>
           read_record p' = (read_record p)(k \<mapsto> rec)"
proof -
  have room: "int (length rec) + SLOT_SIZE \<le> gap p" using assms(3) by simp
  obtain k p' where "insert_record p rec = (p', Some k)" "page_wf p'" "\<not> live p k"
    "read_record p' k = Some rec" "\<And>j. j \<noteq> k \<Longrightarrow> read_record p' j = read_record p j"
    using insert_record_correct [OF assms(1) room assms(2)] by blast
  moreover from this have "read_record p k = None" using read_record_live_iff [of p k] by blast
  ultimately have "insert_record p rec = (p', Some k) \<and> page_wf p' \<and> read_record p k = None \<and>
      read_record p' = (read_record p)(k \<mapsto> rec)"
    by (simp add: fun_eq_iff)
  then show ?thesis by blast
qed

lemma delete_record_map: "read_record (fst (delete_record p i)) = (read_record p)(i := None)"
  by (rule ext) (simp add: delete_record_read)

lemma insert_record_gap:
  "insert_record p r = (p', Some k) \<Longrightarrow> gap p - int (length r) - SLOT_SIZE \<le> gap p'"
  by (auto simp: insert_record_def Let_def gap_def dir_end_def SLOT_SIZE_def
      split: option.splits if_splits)

interpretation slotted: record_store page_wf "\<lambda>p. gap p - SLOT_SIZE" read_record insert_record delete_record
proof
  fix p :: page and r k
  show "page_wf p \<Longrightarrow> r \<noteq> [] \<Longrightarrow> int (length r) \<le> gap p - SLOT_SIZE \<Longrightarrow>
      \<exists>k p'. insert_record p r = (p', Some k) \<and> page_wf p' \<and> read_record p k = None \<and>
        read_record p' = (read_record p)(k \<mapsto> r)"
    by (rule insert_record_map)
  show "page_wf p \<Longrightarrow> page_wf (fst (delete_record p k))" by (rule delete_record_wf)
  show "read_record (fst (delete_record p k)) = (read_record p)(k := None)"
    by (rule delete_record_map)
  show "snd (delete_record p k) = (read_record p k \<noteq> None)"
    using read_record_live_iff [of p k]
    by (cases "live p k") (auto simp: delete_record_live delete_record_dead)
qed

section \<open>Fresh pages\<close>

lemma header_init_ok: "0 \<le> pid \<Longrightarrow> pid < 256 ^ 4 \<Longrightarrow> hdr_ok (header_init pid t)"
  by (cases t) (simp_all add: hdr_ok_def header_fmt_def header_values_def header_init_def page_consts)

lemma page_new_wf:
  assumes "0 \<le> pid" "pid < 256 ^ 4"
  obtains p where "page_new pid t = Inr p" "page_wf p" "pg_slots p = []"
    "pg_header p = header_init pid t" "gap p = 4064" "read_record p = (\<lambda>_. None)"
proof -
  obtain hb where hb: "header_pack (header_init pid t) = Inr hb"
    using header_pack_total [OF header_init_ok [OF assms]] by blast
  have "length hb = 32" by (rule header_pack_length [OF hb])
  then have "length (py_setslice (replicate 4096 (0::byte)) 0 32 hb) = 4096"
    using py_setslice_splice [of 0 hb "replicate 4096 0"] by (simp add: length_splice)
  moreover define p where "p = \<lparr>pg_data = py_setslice (replicate (nat PAGE_SIZE) 0) 0 HEADER_SIZE hb,
        pg_header = header_init pid t, pg_slots = []\<rparr>"
  ultimately have "page_wf p" "gap p = 4064" "read_record p = (\<lambda>_. None)"
    by (simp_all add: wf_defs header_init_def slots_apart_def used_def read_record_def fun_eq_iff)
  moreover have "page_new pid t = Inr p"
    by (simp add: page_new_def write_header_def hb p_def)
  ultimately show thesis by (intro that) (simp_all add: p_def)
qed

section \<open>Properties of a page\<close>

text \<open>
  C20: inserting a record for which there is contiguous room succeeds, the page stays
  well-formed, the record takes a slot that held none, and as a map from slots to records the
  page changes at that slot only; a record larger than the free-space count is refused.
\<close>

theorem insert_record_functional:
  assumes "page_wf p" and "rec \<noteq> []"
  shows "(int (length rec) + SLOT_SIZE \<le> gap p \<longrightarrow>
      (\<exists>k p'. insert_record p rec = (p', Some k) \<and> page_wf p' \<and> read_record p k = None \<and>
         read_record p' = (read_record p)(k \<mapsto> rec))) \<and>
    (get_free_space p < int (length rec) + SLOT_SIZE \<longrightarrow> insert_record p rec = (p, None))"
  using slotted.ins_room [OF assms] insert_record_refuse [of p rec]
  by (auto simp: get_free_space_def)

definition empty_page :: page where
  "empty_page = (case page_new 7 HEAP_DATA of Inr p \<Rightarrow> p | Inl _ \<Rightarrow> undefined)"

lemma empty_page_facts:
  "page_new 7 HEAP_DATA = Inr empty_page" "page_wf empty_page" "pg_slots empty_page = []"
  "pg_header empty_page = header_init 7 HEAP_DATA" "gap empty_page = 4064"
  "read_record empty_page = (\<lambda>_. None)" "length (pg_data empty_page) = 4096"
proof -
  obtain p where "page_new 7 HEAP_DATA = Inr p" "page_wf p" "pg_slots p = []"
    "pg_header p = header_init 7 HEAP_DATA" "gap p = 4064" "read_record p = (\<lambda>_. None)"
    by (rule page_new_wf [of 7 HEAP_DATA]) simp_all
  moreover from this have "p = empty_page" by (simp add: empty_page_def)
  ultimately show "page_new 7 HEAP_DATA = Inr empty_page" "page_wf empty_page"
    "pg_slots empty_page = []" "pg_header empty_page = header_init 7 HEAP_DATA"
    "gap empty_page = 4064" "read_record empty_page = (\<lambda>_. None)"
    "length (pg_data empty_page) = 4096"
    by (simp_all add: page_wf_def PAGE_SIZE_def)
qed

theorem insert_record_functional_witness:
  "\<exists>k p'. insert_record empty_page [1, 2, 3] = (p', Some k) \<and> page_wf p' \<and>
     read_record p' = [k \<mapsto> [1, 2, 3]]"
  using insert_record_functional [of empty_page "[1, 2, 3]"]
  by (auto simp: empty_page_facts SLOT_SIZE_def)

text \<open>
  An update answers true exactly when it stores the record, and then the map changes at
  that slot only, whether the record shrinks, fits in place, or is moved; the hypothesis is
  that a record that grows finds contiguous room.
\<close>

theorem update_record_functional:
  assumes "page_wf p" and "read_record p i = Some old" and "rec \<noteq> []"
    and "length rec \<le> length old \<or> int (length rec) + SLOT_SIZE \<le> gap p"
  shows "\<exists>p'. update_record p i rec = (p', True) \<and> page_wf p' \<and>
           read_record p' = (read_record p)(i \<mapsto> rec)"
proof -
  have lv: "live p i" using assms(2) read_record_live_iff [of p i] by simp
  have "se_length (pg_slots p ! i) = int (length old)"
  proof -
    have "slot_in (ph_data_end (pg_header p)) (pg_slots p ! i)"
      using lv assms(1) by (simp add: page_wf_def live_def)
    moreover have "old = slot_bytes (pg_data p) (pg_slots p ! i)"
      using assms(2) by (auto simp: read_record_def Let_def split: if_splits)
    moreover have "int (length (pg_data p)) = PAGE_SIZE" using assms(1) by (simp add: page_wf_def)
    ultimately show ?thesis using slot_bytes_length by metis
  qed
  then consider "int (length rec) \<le> se_length (pg_slots p ! i)"
    | "se_length (pg_slots p ! i) < int (length rec)" "int (length rec) + SLOT_SIZE \<le> gap p"
    using assms(4) by fastforce
  then have "snd (update_record p i rec) \<and> page_wf (fst (update_record p i rec)) \<and>
      read_record (fst (update_record p i rec)) = (read_record p)(i \<mapsto> rec)"
  proof cases
    case 1
    then show ?thesis using update_shrink [OF assms(1) lv 1 assms(3)] by auto
  next
    case 2
    then show ?thesis using update_grow [OF assms(1) lv 2] by auto
  qed
  then show ?thesis by (metis prod.collapse)
qed


text \<open>Two inserts, the second of which is then replaced by a longer record.\<close>

theorem update_record_functional_witness:
  "\<exists>k p p'. insert_record empty_page [1, 2] = (p, Some k) \<and>
     update_record p k [4, 5, 6] = (p', True) \<and> read_record p' = [k \<mapsto> [4, 5, 6]]"
proof -
  obtain k p where ins: "insert_record empty_page [1, 2] = (p, Some k)" and wf: "page_wf p"
    and rd: "read_record p = (read_record empty_page)(k \<mapsto> [1, 2])"
    using insert_record_map [of empty_page "[1, 2]"] by (auto simp: empty_page_facts SLOT_SIZE_def)
  have "SLOT_SIZE + 3 \<le> gap p"
    using insert_record_gap [OF ins] by (simp add: empty_page_facts SLOT_SIZE_def)
  then show ?thesis
    using update_record_functional [OF wf, of k "[1, 2]" "[4, 5, 6]"] ins rd
    by (auto simp: SLOT_SIZE_def empty_page_facts)
qed

text \<open>
  Deleting a record answers whether there was one, removes exactly that record from the
  map, and makes its bytes count as free without making the contiguous room any larger.
\<close>

theorem delete_record_functional:
  assumes "page_wf p"
  shows "snd (delete_record p i) = (read_record p i \<noteq> None) \<and>
    page_wf (fst (delete_record p i)) \<and>
    read_record (fst (delete_record p i)) = (read_record p)(i := None) \<and>
    get_free_space (fst (delete_record p i)) = get_free_space p +
      (case read_record p i of None \<Rightarrow> 0 | Some r \<Rightarrow> int (length r)) \<and>
    gap (fst (delete_record p i)) = gap p"
proof -
  have "get_free_space (fst (delete_record p i)) = get_free_space p +
      (case read_record p i of None \<Rightarrow> 0 | Some r \<Rightarrow> int (length r))"
  proof (cases "live p i")
    case True
    then have "slot_in (ph_data_end (pg_header p)) (pg_slots p ! i)"
      "int (length (pg_data p)) = PAGE_SIZE"
      using assms by (simp_all add: page_wf_def live_def)
    from slot_bytes_length [OF this] True show ?thesis
      by (simp add: delete_record_live get_free_space_def read_record_def live_def Let_def)
  next
    case False
    then show ?thesis
      using read_record_live_iff [of p i]
      by (auto simp: delete_record_dead split: option.splits)
  qed
  then show ?thesis
    using slotted.del_wf [OF assms] slotted.del_rd slotted.del_found delete_record_gap by blast
qed

text \<open>
  C21: compaction changes no record and no slot number, and turns the whole free-space count
  into contiguous room, so that afterwards every record the space check admits really fits.
\<close>

theorem compact_keeps_records:
  assumes "page_wf p"
  shows "page_wf (compact p) \<and> read_record (compact p) = read_record p \<and>
    get_free_space (compact p) = get_free_space p \<and> gap (compact p) = get_free_space p"
  using compact_facts [OF assms] by (auto simp: get_free_space_def fun_eq_iff)

theorem delete_record_functional_witness:
  "\<not> snd (delete_record empty_page 3) \<and> get_free_space (fst (delete_record empty_page 3)) = 4064"
  using delete_record_functional [of empty_page 3]
  by (simp add: empty_page_facts get_free_space_def header_init_def page_consts)

theorem compact_keeps_records_witness:
  "read_record (compact (fst (delete_record empty_page 0))) = (\<lambda>_. None) \<and>
   gap (compact (fst (delete_record empty_page 0))) = 4064"
  using compact_keeps_records [OF delete_record_wf [OF empty_page_facts(2)], of 0]
  by (simp add: delete_record_dead live_def delete_record_map empty_page_facts get_free_space_def
      header_init_def page_consts)

lemma used_nonneg: "\<forall>s \<in> set ss. slot_in d s \<Longrightarrow> 0 \<le> used ss"
  unfolding used_def by (rule sum_list_nonneg) (auto simp: slot_in_def)

text \<open>
  The space check counts the holes that deletions leave, the placement does not use them.
  On a page without compaction a record that passes the check while the contiguous room is
  too small is accepted and its bytes overlap the slot directory; when it is longer than the
  start of the record area, the buffer outgrows the page and the page can no longer be written.
\<close>

theorem insert_overflows_fragmented_page:
  assumes "page_wf p" and "int (length rec) + SLOT_SIZE \<le> get_free_space p"
    and "gap p < int (length rec)"
  shows "\<exists>k p'. insert_record p rec = (p', Some k) \<and>
    ph_data_end (pg_header p') < dir_end p' \<and> \<not> page_wf p' \<and>
    (ph_data_end (pg_header p) < int (length rec) \<longrightarrow>
       length (pg_data p') = 4096 + length rec \<and> to_bytes p' = Inl StructError)"
proof -
  let ?e = "ph_data_end (pg_header p) - int (length rec)"
  obtain k p' where ins: "insert_record p rec = (p', Some k)"
    and d': "ph_data_end (pg_header p') = ?e" "pg_data p' = py_setslice (pg_data p) ?e (?e + int (length rec)) rec"
    and s': "length (pg_slots p) \<le> length (pg_slots p')"
    using assms(2) by (fastforce simp: insert_record_def Let_def get_free_space_def split: option.splits)
  have over: "ph_data_end (pg_header p') < dir_end p'"
    using assms(3) d'(1) s' by (simp add: gap_def dir_end_def SLOT_SIZE_def)
  have len: "int (length (pg_data p)) = PAGE_SIZE" and free: "int (length rec) < PAGE_SIZE"
    and de: "0 \<le> ph_data_end (pg_header p)" "ph_data_end (pg_header p) \<le> PAGE_SIZE"
    using assms(1,2) used_nonneg [of "pg_slots p" "ph_data_end (pg_header p)"]
    by (simp_all add: page_wf_def accounted_def dir_end_def page_consts get_free_space_def)
  have "length (pg_data p') = 4096 + length rec \<and> to_bytes p' = Inl StructError"
    if neg: "?e < 0"
  proof
    have "py_bound 4096 ?e = nat (4096 + ?e)" "py_bound 4096 (?e + int (length rec)) = nat (?e + int (length rec))"
      using neg free de by (auto simp: py_bound_def PAGE_SIZE_def)
    then show "length (pg_data p') = 4096 + length rec"
      using len de free neg unfolding d'(2) py_setslice_def Let_def PAGE_SIZE_def
      by (simp add: max_def)
    have "\<not> is_ok (header_pack (pg_header p'))"
      using neg d'(1) unfolding header_pack_def pack_fields_ok_iff
      by (simp add: header_fmt_def header_values_def)
    then have "header_pack (pg_header p') = Inl StructError"
      using pack_fields_error unfolding header_pack_def
      by (cases "pack_fields (zip header_fmt (header_values (pg_header p')))") auto
    then show "to_bytes p' = Inl StructError" by (simp add: to_bytes_def write_header_def)
  qed
  then show ?thesis using ins over by (auto simp: page_wf_def)
qed

text \<open>
  A page holding one record of 4000 bytes, which is deleted: the page counts 4060 bytes free
  and accepts a record of 100 bytes, after which it cannot be written.
\<close>

theorem insert_overflows_fragmented_page_witness:
  "\<exists>p1 p2 k. insert_record empty_page (replicate 4000 1) = (p1, Some 0) \<and>
     insert_record (fst (delete_record p1 0)) (replicate 100 1) = (p2, Some k) \<and>
     to_bytes p2 = Inl StructError"
proof -
  define r where "r = replicate 4000 (1::byte)"
  define q where "q = fst (insert_record empty_page r)"
  have room: "int (length r) + SLOT_SIZE \<le> gap empty_page" and fd: "first_deleted (pg_slots empty_page) = None"
    by (simp_all add: empty_page_facts r_def SLOT_SIZE_def)
  note iw = insert_wf_append [OF empty_page_facts(2) room fd, folded q_def]
  have ins: "insert_record empty_page r = (q, Some 0)"
    using iw(2) by (simp add: q_def empty_page_facts prod_eq_iff)
  have hdr: "ph_data_end (pg_header q) = 96" "ph_free_space (pg_header q) = 60"
    by (simp_all add: q_def insert_record_def empty_page_facts header_init_def page_consts r_def Let_def)
  have sl: "pg_slots q = [\<lparr>se_offset = 96, se_length = 4000\<rparr>]"
    using iw(4) by (simp add: empty_page_facts header_init_def PAGE_SIZE_def r_def)
  define d where "d = fst (delete_record q 0)"
  have "ph_data_end (pg_header d) = 96" "get_free_space d = 4060" "gap d = 60"
    by (simp_all add: d_def delete_record_def sl hdr get_free_space_def gap_def dir_end_def
        page_consts slot_deleted_def Let_def)
  then show ?thesis
    using insert_overflows_fragmented_page [OF delete_record_wf [OF iw(1)], of "replicate 100 1" 0] ins
    by (auto simp: d_def [symmetric] r_def SLOT_SIZE_def)
qed

section \<open>Serialisation keeps a page\<close>

lemma same_area_read:
  assumes wf: "page_wf p" and "pg_slots q = pg_slots p" "length (pg_data q) = 4096"
    and same: "\<forall>i. dir_end p \<le> int i \<and> i < 4096 \<longrightarrow> pg_data q ! i = pg_data p ! i"
  shows "read_record q = read_record p"
proof -
  have "slot_bytes (pg_data q) s = slot_bytes (pg_data p) s"
    if "s \<in> set (pg_slots p)" "\<not> slot_deleted s" for s
  proof -
    have si: "slot_in (ph_data_end (pg_header p)) s" and len: "int (length (pg_data p)) = PAGE_SIZE"
      "int (length (pg_data q)) = PAGE_SIZE" and de: "dir_end p \<le> ph_data_end (pg_header p)"
      using wf that(1) assms(3) by (simp_all add: page_wf_def PAGE_SIZE_def)
    then have "dir_end p \<le> se_offset s" using that(2) by (simp add: slot_in_def)
    then show ?thesis
      using slot_bytes_window [OF si len(1)] slot_bytes_window [OF si len(2)] assms(3) same si
      by (auto intro!: window_eqI simp: slot_in_def)
  qed
  then show ?thesis using assms(2) by (auto simp: read_record_def Let_def fun_eq_iff)
qed

lemma same_shape_wf:
  assumes "page_wf p" "pg_slots q = pg_slots p" "length (pg_data q) = 4096"
    "pg_header q = (pg_header p)\<lparr>ph_checksum := c\<rparr>"
  shows "page_wf q"
  using assms by (simp add: page_wf_def accounted_def dir_end_def PAGE_SIZE_def)

lemma to_bytes_facts:
  assumes "page_wf p" and "hdr_ok (pg_header p)"
  obtains p' bs c where "to_bytes p = Inr (p', bs)" "length bs = 4096" "from_bytes bs = Inr p'"
    "verify_checksum p'" "page_wf p'" "read_record p' = read_record p"
    "pg_header p' = (pg_header p)\<lparr>ph_checksum := c\<rparr>" "hdr_ok (pg_header p')"
proof -
  obtain p' bs c where p': "to_bytes p = Inr (p', bs)" "length bs = 4096" "pg_data p' = bs"
    "pg_slots p' = pg_slots p" "pg_header p' = (pg_header p)\<lparr>ph_checksum := c\<rparr>"
    "from_bytes bs = Inr p'" "verify_checksum p'"
    "\<forall>i. dir_end p \<le> int i \<and> i < 4096 \<longrightarrow> bs ! i = pg_data p ! i"
    using to_bytes_wf [OF assms] by metis
  have "0 \<le> c \<and> c < 256 ^ 4"
    using p'(5,7) page_crc_range by (simp add: verify_checksum_def)
  then have "hdr_ok (pg_header p')"
    using assms(2) p'(5) by (simp add: hdr_ok_def header_fmt_def header_values_def)
  then show thesis
    using that [of p' bs c] p' same_shape_wf [OF assms(1), of p' c] same_area_read [OF assms(1), of p']
    by simp
qed

text \<open>
  C16: a well-formed page whose header fields fit their widths is written as exactly 4096
  bytes, reading them back gives the page that was written, its checksum verifies, it holds
  the same records, and the header differs at most in the checksum.
\<close>

theorem page_bytes_roundtrip:
  assumes "page_wf p" and "hdr_ok (pg_header p)"
  shows "\<exists>p' bs. to_bytes p = Inr (p', bs) \<and> length bs = 4096 \<and> from_bytes bs = Inr p' \<and>
    verify_checksum p' \<and> page_wf p' \<and> read_record p' = read_record p \<and>
    (\<exists>c. pg_header p' = (pg_header p)\<lparr>ph_checksum := c\<rparr>)"
  by (rule to_bytes_facts [OF assms]) blast

theorem page_bytes_roundtrip_witness:
  "\<exists>p' bs. to_bytes empty_page = Inr (p', bs) \<and> from_bytes bs = Inr p' \<and> verify_checksum p'"
  using page_bytes_roundtrip [of empty_page] header_init_ok [of 7 HEAP_DATA]
  by (auto simp: empty_page_facts)

end
