(* ===== verification/Disk.thy ===== *)
theory Disk
  imports Page_Spec
begin

text \<open>
  The disk manager, \<^verbatim>\<open>DiskManager\<close> of \<^verbatim>\<open>src/pysql/storage/page.py\<close>: the database
  file is a byte string, page \<open>n\<close> the 4096 bytes at offset \<open>4096 n\<close>.  The page counter is a field
  of the manager, read off the file size when it is opened.
\<close>

section \<open>Files\<close>

text \<open>
  \<^verbatim>\<open>seek\<close> then \<^verbatim>\<open>read\<close> or \<^verbatim>\<open>write\<close> on a binary file.  Seeking before the
  start raises; writing past the end leaves zeros in between.
\<close>

definition file_read :: "byte list \<Rightarrow> int \<Rightarrow> nat \<Rightarrow> byte list result" where
  "file_read f pos n = (if pos < 0 then Inl OSError else Inr (take n (drop (nat pos) f)))"

definition file_write :: "byte list \<Rightarrow> int \<Rightarrow> byte list \<Rightarrow> byte list result" where
  "file_write f pos bs =
     (if pos < 0 then Inl OSError
      else let p = nat pos; g = f @ replicate (p - length f) 0
           in Inr (take p g @ bs @ drop (p + length bs) g))"

section \<open>The disk manager\<close>

record disk =
  dk_file :: "byte list"
  dk_num_pages :: int

definition disk_open :: "byte list option \<Rightarrow> disk" where
  "disk_open existing =
     (case existing of
        Some f \<Rightarrow> \<lparr>dk_file = f, dk_num_pages = int (length f) div PAGE_SIZE\<rparr>
      | None \<Rightarrow> \<lparr>dk_file = [], dk_num_pages = 0\<rparr>)"

definition read_page :: "disk \<Rightarrow> int \<Rightarrow> page result" where
  "read_page d page_id =
     (if page_id \<ge> dk_num_pages d then Inl ValueError
      else bindr (file_read (dk_file d) (page_id * PAGE_SIZE) (nat PAGE_SIZE)) (\<lambda>data.
        from_bytes (if int (length data) < PAGE_SIZE
          then data @ replicate (nat PAGE_SIZE - length data) 0 else data)))"

text \<open>Writing updates the page too: its buffer holds the header, the slots and the checksum.\<close>

definition write_page :: "disk \<Rightarrow> page \<Rightarrow> (disk \<times> page) result" where
  "write_page d p =
     bindr (to_bytes p) (\<lambda>(p', data).
       bindr (file_write (dk_file d) (ph_page_id (pg_header p') * PAGE_SIZE) data) (\<lambda>f.
         Inr (d\<lparr>dk_file := f\<rparr>, p')))"

text \<open>The counter is advanced before the page is built, so it stays advanced on an exception.\<close>

definition allocate_page :: "disk \<Rightarrow> page_type \<Rightarrow> disk \<times> page result" where
  "allocate_page d ptype =
     (let page_id = dk_num_pages d;
          d1 = d\<lparr>dk_num_pages := page_id + 1\<rparr> in
      case bindr (page_new page_id ptype) to_bytes of
        Inl e \<Rightarrow> (d1, Inl e)
      | Inr (p, data) \<Rightarrow> (d1\<lparr>dk_file := dk_file d1 @ data\<rparr>, Inr p))"

definition get_num_pages :: "disk \<Rightarrow> int" where
  "get_num_pages d = dk_num_pages d"

section \<open>The file as a sequence of pages\<close>

definition disk_wf :: "disk \<Rightarrow> bool" where
  "disk_wf d = (0 \<le> dk_num_pages d \<and> int (length (dk_file d)) = dk_num_pages d * PAGE_SIZE)"

definition disk_block :: "disk \<Rightarrow> int \<Rightarrow> byte list" where
  "disk_block d i = window (dk_file d) (nat (i * PAGE_SIZE)) 4096"

lemma file_write_splice:
  assumes "0 \<le> pos" "nat pos + length bs \<le> length f"
  shows "file_write f pos bs = Inr (splice f (nat pos) bs)"
  using assms by (simp add: file_write_def splice_def Let_def)

lemma block_in_file:
  assumes "disk_wf d" "0 \<le> i" "i < dk_num_pages d"
  shows "nat (i * PAGE_SIZE) + 4096 \<le> length (dk_file d)"
proof -
  have "(i + 1) * PAGE_SIZE \<le> dk_num_pages d * PAGE_SIZE"
    using assms by (intro mult_right_mono) (simp_all add: PAGE_SIZE_def)
  then show ?thesis
    using assms by (simp add: disk_wf_def PAGE_SIZE_def algebra_simps)
qed

lemma read_page_block:
  assumes "disk_wf d" "0 \<le> i" "i < dk_num_pages d"
  shows "read_page d i = from_bytes (disk_block d i)"
  using block_in_file [OF assms] assms
  by (simp add: read_page_def file_read_def disk_block_def window_def PAGE_SIZE_def)

lemma write_page_block:
  assumes "disk_wf d" "to_bytes p = Inr (p', bs)" "length bs = 4096"
    "0 \<le> ph_page_id (pg_header p')" "ph_page_id (pg_header p') < dk_num_pages d"
  shows "\<exists>d'. write_page d p = Inr (d', p') \<and> disk_wf d' \<and> dk_num_pages d' = dk_num_pages d \<and>
    disk_block d' (ph_page_id (pg_header p')) = bs \<and>
    (\<forall>i. 0 \<le> i \<and> i < dk_num_pages d \<and> i \<noteq> ph_page_id (pg_header p') \<longrightarrow>
       disk_block d' i = disk_block d i)"
proof -
  let ?k = "ph_page_id (pg_header p')"
  let ?d = "d\<lparr>dk_file := splice (dk_file d) (nat (?k * PAGE_SIZE)) bs\<rparr>"
  note fits = block_in_file [OF assms(1,4,5)]
  have fits': "nat (?k * PAGE_SIZE) + length bs \<le> length (dk_file d)" using fits assms(3) by simp
  have "write_page d p = Inr (?d, p')"
    using assms(2,4) file_write_splice [OF _ fits'] by (simp add: write_page_def PAGE_SIZE_def)
  moreover have "disk_wf ?d"
    using assms(1) length_splice [OF fits'] by (simp add: disk_wf_def)
  moreover have "disk_block ?d ?k = bs"
    using window_splice_same [OF fits'] assms(3) by (simp add: disk_block_def)
  moreover have "disk_block ?d i = disk_block d i" if "0 \<le> i" "i < dk_num_pages d" "i \<noteq> ?k" for i
  proof -
    have "nat (i * PAGE_SIZE) + 4096 \<le> nat (?k * PAGE_SIZE) \<or>
        nat (?k * PAGE_SIZE) + length bs \<le> nat (i * PAGE_SIZE)"
      using that assms(3,4) by (simp add: PAGE_SIZE_def) linarith
    then show ?thesis
      using window_splice_other [OF fits' block_in_file [OF assms(1) that(1,2)]]
      by (simp add: disk_block_def)
  qed
  ultimately show ?thesis by auto
qed

lemma allocate_page_wf:
  assumes wf: "disk_wf d" and small: "dk_num_pages d < 256 ^ 4"
  obtains d' p where "allocate_page d t = (d', Inr p)" "disk_wf d'"
    "dk_num_pages d' = dk_num_pages d + 1" "ph_page_id (pg_header p) = dk_num_pages d"
    "page_wf p" "read_record p = (\<lambda>_. None)" "hdr_ok (pg_header p)"
    "from_bytes (disk_block d' (dk_num_pages d)) = Inr p"
    "\<And>i. 0 \<le> i \<Longrightarrow> i < dk_num_pages d \<Longrightarrow> disk_block d' i = disk_block d i"
    "(pg_header p)\<lparr>ph_checksum := 0\<rparr> = header_init (dk_num_pages d) t"
proof -
  have n: "0 \<le> dk_num_pages d" using wf by (simp add: disk_wf_def)
  obtain p0 where p0: "page_new (dk_num_pages d) t = Inr p0" "page_wf p0" "pg_slots p0 = []"
    "pg_header p0 = header_init (dk_num_pages d) t" "gap p0 = 4064" "read_record p0 = (\<lambda>_. None)"
    by (rule page_new_wf [OF n small])
  have "hdr_ok (pg_header p0)" using p0(4) header_init_ok [OF n small] by simp
  then obtain p bs c where p: "to_bytes p0 = Inr (p, bs)" "length bs = 4096" "from_bytes bs = Inr p"
    "page_wf p" "read_record p = read_record p0" "pg_header p = (pg_header p0)\<lparr>ph_checksum := c\<rparr>"
    "hdr_ok (pg_header p)"
    by (rule to_bytes_facts [OF p0(2)])
  let ?d = "\<lparr>dk_file = dk_file d @ bs, dk_num_pages = dk_num_pages d + 1\<rparr>"
  have al: "allocate_page d t = (?d, Inr p)"
    using p0(1) p(1) by (simp add: allocate_page_def Let_def)
  have len: "length (dk_file d) = nat (dk_num_pages d * PAGE_SIZE)"
    using wf by (metis disk_wf_def nat_int)
  have wf': "disk_wf ?d" using wf p(2) by (simp add: disk_wf_def PAGE_SIZE_def)
  have new: "disk_block ?d (dk_num_pages d) = bs"
    using p(2) by (simp add: disk_block_def window_append2 len) (simp add: window_def)
  have old: "disk_block ?d i = disk_block d i" if "0 \<le> i" "i < dk_num_pages d" for i
    using block_in_file [OF wf that] by (simp add: disk_block_def window_append1)
  show thesis
    by (rule that [OF al wf']) (use p p0 new old in \<open>simp_all add: header_init_def\<close>)
qed

section \<open>Properties of the disk manager\<close>

lemma write_page_facts:
  assumes "disk_wf d" "page_wf p" "hdr_ok (pg_header p)"
    "0 \<le> ph_page_id (pg_header p)" "ph_page_id (pg_header p) < dk_num_pages d"
  obtains d' p' c where "write_page d p = Inr (d', p')" "disk_wf d'"
    "dk_num_pages d' = dk_num_pages d" "read_page d' (ph_page_id (pg_header p)) = Inr p'"
    "page_wf p'" "hdr_ok (pg_header p')" "verify_checksum p'" "read_record p' = read_record p"
    "pg_header p' = (pg_header p)\<lparr>ph_checksum := c\<rparr>"
    "\<And>i. 0 \<le> i \<Longrightarrow> i < dk_num_pages d \<Longrightarrow> i \<noteq> ph_page_id (pg_header p) \<Longrightarrow>
       read_page d' i = read_page d i"
proof -
  obtain p' bs c where p': "to_bytes p = Inr (p', bs)" "length bs = 4096" "from_bytes bs = Inr p'"
    "verify_checksum p'" "page_wf p'" "read_record p' = read_record p"
    "pg_header p' = (pg_header p)\<lparr>ph_checksum := c\<rparr>" "hdr_ok (pg_header p')"
    by (rule to_bytes_facts [OF assms(2,3)])
  have id: "ph_page_id (pg_header p') = ph_page_id (pg_header p)" using p'(7) by simp
  obtain d' where d': "write_page d p = Inr (d', p')" "disk_wf d'" "dk_num_pages d' = dk_num_pages d"
    "disk_block d' (ph_page_id (pg_header p)) = bs"
    "\<forall>i. 0 \<le> i \<and> i < dk_num_pages d \<and> i \<noteq> ph_page_id (pg_header p) \<longrightarrow>
       disk_block d' i = disk_block d i"
    using write_page_block [OF assms(1) p'(1,2)] assms(4,5) unfolding id by blast
  have "read_page d' (ph_page_id (pg_header p)) = Inr p'"
    using read_page_block [OF d'(2)] d'(3,4) assms(4,5) p'(3) by simp
  moreover have "read_page d' i = read_page d i"
    if "0 \<le> i" "i < dk_num_pages d" "i \<noteq> ph_page_id (pg_header p)" for i
    using read_page_block [OF d'(2)] read_page_block [OF assms(1)] d'(3,5) that by simp
  ultimately show thesis using that d'(1-3) p' by blast
qed

text \<open>
  A page written to an existing place of a well-formed database file is read back from
  there with the same records and a valid checksum, every other page reads as before, and
  the file keeps its shape.
\<close>

theorem disk_read_after_write:
  assumes "disk_wf d" "page_wf p" "hdr_ok (pg_header p)"
    and "0 \<le> ph_page_id (pg_header p)" "ph_page_id (pg_header p) < get_num_pages d"
  shows "\<exists>d' p'. write_page d p = Inr (d', p') \<and> disk_wf d' \<and> get_num_pages d' = get_num_pages d \<and>
    read_page d' (ph_page_id (pg_header p)) = Inr p' \<and> read_record p' = read_record p \<and>
    verify_checksum p' \<and>
    (\<forall>i. 0 \<le> i \<and> i < get_num_pages d \<and> i \<noteq> ph_page_id (pg_header p) \<longrightarrow>
       read_page d' i = read_page d i)"
  using assms(5) unfolding get_num_pages_def
  by (rule write_page_facts [OF assms(1-4)]) blast

text \<open>
  Allocating extends the file by one page whose identifier is the old page count, which
  reads back as an empty well-formed page, and leaves every existing page as it was.
\<close>

theorem disk_allocate_appends:
  assumes "disk_wf d" and "get_num_pages d < 256 ^ 4"
  shows "\<exists>d' p. allocate_page d t = (d', Inr p) \<and> disk_wf d' \<and>
    get_num_pages d' = get_num_pages d + 1 \<and> ph_page_id (pg_header p) = get_num_pages d \<and>
    page_wf p \<and> read_record p = (\<lambda>_. None) \<and> read_page d' (get_num_pages d) = Inr p \<and>
    (\<forall>i. 0 \<le> i \<and> i < get_num_pages d \<longrightarrow> read_page d' i = read_page d i)"
proof -
  have n: "0 \<le> dk_num_pages d" "dk_num_pages d < 256 ^ 4"
    using assms by (simp_all add: disk_wf_def get_num_pages_def)
  obtain d' p where d': "allocate_page d t = (d', Inr p)" "disk_wf d'"
    "dk_num_pages d' = dk_num_pages d + 1" "ph_page_id (pg_header p) = dk_num_pages d"
    "page_wf p" "read_record p = (\<lambda>_. None)"
    "from_bytes (disk_block d' (dk_num_pages d)) = Inr p"
    "\<And>i. 0 \<le> i \<Longrightarrow> i < dk_num_pages d \<Longrightarrow> disk_block d' i = disk_block d i"
    by (rule allocate_page_wf [OF assms(1) n(2), of t]) blast
  have "read_page d' (dk_num_pages d) = Inr p"
    using read_page_block [OF d'(2)] d'(3,7) n(1) by simp
  moreover have "read_page d' i = read_page d i" if "0 \<le> i" "i < dk_num_pages d" for i
    using read_page_block [OF d'(2)] read_page_block [OF assms(1)] d'(3,8) that by simp
  ultimately show ?thesis using d' by (auto simp: get_num_pages_def)
qed

lemma disk_open_new: "disk_wf (disk_open None)" "dk_num_pages (disk_open None) = 0"
  by (simp_all add: disk_open_def disk_wf_def)

theorem disk_allocate_appends_witness:
  "\<exists>d p. allocate_page (disk_open None) HEAP_DATA = (d, Inr p) \<and> get_num_pages d = 1 \<and>
     read_page d 0 = Inr p \<and> read_record p = (\<lambda>_. None)"
  using disk_allocate_appends [of "disk_open None" HEAP_DATA]
  by (auto simp: disk_open_new get_num_pages_def)

theorem disk_read_after_write_witness:
  "\<exists>d p d' p'. allocate_page (disk_open None) HEAP_DATA = (d, Inr p) \<and>
     write_page d p = Inr (d', p') \<and> read_page d' 0 = Inr p' \<and> read_record p' = (\<lambda>_. None)"
proof -
  obtain d p where d: "allocate_page (disk_open None) HEAP_DATA = (d, Inr p)" "disk_wf d"
    "dk_num_pages d = 1" "ph_page_id (pg_header p) = 0" "page_wf p" "read_record p = (\<lambda>_. None)"
    "hdr_ok (pg_header p)"
    by (rule allocate_page_wf [OF disk_open_new(1), of HEAP_DATA]) (simp_all add: disk_open_new)
  then show ?thesis
    using disk_read_after_write [OF d(2,5,7)] by (auto simp: get_num_pages_def)
qed

end
