(* ===== verification/Buffer_Pool.thy ===== *)
theory Buffer_Pool
  imports Disk
begin

text \<open>
  The buffer pool, \<^verbatim>\<open>src/pysql/storage/buffer_pool.py\<close>: a fixed array of frames
  with their headers, the page table, the clock hand and the statistics.  An operation returns
  the pool beside its result, because what was changed before an exception stays changed.
  The page object a caller gets from \<^verbatim>\<open>fetch_page\<close> is the object in the frame: a
  caller's in-place modification is \<open>put_page\<close>.
\<close>

section \<open>State\<close>

record frame_header =
  fr_page_id :: int
  fr_pin_count :: int
  fr_is_dirty :: bool
  fr_ref_bit :: bool
  fr_lsn :: int

definition frame_empty :: frame_header where
  "frame_empty = \<lparr>fr_page_id = - 1, fr_pin_count = 0, fr_is_dirty = False, fr_ref_bit = False, fr_lsn = 0\<rparr>"

record pool =
  bp_disk :: disk
  bp_size :: nat
  bp_frames :: "page option list"
  bp_headers :: "frame_header list"
  bp_table :: "int \<rightharpoonup> nat"
  bp_hand :: nat
  bp_hits :: nat
  bp_misses :: nat
  bp_evictions :: nat

definition pool_new :: "disk \<Rightarrow> nat \<Rightarrow> pool" where
  "pool_new d n =
     \<lparr>bp_disk = d, bp_size = n, bp_frames = replicate n None, bp_headers = replicate n frame_empty,
      bp_table = Map.empty, bp_hand = 0, bp_hits = 0, bp_misses = 0, bp_evictions = 0\<rparr>"

definition set_header :: "pool \<Rightarrow> nat \<Rightarrow> frame_header \<Rightarrow> pool" where
  "set_header b i h = b\<lparr>bp_headers := (bp_headers b)[i := h]\<rparr>"

section \<open>Clock sweep\<close>

fun first_empty :: "nat \<Rightarrow> frame_header list \<Rightarrow> nat option" where
  "first_empty i [] = None"
| "first_empty i (h # hs) = (if fr_page_id h < 0 then Some i else first_empty (Suc i) hs)"

fun sweep :: "nat \<Rightarrow> nat \<Rightarrow> frame_header list \<Rightarrow> nat \<Rightarrow> frame_header list \<times> nat \<times> nat option" where
  "sweep n 0 hs hand = (hs, hand, None)"
| "sweep n (Suc k) hs hand =
     (let h = hs ! hand; next_hand = (hand + 1) mod n in
      if fr_pin_count h = 0 then
        (if \<not> fr_ref_bit h then (hs, next_hand, Some hand)
         else sweep n k (hs[hand := h\<lparr>fr_ref_bit := False\<rparr>]) next_hand)
      else sweep n k hs next_hand)"

definition find_victim_frame :: "pool \<Rightarrow> pool \<times> nat result" where
  "find_victim_frame b =
     (case first_empty 0 (bp_headers b) of
        Some i \<Rightarrow> (b, Inr i)
      | None \<Rightarrow>
         (case sweep (bp_size b) (2 * bp_size b) (bp_headers b) (bp_hand b) of
            (hs, hand, None) \<Rightarrow> (b\<lparr>bp_headers := hs, bp_hand := hand\<rparr>, Inl RuntimeError)
          | (hs, hand, Some i) \<Rightarrow> (b\<lparr>bp_headers := hs, bp_hand := hand\<rparr>, Inr i)))"

section \<open>Operations\<close>

text \<open>
  The eviction code shared by \<^verbatim>\<open>fetch_page\<close> and \<^verbatim>\<open>new_page\<close>: a dirty
  victim is written, then its entry leaves the page table (a \<^verbatim>\<open>del\<close>, which raises
  when there is none).
\<close>

definition write_frame :: "pool \<Rightarrow> nat \<Rightarrow> pool \<times> unit result" where
  "write_frame b i =
     (case bp_frames b ! i of
        None \<Rightarrow> (b, Inl AttributeError)
      | Some p \<Rightarrow>
         (case write_page (bp_disk b) p of
            Inl e \<Rightarrow> (b, Inl e)
          | Inr (d, p') \<Rightarrow> (b\<lparr>bp_disk := d, bp_frames := (bp_frames b)[i := Some p']\<rparr>, Inr ())))"

definition evict :: "pool \<Rightarrow> nat \<Rightarrow> pool \<times> unit result" where
  "evict b i =
     (let h = bp_headers b ! i in
      if fr_page_id h \<ge> 0 then
        (case (if fr_is_dirty h then write_frame b i else (b, Inr ())) of
           (b1, Inl e) \<Rightarrow> (b1, Inl e)
         | (b1, Inr _) \<Rightarrow>
             (case bp_table b1 (fr_page_id h) of
                None \<Rightarrow> (b1, Inl KeyError)
              | Some _ \<Rightarrow> (b1\<lparr>bp_table := (bp_table b1)(fr_page_id h := None),
                              bp_evictions := bp_evictions b1 + 1\<rparr>, Inr ())))
      else (b, Inr ()))"

definition install :: "pool \<Rightarrow> nat \<Rightarrow> int \<Rightarrow> page \<Rightarrow> bool \<Rightarrow> pool" where
  "install b i pid p dirty =
     b\<lparr>bp_frames := (bp_frames b)[i := Some p],
       bp_headers := (bp_headers b)[i := \<lparr>fr_page_id = pid, fr_pin_count = 1, fr_is_dirty = dirty,
                                           fr_ref_bit = True, fr_lsn = 0\<rparr>],
       bp_table := (bp_table b)(pid \<mapsto> i)\<rparr>"

definition fetch_page :: "pool \<Rightarrow> int \<Rightarrow> pool \<times> page result" where
  "fetch_page b page_id =
     (case bp_table b page_id of
        Some i \<Rightarrow>
          (let h = bp_headers b ! i;
               b1 = (set_header b i (h\<lparr>fr_pin_count := fr_pin_count h + 1, fr_ref_bit := True\<rparr>))
                      \<lparr>bp_hits := bp_hits b + 1\<rparr>
           in (b1, case bp_frames b1 ! i of Some p \<Rightarrow> Inr p | None \<Rightarrow> Inl AttributeError))
      | None \<Rightarrow>
          (case find_victim_frame (b\<lparr>bp_misses := bp_misses b + 1\<rparr>) of
             (b1, Inl e) \<Rightarrow> (b1, Inl e)
           | (b1, Inr i) \<Rightarrow>
               (case evict b1 i of
                  (b2, Inl e) \<Rightarrow> (b2, Inl e)
                | (b2, Inr _) \<Rightarrow>
                    (case read_page (bp_disk b2) page_id of
                       Inl e \<Rightarrow> (b2, Inl e)
                     | Inr p \<Rightarrow> (install b2 i page_id p False, Inr p)))))"

definition new_page :: "pool \<Rightarrow> page_type \<Rightarrow> pool \<times> page result" where
  "new_page b ptype =
     (case allocate_page (bp_disk b) ptype of
        (d, Inl e) \<Rightarrow> (b\<lparr>bp_disk := d\<rparr>, Inl e)
      | (d, Inr p) \<Rightarrow>
          (case find_victim_frame (b\<lparr>bp_disk := d\<rparr>) of
             (b1, Inl e) \<Rightarrow> (b1, Inl e)
           | (b1, Inr i) \<Rightarrow>
               (case evict b1 i of
                  (b2, Inl e) \<Rightarrow> (b2, Inl e)
                | (b2, Inr _) \<Rightarrow> (install b2 i (ph_page_id (pg_header p)) p True, Inr p))))"

definition unpin_page :: "pool \<Rightarrow> int \<Rightarrow> bool \<Rightarrow> pool \<times> bool" where
  "unpin_page b page_id is_dirty =
     (case bp_table b page_id of
        None \<Rightarrow> (b, False)
      | Some i \<Rightarrow>
          (let h = bp_headers b ! i in
           if fr_pin_count h \<le> 0 then (b, False)
           else (set_header b i (h\<lparr>fr_pin_count := fr_pin_count h - 1,
                                    fr_is_dirty := (is_dirty \<or> fr_is_dirty h)\<rparr>), True)))"

text \<open>Writing a frame back and marking it clean, as both flush operations do.\<close>

definition clean_frame :: "pool \<Rightarrow> nat \<Rightarrow> pool \<times> unit result" where
  "clean_frame b i =
     (case write_frame b i of
        (b1, Inl e) \<Rightarrow> (b1, Inl e)
      | (b1, Inr _) \<Rightarrow> (set_header b1 i ((bp_headers b1 ! i)\<lparr>fr_is_dirty := False\<rparr>), Inr ()))"

definition flush_page :: "pool \<Rightarrow> int \<Rightarrow> pool \<times> bool result" where
  "flush_page b page_id =
     (case bp_table b page_id of
        None \<Rightarrow> (b, Inr False)
      | Some i \<Rightarrow>
          (if bp_frames b ! i \<noteq> None \<and> fr_is_dirty (bp_headers b ! i)
           then (case clean_frame b i of (b1, Inl e) \<Rightarrow> (b1, Inl e) | (b1, Inr _) \<Rightarrow> (b1, Inr True))
           else (b, Inr True)))"

fun flush_frames :: "nat list \<Rightarrow> pool \<Rightarrow> pool \<times> unit result" where
  "flush_frames [] b = (b, Inr ())"
| "flush_frames (i # is) b =
     (let h = bp_headers b ! i in
      if fr_page_id h \<ge> 0 \<and> fr_is_dirty h \<and> bp_frames b ! i \<noteq> None
      then (case clean_frame b i of (b1, Inl e) \<Rightarrow> (b1, Inl e) | (b1, Inr _) \<Rightarrow> flush_frames is b1)
      else flush_frames is b)"

definition flush_all :: "pool \<Rightarrow> pool \<times> unit result" where
  "flush_all b = flush_frames [0..<length (bp_headers b)] b"

definition delete_page :: "pool \<Rightarrow> int \<Rightarrow> pool \<times> bool" where
  "delete_page b page_id =
     (case bp_table b page_id of
        None \<Rightarrow> (b, True)
      | Some i \<Rightarrow>
          (if fr_pin_count (bp_headers b ! i) > 0 then (b, False)
           else (b\<lparr>bp_table := (bp_table b)(page_id := None),
                    bp_frames := (bp_frames b)[i := None],
                    bp_headers := (bp_headers b)[i := frame_empty]\<rparr>, True)))"

definition put_page :: "pool \<Rightarrow> int \<Rightarrow> page \<Rightarrow> pool" where
  "put_page b page_id p =
     (case bp_table b page_id of
        None \<Rightarrow> b
      | Some i \<Rightarrow> b\<lparr>bp_frames := (bp_frames b)[i := Some p]\<rparr>)"

section \<open>The clock finds a frame exactly when there is one\<close>

definition usable :: "frame_header \<Rightarrow> bool" where
  "usable h = (fr_page_id h < 0 \<or> fr_pin_count h = 0)"

lemma first_empty_Some:
  "first_empty k hs = Some i \<Longrightarrow> \<exists>j. i = k + j \<and> j < length hs \<and> fr_page_id (hs ! j) < 0"
  by (induction k hs rule: first_empty.induct) (force split: if_splits)+

lemma first_empty_None: "first_empty k hs = None \<longleftrightarrow> (\<forall>h \<in> set hs. 0 \<le> fr_page_id h)"
  by (induction k hs rule: first_empty.induct) auto

text \<open>A sweep changes only reference bits.\<close>

definition same_but_ref :: "frame_header list \<Rightarrow> frame_header list \<Rightarrow> bool" where
  "same_but_ref xs ys = (length xs = length ys \<and>
     (\<forall>i < length xs. (xs ! i)\<lparr>fr_ref_bit := False\<rparr> = (ys ! i)\<lparr>fr_ref_bit := False\<rparr>))"

lemma same_but_ref_refl [simp]: "same_but_ref xs xs"
  by (simp add: same_but_ref_def)

lemma same_but_ref_trans: "same_but_ref xs ys \<Longrightarrow> same_but_ref ys zs \<Longrightarrow> same_but_ref xs zs"
  by (simp add: same_but_ref_def)

lemma same_but_ref_clear:
  "same_but_ref (hs[i := (hs ! i)\<lparr>fr_ref_bit := False\<rparr>]) hs"
  by (cases "i < length hs") (simp_all add: same_but_ref_def nth_list_update)

lemma same_but_ref_fields:
  assumes "same_but_ref xs ys" "i < length xs"
  shows "fr_page_id (xs ! i) = fr_page_id (ys ! i)" "fr_pin_count (xs ! i) = fr_pin_count (ys ! i)"
    "fr_is_dirty (xs ! i) = fr_is_dirty (ys ! i)"
proof -
  have "(xs ! i)\<lparr>fr_ref_bit := False\<rparr> = (ys ! i)\<lparr>fr_ref_bit := False\<rparr>"
    using assms by (simp add: same_but_ref_def)
  then show "fr_page_id (xs ! i) = fr_page_id (ys ! i)" "fr_pin_count (xs ! i) = fr_pin_count (ys ! i)"
    "fr_is_dirty (xs ! i) = fr_is_dirty (ys ! i)"
    by (cases "xs ! i"; cases "ys ! i"; simp)+
qed

lemma sweep_sound:
  assumes "sweep n k hs hand = (hs', hand', r)" "hand < n" "length hs = n"
  shows "same_but_ref hs' hs \<and> hand' < n \<and>
    (case r of Some i \<Rightarrow> i < n \<and> fr_pin_count (hs ! i) = 0 | None \<Rightarrow> True)"
  using assms
proof (induction n k hs hand arbitrary: hs' hand' r rule: sweep.induct)
  case (1 n hs hand)
  then show ?case by auto
next
  case (2 n k hs hand)
  let ?h = "hs ! hand" and ?nh = "(hand + 1) mod n"
  have nh: "?nh < n" using "2.prems"(2) by simp
  consider "fr_pin_count ?h = 0" "fr_ref_bit ?h" | "fr_pin_count ?h = 0" "\<not> fr_ref_bit ?h"
    | "fr_pin_count ?h \<noteq> 0" by blast
  then show ?case
  proof cases
    case 1
    let ?hs = "hs[hand := ?h\<lparr>fr_ref_bit := False\<rparr>]"
    have run: "sweep n k ?hs ?nh = (hs', hand', r)" using "2.prems"(1) 1 by (simp add: Let_def)
    have IH: "same_but_ref hs' ?hs \<and> hand' < n \<and>
      (case r of Some i \<Rightarrow> i < n \<and> fr_pin_count (?hs ! i) = 0 | None \<Rightarrow> True)"
      using "2.IH"(1) [OF refl refl 1(1) _ run nh] 1(2) "2.prems"(3) by simp
    moreover have "fr_pin_count (?hs ! i) = fr_pin_count (hs ! i)" for i
      using "2.prems"(2,3) by (cases "i = hand") auto
    ultimately show ?thesis
      using same_but_ref_trans [OF _ same_but_ref_clear [of hs hand]] by (simp split: option.splits)
  next
    case 2
    then show ?thesis using "2.prems" nh by (auto simp: Let_def)
  next
    case 3
    then show ?thesis using "2.prems" "2.IH"(2) [OF refl refl 3 _ nh] by (simp add: Let_def)
  qed
qed

text \<open>
  Two rounds suffice: the first clears the reference bit of every unpinned frame it does not
  take, so the second meets an unpinned frame with a clear bit.
\<close>

lemma sweep_cleared:
  assumes "v < n" "length hs = n" "hand < n" "fr_pin_count (hs ! v) = 0" "\<not> fr_ref_bit (hs ! v)"
    "(hand + j) mod n = v" "j < k"
  shows "snd (snd (sweep n k hs hand)) \<noteq> None"
  using assms
proof (induction k arbitrary: hs hand j)
  case (Suc k)
  let ?h = "hs ! hand" and ?nh = "(hand + 1) mod n"
  have nh: "?nh < n" using Suc.prems(1) by simp
  consider "hand = v" | j' where "hand \<noteq> v" "j = Suc j'" "(?nh + j') mod n = v"
  proof (cases j)
    case 0
    then have "hand = v" using Suc.prems by simp
    then show ?thesis by (rule that)
  next
    case (Suc j')
    then have "(?nh + j') mod n = v" using Suc.prems(6) by (simp add: mod_simps)
    then show ?thesis using that Suc by blast
  qed
  then show ?case
  proof cases
    case 1
    then show ?thesis using Suc.prems by (simp add: Let_def)
  next
    case 2
    then show ?thesis
      using Suc.prems Suc.IH [OF Suc.prems(1) _ nh _ _ 2(3)] by (simp add: Let_def)
  qed
qed simp

lemma sweep_complete:
  assumes "v < n" "length hs = n" "hand < n" "fr_pin_count (hs ! v) = 0"
    "(hand + j) mod n = v" "j + n < k"
  shows "snd (snd (sweep n k hs hand)) \<noteq> None"
  using assms
proof (induction k arbitrary: hs hand j)
  case (Suc k)
  let ?h = "hs ! hand" and ?nh = "(hand + 1) mod n"
  have nh: "?nh < n" using Suc.prems(1) by simp
  consider "hand = v" | j' where "hand \<noteq> v" "j = Suc j'" "(?nh + j') mod n = v"
  proof (cases j)
    case 0
    then have "hand = v" using Suc.prems by simp
    then show ?thesis by (rule that)
  next
    case (Suc j')
    then have "(?nh + j') mod n = v" using Suc.prems(5) by (simp add: mod_simps)
    then show ?thesis using that Suc by blast
  qed
  then show ?case
  proof cases
    case 1
    have "(?nh + (n - 1)) mod n = (hand + 1 + (n - 1)) mod n" by (rule mod_add_left_eq)
    then have "(?nh + (n - 1)) mod n = v" using 1 Suc.prems(1) by simp
    moreover have "n - 1 < k" using Suc.prems(1,6) by simp
    ultimately have "snd (snd (sweep n k (hs[v := (hs ! v)\<lparr>fr_ref_bit := False\<rparr>]) ?nh)) \<noteq> None"
      using Suc.prems(1,2,4) nh by (intro sweep_cleared [where j = "n - 1"]) simp_all
    then show ?thesis using 1 Suc.prems by (simp add: Let_def)
  next
    case 2
    then show ?thesis
      using Suc.prems Suc.IH [OF Suc.prems(1) _ nh _ 2(3)] by (simp add: Let_def)
  qed
qed simp

lemma find_victim_facts:
  assumes "length (bp_headers b) = bp_size b" "bp_size b = 0 \<or> bp_hand b < bp_size b"
    "find_victim_frame b = (b', r)"
  shows "same_but_ref (bp_headers b') (bp_headers b)"
    "bp_disk b' = bp_disk b" "bp_frames b' = bp_frames b" "bp_table b' = bp_table b"
    "bp_size b' = bp_size b" "bp_size b = 0 \<or> bp_hand b' < bp_size b"
    "is_ok r \<longleftrightarrow> (\<exists>h \<in> set (bp_headers b). usable h)"
    "r = Inr i \<Longrightarrow> i < bp_size b \<and> usable (bp_headers b ! i)"
    "\<not> is_ok r \<Longrightarrow> r = Inl RuntimeError"
proof -
  note def = find_victim_frame_def
  have main: "same_but_ref (bp_headers b') (bp_headers b) \<and>
    bp_disk b' = bp_disk b \<and> bp_frames b' = bp_frames b \<and> bp_table b' = bp_table b \<and>
    bp_size b' = bp_size b \<and> (bp_size b = 0 \<or> bp_hand b' < bp_size b) \<and>
    (is_ok r \<longleftrightarrow> (\<exists>h \<in> set (bp_headers b). usable h)) \<and>
    (\<forall>i. r = Inr i \<longrightarrow> i < bp_size b \<and> usable (bp_headers b ! i)) \<and>
    (\<not> is_ok r \<longrightarrow> r = Inl RuntimeError)"
  proof (cases "first_empty 0 (bp_headers b)")
    case (Some i)
    then show ?thesis
      using assms first_empty_Some [OF Some] by (auto simp: def usable_def)
  next
    case None
    then have pos: "\<forall>h \<in> set (bp_headers b). 0 \<le> fr_page_id h" by (simp add: first_empty_None)
    obtain hs hand v where sw: "sweep (bp_size b) (2 * bp_size b) (bp_headers b) (bp_hand b) = (hs, hand, v)"
      by (cases "sweep (bp_size b) (2 * bp_size b) (bp_headers b) (bp_hand b)")
    show ?thesis
    proof (cases "bp_size b = 0")
      case True
      then show ?thesis using assms sw None by (auto simp: def)
    next
      case False
      then have hand: "bp_hand b < bp_size b" using assms(2) by simp
      note sound = sweep_sound [OF sw hand assms(1)]
      have "v \<noteq> None" if h: "h \<in> set (bp_headers b)" and us: "usable h" for h
      proof -
        obtain w where w: "w < bp_size b" "bp_headers b ! w = h"
          using h unfolding in_set_conv_nth assms(1) by blast
        have "(bp_hand b + (w + bp_size b - bp_hand b) mod bp_size b) mod bp_size b = w"
          using hand w(1) by (simp add: mod_simps)
        moreover have "(w + bp_size b - bp_hand b) mod bp_size b + bp_size b < 2 * bp_size b"
          using False by simp
        ultimately have "snd (snd (sweep (bp_size b) (2 * bp_size b) (bp_headers b) (bp_hand b))) \<noteq> None"
          using sweep_complete [OF w(1) assms(1) hand] w(2) h us pos
          by (fastforce simp: usable_def)
        then show ?thesis using sw by simp
      qed
      then show ?thesis
        using sound assms(1,3) sw None by (cases v) (auto simp: def usable_def)
    qed
  qed
  then show "same_but_ref (bp_headers b') (bp_headers b)"
    "bp_disk b' = bp_disk b" "bp_frames b' = bp_frames b" "bp_table b' = bp_table b"
    "bp_size b' = bp_size b" "bp_size b = 0 \<or> bp_hand b' < bp_size b"
    "is_ok r \<longleftrightarrow> (\<exists>h \<in> set (bp_headers b). usable h)"
    "r = Inr i \<Longrightarrow> i < bp_size b \<and> usable (bp_headers b ! i)"
    "\<not> is_ok r \<Longrightarrow> r = Inl RuntimeError"
    by blast+
qed

section \<open>The pool invariant\<close>

text \<open>
  Headers and page table describe each other, a cached page is well-formed and carries the
  identifier its frame is filed under, every page of the file can be loaded, and a clean
  frame nobody holds has the records of its page on disk.
\<close>

definition page_ok :: "int \<Rightarrow> page \<Rightarrow> bool" where
  "page_ok i p = (ph_page_id (pg_header p) = i \<and> page_wf p \<and> hdr_ok (pg_header p))"

definition disk_ok :: "disk \<Rightarrow> bool" where
  "disk_ok d = (disk_wf d \<and>
     (\<forall>i. 0 \<le> i \<and> i < dk_num_pages d \<longrightarrow> (\<exists>p. read_page d i = Inr p \<and> page_ok i p)))"

text \<open>
  What a page holds for its users: its records and its header; only the checksum, which every
  write recomputes, is left out.
\<close>

type_synonym signature = "(nat \<Rightarrow> byte list option) \<times> page_header"

definition page_sig :: "page \<Rightarrow> signature option" where
  "page_sig p = Some (read_record p, (pg_header p)\<lparr>ph_checksum := 0\<rparr>)"

definition disk_sig :: "disk \<Rightarrow> int \<Rightarrow> signature option" where
  "disk_sig d i = (case read_page d i of Inr p \<Rightarrow> page_sig p | Inl _ \<Rightarrow> None)"

definition frame_ok :: "pool \<Rightarrow> nat \<Rightarrow> bool" where
  "frame_ok b i =
     (let h = bp_headers b ! i in
      0 \<le> fr_pin_count h \<and>
      (0 \<le> fr_page_id h \<longrightarrow> bp_table b (fr_page_id h) = Some i \<and>
         fr_page_id h < dk_num_pages (bp_disk b) \<and>
         (\<exists>p. bp_frames b ! i = Some p \<and> page_ok (fr_page_id h) p \<and>
            (\<not> fr_is_dirty h \<and> fr_pin_count h = 0 \<longrightarrow>
               page_sig p = disk_sig (bp_disk b) (fr_page_id h)))))"

definition pool_inv :: "pool \<Rightarrow> bool" where
  "pool_inv b =
     (length (bp_frames b) = bp_size b \<and> length (bp_headers b) = bp_size b \<and>
      (bp_size b = 0 \<or> bp_hand b < bp_size b) \<and> disk_ok (bp_disk b) \<and>
      (\<forall>i < bp_size b. frame_ok b i) \<and>
      (\<forall>pid i. bp_table b pid = Some i \<longrightarrow>
         0 \<le> pid \<and> i < bp_size b \<and> fr_page_id (bp_headers b ! i) = pid))"

text \<open>What the pool and the disk together hold: the cached page if there is one.\<close>

definition pool_view :: "pool \<Rightarrow> int \<Rightarrow> signature option" where
  "pool_view b pid =
     (case bp_table b pid of
        Some i \<Rightarrow> (case bp_frames b ! i of Some p \<Rightarrow> page_sig p | None \<Rightarrow> None)
      | None \<Rightarrow> disk_sig (bp_disk b) pid)"

lemma write_disk_ok:
  assumes "disk_ok d" "page_ok i p" "0 \<le> i" "i < dk_num_pages d"
  obtains d' p' where "write_page d p = Inr (d', p')" "disk_ok d'" "dk_num_pages d' = dk_num_pages d"
    "page_ok i p'" "page_sig p' = page_sig p" "disk_sig d' = (disk_sig d)(i := page_sig p)"
proof -
  have p: "page_wf p" "hdr_ok (pg_header p)" "ph_page_id (pg_header p) = i"
    using assms(2) by (simp_all add: page_ok_def)
  obtain d' p' c where w: "write_page d p = Inr (d', p')" "disk_wf d'"
    "dk_num_pages d' = dk_num_pages d" "read_page d' i = Inr p'"
    "page_wf p'" "hdr_ok (pg_header p')" "read_record p' = read_record p"
    "pg_header p' = (pg_header p)\<lparr>ph_checksum := c\<rparr>"
    "\<And>j. 0 \<le> j \<Longrightarrow> j < dk_num_pages d \<Longrightarrow> j \<noteq> i \<Longrightarrow> read_page d' j = read_page d j"
    using write_page_facts [OF _ p(1,2)] assms p(3) unfolding disk_ok_def by metis
  have pk: "page_ok i p'" using w(5,6,8) p(3) by (simp add: page_ok_def)
  have sig: "page_sig p' = page_sig p" using w(7,8) by (simp add: page_sig_def)
  have "\<exists>q. read_page d' j = Inr q \<and> page_ok j q" if "0 \<le> j" "j < dk_num_pages d" for j
    using assms(1) that w(4,9) pk by (cases "j = i") (auto simp: disk_ok_def)
  then have ok: "disk_ok d'" using w(2,3) by (simp add: disk_ok_def)
  have "read_page d' j = read_page d j" if "j < 0 \<or> dk_num_pages d \<le> j" for j
    using that w(3) by (auto simp: read_page_def file_read_def PAGE_SIZE_def)
  then have same: "read_page d' j = read_page d j" if "j \<noteq> i" for j
    using w(9) [of j] that by (cases "0 \<le> j \<and> j < dk_num_pages d") auto
  have "disk_sig d' j = ((disk_sig d)(i := page_sig p)) j" for j
    using w(4) sig same [of j] by (cases "j = i") (auto simp: disk_sig_def)
  then show thesis using that w(1,3) sig pk ok by blast
qed

lemma pool_new_inv:
  assumes "disk_ok d"
  shows "pool_inv (pool_new d n)" "pool_view (pool_new d n) = disk_sig d"
  using assms by (auto simp: pool_inv_def pool_new_def frame_ok_def frame_empty_def Let_def
      pool_view_def fun_eq_iff)

text \<open>The invariant while frame \<open>i\<close> is being replaced: it is filed nowhere.\<close>

definition pool_core :: "pool \<Rightarrow> nat \<Rightarrow> bool" where
  "pool_core b i =
     (length (bp_frames b) = bp_size b \<and> length (bp_headers b) = bp_size b \<and>
      bp_hand b < bp_size b \<and> disk_ok (bp_disk b) \<and> i < bp_size b \<and>
      (\<forall>j < bp_size b. j \<noteq> i \<longrightarrow> frame_ok b j) \<and>
      (\<forall>pid j. bp_table b pid = Some j \<longrightarrow>
         0 \<le> pid \<and> j < bp_size b \<and> j \<noteq> i \<and> fr_page_id (bp_headers b ! j) = pid))"

lemma pool_table:
  "pool_inv b \<Longrightarrow> bp_table b pid = Some i \<Longrightarrow>
   0 \<le> pid \<and> i < bp_size b \<and> fr_page_id (bp_headers b ! i) = pid"
  by (simp add: pool_inv_def)

lemma pool_frame: "pool_inv b \<Longrightarrow> i < bp_size b \<Longrightarrow> frame_ok b i"
  by (simp add: pool_inv_def)

lemma pool_lens:
  "pool_inv b \<Longrightarrow> length (bp_headers b) = bp_size b"
  "pool_inv b \<Longrightarrow> length (bp_frames b) = bp_size b"
  by (simp_all add: pool_inv_def)

lemma core_table:
  "pool_core b i \<Longrightarrow> bp_table b pid = Some j \<Longrightarrow>
   0 \<le> pid \<and> j < bp_size b \<and> j \<noteq> i \<and> fr_page_id (bp_headers b ! j) = pid"
  by (simp add: pool_core_def)

lemma same_but_ref_inv:
  assumes "pool_inv b" "same_but_ref hs (bp_headers b)" "bp_size b = 0 \<or> hand < bp_size b"
  shows "pool_inv (b\<lparr>bp_headers := hs, bp_hand := hand\<rparr>)"
    and "pool_view (b\<lparr>bp_headers := hs, bp_hand := hand\<rparr>) = pool_view b"
proof -
  have len: "length hs = length (bp_headers b)" using assms(2) by (simp add: same_but_ref_def)
  have f: "fr_page_id (hs ! i) = fr_page_id (bp_headers b ! i) \<and>
      fr_pin_count (hs ! i) = fr_pin_count (bp_headers b ! i) \<and>
      fr_is_dirty (hs ! i) = fr_is_dirty (bp_headers b ! i)" if "i < length hs" for i
    using same_but_ref_fields [OF assms(2) that] by blast
  show "pool_inv (b\<lparr>bp_headers := hs, bp_hand := hand\<rparr>)"
    using assms(1,3) f len unfolding pool_inv_def frame_ok_def Let_def by simp
  show "pool_view (b\<lparr>bp_headers := hs, bp_hand := hand\<rparr>) = pool_view b"
    by (rule ext) (simp add: pool_view_def split: option.split)
qed

lemma evict_clean_core:
  assumes "pool_inv b" "i < bp_size b" "fr_page_id (bp_headers b ! i) < 0"
  shows "pool_core b i"
proof -
  have "j \<noteq> i" if "bp_table b pid = Some j" for pid j
    using assms(1,3) that by (force simp: pool_inv_def)
  then show ?thesis using assms(1,2) by (simp add: pool_core_def pool_inv_def)
qed

lemma evict_facts:
  assumes inv: "pool_inv b" and i: "i < bp_size b" and us: "usable (bp_headers b ! i)"
  obtains b' where "evict b i = (b', Inr ())" "pool_core b' i" "pool_view b' = pool_view b"
    "dk_num_pages (bp_disk b') = dk_num_pages (bp_disk b)"
    "bp_table b' = (if fr_page_id (bp_headers b ! i) < 0 then bp_table b
       else (bp_table b)(fr_page_id (bp_headers b ! i) := None))"
    "bp_headers b' = bp_headers b" "bp_size b' = bp_size b"
proof (cases "fr_page_id (bp_headers b ! i) < 0")
  case True
  then show thesis
    using that [of b] evict_clean_core [OF inv i True] by (simp add: evict_def Let_def)
next
  case False
  let ?h = "bp_headers b ! i"
  let ?k = "fr_page_id ?h"
  have pin: "fr_pin_count ?h = 0" using us False by (simp add: usable_def)
  have fok: "frame_ok b i" using inv i by (simp add: pool_inv_def)
  then obtain p where p: "bp_frames b ! i = Some p" "page_ok ?k p" "bp_table b ?k = Some i"
    "?k < dk_num_pages (bp_disk b)"
    and agree: "\<not> fr_is_dirty ?h \<Longrightarrow> page_sig p = disk_sig (bp_disk b) ?k"
    using False pin by (auto simp: frame_ok_def Let_def)
  have dok: "disk_ok (bp_disk b)" using inv by (simp add: pool_inv_def)
  obtain d fs where df: "(if fr_is_dirty ?h then write_frame b i else (b, Inr ())) =
      (b\<lparr>bp_disk := d, bp_frames := fs\<rparr>, Inr ())"
    and d: "disk_ok d" "dk_num_pages d = dk_num_pages (bp_disk b)"
      "disk_sig d = (disk_sig (bp_disk b))(?k := page_sig p)"
    and fs: "length fs = length (bp_frames b)" "\<And>j. j \<noteq> i \<Longrightarrow> fs ! j = bp_frames b ! j"
  proof (cases "fr_is_dirty ?h")
    case True
    obtain d' p' where w: "write_page (bp_disk b) p = Inr (d', p')" "disk_ok d'"
      "dk_num_pages d' = dk_num_pages (bp_disk b)"
      "disk_sig d' = (disk_sig (bp_disk b))(?k := page_sig p)"
      using write_disk_ok [OF dok p(2) _ p(4)] False by (metis not_less)
    show ?thesis
      by (rule that [of "(bp_frames b)[i := Some p']" d']) (use True w p(1) in \<open>simp_all add: write_frame_def\<close>)
  next
    case False
    then have "disk_sig (bp_disk b) = (disk_sig (bp_disk b))(?k := page_sig p)"
      using agree by simp
    then show ?thesis
      using that [of "bp_frames b" "bp_disk b"] False dok by simp
  qed
  define b' where "b' = b\<lparr>bp_disk := d, bp_frames := fs, bp_table := (bp_table b)(?k := None),
    bp_evictions := bp_evictions b + 1\<rparr>"
  have sel: "bp_frames b' = fs" "bp_headers b' = bp_headers b" "bp_size b' = bp_size b"
    "bp_disk b' = d" "bp_hand b' = bp_hand b"
    by (simp_all add: b'_def)
  have ev: "evict b i = (b', Inr ())"
    using False p(3) unfolding evict_def Let_def df by (simp add: b'_def not_less)
  have uniq: "bp_table b pid = Some i \<longleftrightarrow> pid = ?k" for pid
    using pool_table [OF inv] p(3) by blast
  have "frame_ok b' j" if j: "j < bp_size b" "j \<noteq> i" for j
  proof -
    have fj: "frame_ok b j" using inv j by (simp add: pool_inv_def)
    moreover have "fr_page_id (bp_headers b ! j) \<noteq> ?k" if "0 \<le> fr_page_id (bp_headers b ! j)"
      using fj that uniq [of ?k] j(2) by (auto simp: frame_ok_def Let_def)
    ultimately show ?thesis
      using d fs(2) [OF j(2)] by (auto simp: frame_ok_def Let_def b'_def)
  qed
  moreover have "0 \<le> pid \<and> j < bp_size b \<and> j \<noteq> i \<and> fr_page_id (bp_headers b ! j) = pid"
    if "bp_table b' pid = Some j" for pid j
  proof -
    have "bp_table b pid = Some j" "pid \<noteq> ?k" using that by (auto simp: b'_def split: if_splits)
    moreover from this have "j \<noteq> i" using uniq [of pid] by blast
    ultimately show ?thesis using pool_table [OF inv, of pid j] by blast
  qed
  moreover have "bp_hand b < bp_size b" using inv i by (simp add: pool_inv_def)
  ultimately have core: "pool_core b' i"
    using pool_lens [OF inv] i d(1) fs(1) by (simp add: pool_core_def sel)
  have "pool_view b' pid = pool_view b pid" for pid
    using d(3) fs(2) uniq [of pid] p(1,3)
    by (cases "bp_table b pid") (auto simp: pool_view_def b'_def)
  then show thesis
    using that [OF ev core] False d(2) by (auto simp: b'_def fun_eq_iff)
qed

lemma install_facts:
  assumes "pool_core b i" "page_ok pid p" "0 \<le> pid" "pid < dk_num_pages (bp_disk b)"
    "bp_table b pid = None"
  shows "pool_inv (install b i pid p dirty)"
    and "pool_view (install b i pid p dirty) = (pool_view b)(pid := page_sig p)"
proof -
  let ?b = "install b i pid p dirty"
  have i: "i < length (bp_headers b)" "i < length (bp_frames b)" using assms(1) by (simp_all add: pool_core_def)
  have "frame_ok ?b j" if "j < bp_size b" for j
  proof (cases "j = i")
    case True
    then show ?thesis using assms i by (simp add: frame_ok_def install_def Let_def)
  next
    case False
    then have fj: "frame_ok b j" using assms(1) that by (simp add: pool_core_def)
    moreover have "fr_page_id (bp_headers b ! j) \<noteq> pid" if "0 \<le> fr_page_id (bp_headers b ! j)"
      using fj that assms(5) by (auto simp: frame_ok_def Let_def)
    ultimately show ?thesis using False by (auto simp: frame_ok_def install_def Let_def)
  qed
  then show "pool_inv ?b"
    using assms i unfolding pool_core_def pool_inv_def
    by (auto simp: install_def nth_list_update)
  have "pool_view ?b q = ((pool_view b)(pid := page_sig p)) q" for q
  proof (cases "q = pid")
    case True
    then show ?thesis using i by (simp add: pool_view_def install_def)
  next
    case False
    have "(bp_frames b)[i := Some p] ! j = bp_frames b ! j" if "bp_table b q = Some j" for j
      using core_table [OF assms(1) that] by simp
    then show ?thesis using False
      by (cases "bp_table b q") (simp_all add: pool_view_def install_def)
  qed
  then show "pool_view ?b = (pool_view b)(pid := page_sig p)" by blast
qed

section \<open>Operations under the invariant\<close>

definition has_room :: "pool \<Rightarrow> bool" where
  "has_room b = (\<exists>h \<in> set (bp_headers b). usable h)"

lemma claim_frame:
  assumes "pool_inv b"
  shows "find_victim_frame b = (b', Inr i) \<Longrightarrow>
      pool_inv b' \<and> pool_view b' = pool_view b \<and> bp_disk b' = bp_disk b \<and> bp_table b' = bp_table b \<and>
      i < bp_size b' \<and> usable (bp_headers b' ! i) \<and> bp_size b' = bp_size b"
    and "fst (find_victim_frame b) = b' \<Longrightarrow> pool_inv b' \<and> pool_view b' = pool_view b"
    and "is_ok (snd (find_victim_frame b)) \<longleftrightarrow> has_room b"
    and "\<not> has_room b \<Longrightarrow> snd (find_victim_frame b) = Inl RuntimeError"
proof -
  obtain b1 r where run: "find_victim_frame b = (b1, r)" by (cases "find_victim_frame b")
  have pre: "length (bp_headers b) = bp_size b" "bp_size b = 0 \<or> bp_hand b < bp_size b"
    using assms by (simp_all add: pool_inv_def)
  note facts = find_victim_facts [OF pre run]
  have "b1 = b\<lparr>bp_headers := bp_headers b1, bp_hand := bp_hand b1\<rparr>"
    using run by (auto simp: find_victim_frame_def split: option.splits prod.splits)
  then have inv: "pool_inv b1" "pool_view b1 = pool_view b"
    using same_but_ref_inv [OF assms facts(1) facts(6)] by simp_all
  show "fst (find_victim_frame b) = b' \<Longrightarrow> pool_inv b' \<and> pool_view b' = pool_view b"
    using inv run by auto
  show "is_ok (snd (find_victim_frame b)) \<longleftrightarrow> has_room b"
    using facts(7) run by (simp add: has_room_def)
  then show "\<not> has_room b \<Longrightarrow> snd (find_victim_frame b) = Inl RuntimeError"
    using facts(9) run by simp
  show "find_victim_frame b = (b', Inr i) \<Longrightarrow>
      pool_inv b' \<and> pool_view b' = pool_view b \<and> bp_disk b' = bp_disk b \<and> bp_table b' = bp_table b \<and>
      i < bp_size b' \<and> usable (bp_headers b' ! i) \<and> bp_size b' = bp_size b"
  proof -
    assume "find_victim_frame b = (b', Inr i)"
    then have b1: "b1 = b'" "r = Inr i" using run by simp_all
    have i: "i < bp_size b" "usable (bp_headers b ! i)" using facts(8) b1 by blast+
    have "i < length (bp_headers b1)" using i(1) pre(1) facts(1) by (simp add: same_but_ref_def)
    from same_but_ref_fields [OF facts(1) this] have "usable (bp_headers b1 ! i)"
      using i(2) by (simp add: usable_def)
    then show ?thesis using inv facts(2,4,5) i(1) b1 by simp
  qed
qed

lemma bump_inv [simp]:
  "pool_inv (b\<lparr>bp_misses := n\<rparr>) = pool_inv b" "pool_inv (b\<lparr>bp_hits := n\<rparr>) = pool_inv b"
  "pool_view (b\<lparr>bp_misses := n\<rparr>) = pool_view b" "pool_view (b\<lparr>bp_hits := n\<rparr>) = pool_view b"
  "has_room (b\<lparr>bp_misses := n\<rparr>) = has_room b"
proof -
  show "pool_view (b\<lparr>bp_misses := n\<rparr>) = pool_view b" "pool_view (b\<lparr>bp_hits := n\<rparr>) = pool_view b"
    by (rule ext, simp add: pool_view_def split: option.split)+
qed (simp_all add: pool_inv_def frame_ok_def Let_def has_room_def)

lemma set_header_inv:
  assumes "pool_inv b" "i < bp_size b" "fr_page_id h = fr_page_id (bp_headers b ! i)"
    "0 \<le> fr_pin_count h"
    "\<And>p. 0 \<le> fr_page_id h \<Longrightarrow> \<not> fr_is_dirty h \<Longrightarrow> fr_pin_count h = 0 \<Longrightarrow> bp_frames b ! i = Some p \<Longrightarrow>
       page_sig p = disk_sig (bp_disk b) (fr_page_id h)"
  shows "pool_inv (set_header b i h)" and "pool_view (set_header b i h) = pool_view b"
proof -
  have len: "i < length (bp_headers b)" using assms(1,2) by (simp add: pool_inv_def)
  have "frame_ok (set_header b i h) j" if "j < bp_size b" for j
  proof -
    have "frame_ok b j" using assms(1) that by (simp add: pool_inv_def)
    then show ?thesis using assms(3-5) len
      by (cases "j = i") (auto simp: frame_ok_def set_header_def Let_def)
  qed
  then show "pool_inv (set_header b i h)"
    using assms(1,3) len unfolding pool_inv_def by (simp add: set_header_def nth_list_update)
  show "pool_view (set_header b i h) = pool_view b"
    by (rule ext) (simp add: pool_view_def set_header_def split: option.split)
qed

text \<open>How often a page is pinned, and the reference to a frame a caller holds after a fetch.\<close>

definition pins :: "pool \<Rightarrow> int \<Rightarrow> int" where
  "pins b pid = (case bp_table b pid of Some i \<Rightarrow> fr_pin_count (bp_headers b ! i) | None \<Rightarrow> 0)"

definition holds :: "pool \<Rightarrow> int \<Rightarrow> page \<Rightarrow> bool" where
  "holds b pid p =
     (\<exists>i. bp_table b pid = Some i \<and> bp_frames b ! i = Some p \<and>
        0 < fr_pin_count (bp_headers b ! i) \<and>
        (\<not> fr_is_dirty (bp_headers b ! i) \<and> fr_pin_count (bp_headers b ! i) = 1 \<longrightarrow>
           page_sig p = disk_sig (bp_disk b) pid))"

lemma evict_pins:
  assumes inv: "pool_inv b" and us: "usable (bp_headers b ! i)" "i < bp_size b"
    and t: "bp_table b' = (if fr_page_id (bp_headers b ! i) < 0 then bp_table b
       else (bp_table b)(fr_page_id (bp_headers b ! i) := None))"
    and h: "bp_headers b' = bp_headers b"
  shows "pins b' = pins b"
proof
  fix pid
  have "frame_ok b i" using inv us(2) by (simp add: pool_inv_def)
  then have "0 \<le> fr_page_id (bp_headers b ! i) \<Longrightarrow> bp_table b (fr_page_id (bp_headers b ! i)) = Some i"
    by (simp add: frame_ok_def Let_def)
  then show "pins b' pid = pins b pid"
    using us(1) h t by (auto simp: pins_def usable_def split: option.split)
qed

lemma install_pins:
  assumes "pool_core b i"
  shows "pins (install b i pid p dirty) = (pins b)(pid := 1)"
proof
  fix q
  have "i < length (bp_headers b)" using assms by (simp add: pool_core_def)
  moreover have "bp_table b q \<noteq> Some i" using core_table [OF assms] by blast
  ultimately show "pins (install b i pid p dirty) q = ((pins b)(pid := 1)) q"
    by (auto simp: pins_def install_def split: option.split)
qed

lemma claim_pins:
  assumes inv: "pool_inv b" and v: "find_victim_frame b = (b', Inr i)"
  shows "pins b' = pins b"
proof
  fix q
  have pre: "length (bp_headers b) = bp_size b" "bp_size b = 0 \<or> bp_hand b < bp_size b"
    using inv by (simp_all add: pool_inv_def)
  note facts = find_victim_facts [OF pre v]
  have "fr_pin_count (bp_headers b' ! j) = fr_pin_count (bp_headers b ! j)"
    if "bp_table b q = Some j" for j
  proof -
    have "j < length (bp_headers b')"
      using pool_table [OF inv that] facts(1) pre(1) by (simp add: same_but_ref_def)
    then show ?thesis by (rule same_but_ref_fields(2) [OF facts(1)])
  qed
  then show "pins b' q = pins b q" by (auto simp: pins_def facts(4) split: option.split)
qed

lemma fetch_facts:
  assumes inv: "pool_inv b" and range: "0 \<le> pid" "pid < dk_num_pages (bp_disk b)"
    and room: "bp_table b pid \<noteq> None \<or> has_room b"
  obtains b' p where "fetch_page b pid = (b', Inr p)" "pool_inv b'" "pool_view b' = pool_view b"
    "page_ok pid p" "page_sig p = pool_view b pid" "holds b' pid p"
    "pins b' = (pins b)(pid := pins b pid + 1)"
    "dk_num_pages (bp_disk b') = dk_num_pages (bp_disk b)" "bp_size b' = bp_size b"
proof (cases "bp_table b pid")
  case (Some i)
  then have i: "i < bp_size b" "fr_page_id (bp_headers b ! i) = pid"
    using inv by (simp_all add: pool_inv_def)
  then have "frame_ok b i" using inv by (simp add: pool_inv_def)
  then obtain p where p: "bp_frames b ! i = Some p" "page_ok pid p" "0 \<le> fr_pin_count (bp_headers b ! i)"
    and agree: "\<not> fr_is_dirty (bp_headers b ! i) \<and> fr_pin_count (bp_headers b ! i) = 0 \<longrightarrow>
       page_sig p = disk_sig (bp_disk b) pid"
    using range(1) i(2) by (auto simp: frame_ok_def Let_def)
  define h where "h = (bp_headers b ! i)\<lparr>fr_pin_count := fr_pin_count (bp_headers b ! i) + 1, fr_ref_bit := True\<rparr>"
  define b' where "b' = (set_header b i h)\<lparr>bp_hits := bp_hits b + 1\<rparr>"
  have hi: "fr_page_id h = fr_page_id (bp_headers b ! i)" "0 \<le> fr_pin_count h" "fr_pin_count h \<noteq> 0"
    using p(3) by (simp_all add: h_def)
  have inv': "pool_inv b'" "pool_view b' = pool_view b"
    unfolding b'_def bump_inv using set_header_inv [OF inv i(1) hi(1,2)] hi(3) by blast+
  have len: "i < length (bp_headers b)" using inv i(1) by (simp add: pool_inv_def)
  have run: "fetch_page b pid = (b', Inr p)"
    using Some p(1) by (simp add: fetch_page_def b'_def h_def Let_def set_header_def)
  have "holds b' pid p"
    using Some p(1,3) agree len by (auto simp: holds_def b'_def h_def set_header_def)
  moreover have "pins b' = (pins b)(pid := pins b pid + 1)"
  proof
    fix q
    have tab: "bp_table b' = bp_table b" "bp_headers b' = (bp_headers b)[i := h]"
      by (simp_all add: b'_def set_header_def)
    show "pins b' q = ((pins b)(pid := pins b pid + 1)) q"
    proof (cases "q = pid")
      case True
      then show ?thesis using Some len by (simp add: pins_def tab h_def)
    next
      case False
      then have "bp_table b q \<noteq> Some i" using pool_table [OF inv] Some by metis
      then show ?thesis using False by (auto simp: pins_def tab split: option.split)
    qed
  qed
  moreover have "pool_view b pid = page_sig p"
    using Some p(1) by (simp add: pool_view_def)
  ultimately show thesis
    using that [OF run inv' p(2)] by (simp add: b'_def set_header_def)
next
  case None
  define b0 where "b0 = b\<lparr>bp_misses := bp_misses b + 1\<rparr>"
  have inv0: "pool_inv b0" using inv by (simp add: b0_def)
  have "has_room b0" using room None by (simp add: b0_def)
  then obtain b1 i where v: "find_victim_frame b0 = (b1, Inr i)"
    using claim_frame(3) [OF inv0] by (cases "find_victim_frame b0") (auto simp: is_ok_iff)
  have b1: "pool_inv b1" "pool_view b1 = pool_view b" "bp_disk b1 = bp_disk b" "bp_table b1 = bp_table b"
    "i < bp_size b1" "usable (bp_headers b1 ! i)" "bp_size b1 = bp_size b"
    using claim_frame(1) [OF inv0 v] by (simp_all add: b0_def)
  obtain b2 where e: "evict b1 i = (b2, Inr ())" "pool_core b2 i" "pool_view b2 = pool_view b1"
    "dk_num_pages (bp_disk b2) = dk_num_pages (bp_disk b1)"
    "bp_table b2 = (if fr_page_id (bp_headers b1 ! i) < 0 then bp_table b1
       else (bp_table b1)(fr_page_id (bp_headers b1 ! i) := None))"
    "bp_headers b2 = bp_headers b1" "bp_size b2 = bp_size b1"
    by (rule evict_facts [OF b1(1,5,6)])
  have t2: "bp_table b2 pid = None" using None b1(4) e(5) by (simp split: if_splits)
  obtain p where p: "read_page (bp_disk b2) pid = Inr p" "page_ok pid p"
    using e(2,4) b1(3) range by (auto simp: pool_core_def disk_ok_def)
  define b' where "b' = install b2 i pid p False"
  have run: "fetch_page b pid = (b', Inr p)"
    using None v e(1) p(1) by (simp add: fetch_page_def b0_def b'_def)
  have "pool_view b2 pid = page_sig p" using t2 p(1) by (simp add: pool_view_def disk_sig_def)
  then have rp: "page_sig p = pool_view b pid" using e(3) b1(2) by simp
  have inv': "pool_inv b'" and view': "pool_view b' = pool_view b"
    using install_facts [OF e(2) p(2) range(1) _ t2] e(3,4) b1(2,3) range(2) rp
    by (simp_all add: b'_def)
  have sz: "i < length (bp_headers b2)" "i < length (bp_frames b2)" using e(2) by (simp_all add: pool_core_def)
  have "holds b' pid p"
    using sz p(1) by (simp add: holds_def b'_def install_def disk_sig_def)
  moreover have "pins b2 = pins b1" by (rule evict_pins [OF b1(1,6,5) e(5,6)])
  moreover have "pins b1 = pins b0" by (rule claim_pins [OF inv0 v])
  moreover have "pins b0 = pins b" by (rule ext) (simp add: pins_def b0_def split: option.split)
  moreover have "pins b pid = 0" using None by (simp add: pins_def)
  ultimately show thesis
    using that [OF run inv' view' p(2) rp] install_pins [OF e(2), of pid p False] e(4,7) b1(3,7)
    by (simp add: b'_def [symmetric]) (simp add: b'_def b0_def install_def)
qed

lemma set_header_pins:
  assumes inv: "pool_inv b" and t: "bp_table b pid = Some i" and n: "n = fr_pin_count h"
  shows "pins (set_header b i h) = (pins b)(pid := n)"
proof
  fix q
  have i: "i < length (bp_headers b)" using pool_table [OF inv t] pool_lens [OF inv] by simp
  show "pins (set_header b i h) q = ((pins b)(pid := n)) q"
  proof (cases "q = pid")
    case True
    then show ?thesis using t n i by (simp add: pins_def set_header_def)
  next
    case False
    then have "bp_table b q \<noteq> Some i" using pool_table [OF inv] t by metis
    then show ?thesis using False by (auto simp: pins_def set_header_def split: option.split)
  qed
qed

lemma allocate_disk_ok:
  assumes "disk_ok d" "dk_num_pages d < 256 ^ 4"
  obtains d' p where "allocate_page d t = (d', Inr p)" "disk_ok d'"
    "dk_num_pages d' = dk_num_pages d + 1" "page_ok (dk_num_pages d) p"
    "page_sig p = Some (\<lambda>_. None, header_init (dk_num_pages d) t)"
    "disk_sig d' = (disk_sig d)(dk_num_pages d := page_sig p)"
proof -
  have wf: "disk_wf d" and n: "0 \<le> dk_num_pages d"
    using assms(1) by (simp_all add: disk_ok_def disk_wf_def)
  obtain d' p where d': "allocate_page d t = (d', Inr p)" "disk_wf d'"
    "dk_num_pages d' = dk_num_pages d + 1" "ph_page_id (pg_header p) = dk_num_pages d"
    "page_wf p" "read_record p = (\<lambda>_. None)" "hdr_ok (pg_header p)"
    "from_bytes (disk_block d' (dk_num_pages d)) = Inr p"
    "\<And>i. 0 \<le> i \<Longrightarrow> i < dk_num_pages d \<Longrightarrow> disk_block d' i = disk_block d i"
    "(pg_header p)\<lparr>ph_checksum := 0\<rparr> = header_init (dk_num_pages d) t"
    by (rule allocate_page_wf [OF wf assms(2), of t]) blast
  have new: "read_page d' (dk_num_pages d) = Inr p"
    using read_page_block [OF d'(2)] d'(3,8) n by simp
  have old: "read_page d' i = read_page d i" if "0 \<le> i" "i < dk_num_pages d" for i
    using read_page_block [OF d'(2)] read_page_block [OF wf] d'(3,9) that by simp
  have pk: "page_ok (dk_num_pages d) p" using d'(4,5,7) by (simp add: page_ok_def)
  have "\<exists>q. read_page d' i = Inr q \<and> page_ok i q" if "0 \<le> i" "i < dk_num_pages d + 1" for i
    using assms(1) that new old pk by (cases "i = dk_num_pages d") (auto simp: disk_ok_def)
  then have ok: "disk_ok d'" using d'(2,3) by (simp add: disk_ok_def)
  have "disk_sig d' i = ((disk_sig d)(dk_num_pages d := page_sig p)) i" for i
  proof (cases "0 \<le> i \<and> i < dk_num_pages d")
    case True
    then show ?thesis using old by (simp add: disk_sig_def)
  next
    case False
    then show ?thesis using new d'(3) n
      by (cases "i = dk_num_pages d")
        (auto simp: disk_sig_def read_page_def file_read_def PAGE_SIZE_def)
  qed
  moreover have "page_sig p = Some (\<lambda>_. None, header_init (dk_num_pages d) t)"
    using d'(6,10) by (simp add: page_sig_def)
  ultimately show thesis using that d'(1,3) ok pk by blast
qed

lemma grow_disk_inv:
  assumes inv: "pool_inv b" and d: "disk_ok d" "dk_num_pages d = dk_num_pages (bp_disk b) + 1"
    "disk_sig d = (disk_sig (bp_disk b))(dk_num_pages (bp_disk b) := v)"
  shows "pool_inv (b\<lparr>bp_disk := d\<rparr>)" "bp_table b (dk_num_pages (bp_disk b)) = None"
    "pool_view (b\<lparr>bp_disk := d\<rparr>) = (pool_view b)(dk_num_pages (bp_disk b) := v)"
proof -
  let ?n = "dk_num_pages (bp_disk b)"
  have n: "0 \<le> ?n" using inv by (simp add: pool_inv_def disk_ok_def disk_wf_def)
  have "frame_ok (b\<lparr>bp_disk := d\<rparr>) i" if "i < bp_size b" for i
    using pool_frame [OF inv that] d by (auto simp: frame_ok_def Let_def)
  then show "pool_inv (b\<lparr>bp_disk := d\<rparr>)" using inv d(1) by (simp add: pool_inv_def)
  show t: "bp_table b ?n = None"
  proof (rule ccontr)
    assume "bp_table b ?n \<noteq> None"
    then obtain j where j: "bp_table b ?n = Some j" by blast
    have "frame_ok b j" "fr_page_id (bp_headers b ! j) = ?n"
      using pool_table [OF inv j] pool_frame [OF inv] by simp_all
    then show False using n by (simp add: frame_ok_def Let_def)
  qed
  show "pool_view (b\<lparr>bp_disk := d\<rparr>) = (pool_view b)(?n := v)"
    using t by (intro ext) (auto simp: pool_view_def d(3) split: option.split)
qed

lemma new_page_facts:
  assumes inv: "pool_inv b" and room: "has_room b" and small: "dk_num_pages (bp_disk b) < 256 ^ 4"
  obtains b' p where "new_page b t = (b', Inr p)" "pool_inv b'"
    "pool_view b' = (pool_view b)(dk_num_pages (bp_disk b) := page_sig p)"
    "page_ok (dk_num_pages (bp_disk b)) p"
    "page_sig p = Some (\<lambda>_. None, header_init (dk_num_pages (bp_disk b)) t)"
    "holds b' (dk_num_pages (bp_disk b)) p" "pins b' = (pins b)(dk_num_pages (bp_disk b) := 1)"
    "dk_num_pages (bp_disk b') = dk_num_pages (bp_disk b) + 1" "bp_size b' = bp_size b"
proof -
  let ?n = "dk_num_pages (bp_disk b)"
  have dok: "disk_ok (bp_disk b)" using inv by (simp add: pool_inv_def)
  have n: "0 \<le> ?n" using dok by (simp add: disk_ok_def disk_wf_def)
  obtain d p where a: "allocate_page (bp_disk b) t = (d, Inr p)" "disk_ok d"
    "dk_num_pages d = ?n + 1" "page_ok ?n p" "page_sig p = Some (\<lambda>_. None, header_init ?n t)"
    "disk_sig d = (disk_sig (bp_disk b))(?n := page_sig p)"
    by (rule allocate_disk_ok [OF dok small])
  define b0 where "b0 = b\<lparr>bp_disk := d\<rparr>"
  note gr = grow_disk_inv [OF inv a(2,3,6)]
  have inv0: "pool_inv b0" "pool_view b0 = (pool_view b)(?n := page_sig p)"
    using gr by (simp_all add: b0_def)
  have "has_room b0" using room by (simp add: b0_def has_room_def)
  then obtain b1 i where v: "find_victim_frame b0 = (b1, Inr i)"
    using claim_frame(3) [OF inv0(1)] by (cases "find_victim_frame b0") (auto simp: is_ok_iff)
  have b1: "pool_inv b1" "pool_view b1 = (pool_view b)(?n := page_sig p)" "bp_disk b1 = d" "bp_table b1 = bp_table b"
    "i < bp_size b1" "usable (bp_headers b1 ! i)" "bp_size b1 = bp_size b"
    using claim_frame(1) [OF inv0(1) v] inv0(2) by (simp_all add: b0_def)
  obtain b2 where e: "evict b1 i = (b2, Inr ())" "pool_core b2 i" "pool_view b2 = pool_view b1"
    "dk_num_pages (bp_disk b2) = dk_num_pages (bp_disk b1)"
    "bp_table b2 = (if fr_page_id (bp_headers b1 ! i) < 0 then bp_table b1
       else (bp_table b1)(fr_page_id (bp_headers b1 ! i) := None))"
    "bp_headers b2 = bp_headers b1" "bp_size b2 = bp_size b1"
    by (rule evict_facts [OF b1(1,5,6)])
  have t2: "bp_table b2 ?n = None" using gr(2) b1(4) e(5) by (simp split: if_splits)
  define b' where "b' = install b2 i ?n p True"
  have id: "ph_page_id (pg_header p) = ?n" using a(4) by (simp add: page_ok_def)
  have run: "new_page b t = (b', Inr p)"
    using a(1) v e(1) by (simp add: new_page_def b0_def b'_def id)
  have ninv: "pool_inv b'" "pool_view b' = (pool_view b)(?n := page_sig p)"
    using install_facts [OF e(2) a(4) n _ t2] e(3,4) b1(2,3) a(3) by (simp_all add: b'_def)
  have sz: "i < length (bp_headers b2)" "i < length (bp_frames b2)" using e(2) by (simp_all add: pool_core_def)
  have "holds b' ?n p" using sz by (simp add: holds_def b'_def install_def)
  moreover have "pins b2 = pins b1" by (rule evict_pins [OF b1(1,6,5) e(5,6)])
  moreover have "pins b1 = pins b0" by (rule claim_pins [OF inv0(1) v])
  moreover have "pins b0 = pins b" by (rule ext) (simp add: pins_def b0_def split: option.split)
  ultimately show thesis
    using that [OF run ninv a(4,5)] install_pins [OF e(2), of ?n p True] e(4,7) b1(3,7) a(3)
    by (simp add: b'_def [symmetric]) (simp add: b'_def b0_def install_def)
qed

text \<open>Giving a page back: after a read, and after storing a new version of it.\<close>

lemma unpin_facts:
  assumes inv: "pool_inv b" and h: "holds b pid p"
  obtains b' where "unpin_page b pid False = (b', True)" "pool_inv b'" "pool_view b' = pool_view b"
    "pins b' = (pins b)(pid := pins b pid - 1)" "bp_disk b' = bp_disk b" "bp_size b' = bp_size b"
proof -
  obtain i where i: "bp_table b pid = Some i" "bp_frames b ! i = Some p" "0 < fr_pin_count (bp_headers b ! i)"
    and agree: "\<not> fr_is_dirty (bp_headers b ! i) \<and> fr_pin_count (bp_headers b ! i) = 1 \<longrightarrow>
           page_sig p = disk_sig (bp_disk b) pid"
    using h by (auto simp: holds_def)
  have t: "i < bp_size b" "fr_page_id (bp_headers b ! i) = pid" using pool_table [OF inv i(1)] by auto
  define h' where "h' = (bp_headers b ! i)\<lparr>fr_pin_count := fr_pin_count (bp_headers b ! i) - 1\<rparr>"
  have "unpin_page b pid False = (set_header b i h', True)"
    using i by (simp add: unpin_page_def h'_def Let_def)
  moreover have "pool_inv (set_header b i h')" "pool_view (set_header b i h') = pool_view b"
    using set_header_inv [OF inv t(1), of h'] i(2,3) agree t(2) by (auto simp: h'_def)
  moreover have "pins (set_header b i h') = (pins b)(pid := pins b pid - 1)"
    by (rule set_header_pins [OF inv i(1)]) (simp add: h'_def pins_def i(1))
  ultimately show thesis using that by (simp add: set_header_def)
qed

lemma put_unpin_facts:
  assumes inv: "pool_inv b" and h: "0 < pins b pid" and q: "page_ok pid q"
  obtains b' where "unpin_page (put_page b pid q) pid True = (b', True)" "pool_inv b'"
    "pool_view b' = (pool_view b)(pid := page_sig q)"
    "pins b' = (pins b)(pid := pins b pid - 1)" "bp_disk b' = bp_disk b" "bp_size b' = bp_size b"
proof -
  obtain i where i: "bp_table b pid = Some i" "0 < fr_pin_count (bp_headers b ! i)"
    using h by (auto simp: pins_def split: option.splits)
  have t: "i < bp_size b" "fr_page_id (bp_headers b ! i) = pid" "0 \<le> pid" using pool_table [OF inv i(1)] by auto
  have len: "i < length (bp_headers b)" "i < length (bp_frames b)" using t(1) pool_lens [OF inv] by simp_all
  define h' where "h' = (bp_headers b ! i)\<lparr>fr_pin_count := fr_pin_count (bp_headers b ! i) - 1, fr_is_dirty := True\<rparr>"
  define b' where "b' = b\<lparr>bp_frames := (bp_frames b)[i := Some q], bp_headers := (bp_headers b)[i := h']\<rparr>"
  have run: "unpin_page (put_page b pid q) pid True = (b', True)"
    using i by (simp add: unpin_page_def put_page_def h'_def Let_def set_header_def b'_def)
  have fi: "frame_ok b i" by (rule pool_frame [OF inv t(1)])
  have "frame_ok b' j" if "j < bp_size b" for j
  proof (cases "j = i")
    case True
    then show ?thesis using fi q len i(2) t(2,3)
      by (auto simp: frame_ok_def b'_def h'_def Let_def)
  next
    case False
    then show ?thesis using pool_frame [OF inv that] by (simp add: frame_ok_def b'_def)
  qed
  moreover have "fr_page_id (bp_headers b' ! j) = fr_page_id (bp_headers b ! j)" for j
    using len by (cases "j = i") (simp_all add: b'_def h'_def)
  ultimately have inv': "pool_inv b'"
    using inv unfolding pool_inv_def by (simp add: b'_def)
  have view: "pool_view b' = (pool_view b)(pid := page_sig q)"
  proof
    fix k
    show "pool_view b' k = ((pool_view b)(pid := page_sig q)) k"
    proof (cases "k = pid")
      case True
      then show ?thesis using i(1) len by (simp add: pool_view_def b'_def)
    next
      case False
      then have "bp_table b k \<noteq> Some i" using pool_table [OF inv] i(1) by metis
      then show ?thesis using False by (auto simp: pool_view_def b'_def split: option.split)
    qed
  qed
  have "pins b' = pins (set_header b i h')"
    by (rule ext) (simp add: pins_def b'_def set_header_def split: option.split)
  also have "\<dots> = (pins b)(pid := pins b pid - 1)"
    by (rule set_header_pins [OF inv i(1)]) (simp add: h'_def pins_def i(1))
  finally show thesis using that [OF run inv' view] by (simp add: b'_def)
qed

lemma holds_pins: "holds b pid p \<Longrightarrow> 0 < pins b pid"
  by (auto simp: holds_def pins_def)

lemma clean_frame_facts:
  assumes inv: "pool_inv b" and i: "i < bp_size b" and id: "0 \<le> fr_page_id (bp_headers b ! i)"
  obtains b' where "clean_frame b i = (b', Inr ())" "pool_inv b'" "pool_view b' = pool_view b"
    "pins b' = pins b" "bp_headers b' = (bp_headers b)[i := (bp_headers b ! i)\<lparr>fr_is_dirty := False\<rparr>]"
    "bp_size b' = bp_size b"
proof -
  let ?h = "bp_headers b ! i"
  let ?k = "fr_page_id ?h"
  have fi: "frame_ok b i" by (rule pool_frame [OF inv i])
  then obtain p where p: "bp_frames b ! i = Some p" "page_ok ?k p" "bp_table b ?k = Some i"
    "?k < dk_num_pages (bp_disk b)" "0 \<le> fr_pin_count ?h"
    using id by (auto simp: frame_ok_def Let_def)
  have dok: "disk_ok (bp_disk b)" using inv by (simp add: pool_inv_def)
  obtain d p' where w: "write_page (bp_disk b) p = Inr (d, p')" "disk_ok d"
    "dk_num_pages d = dk_num_pages (bp_disk b)" "page_ok ?k p'" "page_sig p' = page_sig p"
    "disk_sig d = (disk_sig (bp_disk b))(?k := page_sig p)"
    by (rule write_disk_ok [OF dok p(2) id p(4)])
  define b' where "b' = b\<lparr>bp_disk := d, bp_frames := (bp_frames b)[i := Some p'],
    bp_headers := (bp_headers b)[i := ?h\<lparr>fr_is_dirty := False\<rparr>]\<rparr>"
  have run: "clean_frame b i = (b', Inr ())"
    using p(1) w(1) by (simp add: clean_frame_def write_frame_def set_header_def b'_def)
  have len: "i < length (bp_headers b)" "i < length (bp_frames b)" using i pool_lens [OF inv] by simp_all
  have uniq: "bp_table b q = Some i \<longleftrightarrow> q = ?k" for q using pool_table [OF inv] p(3) by blast
  have "frame_ok b' j" if j: "j < bp_size b" for j
  proof (cases "j = i")
    case True
    then show ?thesis using p w len by (simp add: frame_ok_def b'_def Let_def)
  next
    case False
    have "fr_page_id (bp_headers b ! j) \<noteq> ?k" if "0 \<le> fr_page_id (bp_headers b ! j)"
      using pool_frame [OF inv j] that uniq [of ?k] False by (auto simp: frame_ok_def Let_def)
    then show ?thesis using pool_frame [OF inv j] False w(3,6)
      by (auto simp: frame_ok_def b'_def Let_def)
  qed
  moreover have "fr_page_id (bp_headers b' ! j) = fr_page_id (bp_headers b ! j)" for j
    using len by (cases "j = i") (simp_all add: b'_def)
  ultimately have inv': "pool_inv b'"
    using inv w(2) unfolding pool_inv_def by (simp add: b'_def)
  have "pool_view b' q = pool_view b q" for q
    using uniq [of q] w(5,6) p(1) len
    by (cases "bp_table b q") (auto simp: pool_view_def b'_def nth_list_update)
  then have view: "pool_view b' = pool_view b" by blast
  have "pins b' = pins (set_header b i (?h\<lparr>fr_is_dirty := False\<rparr>))"
    by (rule ext) (simp add: pins_def b'_def set_header_def split: option.split)
  also have "\<dots> = (pins b)(?k := pins b ?k)"
    by (rule set_header_pins [OF inv p(3)]) (simp add: pins_def p(3))
  finally show thesis using that [OF run inv' view] by (simp add: b'_def)
qed

lemma flush_frames_facts:
  assumes "pool_inv b" "\<forall>i \<in> set is. i < bp_size b"
  shows "\<exists>b'. flush_frames is b = (b', Inr ()) \<and> pool_inv b' \<and> pool_view b' = pool_view b \<and>
    pins b' = pins b \<and> bp_size b' = bp_size b \<and>
    (\<forall>j < bp_size b. fr_page_id (bp_headers b' ! j) = fr_page_id (bp_headers b ! j) \<and>
       (fr_is_dirty (bp_headers b' ! j) \<longrightarrow> fr_is_dirty (bp_headers b ! j) \<and>
          (j \<in> set is \<longrightarrow> fr_page_id (bp_headers b ! j) < 0)))"
  using assms
proof (induction "is" b rule: flush_frames.induct)
  case (1 b)
  then show ?case by auto
next
  case (2 i "is" b)
  let ?h = "bp_headers b ! i"
  have i: "i < bp_size b" and rest: "\<forall>j \<in> set is. j < bp_size b" using "2.prems"(2) by simp_all
  show ?case
  proof (cases "0 \<le> fr_page_id ?h \<and> fr_is_dirty ?h")
    case True
    then have fr: "bp_frames b ! i \<noteq> None"
      using pool_frame [OF "2.prems"(1) i] by (auto simp: frame_ok_def Let_def)
    obtain b1 where c: "clean_frame b i = (b1, Inr ())" "pool_inv b1" "pool_view b1 = pool_view b"
      "pins b1 = pins b" "bp_headers b1 = (bp_headers b)[i := ?h\<lparr>fr_is_dirty := False\<rparr>]"
      "bp_size b1 = bp_size b"
      by (rule clean_frame_facts [OF "2.prems"(1) i]) (use True in blast)
    have len: "i < length (bp_headers b)" using i pool_lens [OF "2.prems"(1)] by simp
    have eq: "flush_frames (i # is) b = flush_frames is b1"
      using True fr c(1) by (simp add: Let_def)
    have hd: "fr_page_id (bp_headers b1 ! j) = fr_page_id (bp_headers b ! j) \<and>
       (fr_is_dirty (bp_headers b1 ! j) \<longrightarrow> fr_is_dirty (bp_headers b ! j) \<and> j \<noteq> i)" for j
      using len by (cases "j = i") (simp_all add: c(5))
    have "\<forall>j \<in> set is. j < bp_size b1" using rest c(6) by simp
    from "2.IH"(1) [OF refl _ c(1) [symmetric] refl c(2) this] True fr
    obtain b' where "flush_frames is b1 = (b', Inr ())" "pool_inv b'" "pool_view b' = pool_view b1"
      "pins b' = pins b1" "bp_size b' = bp_size b1"
      "\<forall>j < bp_size b1. fr_page_id (bp_headers b' ! j) = fr_page_id (bp_headers b1 ! j) \<and>
       (fr_is_dirty (bp_headers b' ! j) \<longrightarrow> fr_is_dirty (bp_headers b1 ! j) \<and>
          (j \<in> set is \<longrightarrow> fr_page_id (bp_headers b1 ! j) < 0))"
      by blast
    then show ?thesis unfolding eq using hd c(3,4,6) by (intro exI [of _ b']) auto
  next
    case False
    then have eq: "flush_frames (i # is) b = flush_frames is b" by (auto simp: Let_def)
    have "\<exists>b'. flush_frames is b = (b', Inr ()) \<and> pool_inv b' \<and> pool_view b' = pool_view b \<and>
      pins b' = pins b \<and> bp_size b' = bp_size b \<and>
      (\<forall>j < bp_size b. fr_page_id (bp_headers b' ! j) = fr_page_id (bp_headers b ! j) \<and>
         (fr_is_dirty (bp_headers b' ! j) \<longrightarrow> fr_is_dirty (bp_headers b ! j) \<and>
            (j \<in> set is \<longrightarrow> fr_page_id (bp_headers b ! j) < 0)))"
      using "2.IH"(2) [OF refl _ "2.prems"(1) rest] False by blast
    then show ?thesis unfolding eq using False by auto
  qed
qed

section \<open>Properties of the pool\<close>

text \<open>
  The clock finds a frame exactly when some frame is empty or unpinned, the frame it
  names is one of those, so a pinned page is never evicted; otherwise the pool reports that it
  is exhausted.  Twice the number of frames is always enough sweeping.
\<close>

theorem find_victim_exactly:
  assumes "pool_inv b"
  shows "(is_ok (snd (find_victim_frame b)) \<longleftrightarrow> has_room b) \<and>
    (\<forall>i. snd (find_victim_frame b) = Inr i \<longrightarrow> i < bp_size b \<and> usable (bp_headers b ! i)) \<and>
    (\<not> has_room b \<longrightarrow> snd (find_victim_frame b) = Inl RuntimeError)"
proof -
  obtain b' r where run: "find_victim_frame b = (b', r)" by (cases "find_victim_frame b")
  have pre: "length (bp_headers b) = bp_size b" "bp_size b = 0 \<or> bp_hand b < bp_size b"
    using assms by (simp_all add: pool_inv_def)
  show ?thesis
    using find_victim_facts(8) [OF pre run] claim_frame(3,4) [OF assms] run by auto
qed

lemma new_disk_ok: "disk_ok (disk_open None)"
  by (auto simp: disk_ok_def disk_open_new)

theorem find_victim_exactly_witness:
  "snd (find_victim_frame (pool_new (disk_open None) 0)) = Inl RuntimeError \<and>
   is_ok (snd (find_victim_frame (pool_new (disk_open None) 3)))"
  using find_victim_exactly [OF pool_new_inv(1) [OF new_disk_ok], of 0]
    find_victim_exactly [OF pool_new_inv(1) [OF new_disk_ok], of 3]
  by (auto simp: has_room_def pool_new_def usable_def frame_empty_def)

text \<open>
  C11: fetching an existing page when it is cached or a frame can be had returns that page with
  its current records, pins it once more, and changes the content of no page, whichever page
  had to leave the pool.
\<close>

theorem fetch_page_current:
  assumes "pool_inv b" "0 \<le> pid" "pid < dk_num_pages (bp_disk b)"
    and "bp_table b pid \<noteq> None \<or> has_room b"
  shows "\<exists>b' p. fetch_page b pid = (b', Inr p) \<and> pool_inv b' \<and> pool_view b' = pool_view b \<and>
    page_ok pid p \<and> page_sig p = pool_view b pid \<and>
    pins b' = (pins b)(pid := pins b pid + 1)"
  by (rule fetch_facts [OF assms]) blast

lemma one_page_disk:
  obtains d p where "allocate_page (disk_open None) HEAP_DATA = (d, Inr p)" "disk_ok d"
    "dk_num_pages d = 1"
  by (rule allocate_disk_ok [OF new_disk_ok, of HEAP_DATA]) (auto simp: disk_open_new)

theorem fetch_page_current_witness:
  "\<exists>d p0 b' p. allocate_page (disk_open None) HEAP_DATA = (d, Inr p0) \<and>
     fetch_page (pool_new d 2) 0 = (b', Inr p) \<and> page_ok 0 p \<and> pins b' 0 = 1"
proof -
  obtain d p where d: "allocate_page (disk_open None) HEAP_DATA = (d, Inr p)" "disk_ok d"
    "dk_num_pages d = 1"
    by (rule one_page_disk)
  have "has_room (pool_new d 2)" by (simp add: has_room_def pool_new_def usable_def frame_empty_def)
  moreover have "pins (pool_new d 2) 0 = 0" by (simp add: pins_def pool_new_def)
  ultimately show ?thesis
    using fetch_page_current [OF pool_new_inv(1) [OF d(2)], of 0 2] d by (auto simp: pool_new_def)
qed

text \<open>
  A caller that holds a fetched page, changes it in place and unpins it as dirty has
  changed the content of that page and of no other, and the pool stays consistent.
\<close>

theorem modify_page_updates_view:
  assumes "pool_inv b" "0 < pins b pid" "page_ok pid q"
  shows "\<exists>b'. unpin_page (put_page b pid q) pid True = (b', True) \<and> pool_inv b' \<and>
    pool_view b' = (pool_view b)(pid := page_sig q) \<and> pins b' = (pins b)(pid := pins b pid - 1)"
  by (rule put_unpin_facts [OF assms]) blast

theorem modify_page_updates_view_witness:
  "\<exists>b p b'. new_page (pool_new (disk_open None) 1) HEAP_DATA = (b, Inr p) \<and>
     unpin_page (put_page b 0 p) 0 True = (b', True) \<and> pool_inv b'"
proof -
  have room: "has_room (pool_new (disk_open None) 1)"
    by (simp add: has_room_def pool_new_def usable_def frame_empty_def)
  have n: "dk_num_pages (bp_disk (pool_new (disk_open None) 1)) = 0"
    by (simp add: pool_new_def disk_open_new)
  obtain b p where b: "new_page (pool_new (disk_open None) 1) HEAP_DATA = (b, Inr p)"
    "pool_inv b" "page_ok 0 p" "holds b 0 p"
    by (rule new_page_facts [OF pool_new_inv(1) [OF new_disk_ok] room, of HEAP_DATA, unfolded n]) auto
  then show ?thesis using modify_page_updates_view [OF b(2) holds_pins [OF b(4)] b(3)] by blast
qed

lemma flush_all_correct:
  assumes "pool_inv b" and "pins b = (\<lambda>_. 0)"
  shows "\<exists>b'. flush_all b = (b', Inr ()) \<and> pool_inv b' \<and> pool_view b' = pool_view b \<and>
    disk_sig (bp_disk b') = pool_view b"
proof -
  have "\<forall>i \<in> set [0..<length (bp_headers b)]. i < bp_size b" using pool_lens [OF assms(1)] by simp
  from flush_frames_facts [OF assms(1) this]
  obtain b' where b': "flush_all b = (b', Inr ())" "pool_inv b'" "pool_view b' = pool_view b"
    "pins b' = pins b" "bp_size b' = bp_size b"
    and clean: "\<And>j. j < bp_size b \<Longrightarrow> fr_page_id (bp_headers b' ! j) = fr_page_id (bp_headers b ! j) \<and>
       (fr_is_dirty (bp_headers b' ! j) \<longrightarrow> fr_page_id (bp_headers b ! j) < 0)"
    using pool_lens [OF assms(1)] by (auto simp: flush_all_def)
  have "disk_sig (bp_disk b') pid = pool_view b' pid" for pid
  proof (cases "bp_table b' pid")
    case None
    then show ?thesis by (simp add: pool_view_def)
  next
    case (Some i)
    have t: "0 \<le> pid" "i < bp_size b'" "fr_page_id (bp_headers b' ! i) = pid"
      using pool_table [OF b'(2) Some] by auto
    have "\<not> fr_is_dirty (bp_headers b' ! i)" using clean [of i] t b'(5) by auto
    moreover have "fr_pin_count (bp_headers b' ! i) = 0"
    proof -
      have "pins b' pid = 0" using b'(4) assms(2) by simp
      then show ?thesis using Some by (simp add: pins_def)
    qed
    ultimately obtain p where "bp_frames b' ! i = Some p" "page_sig p = disk_sig (bp_disk b') pid"
      using pool_frame [OF b'(2) t(2)] t(1,3) by (auto simp: frame_ok_def Let_def)
    then show ?thesis using Some by (simp add: pool_view_def)
  qed
  then show ?thesis using b' by auto
qed

text \<open>
  C22: when no page is pinned, flushing succeeds and afterwards the database file alone holds
  for every page the records the pool showed.
\<close>

theorem flush_all_durable:
  assumes "pool_inv b" and "pins b = (\<lambda>_. 0)"
  shows "\<exists>b'. flush_all b = (b', Inr ()) \<and> pool_inv b' \<and> pool_view b' = pool_view b \<and>
    disk_sig (bp_disk b') = pool_view b"
  by (rule flush_all_correct [OF assms])

theorem flush_all_durable_witness:
  "\<exists>b'. flush_all (pool_new (disk_open None) 4) = (b', Inr ()) \<and> pool_inv b'"
  using flush_all_durable [OF pool_new_inv(1) [OF new_disk_ok], of 4]
  by (auto simp: pins_def pool_new_def fun_eq_iff)

text \<open>
  Fetching a page that does not exist, with a pool whose one frame holds an unpinned clean
  page, raises after that page has left the page table but not its frame header; from then on
  every fetch of an existing page raises a key error, the page that was cached included.
\<close>

theorem missing_page_poisons_frame:
  assumes "pool_inv b" "bp_size b = 1" "bp_table b k = Some 0" "pins b k = 0"
    and "\<not> fr_is_dirty (bp_headers b ! 0)"
    and "dk_num_pages (bp_disk b) \<le> pid" "0 \<le> q" "q < dk_num_pages (bp_disk b)"
  shows "snd (fetch_page b pid) = Inl ValueError \<and>
    snd (fetch_page (fst (fetch_page b pid)) q) = Inl KeyError"
proof -
  obtain h where hs: "bp_headers b = [h]"
    using pool_lens(1) [OF assms(1)] assms(2) by (cases "bp_headers b") auto
  have h: "fr_page_id h = k" "0 \<le> k" "fr_pin_count h = 0" "\<not> fr_is_dirty h"
    using pool_table [OF assms(1,3)] assms(3-5) hs by (auto simp: pins_def)
  have hand: "bp_hand b = 0" using assms(1,2) by (simp add: pool_inv_def)
  have only: "bp_table b j = None" if "j \<noteq> k" for j
    using pool_table [OF assms(1), of j] assms(2) that hs h(1) by (cases "bp_table b j") auto
  have "0 \<le> pid" using assms(6-8) by simp
  have np: "bp_table b pid = None"
  proof (rule only, rule notI)
    assume "pid = k"
    then show False using pool_frame [OF assms(1), of 0] assms(2,6) hs h by (simp add: frame_ok_def)
  qed
  have sw: "sweep 1 2 [h'] 0 = ([h'\<lparr>fr_ref_bit := False\<rparr>], 0, Some 0)" if "fr_pin_count h' = 0" for h'
    using that by (cases h') (simp add: numeral_2_eq_2 Let_def)
  define b1 where "b1 = b\<lparr>bp_misses := bp_misses b + 1, bp_headers := [h\<lparr>fr_ref_bit := False\<rparr>], bp_hand := 0\<rparr>"
  have v: "find_victim_frame (b\<lparr>bp_misses := bp_misses b + 1\<rparr>) = (b1, Inr 0)"
    using hs h hand assms(2) sw [of h] by (simp add: find_victim_frame_def b1_def)
  define b2 where "b2 = b1\<lparr>bp_table := (bp_table b)(k := None), bp_evictions := bp_evictions b + 1\<rparr>"
  have e: "evict b1 0 = (b2, Inr ())"
    using h assms(3) by (simp add: evict_def b1_def b2_def Let_def)
  have f1: "fetch_page b pid = (b2, Inl ValueError)"
    using np v e assms(6) by (simp add: fetch_page_def b2_def b1_def read_page_def)
  have "find_victim_frame (b2\<lparr>bp_misses := n\<rparr>) =
      (b2\<lparr>bp_misses := n\<rparr>, Inr 0)" for n
    using h assms(2) sw [of "h\<lparr>fr_ref_bit := False\<rparr>"]
    by (simp add: find_victim_frame_def b2_def b1_def)
  moreover have "evict (b2\<lparr>bp_misses := n\<rparr>) 0 = (b2\<lparr>bp_misses := n\<rparr>, Inl KeyError)" for n
    using h by (simp add: evict_def b2_def b1_def Let_def)
  moreover have "bp_table b2 q = None" using only by (simp add: b2_def)
  ultimately have "snd (fetch_page b2 q) = Inl KeyError" by (simp add: fetch_page_def)
  then show ?thesis using f1 by simp
qed

theorem missing_page_poisons_frame_witness:
  "\<exists>d p0 b p b1. allocate_page (disk_open None) HEAP_DATA = (d, Inr p0) \<and>
     fetch_page (pool_new d 1) 0 = (b, Inr p) \<and> unpin_page b 0 False = (b1, True) \<and>
     snd (fetch_page b1 7) = Inl ValueError \<and>
     snd (fetch_page (fst (fetch_page b1 7)) 0) = Inl KeyError"
proof -
  obtain d p0 where d: "allocate_page (disk_open None) HEAP_DATA = (d, Inr p0)" "disk_ok d"
    "dk_num_pages d = 1"
    by (rule one_page_disk)
  have room: "has_room (pool_new d 1)" by (simp add: has_room_def pool_new_def usable_def frame_empty_def)
  obtain b p where b: "fetch_page (pool_new d 1) 0 = (b, Inr p)" "pool_inv b" "holds b 0 p"
    "pins b = (pins (pool_new d 1))(0 := pins (pool_new d 1) 0 + 1)" "dk_num_pages (bp_disk b) = 1"
    "bp_size b = 1"
    by (rule fetch_facts [OF pool_new_inv(1) [OF d(2)], of 0 1]) (use d(3) room in \<open>simp_all add: pool_new_def\<close>)
  obtain b1 where b1: "unpin_page b 0 False = (b1, True)" "pool_inv b1"
    "pins b1 = (pins b)(0 := pins b 0 - 1)" "bp_disk b1 = bp_disk b" "bp_size b1 = bp_size b"
    by (rule unpin_facts [OF b(2,3)])
  have b_eq: "b = install ((pool_new d 1)\<lparr>bp_misses := 1\<rparr>) 0 0 p False"
    using b(1) by (auto simp: fetch_page_def pool_new_def find_victim_frame_def frame_empty_def evict_def
        split: sum.splits)
  have "bp_table b1 0 = Some 0" "\<not> fr_is_dirty (bp_headers b1 ! 0)"
    using b1(1) by (auto simp: b_eq install_def pool_new_def unpin_page_def set_header_def Let_def)
  moreover have "pins b1 0 = 0" using b1(3) b(4) by (simp add: pins_def pool_new_def)
  ultimately have "snd (fetch_page b1 7) = Inl ValueError \<and>
      snd (fetch_page (fst (fetch_page b1 7)) 0) = Inl KeyError"
    using missing_page_poisons_frame [OF b1(2), of 0 7 0] b1(4,5) b(5,6) by simp
  then show ?thesis using d(1) b(1) b1(1) by blast
qed

end
