(* ===== verification/Heap_File.thy ===== *)
theory Heap_File
  imports Record_Codec Buffer_Pool
begin

text \<open>
  Table files, \<^verbatim>\<open>HeapFile\<close> of \<^verbatim>\<open>src/pysql/storage/heap.py\<close>: the list of the
  table's pages, and the record operations written over the buffer pool with every fetch and
  unpin the code makes.  Operations return the pool, the file and the result.
\<close>

datatype record_id = RID (rid_page: int) (rid_slot: nat)

instantiation record_id :: linorder
begin

definition less_eq_record_id :: "record_id \<Rightarrow> record_id \<Rightarrow> bool" where
  "less_eq_record_id a b =
     (rid_page a < rid_page b \<or> rid_page a = rid_page b \<and> rid_slot a \<le> rid_slot b)"

definition less_record_id :: "record_id \<Rightarrow> record_id \<Rightarrow> bool" where
  "less_record_id a b =
     (rid_page a < rid_page b \<or> rid_page a = rid_page b \<and> rid_slot a < rid_slot b)"

instance
  by standard (auto simp: less_eq_record_id_def less_record_id_def record_id.expand)

end

record heap_file =
  hf_schema :: table_schema
  hf_page_ids :: "int list"

section \<open>Operations\<close>

text \<open>Opening an existing file follows the next-page links; the loop need not end.\<close>

partial_function (option) load_page_chain ::
  "pool \<Rightarrow> int \<Rightarrow> int list \<Rightarrow> (pool \<times> int list result) option"
where
  "load_page_chain b current acc =
     (if current = INVALID_PAGE_ID then Some (b, Inr acc)
      else (let r = fetch_page b current in
        if is_ok (snd r) then
          load_page_chain (fst (unpin_page (fst r) current False))
            (ph_next_page (pg_header (projr (snd r)))) (acc @ [current])
        else Some (fst r, Inl (projl (snd r)))))"

definition heap_create :: "table_schema \<Rightarrow> pool \<Rightarrow> pool \<times> heap_file result" where
  "heap_create s b =
     (case new_page b HEAP_DATA of
        (b1, Inl e) \<Rightarrow> (b1, Inl e)
      | (b1, Inr p) \<Rightarrow>
          (let pid = ph_page_id (pg_header p) in
           (fst (unpin_page b1 pid True), Inr \<lparr>hf_schema = s, hf_page_ids = [pid]\<rparr>)))"

definition first_page_id :: "heap_file \<Rightarrow> int" where
  "first_page_id hf = (case hf_page_ids hf of [] \<Rightarrow> - 1 | pid # _ \<Rightarrow> pid)"

fun try_pages :: "int list \<Rightarrow> byte list \<Rightarrow> pool \<Rightarrow> pool \<times> record_id option result" where
  "try_pages [] rec b = (b, Inr None)"
| "try_pages (pid # pids) rec b =
     (case fetch_page b pid of
        (b1, Inl e) \<Rightarrow> (b1, Inl e)
      | (b1, Inr p) \<Rightarrow>
          (case insert_record p rec of
             (p1, Some slot) \<Rightarrow> (fst (unpin_page (put_page b1 pid p1) pid True), Inr (Some (RID pid slot)))
           | (_, None) \<Rightarrow> try_pages pids rec (fst (unpin_page b1 pid False))))"

text \<open>Linking a new page behind the last one of the chain.\<close>

definition set_next :: "int \<Rightarrow> page \<Rightarrow> page" where
  "set_next n p = p\<lparr>pg_header := (pg_header p)\<lparr>ph_next_page := n\<rparr>\<rparr>"

definition set_prev :: "int \<Rightarrow> page \<Rightarrow> page" where
  "set_prev n p = p\<lparr>pg_header := (pg_header p)\<lparr>ph_prev_page := n\<rparr>\<rparr>"

definition link_page :: "int list \<Rightarrow> int \<Rightarrow> page \<Rightarrow> pool \<Rightarrow> pool \<times> page result" where
  "link_page old_ids new_id p b =
     (if old_ids = [] then (b, Inr p)
      else (let prev = last old_ids in
        case fetch_page b prev of
          (b1, Inl e) \<Rightarrow> (b1, Inl e)
        | (b1, Inr q) \<Rightarrow>
            (let p1 = set_prev prev p;
                 b2 = put_page (put_page b1 prev (set_next new_id q)) new_id p1
             in (fst (unpin_page b2 prev True), Inr p1))))"

definition heap_insert ::
  "py_runtime \<Rightarrow> heap_file \<Rightarrow> pool \<Rightarrow> pyval list \<Rightarrow> pool \<times> heap_file \<times> record_id result"
where
  "heap_insert rt hf b values =
     (case record_serialize rt (hf_schema hf) values of
        Inl e \<Rightarrow> (b, hf, Inl e)
      | Inr rec \<Rightarrow>
          (case try_pages (hf_page_ids hf) rec b of
             (b1, Inl e) \<Rightarrow> (b1, hf, Inl e)
           | (b1, Inr (Some rid)) \<Rightarrow> (b1, hf, Inr rid)
           | (b1, Inr None) \<Rightarrow>
               (case new_page b1 HEAP_DATA of
                  (b2, Inl e) \<Rightarrow> (b2, hf, Inl e)
                | (b2, Inr p) \<Rightarrow>
                    (let pid = ph_page_id (pg_header p);
                         hf1 = hf\<lparr>hf_page_ids := hf_page_ids hf @ [pid]\<rparr> in
                     case link_page (hf_page_ids hf) pid p b2 of
                       (b3, Inl e) \<Rightarrow> (b3, hf1, Inl e)
                     | (b3, Inr p1) \<Rightarrow>
                         (let (p2, slot) = insert_record p1 rec;
                              b4 = fst (unpin_page (put_page b3 pid p2) pid True)
                          in (b4, hf1, case slot of None \<Rightarrow> Inl RuntimeError | Some k \<Rightarrow> Inr (RID pid k)))))))"

definition heap_read ::
  "py_runtime \<Rightarrow> heap_file \<Rightarrow> pool \<Rightarrow> record_id \<Rightarrow> pool \<times> pyval list option result"
where
  "heap_read rt hf b rid =
     (case fetch_page b (rid_page rid) of
        (b1, Inl e) \<Rightarrow> (b1, Inl e)
      | (b1, Inr p) \<Rightarrow>
          (fst (unpin_page b1 (rid_page rid) False),
           case read_record p (rid_slot rid) of
             None \<Rightarrow> Inr None
           | Some data \<Rightarrow> bindr (record_deserialize rt (hf_schema hf) data) (\<lambda>vs. Inr (Some vs))))"

definition heap_update ::
  "py_runtime \<Rightarrow> heap_file \<Rightarrow> pool \<Rightarrow> record_id \<Rightarrow> pyval list \<Rightarrow> pool \<times> bool result"
where
  "heap_update rt hf b rid values =
     (case record_serialize rt (hf_schema hf) values of
        Inl e \<Rightarrow> (b, Inl e)
      | Inr rec \<Rightarrow>
          (case fetch_page b (rid_page rid) of
             (b1, Inl e) \<Rightarrow> (b1, Inl e)
           | (b1, Inr p) \<Rightarrow>
               (let (p1, ok) = update_record p (rid_slot rid) rec in
                (fst (unpin_page (put_page b1 (rid_page rid) p1) (rid_page rid) ok), Inr ok))))"

definition heap_delete :: "heap_file \<Rightarrow> pool \<Rightarrow> record_id \<Rightarrow> pool \<times> bool result" where
  "heap_delete hf b rid =
     (case fetch_page b (rid_page rid) of
        (b1, Inl e) \<Rightarrow> (b1, Inl e)
      | (b1, Inr p) \<Rightarrow>
          (let (p1, ok) = delete_record p (rid_slot rid) in
           (fst (unpin_page (put_page b1 (rid_page rid) p1) (rid_page rid) ok), Inr ok)))"

text \<open>The scan is a generator; the rows it yields when it is run to the end.\<close>

fun scan_pages ::
  "py_runtime \<Rightarrow> table_schema \<Rightarrow> int list \<Rightarrow> pool \<Rightarrow> pool \<times> (record_id \<times> pyval list) list result"
where
  "scan_pages rt s [] b = (b, Inr [])"
| "scan_pages rt s (pid # pids) b =
     (case fetch_page b pid of
        (b1, Inl e) \<Rightarrow> (b1, Inl e)
      | (b1, Inr p) \<Rightarrow>
          (let b2 = fst (unpin_page b1 pid False) in
           case mapr (\<lambda>(k, data). bindr (record_deserialize rt s data) (\<lambda>vs. Inr (RID pid k, vs)))
                  (get_all_records p) of
             Inl e \<Rightarrow> (b2, Inl e)
           | Inr rows \<Rightarrow>
               (case scan_pages rt s pids b2 of
                  (b3, Inl e) \<Rightarrow> (b3, Inl e)
                | (b3, Inr rest) \<Rightarrow> (b3, Inr (rows @ rest)))))"

definition heap_scan ::
  "py_runtime \<Rightarrow> heap_file \<Rightarrow> pool \<Rightarrow> pool \<times> (record_id \<times> pyval list) list result"
where
  "heap_scan rt hf b = scan_pages rt (hf_schema hf) (hf_page_ids hf) b"

fun count_pages :: "int list \<Rightarrow> nat \<Rightarrow> pool \<Rightarrow> pool \<times> nat result" where
  "count_pages [] n b = (b, Inr n)"
| "count_pages (pid # pids) n b =
     (case fetch_page b pid of
        (b1, Inl e) \<Rightarrow> (b1, Inl e)
      | (b1, Inr p) \<Rightarrow> count_pages pids (n + get_num_records p) (fst (unpin_page b1 pid False)))"

definition get_record_count :: "heap_file \<Rightarrow> pool \<Rightarrow> pool \<times> nat result" where
  "get_record_count hf b = count_pages (hf_page_ids hf) 0 b"

section \<open>Pages without holes\<close>

text \<open>
  The free-space count is exact when no record of the page has been deleted or shrunk since
  the last compaction; insertions keep it exact.
\<close>

definition tight_header :: "page_header \<Rightarrow> bool" where
  "tight_header h =
     (ph_free_space h = ph_data_end h - HEADER_SIZE - ph_num_slots h * SLOT_SIZE)"

lemma tight_gap: "page_wf p \<Longrightarrow> tight_header (pg_header p) \<longleftrightarrow> gap p = ph_free_space (pg_header p)"
  by (auto simp: tight_header_def page_wf_def gap_def dir_end_def)

lemma or_flag_byte: "0 \<le> v \<Longrightarrow> v < 256 \<Longrightarrow> 0 \<le> (v :: int) OR FLAG_DIRTY \<and> v OR FLAG_DIRTY < 256"
  using OR_upper [of v 8 1] by (simp add: FLAG_DIRTY_def)

lemma wf_header_bounds:
  assumes "page_wf p"
  shows "0 \<le> ph_num_slots (pg_header p) \<and> ph_num_slots (pg_header p) < 65536 \<and>
    0 \<le> ph_free_space (pg_header p) \<and> ph_free_space (pg_header p) < 65536 \<and>
    0 \<le> ph_data_end (pg_header p) \<and> ph_data_end (pg_header p) < 65536"
  using assms gap_le_free [OF assms] used_nonneg [of "pg_slots p" "ph_data_end (pg_header p)"]
  by (auto simp: page_wf_def accounted_def gap_def dir_end_def page_consts)

lemma hdr_ok_wf:
  "page_wf p \<Longrightarrow> hdr_ok (pg_header p) \<longleftrightarrow>
   0 \<le> ph_page_id (pg_header p) \<and> ph_page_id (pg_header p) < 256 ^ 4 \<and>
   0 \<le> ph_flags (pg_header p) \<and> ph_flags (pg_header p) < 256 \<and>
   0 \<le> ph_next_page (pg_header p) \<and> ph_next_page (pg_header p) < 256 ^ 4 \<and>
   0 \<le> ph_prev_page (pg_header p) \<and> ph_prev_page (pg_header p) < 256 ^ 4 \<and>
   - (256 ^ 8) \<le> 2 * ph_lsn (pg_header p) \<and> 2 * ph_lsn (pg_header p) < 256 ^ 8 \<and>
   0 \<le> ph_checksum (pg_header p) \<and> ph_checksum (pg_header p) < 256 ^ 4"
  using wf_header_bounds [of p]
  by (cases "ph_page_type (pg_header p)") (auto simp: hdr_ok_def header_fmt_def header_values_def)

lemma insert_header:
  assumes "insert_record p rec = (p', Some k)"
  shows "\<exists>n e f. pg_header p' = (pg_header p)\<lparr>ph_num_slots := n, ph_data_end := e, ph_free_space := f,
      ph_flags := ph_flags (pg_header p) OR FLAG_DIRTY\<rparr>"
  by (rule exI [of _ "ph_num_slots (pg_header p')"], rule exI [of _ "ph_data_end (pg_header p')"],
      rule exI [of _ "ph_free_space (pg_header p')"])
    (use assms in \<open>auto simp: insert_record_def Let_def split: option.splits if_splits\<close>)

lemma insert_tight:
  "insert_record p rec = (p', Some k) \<Longrightarrow> tight_header (pg_header p) \<Longrightarrow> tight_header (pg_header p')"
  by (auto simp: insert_record_def Let_def tight_header_def algebra_simps split: option.splits if_splits)

lemma insert_page_ok:
  assumes ok: "page_ok pid p" and tight: "tight_header (pg_header p)" and ne: "rec \<noteq> []"
    and fits: "int (length rec) + SLOT_SIZE \<le> ph_free_space (pg_header p)"
  obtains p' k where "insert_record p rec = (p', Some k)" "page_ok pid p'" "read_record p k = None"
    "read_record p' = (read_record p)(k \<mapsto> rec)" "tight_header (pg_header p')"
    "ph_next_page (pg_header p') = ph_next_page (pg_header p)"
proof -
  have wf: "page_wf p" and id: "ph_page_id (pg_header p) = pid" and hok: "hdr_ok (pg_header p)"
    using ok by (simp_all add: page_ok_def)
  have "int (length rec) \<le> gap p - SLOT_SIZE" using fits tight tight_gap [OF wf] by simp
  then obtain p' k where p': "insert_record p rec = (p', Some k)" "page_wf p'" "read_record p k = None"
    "read_record p' = (read_record p)(k \<mapsto> rec)"
    using slotted.ins_room [OF wf ne] by blast
  have flag: "0 \<le> ph_flags (pg_header p) OR FLAG_DIRTY \<and> ph_flags (pg_header p) OR FLAG_DIRTY < 256"
    using hok hdr_ok_wf [OF wf] by (intro or_flag_byte) simp_all
  obtain n e f where h': "pg_header p' = (pg_header p)\<lparr>ph_num_slots := n, ph_data_end := e, ph_free_space := f,
      ph_flags := ph_flags (pg_header p) OR FLAG_DIRTY\<rparr>"
    using insert_header [OF p'(1)] by blast
  have "page_ok pid p'"
    using hok p'(2) flag id hdr_ok_wf [OF wf] hdr_ok_wf [OF p'(2)] by (simp add: page_ok_def h')
  then show thesis using that p' insert_tight [OF p'(1) tight] h' by simp
qed

section \<open>A table file as a map from record identifiers to records\<close>

definition ready :: "pool \<Rightarrow> bool" where
  "ready b = (pool_inv b \<and> pins b = (\<lambda>_. 0) \<and> 2 \<le> bp_size b)"

definition in_file :: "pool \<Rightarrow> int \<Rightarrow> bool" where
  "in_file b pid = (0 \<le> pid \<and> pid < dk_num_pages (bp_disk b))"

definition view_records :: "signature option \<Rightarrow> nat \<Rightarrow> byte list option" where
  "view_records v = (case v of Some (r, _) \<Rightarrow> r | None \<Rightarrow> (\<lambda>_. None))"

definition view_next :: "signature option \<Rightarrow> int" where
  "view_next v = (case v of Some (_, h) \<Rightarrow> ph_next_page h | None \<Rightarrow> INVALID_PAGE_ID)"

definition view_tight :: "signature option \<Rightarrow> bool" where
  "view_tight v = (case v of Some (_, h) \<Rightarrow> tight_header h | None \<Rightarrow> False)"

lemma view_sig [simp]:
  "view_records (page_sig p) = read_record p"
  "view_next (page_sig p) = ph_next_page (pg_header p)"
  "view_tight (page_sig p) = tight_header (pg_header p)"
  by (simp_all add: view_records_def view_next_def view_tight_def page_sig_def tight_header_def)

definition heap_contents :: "pool \<Rightarrow> heap_file \<Rightarrow> record_id \<Rightarrow> byte list option" where
  "heap_contents b hf rid =
     (if rid_page rid \<in> set (hf_page_ids hf)
      then view_records (pool_view b (rid_page rid)) (rid_slot rid) else None)"

lemma room_when_unpinned:
  assumes "pool_inv b" "\<And>pid. pid \<noteq> k \<Longrightarrow> pins b pid = 0" "2 \<le> bp_size b"
  shows "has_room b"
proof (rule ccontr)
  assume "\<not> has_room b"
  then have all: "\<not> usable (bp_headers b ! i)" if "i < bp_size b" for i
    using that pool_lens(1) [OF assms(1)] by (auto simp: has_room_def)
  have "fr_page_id (bp_headers b ! i) = k \<and> bp_table b k = Some i" if "i < bp_size b" for i
  proof -
    have n: "0 \<le> fr_page_id (bp_headers b ! i)" "fr_pin_count (bp_headers b ! i) \<noteq> 0"
      using all [OF that] by (auto simp: usable_def)
    have t: "bp_table b (fr_page_id (bp_headers b ! i)) = Some i"
      using pool_frame [OF assms(1) that] n by (simp add: frame_ok_def Let_def)
    then have "pins b (fr_page_id (bp_headers b ! i)) \<noteq> 0" using n by (simp add: pins_def)
    then show ?thesis using assms(2) t by metis
  qed
  from this [of 0] this [of 1] assms(3) show False by auto
qed

lemma visit:
  assumes "ready b" "in_file b pid"
  obtains b1 p where "fetch_page b pid = (b1, Inr p)" "pool_inv b1" "pool_view b1 = pool_view b"
    "page_ok pid p" "pool_view b pid = page_sig p" "holds b1 pid p"
    "pins b1 = (\<lambda>_. 0)(pid := 1)" "dk_num_pages (bp_disk b1) = dk_num_pages (bp_disk b)"
    "bp_size b1 = bp_size b"
proof -
  have inv: "pool_inv b" "pins b = (\<lambda>_. 0)" "2 \<le> bp_size b" "has_room b"
    using assms(1) room_when_unpinned [of b 0] by (simp_all add: ready_def)
  show thesis
    by (rule fetch_facts [OF inv(1), of pid])
      (use assms(2) inv that in \<open>simp_all add: in_file_def\<close>)
qed

lemma visit_unpin:
  assumes "pool_inv b1" "holds b1 pid p" "pins b1 = (\<lambda>_. 0)(pid := 1)" "2 \<le> bp_size b1"
  obtains b2 where "unpin_page b1 pid False = (b2, True)" "ready b2" "pool_view b2 = pool_view b1"
    "bp_disk b2 = bp_disk b1"
  by (rule unpin_facts [OF assms(1,2)]) (use assms(3,4) that in \<open>simp add: ready_def fun_upd_idem\<close>)

lemma visit_put:
  assumes "pool_inv b1" "holds b1 pid p" "pins b1 = (\<lambda>_. 0)(pid := 1)" "2 \<le> bp_size b1" "page_ok pid q"
  obtains b2 where "unpin_page (put_page b1 pid q) pid True = (b2, True)" "ready b2"
    "pool_view b2 = (pool_view b1)(pid := page_sig q)" "bp_disk b2 = bp_disk b1"
  by (rule put_unpin_facts [OF assms(1) holds_pins [OF assms(2)] assms(5)]) (use assms(3,4) that in \<open>simp add: ready_def fun_upd_idem\<close>)

lemma try_pages_facts:
  assumes "ready b" "\<forall>pid \<in> set pids. in_file b pid \<and> view_tight (pool_view b pid)" "rec \<noteq> []"
  shows "(\<exists>b' pid k v. try_pages pids rec b = (b', Inr (Some (RID pid k))) \<and> pid \<in> set pids \<and> ready b' \<and>
      bp_size b' = bp_size b \<and> dk_num_pages (bp_disk b') = dk_num_pages (bp_disk b) \<and>
      pool_view b' = (pool_view b)(pid := v) \<and> view_records (pool_view b pid) k = None \<and>
      view_records v = (view_records (pool_view b pid))(k \<mapsto> rec) \<and> view_tight v \<and>
      view_next v = view_next (pool_view b pid)) \<or>
    (\<exists>b'. try_pages pids rec b = (b', Inr None) \<and> ready b' \<and>
      bp_size b' = bp_size b \<and> dk_num_pages (bp_disk b') = dk_num_pages (bp_disk b) \<and>
      pool_view b' = pool_view b)"
  using assms
proof (induction pids rec b rule: try_pages.induct)
  case (1 rec b)
  then show ?case by simp
next
  case (2 pid pids rec b)
  have pid: "in_file b pid" "view_tight (pool_view b pid)" using "2.prems"(2) by simp_all
  obtain b1 p where b1: "fetch_page b pid = (b1, Inr p)" "pool_inv b1" "pool_view b1 = pool_view b"
    "page_ok pid p" "pool_view b pid = page_sig p" "holds b1 pid p"
    "pins b1 = (\<lambda>_. 0)(pid := 1)" "dk_num_pages (bp_disk b1) = dk_num_pages (bp_disk b)"
    "bp_size b1 = bp_size b"
    by (rule visit [OF "2.prems"(1) pid(1)])
  have two: "2 \<le> bp_size b1" using "2.prems"(1) b1(9) by (simp add: ready_def)
  have tight: "tight_header (pg_header p)" using pid(2) b1(5) by simp
  show ?case
  proof (cases "int (length rec) + SLOT_SIZE \<le> ph_free_space (pg_header p)")
    case True
    obtain p' k where p': "insert_record p rec = (p', Some k)" "page_ok pid p'" "read_record p k = None"
      "read_record p' = (read_record p)(k \<mapsto> rec)" "tight_header (pg_header p')"
      "ph_next_page (pg_header p') = ph_next_page (pg_header p)"
      by (rule insert_page_ok [OF b1(4) tight "2.prems"(3) True])
    obtain b2 where b2: "unpin_page (put_page b1 pid p') pid True = (b2, True)" "ready b2"
      "pool_view b2 = (pool_view b1)(pid := page_sig p')" "bp_disk b2 = bp_disk b1"
      by (rule visit_put [OF b1(2,6,7) two p'(2)])
    have "try_pages (pid # pids) rec b = (b2, Inr (Some (RID pid k)))"
      using b1(1) p'(1) b2(1) by simp
    moreover have "bp_size b2 = bp_size b" using b2(1) b1(9)
      by (auto simp: unpin_page_def put_page_def set_header_def Let_def split: option.splits if_splits)
    ultimately show ?thesis
      using b1 p' b2 tight
      by (intro disjI1 exI [of _ b2] exI [of _ pid] exI [of _ k] exI [of _ "page_sig p'"]) simp
  next
    case False
    then have none: "insert_record p rec = (p, None)" using insert_record_refuse by simp
    obtain b2 where b2: "unpin_page b1 pid False = (b2, True)" "ready b2" "pool_view b2 = pool_view b1"
      "bp_disk b2 = bp_disk b1"
      by (rule visit_unpin [OF b1(2,6,7) two])
    have step: "try_pages (pid # pids) rec b = try_pages pids rec b2"
      using b1(1) none b2(1) by simp
    have sz: "bp_size b2 = bp_size b" using b2(1) b1(9)
      by (auto simp: unpin_page_def set_header_def Let_def split: option.splits if_splits)
    have pre: "\<forall>q \<in> set pids. in_file (fst (unpin_page b1 pid False)) q \<and>
        view_tight (pool_view (fst (unpin_page b1 pid False)) q)"
      using "2.prems"(2) b2 b1(3,8) by (simp add: in_file_def)
    have IH: "ready (fst (unpin_page b1 pid False))" using b2(1,2) by simp
    show ?thesis
      using "2.IH" [OF b1(1) [symmetric] refl none [symmetric] refl IH pre "2.prems"(3)]
        b2 b1(3,8) sz
      unfolding step by (simp, blast)
  qed
qed

section \<open>The chain of pages\<close>

fun chained :: "(int \<Rightarrow> int) \<Rightarrow> int list \<Rightarrow> bool" where
  "chained f [] = True"
| "chained f [x] = (f x = INVALID_PAGE_ID)"
| "chained f (x # y # zs) = (f x = y \<and> chained f (y # zs))"

lemma chained_cong: "(\<And>x. x \<in> set xs \<Longrightarrow> f x = g x) \<Longrightarrow> chained f xs = chained g xs"
  by (induction f xs rule: chained.induct) auto

lemma chained_append:
  "xs \<noteq> [] \<Longrightarrow> distinct (xs @ [n]) \<Longrightarrow> chained f xs \<Longrightarrow> f' (last xs) = n \<Longrightarrow> f' n = INVALID_PAGE_ID \<Longrightarrow>
   (\<And>x. x \<in> set xs \<Longrightarrow> x \<noteq> last xs \<Longrightarrow> f' x = f x) \<Longrightarrow> chained f' (xs @ [n])"
proof (induction f xs rule: chained.induct)
  case (3 f x y zs)
  have "last (y # zs) \<in> set (y # zs)" by (rule last_in_set) simp
  then have "x \<noteq> last (y # zs)" using "3.prems"(2) by auto
  then have "f' x = y" using "3.prems"(3,6) by simp
  moreover have "chained f' ((y # zs) @ [n])"
    by (rule "3.IH") (use "3.prems" in simp_all)
  ultimately show ?case by simp
qed auto

definition heap_inv :: "pool \<Rightarrow> heap_file \<Rightarrow> bool" where
  "heap_inv b hf =
     (ready b \<and> hf_page_ids hf \<noteq> [] \<and> distinct (hf_page_ids hf) \<and>
      dk_num_pages (bp_disk b) \<le> INVALID_PAGE_ID \<and>
      (\<forall>pid \<in> set (hf_page_ids hf). in_file b pid) \<and>
      chained (\<lambda>pid. view_next (pool_view b pid)) (hf_page_ids hf))"

definition heap_tight :: "pool \<Rightarrow> heap_file \<Rightarrow> bool" where
  "heap_tight b hf = (\<forall>pid \<in> set (hf_page_ids hf). view_tight (pool_view b pid))"

lemma set_next_page_ok:
  "page_ok pid q \<Longrightarrow> 0 \<le> n \<Longrightarrow> n < 256 ^ 4 \<Longrightarrow> page_ok pid (set_next n q)"
  "page_ok pid q \<Longrightarrow> 0 \<le> n \<Longrightarrow> n < 256 ^ 4 \<Longrightarrow> page_ok pid (set_prev n q)"
proof -
  have wf: "page_wf (set_next n q) = page_wf q" "page_wf (set_prev n q) = page_wf q"
    by (simp_all add: page_wf_def set_next_def set_prev_def dir_end_def accounted_def)
  show "page_ok pid q \<Longrightarrow> 0 \<le> n \<Longrightarrow> n < 256 ^ 4 \<Longrightarrow> page_ok pid (set_next n q)"
    "page_ok pid q \<Longrightarrow> 0 \<le> n \<Longrightarrow> n < 256 ^ 4 \<Longrightarrow> page_ok pid (set_prev n q)"
    using hdr_ok_wf [of q] hdr_ok_wf [of "set_next n q"] hdr_ok_wf [of "set_prev n q"] wf
    by (auto simp: page_ok_def set_next_def set_prev_def)
qed

lemma read_record_links [simp]:
  "read_record (set_next n q) = read_record q" "read_record (set_prev n q) = read_record q"
  by (auto simp: read_record_def set_next_def set_prev_def Let_def fun_eq_iff)

text \<open>Storing into one frame and unpinning another commute.\<close>

lemma unpin_put_other:
  assumes "unpin_page b pid d = (b', True)"
  shows "unpin_page (put_page b n p) pid d = (put_page b' n p, True)"
  using assms
  by (auto simp: unpin_page_def put_page_def set_header_def Let_def split: option.splits if_splits)

lemma put_put_same: "put_page (put_page b n p) n q = put_page b n q"
  by (auto simp: put_page_def split: option.split)

lemma grow_file:
  assumes inv: "heap_inv b hf" and small: "dk_num_pages (bp_disk b) + 1 \<le> INVALID_PAGE_ID"
    and rec: "rec \<noteq> []" "int (length rec) + SLOT_SIZE \<le> PAGE_SIZE - HEADER_SIZE"
  defines "n \<equiv> dk_num_pages (bp_disk b)"
  obtains b2 p b3 p1 p2 k b4 where "new_page b HEAP_DATA = (b2, Inr p)" "ph_page_id (pg_header p) = n"
    "link_page (hf_page_ids hf) n p b2 = (b3, Inr p1)" "insert_record p1 rec = (p2, Some k)"
    "unpin_page (put_page b3 n p2) n True = (b4, True)" "ready b4"
    "dk_num_pages (bp_disk b4) = n + 1"
    "view_records (pool_view b4 n) = [k \<mapsto> rec]" "view_tight (pool_view b4 n)"
    "view_next (pool_view b4 n) = INVALID_PAGE_ID"
    "view_next (pool_view b4 (last (hf_page_ids hf))) = n"
    "\<And>q. q \<noteq> n \<Longrightarrow> view_records (pool_view b4 q) = view_records (pool_view b q) \<and>
       view_tight (pool_view b4 q) = view_tight (pool_view b q) \<and>
       (q \<noteq> last (hf_page_ids hf) \<longrightarrow> pool_view b4 q = pool_view b q)"
proof -
  let ?prev = "last (hf_page_ids hf)"
  have rdy: "pool_inv b" "pins b = (\<lambda>_. 0)" "2 \<le> bp_size b" "has_room b"
    using inv room_when_unpinned [of b 0] by (simp_all add: heap_inv_def ready_def)
  have n: "0 \<le> n" "n < 256 ^ 4" "n + 1 \<le> INVALID_PAGE_ID"
    using small rdy(1) by (simp_all add: n_def INVALID_PAGE_ID_def pool_inv_def disk_ok_def disk_wf_def)
  have prev: "hf_page_ids hf \<noteq> []" "in_file b ?prev" using inv by (simp_all add: heap_inv_def)
  have pn: "?prev \<noteq> n" "0 \<le> ?prev" "?prev < 256 ^ 4" "?prev < n"
    using prev(2) n by (simp_all add: in_file_def n_def)
  obtain b2 p where b2: "new_page b HEAP_DATA = (b2, Inr p)" "pool_inv b2"
    "pool_view b2 = (pool_view b)(n := page_sig p)" "page_ok n p"
    "page_sig p = Some (\<lambda>_. None, header_init n HEAP_DATA)"
    "pins b2 = (pins b)(n := 1)" "dk_num_pages (bp_disk b2) = n + 1" "bp_size b2 = bp_size b"
    using new_page_facts [OF rdy(1,4), of HEAP_DATA] n(2) unfolding n_def by metis
  have id: "ph_page_id (pg_header p) = n" using b2(4) by (simp add: page_ok_def)
  have room2: "has_room b2"
    by (rule room_when_unpinned [OF b2(2), of n]) (use b2(6,8) rdy(2,3) in simp_all)
  obtain b3 q where b3: "fetch_page b2 ?prev = (b3, Inr q)" "pool_inv b3" "pool_view b3 = pool_view b2"
    "page_ok ?prev q" "page_sig q = pool_view b2 ?prev" "pins b3 = (pins b2)(?prev := pins b2 ?prev + 1)"
    "dk_num_pages (bp_disk b3) = n + 1" "bp_size b3 = bp_size b"
    by (rule fetch_facts [OF b2(2) pn(2)]) (use pn(4) b2(7,8) room2 in \<open>simp_all\<close>)
  define q' where "q' = set_next n q"
  define p1 where "p1 = set_prev ?prev p"
  have q': "page_ok ?prev q'" using set_next_page_ok(1) [OF b3(4) n(1,2)] by (simp add: q'_def)
  have p1: "page_ok n p1" using set_next_page_ok(2) [OF b2(4) pn(2,3)] by (simp add: p1_def)
  have hp: "(pg_header p)\<lparr>ph_checksum := 0\<rparr> = header_init n HEAP_DATA" "read_record p = (\<lambda>_. None)"
    using b2(5) by (simp_all add: page_sig_def)
  have hp': "ph_free_space (pg_header p) = 4064" "ph_data_end (pg_header p) = 4096"
    "ph_num_slots (pg_header p) = 0" "ph_next_page (pg_header p) = INVALID_PAGE_ID"
    using arg_cong [OF hp(1), of ph_free_space] arg_cong [OF hp(1), of ph_data_end]
      arg_cong [OF hp(1), of ph_num_slots] arg_cong [OF hp(1), of ph_next_page]
    by (simp_all add: header_init_def page_consts)
  have p1h: "tight_header (pg_header p1)" "int (length rec) + SLOT_SIZE \<le> ph_free_space (pg_header p1)"
    "ph_next_page (pg_header p1) = INVALID_PAGE_ID"
    using hp' rec(2) by (simp_all add: p1_def set_prev_def tight_header_def page_consts)
  have p1r: "read_record p1 = (\<lambda>_. None)" using hp(2) by (simp add: p1_def)
  obtain p2 k where p2: "insert_record p1 rec = (p2, Some k)" "page_ok n p2"
    "read_record p2 = (read_record p1)(k \<mapsto> rec)" "tight_header (pg_header p2)"
    "ph_next_page (pg_header p2) = ph_next_page (pg_header p1)"
    by (rule insert_page_ok [OF p1 p1h(1) rec(1) p1h(2)])
  have pin3: "pins b3 = (\<lambda>_. 0)(n := 1, ?prev := 1)" using b3(6) b2(6) rdy(2) pn(1) by simp
  have "0 < pins b3 ?prev" using pin3 by simp
  then obtain b3' where b3': "unpin_page (put_page b3 ?prev q') ?prev True = (b3', True)" "pool_inv b3'"
    "pool_view b3' = (pool_view b3)(?prev := page_sig q')"
    "pins b3' = (pins b3)(?prev := pins b3 ?prev - 1)" "bp_disk b3' = bp_disk b3" "bp_size b3' = bp_size b3"
    by (rule put_unpin_facts [OF b3(2) _ q'])
  have pin3': "pins b3' = (\<lambda>_. 0)(n := 1)" using b3'(4) pin3 pn(1) by (auto simp: fun_eq_iff)
  then have "0 < pins b3' n" by simp
  then obtain b4 where b4: "unpin_page (put_page b3' n p2) n True = (b4, True)" "pool_inv b4"
    "pool_view b4 = (pool_view b3')(n := page_sig p2)"
    "pins b4 = (pins b3')(n := pins b3' n - 1)" "bp_disk b4 = bp_disk b3'" "bp_size b4 = bp_size b3'"
    by (rule put_unpin_facts [OF b3'(2) _ p2(2)])
  have ready4: "ready b4"
    using b4(2,4,6) pin3' b3'(6) b3(8) rdy(3) by (simp add: ready_def fun_upd_idem)
  have link: "link_page (hf_page_ids hf) n p b2 = (put_page b3' n p1, Inr p1)"
    using prev(1) b3(1) unpin_put_other [OF b3'(1), of n p1]
    by (simp add: link_page_def Let_def q'_def p1_def)
  have "unpin_page (put_page (put_page b3' n p1) n p2) n True = (b4, True)"
    using b4(1) by (simp add: put_put_same)
  moreover have "view_records (pool_view b4 n) = [k \<mapsto> rec]" "view_tight (pool_view b4 n)"
    "view_next (pool_view b4 n) = INVALID_PAGE_ID"
    using b4(3) p2(3-5) p1h p1r by simp_all
  moreover have v: "pool_view b4 x = ((pool_view b)(?prev := page_sig q')) x" if "x \<noteq> n" for x
    using b4(3) b3'(3) b3(3) b2(3) that by simp
  moreover have "view_next (pool_view b4 ?prev) = n" using v pn(1) by (simp add: q'_def set_next_def)
  moreover have "view_records (pool_view b4 x) = view_records (pool_view b x) \<and>
       view_tight (pool_view b4 x) = view_tight (pool_view b x) \<and>
       (x \<noteq> ?prev \<longrightarrow> pool_view b4 x = pool_view b x)" if "x \<noteq> n" for x
  proof (cases "x = ?prev")
    case True
    have "pool_view b x = page_sig q" using b3(5) b2(3) pn(1) True by simp
    then show ?thesis using v [OF that] True by (simp add: q'_def) (simp add: set_next_def tight_header_def)
  next
    case False
    then show ?thesis using v [OF that] by simp
  qed
  ultimately show thesis
    using that [OF b2(1) id link p2(1)] ready4 b4(5) b3'(5) b3(7) by simp
qed

section \<open>Properties of a table file\<close>

lemma heap_ids_below:
  "heap_inv b hf \<Longrightarrow> pid \<in> set (hf_page_ids hf) \<Longrightarrow> pid \<noteq> dk_num_pages (bp_disk b)"
  by (auto simp: heap_inv_def in_file_def)

lemma heap_insert_correct:
  assumes inv: "heap_inv b hf" and tight: "heap_tight b hf"
    and small: "dk_num_pages (bp_disk b) < INVALID_PAGE_ID"
    and ser: "record_serialize rt (hf_schema hf) vs = Inr rec" "rec \<noteq> []"
    and len: "int (length rec) + SLOT_SIZE \<le> PAGE_SIZE - HEADER_SIZE"
  shows "\<exists>b' hf' rid. heap_insert rt hf b vs = (b', hf', Inr rid) \<and> heap_inv b' hf' \<and>
    heap_tight b' hf' \<and> hf_schema hf' = hf_schema hf \<and> heap_contents b hf rid = None \<and>
    heap_contents b' hf' = (heap_contents b hf)(rid \<mapsto> rec) \<and>
    set (hf_page_ids hf) \<subseteq> set (hf_page_ids hf') \<and>
    set (hf_page_ids hf') \<subseteq> set (hf_page_ids hf) \<union> {dk_num_pages (bp_disk b)..<dk_num_pages (bp_disk b')} \<and>
    dk_num_pages (bp_disk b) \<le> dk_num_pages (bp_disk b') \<and>
    dk_num_pages (bp_disk b') \<le> dk_num_pages (bp_disk b) + 1 \<and>
    (\<forall>q. q \<notin> set (hf_page_ids hf') \<longrightarrow> pool_view b' q = pool_view b q)"
proof -
  have rdy: "ready b" using inv by (simp add: heap_inv_def)
  have all: "\<forall>pid \<in> set (hf_page_ids hf). in_file b pid \<and> view_tight (pool_view b pid)"
    using inv tight by (simp add: heap_inv_def heap_tight_def)
  from try_pages_facts [OF rdy all ser(2)] show ?thesis
  proof (elim disjE exE conjE)
    fix b' pid k v
    assume t: "try_pages (hf_page_ids hf) rec b = (b', Inr (Some (RID pid k)))" "pid \<in> set (hf_page_ids hf)"
      "ready b'" "bp_size b' = bp_size b" "dk_num_pages (bp_disk b') = dk_num_pages (bp_disk b)"
      "pool_view b' = (pool_view b)(pid := v)" "view_records (pool_view b pid) k = None"
      "view_records v = (view_records (pool_view b pid))(k \<mapsto> rec)" "view_tight v"
      "view_next v = view_next (pool_view b pid)"
    have "heap_insert rt hf b vs = (b', hf, Inr (RID pid k))"
      using ser(1) t(1) by (simp add: heap_insert_def)
    moreover have "chained (\<lambda>q. view_next (pool_view b' q)) (hf_page_ids hf)"
      using inv t(6,10) chained_cong [of "hf_page_ids hf" "\<lambda>q. view_next (pool_view b' q)" "\<lambda>q. view_next (pool_view b q)"]
      by (simp add: heap_inv_def)
    then have "heap_inv b' hf"
      using inv t(3,5) by (simp add: heap_inv_def in_file_def)
    moreover have "heap_tight b' hf" using tight t(6,9) by (simp add: heap_tight_def)
    moreover have "heap_contents b hf (RID pid k) = None" using t(2,7) by (simp add: heap_contents_def)
    moreover have "heap_contents b' hf rid = ((heap_contents b hf)(RID pid k \<mapsto> rec)) rid" for rid
      using t(2,6,8) by (cases rid) (simp add: heap_contents_def)
    moreover have "\<forall>q. q \<notin> set (hf_page_ids hf) \<longrightarrow> pool_view b' q = pool_view b q"
      using t(2,6) by auto
    ultimately show ?thesis using t(5) by (intro exI conjI) (assumption | rule refl ext | simp | blast)+
  next
    fix b'
    assume t: "try_pages (hf_page_ids hf) rec b = (b', Inr None)" "ready b'" "bp_size b' = bp_size b"
      "dk_num_pages (bp_disk b') = dk_num_pages (bp_disk b)" "pool_view b' = pool_view b"
    have inv': "heap_inv b' hf" using inv t by (simp add: heap_inv_def in_file_def)
    let ?n = "dk_num_pages (bp_disk b')"
    have small': "?n + 1 \<le> INVALID_PAGE_ID" using small t(4) by simp
    obtain b2 p b3 p1 p2 k b4 where g: "new_page b' HEAP_DATA = (b2, Inr p)" "ph_page_id (pg_header p) = ?n"
      "link_page (hf_page_ids hf) ?n p b2 = (b3, Inr p1)" "insert_record p1 rec = (p2, Some k)"
      "unpin_page (put_page b3 ?n p2) ?n True = (b4, True)" "ready b4"
      "dk_num_pages (bp_disk b4) = ?n + 1"
      "view_records (pool_view b4 ?n) = [k \<mapsto> rec]" "view_tight (pool_view b4 ?n)"
      "view_next (pool_view b4 ?n) = INVALID_PAGE_ID"
      "view_next (pool_view b4 (last (hf_page_ids hf))) = ?n"
      "\<And>q. q \<noteq> ?n \<Longrightarrow> view_records (pool_view b4 q) = view_records (pool_view b' q) \<and>
         view_tight (pool_view b4 q) = view_tight (pool_view b' q) \<and>
         (q \<noteq> last (hf_page_ids hf) \<longrightarrow> pool_view b4 q = pool_view b' q)"
      by (rule grow_file [OF inv' small' ser(2) len]) blast
    define hf' where "hf' = hf\<lparr>hf_page_ids := hf_page_ids hf @ [?n]\<rparr>"
    have run: "heap_insert rt hf b vs = (b4, hf', Inr (RID ?n k))"
      using ser(1) t(1) g(1-5) by (simp add: heap_insert_def Let_def hf'_def)
    have fresh: "?n \<notin> set (hf_page_ids hf)" using heap_ids_below [OF inv'] by blast
    have other: "view_next (pool_view b4 x) = view_next (pool_view b' x)"
      if "x \<in> set (hf_page_ids hf)" "x \<noteq> last (hf_page_ids hf)" for x
      using g(12) [of x] fresh that by metis
    have "0 \<le> ?n" using inv' by (simp add: heap_inv_def ready_def pool_inv_def disk_ok_def disk_wf_def)
    moreover have "chained (\<lambda>q. view_next (pool_view b4 q)) (hf_page_ids hf @ [?n])"
      by (rule chained_append [where f = "\<lambda>q. view_next (pool_view b' q)"])
        (use inv' fresh g(10,11) other in \<open>simp_all add: heap_inv_def\<close>)
    ultimately have "heap_inv b4 hf'"
      using inv' fresh g(6,7) small' by (auto simp: heap_inv_def hf'_def in_file_def)
    moreover have "heap_tight b4 hf'"
      using tight t(5) g(9,12) fresh by (auto simp: heap_tight_def hf'_def) metis
    moreover have "heap_contents b hf (RID ?n k) = None" using fresh by (simp add: heap_contents_def)
    moreover have "heap_contents b4 hf' rid = ((heap_contents b hf)(RID ?n k \<mapsto> rec)) rid" for rid
      using g(8,12) t(5) fresh by (cases rid) (auto simp: heap_contents_def hf'_def)
    moreover have "hf_schema hf' = hf_schema hf" by (simp add: hf'_def)
    moreover have "\<forall>q. q \<notin> set (hf_page_ids hf') \<longrightarrow> pool_view b4 q = pool_view b q"
    proof (intro allI impI)
      fix q assume "q \<notin> set (hf_page_ids hf')"
      moreover have "last (hf_page_ids hf) \<in> set (hf_page_ids hf)" using inv by (simp add: heap_inv_def)
      ultimately have "q \<noteq> ?n" "q \<noteq> last (hf_page_ids hf)" by (auto simp: hf'_def)
      then show "pool_view b4 q = pool_view b q" using g(12) t(5) by simp
    qed
    moreover have "set (hf_page_ids hf) \<subseteq> set (hf_page_ids hf')"
      "set (hf_page_ids hf') \<subseteq> set (hf_page_ids hf) \<union> {dk_num_pages (bp_disk b)..<dk_num_pages (bp_disk b4)}"
      using t(4) g(7) by (auto simp: hf'_def)
    ultimately show ?thesis using run g(7) t(4) by (intro exI conjI) (assumption | rule ext | simp)+
  qed
qed

lemma put_same:
  assumes "holds b pid p"
  shows "put_page b pid p = b"
proof -
  obtain i where i: "bp_table b pid = Some i" "bp_frames b ! i = Some p"
    using assms by (auto simp: holds_def)
  have "(bp_frames b)[i := Some p] = bp_frames b" using list_update_id [of "bp_frames b" i] i(2) by simp
  then show ?thesis using i(1) by (cases b) (simp add: put_page_def)
qed

lemma heap_read_correct:
  assumes inv: "heap_inv b hf" and rid: "rid_page rid \<in> set (hf_page_ids hf)"
  obtains b' where "heap_read rt hf b rid = (b', case heap_contents b hf rid of None \<Rightarrow> Inr None
      | Some data \<Rightarrow> bindr (record_deserialize rt (hf_schema hf) data) (\<lambda>vs. Inr (Some vs)))"
    "heap_inv b' hf" "pool_view b' = pool_view b"
proof -
  have rdy: "ready b" "in_file b (rid_page rid)" using inv rid by (simp_all add: heap_inv_def)
  obtain b1 p where b1: "fetch_page b (rid_page rid) = (b1, Inr p)" "pool_inv b1" "pool_view b1 = pool_view b"
    "page_ok (rid_page rid) p" "pool_view b (rid_page rid) = page_sig p" "holds b1 (rid_page rid) p"
    "pins b1 = (\<lambda>_. 0)(rid_page rid := 1)" "dk_num_pages (bp_disk b1) = dk_num_pages (bp_disk b)"
    "bp_size b1 = bp_size b"
    by (rule visit [OF rdy])
  have two: "2 \<le> bp_size b1" using rdy(1) b1(9) by (simp add: ready_def)
  obtain b2 where b2: "unpin_page b1 (rid_page rid) False = (b2, True)" "ready b2"
    "pool_view b2 = pool_view b1" "bp_disk b2 = bp_disk b1"
    by (rule visit_unpin [OF b1(2,6,7) two])
  have "heap_inv b2 hf" using inv b1(3,8) b2 by (simp add: heap_inv_def in_file_def)
  moreover have "heap_contents b hf rid = read_record p (rid_slot rid)"
    using rid b1(5) by (simp add: heap_contents_def)
  ultimately show thesis using that b1(1,3) b2(1,3) by (simp add: heap_read_def)
qed

lemma delete_page_ok:
  assumes ok: "page_ok pid p"
  shows "page_ok pid (fst (delete_record p i))"
    and "ph_next_page (pg_header (fst (delete_record p i))) = ph_next_page (pg_header p)"
proof -
  have wf: "page_wf p" "page_wf (fst (delete_record p i))"
    using ok delete_record_wf by (simp_all add: page_ok_def)
  have h: "pg_header (fst (delete_record p i)) = (if live p i then
      (pg_header p)\<lparr>ph_free_space := ph_free_space (pg_header p) + se_length (pg_slots p ! i),
        ph_flags := ph_flags (pg_header p) OR FLAG_DIRTY\<rparr> else pg_header p)"
    by (simp add: delete_record_live delete_record_dead)
  then show "ph_next_page (pg_header (fst (delete_record p i))) = ph_next_page (pg_header p)" by simp
  show "page_ok pid (fst (delete_record p i))"
    using ok hdr_ok_wf [OF wf(1)] hdr_ok_wf [OF wf(2)] or_flag_byte [of "ph_flags (pg_header p)"] wf(2)
    unfolding page_ok_def h by (simp split: if_splits)
qed

lemma heap_delete_correct:
  assumes inv: "heap_inv b hf" and rid: "rid_page rid \<in> set (hf_page_ids hf)"
  shows "\<exists>b'. heap_delete hf b rid = (b', Inr (heap_contents b hf rid \<noteq> None)) \<and> heap_inv b' hf \<and>
    heap_contents b' hf = (heap_contents b hf)(rid := None) \<and>
    dk_num_pages (bp_disk b') = dk_num_pages (bp_disk b) \<and>
    (\<forall>q. q \<notin> set (hf_page_ids hf) \<longrightarrow> pool_view b' q = pool_view b q)"
proof -
  let ?pid = "rid_page rid"
  have rdy: "ready b" "in_file b ?pid" using inv rid by (simp_all add: heap_inv_def)
  obtain b1 p where b1: "fetch_page b ?pid = (b1, Inr p)" "pool_inv b1" "pool_view b1 = pool_view b"
    "page_ok ?pid p" "pool_view b ?pid = page_sig p" "holds b1 ?pid p"
    "pins b1 = (\<lambda>_. 0)(?pid := 1)" "dk_num_pages (bp_disk b1) = dk_num_pages (bp_disk b)"
    "bp_size b1 = bp_size b"
    by (rule visit [OF rdy])
  have two: "2 \<le> bp_size b1" using rdy(1) b1(9) by (simp add: ready_def)
  have cont: "heap_contents b hf rid = read_record p (rid_slot rid)"
    using rid b1(5) by (simp add: heap_contents_def)
  obtain p1 ok where d: "delete_record p (rid_slot rid) = (p1, ok)" by (cases "delete_record p (rid_slot rid)")
  have ok: "ok = (read_record p (rid_slot rid) \<noteq> None)"
    using slotted.del_found [of p "rid_slot rid"] d by simp
  have p1: "page_ok ?pid p1" "ph_next_page (pg_header p1) = ph_next_page (pg_header p)"
    "read_record p1 = (read_record p)(rid_slot rid := None)"
    using delete_page_ok [OF b1(4), of "rid_slot rid"] delete_record_map [of p "rid_slot rid"] d by simp_all
  have "\<exists>b2. unpin_page (put_page b1 ?pid p1) ?pid ok = (b2, True) \<and> ready b2 \<and>
      pool_view b2 = (pool_view b)(?pid := page_sig p1) \<and> bp_disk b2 = bp_disk b1"
  proof (cases ok)
    case True
    then show ?thesis using visit_put [OF b1(2,6,7) two p1(1)] b1(3) by metis
  next
    case False
    then have "\<not> live p (rid_slot rid)" using ok read_record_live_iff by blast
    then have "p1 = p" using d by (simp add: delete_record_dead)
    moreover obtain b2 where "unpin_page b1 ?pid False = (b2, True)" "ready b2"
      "pool_view b2 = pool_view b1" "bp_disk b2 = bp_disk b1"
      by (rule visit_unpin [OF b1(2,6,7) two])
    ultimately show ?thesis using False put_same [OF b1(6)] b1(3,5) by (simp add: fun_upd_idem)
  qed
  then obtain b2 where b2: "unpin_page (put_page b1 ?pid p1) ?pid ok = (b2, True)" "ready b2"
    "pool_view b2 = (pool_view b)(?pid := page_sig p1)" "bp_disk b2 = bp_disk b1" by blast
  have "chained (\<lambda>q. view_next (pool_view b2 q)) (hf_page_ids hf)"
    using inv b2(3) b1(5) p1(2)
      chained_cong [of "hf_page_ids hf" "\<lambda>q. view_next (pool_view b2 q)" "\<lambda>q. view_next (pool_view b q)"]
    by (simp add: heap_inv_def)
  then have "heap_inv b2 hf" using inv b1(8) b2(2,4) by (simp add: heap_inv_def in_file_def)
  moreover have "heap_contents b2 hf r = ((heap_contents b hf)(rid := None)) r" for r
    using b2(3) b1(5) p1(3) by (cases r; cases rid) (auto simp: heap_contents_def)
  moreover have "heap_delete hf b rid = (b2, Inr (heap_contents b hf rid \<noteq> None))"
    using b1(1) d b2(1) ok cont by (simp add: heap_delete_def)
  moreover have "\<forall>q. q \<notin> set (hf_page_ids hf) \<longrightarrow> pool_view b2 q = pool_view b q" using b2(3) rid by auto
  ultimately show ?thesis using b1(8) b2(4) by (intro exI conjI) (assumption | rule ext | simp)+
qed

lemma live_length:
  assumes "page_wf p" "read_record p i = Some old"
  shows "live p i" "se_length (pg_slots p ! i) = int (length old)"
proof -
  show lv: "live p i" using assms(2) read_record_live_iff [of p i] by simp
  have "slot_in (ph_data_end (pg_header p)) (pg_slots p ! i)" "int (length (pg_data p)) = PAGE_SIZE"
    using lv assms(1) by (simp_all add: page_wf_def live_def)
  moreover have "old = slot_bytes (pg_data p) (pg_slots p ! i)"
    using assms(2) by (auto simp: read_record_def Let_def split: if_splits)
  ultimately show "se_length (pg_slots p ! i) = int (length old)" using slot_bytes_length by metis
qed

text \<open>A record that is replaced by one that is no longer stays in its place.\<close>

lemma update_page_ok:
  assumes ok: "page_ok pid p" and old: "read_record p i = Some old" and rec: "rec \<noteq> []" "length rec \<le> length old"
  shows "\<exists>p'. update_record p i rec = (p', True) \<and> page_ok pid p' \<and> read_record p' = (read_record p)(i \<mapsto> rec) \<and>
    ph_next_page (pg_header p') = ph_next_page (pg_header p) \<and>
    (length rec = length old \<longrightarrow> tight_header (pg_header p') = tight_header (pg_header p))"
proof -
  have wf: "page_wf p" using ok by (simp add: page_ok_def)
  note lv = live_length [OF wf old]
  have le: "int (length rec) \<le> se_length (pg_slots p ! i)" using lv(2) rec(2) by simp
  let ?p = "fst (update_record p i rec)"
  note up = update_shrink [OF wf lv(1) le rec(1)]
  have h: "pg_header ?p = (pg_header p)\<lparr>ph_free_space := ph_free_space (pg_header p) + (int (length old) - int (length rec)),
      ph_flags := ph_flags (pg_header p) OR FLAG_DIRTY\<rparr>"
    using lv le by (auto simp: update_record_def Let_def live_def)
  have "page_ok pid ?p"
    using ok hdr_ok_wf [OF wf] hdr_ok_wf [OF up(2)] or_flag_byte [of "ph_flags (pg_header p)"] up(2)
    unfolding page_ok_def h by simp
  moreover have "update_record p i rec = (?p, True)" using up(1) by (simp add: prod_eq_iff)
  moreover have "read_record ?p = (read_record p)(i \<mapsto> rec)" using up(3) by (simp add: fun_eq_iff)
  moreover have "ph_next_page (pg_header ?p) = ph_next_page (pg_header p)" by (simp add: h)
  moreover have "length rec = length old \<longrightarrow> tight_header (pg_header ?p) = tight_header (pg_header p)"
    by (simp add: h tight_header_def)
  ultimately show ?thesis by blast
qed

lemma heap_update_correct:
  assumes inv: "heap_inv b hf" and old: "heap_contents b hf rid = Some old"
    and ser: "record_serialize rt (hf_schema hf) vs = Inr rec" "rec \<noteq> []" "length rec \<le> length old"
  shows "\<exists>b'. heap_update rt hf b rid vs = (b', Inr True) \<and> heap_inv b' hf \<and>
    heap_contents b' hf = (heap_contents b hf)(rid \<mapsto> rec) \<and>
    dk_num_pages (bp_disk b') = dk_num_pages (bp_disk b) \<and>
    (\<forall>q. q \<noteq> rid_page rid \<longrightarrow> pool_view b' q = pool_view b q) \<and>
    (length rec = length old \<longrightarrow> heap_tight b hf \<longrightarrow> heap_tight b' hf)"
proof -
  let ?pid = "rid_page rid"
  have rid: "?pid \<in> set (hf_page_ids hf)" using old by (auto simp: heap_contents_def split: if_splits)
  have rdy: "ready b" "in_file b ?pid" using inv rid by (simp_all add: heap_inv_def)
  obtain b1 p where b1: "fetch_page b ?pid = (b1, Inr p)" "pool_inv b1" "pool_view b1 = pool_view b"
    "page_ok ?pid p" "pool_view b ?pid = page_sig p" "holds b1 ?pid p"
    "pins b1 = (\<lambda>_. 0)(?pid := 1)" "dk_num_pages (bp_disk b1) = dk_num_pages (bp_disk b)"
    "bp_size b1 = bp_size b"
    by (rule visit [OF rdy])
  have two: "2 \<le> bp_size b1" using rdy(1) b1(9) by (simp add: ready_def)
  have "read_record p (rid_slot rid) = Some old" using old rid b1(5) by (simp add: heap_contents_def)
  then obtain p1 where p1: "update_record p (rid_slot rid) rec = (p1, True)" "page_ok ?pid p1"
    "read_record p1 = (read_record p)(rid_slot rid \<mapsto> rec)" "ph_next_page (pg_header p1) = ph_next_page (pg_header p)"
    "length rec = length old \<longrightarrow> tight_header (pg_header p1) = tight_header (pg_header p)"
    using update_page_ok [OF b1(4) _ ser(2,3)] by blast
  obtain b2 where b2: "unpin_page (put_page b1 ?pid p1) ?pid True = (b2, True)" "ready b2"
    "pool_view b2 = (pool_view b1)(?pid := page_sig p1)" "bp_disk b2 = bp_disk b1"
    by (rule visit_put [OF b1(2,6,7) two p1(2)])
  have "chained (\<lambda>q. view_next (pool_view b2 q)) (hf_page_ids hf)"
    using inv b2(3) b1(3,5) p1(4)
      chained_cong [of "hf_page_ids hf" "\<lambda>q. view_next (pool_view b2 q)" "\<lambda>q. view_next (pool_view b q)"]
    by (simp add: heap_inv_def)
  then have "heap_inv b2 hf" using inv b1(8) b2(2,4) by (simp add: heap_inv_def in_file_def)
  moreover have "heap_contents b2 hf r = ((heap_contents b hf)(rid \<mapsto> rec)) r" for r
    using b2(3) b1(3,5) p1(3) rid by (cases r; cases rid) (auto simp: heap_contents_def)
  moreover have "heap_update rt hf b rid vs = (b2, Inr True)"
    using b1(1) p1(1) b2(1) ser(1) by (simp add: heap_update_def)
  moreover have "heap_tight b2 hf" if "length rec = length old" "heap_tight b hf"
    using that p1(5) b2(3) b1(3,5) by (auto simp: heap_tight_def)
  moreover have "\<forall>q. q \<noteq> ?pid \<longrightarrow> pool_view b2 q = pool_view b q" using b2(3) b1(3) by simp
  ultimately show ?thesis using b1(8) b2(4) by (intro exI conjI) (assumption | rule ext | simp)+
qed

lemma load_page_chain_correct:
  assumes "ready b" "\<forall>pid \<in> set ids. in_file b pid \<and> pid \<noteq> INVALID_PAGE_ID"
    "chained (\<lambda>pid. view_next (pool_view b pid)) ids" "ids \<noteq> []"
  shows "\<exists>b'. load_page_chain b (hd ids) acc = Some (b', Inr (acc @ ids)) \<and> ready b' \<and>
    pool_view b' = pool_view b \<and> dk_num_pages (bp_disk b') = dk_num_pages (bp_disk b)"
  using assms
proof (induction ids arbitrary: b acc)
  case (Cons pid ids)
  have pid: "in_file b pid" "pid \<noteq> INVALID_PAGE_ID" using Cons.prems(2) by simp_all
  obtain b1 p where b1: "fetch_page b pid = (b1, Inr p)" "pool_inv b1" "pool_view b1 = pool_view b"
    "page_ok pid p" "pool_view b pid = page_sig p" "holds b1 pid p"
    "pins b1 = (\<lambda>_. 0)(pid := 1)" "dk_num_pages (bp_disk b1) = dk_num_pages (bp_disk b)"
    "bp_size b1 = bp_size b"
    by (rule visit [OF Cons.prems(1) pid(1)])
  have two: "2 \<le> bp_size b1" using Cons.prems(1) b1(9) by (simp add: ready_def)
  obtain b2 where b2: "unpin_page b1 pid False = (b2, True)" "ready b2"
    "pool_view b2 = pool_view b1" "bp_disk b2 = bp_disk b1"
    by (rule visit_unpin [OF b1(2,6,7) two])
  have step: "load_page_chain b pid acc = load_page_chain b2 (ph_next_page (pg_header p)) (acc @ [pid])"
    using pid(2) b1(1) b2(1) by (subst load_page_chain.simps) (simp add: Let_def)
  show ?case
  proof (cases ids)
    case Nil
    then have "ph_next_page (pg_header p) = INVALID_PAGE_ID" using Cons.prems(3) b1(5) by simp
    then show ?thesis using step Nil b1(3,8) b2(2-4)
      by (simp add: load_page_chain.simps [of b2 INVALID_PAGE_ID])
  next
    case (Cons q qs)
    then have next_q: "ph_next_page (pg_header p) = q" using Cons.prems(3) b1(5) by simp
    have chain: "chained (\<lambda>pid. view_next (pool_view b2 pid)) ids"
      using Cons.prems(3) Cons b1(3) b2(3) by simp
    have rng: "\<forall>x \<in> set ids. in_file b2 x \<and> x \<noteq> INVALID_PAGE_ID"
      using Cons.prems(2) b1(8) b2(4) by (simp add: in_file_def)
    obtain b3 where "load_page_chain b2 (hd ids) (acc @ [pid]) = Some (b3, Inr ((acc @ [pid]) @ ids))"
      "ready b3" "pool_view b3 = pool_view b2" "dk_num_pages (bp_disk b3) = dk_num_pages (bp_disk b2)"
      using Cons.IH [OF b2(2) rng chain, of "acc @ [pid]"] Cons by auto
    then show ?thesis using step next_q Cons b1(3,8) b2(3,4) by simp
  qed
qed simp

text \<open>A fresh table.\<close>

lemma heap_create_correct:
  assumes "ready b" "dk_num_pages (bp_disk b) < INVALID_PAGE_ID"
  shows "\<exists>b' hf. heap_create s b = (b', Inr hf) \<and> heap_inv b' hf \<and> heap_tight b' hf \<and>
    hf_schema hf = s \<and> heap_contents b' hf = Map.empty \<and> dk_num_pages (bp_disk b') = dk_num_pages (bp_disk b) + 1 \<and>
    hf_page_ids hf = [dk_num_pages (bp_disk b)] \<and>
    (\<forall>q. q \<noteq> dk_num_pages (bp_disk b) \<longrightarrow> pool_view b' q = pool_view b q)"
proof -
  let ?n = "dk_num_pages (bp_disk b)"
  have rdy: "pool_inv b" "pins b = (\<lambda>_. 0)" "2 \<le> bp_size b" "has_room b"
    using assms(1) room_when_unpinned [of b 0] by (simp_all add: ready_def)
  have n: "0 \<le> ?n" "?n < 256 ^ 4" using assms(2) rdy(1)
    by (simp_all add: INVALID_PAGE_ID_def pool_inv_def disk_ok_def disk_wf_def)
  obtain b1 p where b1: "new_page b HEAP_DATA = (b1, Inr p)" "pool_inv b1"
    "pool_view b1 = (pool_view b)(?n := page_sig p)" "page_ok ?n p"
    "page_sig p = Some (\<lambda>_. None, header_init ?n HEAP_DATA)" "holds b1 ?n p"
    "pins b1 = (pins b)(?n := 1)" "dk_num_pages (bp_disk b1) = ?n + 1" "bp_size b1 = bp_size b"
    by (rule new_page_facts [OF rdy(1,4) n(2), of HEAP_DATA]) blast
  have two: "2 \<le> bp_size b1" "pins b1 = (\<lambda>_. 0)(?n := 1)" using rdy b1(7,9) by simp_all
  obtain b2 where b2: "unpin_page (put_page b1 ?n p) ?n True = (b2, True)" "ready b2"
    "pool_view b2 = (pool_view b1)(?n := page_sig p)" "bp_disk b2 = bp_disk b1"
    by (rule visit_put [OF b1(2,6) two(2,1) b1(4)])
  have id: "ph_page_id (pg_header p) = ?n" using b1(4) by (simp add: page_ok_def)
  have run: "heap_create s b = (b2, Inr \<lparr>hf_schema = s, hf_page_ids = [?n]\<rparr>)"
    using b1(1) b2(1) put_same [OF b1(6)] id by (simp add: heap_create_def Let_def)
  have v: "pool_view b2 ?n = Some (\<lambda>_. None, header_init ?n HEAP_DATA)" using b2(3) b1(5) by simp
  then have "heap_inv b2 \<lparr>hf_schema = s, hf_page_ids = [?n]\<rparr>"
    using assms(2) n(1) b1(8) b2(2,4)
    by (simp add: heap_inv_def in_file_def view_next_def header_init_def)
  moreover have "heap_tight b2 \<lparr>hf_schema = s, hf_page_ids = [?n]\<rparr>"
    using v by (simp add: heap_tight_def view_tight_def tight_header_def header_init_def page_consts)
  moreover have "heap_contents b2 \<lparr>hf_schema = s, hf_page_ids = [?n]\<rparr> = Map.empty"
    using v by (auto simp: heap_contents_def view_records_def fun_eq_iff)
  ultimately show ?thesis using run b1(3,8) b2(3,4) by simp
qed

lemma new_pool_ready: "2 \<le> n \<Longrightarrow> ready (pool_new (disk_open None) n)"
  using pool_new_inv(1) [OF new_disk_ok] by (auto simp: ready_def pins_def pool_new_def fun_eq_iff)

lemma fresh_table:
  assumes "2 \<le> n"
  obtains b hf where "heap_create user_schema (pool_new (disk_open None) n) = (b, Inr hf)"
    "heap_inv b hf" "heap_tight b hf" "hf_schema hf = user_schema" "dk_num_pages (bp_disk b) = 1"
    "heap_contents b hf = Map.empty"
  using heap_create_correct [OF new_pool_ready [OF assms], of user_schema]
  by (auto simp: pool_new_def disk_open_new INVALID_PAGE_ID_def)

lemma user_row_length:
  "\<exists>rec. record_serialize rt user_schema [VInt 7, VNull, VBool True] = Inr rec \<and> length rec = 10"
  using int_serialize_nonneg [of 7]
  by (auto simp: record_serialize_def user_schema_def num_columns_def null_like_def is_null_value_def
      null_bitmap_size_def)

text \<open>
  Inserting a row that fits the schema and a page into a table file from which nothing was
  deleted succeeds with a record identifier that was free; as a map from identifiers to
  records the file changes there only, and reading that identifier returns the row.
\<close>

theorem heap_insert_read:
  assumes "heap_inv b hf" "heap_tight b hf" "dk_num_pages (bp_disk b) < INVALID_PAGE_ID"
    and "fits_schema (hf_schema hf) vs" "record_serialize rt (hf_schema hf) vs = Inr rec"
    and "0 < num_columns (hf_schema hf)" "int (length rec) \<le> 4060"
  shows "\<exists>b' hf' rid. heap_insert rt hf b vs = (b', hf', Inr rid) \<and> heap_inv b' hf' \<and>
    heap_tight b' hf' \<and> heap_contents b hf rid = None \<and>
    heap_contents b' hf' = (heap_contents b hf)(rid \<mapsto> rec) \<and>
    snd (heap_read rt hf' b' rid) = Inr (Some (normalise_nulls vs))"
proof -
  have ne: "rec \<noteq> []" by (rule record_nonempty [OF assms(5,6)])
  have len: "int (length rec) + SLOT_SIZE \<le> PAGE_SIZE - HEADER_SIZE" using assms(7) by (simp add: page_consts)
  obtain b' hf' rid where i: "heap_insert rt hf b vs = (b', hf', Inr rid)" "heap_inv b' hf'"
    "heap_tight b' hf'" "hf_schema hf' = hf_schema hf" "heap_contents b hf rid = None"
    "heap_contents b' hf' = (heap_contents b hf)(rid \<mapsto> rec)"
    using heap_insert_correct [OF assms(1-3,5) ne len] by blast
  have here: "heap_contents b' hf' rid = Some rec" using i(6) by simp
  then have "rid_page rid \<in> set (hf_page_ids hf')" by (auto simp: heap_contents_def split: if_splits)
  then obtain b'' where "heap_read rt hf' b' rid = (b'', bindr (record_deserialize rt (hf_schema hf') rec) (\<lambda>vs. Inr (Some vs)))"
    using heap_read_correct [OF i(2), of rid rt] here by auto
  then show ?thesis
    using i record_deserialize_serialize [OF assms(4,5)] by auto
qed

theorem heap_insert_read_witness:
  "\<forall>rt. \<exists>b hf b' hf' rid. heap_create user_schema (pool_new (disk_open None) 4) = (b, Inr hf) \<and>
     heap_insert rt hf b [VInt 7, VNull, VBool True] = (b', hf', Inr rid) \<and>
     snd (heap_read rt hf' b' rid) = Inr (Some [VInt 7, VNull, VBool True])"
proof
  fix rt :: py_runtime
  obtain b hf where c: "heap_create user_schema (pool_new (disk_open None) 4) = (b, Inr hf)"
    "heap_inv b hf" "heap_tight b hf" "hf_schema hf = user_schema" "dk_num_pages (bp_disk b) = 1"
    by (rule fresh_table [of 4]) auto
  obtain rec where r: "record_serialize rt user_schema [VInt 7, VNull, VBool True] = Inr rec"
    "length rec = 10"
    using user_row_length by blast
  have "normalise_nulls [VInt 7, VNull, VBool True] = [VInt 7, VNull, VBool True]"
    by (simp add: normalise_nulls_def null_like_def is_null_value_def)
  then show "\<exists>b hf b' hf' rid. heap_create user_schema (pool_new (disk_open None) 4) = (b, Inr hf) \<and>
     heap_insert rt hf b [VInt 7, VNull, VBool True] = (b', hf', Inr rid) \<and>
     snd (heap_read rt hf' b' rid) = Inr (Some [VInt 7, VNull, VBool True])"
    using heap_insert_read [OF c(2,3), of "[VInt 7, VNull, VBool True]" rt rec] c r user_row_fits
    by (auto simp: INVALID_PAGE_ID_def num_columns_def user_schema_def)
qed

text \<open>
  Deleting a record of the table answers whether there was one and removes exactly that
  identifier from the map; the file stays consistent.
\<close>

theorem heap_delete_removes:
  assumes "heap_inv b hf" "rid_page rid \<in> set (hf_page_ids hf)"
  shows "\<exists>b'. heap_delete hf b rid = (b', Inr (heap_contents b hf rid \<noteq> None)) \<and> heap_inv b' hf \<and>
    heap_contents b' hf = (heap_contents b hf)(rid := None)"
  using heap_delete_correct [OF assms] by blast

text \<open>
  Opening an existing table terminates and finds exactly its pages in order, by following
  the links from the first page; nothing stored changes.
\<close>

theorem load_page_chain_finds_pages:
  assumes "heap_inv b hf"
  shows "\<exists>b'. load_page_chain b (first_page_id hf) [] = Some (b', Inr (hf_page_ids hf)) \<and>
    pool_view b' = pool_view b"
proof -
  have "\<forall>pid \<in> set (hf_page_ids hf). in_file b pid \<and> pid \<noteq> INVALID_PAGE_ID"
    using assms by (auto simp: heap_inv_def in_file_def)
  moreover have "first_page_id hf = hd (hf_page_ids hf)"
    using assms by (cases "hf_page_ids hf") (simp_all add: first_page_id_def heap_inv_def)
  ultimately show ?thesis
    using load_page_chain_correct [of b "hf_page_ids hf" "[]"] assms by (auto simp: heap_inv_def)
qed

theorem load_page_chain_finds_pages_witness:
  "\<exists>b hf b'. heap_create user_schema (pool_new (disk_open None) 4) = (b, Inr hf) \<and>
     load_page_chain b (first_page_id hf) [] = Some (b', Inr (hf_page_ids hf))"
proof -
  obtain b hf where c: "heap_create user_schema (pool_new (disk_open None) 4) = (b, Inr hf)" "heap_inv b hf"
    by (rule fresh_table [of 4]) auto
  then show ?thesis using load_page_chain_finds_pages [OF c(2)] by blast
qed

theorem heap_delete_removes_witness:
  "\<exists>b hf b'. heap_create user_schema (pool_new (disk_open None) 4) = (b, Inr hf) \<and>
     heap_delete hf b (RID (first_page_id hf) 3) = (b', Inr False)"
proof -
  obtain b hf where c: "heap_create user_schema (pool_new (disk_open None) 4) = (b, Inr hf)" "heap_inv b hf"
    "heap_contents b hf = Map.empty"
    by (rule fresh_table [of 4]) auto
  have "first_page_id hf \<in> set (hf_page_ids hf)"
    using c(2) by (cases "hf_page_ids hf") (simp_all add: first_page_id_def heap_inv_def)
  then show ?thesis using heap_delete_removes [OF c(2), of "RID (first_page_id hf) 3"] c(1,3) by auto
qed

end
