(* ===== verification/Wal.thy ===== *)
theory Wal
  imports Prelude "HOL-Library.AList"
begin

text \<open>
  The write-ahead log, \<^verbatim>\<open>src/pysql/storage/wal.py\<close>: the binary log records, the
  log manager with its buffer, file and per-transaction chain, and the analysis pass of
  recovery.  The decoder takes the header length as an argument; the code calls it with
  \<^verbatim>\<open>LOG_HEADER_SIZE\<close>, which is not the length its packer writes.
\<close>

section \<open>Log records\<close>

datatype log_record_type = BEGIN | COMMIT | ABORT | INSERT | DELETE | UPDATE | CHECKPOINT | CLR | END

fun log_type_code :: "log_record_type \<Rightarrow> int" where
  "log_type_code BEGIN = 1"
| "log_type_code COMMIT = 2"
| "log_type_code ABORT = 3"
| "log_type_code INSERT = 4"
| "log_type_code DELETE = 5"
| "log_type_code UPDATE = 6"
| "log_type_code CHECKPOINT = 7"
| "log_type_code CLR = 8"
| "log_type_code END = 9"

definition log_type_of :: "int \<Rightarrow> log_record_type result" where
  "log_type_of n =
     (if n = 1 then Inr BEGIN else if n = 2 then Inr COMMIT else if n = 3 then Inr ABORT
      else if n = 4 then Inr INSERT else if n = 5 then Inr DELETE else if n = 6 then Inr UPDATE
      else if n = 7 then Inr CHECKPOINT else if n = 8 then Inr CLR else if n = 9 then Inr END
      else Inl ValueError)"

lemma log_type_of_code [simp]: "log_type_of (log_type_code t) = Inr t"
  by (cases t) (simp_all add: log_type_of_def)

definition LOG_HEADER_SIZE :: nat where "LOG_HEADER_SIZE = 35"

record log_record =
  lr_lsn :: int
  lr_txn_id :: int
  lr_type :: log_record_type
  lr_prev_lsn :: int
  lr_table_id :: int
  lr_page_id :: int
  lr_slot_id :: int
  lr_undo :: "byte list"
  lr_redo :: "byte list"

definition log_fmt :: "fmt list" where
  "log_fmt = [FS 8, FU 4, FU 1, FS 8, FU 4, FU 4, FU 2]"

definition log_values :: "log_record \<Rightarrow> int list" where
  "log_values r =
     [lr_lsn r, lr_txn_id r, log_type_code (lr_type r), lr_prev_lsn r, lr_table_id r, lr_page_id r,
      lr_slot_id r]"

definition with_length :: "byte list \<Rightarrow> byte list result" where
  "with_length d = bindr (pack_u 4 (int (length d))) (\<lambda>n. Inr (n @ d))"

definition log_serialize :: "log_record \<Rightarrow> byte list result" where
  "log_serialize r =
     bindr (pack_fields (zip log_fmt (log_values r))) (\<lambda>header.
       bindr (with_length (lr_undo r)) (\<lambda>undo_part.
         bindr (with_length (lr_redo r)) (\<lambda>redo_part.
           let record = header @ undo_part @ redo_part in
           bindr (pack_u 4 (int (length record))) (\<lambda>n. Inr (record @ n)))))"

text \<open>A length-prefixed field at \<open>pos\<close>; the data slice is not checked for its length.\<close>

definition read_sized :: "byte list \<Rightarrow> int \<Rightarrow> (byte list \<times> int) result" where
  "read_sized data pos =
     bindr (unpack_u 4 (py_slice data pos (pos + 4))) (\<lambda>n.
       Inr (py_slice data (pos + 4) (pos + 4 + n), pos + 4 + n))"

definition log_deserialize_at :: "nat \<Rightarrow> byte list \<Rightarrow> nat \<Rightarrow> (log_record \<times> nat) result" where
  "log_deserialize_at hs data off =
     bindr (unpack_fields log_fmt (py_slice data (int off) (int (off + hs)))) (\<lambda>vs.
       bindr (read_sized data (int (off + hs))) (\<lambda>(undo, pos1).
         bindr (read_sized data pos1) (\<lambda>(redo, pos2).
           bindr (log_type_of (vs ! 2)) (\<lambda>t.
             Inr (\<lparr>lr_lsn = vs ! 0, lr_txn_id = vs ! 1, lr_type = t, lr_prev_lsn = vs ! 3,
                   lr_table_id = vs ! 4, lr_page_id = vs ! 5, lr_slot_id = vs ! 6,
                   lr_undo = undo, lr_redo = redo\<rparr>, nat (pos2 + 4) - off)))))"

definition log_deserialize :: "byte list \<Rightarrow> nat \<Rightarrow> (log_record \<times> nat) result" where
  "log_deserialize = log_deserialize_at LOG_HEADER_SIZE"

section \<open>Reading the log\<close>

lemma unpack_u_nonneg: "unpack_u n bs = Inr v \<Longrightarrow> 0 \<le> v"
  by (auto simp: unpack_u_def split: if_splits)

lemma read_sized_pos: "read_sized data pos = Inr (d, pos') \<Longrightarrow> pos + 4 \<le> pos'"
  by (auto simp: read_sized_def bindr_Inr_iff dest: unpack_u_nonneg)

lemma log_deserialize_consumes:
  "log_deserialize_at hs data off = Inr (r, k) \<Longrightarrow> 0 < k"
  by (auto simp: log_deserialize_at_def bindr_Inr_iff dest!: read_sized_pos split: prod.splits)

text \<open>
  The loop of \<^verbatim>\<open>read_all\<close>: a \<^verbatim>\<open>struct.error\<close> or
  \<^verbatim>\<open>IndexError\<close> ends it with the records so far, any other exception escapes.
\<close>

function read_records :: "nat \<Rightarrow> byte list \<Rightarrow> nat \<Rightarrow> log_record list result" where
  "read_records hs data off =
     (if off < length data then
        (case log_deserialize_at hs data off of
           Inr (r, k) \<Rightarrow> bindr (read_records hs data (off + k)) (\<lambda>rs. Inr (r # rs))
         | Inl e \<Rightarrow> (if e = StructError \<or> e = IndexError then Inr [] else Inl e))
      else Inr [])"
  by pat_completeness auto

termination
  by (relation "measure (\<lambda>(hs, data, off). length data - off)")
    (auto dest: log_deserialize_consumes)

declare read_records.simps [simp del]

section \<open>The log manager\<close>

record wal =
  wal_file :: "byte list"
  wal_next_lsn :: int
  wal_flushed_lsn :: int
  wal_buffer :: "log_record list"
  wal_txn_table :: "int \<rightharpoonup> int"

definition read_all :: "byte list \<Rightarrow> log_record list result" where
  "read_all file = read_records LOG_HEADER_SIZE file 0"

definition recover_lsn :: "wal \<Rightarrow> log_record list \<Rightarrow> wal" where
  "recover_lsn w records =
     (if records = [] then w
      else w\<lparr>wal_next_lsn := lr_lsn (last records) + 1, wal_flushed_lsn := lr_lsn (last records)\<rparr>)"

definition wal_open :: "byte list option \<Rightarrow> wal result" where
  "wal_open existing =
     (let w = \<lparr>wal_file = [], wal_next_lsn = 1, wal_flushed_lsn = 0, wal_buffer = [],
               wal_txn_table = Map.empty\<rparr> in
      case existing of
        None \<Rightarrow> Inr w
      | Some f \<Rightarrow> bindr (read_all f) (\<lambda>rs. Inr (recover_lsn (w\<lparr>wal_file := f\<rparr>) rs)))"

definition wal_append :: "wal \<Rightarrow> log_record \<Rightarrow> wal \<times> int" where
  "wal_append w r =
     (let lsn = wal_next_lsn w;
          prev = (case wal_txn_table w (lr_txn_id r) of Some l \<Rightarrow> l | None \<Rightarrow> 0);
          r1 = r\<lparr>lr_lsn := lsn, lr_prev_lsn := prev\<rparr>
      in (w\<lparr>wal_txn_table := (wal_txn_table w)(lr_txn_id r \<mapsto> lsn),
            wal_buffer := wal_buffer w @ [r1], wal_next_lsn := lsn + 1\<rparr>, lsn))"

text \<open>The records before one that cannot be packed reach the file; the buffer then stays.\<close>

fun write_records :: "log_record list \<Rightarrow> byte list \<Rightarrow> byte list \<times> unit result" where
  "write_records [] f = (f, Inr ())"
| "write_records (r # rs) f =
     (case log_serialize r of
        Inl e \<Rightarrow> (f, Inl e)
      | Inr bs \<Rightarrow> write_records rs (f @ bs))"

definition wal_flush :: "wal \<Rightarrow> wal \<times> unit result" where
  "wal_flush w =
     (if wal_buffer w = [] then (w, Inr ())
      else (case write_records (wal_buffer w) (wal_file w) of
          (f, Inl e) \<Rightarrow> (w\<lparr>wal_file := f\<rparr>, Inl e)
        | (f, Inr _) \<Rightarrow>
            (w\<lparr>wal_file := f, wal_flushed_lsn := lr_lsn (last (wal_buffer w)), wal_buffer := []\<rparr>, Inr ())))"

definition blank_record :: "int \<Rightarrow> log_record_type \<Rightarrow> log_record" where
  "blank_record txn t =
     \<lparr>lr_lsn = 0, lr_txn_id = txn, lr_type = t, lr_prev_lsn = 0, lr_table_id = 0, lr_page_id = 0,
      lr_slot_id = 0, lr_undo = [], lr_redo = []\<rparr>"

definition log_begin :: "wal \<Rightarrow> int \<Rightarrow> wal \<times> int" where
  "log_begin w txn = wal_append w (blank_record txn BEGIN)"

definition append_and_flush :: "wal \<Rightarrow> log_record \<Rightarrow> wal \<times> int result" where
  "append_and_flush w r =
     (let (w1, lsn) = wal_append w r in
      case wal_flush w1 of (w2, Inl e) \<Rightarrow> (w2, Inl e) | (w2, Inr _) \<Rightarrow> (w2, Inr lsn))"

definition log_commit :: "wal \<Rightarrow> int \<Rightarrow> wal \<times> int result" where
  "log_commit w txn = append_and_flush w (blank_record txn COMMIT)"

definition log_abort :: "wal \<Rightarrow> int \<Rightarrow> wal \<times> int" where
  "log_abort w txn = wal_append w (blank_record txn ABORT)"

definition log_insert :: "wal \<Rightarrow> int \<Rightarrow> int \<Rightarrow> int \<Rightarrow> int \<Rightarrow> byte list \<Rightarrow> wal \<times> int" where
  "log_insert w txn table_id page_id slot_id redo =
     wal_append w ((blank_record txn INSERT)
       \<lparr>lr_table_id := table_id, lr_page_id := page_id, lr_slot_id := slot_id, lr_redo := redo\<rparr>)"

definition log_delete :: "wal \<Rightarrow> int \<Rightarrow> int \<Rightarrow> int \<Rightarrow> int \<Rightarrow> byte list \<Rightarrow> wal \<times> int" where
  "log_delete w txn table_id page_id slot_id undo =
     wal_append w ((blank_record txn DELETE)
       \<lparr>lr_table_id := table_id, lr_page_id := page_id, lr_slot_id := slot_id, lr_undo := undo\<rparr>)"

definition log_update ::
  "wal \<Rightarrow> int \<Rightarrow> int \<Rightarrow> int \<Rightarrow> int \<Rightarrow> byte list \<Rightarrow> byte list \<Rightarrow> wal \<times> int"
where
  "log_update w txn table_id page_id slot_id undo redo =
     wal_append w ((blank_record txn UPDATE)
       \<lparr>lr_table_id := table_id, lr_page_id := page_id, lr_slot_id := slot_id,
        lr_undo := undo, lr_redo := redo\<rparr>)"

definition log_checkpoint :: "wal \<Rightarrow> wal \<times> int result" where
  "log_checkpoint w = append_and_flush w (blank_record 0 CHECKPOINT)"

definition wal_truncate :: "wal \<Rightarrow> wal" where
  "wal_truncate w = w\<lparr>wal_file := [], wal_flushed_lsn := 0\<rparr>"

section \<open>Recovery\<close>

text \<open>
  The analysis pass: the active table is a dictionary from transactions to the records to
  undo, the results are the sets of committed and aborted transactions.
\<close>

type_synonym analysis = "(int \<times> log_record list) list \<times> int set \<times> int set"

fun analyse :: "log_record \<Rightarrow> analysis \<Rightarrow> analysis" where
  "analyse r (active, committed, aborted) =
     (let t = lr_txn_id r in
      case lr_type r of
        BEGIN \<Rightarrow> (AList.update t [] active, committed, aborted)
      | COMMIT \<Rightarrow> (AList.delete t active, insert t committed, aborted)
      | ABORT \<Rightarrow> (AList.delete t active, committed, insert t aborted)
      | CHECKPOINT \<Rightarrow> (active, committed, aborted)
      | CLR \<Rightarrow> (active, committed, aborted)
      | END \<Rightarrow> (active, committed, aborted)
      | _ \<Rightarrow> (case map_of active t of
                 Some rs \<Rightarrow> (AList.update t (rs @ [r]) active, committed, aborted)
               | None \<Rightarrow> (active, committed, aborted)))"

definition recover_records :: "log_record list \<Rightarrow> int set \<times> int set" where
  "recover_records rs =
     (let (active, committed, aborted) = fold analyse rs ([], {}, {})
      in (committed, aborted \<union> fst ` set active))"

definition recover :: "wal \<Rightarrow> (wal \<times> int set \<times> int set) result" where
  "recover w = bindr (read_all (wal_file w)) (\<lambda>rs. Inr (recover_lsn w rs, recover_records rs))"

section \<open>The record format\<close>

lemma with_length_read:
  assumes "with_length d = Inr bs"
  shows "read_sized (front @ bs @ rest) (int (length front)) = Inr (d, int (length front + length bs))"
    and "length bs = 4 + length d"
proof -
  obtain n where n: "pack_u 4 (int (length d)) = Inr n" and bs: "bs = n @ d"
    using assms by (auto simp: with_length_def bindr_Inr_iff)
  have len: "length n = 4" by (rule pack_u_length [OF n])
  have "py_slice (front @ bs @ rest) (int (length front)) (int (length front) + 4) = n"
    unfolding bs using py_slice_mid [of _ front _ n "d @ rest"] len by simp
  moreover have "py_slice (front @ bs @ rest) (int (length front) + 4) (int (length front) + 4 + int (length d)) = d"
    unfolding bs using py_slice_mid [of _ "front @ n" _ d rest] len by simp
  ultimately show "read_sized (front @ bs @ rest) (int (length front)) = Inr (d, int (length front + length bs))"
    using unpack_pack_u [OF n] len by (simp add: read_sized_def bs)
  show "length bs = 4 + length d" using len bs by simp
qed

lemma log_deserialize_serialize:
  assumes "log_serialize r = Inr bs"
  shows "log_deserialize_at 31 (front @ bs @ rest) (length front) = Inr (r, length bs)"
proof -
  obtain h u d n where h: "pack_fields (zip log_fmt (log_values r)) = Inr h"
    and u: "with_length (lr_undo r) = Inr u" and d: "with_length (lr_redo r) = Inr d"
    and n: "pack_u 4 (int (length (h @ u @ d))) = Inr n" and bs: "bs = (h @ u @ d) @ n"
    using assms by (auto simp: log_serialize_def Let_def bindr_Inr_iff)
  have lens: "length h = 31" "length n = 4"
    using pack_fields_length [OF h] pack_u_length [OF n] by (simp_all add: log_fmt_def log_values_def)
  have hdr: "unpack_fields log_fmt h = Inr (log_values r)"
    using unpack_pack_fields [OF h] by (simp add: log_fmt_def log_values_def)
  let ?data = "front @ bs @ rest"
  have s: "py_slice ?data (int (length front)) (int (length front + 31)) = h"
    unfolding bs using py_slice_mid [of _ front _ h "u @ d @ n @ rest"] lens(1) by simp
  have ru: "read_sized ?data (int (length front + 31)) = Inr (lr_undo r, int (length front + 31 + length u))"
    using with_length_read(1) [OF u, of "front @ h" "d @ n @ rest"] lens(1) by (simp add: bs)
  have rd: "read_sized ?data (int (length front + 31 + length u)) =
      Inr (lr_redo r, int (length front + 31 + length u + length d))"
    using with_length_read(1) [OF d, of "front @ h @ u" "n @ rest"] lens(1) by (simp add: bs add.assoc)
  have "nat (int (length front + 31 + length u + length d) + 4) - length front = length bs"
    using lens by (simp add: bs)
  then show ?thesis
    using s ru rd hdr by (simp add: log_deserialize_at_def log_values_def)
qed

lemma read_records_concat:
  assumes "mapr log_serialize rs = Inr bss"
  shows "read_records 31 (front @ concat bss) (length front) = Inr rs"
  using assms
proof (induction rs arbitrary: bss front)
  case Nil
  then show ?case by (simp add: read_records.simps)
next
  case (Cons r rs)
  then obtain b bss' where b: "log_serialize r = Inr b" and bss': "mapr log_serialize rs = Inr bss'"
    and bss: "bss = b # bss'"
    by (auto simp: bindr_Inr_iff)
  have d: "log_deserialize_at 31 (front @ b @ concat bss') (length front) = Inr (r, length b)"
    by (rule log_deserialize_serialize [OF b])
  have "0 < length b" by (rule log_deserialize_consumes [OF d])
  then show ?case
    using d Cons.IH [OF bss', of "front @ b"]
    by (subst read_records.simps) (simp add: bss)
qed

lemma unpack_seq_error: "unpack_seq fs bs = Inl e \<Longrightarrow> e = StructError"
proof (induction fs bs rule: unpack_seq.induct)
  case (2 f fs bs)
  have "unpack_field f x = Inl e' \<Longrightarrow> e' = StructError" for x e'
    by (cases f) (auto simp: unpack_u_def unpack_s_def Let_def split: if_splits)
  with 2 show ?case
    by (cases "unpack_field f (take (fmt_size f) bs)"; cases "unpack_seq fs (drop (fmt_size f) bs)") auto
qed simp

lemma log_deserialize_fails: "log_deserialize data off = Inl StructError"
proof -
  define sl where "sl = py_slice data (int off) (int (off + LOG_HEADER_SIZE))"
  have len: "length sl = min (off + 35) (length data) - off"
    by (auto simp: sl_def py_slice_def py_bound_def LOG_HEADER_SIZE_def Let_def min_def)
  have cs: "calcsize log_fmt = 31" by (simp add: log_fmt_def)
  show ?thesis
  proof (cases "length sl = 31")
    case True
    then have "length data = off + 31" using len by (simp add: min_def split: if_splits)
    then have "read_sized data (int (off + LOG_HEADER_SIZE)) = Inl StructError"
      by (simp add: read_sized_def unpack_u_def py_slice_def py_bound_def LOG_HEADER_SIZE_def Let_def)
    moreover have "e = StructError" if "unpack_fields log_fmt sl = Inl e" for e
      using that unpack_seq_error by (auto simp: unpack_fields_def split: if_splits)
    ultimately show ?thesis
      by (cases "unpack_fields log_fmt sl") (simp_all add: log_deserialize_def log_deserialize_at_def sl_def)
  next
    case False
    then have "unpack_fields log_fmt sl = Inl StructError" by (simp add: unpack_fields_def cs)
    then show ?thesis by (simp add: log_deserialize_def log_deserialize_at_def sl_def)
  qed
qed

section \<open>Properties of the log\<close>

lemma read_all_empty: "read_all f = Inr []"
  using log_deserialize_fails [of f 0]
  by (simp add: read_all_def read_records.simps log_deserialize_def)

text \<open>
  C40: the decoder skips 35 bytes for a header of 31 and then requires exactly 31, so no log
  record is ever read: whatever the log file holds, reading it gives no records, recovery finds
  no transaction, and opening it restarts the sequence numbers at 1.
\<close>

theorem log_is_never_read:
  "read_all file = Inr [] \<and> recover_records [] = ({}, {}) \<and>
   recover (w\<lparr>wal_file := file\<rparr>) = Inr (w\<lparr>wal_file := file\<rparr>, {}, {}) \<and>
   (\<exists>w'. wal_open (Some file) = Inr w' \<and> wal_file w' = file \<and> wal_next_lsn w' = 1 \<and> wal_flushed_lsn w' = 0)"
proof -
  have "recover_records [] = ({}, {})" by (simp add: recover_records_def)
  then show ?thesis
    by (simp add: read_all_empty recover_def recover_lsn_def wal_open_def Let_def)
qed

text \<open>
  The records as they are written can be told apart: a decoder that takes the 31 bytes
  the packer writes for the header reads back exactly the records written, in order, whatever
  their undo and redo data contain.
\<close>

theorem log_framing_roundtrip:
  assumes "mapr log_serialize rs = Inr bss"
  shows "read_records 31 (concat bss) 0 = Inr rs"
  using read_records_concat [OF assms, of "[]"] by simp

theorem log_framing_roundtrip_witness:
  "\<exists>bss. mapr log_serialize [blank_record 1 BEGIN, blank_record 1 COMMIT] = Inr bss \<and>
     read_records 31 (concat bss) 0 = Inr [blank_record 1 BEGIN, blank_record 1 COMMIT]"
proof -
  have "\<exists>bss. mapr log_serialize [blank_record 1 BEGIN, blank_record 1 COMMIT] = Inr bss"
    by (simp add: log_serialize_def log_fmt_def log_values_def blank_record_def with_length_def
        pack_u_def pack_s_def Let_def)
  then show ?thesis using log_framing_roundtrip by blast
qed

section \<open>Sequence numbers and durability\<close>

text \<open>
  The life of a log manager that started with an empty log, with the history of all records
  ever appended.  An append without a flush, an append with one, and a flush are the steps; a
  flush that fails leaves the relation (part of the buffer is then in the file twice over).
\<close>

inductive wal_run :: "wal \<Rightarrow> log_record list \<Rightarrow> bool" where
  start: "wal_open None = Inr w \<Longrightarrow> wal_run w []"
| append: "wal_run w hist \<Longrightarrow> wal_append w r = (w', lsn) \<Longrightarrow>
    wal_run w' (hist @ [last (wal_buffer w')])"
| flush: "wal_run w hist \<Longrightarrow> wal_flush w = (w', Inr ()) \<Longrightarrow> wal_run w' hist"

inductive_cases wal_run_elim: "wal_run w hist"

text \<open>The sequence number of a transaction's latest record, 0 if it has none.\<close>

definition last_lsn :: "int \<Rightarrow> log_record list \<Rightarrow> int" where
  "last_lsn t rs =
     (let xs = filter (\<lambda>r. lr_txn_id r = t) rs in if xs = [] then 0 else lr_lsn (last xs))"

lemma last_lsn_snoc: "last_lsn t (rs @ [r]) = (if lr_txn_id r = t then lr_lsn r else last_lsn t rs)"
  by (simp add: last_lsn_def Let_def)

definition history_ok :: "log_record list \<Rightarrow> bool" where
  "history_ok hist =
     (\<forall>i < length hist. lr_lsn (hist ! i) = int i + 1 \<and>
        lr_prev_lsn (hist ! i) = last_lsn (lr_txn_id (hist ! i)) (take i hist))"

definition wal_inv :: "wal \<Rightarrow> log_record list \<Rightarrow> bool" where
  "wal_inv w hist =
     (wal_next_lsn w = int (length hist) + 1 \<and>
      (\<forall>t. (case wal_txn_table w t of Some l \<Rightarrow> l | None \<Rightarrow> 0) = last_lsn t hist) \<and>
      (\<exists>old bss. hist = old @ wal_buffer w \<and> mapr log_serialize old = Inr bss \<and>
         wal_file w = concat bss \<and> wal_flushed_lsn w = int (length old)))"

lemma history_ok_snoc:
  "history_ok (hist @ [r]) \<longleftrightarrow> history_ok hist \<and> lr_lsn r = int (length hist) + 1 \<and>
     lr_prev_lsn r = last_lsn (lr_txn_id r) hist"
  by (auto simp: history_ok_def nth_append less_Suc_eq)

lemma write_records_ok:
  "write_records rs f = (f', Inr ()) \<Longrightarrow> \<exists>bss. mapr log_serialize rs = Inr bss \<and> f' = f @ concat bss"
  by (induction rs f rule: write_records.induct) (auto split: sum.splits simp: bindr_Inr_iff)

lemma mapr_append:
  "mapr f xs = Inr ys \<Longrightarrow> mapr f zs = Inr ws \<Longrightarrow> mapr f (xs @ zs) = Inr (ys @ ws)"
  by (induction xs arbitrary: ys) (auto simp: bindr_Inr_iff)

lemma wal_run_inv: "wal_run w hist \<Longrightarrow> wal_inv w hist \<and> history_ok hist"
proof (induction rule: wal_run.induct)
  case (start w)
  then show ?case by (auto simp: wal_open_def wal_inv_def history_ok_def last_lsn_def Let_def)
next
  case (append w hist r w' lsn)
  let ?prev = "case wal_txn_table w (lr_txn_id r) of Some l \<Rightarrow> l | None \<Rightarrow> 0"
  let ?r = "r\<lparr>lr_lsn := lsn, lr_prev_lsn := ?prev\<rparr>"
  have w': "w' = w\<lparr>wal_txn_table := (wal_txn_table w)(lr_txn_id r \<mapsto> lsn),
      wal_buffer := wal_buffer w @ [?r], wal_next_lsn := lsn + 1\<rparr>" "lsn = wal_next_lsn w"
    using append.hyps(2) by (auto simp: wal_append_def Let_def)
  then have p: "last (wal_buffer w') = ?r" by simp
  have lsn: "lsn = int (length hist) + 1" using append.IH w'(2) by (simp add: wal_inv_def)
  have "(case wal_txn_table w' t of Some l \<Rightarrow> l | None \<Rightarrow> 0) = last_lsn t (hist @ [?r])" for t
    using append.IH by (cases "t = lr_txn_id r") (auto simp: w'(1) last_lsn_snoc wal_inv_def)
  moreover have "?prev = last_lsn (lr_txn_id r) hist" using append.IH by (simp add: wal_inv_def)
  ultimately show ?case
    using append.IH lsn unfolding p
    by (auto simp: wal_inv_def history_ok_snoc w'(1))
next
  case (flush w hist w')
  show ?case
  proof (cases "wal_buffer w = []")
    case True
    then show ?thesis using flush by (simp add: wal_flush_def)
  next
    case False
    obtain f where f: "write_records (wal_buffer w) (wal_file w) = (f, Inr ())"
      and w': "w' = w\<lparr>wal_file := f, wal_flushed_lsn := lr_lsn (last (wal_buffer w)), wal_buffer := []\<rparr>"
      using flush.hyps(2) False by (auto simp: wal_flush_def split: prod.splits sum.splits)
    obtain old bss where old: "hist = old @ wal_buffer w" "mapr log_serialize old = Inr bss"
      "wal_file w = concat bss"
      using flush.IH by (auto simp: wal_inv_def)
    obtain bss' where new: "mapr log_serialize (wal_buffer w) = Inr bss'" "f = wal_file w @ concat bss'"
      using write_records_ok [OF f] by blast
    have "last (wal_buffer w) = last hist" "hist \<noteq> []" using False old(1) by simp_all
    then have "lr_lsn (last (wal_buffer w)) = lr_lsn (hist ! (length hist - 1))"
      by (simp add: last_conv_nth)
    moreover have "0 < length hist" using \<open>hist \<noteq> []\<close> by simp
    ultimately have "lr_lsn (last (wal_buffer w)) = int (length hist)"
      using flush.IH by (simp add: history_ok_def of_nat_diff Suc_le_eq)
    moreover have "mapr log_serialize hist = Inr (bss @ bss')"
      unfolding old(1) by (rule mapr_append [OF old(2) new(1)])
    ultimately show ?thesis
      using flush.IH old(3) new(2) by (auto simp: wal_inv_def w')
  qed
qed

text \<open>
  Throughout the life of a log, records are numbered 1, 2, 3, ... in the order they were
  appended, each points back to its transaction's previous record, the flushed number counts
  the records in the file, the file holds exactly those, and the buffer holds the rest.
\<close>

theorem wal_history:
  assumes "wal_run w hist"
  shows "(\<forall>i < length hist. lr_lsn (hist ! i) = int i + 1 \<and>
      lr_prev_lsn (hist ! i) = last_lsn (lr_txn_id (hist ! i)) (take i hist)) \<and>
    (\<exists>old bss. hist = old @ wal_buffer w \<and> mapr log_serialize old = Inr bss \<and>
       wal_file w = concat bss \<and> wal_flushed_lsn w = int (length old))"
  using wal_run_inv [OF assms] by (simp add: wal_inv_def history_ok_def)

theorem wal_history_witness:
  "\<exists>w0 w1 r1 w2 r2. wal_open None = Inr w0 \<and> log_begin w0 5 = (w1, 1) \<and> log_abort w1 5 = (w2, 2) \<and>
     wal_buffer w2 = [r1, r2] \<and> lr_lsn r2 = 2 \<and> lr_prev_lsn r2 = 1"
proof -
  obtain w0 where w0: "wal_open None = Inr w0" "wal_buffer w0 = []" "wal_next_lsn w0 = 1"
    by (simp add: wal_open_def Let_def)
  obtain w1 r1 where w1: "log_begin w0 5 = (w1, 1)" "wal_buffer w1 = [r1]" "wal_next_lsn w1 = 2"
    "lr_txn_id r1 = 5" "lr_lsn r1 = 1"
    using w0(2,3) by (simp add: log_begin_def wal_append_def blank_record_def Let_def)
  obtain w2 r2 where w2: "log_abort w1 5 = (w2, 2)" "wal_buffer w2 = [r1, r2]" "lr_txn_id r2 = 5"
    using w1(2,3) by (simp add: log_abort_def wal_append_def blank_record_def Let_def)
  have "wal_run w1 ([] @ [last (wal_buffer w1)])"
    using wal_run.append [OF wal_run.start [OF w0(1)]] w1(1) by (simp add: log_begin_def)
  then have "wal_run w2 (([] @ [last (wal_buffer w1)]) @ [last (wal_buffer w2)])"
    using w2(1) unfolding log_abort_def by (rule wal_run.append)
  then have "wal_run w2 [r1, r2]" using w1(2) w2(2) by simp
  from wal_history [OF this] have "lr_lsn r2 = 2 \<and> lr_prev_lsn r2 = 1"
    using w1(4,5) w2(3) by (auto simp: last_lsn_def less_Suc_eq All_less_Suc)
  then show ?thesis using w0 w1 w2 by blast
qed

section \<open>What recovery concludes\<close>

text \<open>A transaction is open when its last BEGIN is followed by neither COMMIT nor ABORT.\<close>

fun open_txns :: "log_record list \<Rightarrow> int set" where
  "open_txns [] = {}"
| "open_txns (r # rs) =
     (if lr_type r = BEGIN \<and> (\<forall>q \<in> set rs. lr_txn_id q = lr_txn_id r \<longrightarrow> lr_type q \<notin> {COMMIT, ABORT})
      then insert (lr_txn_id r) (open_txns rs) else open_txns rs)"

lemma open_txns_snoc:
  "open_txns (rs @ [r]) =
     (if lr_type r = BEGIN then insert (lr_txn_id r) (open_txns rs)
      else if lr_type r \<in> {COMMIT, ABORT} then open_txns rs - {lr_txn_id r} else open_txns rs)"
  by (induction rs) auto

definition dict_keys :: "('k \<times> 'v) list \<Rightarrow> 'k set" where
  "dict_keys xs = fst ` set xs"

lemma keys_update: "dict_keys (AList.update k v xs) = insert k (dict_keys xs)"
  by (induction xs) (auto simp: dict_keys_def)

lemma keys_delete: "dict_keys (AList.delete k xs) = dict_keys xs - {k}"
  by (auto simp: dict_keys_def AList.delete_eq)

lemma keys_in: "map_of xs k = Some v \<Longrightarrow> insert k (dict_keys xs) = dict_keys xs"
  by (auto simp: dict_keys_def dest: map_of_SomeD intro: rev_image_eqI)

lemma analyse_step:
  assumes "analyse r (a, c, b) = (a', c', b')"
  shows "dict_keys a' = (if lr_type r = BEGIN then insert (lr_txn_id r) (dict_keys a)
      else if lr_type r \<in> {COMMIT, ABORT} then dict_keys a - {lr_txn_id r} else dict_keys a)"
    and "c' = (if lr_type r = COMMIT then insert (lr_txn_id r) c else c)"
    and "b' = (if lr_type r = ABORT then insert (lr_txn_id r) b else b)"
proof -
  show "dict_keys a' = (if lr_type r = BEGIN then insert (lr_txn_id r) (dict_keys a)
      else if lr_type r \<in> {COMMIT, ABORT} then dict_keys a - {lr_txn_id r} else dict_keys a)"
    using assms
    by (cases "lr_type r"; cases "map_of a (lr_txn_id r)")
      (auto simp only: analyse.simps Let_def keys_update keys_delete keys_in prod.inject
        log_record_type.simps option.simps if_True if_False refl insert_iff empty_iff simp_thms)
  show "c' = (if lr_type r = COMMIT then insert (lr_txn_id r) c else c)"
    and "b' = (if lr_type r = ABORT then insert (lr_txn_id r) b else b)"
    using assms by (cases "lr_type r"; auto simp: Let_def split: option.splits)+
qed

lemma analyse_keys:
  "fold analyse rs ([], {}, {}) = (active, committed, aborted) \<Longrightarrow>
   dict_keys active = open_txns rs \<and>
   committed = {lr_txn_id r | r. r \<in> set rs \<and> lr_type r = COMMIT} \<and>
   aborted = {lr_txn_id r | r. r \<in> set rs \<and> lr_type r = ABORT}"
proof (induction rs arbitrary: active committed aborted rule: rev_induct)
  case (snoc r rs)
  obtain a c b where p: "fold analyse rs ([], {}, {}) = (a, c, b)"
    by (cases "fold analyse rs ([], {}, {})") auto
  note IH = snoc.IH [OF p]
  have step: "analyse r (a, c, b) = (active, committed, aborted)" using snoc.prems p by simp
  have "dict_keys active = open_txns (rs @ [r])"
    using analyse_step(1) [OF step] IH unfolding open_txns_snoc by simp
  moreover have "committed = {lr_txn_id q | q. q \<in> set (rs @ [r]) \<and> lr_type q = COMMIT}"
    using analyse_step(2) [OF step] IH by auto
  moreover have "aborted = {lr_txn_id q | q. q \<in> set (rs @ [r]) \<and> lr_type q = ABORT}"
    using analyse_step(3) [OF step] IH by auto
  ultimately show ?case by blast
qed (simp add: dict_keys_def)

text \<open>
  The analysis pass reports as committed exactly the transactions with a COMMIT record, and
  as aborted those with an ABORT record and those still open at the end of the log.
\<close>

theorem recovery_outcome:
  "recover_records rs =
     ({lr_txn_id r | r. r \<in> set rs \<and> lr_type r = COMMIT},
      {lr_txn_id r | r. r \<in> set rs \<and> lr_type r = ABORT} \<union> open_txns rs)"
proof -
  obtain a c b where p: "fold analyse rs ([], {}, {}) = (a, c, b)"
    by (cases "fold analyse rs ([], {}, {})") auto
  from analyse_keys [OF p] show ?thesis by (simp add: recover_records_def p dict_keys_def)
qed

end
