(* ===== verification/Py_Data.thy ===== *)
theory Py_Data
  imports Prelude
begin

text \<open>
  Python containers the engine layers share: list indexing with negative indices and its
  \<^verbatim>\<open>IndexError\<close>, and dictionaries as association lists in insertion order.
\<close>

section \<open>Indexing\<close>

definition py_get :: "'a list \<Rightarrow> int \<Rightarrow> 'a result" where
  "py_get xs i =
     (if 0 \<le> i \<and> i < int (length xs) then Inr (xs ! nat i)
      else if i < 0 \<and> - int (length xs) \<le> i then Inr (xs ! nat (int (length xs) + i))
      else Inl IndexError)"

lemma py_get_nonneg [simp]: "0 \<le> i \<Longrightarrow> i < int (length xs) \<Longrightarrow> py_get xs i = Inr (xs ! nat i)"
  by (simp add: py_get_def)

lemma py_get_nth [simp]: "i < length xs \<Longrightarrow> py_get xs (int i) = Inr (xs ! i)"
  by (simp add: py_get_def)

lemma py_get_last [simp]: "xs \<noteq> [] \<Longrightarrow> py_get xs (- 1) = Inr (last xs)"
  by (cases xs) (auto simp: py_get_def last_conv_nth nat_diff_distrib')

lemma py_get_Nil [simp]: "py_get [] i = Inl IndexError"
  by (simp add: py_get_def)

lemma py_get_in_set: "py_get xs i = Inr x \<Longrightarrow> x \<in> set xs"
  by (auto simp: py_get_def split: if_splits)

section \<open>Dictionaries\<close>

fun assoc_get :: "'a \<Rightarrow> ('a \<times> 'b) list \<Rightarrow> 'b option" where
  "assoc_get k [] = None"
| "assoc_get k ((k', v) # xs) = (if k = k' then Some v else assoc_get k xs)"

fun assoc_put :: "'a \<Rightarrow> 'b \<Rightarrow> ('a \<times> 'b) list \<Rightarrow> ('a \<times> 'b) list" where
  "assoc_put k v [] = [(k, v)]"
| "assoc_put k v ((k', w) # xs) = (if k = k' then (k, v) # xs else (k', w) # assoc_put k v xs)"

fun assoc_del :: "'a \<Rightarrow> ('a \<times> 'b) list \<Rightarrow> ('a \<times> 'b) list" where
  "assoc_del k [] = []"
| "assoc_del k ((k', w) # xs) = (if k = k' then xs else (k', w) # assoc_del k xs)"

lemma assoc_get_put: "assoc_get k (assoc_put k' v xs) = (if k = k' then Some v else assoc_get k xs)"
  by (induction k' v xs rule: assoc_put.induct) auto

lemma assoc_get_map:
  "assoc_get k (map (\<lambda>(k, v). (k, f v)) xs) = map_option f (assoc_get k xs)"
  by (induction k xs rule: assoc_get.induct) auto

lemma assoc_get_None: "assoc_get k xs = None \<longleftrightarrow> k \<notin> fst ` set xs"
  by (induction k xs rule: assoc_get.induct) auto

lemma assoc_get_in: "assoc_get k xs = Some v \<Longrightarrow> (k, v) \<in> set xs"
  by (induction k xs rule: assoc_get.induct) (auto split: if_splits)

lemma assoc_put_keys: "fst ` set (assoc_put k v xs) = insert k (fst ` set xs)"
  by (induction k v xs rule: assoc_put.induct) auto

lemma assoc_put_distinct: "distinct (map fst xs) \<Longrightarrow> distinct (map fst (assoc_put k v xs))"
proof (induction k v xs rule: assoc_put.induct)
  case (2 k v k' w xs)
  then show ?case using assoc_put_keys [of k v xs] by (auto simp flip: set_map)
qed simp

lemma assoc_get_del:
  assumes "distinct (map fst xs)"
  shows "assoc_get k (assoc_del k' xs) = (if k = k' then None else assoc_get k xs)"
  using assms
proof (induction k' xs rule: assoc_del.induct)
  case (2 k' k'' w xs)
  have "assoc_get k'' xs = None" using 2(2) by (simp add: assoc_get_None)
  then show ?case using 2 by (cases "k = k'") auto
qed simp

end
