(* ===== verification/Mvcc.thy ===== *)
theory Mvcc
  imports Py_Data
begin

text \<open>
  Multi-version concurrency control, \<^verbatim>\<open>src/pysql/mvcc.py\<close>: version chains,
  snapshots, the transaction life cycle, reads, writes, deletes and garbage collection.  A
  chain is the list of a key's versions, newest first, which is what the
  \<^verbatim>\<open>prev_version\<close> references form; a key with an empty chain is absent.  The
  transaction objects callers hold are kept in a store under their identifiers.  Wall-clock
  fields, which nothing reads, are left out.
\<close>

section \<open>Versions and snapshots\<close>

datatype txn_state = ACTIVE | COMMITTED | ABORTED

datatype isolation_level = READ_UNCOMMITTED | READ_COMMITTED | REPEATABLE_READ | SNAPSHOT | SERIALIZABLE

record 'd version =
  v_data :: 'd
  v_xmin :: int
  v_xmax :: int

record snapshot =
  sn_txn_id :: int
  sn_active :: "int set"
  sn_min_active :: int
  sn_next_txn_id :: int
  sn_committed :: "int set option"

definition is_committed :: "snapshot \<Rightarrow> int \<Rightarrow> bool" where
  "is_committed s t =
     (case sn_committed s of
        Some c \<Rightarrow> t \<in> c
      | None \<Rightarrow> t < sn_next_txn_id s \<and> t \<notin> sn_active s)"

definition is_visible_to :: "'d version \<Rightarrow> int \<Rightarrow> snapshot \<Rightarrow> bool" where
  "is_visible_to v t s =
     (if v_xmin v = t then
        (if v_xmax v = t then False
         else if v_xmax v = 0 then True
         else \<not> is_committed s (v_xmax v))
      else if \<not> is_committed s (v_xmin v) then False
      else if v_xmin v \<in> sn_active s then False
      else if v_xmax v = 0 then True
      else if v_xmax v = t then False
      else if \<not> is_committed s (v_xmax v) then True
      else if v_xmax v \<in> sn_active s then True
      else False)"

record 'k txn =
  tx_id :: int
  tx_state :: txn_state
  tx_isolation :: isolation_level
  tx_snapshot :: snapshot
  tx_writes :: "(string \<times> 'k) set"
  tx_reads :: "(string \<times> 'k) set"

section \<open>The manager\<close>

record ('k, 'd) mvcc =
  mv_next :: int
  mv_active :: "int list"
  mv_committed :: "int set"
  mv_aborted :: "int set"
  mv_txns :: "int \<Rightarrow> 'k txn option"
  mv_versions :: "(string \<times> ('k \<times> 'd version list) list) list"

definition mvcc_new :: "('k, 'd) mvcc" where
  "mvcc_new = \<lparr>mv_next = 1, mv_active = [], mv_committed = {}, mv_aborted = {},
     mv_txns = (\<lambda>_. None), mv_versions = []\<rparr>"

definition table_of :: "('k, 'd) mvcc \<Rightarrow> string \<Rightarrow> ('k \<times> 'd version list) list" where
  "table_of m t = (case assoc_get t (mv_versions m) of Some tb \<Rightarrow> tb | None \<Rightarrow> [])"

definition chain_of :: "('k, 'd) mvcc \<Rightarrow> string \<Rightarrow> 'k \<Rightarrow> 'd version list" where
  "chain_of m t k = (case assoc_get k (table_of m t) of Some c \<Rightarrow> c | None \<Rightarrow> [])"

definition set_chain :: "('k, 'd) mvcc \<Rightarrow> string \<Rightarrow> 'k \<Rightarrow> 'd version list \<Rightarrow> ('k, 'd) mvcc" where
  "set_chain m t k c = m\<lparr>mv_versions := assoc_put t (assoc_put k c (table_of m t)) (mv_versions m)\<rparr>"

definition map_chains ::
  "('d version list \<Rightarrow> 'd version list) \<Rightarrow> ('k, 'd) mvcc \<Rightarrow> ('k, 'd) mvcc"
where
  "map_chains f m = m\<lparr>mv_versions := map (\<lambda>(t, tb). (t, map (\<lambda>(k, c). (k, f c)) tb)) (mv_versions m)\<rparr>"

fun min_list_or :: "int \<Rightarrow> int list \<Rightarrow> int" where
  "min_list_or d [] = d"
| "min_list_or d (x # xs) = fold min xs x"

definition begin_transaction :: "('k, 'd) mvcc \<Rightarrow> isolation_level \<Rightarrow> ('k, 'd) mvcc \<times> int" where
  "begin_transaction m level =
     (let t = mv_next m;
          s = \<lparr>sn_txn_id = t, sn_active = set (mv_active m),
               sn_min_active = min_list_or t (mv_active m), sn_next_txn_id = t,
               sn_committed = Some (mv_committed m)\<rparr>;
          x = \<lparr>tx_id = t, tx_state = ACTIVE, tx_isolation = level, tx_snapshot = s,
               tx_writes = {}, tx_reads = {}\<rparr>
      in (m\<lparr>mv_next := t + 1, mv_active := mv_active m @ [t], mv_txns := (mv_txns m)(t \<mapsto> x)\<rparr>, t))"

text \<open>Rolling back: the newest version of a key goes if the transaction created it.\<close>

fun abort_chain :: "int \<Rightarrow> 'd version list \<Rightarrow> 'd version list" where
  "abort_chain t [] = []"
| "abort_chain t (v # vs) =
     (if v_xmin v = t then
        (case vs of
           [] \<Rightarrow> []
         | w # ws \<Rightarrow> (if v_xmax w = t then w\<lparr>v_xmax := 0\<rparr> else w) # ws)
      else if v_xmax v = t then v\<lparr>v_xmax := 0\<rparr> # vs
      else v # vs)"

definition set_state :: "('k, 'd) mvcc \<Rightarrow> int \<Rightarrow> txn_state \<Rightarrow> ('k, 'd) mvcc" where
  "set_state m t st =
     m\<lparr>mv_txns := (mv_txns m)(t := map_option (\<lambda>x. x\<lparr>tx_state := st\<rparr>) (mv_txns m t))\<rparr>"

definition do_abort :: "('k, 'd) mvcc \<Rightarrow> int \<Rightarrow> ('k, 'd) mvcc" where
  "do_abort m t =
     (let m1 = set_state m t ABORTED;
          m2 = m1\<lparr>mv_aborted := insert t (mv_aborted m1), mv_active := removeAll t (mv_active m1)\<rparr>
      in map_chains (abort_chain t) m2)"

definition abort_transaction :: "('k, 'd) mvcc \<Rightarrow> int \<Rightarrow> ('k, 'd) mvcc" where
  "abort_transaction = do_abort"

definition write_conflict :: "('k, 'd) mvcc \<Rightarrow> 'k txn \<Rightarrow> int \<Rightarrow> bool" where
  "write_conflict m x o_id =
     (case mv_txns m o_id of
        None \<Rightarrow> False
      | Some y \<Rightarrow> tx_id y \<noteq> tx_id x \<and> tx_state y = COMMITTED \<and> tx_writes x \<inter> tx_writes y \<noteq> {})"

definition commit_transaction :: "('k, 'd) mvcc \<Rightarrow> int \<Rightarrow> ('k, 'd) mvcc \<times> bool result" where
  "commit_transaction m t =
     (case mv_txns m t of
        None \<Rightarrow> (m, Inl KeyError)
      | Some x \<Rightarrow>
          (if tx_state x \<noteq> ACTIVE then (m, Inr False)
           else if list_ex (write_conflict m x) (mv_active m) then (do_abort m t, Inr False)
           else (let m1 = set_state m t COMMITTED;
                     m2 = m1\<lparr>mv_committed := insert t (mv_committed m1)\<rparr> in
                 if t \<in> set (mv_active m2) then (m2\<lparr>mv_active := removeAll t (mv_active m2)\<rparr>, Inr True)
                 else (m2, Inl KeyError))))"

definition add_write :: "('k, 'd) mvcc \<Rightarrow> int \<Rightarrow> string \<Rightarrow> 'k \<Rightarrow> ('k, 'd) mvcc" where
  "add_write m t tb k =
     m\<lparr>mv_txns := (mv_txns m)(t := map_option (\<lambda>x. x\<lparr>tx_writes := insert (tb, k) (tx_writes x)\<rparr>) (mv_txns m t))\<rparr>"

definition add_read :: "('k, 'd) mvcc \<Rightarrow> int \<Rightarrow> string \<Rightarrow> 'k \<Rightarrow> ('k, 'd) mvcc" where
  "add_read m t tb k =
     m\<lparr>mv_txns := (mv_txns m)(t := map_option (\<lambda>x. x\<lparr>tx_reads := insert (tb, k) (tx_reads x)\<rparr>) (mv_txns m t))\<rparr>"

definition busy :: "('k, 'd) mvcc \<Rightarrow> int \<Rightarrow> 'd version \<Rightarrow> bool" where
  "busy m t v = (v_xmax v \<noteq> 0 \<and> v_xmax v \<noteq> t \<and> v_xmax v \<in> set (mv_active m))"

definition write_version :: "('k, 'd) mvcc \<Rightarrow> int \<Rightarrow> string \<Rightarrow> 'k \<Rightarrow> 'd \<Rightarrow> ('k, 'd) mvcc \<times> bool" where
  "write_version m t tb k d =
     (let new = \<lparr>v_data = d, v_xmin = t, v_xmax = 0\<rparr> in
      case chain_of m tb k of
        [] \<Rightarrow> (add_write (set_chain m tb k [new]) t tb k, True)
      | v # vs \<Rightarrow>
          (if busy m t v then (m, False)
           else (add_write (set_chain m tb k (new # v\<lparr>v_xmax := t\<rparr> # vs)) t tb k, True)))"

fun find_visible :: "'d version list \<Rightarrow> int \<Rightarrow> snapshot \<Rightarrow> 'd option" where
  "find_visible [] t s = None"
| "find_visible (v # vs) t s = (if is_visible_to v t s then Some (v_data v) else find_visible vs t s)"

definition read_version :: "('k, 'd) mvcc \<Rightarrow> int \<Rightarrow> string \<Rightarrow> 'k \<Rightarrow> ('k, 'd) mvcc \<times> 'd option" where
  "read_version m t tb k =
     (case mv_txns m t of
        None \<Rightarrow> (m, None)
      | Some x \<Rightarrow>
          (case find_visible (chain_of m tb k) t (tx_snapshot x) of
             None \<Rightarrow> (m, None)
           | Some d \<Rightarrow> (add_read m t tb k, Some d)))"

definition delete_version :: "('k, 'd) mvcc \<Rightarrow> int \<Rightarrow> string \<Rightarrow> 'k \<Rightarrow> ('k, 'd) mvcc \<times> bool" where
  "delete_version m t tb k =
     (case chain_of m tb k of
        [] \<Rightarrow> (m, False)
      | v # vs \<Rightarrow>
          (if busy m t v then (m, False)
           else (add_write (set_chain m tb k (v\<lparr>v_xmax := t\<rparr> # vs)) t tb k, True)))"

text \<open>
  Garbage collection cuts a chain behind the first superseded version, after the newest, whose
  deleter is committed and older than every active transaction.
\<close>

fun gc_tail :: "int \<Rightarrow> int set \<Rightarrow> 'd version list \<Rightarrow> 'd version list \<times> nat" where
  "gc_tail mn com [] = ([], 0)"
| "gc_tail mn com [p] = ([p], 0)"
| "gc_tail mn com (p # q # vs) =
     (if v_xmax p \<noteq> 0 \<and> v_xmax p < mn \<and> v_xmax p \<in> com then ([p], 1)
      else (let (r, n) = gc_tail mn com (q # vs) in (p # r, n)))"

fun gc_chain :: "int \<Rightarrow> int set \<Rightarrow> 'd version list \<Rightarrow> 'd version list \<times> nat" where
  "gc_chain mn com [] = ([], 0)"
| "gc_chain mn com (v # vs) = (let (r, n) = gc_tail mn com vs in (v # r, n))"

definition garbage_collect :: "('k, 'd) mvcc \<Rightarrow> ('k, 'd) mvcc \<times> nat" where
  "garbage_collect m =
     (let mn = min_list_or (mv_next m) (mv_active m); f = gc_chain mn (mv_committed m)
      in (map_chains (\<lambda>c. fst (f c)) m,
          sum_list (map (\<lambda>(t, tb). sum_list (map (\<lambda>(k, c). snd (f c)) tb)) (mv_versions m))))"

section \<open>Reading through the operations\<close>

lemma chain_of_set [simp]:
  "chain_of (set_chain m t k c) t' k' = (if t' = t \<and> k' = k then c else chain_of m t' k')"
  by (auto simp: chain_of_def table_of_def set_chain_def assoc_get_put)

lemma chain_of_map: "f [] = [] \<Longrightarrow> chain_of (map_chains f m) t k = f (chain_of m t k)"
  by (auto simp: chain_of_def table_of_def map_chains_def assoc_get_map split: option.split)

lemma chain_of_frame [simp]:
  "chain_of (add_write m x tb k) t' k' = chain_of m t' k'"
  "chain_of (add_read m x tb k) t' k' = chain_of m t' k'"
  "chain_of (set_state m x st) t' k' = chain_of m t' k'"
  "chain_of (m\<lparr>mv_active := a\<rparr>) t' k' = chain_of m t' k'"
  "chain_of (m\<lparr>mv_committed := c\<rparr>) t' k' = chain_of m t' k'"
  "chain_of (m\<lparr>mv_aborted := b\<rparr>) t' k' = chain_of m t' k'"
  "chain_of (m\<lparr>mv_next := n\<rparr>) t' k' = chain_of m t' k'"
  "chain_of (m\<lparr>mv_txns := f\<rparr>) t' k' = chain_of m t' k'"
  by (simp_all add: chain_of_def table_of_def add_write_def add_read_def set_state_def)

section \<open>Steps of the manager\<close>

text \<open>
  One call, with the transaction that makes it.  Writes, deletes and aborts are made by active
  transactions; garbage collection is a step of its own.
\<close>

inductive mvcc_step :: "('k, 'd) mvcc \<Rightarrow> int \<Rightarrow> ('k, 'd) mvcc \<Rightarrow> bool" where
  begin_step: "begin_transaction m level = (m', t) \<Longrightarrow> mvcc_step m t m'"
| commit_step: "t \<in> set (mv_active m) \<Longrightarrow> commit_transaction m t = (m', r) \<Longrightarrow> mvcc_step m t m'"
| abort_step: "t \<in> set (mv_active m) \<Longrightarrow> mvcc_step m t (abort_transaction m t)"
| write_step: "t \<in> set (mv_active m) \<Longrightarrow> write_version m t tb k d = (m', ok) \<Longrightarrow> mvcc_step m t m'"
| delete_step: "t \<in> set (mv_active m) \<Longrightarrow> delete_version m t tb k = (m', ok) \<Longrightarrow> mvcc_step m t m'"
| read_step: "t \<in> set (mv_active m) \<Longrightarrow> read_version m t tb k = (m', d) \<Longrightarrow> mvcc_step m t m'"

inductive_cases mvcc_step_elim: "mvcc_step m t m'"

inductive mvcc_reach :: "('k, 'd) mvcc \<Rightarrow> bool" where
  init: "mvcc_reach mvcc_new"
| step: "mvcc_reach m \<Longrightarrow> mvcc_step m t m' \<Longrightarrow> mvcc_reach m'"
| collect: "mvcc_reach m \<Longrightarrow> mvcc_reach (fst (garbage_collect m))"

text \<open>
  The invariant relates the tables: identifiers are positive and below the counter, active
  transactions are exactly those in state ACTIVE, and a snapshot's committed set contains
  committed transactions only.
\<close>

definition txn_ok :: "('k, 'd) mvcc \<Rightarrow> int \<Rightarrow> 'k txn \<Rightarrow> bool" where
  "txn_ok m t x =
     (tx_id x = t \<and> 0 < t \<and> t < mv_next m \<and> (tx_state x = ACTIVE \<longleftrightarrow> t \<in> set (mv_active m)) \<and>
      (\<exists>c \<subseteq> mv_committed m. sn_committed (tx_snapshot x) = Some c \<and> c \<inter> sn_active (tx_snapshot x) = {}))"

definition mvcc_inv :: "('k, 'd) mvcc \<Rightarrow> bool" where
  "mvcc_inv m =
     (0 < mv_next m \<and> (\<forall>t x. mv_txns m t = Some x \<longrightarrow> txn_ok m t x) \<and>
      (\<forall>t \<in> set (mv_active m). mv_txns m t \<noteq> None) \<and>
      (\<forall>t \<in> mv_committed m. 0 < t \<and> t < mv_next m \<and> t \<notin> set (mv_active m)))"

lemma inv_frame:
  assumes "mvcc_inv m" "mv_next m' = mv_next m" "mv_active m' = mv_active m" "mv_committed m' = mv_committed m"
    "\<And>t. mv_txns m' t = None \<longleftrightarrow> mv_txns m t = None"
    "\<And>t x x'. mv_txns m t = Some x \<Longrightarrow> mv_txns m' t = Some x' \<Longrightarrow>
       tx_id x' = tx_id x \<and> tx_state x' = tx_state x \<and> tx_snapshot x' = tx_snapshot x"
  shows "mvcc_inv m'"
proof -
  have "txn_ok m' t x'" if "mv_txns m' t = Some x'" for t x'
  proof -
    obtain x where "mv_txns m t = Some x" using assms(5) [of t] \<open>mv_txns m' t = Some x'\<close> by auto
    then show ?thesis using assms(1-4) assms(6) [OF _ that] unfolding mvcc_inv_def txn_ok_def by auto
  qed
  moreover have "\<forall>t \<in> set (mv_active m'). mv_txns m' t \<noteq> None" using assms(1,3,5) by (simp add: mvcc_inv_def)
  ultimately show ?thesis using assms(1-4) by (simp add: mvcc_inv_def)
qed

lemma inv_chains:
  assumes "mvcc_inv m"
  shows "mvcc_inv (add_write m t tb k)" "mvcc_inv (add_read m t tb k)" "mvcc_inv (set_chain m tb k c)"
    "mvcc_inv (map_chains f m)"
  by (rule inv_frame [OF assms];
      auto simp: add_write_def add_read_def set_chain_def map_chains_def split: if_splits)+

lemma inv_abort:
  assumes "mvcc_inv m"
  shows "mvcc_inv (do_abort m t)"
proof -
  let ?m = "(set_state m t ABORTED)\<lparr>mv_aborted := insert t (mv_aborted m), mv_active := removeAll t (mv_active m)\<rparr>"
  have "mvcc_inv ?m"
    using assms by (auto simp: mvcc_inv_def txn_ok_def set_state_def)
  from inv_chains(4) [OF this] show ?thesis
    by (simp add: do_abort_def Let_def set_state_def)
qed

lemma inv_txn: "mvcc_inv m \<Longrightarrow> mv_txns m t = Some x \<Longrightarrow> txn_ok m t x"
  by (simp add: mvcc_inv_def)

lemma inv_active:
  assumes "mvcc_inv m" "t \<in> set (mv_active m)"
  obtains x where "mv_txns m t = Some x" "txn_ok m t x" "tx_state x = ACTIVE"
proof -
  obtain x where "mv_txns m t = Some x" using assms by (auto simp: mvcc_inv_def)
  moreover from inv_txn [OF assms(1) this] have "txn_ok m t x" "tx_state x = ACTIVE"
    using assms(2) by (simp_all add: txn_ok_def)
  ultimately show thesis by (rule that)
qed

lemma no_conflict:
  assumes "mvcc_inv m"
  shows "\<not> list_ex (write_conflict m x) (mv_active m)"
proof -
  have "\<not> write_conflict m x t" if t: "t \<in> set (mv_active m)" for t
  proof -
    obtain y where "mv_txns m t = Some y" "tx_state y = ACTIVE" by (rule inv_active [OF assms t])
    then show ?thesis by (simp add: write_conflict_def)
  qed
  then show ?thesis by (simp add: list_ex_iff)
qed

lemma inv_commit:
  assumes "mvcc_inv m" "mv_txns m t = Some x" "t \<in> set (mv_active m)"
  shows "commit_transaction m t =
      ((set_state m t COMMITTED)\<lparr>mv_committed := insert t (mv_committed m),
         mv_active := removeAll t (mv_active m)\<rparr>, Inr True)"
    and "mvcc_inv ((set_state m t COMMITTED)\<lparr>mv_committed := insert t (mv_committed m),
         mv_active := removeAll t (mv_active m)\<rparr>)"
proof -
  have st: "tx_state x = ACTIVE" "0 < t" "t < mv_next m"
    using inv_txn [OF assms(1,2)] assms(3) by (simp_all add: txn_ok_def)
  show "commit_transaction m t =
      ((set_state m t COMMITTED)\<lparr>mv_committed := insert t (mv_committed m),
         mv_active := removeAll t (mv_active m)\<rparr>, Inr True)"
    using assms(2,3) st no_conflict [OF assms(1)]
    by (simp add: commit_transaction_def Let_def set_state_def)
  show "mvcc_inv ((set_state m t COMMITTED)\<lparr>mv_committed := insert t (mv_committed m),
         mv_active := removeAll t (mv_active m)\<rparr>)"
  proof -
    let ?m = "(set_state m t COMMITTED)\<lparr>mv_committed := insert t (mv_committed m),
         mv_active := removeAll t (mv_active m)\<rparr>"
    have "txn_ok ?m u y" if y: "mv_txns ?m u = Some y" for u y
    proof -
      obtain z where z: "mv_txns m u = Some z"
        "y = (if u = t then z\<lparr>tx_state := COMMITTED\<rparr> else z)"
        using y by (auto simp: set_state_def split: if_splits)
      from inv_txn [OF assms(1) z(1)] show ?thesis
        unfolding txn_ok_def z(2) by (auto simp: set_state_def)
    qed
    moreover have "mv_txns ?m u \<noteq> None" if "u \<in> set (mv_active ?m)" for u
      using assms(1) that by (auto simp: mvcc_inv_def set_state_def)
    moreover have "0 < u \<and> u < mv_next m \<and> u \<notin> set (mv_active m)" if "u \<in> mv_committed m" for u
      using assms(1) that by (simp add: mvcc_inv_def)
    moreover have "0 < mv_next m" using assms(1) by (simp add: mvcc_inv_def)
    ultimately show ?thesis
      using st(2,3) unfolding mvcc_inv_def by (simp add: set_state_def)
  qed
qed

lemma inv_begin:
  assumes "mvcc_inv m"
  shows "mvcc_inv (fst (begin_transaction m level))"
proof -
  let ?m = "fst (begin_transaction m level)"
  have m': "mv_next ?m = mv_next m + 1" "mv_active ?m = mv_active m @ [mv_next m]"
    "mv_committed ?m = mv_committed m" "0 < mv_next m"
    using assms by (simp_all add: begin_transaction_def Let_def mvcc_inv_def)
  have "txn_ok ?m t x" if x: "mv_txns ?m t = Some x" for t x
  proof (cases "t = mv_next m")
    case True
    then have "tx_id x = t" "tx_state x = ACTIVE" "sn_committed (tx_snapshot x) = Some (mv_committed m)"
      "sn_active (tx_snapshot x) = set (mv_active m)"
      using x by (auto simp: begin_transaction_def Let_def)
    moreover have "mv_committed m \<inter> set (mv_active m) = {}" using assms by (auto simp: mvcc_inv_def)
    ultimately show ?thesis using m' True by (auto simp: txn_ok_def)
  next
    case False
    then have "mv_txns m t = Some x" using x by (simp add: begin_transaction_def Let_def)
    then have "txn_ok m t x" by (rule inv_txn [OF assms])
    then show ?thesis using m' False by (simp add: txn_ok_def)
  qed
  moreover have "mv_txns ?m t \<noteq> None" if "t \<in> set (mv_active ?m)" for t
    using that m'(2) assms by (auto simp: begin_transaction_def Let_def mvcc_inv_def)
  moreover have "0 < t \<and> t < mv_next ?m \<and> t \<notin> set (mv_active ?m)" if "t \<in> mv_committed ?m" for t
    using that m' assms by (auto simp: mvcc_inv_def)
  ultimately show ?thesis using m'(1,4) by (simp add: mvcc_inv_def)
qed

lemma step_inv: "mvcc_step m t m' \<Longrightarrow> mvcc_inv m \<Longrightarrow> mvcc_inv m'"
proof (induction rule: mvcc_step.induct)
  case (begin_step m level m' t)
  then show ?case using inv_begin [of m level] by simp
next
  case (commit_step t m m' r)
  then obtain x where "mv_txns m t = Some x" by (auto simp: mvcc_inv_def)
  then show ?case using inv_commit [of m t x] commit_step by simp
next
  case (abort_step t m)
  then show ?case by (simp add: abort_transaction_def inv_abort)
next
  case (write_step t m tb k d m' ok)
  then show ?case
    by (auto simp: write_version_def Let_def inv_chains split: list.splits if_splits)
next
  case (delete_step t m tb k m' ok)
  then show ?case by (auto simp: delete_version_def inv_chains split: list.splits if_splits)
next
  case (read_step t m tb k m' d)
  then show ?case by (auto simp: read_version_def inv_chains split: option.splits)
qed

lemma reach_inv: "mvcc_reach m \<Longrightarrow> mvcc_inv m"
proof (induction rule: mvcc_reach.induct)
  case init
  then show ?case by (simp add: mvcc_inv_def mvcc_new_def)
next
  case (step m t m')
  then show ?case using step_inv by blast
next
  case (collect m)
  then show ?case by (simp add: garbage_collect_def Let_def inv_chains)
qed

section \<open>What a snapshot sees\<close>

text \<open>A superseding transaction the snapshot does not know leaves a version as visible as it was.\<close>

lemma visible_superseded:
  assumes "u \<noteq> t" "\<not> is_committed s u" "v_xmax v \<noteq> t" "\<not> is_committed s (v_xmax v)"
  shows "is_visible_to (v\<lparr>v_xmax := u\<rparr>) t s = is_visible_to v t s"
  using assms by (simp add: is_visible_to_def)

lemma invisible_foreign: "v_xmin v \<noteq> t \<Longrightarrow> \<not> is_committed s (v_xmin v) \<Longrightarrow> \<not> is_visible_to v t s"
  by (simp add: is_visible_to_def)

lemma abort_chain_read:
  assumes "u \<noteq> t" "\<not> is_committed s u" "t \<noteq> 0" "\<not> is_committed s 0"
  shows "find_visible (abort_chain u c) t s = find_visible c t s"
proof (cases c)
  case (Cons v vs)
  have vis: "is_visible_to (w\<lparr>v_xmax := 0\<rparr>) t s = is_visible_to w t s" if "v_xmax w = u" for w :: "'a version"
    using that assms by (simp add: is_visible_to_def)
  show ?thesis
  proof (cases "v_xmin v = u")
    case True
    then have "\<not> is_visible_to v t s" using invisible_foreign [of v t s] assms(1,2) by simp
    then show ?thesis using Cons True vis by (simp split: list.split)
  next
    case False
    then show ?thesis using Cons vis by simp
  qed
qed simp

definition head_deleted :: "snapshot \<Rightarrow> 'd version list \<Rightarrow> bool" where
  "head_deleted s c = (case c of [] \<Rightarrow> False | v # _ \<Rightarrow> is_committed s (v_xmax v))"

lemma read_version_result:
  "mv_txns m t = Some x \<Longrightarrow>
   snd (read_version m t tb k) = find_visible (chain_of m tb k) t (tx_snapshot x)"
  by (auto simp: read_version_def split: option.split)

lemma step_chain_read:
  assumes inv: "mvcc_inv m" and t: "t \<in> set (mv_active m)" "mv_txns m t = Some x"
    and st: "mvcc_step m u m'" and ut: "u \<noteq> t"
    and hd: "\<not> head_deleted (tx_snapshot x) (chain_of m tb k)"
  shows "find_visible (chain_of m' tb k) t (tx_snapshot x) = find_visible (chain_of m tb k) t (tx_snapshot x)"
proof -
  let ?s = "tx_snapshot x"
  obtain c where c: "c \<subseteq> mv_committed m" "sn_committed ?s = Some c" and tx: "0 < t"
    using inv_txn [OF inv t(2)] by (auto simp: txn_ok_def)
  have com: "is_committed ?s i \<longleftrightarrow> i \<in> c" for i by (simp add: is_committed_def c(2))
  have range: "0 < i \<and> i < mv_next m \<and> i \<notin> set (mv_active m)" if "i \<in> c" for i
    using inv c(1) that by (auto simp: mvcc_inv_def)
  have zero: "\<not> is_committed ?s 0" using com range [of 0] by auto
  from st show ?thesis
  proof (cases rule: mvcc_step.cases)
    case (begin_step level)
    then show ?thesis by (auto simp: begin_transaction_def Let_def)
  next
    case (commit_step r)
    obtain y where "mv_txns m u = Some y" by (rule inv_active [OF inv commit_step(1)])
    then show ?thesis using inv_commit(1) [OF inv _ commit_step(1)] commit_step(2) by auto
  next
    case abort_step
    then have "\<not> is_committed ?s u" using com range [of u] by blast
    then show ?thesis
      using abort_chain_read [OF ut _ _ zero, of "chain_of m tb k"] abort_step(1) tx
      by (simp add: abort_transaction_def do_abort_def Let_def chain_of_map)
  next
    case (write_step tb' k' d ok)
    then have u: "\<not> is_committed ?s u" using com range [of u] by blast
    show ?thesis
    proof (cases "chain_of m tb k")
      case Nil
      then show ?thesis using write_step(2) u ut
        by (auto simp: write_version_def Let_def is_visible_to_def split: list.splits if_splits)
    next
      case (Cons v vs)
      have "is_visible_to (v\<lparr>v_xmax := u\<rparr>) t ?s = is_visible_to v t ?s" if "\<not> busy m u v"
        using visible_superseded [OF ut u, of v] hd that t(1) tx ut Cons
        by (auto simp: head_deleted_def busy_def)
      moreover have "\<not> is_visible_to \<lparr>v_data = d, v_xmin = u, v_xmax = 0\<rparr> t ?s"
        using u ut by (simp add: is_visible_to_def)
      ultimately show ?thesis using write_step(2) Cons
        by (cases "tb' = tb \<and> k' = k")
          (auto simp: write_version_def Let_def split: list.splits if_splits)
    qed
  next
    case (delete_step tb' k' ok)
    then have u: "\<not> is_committed ?s u" using com range [of u] by blast
    show ?thesis
    proof (cases "chain_of m tb k")
      case Nil
      then show ?thesis using delete_step(2)
        by (auto simp: delete_version_def split: list.splits if_splits)
    next
      case (Cons v vs)
      have "is_visible_to (v\<lparr>v_xmax := u\<rparr>) t ?s = is_visible_to v t ?s" if "\<not> busy m u v"
        using visible_superseded [OF ut u, of v] hd that t(1) tx ut Cons
        by (auto simp: head_deleted_def busy_def)
      then show ?thesis using delete_step(2) Cons
        by (cases "tb' = tb \<and> k' = k")
          (auto simp: delete_version_def split: list.splits if_splits)
    qed
  next
    case (read_step tb' k' d)
    then show ?thesis by (auto simp: read_version_def split: option.splits)
  qed
qed

lemma step_txn_kept:
  assumes inv: "mvcc_inv m" and t: "mv_txns m t = Some x" and st: "mvcc_step m u m'" and ut: "u \<noteq> t"
  shows "mv_txns m' t = Some x"
proof -
  have nt: "mv_next m \<noteq> t" using inv_txn [OF inv t] by (simp add: txn_ok_def)
  from st ut t nt show ?thesis
    by (induction rule: mvcc_step.induct)
      (auto simp: begin_transaction_def commit_transaction_def abort_transaction_def do_abort_def
        write_version_def delete_version_def read_version_def add_write_def add_read_def set_chain_def
        map_chains_def set_state_def Let_def split: list.splits option.splits if_splits)
qed

section \<open>Schedules\<close>

text \<open>A schedule is a list of calls; a call by a transaction that is not active is skipped.\<close>

datatype ('k, 'd) call =
    Begin
  | BeginAt isolation_level
  | Commit int
  | Abort int
  | Write int string 'k 'd
  | Delete int string 'k
  | Read int string 'k
  | Collect

fun run_call :: "('k, 'd) mvcc \<Rightarrow> ('k, 'd) call \<Rightarrow> ('k, 'd) mvcc" where
  "run_call m Begin = fst (begin_transaction m SNAPSHOT)"
| "run_call m (BeginAt level) = fst (begin_transaction m level)"
| "run_call m (Commit t) = (if t \<in> set (mv_active m) then fst (commit_transaction m t) else m)"
| "run_call m (Abort t) = (if t \<in> set (mv_active m) then abort_transaction m t else m)"
| "run_call m (Write t tb k d) = (if t \<in> set (mv_active m) then fst (write_version m t tb k d) else m)"
| "run_call m (Delete t tb k) = (if t \<in> set (mv_active m) then fst (delete_version m t tb k) else m)"
| "run_call m (Read t tb k) = (if t \<in> set (mv_active m) then fst (read_version m t tb k) else m)"
| "run_call m Collect = fst (garbage_collect m)"

definition mvcc_run :: "('k, 'd) call list \<Rightarrow> ('k, 'd) mvcc" where
  "mvcc_run cs = foldl run_call mvcc_new cs"

lemma run_call_reach: "mvcc_reach m \<Longrightarrow> mvcc_reach (run_call m c)"
proof -
  assume m: "mvcc_reach m"
  have "mvcc_step m t (fst (begin_transaction m level))" if "t = mv_next m" for t level
    using that mvcc_step.begin_step [OF prod.collapse [symmetric]]
    by (metis begin_transaction_def snd_conv)
  then show ?thesis
    using m
    by (cases c; simp)
      (blast intro: mvcc_reach.collect mvcc_reach.step mvcc_step.intros prod.collapse [symmetric])+
qed

lemma run_reach: "mvcc_reach (mvcc_run cs)"
  unfolding mvcc_run_def
  by (induction cs rule: rev_induct) (auto intro: run_call_reach mvcc_reach.init)

lemmas mvcc_ops =
  begin_transaction_def commit_transaction_def abort_transaction_def do_abort_def write_version_def
  delete_version_def read_version_def add_write_def add_read_def set_state_def set_chain_def
  chain_of_def table_of_def busy_def write_conflict_def map_chains_def garbage_collect_def
  is_visible_to_def is_committed_def mvcc_new_def mvcc_run_def

text \<open>Transaction 1 wrote a row and committed; 2 and 3 are active.\<close>

definition base_calls :: "(nat, nat) call list" where
  "base_calls = [Begin, Write 1 ''t'' 0 10, Commit 1, Begin, Begin]"

section \<open>Properties\<close>

text \<open>The level a transaction asks for decides nothing: its snapshot is the one of its beginning.\<close>

lemma isolation_level_ignored:
  assumes "begin_transaction m level = (m1, t)"
  shows "\<exists>x. mv_txns m1 t = Some x \<and> tx_isolation x = level \<and>
    tx_snapshot x = \<lparr>sn_txn_id = t, sn_active = set (mv_active m), sn_min_active = min_list_or t (mv_active m),
      sn_next_txn_id = t, sn_committed = Some (mv_committed m)\<rparr>"
  using assms by (auto simp: begin_transaction_def Let_def)

text \<open>
  C19: an active transaction keeps reading the same value of a key whatever one other
  transaction does next (begin, commit, abort, write or delete, on this key or another), as long
  as the key's newest version was not already deleted in the reader's snapshot; and the reader's
  snapshot itself never changes.  This holds at every isolation level, as the level is not looked
  at: also a \<^verbatim>\<open>READ COMMITTED\<close> transaction, to which the comment on snapshots promises a
  new one for each statement, goes on reading from the snapshot of its beginning.
\<close>

theorem snapshot_read_stable:
  assumes "mvcc_reach m" "t \<in> set (mv_active m)" "mv_txns m t = Some x"
    and "mvcc_step m u m'" "u \<noteq> t" "\<not> head_deleted (tx_snapshot x) (chain_of m tb k)"
  shows "mv_txns m' t = Some x \<and>
    snd (read_version m' t tb k) = snd (read_version m t tb k)"
proof -
  have inv: "mvcc_inv m" by (rule reach_inv [OF assms(1)])
  have x: "mv_txns m' t = Some x" by (rule step_txn_kept [OF inv assms(3-5)])
  then show ?thesis
    using step_chain_read [OF inv assms(2-6)]
    by (simp add: read_version_result [OF x] read_version_result [OF assms(3)])
qed

text \<open>Transaction 2 runs at \<^verbatim>\<open>READ COMMITTED\<close>; 3 has overwritten the row and commits.\<close>

definition committing_calls :: "(nat, nat) call list" where
  "committing_calls = [Begin, Write 1 ''t'' 0 10, Commit 1, BeginAt READ_COMMITTED, Begin, Write 3 ''t'' 0 11]"

lemma snapshot_read_stable_witness:
  "map_option tx_isolation (mv_txns (mvcc_run committing_calls) 2) = Some READ_COMMITTED \<and>
   snd (commit_transaction (mvcc_run committing_calls) 3) = Inr True \<and>
   snd (read_version (run_call (mvcc_run committing_calls) (Commit 3)) 2 ''t'' 0) = Some 10"
proof -
  have a: "2 \<in> set (mv_active (mvcc_run committing_calls))" "3 \<in> set (mv_active (mvcc_run committing_calls))"
    "map_option tx_isolation (mv_txns (mvcc_run committing_calls) 2) = Some READ_COMMITTED"
    "snd (commit_transaction (mvcc_run committing_calls) 3) = Inr True"
    "snd (read_version (mvcc_run committing_calls) 2 ''t'' 0) = Some 10"
    by (simp_all add: committing_calls_def mvcc_ops Let_def)
  then obtain x where x: "mv_txns (mvcc_run committing_calls) 2 = Some x" by auto
  have "mvcc_step (mvcc_run committing_calls) 3 (run_call (mvcc_run committing_calls) (Commit 3))"
    using a(2) by (auto intro: mvcc_step.commit_step simp: prod_eq_iff)
  moreover have "\<not> head_deleted (tx_snapshot x) (chain_of (mvcc_run committing_calls) ''t'' 0)"
    using x by (auto simp: head_deleted_def committing_calls_def mvcc_ops Let_def)
  ultimately have "snd (read_version (run_call (mvcc_run committing_calls) (Commit 3)) 2 ''t'' 0) =
      snd (read_version (mvcc_run committing_calls) 2 ''t'' 0)"
    using snapshot_read_stable [OF run_reach a(1) x] by simp
  then show ?thesis using a(3-5) by simp
qed

text \<open>
  A transaction reads what it wrote: after a write it was allowed to make, its own read of
  the key returns the new data.
\<close>

theorem read_own_write:
  assumes "mvcc_reach m" "mv_txns m t = Some x" "write_version m t tb k d = (m', True)"
  shows "snd (read_version m' t tb k) = Some d"
proof -
  have "0 < t" using inv_txn [OF reach_inv [OF assms(1)] assms(2)] by (simp add: txn_ok_def)
  moreover obtain vs where "chain_of m' tb k = \<lparr>v_data = d, v_xmin = t, v_xmax = 0\<rparr> # vs"
    using assms(3) by (auto simp: write_version_def Let_def split: list.splits if_splits)
  moreover have "mv_txns m' t \<noteq> None"
    using assms(2,3) by (auto simp: write_version_def Let_def add_write_def set_chain_def
      split: list.splits if_splits)
  ultimately show ?thesis by (auto simp: read_version_def is_visible_to_def)
qed

lemma read_own_write_witness:
  "snd (read_version (fst (write_version (mvcc_run base_calls) 2 ''t'' 0 11)) 2 ''t'' 0) = Some 11"
proof -
  have "mv_txns (mvcc_run base_calls) 2 \<noteq> None"
    by (simp add: base_calls_def mvcc_ops Let_def)
  moreover have "snd (write_version (mvcc_run base_calls) 2 ''t'' 0 11)"
    by (simp add: base_calls_def mvcc_ops Let_def)
  ultimately show ?thesis
    using read_own_write [OF run_reach, of base_calls 2 _ "''t''" 0 11] by (auto simp: prod_eq_iff)
qed

text \<open>
  The announced first-updater-wins rule is not enforced: whatever the history, when one
  active transaction has written a key, another active one can overwrite it and both commit;
  the first update is lost.
\<close>

theorem both_writers_commit:
  assumes "mvcc_reach m" "t \<in> set (mv_active m)" "u \<in> set (mv_active m)" "t \<noteq> u"
    and "write_version m t tb k d = (m1, True)"
  shows "\<exists>m2 m3 m4. write_version m1 u tb k e = (m2, True) \<and>
    commit_transaction m2 t = (m3, Inr True) \<and> commit_transaction m3 u = (m4, Inr True)"
proof -
  obtain vs where c: "chain_of m1 tb k = \<lparr>v_data = d, v_xmin = t, v_xmax = 0\<rparr> # vs"
    using assms(5) by (auto simp: write_version_def Let_def split: list.splits if_splits)
  have r1: "mvcc_reach m1" "mv_active m1 = mv_active m"
    using mvcc_reach.step [OF assms(1) mvcc_step.write_step [OF assms(2,5)]] assms(5)
    by (auto simp: write_version_def Let_def add_write_def set_chain_def split: list.splits if_splits)
  obtain m2 where w: "write_version m1 u tb k e = (m2, True)" "mv_active m2 = mv_active m"
    using c r1(2) by (simp add: write_version_def busy_def add_write_def set_chain_def)
  have i2: "mvcc_inv m2"
    using mvcc_reach.step [OF r1(1) mvcc_step.write_step [OF _ w(1)]] r1(2) assms(3) reach_inv by simp
  obtain x where "mv_txns m2 t = Some x"
    using inv_active [OF i2, of t] w(2) assms(2) by auto
  note t = inv_commit [OF i2 this] w(2) assms(2)
  define m3 where "m3 = fst (commit_transaction m2 t)"
  have m3: "commit_transaction m2 t = (m3, Inr True)" "mvcc_inv m3" "u \<in> set (mv_active m3)"
    using t assms(3,4) by (simp_all add: m3_def)
  obtain y where "mv_txns m3 u = Some y"
    using inv_active [OF m3(2,3)] by auto
  then show ?thesis using w(1) m3 inv_commit(1) [OF m3(2)] by blast
qed

lemma both_writers_commit_witness:
  "\<exists>m2 m3 m4. write_version (fst (write_version (mvcc_run base_calls) 2 ''t'' 0 11)) 3 ''t'' 0 12 = (m2, True) \<and>
    commit_transaction m2 2 = (m3, Inr True) \<and> commit_transaction m3 3 = (m4, Inr True)"
  by (rule both_writers_commit [of "mvcc_run base_calls" 2 3 "''t''" 0 11, OF run_reach])
    (simp_all add: base_calls_def mvcc_ops Let_def prod_eq_iff)

text \<open>
  A deleted row comes back: when the newest version of a key was deleted by a transaction
  committed in the reader's snapshot, the reader does not see it; as soon as any other active
  transaction writes the key, before it commits, the reader sees the deleted data.
\<close>

theorem deleted_row_resurrects:
  assumes "mvcc_reach m" "t \<in> set (mv_active m)" "u \<in> set (mv_active m)" "u \<noteq> t"
    and "mv_txns m t = Some x" "chain_of m tb k = v # vs"
    and "is_committed (tx_snapshot x) (v_xmin v)" "is_committed (tx_snapshot x) (v_xmax v)"
  shows "\<not> is_visible_to v t (tx_snapshot x) \<and>
    (\<exists>m'. write_version m u tb k d = (m', True) \<and> snd (read_version m' t tb k) = Some (v_data v))"
proof -
  let ?s = "tx_snapshot x"
  have inv: "mvcc_inv m" by (rule reach_inv [OF assms(1)])
  obtain c where c: "c \<subseteq> mv_committed m" "sn_committed ?s = Some c" "c \<inter> sn_active ?s = {}"
    using inv_txn [OF inv assms(5)] by (auto simp: txn_ok_def)
  have com: "is_committed ?s i \<longleftrightarrow> i \<in> c" for i by (simp add: is_committed_def c(2))
  have range: "0 < i \<and> i \<notin> set (mv_active m)" if "i \<in> c" for i
    using inv c(1) that by (auto simp: mvcc_inv_def)
  have v: "v_xmin v \<in> c" "v_xmax v \<in> c" using assms(7,8) com by simp_all
  have ne: "v_xmin v \<noteq> t" "v_xmax v \<noteq> t" "v_xmax v \<noteq> 0" "v_xmin v \<notin> sn_active ?s"
    "v_xmax v \<notin> sn_active ?s" "u \<notin> c" "0 \<notin> c"
    using range [OF v(1)] range [OF v(2)] range [of u] range [of 0] v c(3) assms(2,3) by auto
  have "\<not> is_visible_to v t ?s" using ne v by (simp add: is_visible_to_def com)
  moreover have "\<not> is_visible_to \<lparr>v_data = d, v_xmin = u, v_xmax = 0\<rparr> t ?s"
    "is_visible_to (v\<lparr>v_xmax := u\<rparr>) t ?s"
    using ne v assms(4) by (simp_all add: is_visible_to_def com)
  moreover have "\<not> busy m u v" using range [OF v(2)] by (simp add: busy_def)
  moreover have "mv_txns (add_write (set_chain m tb k ch) u tb k) t = Some x" for ch
    using assms(4,5) by (simp add: add_write_def set_chain_def)
  ultimately show ?thesis
    using assms(6) by (simp add: write_version_def Let_def read_version_result)
qed

text \<open>Transaction 1 wrote a row, 2 deleted it, both committed; 3 and 4 are active.\<close>

definition deleted_calls :: "(nat, nat) call list" where
  "deleted_calls = [Begin, Write 1 ''t'' 0 10, Commit 1, Begin, Delete 2 ''t'' 0, Commit 2, Begin, Begin]"

lemma deleted_row_resurrects_witness:
  "\<exists>m'. write_version (mvcc_run deleted_calls) 4 ''t'' 0 11 = (m', True) \<and>
    snd (read_version m' 3 ''t'' 0) = Some 10"
proof -
  have a: "3 \<in> set (mv_active (mvcc_run deleted_calls))" "4 \<in> set (mv_active (mvcc_run deleted_calls))"
    "mv_txns (mvcc_run deleted_calls) 3 \<noteq> None"
    "chain_of (mvcc_run deleted_calls) ''t'' 0 = [\<lparr>v_data = 10, v_xmin = 1, v_xmax = 2\<rparr>]"
    by (simp_all add: deleted_calls_def mvcc_ops Let_def)
  then obtain x where x: "mv_txns (mvcc_run deleted_calls) 3 = Some x" by blast
  have "sn_committed (tx_snapshot x) = Some {1, 2}"
    using x by (auto simp: deleted_calls_def mvcc_ops Let_def)
  then show ?thesis
    using deleted_row_resurrects [OF run_reach a(1,2) _ x a(4)] by (simp add: is_committed_def)
qed

text \<open>
  Garbage collection can remove a version an active transaction still reads.  Transaction 2
  rewrites a row twice while 3 is active and commits: 3 keeps reading the original until a
  collection runs, and finds nothing afterwards.
\<close>

theorem collection_drops_visible_version:
  "let m = mvcc_run [Begin, Write 1 ''t'' (0::nat) (10::nat), Commit 1, Begin, Begin,
       Write 2 ''t'' 0 11, Write 2 ''t'' 0 12, Commit 2];
       (m', n) = garbage_collect m
   in snd (read_version m 3 ''t'' 0) = Some 10 \<and> n = 1 \<and> snd (read_version m' 3 ''t'' 0) = None"
  by (simp add: mvcc_ops Let_def)

end
