(* ===== verification/BTree.thy ===== *)
theory BTree
  imports Py_Data
begin

text \<open>
  The B+ tree of \<^verbatim>\<open>src/pysql/storage/btree.py\<close>.  A leaf is the list of
  its key-value pairs (the code keeps two parallel lists and changes both at the same place); an
  internal node has separator keys and children.  Parent and sibling links are not stored: the
  parent is the node the recursion came from, and the \<^verbatim>\<open>next_leaf\<close> chain
  from a leaf is the list of the leaves from there on in tree order, which is how every
  operation keeps it.  Keys are of a linearly ordered type; values are never \<^verbatim>\<open>None\<close>.
\<close>

section \<open>Nodes\<close>

datatype ('k, 'v) bnode = Leaf "('k \<times> 'v) list" | Node "'k list" "('k, 'v) bnode list"

record ('k, 'v) btree =
  bt_order :: nat
  bt_root :: "('k, 'v) bnode"
  bt_size :: int
  bt_height :: int

definition btree_new :: "nat \<Rightarrow> ('k, 'v) btree result" where
  "btree_new n =
     (if n < 3 then Inl ValueError
      else Inr \<lparr>bt_order = n, bt_root = Leaf [], bt_size = 0, bt_height = 1\<rparr>)"

definition min_keys :: "nat \<Rightarrow> nat" where
  "min_keys n = (n - 1) div 2"

fun num_keys :: "('k, 'v) bnode \<Rightarrow> nat" where
  "num_keys (Leaf kvs) = length kvs"
| "num_keys (Node ks cs) = length ks"

function bisect_loop :: "'k::linorder list \<Rightarrow> 'k \<Rightarrow> nat \<Rightarrow> nat \<Rightarrow> nat" where
  "bisect_loop xs x lo hi =
     (if lo < hi then
        (let mid = (lo + hi) div 2 in
         if xs ! mid \<le> x then bisect_loop xs x (mid + 1) hi else bisect_loop xs x lo mid)
      else lo)"
  by auto
termination by (relation "measure (\<lambda>(xs, x, lo, hi). hi - lo)") auto

declare bisect_loop.simps [simp del]

definition bisect_right :: "'k::linorder list \<Rightarrow> 'k \<Rightarrow> nat" where
  "bisect_right xs x = bisect_loop xs x 0 (length xs)"

definition insert_at :: "nat \<Rightarrow> 'a \<Rightarrow> 'a list \<Rightarrow> 'a list" where
  "insert_at i x xs = take i xs @ x # drop i xs"

definition delete_at :: "nat \<Rightarrow> 'a list \<Rightarrow> 'a list" where
  "delete_at i xs = take i xs @ drop (i + 1) xs"

lemma size_nth_child [termination_simp]:
  "i < length cs \<Longrightarrow> size (cs ! i) < Suc (n + size_list size cs)"
  by (metis add_Suc_right le_add2 less_Suc_eq_le nth_mem order_le_less_trans size_list_estimation' order_refl)

section \<open>Lookups and scans\<close>

fun leaves :: "('k, 'v) bnode \<Rightarrow> ('k \<times> 'v) list list" where
  "leaves (Leaf kvs) = [kvs]"
| "leaves (Node ks cs) = concat (map leaves cs)"

text \<open>The leaf a key belongs to, with the leaves its \<^verbatim>\<open>next_leaf\<close> links lead to.\<close>

fun find_leaf :: "('k::linorder, 'v) bnode \<Rightarrow> 'k \<Rightarrow> ('k \<times> 'v) list list result" where
  "find_leaf (Leaf kvs) k = Inr [kvs]"
| "find_leaf (Node ks cs) k =
     (let i = bisect_right ks k in
      if i < length cs then
        bindr (find_leaf (cs ! i) k) (\<lambda>ls. Inr (ls @ concat (map leaves (drop (i + 1) cs))))
      else Inl IndexError)"

fun search_pairs :: "'k \<Rightarrow> ('k \<times> 'v) list \<Rightarrow> 'v option" where
  "search_pairs k [] = None"
| "search_pairs k ((k', v) # kvs) = (if k' = k then Some v else search_pairs k kvs)"

definition search :: "('k::linorder, 'v) btree \<Rightarrow> 'k \<Rightarrow> 'v option result" where
  "search t k = bindr (find_leaf (bt_root t) k) (\<lambda>ls. Inr (search_pairs k (hd ls)))"

definition contains :: "('k::linorder, 'v) btree \<Rightarrow> 'k \<Rightarrow> bool result" where
  "contains t k = bindr (search t k) (\<lambda>r. Inr (r \<noteq> None))"

fun collect_equal :: "'k::linorder \<Rightarrow> ('k \<times> 'v) list \<Rightarrow> 'v list" where
  "collect_equal k [] = []"
| "collect_equal k ((k', v) # kvs) =
     (if k' = k then v # collect_equal k kvs else if k' > k then [] else collect_equal k kvs)"

definition search_all :: "('k::linorder, 'v) btree \<Rightarrow> 'k \<Rightarrow> 'v list result" where
  "search_all t k = bindr (find_leaf (bt_root t) k) (\<lambda>ls. Inr (collect_equal k (concat ls)))"

definition too_low :: "'k::linorder option \<Rightarrow> bool \<Rightarrow> 'k \<Rightarrow> bool" where
  "too_low low inc k = (case low of None \<Rightarrow> False | Some l \<Rightarrow> if inc then k < l else k \<le> l)"

definition too_high :: "'k::linorder option \<Rightarrow> bool \<Rightarrow> 'k \<Rightarrow> bool" where
  "too_high high inc k = (case high of None \<Rightarrow> False | Some h \<Rightarrow> if inc then k > h else k \<ge> h)"

fun scan_pairs ::
  "'k::linorder option \<Rightarrow> 'k option \<Rightarrow> bool \<Rightarrow> bool \<Rightarrow> ('k \<times> 'v) list \<Rightarrow> ('k \<times> 'v) list"
where
  "scan_pairs low high il ih [] = []"
| "scan_pairs low high il ih ((k, v) # kvs) =
     (if too_low low il k then scan_pairs low high il ih kvs
      else if too_high high ih k then []
      else (k, v) # scan_pairs low high il ih kvs)"

definition range_scan ::
  "('k::linorder, 'v) btree \<Rightarrow> 'k option \<Rightarrow> 'k option \<Rightarrow> bool \<Rightarrow> bool \<Rightarrow> ('k \<times> 'v) list result"
where
  "range_scan t low high il ih =
     bindr (case low of Some l \<Rightarrow> find_leaf (bt_root t) l | None \<Rightarrow> Inr (leaves (bt_root t)))
       (\<lambda>ls. Inr (scan_pairs low high il ih (concat ls)))"

definition scan_all :: "('k::linorder, 'v) btree \<Rightarrow> ('k \<times> 'v) list result" where
  "scan_all t = range_scan t None None True True"

fun leftmost :: "('k, 'v) bnode \<Rightarrow> ('k \<times> 'v) list result" where
  "leftmost (Leaf kvs) = Inr kvs"
| "leftmost (Node ks []) = Inl IndexError"
| "leftmost (Node ks (c # cs)) = leftmost c"

function rightmost :: "('k, 'v) bnode \<Rightarrow> ('k \<times> 'v) list result" where
  "rightmost (Leaf kvs) = Inr kvs"
| "rightmost (Node ks cs) = (if cs = [] then Inl IndexError else rightmost (last cs))"
  by pat_completeness auto
termination
proof (relation "measure size")
  fix ks :: "'k list" and cs :: "('k, 'v) bnode list"
  assume "cs \<noteq> []"
  then have "size (last cs) < Suc (length ks + size_list size cs)"
    using size_nth_child [of "length cs - 1" cs "length ks"] by (simp add: last_conv_nth)
  then show "(last cs, Node ks cs) \<in> measure size" by simp
qed simp

definition get_min :: "('k, 'v) btree \<Rightarrow> ('k \<times> 'v) option result" where
  "get_min t = bindr (leftmost (bt_root t)) (\<lambda>kvs. Inr (if kvs = [] then None else Some (hd kvs)))"

definition get_max :: "('k, 'v) btree \<Rightarrow> ('k \<times> 'v) option result" where
  "get_max t = bindr (rightmost (bt_root t)) (\<lambda>kvs. Inr (if kvs = [] then None else Some (last kvs)))"

section \<open>Insertion\<close>

text \<open>
  Inserting into a subtree gives it back changed, and when it overflowed the separator and the
  new right part that its parent takes in.
\<close>

type_synonym ('k, 'v) ins_result = "('k, 'v) bnode \<times> ('k \<times> ('k, 'v) bnode) option"

definition split_leaf :: "('k \<times> 'v) list \<Rightarrow> ('k, 'v) ins_result" where
  "split_leaf kvs =
     (let mid = (length kvs + 1) div 2
      in (Leaf (take mid kvs), Some (fst (kvs ! mid), Leaf (drop mid kvs))))"

definition insert_into_leaf :: "nat \<Rightarrow> 'k::linorder \<Rightarrow> 'v \<Rightarrow> ('k \<times> 'v) list \<Rightarrow> ('k, 'v) ins_result" where
  "insert_into_leaf n k v kvs =
     (let kvs' = insert_at (bisect_right (map fst kvs) k) (k, v) kvs
      in if length kvs' > n - 1 then split_leaf kvs' else (Leaf kvs', None))"

definition split_internal :: "'k list \<Rightarrow> ('k, 'v) bnode list \<Rightarrow> ('k, 'v) ins_result" where
  "split_internal ks cs =
     (let mid = length ks div 2
      in (Node (take mid ks) (take (mid + 1) cs),
          Some (ks ! mid, Node (drop (mid + 1) ks) (drop (mid + 1) cs))))"

definition insert_into_parent ::
  "nat \<Rightarrow> 'k list \<Rightarrow> ('k, 'v) bnode list \<Rightarrow> nat \<Rightarrow> 'k \<Rightarrow> ('k, 'v) bnode \<Rightarrow> ('k, 'v) ins_result"
where
  "insert_into_parent n ks cs i s r =
     (let ks' = insert_at i s ks; cs' = insert_at (i + 1) r cs
      in if length ks' \<ge> n then split_internal ks' cs' else (Node ks' cs', None))"

fun insert_node :: "nat \<Rightarrow> 'k::linorder \<Rightarrow> 'v \<Rightarrow> ('k, 'v) bnode \<Rightarrow> ('k, 'v) ins_result result" where
  "insert_node n k v (Leaf kvs) = Inr (insert_into_leaf n k v kvs)"
| "insert_node n k v (Node ks cs) =
     (let i = bisect_right ks k in
      if i < length cs then
        bindr (insert_node n k v (cs ! i)) (\<lambda>(c, up).
          case up of
            None \<Rightarrow> Inr (Node ks (cs[i := c]), None)
          | Some (s, r) \<Rightarrow> Inr (insert_into_parent n ks (cs[i := c]) i s r))
      else Inl IndexError)"

definition btree_insert :: "('k::linorder, 'v) btree \<Rightarrow> 'k \<Rightarrow> 'v \<Rightarrow> ('k, 'v) btree result" where
  "btree_insert t k v =
     bindr (insert_node (bt_order t) k v (bt_root t)) (\<lambda>(c, up).
       let t1 = t\<lparr>bt_size := bt_size t + 1\<rparr> in
       case up of
         None \<Rightarrow> Inr (t1\<lparr>bt_root := c\<rparr>)
       | Some (s, r) \<Rightarrow> Inr (t1\<lparr>bt_root := Node [s] [c, r], bt_height := bt_height t + 1\<rparr>))"

definition insert_unique :: "('k::linorder, 'v) btree \<Rightarrow> 'k \<Rightarrow> 'v \<Rightarrow> (('k, 'v) btree \<times> bool) result" where
  "insert_unique t k v =
     bindr (find_leaf (bt_root t) k) (\<lambda>ls.
       if k \<in> fst ` set (hd ls) then Inr (t, False)
       else bindr (btree_insert t k v) (\<lambda>t'. Inr (t', True)))"

section \<open>Deletion\<close>

fun index_of_key :: "'k \<Rightarrow> ('k \<times> 'v) list \<Rightarrow> nat option" where
  "index_of_key k [] = None"
| "index_of_key k ((k', v) # kvs) = (if k' = k then Some 0 else map_option Suc (index_of_key k kvs))"

text \<open>
  Borrowing and merging act on two neighbours and the separator between them; neighbours have
  the same depth, and on nodes of different kinds the code fails on an empty list.
\<close>

fun borrow_left ::
  "('k, 'v) bnode \<Rightarrow> 'k \<Rightarrow> ('k, 'v) bnode \<Rightarrow> (('k, 'v) bnode \<times> 'k \<times> ('k, 'v) bnode) result"
where
  "borrow_left (Leaf l) s (Leaf m) =
     (if l = [] then Inl IndexError else Inr (Leaf (butlast l), fst (last l), Leaf (last l # m)))"
| "borrow_left (Node lks lcs) s (Node ks cs) =
     (if lks = [] \<or> lcs = [] then Inl IndexError
      else Inr (Node (butlast lks) (butlast lcs), last lks, Node (s # ks) (last lcs # cs)))"
| "borrow_left _ s _ = Inl IndexError"

fun borrow_right ::
  "('k, 'v) bnode \<Rightarrow> 'k \<Rightarrow> ('k, 'v) bnode \<Rightarrow> (('k, 'v) bnode \<times> 'k \<times> ('k, 'v) bnode) result"
where
  "borrow_right (Leaf m) s (Leaf r) =
     (case r of x # y # r' \<Rightarrow> Inr (Leaf (m @ [x]), fst y, Leaf (y # r')) | _ \<Rightarrow> Inl IndexError)"
| "borrow_right (Node ks cs) s (Node rks rcs) =
     (case (rks, rcs) of
        (k # rks', c # rcs') \<Rightarrow> Inr (Node (ks @ [s]) (cs @ [c]), k, Node rks' rcs')
      | _ \<Rightarrow> Inl IndexError)"
| "borrow_right _ s _ = Inl IndexError"

fun merge_nodes :: "('k, 'v) bnode \<Rightarrow> 'k \<Rightarrow> ('k, 'v) bnode \<Rightarrow> ('k, 'v) bnode result" where
  "merge_nodes (Leaf l) s (Leaf r) = Inr (Leaf (l @ r))"
| "merge_nodes (Node lks lcs) s (Node rks rcs) = Inr (Node (lks @ s # rks) (lcs @ rcs))"
| "merge_nodes _ s _ = Inl IndexError"

text \<open>
  \<open>put_pair\<close> writes back a changed pair of neighbours; \<open>merge_at\<close> replaces the pair by its
  merger and drops the separator.
\<close>

definition put_pair ::
  "'k list \<Rightarrow> ('k, 'v) bnode list \<Rightarrow> nat \<Rightarrow> (('k, 'v) bnode \<times> 'k \<times> ('k, 'v) bnode) result \<Rightarrow>
     ('k list \<times> ('k, 'v) bnode list \<times> bool) result"
where
  "put_pair ks cs j r = bindr r (\<lambda>(a, s, b). Inr (ks[j := s], cs[j := a, j + 1 := b], False))"

definition merge_at ::
  "'k list \<Rightarrow> ('k, 'v) bnode list \<Rightarrow> nat \<Rightarrow> ('k list \<times> ('k, 'v) bnode list \<times> bool) result"
where
  "merge_at ks cs j =
     (if j + 1 < length cs \<and> j < length ks then
        bindr (merge_nodes (cs ! j) (ks ! j) (cs ! (j + 1)))
          (\<lambda>c. Inr (delete_at j ks, delete_at (j + 1) (cs[j := c]), True))
      else Inl IndexError)"

definition handle_underflow ::
  "nat \<Rightarrow> 'k list \<Rightarrow> ('k, 'v) bnode list \<Rightarrow> nat \<Rightarrow> ('k list \<times> ('k, 'v) bnode list \<times> bool) result"
where
  "handle_underflow n ks cs i =
     (if i > 0 \<and> num_keys (cs ! (i - 1)) > min_keys n then
        put_pair ks cs (i - 1) (borrow_left (cs ! (i - 1)) (ks ! (i - 1)) (cs ! i))
      else if i < length cs - 1 \<and> num_keys (cs ! (i + 1)) > min_keys n then
        put_pair ks cs i (borrow_right (cs ! i) (ks ! i) (cs ! (i + 1)))
      else if i > 0 then merge_at ks cs (i - 1)
      else merge_at ks cs i)"

definition update_parent_key :: "'k list \<Rightarrow> nat \<Rightarrow> ('k, 'v) bnode \<Rightarrow> 'k list" where
  "update_parent_key ks i c =
     (case c of Leaf ((k, _) # _) \<Rightarrow> if i > 0 then ks[i - 1 := k] else ks | _ \<Rightarrow> ks)"

text \<open>
  Deleting from a subtree: the subtree, whether the key was there, and whether the subtree's
  own node lost a key (a leaf that lost a pair, an internal node two of whose children merged),
  which is when the code looks at its size.
\<close>

fun delete_node :: "nat \<Rightarrow> 'k::linorder \<Rightarrow> ('k, 'v) bnode \<Rightarrow> (('k, 'v) bnode \<times> bool \<times> bool) result" where
  "delete_node n k (Leaf kvs) =
     (case index_of_key k kvs of
        None \<Rightarrow> Inr (Leaf kvs, False, False)
      | Some i \<Rightarrow> Inr (Leaf (delete_at i kvs), True, True))"
| "delete_node n k (Node ks cs) =
     (let i = bisect_right ks k in
      if i < length cs then
        bindr (delete_node n k (cs ! i)) (\<lambda>(c, found, shrunk).
          if \<not> found then Inr (Node ks cs, False, False)
          else if shrunk \<and> num_keys c < min_keys n then
            bindr (handle_underflow n ks (cs[i := c]) i)
              (\<lambda>(ks', cs', merged). Inr (Node ks' cs', True, merged))
          else
            (let first = (case cs ! i of Leaf kvs \<Rightarrow> index_of_key k kvs = Some 0 | _ \<Rightarrow> False)
             in Inr (Node (if first then update_parent_key ks i c else ks) (cs[i := c]), True, False)))
      else Inl IndexError)"

definition btree_delete :: "('k::linorder, 'v) btree \<Rightarrow> 'k \<Rightarrow> (('k, 'v) btree \<times> bool) result" where
  "btree_delete t k =
     bindr (delete_node (bt_order t) k (bt_root t)) (\<lambda>(c, found, shrunk).
       if \<not> found then Inr (t, False)
       else (let t1 = t\<lparr>bt_size := bt_size t - 1\<rparr> in
         case c of
           Node [] (d # ds) \<Rightarrow>
             if shrunk then Inr (t1\<lparr>bt_root := d, bt_height := bt_height t - 1\<rparr>, True)
             else Inr (t1\<lparr>bt_root := c\<rparr>, True)
         | _ \<Rightarrow> Inr (t1\<lparr>bt_root := c\<rparr>, True)))"

section \<open>Bulk loading\<close>

fun leaf_chunks :: "nat \<Rightarrow> ('k \<times> 'v) list \<Rightarrow> ('k \<times> 'v) list \<Rightarrow> ('k, 'v) bnode list" where
  "leaf_chunks m cur [] = (if cur = [] then [] else [Leaf cur])"
| "leaf_chunks m cur (x # xs) =
     (let cur' = cur @ [x] in
      if length cur' = m then Leaf cur' # leaf_chunks m [] xs else leaf_chunks m cur' xs)"

fun first_key :: "('k, 'v) bnode \<Rightarrow> 'k result" where
  "first_key (Leaf kvs) = (case kvs of [] \<Rightarrow> Inl IndexError | (k, v) # _ \<Rightarrow> Inr k)"
| "first_key (Node ks cs) = (case ks of [] \<Rightarrow> Inl IndexError | k # _ \<Rightarrow> Inr k)"

definition make_parent :: "('k, 'v) bnode list \<Rightarrow> ('k, 'v) bnode result" where
  "make_parent cs = bindr (mapr first_key (tl cs)) (\<lambda>ks. Inr (Node ks cs))"

function parent_level :: "nat \<Rightarrow> ('k, 'v) bnode list \<Rightarrow> ('k, 'v) bnode list result" where
  "parent_level n level =
     (if level = [] \<or> n = 0 then Inr []
      else bindr (make_parent (take n level)) (\<lambda>p.
             bindr (parent_level n (drop n level)) (\<lambda>ps. Inr (p # ps))))"
  by auto
termination by (relation "measure (\<lambda>(n, level). length level)") auto

declare parent_level.simps [simp del]

text \<open>The number of levels above the leaves is bounded by the number of leaves, the fuel.\<close>

fun build_levels :: "nat \<Rightarrow> nat \<Rightarrow> ('k, 'v) bnode list \<Rightarrow> int \<Rightarrow> int \<times> ('k, 'v) bnode option result" where
  "build_levels 0 n level h = (h, Inr None)"
| "build_levels (Suc f) n level h =
     (if length level > 1 then
        (case parent_level n level of
           Inl e \<Rightarrow> (h + 1, Inl e)
         | Inr level' \<Rightarrow> build_levels f n level' (h + 1))
      else (h, Inr (Some (hd level))))"

definition bulk_load :: "('k, 'v) btree \<Rightarrow> ('k \<times> 'v) list \<Rightarrow> ('k, 'v) btree \<times> unit result" where
  "bulk_load t items =
     (if items = [] then (t, Inr ())
      else (let ls = leaf_chunks (bt_order t - 1) [] items;
                t1 = t\<lparr>bt_size := int (length items)\<rparr> in
        case build_levels (length ls) (bt_order t) ls 1 of
          (h, Inl e) \<Rightarrow> (t1\<lparr>bt_height := h\<rparr>, Inl e)
        | (h, Inr None) \<Rightarrow> (t1\<lparr>bt_height := h\<rparr>, Inl RuntimeError)
        | (h, Inr (Some r)) \<Rightarrow> (t1\<lparr>bt_root := r, bt_height := h\<rparr>, Inr ())))"

end
