(* ===== verification/BTree_Spec.thy ===== *)
theory BTree_Spec
  imports BTree
begin

text \<open>
  Correctness of the B+ tree.  A tree is flattened into the sequence of its keys and separators
  in order; the search-tree property is that this sequence is ordered, so a split, a merge or a
  rotation, which only moves or removes separators, preserves it by list reasoning.  With \<open>u\<close>
  true a key must be strictly below the separators to its right and the keys after it: the
  invariant of an index without duplicates.
\<close>

section \<open>Flattened trees\<close>

datatype ('k, 'v) item = Key 'k 'v | Sep 'k

fun item_le :: "bool \<Rightarrow> ('k::linorder, 'v) item \<Rightarrow> ('k, 'v) item \<Rightarrow> bool" where
  "item_le u (Key x _) (Key y _) = (if u then x < y else x \<le> y)"
| "item_le u (Key x _) (Sep y) = (if u then x < y else x \<le> y)"
| "item_le u (Sep x) (Key y _) = (x \<le> y)"
| "item_le u (Sep x) (Sep y) = (x \<le> y)"

fun item_key :: "('k, 'v) item \<Rightarrow> 'k" where
  "item_key (Key k v) = k"
| "item_key (Sep k) = k"

fun weave :: "'k list \<Rightarrow> ('k, 'v) item list list \<Rightarrow> ('k, 'v) item list" where
  "weave ks [] = []"
| "weave [] (x # xs) = x @ weave [] xs"
| "weave (k # ks) (x # xs) = x @ Sep k # weave ks xs"

fun flatten :: "('k, 'v) bnode \<Rightarrow> ('k, 'v) item list" where
  "flatten (Leaf kvs) = map (\<lambda>(k, v). Key k v) kvs"
| "flatten (Node ks cs) = weave ks (map flatten cs)"

fun entries :: "('k, 'v) item list \<Rightarrow> ('k \<times> 'v) list" where
  "entries [] = []"
| "entries (Key k v # xs) = (k, v) # entries xs"
| "entries (Sep k # xs) = entries xs"

abbreviation ordered :: "bool \<Rightarrow> ('k::linorder, 'v) item list \<Rightarrow> bool" where
  "ordered u \<equiv> sorted_wrt (item_le u)"

definition contents :: "('k, 'v) bnode \<Rightarrow> ('k \<times> 'v) list" where
  "contents t = concat (leaves t)"

lemma item_le_trans: "item_le u x y \<Longrightarrow> item_le u y z \<Longrightarrow> item_le u x z"
  by (cases x; cases y; cases z) (auto split: if_splits)

lemma item_le_key: "item_le u x y \<Longrightarrow> item_key x \<le> item_key y"
  by (cases x; cases y) (auto split: if_splits)

lemma entries_append [simp]: "entries (xs @ ys) = entries xs @ entries ys"
  by (induction xs rule: entries.induct) auto

lemma entries_map_Key [simp]: "entries (map (\<lambda>(k, v). Key k v) kvs) = kvs"
  by (induction kvs) auto

lemma entries_set: "(k, v) \<in> set (entries xs) \<longleftrightarrow> Key k v \<in> set xs"
  by (induction xs rule: entries.induct) auto

lemma entries_weave: "entries (weave ks xs) = concat (map entries xs)"
  by (induction ks xs rule: weave.induct) auto

lemma concat_twice: "concat (concat xss) = concat (map concat xss)"
  by (induction xss) auto

lemma entries_flatten: "entries (flatten t) = contents t"
proof (induction t)
  case (Node ks cs)
  have "concat (map (\<lambda>c. entries (flatten c)) cs) = concat (map (concat \<circ> leaves) cs)"
    using Node by (intro arg_cong [of _ _ concat] map_cong) (auto simp: contents_def)
  then show ?case by (simp add: entries_weave contents_def concat_twice comp_def)
qed (simp add: contents_def)

lemma flatten_key: "(k, v) \<in> set (contents t) \<longleftrightarrow> Key k v \<in> set (flatten t)"
  by (simp add: entries_set flip: entries_flatten)

lemma weave_append:
  "length ks = length xs \<Longrightarrow> weave (ks @ ls) (xs @ ys) = weave ks xs @ weave ls ys"
  by (induction ks xs rule: list_induct2) auto

lemma weave_snoc:
  "length ks = length xs \<Longrightarrow> weave (ks @ [s]) (xs @ [x]) = weave ks xs @ x @ [Sep s]"
  by (simp add: weave_append)

definition weave_after :: "'k list \<Rightarrow> ('k, 'v) item list list \<Rightarrow> ('k, 'v) item list" where
  "weave_after ks xs = concat (map2 (\<lambda>s x. Sep s # x) ks xs)"

lemma weave_after_simps [simp]:
  "weave_after [] xs = []" "weave_after ks [] = []"
  "weave_after (s # ks) (x # xs) = Sep s # x @ weave_after ks xs"
  by (simp_all add: weave_after_def)

lemma weave_Cons: "length ks = length xs \<Longrightarrow> weave ks (x # xs) = x @ weave_after ks xs"
  by (induction ks xs arbitrary: x rule: list_induct2) auto

lemma weave_split:
  assumes "length ks1 = length xs1" "length ks2 = length xs2"
  shows "weave (ks1 @ ks2) (xs1 @ x # xs2) = weave ks1 xs1 @ x @ weave_after ks2 xs2"
  using assms by (simp add: weave_append weave_Cons)

lemma weave_Sep: "length xs = Suc (length ks) \<Longrightarrow> s \<in> set ks \<Longrightarrow> Sep s \<in> set (weave ks xs)"
  by (induction ks xs rule: weave.induct) auto

lemma ordered_seps: "length xs = Suc (length ks) \<Longrightarrow> ordered u (weave ks xs) \<Longrightarrow> sorted ks"
proof (induction ks xs rule: weave.induct)
  case (3 k ks x xs)
  then have o: "ordered u (weave ks xs)" "\<forall>y \<in> set (weave ks xs). item_le u (Sep k) y"
    by (simp_all add: sorted_wrt_append)
  have "k \<le> s" if "s \<in> set ks" for s
    using weave_Sep [of xs ks s] 3(2) o(2) that by auto
  then show ?case using 3 o(1) by simp
qed auto

section \<open>Binary search\<close>

lemma bisect_loop_spec:
  assumes "sorted xs" "lo \<le> hi" "hi \<le> length xs"
    and "\<And>i. i < lo \<Longrightarrow> xs ! i \<le> x" "\<And>i. hi \<le> i \<Longrightarrow> i < length xs \<Longrightarrow> x < xs ! i"
  shows "let r = bisect_loop xs x lo hi in r \<le> length xs \<and> (\<forall>i < r. xs ! i \<le> x) \<and>
    (\<forall>i. r \<le> i \<longrightarrow> i < length xs \<longrightarrow> x < xs ! i)"
  using assms
proof (induction xs x lo hi rule: bisect_loop.induct)
  case (1 xs x lo hi)
  define mid where "mid = (lo + hi) div 2"
  show ?case
  proof (cases "lo < hi")
    case lt: True
    then have mid: "lo \<le> mid" "mid < hi" by (auto simp: mid_def)
    show ?thesis
    proof (cases "xs ! mid \<le> x")
      case True
      have "xs ! i \<le> x" if "i < mid + 1" for i
        using sorted_nth_mono [OF 1(3), of i mid] that mid 1(5) True by force
      then have "let r = bisect_loop xs x (mid + 1) hi in r \<le> length xs \<and> (\<forall>i < r. xs ! i \<le> x) \<and>
          (\<forall>i. r \<le> i \<longrightarrow> i < length xs \<longrightarrow> x < xs ! i)"
        using 1(1) [OF lt mid_def True 1(3)] mid 1(5,7) by simp
      then show ?thesis using lt True by (subst bisect_loop.simps) (simp add: Let_def mid_def)
    next
      case False
      have "x < xs ! i" if "mid \<le> i" "i < length xs" for i
        using sorted_nth_mono [OF 1(3), of mid i] that False by force
      then have "let r = bisect_loop xs x lo mid in r \<le> length xs \<and> (\<forall>i < r. xs ! i \<le> x) \<and>
          (\<forall>i. r \<le> i \<longrightarrow> i < length xs \<longrightarrow> x < xs ! i)"
        using 1(2) [OF lt mid_def False 1(3)] mid 1(5,6) by simp
      then show ?thesis using lt False by (subst bisect_loop.simps) (simp add: Let_def mid_def)
    qed
  next
    case False
    then show ?thesis using 1 by (subst bisect_loop.simps) auto
  qed
qed

lemma bisect_right_bounds:
  assumes "sorted xs"
  shows "bisect_right xs x \<le> length xs"
    "i < bisect_right xs x \<Longrightarrow> xs ! i \<le> x"
    "bisect_right xs x \<le> i \<Longrightarrow> i < length xs \<Longrightarrow> x < xs ! i"
  using bisect_loop_spec [OF assms, of 0 "length xs" x] by (auto simp: bisect_right_def Let_def)

lemma bisect_take: "sorted xs \<Longrightarrow> y \<in> set (take (bisect_right xs x) xs) \<Longrightarrow> y \<le> x"
  by (auto simp: in_set_conv_nth bisect_right_bounds)

lemma bisect_drop: "sorted xs \<Longrightarrow> y \<in> set (drop (bisect_right xs x) xs) \<Longrightarrow> x < y"
  by (auto simp: in_set_conv_nth bisect_right_bounds)

text \<open>The binary search of the code finds the place the linear reference definition finds.\<close>

lemma bisect_right_linear:
  assumes "sorted xs"
  shows "bisect_right xs x = length (takeWhile (\<lambda>y. y \<le> x) xs)"
proof -
  let ?r = "bisect_right xs x"
  have "takeWhile (\<lambda>y. y \<le> x) (take ?r xs @ drop ?r xs) = take ?r xs @ takeWhile (\<lambda>y. y \<le> x) (drop ?r xs)"
    using bisect_take [OF assms] by (intro takeWhile_append2) auto
  moreover have "takeWhile (\<lambda>y. y \<le> x) (drop ?r xs) = []"
    using bisect_drop [OF assms, of _ x] by (cases "drop ?r xs") (auto simp: not_le)
  ultimately show ?thesis using bisect_right_bounds(1) [OF assms, of x] by simp
qed

section \<open>Descending one level\<close>

text \<open>The child a key is routed to, with what lies to its left and right in the flattened node.\<close>

lemma route:
  assumes "ordered u (flatten (Node ks cs))" "length cs = Suc (length ks)" "i = bisect_right ks k"
  obtains ks1 ks2 cs1 c cs2 where
    "ks = ks1 @ ks2" "cs = cs1 @ c # cs2" "length ks1 = i" "length cs1 = i" "length ks2 = length cs2"
    "\<forall>c'. flatten (Node ks (cs1 @ c' # cs2)) =
       weave ks1 (map flatten cs1) @ flatten c' @ weave_after ks2 (map flatten cs2)"
    "\<forall>p \<in> set (weave ks1 (map flatten cs1)). \<forall>v. item_le u p (Key k v) \<and> item_le u p (Sep k)"
    "\<forall>q \<in> set (weave_after ks2 (map flatten cs2)). k < item_key q"
proof -
  have sk: "sorted ks" using ordered_seps [of "map flatten cs" ks u] assms(1,2) by simp
  have i: "i < length cs" "i \<le> length ks" using bisect_right_bounds(1) [OF sk, of k] assms(2,3) by auto
  define ks1 ks2 cs1 c cs2 where d: "ks1 = take i ks" "ks2 = drop i ks" "cs1 = take i cs" "c = cs ! i" "cs2 = drop (Suc i) cs"
  have s: "ks = ks1 @ ks2" "cs = cs1 @ c # cs2" "length ks1 = i" "length cs1 = i" "length ks2 = length cs2"
    using i assms(2) by (simp_all add: d id_take_nth_drop [symmetric])
  have f: "flatten (Node ks (cs1 @ c' # cs2)) =
       weave ks1 (map flatten cs1) @ flatten c' @ weave_after ks2 (map flatten cs2)" for c'
    using s by (simp add: weave_split)
  have o: "ordered u (weave ks1 (map flatten cs1))" "ordered u (weave_after ks2 (map flatten cs2))"
    using assms(1) f [of c] s(2) by (simp_all add: sorted_wrt_append)
  have left: "item_le u p (Key k v) \<and> item_le u p (Sep k)" if p: "p \<in> set (weave ks1 (map flatten cs1))" for p v
  proof -
    from p have "cs1 \<noteq> []" by auto
    then have "ks1 \<noteq> []" using s by auto
    then obtain ls a xs x where sn: "ks1 = ls @ [a]" "cs1 = xs @ [x]"
      using \<open>cs1 \<noteq> []\<close> by (metis append_butlast_last_id)
    then have w: "weave ks1 (map flatten cs1) = weave ls (map flatten xs) @ flatten x @ [Sep a]"
      using s by (simp add: weave_snoc)
    have a: "a \<le> k" using bisect_take [OF sk, of a k] sn by (simp add: d(1) assms(3))
    show ?thesis
    proof (cases "p = Sep a")
      case True
      then show ?thesis using a by simp
    next
      case False
      then have "item_le u p (Sep a)" using p o(1) unfolding w by (auto simp: sorted_wrt_append)
      moreover have "item_le u (Sep a) (Key k v)" "item_le u (Sep a) (Sep k)" using a by simp_all
      ultimately show ?thesis by (blast intro: item_le_trans)
    qed
  qed
  have right: "k < item_key q" if q: "q \<in> set (weave_after ks2 (map flatten cs2))" for q
  proof -
    from q obtain b ls x xs where sn: "ks2 = b # ls" "cs2 = x # xs"
      using s(5) by (cases ks2; cases cs2) auto
    have b: "k < b" using bisect_drop [OF sk, of b k] sn by (simp add: d(2) assms(3))
    then have "b \<le> item_key q" using q o(2) sn item_le_key [of u "Sep b" q] by auto
    then show ?thesis using b by simp
  qed
  show thesis by (rule that [OF s]) (use f left right in auto)
qed

section \<open>Invariants\<close>

text \<open>
  The documented shape: all leaves at one depth, node sizes between the minimum and the order,
  the root excepted.
\<close>

fun shaped :: "nat \<Rightarrow> bool \<Rightarrow> nat \<Rightarrow> ('k, 'v) bnode \<Rightarrow> bool" where
  "shaped n root h (Leaf kvs) = (h = 1 \<and> length kvs \<le> n - 1 \<and> (root \<or> min_keys n \<le> length kvs))"
| "shaped n root h (Node ks cs) =
     (1 < h \<and> length cs = Suc (length ks) \<and> length ks \<le> n - 1 \<and>
      (if root then 1 else min_keys n) \<le> length ks \<and> (\<forall>c \<in> set cs. shaped n False (h - 1) c))"

definition btree_ok :: "bool \<Rightarrow> ('k::linorder, 'v) btree \<Rightarrow> bool" where
  "btree_ok u t =
     (3 \<le> bt_order t \<and> 1 \<le> bt_height t \<and> shaped (bt_order t) True (nat (bt_height t)) (bt_root t) \<and>
      ordered u (flatten (bt_root t)) \<and> bt_size t = int (length (contents (bt_root t))))"

definition tree_entries :: "('k, 'v) btree \<Rightarrow> ('k \<times> 'v) list" where
  "tree_entries t = contents (bt_root t)"

section \<open>Insertion\<close>

definition ins_after :: "'k::linorder \<Rightarrow> 'v \<Rightarrow> ('k \<times> 'v) list \<Rightarrow> ('k \<times> 'v) list" where
  "ins_after k v kvs = takeWhile (\<lambda>e. fst e \<le> k) kvs @ (k, v) # dropWhile (\<lambda>e. fst e \<le> k) kvs"

lemma ins_after_mid:
  assumes "\<And>x. x \<in> set a \<Longrightarrow> fst x \<le> k" "\<And>x. x \<in> set b \<Longrightarrow> k < fst x"
  shows "ins_after k v (a @ m @ b) = a @ ins_after k v m @ b"
proof -
  have b: "takeWhile (\<lambda>e. fst e \<le> k) b = []" "dropWhile (\<lambda>e. fst e \<le> k) b = b"
    using assms(2) by (cases b; force simp: not_le)+
  have "ins_after k v (m @ b) = ins_after k v m @ b"
    using b by (induction m) (auto simp: ins_after_def)
  moreover have "ins_after k v (a @ m') = a @ ins_after k v m'" for m'
    using assms(1) by (induction a) (auto simp: ins_after_def)
  ultimately show ?thesis by simp
qed

lemma length_ins_after [simp]: "length (ins_after k v kvs) = Suc (length kvs)"
proof -
  have "length (takeWhile (\<lambda>e. fst e \<le> k) kvs @ dropWhile (\<lambda>e. fst e \<le> k) kvs) = length kvs"
    by (simp only: takeWhile_dropWhile_id)
  then show ?thesis by (simp add: ins_after_def del: takeWhile_dropWhile_id)
qed

lemma set_ins_after: "set (ins_after k v kvs) = insert (k, v) (set kvs)"
  unfolding ins_after_def using takeWhile_dropWhile_id [of "\<lambda>e. fst e \<le> k" kvs]
  by (metis Un_insert_right list.simps(15) set_append)

lemma item_le_Sep_right: "item_le u p (Key k v) \<Longrightarrow> item_le u p (Sep k)"
  by (cases p) auto

lemma item_le_Sep_left: "item_le u (Key k v) q \<Longrightarrow> item_le u (Sep k) q"
  by (cases q) (auto split: if_splits)

lemma item_le_above: "k < item_key q \<Longrightarrow> item_le u (Key k v) q \<and> item_le u (Sep k) q"
  by (cases q) auto

lemma ordered_leaf: "ordered u (map (\<lambda>(k, v). Key k v) kvs) \<Longrightarrow> sorted (map fst kvs)"
  by (induction kvs) (auto split: if_splits)

lemma leaf_insert:
  assumes "ordered u (map (\<lambda>(k, v). Key k v) kvs)"
  shows "insert_at (bisect_right (map fst kvs) k) (k, v) kvs = ins_after k v kvs"
proof -
  let ?P = "\<lambda>e. fst e \<le> k"
  have "bisect_right (map fst kvs) k = length (takeWhile ?P kvs)"
    by (simp add: bisect_right_linear [OF ordered_leaf [OF assms]] takeWhile_map comp_def)
  then show ?thesis
    unfolding insert_at_def ins_after_def using takeWhile_eq_take [of ?P kvs] dropWhile_eq_drop [of ?P kvs]
    by simp
qed

lemma leaf_insert_ordered:
  assumes "ordered u (map (\<lambda>(k, v). Key k v) kvs)" "u \<Longrightarrow> k \<notin> fst ` set kvs"
  shows "ordered u (map (\<lambda>(k, v). Key k v) (ins_after k v kvs))"
  using assms
proof (induction kvs)
  case (Cons e kvs)
  obtain x w where e: "e = (x, w)" by (cases e)
  have set: "set (ins_after k v kvs) = insert (k, v) (set kvs)" by (rule set_ins_after)
  show ?case
  proof (cases "x \<le> k")
    case True
    then have i: "ins_after k v (e # kvs) = e # ins_after k v kvs" by (simp add: e ins_after_def)
    have "u \<Longrightarrow> x < k" using Cons(3) True e by force
    then show ?thesis using Cons True unfolding i by (auto simp: set e split: if_splits)
  next
    case False
    then have i: "ins_after k v (e # kvs) = (k, v) # e # kvs" by (simp add: e ins_after_def)
    have "item_le u (Key k v) y" if "y \<in> set (map (\<lambda>(k, v). Key k v) (e # kvs))" for y
      using that False Cons(2) item_le_trans [of u "Key k v" "Key x w" y] by (auto simp: e not_le)
    then show ?thesis using Cons(2) unfolding i by auto
  qed
qed (simp add: ins_after_def)

fun result_flat :: "('k, 'v) ins_result \<Rightarrow> ('k, 'v) item list" where
  "result_flat (c, None) = flatten c"
| "result_flat (c, Some (s, r)) = flatten c @ Sep s # flatten r"

fun result_shaped :: "nat \<Rightarrow> bool \<Rightarrow> nat \<Rightarrow> ('k, 'v) ins_result \<Rightarrow> bool" where
  "result_shaped n root h (c, None) = shaped n root h c"
| "result_shaped n root h (c, Some (s, r)) = (shaped n False h c \<and> shaped n False h r)"

lemma ordered_add_sep:
  "ordered u (xs @ Key k v # ys) \<Longrightarrow> ordered u (xs @ Sep k # Key k v # ys)"
  by (auto simp: sorted_wrt_append intro: item_le_Sep_left item_le_Sep_right)

text \<open>What an insertion of \<open>k\<close> into a subtree \<open>t\<close> must deliver.\<close>

definition inserted ::
  "nat \<Rightarrow> bool \<Rightarrow> nat \<Rightarrow> bool \<Rightarrow> 'k::linorder \<Rightarrow> 'v \<Rightarrow> ('k, 'v) bnode \<Rightarrow> ('k, 'v) ins_result \<Rightarrow> bool"
where
  "inserted n root h u k v t r =
     (entries (result_flat r) = ins_after k v (contents t) \<and> ordered u (result_flat r) \<and>
      set (result_flat r) \<subseteq> insert (Key k v) (set (flatten t)) \<union> Sep ` insert k (fst ` set (contents t)) \<and>
      result_shaped n root h r)"

lemma insert_leaf_ok:
  assumes "3 \<le> n" "shaped n root h (Leaf kvs)" "ordered u (flatten (Leaf kvs))" "u \<Longrightarrow> k \<notin> fst ` set kvs"
  shows "inserted n root h u k v (Leaf kvs) (insert_into_leaf n k v kvs)"
proof -
  define m where "m = ins_after k v kvs"
  have m: "insert_at (bisect_right (map fst kvs) k) (k, v) kvs = m"
    using leaf_insert assms(3) by (simp add: m_def)
  have o: "ordered u (map (\<lambda>(k, v). Key k v) m)"
    using leaf_insert_ordered [OF _ assms(4)] assms(3) by (simp add: m_def)
  have set: "set m = insert (k, v) (set kvs)" "length m = Suc (length kvs)" by (simp_all add: m_def set_ins_after)
  show ?thesis
  proof (cases "length m > n - 1")
    case False
    then show ?thesis using m o set assms(2)
      by (auto simp: inserted_def insert_into_leaf_def m_def [symmetric] contents_def)
  next
    case True
    define j where "j = (length m + 1) div 2"
    have len: "length m = n" using True set(2) assms(1,2) by auto
    have j: "j < length m" "min_keys n \<le> j" "j \<le> n - 1" "min_keys n \<le> length m - j" "length m - j \<le> n - 1"
      unfolding j_def len min_keys_def using assms(1) by auto
    obtain x w where x: "m ! j = (x, w)" by (cases "m ! j")
    have d: "m = take j m @ (x, w) # drop (Suc j) m" "drop j m = (x, w) # drop (Suc j) m"
      using id_take_nth_drop [OF j(1)] Cons_nth_drop_Suc [OF j(1)] x by simp_all
    have r: "insert_into_leaf n k v kvs = (Leaf (take j m), Some (x, Leaf (drop j m)))"
      using True m x by (simp add: insert_into_leaf_def split_leaf_def Let_def j_def)
    have "ordered u (map (\<lambda>(k, v). Key k v) (take j m) @ Key x w # map (\<lambda>(k, v). Key k v) (drop (Suc j) m))"
      using o by (subst (asm) d(1)) simp
    from ordered_add_sep [OF this] have "ordered u (result_flat (insert_into_leaf n k v kvs))"
      by (simp add: r d(2))
    moreover have "entries (result_flat (insert_into_leaf n k v kvs)) = m" by (simp add: r)
    moreover have "x \<in> insert k (fst ` set kvs)"
      using j(1) x set(1) by (metis fst_conv image_insert image_eqI nth_mem)
    moreover have "set (take j m) \<union> set (drop j m) = set m"
      using append_take_drop_id [of j m] by (metis set_append)
    ultimately show ?thesis
      using set j assms(2) unfolding inserted_def r
      by (auto simp: contents_def m_def [symmetric])
  qed
qed

lemma weave_join:
  "length xs = Suc (length as) \<Longrightarrow> weave (as @ s # bs) (xs @ ys) = weave as xs @ Sep s # weave bs ys"
  by (induction as xs rule: weave.induct) (auto simp: length_Suc_conv)

lemma split_internal_ok:
  assumes "length cs = Suc (length ks)" "ks \<noteq> []"
  shows "result_flat (split_internal ks cs) = flatten (Node ks cs)"
proof -
  define j where "j = length ks div 2"
  have j: "j < length ks" using assms(2) by (simp add: j_def div_less_dividend)
  have "ks = take j ks @ ks ! j # drop (Suc j) ks" by (rule id_take_nth_drop [OF j])
  moreover have "cs = take (Suc j) cs @ drop (Suc j) cs" by simp
  ultimately have "flatten (Node ks cs) =
      weave (take j ks @ ks ! j # drop (Suc j) ks) (map flatten (take (Suc j) cs) @ map flatten (drop (Suc j) cs))"
    by (metis flatten.simps(2) map_append)
  also have "\<dots> = weave (take j ks) (map flatten (take (Suc j) cs)) @ Sep (ks ! j) #
      weave (drop (Suc j) ks) (map flatten (drop (Suc j) cs))"
    using j assms(1) by (intro weave_join) simp
  finally show ?thesis
    by (simp add: split_internal_def Let_def j_def)
qed

lemma split_internal_shaped:
  assumes "3 \<le> n" "length ks = n" "length cs = Suc n" "\<forall>c \<in> set cs. shaped n False (h - 1) c" "1 < h"
  shows "result_shaped n root h (split_internal ks cs)"
proof -
  have "min_keys n \<le> n div 2" "n div 2 \<le> n - 1" "min_keys n \<le> n - Suc (n div 2)" "n - Suc (n div 2) \<le> n - 1"
    "n div 2 < n" "n - n div 2 = Suc (n - Suc (n div 2))"
    using assms(1) by (auto simp: min_keys_def)
  then show ?thesis
    using assms by (auto simp: split_internal_def Let_def dest: in_set_takeD in_set_dropD)
qed

lemma ordered_replace:
  assumes "ordered u (P @ flatten t @ Q)" "inserted n root h u k v t r"
    and P: "\<And>p. p \<in> set P \<Longrightarrow> item_le u p (Key k v) \<and> item_le u p (Sep k)"
    and Q: "\<And>q. q \<in> set Q \<Longrightarrow> k < item_key q"
  shows "ordered u (P @ result_flat r @ Q)"
proof -
  have o: "ordered u P" "ordered u Q" "\<And>p q. p \<in> set P \<Longrightarrow> q \<in> set Q \<Longrightarrow> item_le u p q"
    "\<And>p x. p \<in> set P \<Longrightarrow> x \<in> set (flatten t) \<Longrightarrow> item_le u p x"
    "\<And>q x. q \<in> set Q \<Longrightarrow> x \<in> set (flatten t) \<Longrightarrow> item_le u x q"
    using assms(1) by (auto simp: sorted_wrt_append)
  have cases: "x \<in> set (flatten t) \<or> x = Key k v \<or> x = Sep k \<or> (\<exists>y w. x = Sep y \<and> Key y w \<in> set (flatten t))"
    if "x \<in> set (result_flat r)" for x
    using that assms(2) by (auto simp: inserted_def flatten_key image_iff)
  have "item_le u p x" if p: "p \<in> set P" and x: "x \<in> set (result_flat r)" for p x
    using cases [OF x]
  proof (elim disjE exE conjE)
    fix y w assume "x = Sep y" "Key y w \<in> set (flatten t)"
    then show ?thesis using item_le_Sep_right [OF o(4) [OF p]] by simp
  qed (use P [OF p] o(4) [OF p] in simp_all)
  moreover have "item_le u x q" if q: "q \<in> set Q" and x: "x \<in> set (result_flat r)" for q x
    using cases [OF x]
  proof (elim disjE exE conjE)
    fix y w assume "x = Sep y" "Key y w \<in> set (flatten t)"
    then show ?thesis using item_le_Sep_left [OF o(5) [OF q]] by simp
  qed (use item_le_above [OF Q [OF q]] o(5) [OF q] in simp_all)
  ultimately show ?thesis
    using assms(2) o(1-3) by (auto simp: sorted_wrt_append inserted_def)
qed

lemma insert_node_ok:
  assumes "3 \<le> n" "shaped n root h t" "ordered u (flatten t)" "u \<Longrightarrow> k \<notin> fst ` set (contents t)"
  shows "\<exists>r. insert_node n k v t = Inr r \<and> inserted n root h u k v t r"
  using assms
proof (induction n k v t arbitrary: root h rule: insert_node.induct)
  case (1 n k v kvs)
  then show ?case using insert_leaf_ok [of n root h kvs u k v] by (simp add: contents_def)
next
  case (2 n k v ks cs)
  define i where "i = bisect_right ks k"
  have sh: "1 < h" "length cs = Suc (length ks)" "length ks \<le> n - 1"
    "(if root then 1 else min_keys n) \<le> length ks" "\<forall>c \<in> set cs. shaped n False (h - 1) c"
    using 2(3) by auto
  obtain ks1 ks2 cs1 c cs2 where sp: "ks = ks1 @ ks2" "cs = cs1 @ c # cs2" "length ks1 = i" "length cs1 = i"
      "length ks2 = length cs2"
      "\<forall>c'. flatten (Node ks (cs1 @ c' # cs2)) =
         weave ks1 (map flatten cs1) @ flatten c' @ weave_after ks2 (map flatten cs2)"
    and P: "\<forall>p \<in> set (weave ks1 (map flatten cs1)). \<forall>v. item_le u p (Key k v) \<and> item_le u p (Sep k)"
    and Q: "\<forall>q \<in> set (weave_after ks2 (map flatten cs2)). k < item_key q"
    by (rule route [OF 2(4) sh(2) i_def])
  define P' Q' where PQ: "P' = weave ks1 (map flatten cs1)" "Q' = weave_after ks2 (map flatten cs2)"
  have ci: "i < length cs" "cs ! i = c" "c \<in> set cs"
    using sp(2,4) by (auto simp flip: sp(4))
  have f: "flatten (Node ks cs) = P' @ flatten c @ Q'" using sp(6) sp(2) PQ by simp
  have ct: "contents (Node ks cs) = entries P' @ contents c @ entries Q'"
    using f by (metis entries_append entries_flatten)
  have "ordered u (flatten c)" using 2(4) f by (simp add: sorted_wrt_append)
  moreover have "u \<Longrightarrow> k \<notin> fst ` set (contents c)" using 2(5) ct by auto
  ultimately obtain r where r: "insert_node n k v c = Inr r" "inserted n False (h - 1) u k v c r"
    using 2(1) [OF i_def ci(1), of False "h - 1"] 2(2) sh(5) ci by auto
  have ord: "ordered u (P' @ result_flat r @ Q')"
    using ordered_replace [of u P' c Q'] 2(4) f r(2) P Q PQ by simp
  have keys: "\<And>x. x \<in> set (entries P') \<Longrightarrow> fst x \<le> k" "\<And>x. x \<in> set (entries Q') \<Longrightarrow> k < fst x"
    using P Q by (force simp: entries_set PQ split: if_splits)+
  have ent: "entries (P' @ result_flat r @ Q') = ins_after k v (contents (Node ks cs))"
    using r(2) ins_after_mid [OF keys] by (simp add: inserted_def ct)
  have sub: "set (P' @ result_flat r @ Q') \<subseteq> insert (Key k v) (set (flatten (Node ks cs))) \<union>
      Sep ` insert k (fst ` set (contents (Node ks cs)))"
    using r(2) unfolding inserted_def f ct by auto
  have goal: "\<exists>r. insert_node n k v (Node ks cs) = Inr r \<and> inserted n root h u k v (Node ks cs) r"
    if "insert_node n k v (Node ks cs) = Inr r'" "result_flat r' = P' @ result_flat r @ Q'" "result_shaped n root h r'" for r'
    using that ord ent sub unfolding inserted_def by auto
  obtain c' up where cu: "r = (c', up)" by (cases r)
  have upd: "cs[i := c'] = cs1 @ c' # cs2" using sp by (simp add: list_update_append)
  show ?case
  proof (cases up)
    case None
    then have "insert_node n k v (Node ks cs) = Inr (Node ks (cs1 @ c' # cs2), None)"
      using r(1) cu ci upd by (simp add: i_def [symmetric])
    moreover have "shaped n False (h - 1) c'" using r(2) cu None by (simp add: inserted_def)
    ultimately show ?thesis
      using sh sp cu None PQ by (intro goal) auto
  next
    case (Some sr)
    obtain s d where sd: "sr = (s, d)" by (cases sr)
    let ?ks = "ks1 @ s # ks2" and ?cs = "cs1 @ c' # d # cs2"
    have ins: "insert_at i s ks = ?ks" "insert_at (Suc i) d (cs1 @ c' # cs2) = ?cs"
      using sp by (simp_all add: insert_at_def)
    have e: "insert_node n k v (Node ks cs) =
        Inr (if length ?ks \<ge> n then split_internal ?ks ?cs else (Node ?ks ?cs, None))"
      using r(1) cu Some sd ci upd by (simp add: i_def [symmetric] insert_into_parent_def ins)
    have len: "length ?cs = Suc (length ?ks)" "?ks \<noteq> []" "length ?ks = Suc (length ks)" using sp by simp_all
    have fl: "flatten (Node ?ks ?cs) = P' @ result_flat r @ Q'"
      using sp(3-5) by (simp add: weave_split PQ cu Some sd)
    have csh: "\<forall>x \<in> set ?cs. shaped n False (h - 1) x"
      using r(2) sh(5) sp(2) by (auto simp: inserted_def cu Some sd)
    show ?thesis
    proof (cases "length ?ks \<ge> n")
      case True
      then have n: "length ?ks = n" using len(3) sh(3) 2(2) by linarith
      show ?thesis
        by (rule goal [of "split_internal ?ks ?cs"])
          (use e True fl split_internal_ok [OF len(1,2)] split_internal_shaped [OF 2(2) n _ csh sh(1)] len(1) n in auto)
    next
      case False
      then show ?thesis
        using e fl csh len sh(1,4) by (intro goal [of "(Node ?ks ?cs, None)"]) auto
    qed
  qed
qed

section \<open>Lookup\<close>

lemma ordered_contents:
  "ordered u xs \<Longrightarrow> sorted_wrt (\<lambda>a b. if u then fst a < fst b else fst a \<le> fst b) (entries xs)"
proof (induction xs rule: entries.induct)
  case (2 k v xs)
  have "if u then k < fst e else k \<le> fst e" if e: "e \<in> set (entries xs)" for e
  proof -
    have "Key (fst e) (snd e) \<in> set xs" using e by (simp flip: entries_set)
    then have "item_le u (Key k v) (Key (fst e) (snd e))" using 2(2) by auto
    then show ?thesis by simp
  qed
  then show ?case using 2 by auto
qed auto

text \<open>
  The leaf a key is routed to: smaller keys lie in the leaves before it, greater ones in those
  after it.
\<close>

lemma find_leaf_ok:
  assumes "3 \<le> n" "shaped n root h t" "ordered u (flatten t)"
  shows "\<exists>before here after. find_leaf t k = Inr (here # after) \<and> contents t = before @ here @ concat after \<and>
    (\<forall>x \<in> set before. if u then fst x < k else fst x \<le> k) \<and> (\<forall>x \<in> set (concat after). k < fst x)"
  using assms(2,3)
proof (induction t arbitrary: root h)
  case (Leaf kvs)
  then show ?case by (intro exI [of _ "[]"] exI [of _ kvs]) (simp add: contents_def)
next
  case (Node ks cs)
  define i where "i = bisect_right ks k"
  have sh: "length cs = Suc (length ks)" "\<forall>c \<in> set cs. shaped n False (h - 1) c" using Node(2) by auto
  obtain ks1 ks2 cs1 c cs2 where sp: "ks = ks1 @ ks2" "cs = cs1 @ c # cs2" "length ks1 = i" "length cs1 = i"
      "length ks2 = length cs2"
      "\<forall>c'. flatten (Node ks (cs1 @ c' # cs2)) =
         weave ks1 (map flatten cs1) @ flatten c' @ weave_after ks2 (map flatten cs2)"
    and P: "\<forall>p \<in> set (weave ks1 (map flatten cs1)). \<forall>v. item_le u p (Key k v) \<and> item_le u p (Sep k)"
    and Q: "\<forall>q \<in> set (weave_after ks2 (map flatten cs2)). k < item_key q"
    by (rule route [OF Node(3) sh(1) i_def])
  have ci: "i < length cs" "cs ! i = c" "drop (Suc i) cs = cs2"
    using sp(2,4) by (auto simp flip: sp(4))
  have "ordered u (flatten c)" using Node(3) sp(6) sp(2) by (simp add: sorted_wrt_append)
  then obtain before here after where IH: "find_leaf c k = Inr (here # after)" "contents c = before @ here @ concat after"
      "\<forall>x \<in> set before. if u then fst x < k else fst x \<le> k" "\<forall>x \<in> set (concat after). k < fst x"
    using Node(1) [of c False "h - 1"] sh(2) sp(2) by auto
  have fl: "find_leaf (Node ks cs) k = Inr (here # after @ concat (map leaves cs2))"
    using IH(1) ci by (simp add: i_def [symmetric])
  have e: "entries (weave_after ks2 (map flatten cs2)) = concat (map contents cs2)"
    using sp(5) by (induction ks2 cs2 rule: list_induct2) (auto simp: entries_flatten)
  have aft: "concat (concat (map leaves cs2)) = concat (map contents cs2)"
    by (simp add: concat_twice comp_def contents_def [abs_def])
  have ct: "contents (Node ks cs) = entries (weave ks1 (map flatten cs1)) @ contents c @ concat (map contents cs2)"
    using sp(6) sp(2) e by (metis entries_append entries_flatten)
  have left: "if u then fst x < k else fst x \<le> k" if "x \<in> set (entries (weave ks1 (map flatten cs1)))" for x
    using P that by (cases x) (auto simp: entries_set)
  have right: "k < fst x" if "x \<in> set (concat (map contents cs2))" for x
  proof -
    have "Key (fst x) (snd x) \<in> set (weave_after ks2 (map flatten cs2))"
      using that unfolding e [symmetric] by (simp flip: entries_set)
    then show ?thesis using Q by force
  qed
  have "\<forall>x \<in> set (concat (after @ concat (map leaves cs2))). k < fst x"
    using IH(4) right unfolding concat_append aft set_append by blast
  moreover have "\<forall>x \<in> set (entries (weave ks1 (map flatten cs1)) @ before). if u then fst x < k else fst x \<le> k"
    using left IH(3) by auto
  moreover have "contents (Node ks cs) = (entries (weave ks1 (map flatten cs1)) @ before) @ here @
      concat (after @ concat (map leaves cs2))"
    using ct IH(2) aft by simp
  ultimately show ?case using fl by blast
qed

lemma search_pairs_map_of: "search_pairs k kvs = map_of kvs k"
  by (induction kvs) auto

lemma map_of_outside: "(\<And>x. x \<in> set kvs \<Longrightarrow> fst x \<noteq> k) \<Longrightarrow> map_of kvs k = None"
  by (force simp: map_of_eq_None_iff)

lemma find_leaf_search:
  assumes "3 \<le> n" "shaped n root h t" "ordered True (flatten t)"
  shows "\<exists>here after. find_leaf t k = Inr (here # after) \<and> map_of here k = map_of (contents t) k"
proof -
  obtain before here after where f: "find_leaf t k = Inr (here # after)" "contents t = before @ here @ concat after"
      "\<forall>x \<in> set before. fst x < k" "\<forall>x \<in> set (concat after). k < fst x"
    using find_leaf_ok [OF assms, of k] by auto
  have "map_of before k = None" "map_of (concat after) k = None"
    using f(3,4) by (intro map_of_outside; force)+
  then have "map_of here k = map_of (contents t) k" using f(2) by (auto simp: map_add_def split: option.split)
  then show ?thesis using f(1) by blast
qed

lemma scan_pairs_filter:
  "sorted_wrt (\<lambda>a b. fst a \<le> fst b) kvs \<Longrightarrow>
   scan_pairs low high il ih kvs = filter (\<lambda>e. \<not> too_low low il (fst e) \<and> \<not> too_high high ih (fst e)) kvs"
proof (induction kvs)
  case (Cons e kvs)
  obtain k v where e: "e = (k, v)" by (cases e)
  have "filter (\<lambda>e. \<not> too_low low il (fst e) \<and> \<not> too_high high ih (fst e)) kvs = []" if "too_high high ih k"
    using that Cons(2) by (auto simp: filter_empty_conv too_high_def e split: option.splits if_splits)
  then show ?case using Cons by (auto simp: e)
qed simp

end
