(* ===== verification/BTree_Delete.thy ===== *)
theory BTree_Delete
  imports BTree_Spec
begin

text \<open>
  Deletion from a B+ tree without duplicate keys.  Every rearrangement of a node's neighbours is
  a refit of the flattened sequence: it stays ordered and gains at most separators equal to keys
  that occur in it, so it fits wherever the old sequence did.
\<close>

section \<open>Refitting\<close>

definition refit :: "('k::linorder, 'v) item list \<Rightarrow> ('k, 'v) item list \<Rightarrow> bool" where
  "refit X Y = (ordered True X \<longrightarrow> ordered True Y \<and> set Y \<subseteq> set X \<union> Sep ` fst ` set (entries X))"

lemma refit_refl [simp]: "refit X X"
  by (auto simp: refit_def)

lemma refit_item:
  assumes "refit X Y" "ordered True X" "y \<in> set Y"
  shows "y \<in> set X \<or> (\<exists>k v. y = Sep k \<and> Key k v \<in> set X)"
  using assms by (force simp: refit_def entries_set)

lemma refit_itemI:
  "y \<in> set X \<or> (\<exists>k v. y = Sep k \<and> Key k v \<in> set X) \<Longrightarrow> y \<in> set X \<union> Sep ` fst ` set (entries X)"
  by (auto simp flip: entries_set intro: rev_image_eqI)

lemma refit_trans:
  assumes "refit X Y" "refit Y Z"
  shows "refit X Z"
proof -
  have "set Z \<subseteq> set X \<union> Sep ` fst ` set (entries X) \<and> ordered True Z" if o: "ordered True X"
  proof -
    have Y: "ordered True Y" using assms(1) o by (simp add: refit_def)
    have "z \<in> set X \<or> (\<exists>k v. z = Sep k \<and> Key k v \<in> set X)" if z: "z \<in> set Z" for z
      using refit_item [OF assms(2) Y z]
    proof (elim disjE exE conjE)
      assume "z \<in> set Y" then show ?thesis by (rule refit_item [OF assms(1) o])
    next
      fix k v assume "z = Sep k" "Key k v \<in> set Y"
      then show ?thesis using refit_item [OF assms(1) o, of "Key k v"] by auto
    qed
    then have "set Z \<subseteq> set X \<union> Sep ` fst ` set (entries X)" by (intro subsetI refit_itemI)
    then show ?thesis using assms(2) Y by (auto simp: refit_def)
  qed
  then show ?thesis by (simp add: refit_def)
qed

lemma refit_context:
  assumes "refit X Y"
  shows "refit (P @ X @ Q) (P @ Y @ Q)"
proof -
  have "ordered True (P @ Y @ Q) \<and> set (P @ Y @ Q) \<subseteq> set (P @ X @ Q) \<union> Sep ` fst ` set (entries (P @ X @ Q))"
    if o: "ordered True (P @ X @ Q)"
  proof -
    have X: "ordered True X" "ordered True P" "ordered True Q"
      "\<And>p q. p \<in> set P \<Longrightarrow> q \<in> set Q \<Longrightarrow> item_le True p q"
      "\<And>p x. p \<in> set P \<Longrightarrow> x \<in> set X \<Longrightarrow> item_le True p x"
      "\<And>q x. q \<in> set Q \<Longrightarrow> x \<in> set X \<Longrightarrow> item_le True x q"
      using o by (auto simp: sorted_wrt_append)
    note it = refit_item [OF assms X(1)]
    have "item_le True p y" if p: "p \<in> set P" and y: "y \<in> set Y" for p y
      using it [OF y]
    proof (elim disjE exE conjE)
      fix k v assume "y = Sep k" "Key k v \<in> set X"
      then show ?thesis using item_le_Sep_right [OF X(5) [OF p]] by simp
    qed (rule X(5) [OF p])
    moreover have "item_le True y q" if q: "q \<in> set Q" and y: "y \<in> set Y" for q y
      using it [OF y]
    proof (elim disjE exE conjE)
      fix k v assume "y = Sep k" "Key k v \<in> set X"
      then show ?thesis using item_le_Sep_left [OF X(6) [OF q]] by simp
    qed (rule X(6) [OF q])
    ultimately have "ordered True (P @ Y @ Q)"
      using X(2-4) assms X(1) by (auto simp: sorted_wrt_append refit_def)
    moreover have "set Y \<subseteq> set X \<union> Sep ` fst ` set (entries X)" using assms X(1) by (simp add: refit_def)
    ultimately show ?thesis by auto
  qed
  then show ?thesis by (simp add: refit_def)
qed

lemma refit_new_sep: "refit (P @ Key k v # Q) (P @ Sep k # Key k v # Q)"
  using ordered_add_sep [of True P k v Q] by (auto simp: refit_def image_iff)

lemma refit_drop: "refit (P @ x # Q) (P @ Q)"
  by (auto simp: refit_def sorted_wrt_append)

lemma refit_move_sep_left: "refit (P @ Key k v # Sep s # Q) (P @ Sep k # Key k v # Q)"
  using refit_drop [of "P @ [Key k v]" "Sep s" Q] refit_new_sep [of P k v Q] by (auto intro: refit_trans)

lemma refit_move_sep_right:
  "refit (P @ Sep s # Key k v # Key k' v' # Q) (P @ Key k v # Sep k' # Key k' v' # Q)"
  using refit_drop [of P "Sep s" "Key k v # Key k' v' # Q"] refit_new_sep [of "P @ [Key k v]" k' v' Q]
  by (auto intro: refit_trans)

lemma refit_replace_sep: "refit (P @ Sep s # Key k v # Q) (P @ Sep k # Key k v # Q)"
  using refit_drop [of P "Sep s" "Key k v # Q"] refit_new_sep [of P k v Q] by (auto intro: refit_trans)

section \<open>Underfull nodes\<close>

text \<open>\<open>loose\<close> relaxes the minimum of the top node by one key.\<close>

fun loose :: "nat \<Rightarrow> bool \<Rightarrow> nat \<Rightarrow> ('k, 'v) bnode \<Rightarrow> bool" where
  "loose n root h (Leaf kvs) = (h = 1 \<and> length kvs \<le> n - 1 \<and> (root \<or> min_keys n - 1 \<le> length kvs))"
| "loose n root h (Node ks cs) =
     (1 < h \<and> length cs = Suc (length ks) \<and> length ks \<le> n - 1 \<and>
      (root \<or> min_keys n - 1 \<le> length ks) \<and> (\<forall>c \<in> set cs. shaped n False (h - 1) c))"

lemma min_keys_pos: "3 \<le> n \<Longrightarrow> 1 \<le> min_keys n \<and> 2 * min_keys n \<le> n - 1"
  by (auto simp: min_keys_def)

lemma shaped_loose: "shaped n root h t \<Longrightarrow> loose n root h t"
  by (cases t) (auto split: if_splits)

lemma loose_shaped: "loose n False h t \<Longrightarrow> min_keys n \<le> num_keys t \<Longrightarrow> shaped n False h t"
  by (cases t) auto

lemma shaped_root: "3 \<le> n \<Longrightarrow> shaped n False h t \<Longrightarrow> shaped n True h t"
  using min_keys_pos [of n] by (cases t) auto

lemma shaped_num_keys: "shaped n False h t \<Longrightarrow> min_keys n \<le> num_keys t"
  by (cases t) auto

text \<open>What a rearrangement of two neighbours around a separator must deliver.\<close>

definition pair_ok ::
  "nat \<Rightarrow> nat \<Rightarrow> ('k::linorder, 'v) bnode \<Rightarrow> 'k \<Rightarrow> ('k, 'v) bnode \<Rightarrow>
     ('k, 'v) bnode \<Rightarrow> 'k \<Rightarrow> ('k, 'v) bnode \<Rightarrow> bool"
where
  "pair_ok n h a s b a' s' b' =
     (refit (flatten a @ Sep s # flatten b) (flatten a' @ Sep s' # flatten b') \<and>
      contents a' @ contents b' = contents a @ contents b \<and>
      shaped n False h a' \<and> shaped n False h b')"

lemma contents_Leaf [simp]: "contents (Leaf kvs) = kvs"
  by (simp add: contents_def)

lemma contents_eqI: "flatten a @ Sep s # flatten b = flatten a' @ Sep s' # flatten b' \<Longrightarrow>
    contents a' @ contents b' = contents a @ contents b"
  by (metis entries.simps(3) entries_append entries_flatten)

lemma pair_ok_same:
  assumes "flatten a @ Sep s # flatten b = flatten a' @ Sep s' # flatten b'"
    and "shaped n False h a'" "shaped n False h b'"
  shows "pair_ok n h a s b a' s' b'"
  unfolding pair_ok_def using contents_eqI [OF assms(1)] assms(2,3) by (simp add: assms(1))

lemma borrow_left_ok:
  assumes "3 \<le> n" "shaped n False h a" "min_keys n < num_keys a" "loose n False h b" "num_keys b < min_keys n"
  shows "\<exists>a' s' b'. borrow_left a s b = Inr (a', s', b') \<and> pair_ok n h a s b a' s' b'"
proof (cases a)
  case (Leaf l)
  then obtain m where b: "b = Leaf m" using assms(2,4) by (cases b) auto
  obtain l' x w where l: "l = l' @ [(x, w)]"
    using assms(3) Leaf by (metis gr_implies_not0 list.size(3) num_keys.simps(1) rev_exhaust surj_pair)
  have "refit (flatten a @ Sep s # flatten b) (flatten (Leaf l') @ Sep x # flatten (Leaf ((x, w) # m)))"
    using refit_move_sep_left [of "flatten (Leaf l')" x w s "flatten b"] by (simp add: Leaf b l)
  then show ?thesis
    using assms min_keys_pos [OF assms(1)] by (auto simp: Leaf b l pair_ok_def)
next
  case (Node lks lcs)
  then obtain ks cs where b: "b = Node ks cs" using assms(2,4) by (cases b) auto
  have "lks \<noteq> []" "length lcs = Suc (length lks)" using assms(2,3) Node by auto
  then obtain lks' z lcs' c where l: "lks = lks' @ [z]" "lcs = lcs' @ [c]" "length lcs' = Suc (length lks')"
    by (metis (no_types, lifting) Suc_inject length_0_conv length_append_singleton nat.distinct(1) rev_exhaust)
  have "flatten a @ Sep s # flatten b = flatten (Node lks' lcs') @ Sep z # flatten (Node (s # ks) (c # cs))"
    using l(3) weave_join [of "map flatten lcs'" lks' z "[]" "[flatten c]"] by (simp add: Node b l)
  then have "pair_ok n h a s b (Node lks' lcs') z (Node (s # ks) (c # cs))"
    by (rule pair_ok_same) (use assms min_keys_pos [OF assms(1)] l(3) in \<open>auto simp: Node b l\<close>)
  then show ?thesis by (simp add: Node b l)
qed

lemma borrow_right_ok:
  assumes "3 \<le> n" "shaped n False h b" "min_keys n < num_keys b" "loose n False h a" "num_keys a < min_keys n"
  shows "\<exists>a' s' b'. borrow_right a s b = Inr (a', s', b') \<and> pair_ok n h a s b a' s' b'"
proof (cases b)
  case (Leaf r)
  then obtain m where a: "a = Leaf m" using assms(2,4) by (cases a) auto
  obtain x w y v r' where r: "r = (x, w) # (y, v) # r'"
    using assms(3) min_keys_pos [OF assms(1)] Leaf by (cases r rule: remdups_adj.cases) auto
  have "refit (flatten a @ Sep s # flatten b) (flatten (Leaf (m @ [(x, w)])) @ Sep y # flatten (Leaf ((y, v) # r')))"
    using refit_move_sep_right [of "flatten a" s x w y v "flatten (Leaf r')"] by (simp add: Leaf a r)
  then show ?thesis
    using assms min_keys_pos [OF assms(1)] by (auto simp: Leaf a r pair_ok_def)
next
  case (Node rks rcs)
  then obtain ks cs where a: "a = Node ks cs" using assms(2,4) by (cases a) auto
  obtain z rks' c rcs' where r: "rks = z # rks'" "rcs = c # rcs'" "length rcs' = Suc (length rks')"
    using assms(2,3) Node by (cases rks; cases rcs) auto
  have "flatten a @ Sep s # flatten b = flatten (Node (ks @ [s]) (cs @ [c])) @ Sep z # flatten (Node rks' rcs')"
    using assms(4) weave_join [of "map flatten cs" ks s "[]" "[flatten c]"] by (simp add: Node a r)
  then have "pair_ok n h a s b (Node (ks @ [s]) (cs @ [c])) z (Node rks' rcs')"
    by (rule pair_ok_same) (use assms min_keys_pos [OF assms(1)] r(3) in \<open>auto simp: Node a r\<close>)
  then show ?thesis by (simp add: Node a r)
qed

lemma merge_nodes_ok:
  assumes "3 \<le> n" "loose n False h a" "loose n False h b" "num_keys a + num_keys b < 2 * min_keys n"
    "min_keys n \<le> num_keys a \<or> min_keys n \<le> num_keys b"
  shows "\<exists>c. merge_nodes a s b = Inr c \<and> refit (flatten a @ Sep s # flatten b) (flatten c) \<and>
    contents c = contents a @ contents b \<and> shaped n False h c"
proof (cases a)
  case (Leaf l)
  then obtain r where b: "b = Leaf r" using assms(2,3) by (cases b) auto
  show ?thesis
    using assms min_keys_pos [OF assms(1)] refit_drop [of "flatten a" "Sep s" "flatten b"]
    by (auto simp: Leaf b)
next
  case (Node lks lcs)
  then obtain rks rcs where b: "b = Node rks rcs" using assms(2,3) by (cases b) auto
  have f: "flatten a @ Sep s # flatten b = flatten (Node (lks @ s # rks) (lcs @ rcs))"
    using assms(2) weave_join [of "map flatten lcs" lks s rks "map flatten rcs"] by (simp add: Node b)
  then have "contents (Node (lks @ s # rks) (lcs @ rcs)) = contents a @ contents b"
    by (metis entries.simps(3) entries_append entries_flatten)
  then show ?thesis
    using assms min_keys_pos [OF assms(1)] f by (auto simp: Node b)
qed

lemma weave_pair:
  assumes "length ks1 = length xs1" "length ks2 = length xs2"
  shows "weave (ks1 @ s # ks2) (xs1 @ x # y # xs2) = weave ks1 xs1 @ (x @ Sep s # y) @ weave_after ks2 xs2"
  using assms weave_split [of ks1 xs1 "s # ks2" "y # xs2" x] by simp

text \<open>Two neighbouring children and the separator between them, in a node.\<close>

lemma neighbours:
  assumes "length cs = Suc (length ks)" "j < length ks"
  obtains ks1 s ks2 cs1 a b cs2 where
    "ks = ks1 @ s # ks2" "cs = cs1 @ a # b # cs2" "length ks1 = j" "length cs1 = j" "length ks2 = length cs2"
    "ks ! j = s" "cs ! j = a" "cs ! Suc j = b"
proof -
  have k: "ks = take j ks @ ks ! j # drop (Suc j) ks" using assms(2) by (rule id_take_nth_drop)
  have "cs = take j cs @ cs ! j # drop (Suc j) cs" using assms by (intro id_take_nth_drop) simp
  moreover have "drop (Suc j) cs = cs ! Suc j # drop (Suc (Suc j)) cs"
    using assms by (intro Cons_nth_drop_Suc [symmetric]) simp
  ultimately have c: "cs = take j cs @ cs ! j # cs ! Suc j # drop (Suc (Suc j)) cs" by simp
  show thesis by (rule that [OF k c]) (use assms in auto)
qed

text \<open>What rebalancing the children of a node must deliver.\<close>

definition node_ok ::
  "nat \<Rightarrow> nat \<Rightarrow> 'k::linorder list \<Rightarrow> ('k, 'v) bnode list \<Rightarrow> 'k list \<Rightarrow> ('k, 'v) bnode list \<Rightarrow> bool \<Rightarrow> bool"
where
  "node_ok n h ks cs ks' cs' m =
     (refit (flatten (Node ks cs)) (flatten (Node ks' cs')) \<and>
      contents (Node ks' cs') = contents (Node ks cs) \<and>
      length cs' = Suc (length ks') \<and> (\<forall>c \<in> set cs'. shaped n False h c) \<and>
      length ks = (if m then Suc (length ks') else length ks'))"

lemma contents_Node: "contents (Node ks cs) = concat (map contents cs)"
  by (simp add: contents_def [abs_def] concat_twice comp_def)

lemma put_pair_ok:
  assumes "length cs = Suc (length ks)" "j < length ks"
    and "\<And>i. i < length cs \<Longrightarrow> i \<noteq> j \<Longrightarrow> i \<noteq> Suc j \<Longrightarrow> shaped n False h (cs ! i)"
    and "\<exists>a s b. r = Inr (a, s, b) \<and> pair_ok n h (cs ! j) (ks ! j) (cs ! Suc j) a s b"
  shows "\<exists>ks' cs'. put_pair ks cs j r = Inr (ks', cs', False) \<and> node_ok n h ks cs ks' cs' False"
proof -
  obtain ks1 s ks2 cs1 a b cs2 where sp: "ks = ks1 @ s # ks2" "cs = cs1 @ a # b # cs2" "length ks1 = j"
      "length cs1 = j" "length ks2 = length cs2" "ks ! j = s" "cs ! j = a" "cs ! Suc j = b"
    by (rule neighbours [OF assms(1,2)])
  obtain a' s' b' where r: "r = Inr (a', s', b')" "pair_ok n h a s b a' s' b'" using assms(4) sp(6-8) by auto
  have upd: "ks[j := s'] = ks1 @ s' # ks2" "cs[j := a', Suc j := b'] = cs1 @ a' # b' # cs2"
    using sp(1-4) by (auto simp: list_update_append)
  have sh: "shaped n False h c" if c: "c \<in> set cs1 \<union> set cs2" for c
  proof -
    obtain i where "i < length cs" "i \<noteq> j" "i \<noteq> Suc j" "cs ! i = c"
    proof (cases "c \<in> set cs1")
      case True
      then obtain i where "i < length cs1" "cs1 ! i = c" by (auto simp: in_set_conv_nth)
      then show ?thesis using that [of i] sp(2,4) by (auto simp: nth_append)
    next
      case False
      then obtain i where "i < length cs2" "cs2 ! i = c" using c by (auto simp: in_set_conv_nth)
      then show ?thesis using that [of "j + 2 + i"] sp(2,4) by (auto simp: nth_append)
    qed
    then show ?thesis using assms(3) by blast
  qed
  let ?P = "weave ks1 (map flatten cs1)" and ?Q = "weave_after ks2 (map flatten cs2)"
  have f: "flatten (Node ks cs) = ?P @ (flatten a @ Sep s # flatten b) @ ?Q"
    "flatten (Node (ks1 @ s' # ks2) (cs1 @ a' # b' # cs2)) = ?P @ (flatten a' @ Sep s' # flatten b') @ ?Q"
    using sp(1-5) by (simp_all add: weave_pair)
  have "refit (flatten (Node ks cs)) (flatten (Node (ks1 @ s' # ks2) (cs1 @ a' # b' # cs2)))"
    unfolding f by (rule refit_context) (use r(2) in \<open>simp add: pair_ok_def\<close>)
  moreover have "contents (Node (ks1 @ s' # ks2) (cs1 @ a' # b' # cs2)) = contents (Node ks cs)"
    using r(2) sp(2) by (simp add: contents_Node pair_ok_def)
  ultimately have "node_ok n h ks cs (ks1 @ s' # ks2) (cs1 @ a' # b' # cs2) False"
    using r(2) sp(1-5) sh by (auto simp: node_ok_def pair_ok_def)
  moreover have "put_pair ks cs j r = Inr (ks1 @ s' # ks2, cs1 @ a' # b' # cs2, False)"
    by (simp add: put_pair_def r(1) upd)
  ultimately show ?thesis by blast
qed

lemma merge_at_ok:
  assumes "length cs = Suc (length ks)" "j < length ks"
    and "\<And>i. i < length cs \<Longrightarrow> i \<noteq> j \<Longrightarrow> i \<noteq> Suc j \<Longrightarrow> shaped n False h (cs ! i)"
    and "\<exists>c. merge_nodes (cs ! j) (ks ! j) (cs ! Suc j) = Inr c \<and>
      refit (flatten (cs ! j) @ Sep (ks ! j) # flatten (cs ! Suc j)) (flatten c) \<and>
      contents c = contents (cs ! j) @ contents (cs ! Suc j) \<and> shaped n False h c"
  shows "\<exists>ks' cs'. merge_at ks cs j = Inr (ks', cs', True) \<and> node_ok n h ks cs ks' cs' True"
proof -
  obtain ks1 s ks2 cs1 a b cs2 where sp: "ks = ks1 @ s # ks2" "cs = cs1 @ a # b # cs2" "length ks1 = j"
      "length cs1 = j" "length ks2 = length cs2" "ks ! j = s" "cs ! j = a" "cs ! Suc j = b"
    by (rule neighbours [OF assms(1,2)])
  obtain c where c: "merge_nodes a s b = Inr c" "refit (flatten a @ Sep s # flatten b) (flatten c)"
      "contents c = contents a @ contents b" "shaped n False h c"
    using assms(4) sp(6-8) by auto
  have upd: "delete_at j ks = ks1 @ ks2" "delete_at (Suc j) (cs[j := c]) = cs1 @ c # cs2"
    using sp(1-4) by (auto simp: delete_at_def list_update_append)
  have sh: "shaped n False h x" if x: "x \<in> set cs1 \<union> set cs2" for x
  proof -
    obtain i where "i < length cs" "i \<noteq> j" "i \<noteq> Suc j" "cs ! i = x"
    proof (cases "x \<in> set cs1")
      case True
      then obtain i where "i < length cs1" "cs1 ! i = x" by (auto simp: in_set_conv_nth)
      then show ?thesis using that [of i] sp(2,4) by (auto simp: nth_append)
    next
      case False
      then obtain i where "i < length cs2" "cs2 ! i = x" using x by (auto simp: in_set_conv_nth)
      then show ?thesis using that [of "j + 2 + i"] sp(2,4) by (auto simp: nth_append)
    qed
    then show ?thesis using assms(3) by blast
  qed
  let ?P = "weave ks1 (map flatten cs1)" and ?Q = "weave_after ks2 (map flatten cs2)"
  have f: "flatten (Node ks cs) = ?P @ (flatten a @ Sep s # flatten b) @ ?Q"
    "flatten (Node (ks1 @ ks2) (cs1 @ c # cs2)) = ?P @ flatten c @ ?Q"
    using sp(1-5) by (simp_all add: weave_pair weave_split)
  have "refit (flatten (Node ks cs)) (flatten (Node (ks1 @ ks2) (cs1 @ c # cs2)))"
    unfolding f by (rule refit_context [OF c(2)])
  moreover have "contents (Node (ks1 @ ks2) (cs1 @ c # cs2)) = contents (Node ks cs)"
    using c(3) sp(2) by (simp add: contents_Node)
  moreover have "merge_at ks cs j = Inr (ks1 @ ks2, cs1 @ c # cs2, True)"
    using c(1) sp(6-8) assms(1,2) upd by (simp add: merge_at_def)
  ultimately show ?thesis
    using c(4) sp(1-5) sh by (auto simp: node_ok_def)
qed

lemma handle_underflow_ok:
  assumes n: "3 \<le> n" and len: "length cs = Suc (length ks)" "ks \<noteq> []" "i < length cs"
    and sh: "\<And>j. j < length cs \<Longrightarrow> j \<noteq> i \<Longrightarrow> shaped n False h (cs ! j)"
    and c: "loose n False h (cs ! i)" "num_keys (cs ! i) < min_keys n"
  shows "\<exists>ks' cs' m. handle_underflow n ks cs i = Inr (ks', cs', m) \<and> node_ok n h ks cs ks' cs' m"
proof -
  have lo: "loose n False h (cs ! j)" if "j < length cs" for j
    using sh [OF that] c(1) shaped_loose by (cases "j = i") auto
  have mk: "min_keys n \<le> num_keys (cs ! j)" if "j < length cs" "j \<noteq> i" for j
    using sh [OF that] by (rule shaped_num_keys)
  consider (left) "i > 0" "num_keys (cs ! (i - 1)) > min_keys n"
    | (right) "\<not> (i > 0 \<and> num_keys (cs ! (i - 1)) > min_keys n)" "i < length cs - 1" "num_keys (cs ! (i + 1)) > min_keys n"
    | (merge_left) "\<not> num_keys (cs ! (i - 1)) > min_keys n" "\<not> (i < length cs - 1 \<and> num_keys (cs ! (i + 1)) > min_keys n)" "i > 0"
    | (merge_right) "\<not> (i < length cs - 1 \<and> num_keys (cs ! (i + 1)) > min_keys n)" "i = 0"
    by fastforce
  then show ?thesis
  proof cases
    case left
    then have h: "handle_underflow n ks cs i =
        put_pair ks cs (i - 1) (borrow_left (cs ! (i - 1)) (ks ! (i - 1)) (cs ! i))"
      by (simp add: handle_underflow_def)
    have "\<exists>a s b. borrow_left (cs ! (i - 1)) (ks ! (i - 1)) (cs ! i) = Inr (a, s, b) \<and>
        pair_ok n h (cs ! (i - 1)) (ks ! (i - 1)) (cs ! Suc (i - 1)) a s b"
      using borrow_left_ok [OF n sh left(2) c, where s = "ks ! (i - 1)"] left(1) len by simp
    from put_pair_ok [OF len(1) _ _ this] show ?thesis using h left(1) len sh by fastforce
  next
    case right
    then have h: "handle_underflow n ks cs i = put_pair ks cs i (borrow_right (cs ! i) (ks ! i) (cs ! (i + 1)))"
      unfolding handle_underflow_def by meson
    have "\<exists>a s b. borrow_right (cs ! i) (ks ! i) (cs ! (i + 1)) = Inr (a, s, b) \<and>
        pair_ok n h (cs ! i) (ks ! i) (cs ! Suc i) a s b"
      using borrow_right_ok [OF n sh right(3) c, where s = "ks ! i"] right(2) by simp
    from put_pair_ok [OF len(1) _ _ this] show ?thesis using h right(2) len sh by fastforce
  next
    case merge_left
    then have h: "handle_underflow n ks cs i = merge_at ks cs (i - 1)"
      unfolding handle_underflow_def by meson
    have "\<exists>d. merge_nodes (cs ! (i - 1)) (ks ! (i - 1)) (cs ! Suc (i - 1)) = Inr d \<and>
      refit (flatten (cs ! (i - 1)) @ Sep (ks ! (i - 1)) # flatten (cs ! Suc (i - 1))) (flatten d) \<and>
      contents d = contents (cs ! (i - 1)) @ contents (cs ! Suc (i - 1)) \<and> shaped n False h d"
      using lo [of "i - 1"] lo [of i] mk [of "i - 1"] c(2) merge_left len by (intro merge_nodes_ok [OF n]) auto
    from merge_at_ok [OF len(1) _ _ this] show ?thesis using h merge_left(3) len sh by fastforce
  next
    case merge_right
    then have h: "handle_underflow n ks cs i = merge_at ks cs i"
      unfolding handle_underflow_def by auto
    have "1 < length cs" using len by simp
    then have "\<exists>d. merge_nodes (cs ! i) (ks ! i) (cs ! Suc i) = Inr d \<and>
      refit (flatten (cs ! i) @ Sep (ks ! i) # flatten (cs ! Suc i)) (flatten d) \<and>
      contents d = contents (cs ! i) @ contents (cs ! Suc i) \<and> shaped n False h d"
      using c(1) lo [of 1] mk [of 1] c(2) merge_right by (intro merge_nodes_ok [OF n]) auto
    from merge_at_ok [OF len(1) _ _ this] show ?thesis using h merge_right(2) len sh by fastforce
  qed
qed

section \<open>Deleting a key\<close>

lemma index_of_key_None: "index_of_key k kvs = None \<longleftrightarrow> k \<notin> fst ` set kvs"
  by (induction kvs) (auto split: if_splits)

lemma index_of_key_Some:
  "index_of_key k kvs = Some i \<Longrightarrow> i < length kvs \<and> fst (kvs ! i) = k"
  by (induction kvs arbitrary: i) (auto split: if_splits)

definition without :: "'k \<Rightarrow> ('k \<times> 'v) list \<Rightarrow> ('k \<times> 'v) list" where
  "without k kvs = filter (\<lambda>e. fst e \<noteq> k) kvs"

lemma without_append [simp]: "without k (xs @ ys) = without k xs @ without k ys"
  by (simp add: without_def)

lemma without_other: "(\<And>x. x \<in> set xs \<Longrightarrow> fst x \<noteq> k) \<Longrightarrow> without k xs = xs"
  by (simp add: without_def)

lemma delete_at_without:
  fixes kvs :: "('k::linorder \<times> 'v) list"
  shows "sorted_wrt (\<lambda>a b. fst a < fst b) kvs \<Longrightarrow> index_of_key k kvs = Some i \<Longrightarrow> delete_at i kvs = without k kvs"
proof (induction kvs arbitrary: i)
  case (Cons e kvs)
  show ?case
  proof (cases "fst e = k")
    case True
    have "fst x \<noteq> k" if "x \<in> set kvs" for x
    proof -
      have "fst e < fst x" using Cons(2) that by simp
      with True show ?thesis by auto
    qed
    then have "without k kvs = kvs" by (rule without_other)
    moreover have "i = 0" using Cons(3) True by (cases e) auto
    ultimately show ?thesis using True by (simp add: delete_at_def without_def)
  next
    case False
    then obtain j where "i = Suc j" "index_of_key k kvs = Some j" using Cons(3) by (cases e) auto
    then show ?thesis using Cons False by (simp add: delete_at_def without_def)
  qed
qed simp

text \<open>What the deletion of \<open>k\<close> from a subtree must deliver.\<close>

definition deleted ::
  "nat \<Rightarrow> bool \<Rightarrow> nat \<Rightarrow> 'k::linorder \<Rightarrow> ('k, 'v) bnode \<Rightarrow> ('k, 'v) bnode \<Rightarrow> bool \<Rightarrow> bool \<Rightarrow> bool"
where
  "deleted n root h k t c found shrunk =
     (found = (k \<in> fst ` set (contents t)) \<and> contents c = without k (contents t) \<and>
      refit (flatten t) (flatten c) \<and> loose n root h c \<and> (\<not> shrunk \<longrightarrow> shaped n root h c) \<and>
      (\<not> found \<longrightarrow> c = t \<and> \<not> shrunk))"

lemma refit_subseq: "ordered True ys \<Longrightarrow> set ys \<subseteq> set xs \<Longrightarrow> refit xs ys"
  by (auto simp: refit_def)

lemma delete_leaf_ok:
  assumes "shaped n root h (Leaf kvs)" "ordered True (flatten (Leaf kvs))"
  shows "\<exists>c f s. delete_node n k (Leaf kvs) = Inr (c, f, s) \<and> deleted n root h k (Leaf kvs) c f s"
proof (cases "index_of_key k kvs")
  case None
  then have "k \<notin> fst ` set kvs" by (simp add: index_of_key_None)
  then show ?thesis
    using None assms(1) shaped_loose [OF assms(1)] by (auto simp: deleted_def intro!: without_other [symmetric])
next
  case (Some i)
  have so: "sorted_wrt (\<lambda>a b. fst a < fst b) kvs"
    using ordered_contents [OF assms(2)] by simp
  have i: "i < length kvs" "fst (kvs ! i) = k" using index_of_key_Some [OF Some] by simp_all
  have d: "delete_at i kvs = without k kvs" by (rule delete_at_without [OF so Some])
  have "length (without k kvs) = length kvs - 1" using i(1) by (simp flip: d add: delete_at_def)
  moreover have "refit (flatten (Leaf kvs)) (flatten (Leaf (without k kvs)))"
  proof (rule refit_subseq)
    show "ordered True (flatten (Leaf (without k kvs)))"
      using assms(2) by (simp add: without_def sorted_wrt_map sorted_wrt_filter)
  qed (auto simp: without_def)
  moreover have "k \<in> fst ` set kvs" using i by (metis image_eqI nth_mem)
  moreover have "loose n root h (Leaf (without k kvs))"
    using assms(1) calculation(1) by auto
  ultimately have "deleted n root h k (Leaf kvs) (Leaf (without k kvs)) True True"
    unfolding deleted_def contents_Leaf by blast
  then show ?thesis using Some d by auto
qed

text \<open>Refreshing the separator left of a leaf with the leaf's first key.\<close>

lemma update_parent_key_ok:
  assumes "ks = ks1 @ ks2" "length ks1 = length xs1" "length ks2 = length cs2" "i = length ks1"
  shows "length (update_parent_key ks i c) = length ks \<and>
    refit (weave ks1 xs1 @ flatten c @ weave_after ks2 cs2)
      (weave (update_parent_key ks i c) (xs1 @ flatten c # cs2))"
proof (cases "\<exists>x w kvs. c = Leaf ((x, w) # kvs) \<and> 0 < i")
  case True
  then obtain x w kvs where c: "c = Leaf ((x, w) # kvs)" "0 < i" by blast
  then obtain ls a xs y where sn: "ks1 = ls @ [a]" "xs1 = xs @ [y]" "length ls = length xs"
    using assms(2,4) by (cases ks1 rule: rev_cases; cases xs1 rule: rev_cases) auto
  have u: "update_parent_key ks i c = (ls @ [x]) @ ks2"
    using c assms(1,4) sn by (auto simp: update_parent_key_def list_update_append)
  have "weave ((ls @ [x]) @ ks2) ((xs @ [y]) @ flatten c # cs2) = weave (ls @ [x]) (xs @ [y]) @ flatten c @ weave_after ks2 cs2"
    using sn(3) assms(3) by (intro weave_split) simp_all
  then show ?thesis
    using refit_replace_sep [of "weave ls xs @ y" a x w "map (\<lambda>(k, v). Key k v) kvs @ weave_after ks2 cs2"] sn assms(1)
    unfolding u by (simp add: c(1) weave_snoc)
next
  case False
  then have "update_parent_key ks i c = ks"
    by (auto simp: update_parent_key_def split: bnode.split list.split)
  then show ?thesis using assms by (simp add: weave_split)
qed

lemma delete_node_ok:
  assumes "3 \<le> n" "shaped n root h t" "ordered True (flatten t)"
  shows "\<exists>c f s. delete_node n k t = Inr (c, f, s) \<and> deleted n root h k t c f s"
  using assms
proof (induction n k t arbitrary: root h rule: delete_node.induct)
  case (1 n k kvs)
  then show ?case using delete_leaf_ok by blast
next
  case (2 n k ks cs)
  define i where "i = bisect_right ks k"
  have sh: "1 < h" "length cs = Suc (length ks)" "length ks \<le> n - 1"
    "(if root then 1 else min_keys n) \<le> length ks" "\<forall>c \<in> set cs. shaped n False (h - 1) c"
    using 2(3) by auto
  obtain ks1 ks2 cs1 c cs2 where sp: "ks = ks1 @ ks2" "cs = cs1 @ c # cs2" "length ks1 = i" "length cs1 = i"
      "length ks2 = length cs2"
      "\<forall>c'. flatten (Node ks (cs1 @ c' # cs2)) =
         weave ks1 (map flatten cs1) @ flatten c' @ weave_after ks2 (map flatten cs2)"
    and P: "\<forall>p \<in> set (weave ks1 (map flatten cs1)). \<forall>v. item_le True p (Key k v) \<and> item_le True p (Sep k)"
    and Q: "\<forall>q \<in> set (weave_after ks2 (map flatten cs2)). k < item_key q"
    by (rule route [OF 2(4) sh(2) i_def])
  define P' Q' where PQ: "P' = weave ks1 (map flatten cs1)" "Q' = weave_after ks2 (map flatten cs2)"
  have ci: "i < length cs" "cs ! i = c" "c \<in> set cs"
    using sp(2,4) by (auto simp flip: sp(4))
  have f: "flatten (Node ks (cs1 @ d # cs2)) = P' @ flatten d @ Q'" for d using sp(6) PQ by simp
  then have ct: "contents (Node ks (cs1 @ d # cs2)) = entries P' @ contents d @ entries Q'" for d
    by (metis entries_append entries_flatten)
  have out: "fst x \<noteq> k" if "x \<in> set (entries P') \<union> set (entries Q')" for x
    using P Q that by (cases x) (force simp: entries_set PQ)
  have "ordered True (flatten c)" using 2(4) f [of c] sp(2) by (simp add: sorted_wrt_append)
  then obtain d fd s where r: "delete_node n k c = Inr (d, fd, s)" "deleted n False (h - 1) k c d fd s"
    using 2(1) [OF i_def ci(1), of False "h - 1"] 2(2) sh(5) ci by auto
  have found: "fd = (k \<in> fst ` set (contents (Node ks cs)))"
    using r(2) out sp(2) ct [of c] by (auto simp: deleted_def image_iff)
  have cont: "contents (Node ks (cs1 @ d # cs2)) = without k (contents (Node ks cs))"
    using r(2) out without_other [of "entries P'" k] without_other [of "entries Q'" k] sp(2)
    by (simp add: ct deleted_def)
  have ref: "refit (flatten (Node ks cs)) (flatten (Node ks (cs1 @ d # cs2)))"
    using r(2) sp(2) f by (simp add: deleted_def refit_context)
  have upd: "cs[i := d] = cs1 @ d # cs2" using sp by (simp add: list_update_append)
  have others: "shaped n False (h - 1) x" if "x \<in> set cs1 \<union> set cs2" for x using sh(5) sp(2) that by auto
  consider (absent) "\<not> fd" | (under) "fd" "s \<and> num_keys d < min_keys n" | (plain) "fd" "\<not> (s \<and> num_keys d < min_keys n)"
    by blast
  then show ?case
  proof cases
    case absent
    then have "without k (contents (Node ks cs)) = contents (Node ks cs)"
      using found by (intro without_other) (auto simp: image_iff)
    then show ?thesis
      using absent r(1) ci found 2(3) shaped_loose [OF 2(3)]
      by (intro exI [of _ "Node ks cs"] exI [of _ False]) (simp add: i_def [symmetric] deleted_def del: flatten.simps loose.simps shaped.simps)
  next
    case under
    have "loose n False (h - 1) d" using r(2) by (simp add: deleted_def)
    moreover have "shaped n False (h - 1) ((cs1 @ d # cs2) ! j)" if "j < length (cs1 @ d # cs2)" "j \<noteq> i" for j
      using that others sp(4) nth_mem [of "j - Suc i" cs2] by (auto simp: nth_append nth_Cons split: nat.split)
    moreover have "ks \<noteq> []" using sh(4) min_keys_pos [OF 2(2)] by (auto split: if_splits)
    ultimately obtain ks' cs' m where hu: "handle_underflow n ks (cs1 @ d # cs2) i = Inr (ks', cs', m)"
        "node_ok n (h - 1) ks (cs1 @ d # cs2) ks' cs' m"
      using handle_underflow_ok [OF 2(2), of "cs1 @ d # cs2" ks i "h - 1"] sh(2) sp(2,4) under by auto
    have res: "delete_node n k (Node ks cs) = Inr (Node ks' cs', True, m)"
      using r(1) ci under hu(1) upd by (simp add: i_def [symmetric])
    have "loose n root h (Node ks' cs')" "\<not> m \<longrightarrow> shaped n root h (Node ks' cs')"
      using hu(2) sh min_keys_pos [OF 2(2)] by (auto simp: node_ok_def split: if_splits)
    moreover have "refit (flatten (Node ks cs)) (flatten (Node ks' cs'))"
      using refit_trans [OF ref] hu(2) by (simp add: node_ok_def)
    moreover have "contents (Node ks' cs') = without k (contents (Node ks cs))"
      using hu(2) cont by (simp add: node_ok_def)
    ultimately have "deleted n root h k (Node ks cs) (Node ks' cs') True m"
      unfolding deleted_def using under(1) found by blast
    then show ?thesis using res by blast
  next
    case plain
    have np: "(s \<and> num_keys d < min_keys n) = False" using plain(2) by simp
    define ks' where "ks' = (if (case cs ! i of Leaf kvs \<Rightarrow> index_of_key k kvs = Some 0 | _ \<Rightarrow> False)
      then update_parent_key ks i d else ks)"
    have res: "delete_node n k (Node ks cs) = Inr (Node ks' (cs1 @ d # cs2), True, False)"
      using r(1) ci(1,2) plain(1) upd by (simp add: i_def [symmetric] ks'_def Let_def np del: de_Morgan_conj)
    have l: "length ks1 = length (map flatten cs1)" "length ks2 = length (map flatten cs2)"
      using sp(3-5) by simp_all
    have up: "length (update_parent_key ks i d) = length ks"
      "refit (P' @ flatten d @ Q') (weave (update_parent_key ks i d) (map flatten cs1 @ flatten d # map flatten cs2))"
      using update_parent_key_ok [OF sp(1) l sp(3) [symmetric], of d] unfolding PQ by auto
    have k: "length ks' = length ks" "refit (flatten (Node ks (cs1 @ d # cs2))) (flatten (Node ks' (cs1 @ d # cs2)))"
      using up(1) up(2) [folded f] by (simp_all add: ks'_def)
    have "shaped n False (h - 1) d"
      using r(2) plain loose_shaped [of n "h - 1" d] by (auto simp: deleted_def)
    then have "shaped n root h (Node ks' (cs1 @ d # cs2))" using k(1) sh sp(2) others by auto
    moreover have "contents (Node ks' (cs1 @ d # cs2)) = without k (contents (Node ks cs))"
      using cont by (simp add: contents_Node)
    ultimately have "deleted n root h k (Node ks cs) (Node ks' (cs1 @ d # cs2)) True False"
      unfolding deleted_def using plain(1) found refit_trans [OF ref k(2)] shaped_loose by blast
    then show ?thesis using res by blast
  qed
qed

end
