(* ===== verification/BTree_Index.thy ===== *)
theory BTree_Index
  imports BTree_Delete
begin

text \<open>
  The B+ tree as an index.  The locale \<open>ordered_index\<close> states what a client of a unique index
  relies on; its client lemma says that any sequence of operations answers as on a finite map.
  The tree's operations interpret it.  The last section has the properties, and what goes wrong
  with duplicate keys and with bulk loading.
\<close>

section \<open>The contract of a unique index\<close>

datatype ('k, 'v) index_op = Put 'k 'v | Remove 'k | Look 'k

datatype 'v reply = Done bool | Found "'v option"

fun index_run ::
  "('t \<Rightarrow> 'k \<Rightarrow> 'v \<Rightarrow> ('t \<times> bool) result) \<Rightarrow> ('t \<Rightarrow> 'k \<Rightarrow> ('t \<times> bool) result) \<Rightarrow>
   ('t \<Rightarrow> 'k \<Rightarrow> 'v option result) \<Rightarrow> 't \<Rightarrow> ('k, 'v) index_op list \<Rightarrow> 'v reply list result"
where
  "index_run ins del look t [] = Inr []"
| "index_run ins del look t (Put k v # ops) =
     bindr (ins t k v) (\<lambda>(t', b). bindr (index_run ins del look t' ops) (\<lambda>rs. Inr (Done b # rs)))"
| "index_run ins del look t (Remove k # ops) =
     bindr (del t k) (\<lambda>(t', b). bindr (index_run ins del look t' ops) (\<lambda>rs. Inr (Done b # rs)))"
| "index_run ins del look t (Look k # ops) =
     bindr (look t k) (\<lambda>r. bindr (index_run ins del look t ops) (\<lambda>rs. Inr (Found r # rs)))"

fun map_run :: "('k \<rightharpoonup> 'v) \<Rightarrow> ('k, 'v) index_op list \<Rightarrow> 'v reply list" where
  "map_run m [] = []"
| "map_run m (Put k v # ops) =
     Done (m k = None) # map_run (if m k = None then m(k \<mapsto> v) else m) ops"
| "map_run m (Remove k # ops) = Done (m k \<noteq> None) # map_run (m(k := None)) ops"
| "map_run m (Look k # ops) = Found (m k) # map_run m ops"

locale ordered_index =
  fixes ok :: "'t \<Rightarrow> bool"
    and to_map :: "'t \<Rightarrow> 'k \<rightharpoonup> 'v"
    and ins :: "'t \<Rightarrow> 'k \<Rightarrow> 'v \<Rightarrow> ('t \<times> bool) result"
    and del :: "'t \<Rightarrow> 'k \<Rightarrow> ('t \<times> bool) result"
    and look :: "'t \<Rightarrow> 'k \<Rightarrow> 'v option result"
  assumes look_ok: "ok t \<Longrightarrow> look t k = Inr (to_map t k)"
    and ins_ok: "ok t \<Longrightarrow> \<exists>t'. ins t k v = Inr (t', to_map t k = None) \<and> ok t' \<and>
      to_map t' = (if to_map t k = None then (to_map t)(k \<mapsto> v) else to_map t)"
    and del_ok: "ok t \<Longrightarrow> \<exists>t'. del t k = Inr (t', to_map t k \<noteq> None) \<and> ok t' \<and>
      to_map t' = (to_map t)(k := None)"
begin

lemma run_map: "ok t \<Longrightarrow> index_run ins del look t ops = Inr (map_run (to_map t) ops)"
proof (induction ops arbitrary: t)
  case (Cons a ops)
  show ?case
  proof (cases a)
    case (Put k v)
    obtain t' where "ins t k v = Inr (t', to_map t k = None)" "ok t'"
      "to_map t' = (if to_map t k = None then (to_map t)(k \<mapsto> v) else to_map t)"
      using ins_ok [OF Cons(2)] by blast
    then show ?thesis using Cons(1) Put by simp
  next
    case (Remove k)
    obtain t' where "del t k = Inr (t', to_map t k \<noteq> None)" "ok t'" "to_map t' = (to_map t)(k := None)"
      using del_ok [OF Cons(2)] by blast
    then show ?thesis using Cons(1) Remove by (simp add: fun_upd_def)
  next
    case (Look k)
    then show ?thesis using Cons look_ok by simp
  qed
qed simp

end

section \<open>The tree's operations\<close>

lemma btree_insert_keeps:
  assumes "btree_ok u t" "u \<Longrightarrow> k \<notin> fst ` set (tree_entries t)"
  shows "\<exists>t'. btree_insert t k v = Inr t' \<and> btree_ok u t' \<and> tree_entries t' = ins_after k v (tree_entries t)"
proof -
  let ?n = "bt_order t" and ?h = "nat (bt_height t)" and ?r = "bt_root t"
  have ok: "3 \<le> ?n" "shaped ?n True ?h ?r" "ordered u (flatten ?r)" "1 \<le> bt_height t"
    "bt_size t = int (length (contents ?r))"
    using assms(1) by (simp_all add: btree_ok_def)
  obtain r where r: "insert_node ?n k v ?r = Inr r" "inserted ?n True ?h u k v ?r r"
    using insert_node_ok [OF ok(1-3)] assms(2) unfolding tree_entries_def by blast
  obtain c up where cu: "r = (c, up)" by (cases r)
  show ?thesis
  proof (cases up)
    case None
    then show ?thesis using r ok
      by (simp add: cu btree_insert_def btree_ok_def tree_entries_def inserted_def entries_flatten)
  next
    case (Some p)
    obtain s d where p: "p = (s, d)" by (cases p)
    have f: "flatten (Node [s] [c, d]) = result_flat r" by (simp add: cu Some p)
    have "contents (Node [s] [c, d]) = ins_after k v (contents ?r)"
      using r(2) unfolding inserted_def f [symmetric] entries_flatten by simp
    moreover have "shaped ?n True (nat (bt_height t + 1)) (Node [s] [c, d])"
      using r(2) ok(1,4) by (simp add: inserted_def cu Some p nat_add_distrib)
    moreover have "ordered u (flatten (Node [s] [c, d]))" using r(2) f by (simp add: inserted_def)
    ultimately show ?thesis
      using r(1) ok by (simp add: cu Some p btree_insert_def btree_ok_def tree_entries_def
        del: flatten.simps shaped.simps)
  qed
qed

lemma btree_search: "btree_ok True t \<Longrightarrow> search t k = Inr (map_of (tree_entries t) k)"
  using find_leaf_search [of "bt_order t" True "nat (bt_height t)" "bt_root t" k]
  by (auto simp: btree_ok_def search_def search_pairs_map_of tree_entries_def)

lemma map_of_ins_after: "k \<notin> fst ` set kvs \<Longrightarrow> map_of (ins_after k v kvs) = (map_of kvs)(k \<mapsto> v)"
proof -
  let ?a = "takeWhile (\<lambda>e. fst e \<le> k) kvs" and ?b = "dropWhile (\<lambda>e. fst e \<le> k) kvs"
  assume k: "k \<notin> fst ` set kvs"
  then have "map_of ?a k = None" by (force simp: map_of_eq_None_iff dest: set_takeWhileD)
  then have "map_of (?a @ (k, v) # ?b) = (map_of (?a @ ?b))(k \<mapsto> v)"
    by (auto simp: map_add_def fun_eq_iff simp del: takeWhile_dropWhile_id split: option.split)
  then show ?thesis by (simp add: ins_after_def)
qed

lemma map_of_without: "map_of (without k kvs) = (map_of kvs)(k := None)"
  by (induction kvs) (auto simp: without_def fun_eq_iff)

lemma btree_insert_unique:
  assumes "btree_ok True t"
  shows "\<exists>t'. insert_unique t k v = Inr (t', map_of (tree_entries t) k = None) \<and> btree_ok True t' \<and>
    map_of (tree_entries t') =
      (if map_of (tree_entries t) k = None then (map_of (tree_entries t))(k \<mapsto> v) else map_of (tree_entries t))"
proof -
  obtain here after where f: "find_leaf (bt_root t) k = Inr (here # after)"
      "map_of here k = map_of (tree_entries t) k"
    using find_leaf_search [of "bt_order t" True "nat (bt_height t)" "bt_root t" k] assms
    by (auto simp: btree_ok_def tree_entries_def)
  have mem: "k \<in> fst ` set here \<longleftrightarrow> map_of (tree_entries t) k \<noteq> None"
    using map_of_eq_None_iff [of here k] f(2) by auto
  show ?thesis
  proof (cases "map_of (tree_entries t) k")
    case None
    then have k: "k \<notin> fst ` set (tree_entries t)" by (simp add: map_of_eq_None_iff)
    obtain t' where "btree_insert t k v = Inr t'" "btree_ok True t'"
        "tree_entries t' = ins_after k v (tree_entries t)"
      using btree_insert_keeps [OF assms] k by blast
    then show ?thesis using f(1) mem None map_of_ins_after [OF k] by (simp add: insert_unique_def)
  next
    case (Some w)
    then show ?thesis using f(1) mem assms by (simp add: insert_unique_def)
  qed
qed

lemma btree_delete_keeps:
  assumes "btree_ok True t"
  shows "\<exists>t'. btree_delete t k = Inr (t', k \<in> fst ` set (tree_entries t)) \<and> btree_ok True t' \<and>
    tree_entries t' = without k (tree_entries t)"
proof -
  let ?n = "bt_order t" and ?h = "nat (bt_height t)" and ?r = "bt_root t"
  have ok: "3 \<le> ?n" "shaped ?n True ?h ?r" "ordered True (flatten ?r)" "1 \<le> bt_height t"
    "bt_size t = int (length (contents ?r))"
    using assms by (simp_all add: btree_ok_def)
  obtain c f s where d: "delete_node ?n k ?r = Inr (c, f, s)" "deleted ?n True ?h k ?r c f s"
    using delete_node_ok [OF ok(1-3)] by blast
  have c: "f = (k \<in> fst ` set (contents ?r))" "contents c = without k (contents ?r)" "ordered True (flatten c)"
    "loose ?n True ?h c" "\<not> s \<Longrightarrow> shaped ?n True ?h c"
    using d(2) ok(3) by (auto simp: deleted_def refit_def)
  show ?thesis
  proof (cases f)
    case False
    then have "without k (contents ?r) = contents ?r" using c(1) by (intro without_other) auto
    then show ?thesis using False d(1) c(1) assms by (simp add: btree_delete_def tree_entries_def)
  next
    case True
    have "length (without k (contents ?r)) = length (contents ?r) - 1 \<and> 1 \<le> length (contents ?r)"
    proof -
      have so: "sorted_wrt (\<lambda>a b. fst a < fst b) (contents ?r)"
        using ordered_contents [OF ok(3)] by (simp add: entries_flatten)
      obtain i where i: "index_of_key k (contents ?r) = Some i"
        using True c(1) index_of_key_None [of k "contents ?r"] by auto
      show ?thesis
        using delete_at_without [OF so i] index_of_key_Some [OF i] by (auto simp: delete_at_def simp flip: delete_at_without [OF so i])
    qed
    then have size: "bt_size t - 1 = int (length (contents c))" using ok(5) c(2) by simp
    consider (collapse) x where "c = Node [] [x]" "s" | (keep) "shaped ?n True ?h c" "\<not> (\<exists>x xs. c = Node [] (x # xs) \<and> s)"
    proof (cases "\<exists>x xs. c = Node [] (x # xs) \<and> s")
      case True
      then obtain x xs where "c = Node [] (x # xs)" s by blast
      moreover have "xs = []" using calculation c(4) by simp
      ultimately show ?thesis using collapse by simp
    next
      case False
      then have "shaped ?n True ?h c" using c(4,5) by (cases c; cases s) (auto simp: Suc_le_eq length_Suc_conv)
      then show ?thesis using keep False by blast
    qed
    then show ?thesis
    proof cases
      case collapse
      have "shaped ?n True (nat (bt_height t - 1)) x" "1 \<le> bt_height t - 1"
        using c(4) collapse(1) shaped_root [OF ok(1)] by (auto simp: nat_diff_distrib)
      moreover have "contents x = contents c" "flatten x = flatten c" by (simp_all add: collapse(1) contents_Node)
      ultimately show ?thesis
        using d(1) True c size collapse ok(1)
        by (simp add: btree_delete_def btree_ok_def tree_entries_def)
    next
      case keep
      have "btree_delete t k = Inr (t\<lparr>bt_size := bt_size t - 1, bt_root := c\<rparr>, True)"
        using d(1) True keep(2) by (cases c) (auto simp: btree_delete_def Let_def split: list.split)
      then show ?thesis
        using True c size keep(1) ok(1,4) by (simp add: btree_ok_def tree_entries_def)
    qed
  qed
qed

interpretation btree_index:
  ordered_index "btree_ok True" "\<lambda>t. map_of (tree_entries t)" insert_unique btree_delete search
proof
  fix t :: "('k::linorder, 'v) btree" and k v
  assume ok: "btree_ok True t"
  show "search t k = Inr (map_of (tree_entries t) k)" by (rule btree_search [OF ok])
  show "\<exists>t'. insert_unique t k v = Inr (t', map_of (tree_entries t) k = None) \<and> btree_ok True t' \<and>
    map_of (tree_entries t') =
      (if map_of (tree_entries t) k = None then (map_of (tree_entries t))(k \<mapsto> v) else map_of (tree_entries t))"
    by (rule btree_insert_unique [OF ok])
  show "\<exists>t'. btree_delete t k = Inr (t', map_of (tree_entries t) k \<noteq> None) \<and> btree_ok True t' \<and>
      map_of (tree_entries t') = (map_of (tree_entries t))(k := None)"
    using btree_delete_keeps [OF ok, of k] map_of_eq_None_iff [of "tree_entries t" k]
    by (auto simp: map_of_without)
qed

lemma btree_new_ok: "3 \<le> n \<Longrightarrow> btree_new n = Inr t \<Longrightarrow> btree_ok True t \<and> tree_entries t = []"
  by (auto simp: btree_new_def btree_ok_def tree_entries_def)

section \<open>Properties\<close>

text \<open>
  The hand-written binary search agrees with the linear definition: on a sorted list it
  returns the number of leading elements that are not above the target.
\<close>

theorem bisect_right_reference:
  assumes "sorted xs"
  shows "bisect_right xs x = length (takeWhile (\<lambda>y. y \<le> x) xs)"
  using assms by (rule bisect_right_linear)

lemma bisect_right_reference_witness: "bisect_right [1, 3, 3, 5::nat] 3 = 3"
  using bisect_right_reference [of "[1, 3, 3, 5::nat]" 3] by simp

text \<open>
  C9: a unique index is a finite map: whatever sequence of unique insertions, deletions and
  lookups is run on a new tree of any legal order, every answer is the one the map gives.
\<close>

theorem btree_refines_map:
  fixes ops :: "('k::linorder, 'v) index_op list"
  shows "bindr (btree_new n) (\<lambda>t. index_run insert_unique btree_delete search t ops) =
     (if n < 3 then Inl ValueError else Inr (map_run Map.empty ops))"
proof (cases "n < 3")
  case False
  then obtain t :: "('k, 'v) btree" where t: "btree_new n = Inr t" by (simp add: btree_new_def)
  then have "btree_ok True t" "tree_entries t = []" using btree_new_ok [OF _ t] False by simp_all
  then show ?thesis using btree_index.run_map [of t ops] t False by simp
qed (simp add: btree_new_def)

text \<open>
  Insertion keeps the tree balanced, its nodes within their bounds, its keys and separators
  in order and its size right, and puts the entry after the entries with the same or a smaller
  key; duplicates are allowed when \<open>u\<close> is false.
\<close>

theorem btree_insert_invariant:
  assumes "btree_ok u t" "u \<Longrightarrow> k \<notin> fst ` set (tree_entries t)"
  shows "\<exists>t'. btree_insert t k v = Inr t' \<and> btree_ok u t' \<and> tree_entries t' = ins_after k v (tree_entries t)"
  using assms by (rule btree_insert_keeps)

definition small_tree :: "(nat, nat) btree" where
  "small_tree = \<lparr>bt_order = 3, bt_root = Node [3] [Leaf [(1, 10), (2, 20)], Leaf [(3, 30), (4, 40)]],
     bt_size = 4, bt_height = 2\<rparr>"

lemma small_tree_ok: "btree_ok True small_tree"
  by (simp add: small_tree_def btree_ok_def min_keys_def contents_def)

lemma btree_insert_invariant_witness:
  "\<exists>t'. btree_insert small_tree 5 50 = Inr t' \<and> btree_ok True t' \<and>
    tree_entries t' = [(1, 10), (2, 20), (3, 30), (4, 40), (5, 50)]"
  using btree_insert_invariant [OF small_tree_ok, of 5 50]
  by (simp add: small_tree_def tree_entries_def contents_def ins_after_def)

text \<open>
  C14: deletion from a tree without duplicates removes exactly the entry of the key and says
  whether there was one; borrowing and merging keep the tree balanced, its keys and separators in
  order, and its nodes within the bounds the code keeps: every node but the root has at least
  \<open>min_keys\<close>, that is \<open>(order - 1) div 2\<close>, and at most \<open>order - 1\<close> keys.  For internal
  nodes, and for leaves of trees of odd order, these are the bounds the class comment promises; in
  trees of even order a leaf may be left with one key less than it says.
\<close>

theorem btree_delete_invariant:
  assumes "btree_ok True t"
  shows "\<exists>t'. btree_delete t k = Inr (t', k \<in> fst ` set (tree_entries t)) \<and> btree_ok True t' \<and>
    tree_entries t' = filter (\<lambda>e. fst e \<noteq> k) (tree_entries t)"
  using btree_delete_keeps [OF assms] by (simp add: without_def)

lemma btree_delete_invariant_witness:
  "\<exists>t'. btree_delete small_tree 3 = Inr (t', True) \<and> btree_ok True t' \<and>
    tree_entries t' = [(1, 10), (2, 20), (4, 40)]"
  using btree_delete_invariant [OF small_tree_ok, of 3]
  by (simp add: small_tree_def tree_entries_def contents_def)

text \<open>
  Order 4: the comment promises every leaf at least two keys, half of three rounded up.  After a
  deletion one has a single key, which is \<open>min_keys\<close>.
\<close>

definition even_tree :: "(nat, nat) btree" where
  "even_tree = \<lparr>bt_order = 4, bt_root = Node [3] [Leaf [(1, 10), (2, 20)], Leaf [(3, 30), (4, 40)]],
     bt_size = 4, bt_height = 2\<rparr>"

lemma leaf_below_documented_bound:
  "btree_ok True even_tree"
  "btree_delete even_tree 1 =
     Inr (even_tree\<lparr>bt_root := Node [3] [Leaf [(2, 20)], Leaf [(3, 30), (4, 40)]], bt_size := 3\<rparr>, True)"
  subgoal by (simp add: even_tree_def btree_ok_def min_keys_def contents_def)
  subgoal by code_simp
  done

lemma range_scan_entries:
  assumes "btree_ok True t"
  shows "range_scan t low high il ih =
    Inr (filter (\<lambda>e. \<not> too_low low il (fst e) \<and> \<not> too_high high ih (fst e)) (tree_entries t))"
proof -
  have ok: "3 \<le> bt_order t" "shaped (bt_order t) True (nat (bt_height t)) (bt_root t)" "ordered True (flatten (bt_root t))"
    using assms by (simp_all add: btree_ok_def)
  have so: "sorted_wrt (\<lambda>a b. fst a \<le> fst b) (tree_entries t)"
  proof (rule sorted_wrt_mono_rel [rotated])
    show "sorted_wrt (\<lambda>a b. fst a < fst b) (tree_entries t)"
      using ordered_contents [OF ok(3)] by (simp add: entries_flatten tree_entries_def)
  qed simp
  show ?thesis
  proof (cases low)
    case None
    then show ?thesis using scan_pairs_filter [OF so] by (simp add: range_scan_def tree_entries_def contents_def)
  next
    case (Some l)
    obtain before here after where f: "find_leaf (bt_root t) l = Inr (here # after)"
        "tree_entries t = before @ here @ concat after" "\<forall>x \<in> set before. fst x < l"
      using find_leaf_ok [OF ok, of l] by (auto simp: tree_entries_def)
    have "filter (\<lambda>e. \<not> too_low low il (fst e) \<and> \<not> too_high high ih (fst e)) before = []"
      using f(3) by (auto simp: filter_empty_conv too_low_def Some)
    then show ?thesis
      using f so scan_pairs_filter [of "here @ concat after"] by (simp add: range_scan_def Some sorted_wrt_append)
  qed
qed

text \<open>
  C24: a range scan of a tree without duplicates yields exactly the entries within the bounds,
  in key order, each bound inclusive or exclusive as asked or absent.
\<close>

theorem range_scan_exact:
  assumes "btree_ok True t"
  shows "range_scan t low high il ih =
    Inr (filter (\<lambda>e. \<not> too_low low il (fst e) \<and> \<not> too_high high ih (fst e)) (tree_entries t))"
  by (rule range_scan_entries [OF assms])

lemma range_scan_exact_witness:
  "range_scan small_tree (Some 2) (Some 4) False True = Inr [(3, 30), (4, 40)]"
  using range_scan_exact [OF small_tree_ok, of "Some 2" "Some 4" False True]
  by (simp add: small_tree_def tree_entries_def contents_def too_low_def too_high_def)

text \<open>
  With duplicate keys, which insertion supports, lookups lose entries: after three
  insertions under one key in a tree of order 3, \<^verbatim>\<open>search_all\<close> and a range scan for
  that key find only the entry in the last leaf.
\<close>

theorem duplicates_are_missed:
  "bindr (btree_new 3) (\<lambda>t0. bindr (btree_insert t0 (5::nat) ''a'') (\<lambda>t1.
   bindr (btree_insert t1 5 ''b'') (\<lambda>t2. bindr (btree_insert t2 5 ''c'') (\<lambda>t3.
   bindr (search_all t3 5) (\<lambda>found. bindr (range_scan t3 (Some 5) (Some 5) True True) (\<lambda>scanned.
     Inr (tree_entries t3, found, scanned))))))) =
   Inr ([(5, ''a''), (5, ''b''), (5, ''c'')], [''c''], [(5, ''c'')])"
  by code_simp

text \<open>
  Bulk loading keeps all entries but builds wrong separators above the second level, because
  it takes a child's first key for the smallest key below it: ten entries loaded into a tree of
  order 3 are all found by a scan, yet looking up the seventh fails; with eight entries loading
  raises \<^verbatim>\<open>IndexError\<close>, a last parent with one child having no first key.
\<close>

theorem bulk_load_loses_keys:
  "bindr (btree_new 3) (\<lambda>t0.
     let (t, r) = bulk_load t0 (map (\<lambda>i. (i, i)) [1..<11]) in
     bindr r (\<lambda>_. bindr (scan_all t) (\<lambda>all. bindr (search t 7) (\<lambda>found. Inr (all, found))))) =
     Inr (map (\<lambda>i. (i, i)) [1..<11], None) \<and>
   bindr (btree_new 3) (\<lambda>t0. snd (bulk_load t0 (map (\<lambda>i. (i, i)) [1::nat..<9]))) = Inl IndexError"
  by code_simp

end
