(* ===== verification/Raft.thy ===== *)
theory Raft
  imports Py_Data
begin

text \<open>
  The Raft node of \<^verbatim>\<open>src/pysql/raft.py\<close>: the two RPC handlers, elections,
  proposals and the leader's commit rule, and a cluster of such nodes over a network that may
  delay, duplicate, reorder and lose messages.  Clocks and timeouts, which only decide when a
  caller starts an election, are left out; the state-machine callback is represented by the
  list of commands it has been given.
\<close>

section \<open>Nodes\<close>

datatype node_state = FOLLOWER | CANDIDATE | LEADER

record 'c log_entry =
  le_term :: int
  le_index :: int
  le_command :: "'c option"

record vote_args =
  va_term :: int
  va_candidate :: string
  va_last_index :: int
  va_last_term :: int

record vote_reply =
  vr_term :: int
  vr_granted :: bool

record 'c append_args =
  aa_term :: int
  aa_leader :: string
  aa_prev_index :: int
  aa_prev_term :: int
  aa_entries :: "'c log_entry list"
  aa_commit :: int

record append_reply =
  ar_term :: int
  ar_success :: bool
  ar_match :: int

record 'c raft_node =
  rn_id :: string
  rn_peers :: "string list"
  rn_term :: int
  rn_voted :: "string option"
  rn_log :: "'c log_entry list"
  rn_commit :: int
  rn_applied :: int
  rn_state :: node_state
  rn_next :: "(string \<times> int) list"
  rn_match :: "(string \<times> int) list"
  rn_output :: "'c list"

definition raft_new :: "string \<Rightarrow> string list \<Rightarrow> 'c raft_node" where
  "raft_new i ps = \<lparr>rn_id = i, rn_peers = ps, rn_term = 0, rn_voted = None,
     rn_log = [\<lparr>le_term = 0, le_index = 0, le_command = None\<rparr>], rn_commit = 0, rn_applied = 0,
     rn_state = FOLLOWER, rn_next = [], rn_match = [], rn_output = []\<rparr>"

definition last_log_index :: "'c raft_node \<Rightarrow> int result" where
  "last_log_index n = bindr (py_get (rn_log n) (- 1)) (\<lambda>e. Inr (le_index e))"

definition last_log_term :: "'c raft_node \<Rightarrow> int result" where
  "last_log_term n = bindr (py_get (rn_log n) (- 1)) (\<lambda>e. Inr (le_term e))"

section \<open>Remote procedure calls\<close>

definition adopt_term :: "'c raft_node \<Rightarrow> int \<Rightarrow> 'c raft_node" where
  "adopt_term n t = n\<lparr>rn_term := t, rn_state := FOLLOWER, rn_voted := None\<rparr>"

definition up_to_date :: "'c raft_node \<Rightarrow> vote_args \<Rightarrow> bool result" where
  "up_to_date n a =
     bindr (last_log_term n) (\<lambda>lt.
       if va_last_term a > lt then Inr True
       else if va_last_term a = lt then bindr (last_log_index n) (\<lambda>li. Inr (va_last_index a \<ge> li))
       else Inr False)"

definition handle_request_vote :: "'c raft_node \<Rightarrow> vote_args \<Rightarrow> 'c raft_node \<times> vote_reply result" where
  "handle_request_vote n a =
     (if va_term a < rn_term n then (n, Inr \<lparr>vr_term = rn_term n, vr_granted = False\<rparr>)
      else (let n1 = (if va_term a > rn_term n then adopt_term n (va_term a) else n) in
        case up_to_date n1 a of
          Inl e \<Rightarrow> (n1, Inl e)
        | Inr up \<Rightarrow>
            if (rn_voted n1 = None \<or> rn_voted n1 = Some (va_candidate a)) \<and> up
            then (n1\<lparr>rn_voted := Some (va_candidate a)\<rparr>, Inr \<lparr>vr_term = rn_term n1, vr_granted = True\<rparr>)
            else (n1, Inr \<lparr>vr_term = rn_term n1, vr_granted = False\<rparr>)))"

text \<open>Applying committed entries, one at a time.\<close>

function apply_entries :: "'c raft_node \<Rightarrow> 'c raft_node \<times> unit result" where
  "apply_entries n =
     (if rn_applied n < rn_commit n then
        (let n1 = n\<lparr>rn_applied := rn_applied n + 1\<rparr> in
         case py_get (rn_log n1) (rn_applied n1) of
           Inl e \<Rightarrow> (n1, Inl e)
         | Inr e \<Rightarrow> apply_entries (n1\<lparr>rn_output := rn_output n1 @ (case le_command e of None \<Rightarrow> [] | Some c \<Rightarrow> [c])\<rparr>))
      else (n, Inr ()))"
  by auto
termination by (relation "measure (\<lambda>n. nat (rn_commit n - rn_applied n))") auto

declare apply_entries.simps [simp del]

fun append_entries :: "'c log_entry list \<Rightarrow> 'c log_entry list \<Rightarrow> 'c log_entry list \<times> unit result" where
  "append_entries log [] = (log, Inr ())"
| "append_entries log (e # es) =
     (if le_index e < int (length log) then
        (case py_get log (le_index e) of
           Inl x \<Rightarrow> (log, Inl x)
         | Inr old \<Rightarrow>
             if le_term old \<noteq> le_term e then append_entries (py_slice log 0 (le_index e) @ [e]) es
             else append_entries log es)
      else append_entries (log @ [e]) es)"

definition advance_commit :: "'c raft_node \<Rightarrow> int \<Rightarrow> 'c raft_node \<times> unit result" where
  "advance_commit n c =
     (if c > rn_commit n then apply_entries (n\<lparr>rn_commit := min c (int (length (rn_log n)) - 1)\<rparr>)
      else (n, Inr ()))"

definition handle_append_entries ::
  "'c raft_node \<Rightarrow> 'c append_args \<Rightarrow> 'c raft_node \<times> append_reply result"
where
  "handle_append_entries n a =
     (let refuse = (\<lambda>n. Inr \<lparr>ar_term = rn_term n, ar_success = False, ar_match = 0\<rparr>) in
      if aa_term a < rn_term n then (n, refuse n)
      else (let n1 = (if aa_term a > rn_term n \<or> rn_state n \<noteq> FOLLOWER then adopt_term n (aa_term a) else n) in
        if aa_prev_index a \<ge> int (length (rn_log n1)) then (n1, refuse n1)
        else case py_get (rn_log n1) (aa_prev_index a) of
          Inl e \<Rightarrow> (n1, Inl e)
        | Inr p \<Rightarrow>
            if le_term p \<noteq> aa_prev_term a
            then (n1\<lparr>rn_log := py_slice (rn_log n1) 0 (aa_prev_index a)\<rparr>, refuse n1)
            else (case append_entries (rn_log n1) (aa_entries a) of
                (log, Inl e) \<Rightarrow> (n1\<lparr>rn_log := log\<rparr>, Inl e)
              | (log, Inr _) \<Rightarrow>
                  (case advance_commit (n1\<lparr>rn_log := log\<rparr>) (aa_commit a) of
                     (n2, Inl e) \<Rightarrow> (n2, Inl e)
                   | (n2, Inr _) \<Rightarrow>
                       (n2, Inr \<lparr>ar_term = rn_term n2, ar_success = True,
                                 ar_match = int (length (rn_log n2)) - 1\<rparr>)))))"

section \<open>Elections and the leader\<close>

definition start_election :: "'c raft_node \<Rightarrow> 'c raft_node \<times> (string \<times> vote_args) list result" where
  "start_election n =
     (let n1 = n\<lparr>rn_state := CANDIDATE, rn_term := rn_term n + 1, rn_voted := Some (rn_id n)\<rparr> in
      (n1, bindr (last_log_index n1) (\<lambda>li. bindr (last_log_term n1) (\<lambda>lt.
             let a = \<lparr>va_term = rn_term n1, va_candidate = rn_id n1, va_last_index = li, va_last_term = lt\<rparr>
             in Inr (map (\<lambda>p. (p, a)) (rn_peers n1))))))"

definition promote_to_leader :: "'c raft_node \<Rightarrow> 'c raft_node" where
  "promote_to_leader n =
     n\<lparr>rn_state := LEADER,
       rn_next := fold (\<lambda>p m. assoc_put p (int (length (rn_log n))) m) (rn_peers n) (rn_next n),
       rn_match := fold (\<lambda>p m. assoc_put p 0 m) (rn_peers n) (rn_match n)\<rparr>"

definition propose :: "'c raft_node \<Rightarrow> 'c \<Rightarrow> 'c raft_node \<times> int option" where
  "propose n c =
     (if rn_state n \<noteq> LEADER then (n, None)
      else (let i = int (length (rn_log n)) in
        (n\<lparr>rn_log := rn_log n @ [\<lparr>le_term = rn_term n, le_index = i, le_command = Some c\<rparr>]\<rparr>, Some i)))"

definition majority :: "nat \<Rightarrow> nat" where
  "majority peers = (peers + 1) div 2 + 1"

definition match_of :: "'c raft_node \<Rightarrow> string \<Rightarrow> int" where
  "match_of n p = (case assoc_get p (rn_match n) of None \<Rightarrow> 0 | Some i \<Rightarrow> i)"

definition replicas :: "'c raft_node \<Rightarrow> int \<Rightarrow> nat" where
  "replicas n i = 1 + length (filter (\<lambda>p. match_of n p \<ge> i) (rn_peers n))"

definition committable :: "'c raft_node \<Rightarrow> nat \<Rightarrow> bool" where
  "committable n i =
     (le_term (rn_log n ! i) = rn_term n \<and> replicas n (int i) \<ge> majority (length (rn_peers n)))"

text \<open>
  The loop tries the indices from the last one down to just above the commit index; they are
  in range because commit indices are never negative.
\<close>

fun find_commit :: "'c raft_node \<Rightarrow> nat list \<Rightarrow> nat option" where
  "find_commit n [] = None"
| "find_commit n (i # is) = (if committable n i then Some i else find_commit n is)"

definition update_leader_commit :: "'c raft_node \<Rightarrow> 'c raft_node \<times> bool result" where
  "update_leader_commit n =
     (if rn_state n \<noteq> LEADER then (n, Inr False)
      else case find_commit n (rev [nat (rn_commit n) + 1 ..< length (rn_log n)]) of
        None \<Rightarrow> (n, Inr False)
      | Some i \<Rightarrow>
          (case apply_entries (n\<lparr>rn_commit := int i\<rparr>) of
             (n1, Inl e) \<Rightarrow> (n1, Inl e)
           | (n1, Inr _) \<Rightarrow> (n1, Inr True)))"

section \<open>What the operations change\<close>

lemma apply_entries_frame: "\<exists>i out. fst (apply_entries n) = n\<lparr>rn_applied := i, rn_output := out\<rparr>"
proof (induction n rule: apply_entries.induct)
  case (1 n)
  let ?n = "n\<lparr>rn_applied := rn_applied n + 1\<rparr>"
  show ?case
  proof (cases "rn_applied n < rn_commit n")
    case less: True
    show ?thesis
    proof (cases "py_get (rn_log ?n) (rn_applied ?n)")
      case (Inl e)
      then have "fst (apply_entries n) = n\<lparr>rn_applied := rn_applied n + 1, rn_output := rn_output n\<rparr>"
        using less by (subst apply_entries.simps) (simp add: Let_def)
      then show ?thesis by blast
    next
      case (Inr e)
      obtain i out where "fst (apply_entries (?n\<lparr>rn_output := rn_output ?n @ (case le_command e of None \<Rightarrow> [] | Some c \<Rightarrow> [c])\<rparr>)) =
          n\<lparr>rn_applied := i, rn_output := out\<rparr>"
        using 1 [OF less refl Inr] by auto
      then have "fst (apply_entries n) = n\<lparr>rn_applied := i, rn_output := out\<rparr>"
        using less Inr by (subst apply_entries.simps) (simp add: Let_def)
      then show ?thesis by blast
    qed
  next
    case False
    then have "fst (apply_entries n) = n\<lparr>rn_applied := rn_applied n, rn_output := rn_output n\<rparr>"
      by (subst apply_entries.simps) simp
    then show ?thesis by blast
  qed
qed

lemma apply_entries_keeps [simp]:
  "rn_id (fst (apply_entries n)) = rn_id n" "rn_peers (fst (apply_entries n)) = rn_peers n"
  "rn_term (fst (apply_entries n)) = rn_term n" "rn_voted (fst (apply_entries n)) = rn_voted n"
  "rn_state (fst (apply_entries n)) = rn_state n" "rn_log (fst (apply_entries n)) = rn_log n"
  "rn_commit (fst (apply_entries n)) = rn_commit n"
  using apply_entries_frame [of n] by auto

lemma advance_commit_keeps [simp]:
  "rn_id (fst (advance_commit n c)) = rn_id n" "rn_peers (fst (advance_commit n c)) = rn_peers n"
  "rn_term (fst (advance_commit n c)) = rn_term n" "rn_voted (fst (advance_commit n c)) = rn_voted n"
  "rn_state (fst (advance_commit n c)) = rn_state n" "rn_log (fst (advance_commit n c)) = rn_log n"
  by (simp_all add: advance_commit_def)

text \<open>\<open>kept\<close>: identity, peers, term, vote and role are unchanged.\<close>

definition kept :: "'c raft_node \<Rightarrow> 'c raft_node \<Rightarrow> bool" where
  "kept n n' = (rn_id n' = rn_id n \<and> rn_peers n' = rn_peers n \<and> rn_term n' = rn_term n \<and>
     rn_voted n' = rn_voted n \<and> rn_state n' = rn_state n)"

lemma kept_simps [simp]:
  "kept n n" "kept n (n\<lparr>rn_log := l\<rparr>)" "kept n (fst (advance_commit n c))"
  "kept n (fst (apply_entries (n\<lparr>rn_commit := i\<rparr>)))"
  by (simp_all add: kept_def)

lemma kept_trans: "kept a b \<Longrightarrow> kept b c \<Longrightarrow> kept a c"
  by (simp add: kept_def)

lemma append_entries_view:
  assumes "handle_append_entries n a = (n', r)"
  shows "kept n n' \<or>
    kept (adopt_term n (aa_term a)) n' \<and> rn_term n \<le> aa_term a \<and>
      (rn_term n < aa_term a \<or> rn_state n \<noteq> FOLLOWER)"
proof (cases "aa_term a < rn_term n")
  case True
  then show ?thesis using assms by (simp add: handle_append_entries_def Let_def)
next
  case False
  define n1 where "n1 = (if aa_term a > rn_term n \<or> rn_state n \<noteq> FOLLOWER then adopt_term n (aa_term a) else n)"
  have adv: "kept n1 (fst (advance_commit (n1\<lparr>rn_log := l\<rparr>) c))" for l c
    by (rule kept_trans [of _ "n1\<lparr>rn_log := l\<rparr>"]) simp_all
  have step: "kept n1 n2" if "advance_commit (n1\<lparr>rn_log := l\<rparr>) c = (n2, r2)" for l c n2 r2
    using adv [of l c] that by simp
  have "kept n1 n'"
    using assms False step unfolding handle_append_entries_def Let_def n1_def [symmetric]
    by (auto split: if_splits sum.splits prod.splits)
  then show ?thesis using False by (auto simp: n1_def split: if_splits)
qed

lemma request_vote_view:
  assumes "handle_request_vote n a = (n', r)"
  obtains (same) "kept n n'" "\<And>p. r = Inr p \<Longrightarrow> \<not> vr_granted p"
  | (adopted) "kept (adopt_term n (va_term a)) n'" "rn_term n < va_term a" "\<And>p. r = Inr p \<Longrightarrow> \<not> vr_granted p"
  | (new_vote) "kept ((adopt_term n (va_term a))\<lparr>rn_voted := Some (va_candidate a)\<rparr>) n'" "rn_term n < va_term a"
      "r = Inr \<lparr>vr_term = va_term a, vr_granted = True\<rparr>"
  | (vote) "kept (n\<lparr>rn_voted := Some (va_candidate a)\<rparr>) n'" "va_term a = rn_term n"
      "rn_voted n = None \<or> rn_voted n = Some (va_candidate a)"
      "r = Inr \<lparr>vr_term = va_term a, vr_granted = True\<rparr>"
  using assms
  by (auto simp: handle_request_vote_def Let_def adopt_term_def kept_def split: if_splits sum.splits)

section \<open>Quorums\<close>

locale quorum_system =
  fixes quorum :: "'a set \<Rightarrow> bool"
  assumes quorums_meet: "quorum P \<Longrightarrow> quorum Q \<Longrightarrow> P \<inter> Q \<noteq> {}"
    and quorum_mono: "quorum P \<Longrightarrow> P \<subseteq> Q \<Longrightarrow> quorum Q"
begin

text \<open>
  A vote is a voter with its choice.  Two choices backed by quorums are the same when every
  voter that backs both vouches for it.
\<close>

lemma one_choice:
  assumes "quorum {v. (v, a) \<in> votes}" "quorum {v. (v, b) \<in> votes}"
    and "\<And>v. (v, a) \<in> votes \<Longrightarrow> (v, b) \<in> votes \<Longrightarrow> a = b"
  shows "a = b"
  using quorums_meet [OF assms(1,2)] assms(3) by blast

end

definition enough_votes :: "string list \<Rightarrow> string set \<Rightarrow> bool" where
  "enough_votes ms P = (majority (length ms - 1) \<le> card (P \<inter> set ms))"

interpretation votes: quorum_system "enough_votes ms" for ms
proof
  fix P Q assume PQ: "enough_votes ms P" "enough_votes ms Q"
  show "P \<inter> Q \<noteq> {}"
  proof
    assume "P \<inter> Q = {}"
    then have "card (P \<inter> set ms) + card (Q \<inter> set ms) = card ((P \<inter> set ms) \<union> (Q \<inter> set ms))"
      by (intro card_Un_disjoint [symmetric]) auto
    also have "\<dots> \<le> card (set ms)" by (intro card_mono) auto
    also have "\<dots> \<le> length ms" by (rule card_length)
    finally show False using PQ by (simp add: enough_votes_def majority_def)
  qed
next
  fix P Q assume "enough_votes ms P" "P \<subseteq> Q"
  moreover from this have "card (P \<inter> set ms) \<le> card (Q \<inter> set ms)" by (intro card_mono) auto
  ultimately show "enough_votes ms Q" by (simp add: enough_votes_def)
qed

section \<open>A cluster\<close>

text \<open>
  The nodes of a cluster, with the vote requests in the network, and two histories: the votes
  granted (voter, term, candidate) and the leaders promoted (term, node).  Requests stay in the
  network, so delivery may be late, repeated, out of order or never happen.  Counting votes and
  sending entries is the work of a driver outside the repository; what it must respect is that
  a node is promoted only while it is a candidate with a majority of granted votes for its
  current term, and that entries of a term are sent by a leader promoted in that term, to
  others.
\<close>

record 'c cluster =
  cl_node :: "string \<Rightarrow> 'c raft_node"
  cl_requests :: "(string \<times> vote_args) set"
  cl_grants :: "(string \<times> int \<times> string) set"
  cl_elected :: "(int \<times> string) set"

definition cluster_new :: "string list \<Rightarrow> 'c cluster" where
  "cluster_new ms = \<lparr>cl_node = (\<lambda>i. raft_new i (removeAll i ms)), cl_requests = {}, cl_grants = {},
     cl_elected = {}\<rparr>"

definition set_node :: "'c cluster \<Rightarrow> string \<Rightarrow> 'c raft_node \<Rightarrow> 'c cluster" where
  "set_node c i n = c\<lparr>cl_node := (cl_node c)(i := n)\<rparr>"

definition voters :: "'c cluster \<Rightarrow> int \<Rightarrow> string \<Rightarrow> string set" where
  "voters c t x = {v. (v, t, x) \<in> cl_grants c}"

definition sent :: "(string \<times> vote_args) list result \<Rightarrow> (string \<times> vote_args) set" where
  "sent r = (case r of Inl _ \<Rightarrow> {} | Inr ps \<Rightarrow> set ps)"

definition granted :: "string \<Rightarrow> vote_args \<Rightarrow> vote_reply result \<Rightarrow> (string \<times> int \<times> string) set" where
  "granted v a r =
     (case r of Inl _ \<Rightarrow> {} | Inr p \<Rightarrow> if vr_granted p then {(v, vr_term p, va_candidate a)} else {})"

inductive cluster_step :: "string list \<Rightarrow> 'c cluster \<Rightarrow> 'c cluster \<Rightarrow> bool" for ms where
  timeout: "i \<in> set ms \<Longrightarrow> start_election (cl_node c i) = (n, r) \<Longrightarrow>
     cluster_step ms c (set_node c i n\<lparr>cl_requests := cl_requests c \<union> sent r,
       cl_grants := insert (i, rn_term n, i) (cl_grants c)\<rparr>)"
| deliver_vote: "(i, a) \<in> cl_requests c \<Longrightarrow> i \<in> set ms \<Longrightarrow> handle_request_vote (cl_node c i) a = (n, r) \<Longrightarrow>
     cluster_step ms c (set_node c i n\<lparr>cl_grants := cl_grants c \<union> granted i a r\<rparr>)"
| promote: "i \<in> set ms \<Longrightarrow> rn_state (cl_node c i) = CANDIDATE \<Longrightarrow>
     enough_votes ms (voters c (rn_term (cl_node c i)) i) \<Longrightarrow>
     cluster_step ms c (set_node c i (promote_to_leader (cl_node c i))
       \<lparr>cl_elected := insert (rn_term (cl_node c i), i) (cl_elected c)\<rparr>)"
| deliver_entries: "(aa_term a, aa_leader a) \<in> cl_elected c \<Longrightarrow> i \<in> set ms \<Longrightarrow> i \<noteq> aa_leader a \<Longrightarrow>
     handle_append_entries (cl_node c i) a = (n, r) \<Longrightarrow> cluster_step ms c (set_node c i n)"
| client: "i \<in> set ms \<Longrightarrow> propose (cl_node c i) cmd = (n, ix) \<Longrightarrow> cluster_step ms c (set_node c i n)"
| commit: "i \<in> set ms \<Longrightarrow> update_leader_commit (cl_node c i) = (n, r) \<Longrightarrow> cluster_step ms c (set_node c i n)"

inductive cluster_reach :: "string list \<Rightarrow> 'c cluster \<Rightarrow> bool" for ms where
  init: "cluster_reach ms (cluster_new ms)"
| step: "cluster_reach ms c \<Longrightarrow> cluster_step ms c c' \<Longrightarrow> cluster_reach ms c'"

inductive_cases cluster_step_elim: "cluster_step ms c c'"

text \<open>
  The invariant.  A candidate or leader has voted for itself; a vote for another node in the
  current term is still recorded, by a follower; no node votes for two others in one term; a
  node elected in its current term is still its leader, has not voted for another node in that
  term, and was backed by a majority.
\<close>

definition nodes_ok :: "'c cluster \<Rightarrow> bool" where
  "nodes_ok c = (\<forall>i. rn_id (cl_node c i) = i \<and>
     (rn_state (cl_node c i) \<noteq> FOLLOWER \<longrightarrow> rn_voted (cl_node c i) = Some i) \<and>
     (rn_state (cl_node c i) = LEADER \<longrightarrow> (rn_term (cl_node c i), i) \<in> cl_elected c))"

definition grants_ok :: "'c cluster \<Rightarrow> bool" where
  "grants_ok c =
     ((\<forall>(v, t, x) \<in> cl_grants c. t \<le> rn_term (cl_node c v) \<and>
        (x \<noteq> v \<and> t = rn_term (cl_node c v) \<longrightarrow>
           rn_voted (cl_node c v) = Some x \<and> rn_state (cl_node c v) = FOLLOWER)) \<and>
      (\<forall>v t x y. (v, t, x) \<in> cl_grants c \<longrightarrow> (v, t, y) \<in> cl_grants c \<longrightarrow> x \<noteq> v \<longrightarrow> y \<noteq> v \<longrightarrow> x = y))"

definition elected_ok :: "string list \<Rightarrow> 'c cluster \<Rightarrow> bool" where
  "elected_ok ms c =
     ((\<forall>(t, l) \<in> cl_elected c. t \<le> rn_term (cl_node c l) \<and>
        (t = rn_term (cl_node c l) \<longrightarrow> rn_state (cl_node c l) = LEADER) \<and>
        (\<forall>x. (l, t, x) \<in> cl_grants c \<longrightarrow> x = l) \<and> enough_votes ms (voters c t l)) \<and>
      (\<forall>t a b. (t, a) \<in> cl_elected c \<longrightarrow> (t, b) \<in> cl_elected c \<longrightarrow> a = b))"

definition raft_inv :: "string list \<Rightarrow> 'c cluster \<Rightarrow> bool" where
  "raft_inv ms c = (nodes_ok c \<and> grants_ok c \<and> elected_ok ms c)"

lemma nodes_okD:
  assumes "nodes_ok c"
  shows "rn_id (cl_node c i) = i" "rn_state (cl_node c i) \<noteq> FOLLOWER \<Longrightarrow> rn_voted (cl_node c i) = Some i"
    "rn_state (cl_node c i) = LEADER \<Longrightarrow> (rn_term (cl_node c i), i) \<in> cl_elected c"
  using assms by (auto simp: nodes_ok_def)

lemma grants_okD:
  assumes "grants_ok c" "(v, t, x) \<in> cl_grants c"
  shows "t \<le> rn_term (cl_node c v)"
    "x \<noteq> v \<Longrightarrow> t = rn_term (cl_node c v) \<Longrightarrow> rn_voted (cl_node c v) = Some x \<and> rn_state (cl_node c v) = FOLLOWER"
    "(v, t, y) \<in> cl_grants c \<Longrightarrow> x \<noteq> v \<Longrightarrow> y \<noteq> v \<Longrightarrow> x = y"
proof -
  have g: "case (v, t, x) of (v, t, x) \<Rightarrow> t \<le> rn_term (cl_node c v) \<and>
        (x \<noteq> v \<and> t = rn_term (cl_node c v) \<longrightarrow>
           rn_voted (cl_node c v) = Some x \<and> rn_state (cl_node c v) = FOLLOWER)"
    using assms unfolding grants_ok_def by (elim conjE) (erule bspec)
  show "t \<le> rn_term (cl_node c v)" using g by simp
  show "rn_voted (cl_node c v) = Some x \<and> rn_state (cl_node c v) = FOLLOWER"
    if "x \<noteq> v" "t = rn_term (cl_node c v)" using g that by simp
  show "x = y" if "(v, t, y) \<in> cl_grants c" "x \<noteq> v" "y \<noteq> v"
    using assms that unfolding grants_ok_def by blast
qed

lemma elected_okD:
  assumes "elected_ok ms c" "(t, l) \<in> cl_elected c"
  shows "t \<le> rn_term (cl_node c l)" "t = rn_term (cl_node c l) \<Longrightarrow> rn_state (cl_node c l) = LEADER"
    "(l, t, x) \<in> cl_grants c \<Longrightarrow> x = l" "enough_votes ms (voters c t l)"
    "(t, b) \<in> cl_elected c \<Longrightarrow> b = l"
proof -
  have e: "case (t, l) of (t, l) \<Rightarrow> t \<le> rn_term (cl_node c l) \<and>
        (t = rn_term (cl_node c l) \<longrightarrow> rn_state (cl_node c l) = LEADER) \<and>
        (\<forall>x. (l, t, x) \<in> cl_grants c \<longrightarrow> x = l) \<and> enough_votes ms (voters c t l)"
    using assms unfolding elected_ok_def by (elim conjE) (erule bspec)
  show "t \<le> rn_term (cl_node c l)" "t = rn_term (cl_node c l) \<Longrightarrow> rn_state (cl_node c l) = LEADER"
    "(l, t, x) \<in> cl_grants c \<Longrightarrow> x = l" "enough_votes ms (voters c t l)"
    using e by simp_all
  show "(t, b) \<in> cl_elected c \<Longrightarrow> b = l"
    using assms unfolding elected_ok_def by blast
qed

text \<open>A node may move to a new term, or stay in its term and keep its role and vote.\<close>

definition node_move :: "'c raft_node \<Rightarrow> 'c raft_node \<Rightarrow> bool" where
  "node_move n n' =
     (rn_id n' = rn_id n \<and> rn_term n \<le> rn_term n' \<and>
      (rn_state n' \<noteq> FOLLOWER \<longrightarrow> rn_voted n' = Some (rn_id n')) \<and>
      (rn_state n' = LEADER \<longrightarrow> rn_term n' = rn_term n \<and> rn_state n = LEADER) \<and>
      (rn_term n' = rn_term n \<longrightarrow>
         (rn_state n = LEADER \<longrightarrow> rn_state n' = LEADER) \<and>
         (rn_state n = FOLLOWER \<longrightarrow> rn_state n' = FOLLOWER \<and> (\<forall>x. rn_voted n = Some x \<longrightarrow> rn_voted n' = Some x))))"

lemma inv_update:
  assumes inv: "raft_inv ms c" and mv: "node_move (cl_node c i) n"
    and gr: "\<And>v t x. (v, t, x) \<in> gs \<Longrightarrow>
        v = i \<and> t = rn_term n \<and> rn_voted n = Some x \<and> (x \<noteq> i \<longrightarrow> rn_state n = FOLLOWER)"
    and c': "cl_node c' = (cl_node c)(i := n)" "cl_grants c' = cl_grants c \<union> gs" "cl_elected c' = cl_elected c"
  shows "raft_inv ms c'"
proof -
  note ok = inv [unfolded raft_inv_def]
  note no = nodes_okD [OF ok [THEN conjunct1]]
  note go = grants_okD [OF ok [THEN conjunct2, THEN conjunct1]]
  note eo = elected_okD [OF ok [THEN conjunct2, THEN conjunct2]]
  have m: "rn_id n = i" "rn_term (cl_node c i) \<le> rn_term n" "rn_state n \<noteq> FOLLOWER \<Longrightarrow> rn_voted n = Some i"
    "rn_state n = LEADER \<Longrightarrow> rn_term n = rn_term (cl_node c i) \<and> rn_state (cl_node c i) = LEADER"
    "rn_term n = rn_term (cl_node c i) \<Longrightarrow> rn_state (cl_node c i) = LEADER \<Longrightarrow> rn_state n = LEADER"
    "rn_term n = rn_term (cl_node c i) \<Longrightarrow> rn_state (cl_node c i) = FOLLOWER \<Longrightarrow>
       rn_state n = FOLLOWER \<and> (\<forall>x. rn_voted (cl_node c i) = Some x \<longrightarrow> rn_voted n = Some x)"
    using mv [unfolded node_move_def no(1)] by fastforce+
  have "nodes_ok c'"
    unfolding nodes_ok_def using no m(1,3,4) by (auto simp: c')
  moreover have "grants_ok c'"
  proof -
    have old: "t \<le> rn_term n \<and> (x \<noteq> i \<and> t = rn_term n \<longrightarrow> rn_voted n = Some x \<and> rn_state n = FOLLOWER)"
      if g: "(i, t, x) \<in> cl_grants c" for t x
    proof -
      have t: "t \<le> rn_term (cl_node c i)" by (rule go(1) [OF g])
      have "rn_voted n = Some x \<and> rn_state n = FOLLOWER" if x: "x \<noteq> i" and tn: "t = rn_term n"
      proof -
        have "t = rn_term (cl_node c i)" using t tn m(2) by simp
        from go(2) [OF g x this] m(6) show ?thesis using \<open>t = rn_term (cl_node c i)\<close> tn by simp
      qed
      then show ?thesis using t m(2) by auto
    qed
    have one: "x = y" if g: "(v, t, x) \<in> cl_grants c'" "(v, t, y) \<in> cl_grants c'" and ne: "x \<noteq> v" "y \<noteq> v"
      for v t x y
    proof (cases "(v, t, x) \<in> cl_grants c \<and> (v, t, y) \<in> cl_grants c")
      case True
      then show ?thesis using go(3) ne by blast
    next
      case False
      then have "v = i \<and> t = rn_term n" using g gr unfolding c'(2) by blast
      then have vt: "v = i" "t = rn_term n" by simp_all
      have "rn_voted n = Some z" if z: "(v, t, z) \<in> cl_grants c'" "z \<noteq> v" for z
      proof (cases "(i, t, z) \<in> cl_grants c")
        case True
        with old [OF this] z(2) vt show ?thesis by simp
      next
        case False
        then have "(v, t, z) \<in> gs" using z(1) vt(1) c'(2) by simp
        from gr [OF this] show ?thesis by simp
      qed
      from this [OF g(1) ne(1)] this [OF g(2) ne(2)] show ?thesis by simp
    qed
    have "t \<le> rn_term (cl_node c' v) \<and>
        (x \<noteq> v \<and> t = rn_term (cl_node c' v) \<longrightarrow>
           rn_voted (cl_node c' v) = Some x \<and> rn_state (cl_node c' v) = FOLLOWER)"
      if "(v, t, x) \<in> cl_grants c'" for v t x
    proof (cases "(v, t, x) \<in> cl_grants c")
      case True
      then show ?thesis using old [of t x] go(1,2) [OF True] by (auto simp: c'(1))
    next
      case False
      then show ?thesis using that gr [of v t x] by (auto simp: c')
    qed
    then show ?thesis unfolding grants_ok_def using one by blast
  qed
  moreover have "elected_ok ms c'"
  proof -
    have "t \<le> rn_term (cl_node c' l) \<and> (t = rn_term (cl_node c' l) \<longrightarrow> rn_state (cl_node c' l) = LEADER) \<and>
        (\<forall>x. (l, t, x) \<in> cl_grants c' \<longrightarrow> x = l) \<and> enough_votes ms (voters c' t l)"
      if e: "(t, l) \<in> cl_elected c" for t l
    proof -
      have lead: "rn_state (cl_node c' l) = LEADER" if "t = rn_term (cl_node c' l)"
        using eo(1,2) [OF e] m(2,5) that by (cases "l = i") (auto simp: c')
      have "x = l" if g: "(l, t, x) \<in> cl_grants c'" for x
      proof (rule ccontr)
        assume x: "x \<noteq> l"
        then have "(l, t, x) \<in> gs" using g eo(3) [OF e] by (auto simp: c')
        from gr [OF this] x lead show False by (auto simp: c')
      qed
      moreover have "enough_votes ms (voters c' t l)"
        using eo(4) [OF e] by (rule votes.quorum_mono) (auto simp: voters_def c')
      moreover have "t \<le> rn_term (cl_node c' l)" using eo(1) [OF e] m(2) by (auto simp: c')
      ultimately show ?thesis using lead by blast
    qed
    moreover have "a = b" if "(t, a) \<in> cl_elected c" "(t, b) \<in> cl_elected c" for t a b
      using eo(5) that by blast
    ultimately show ?thesis unfolding elected_ok_def c'(3) by blast
  qed
  ultimately show ?thesis by (simp add: raft_inv_def)
qed

lemma inv_promote:
  assumes inv: "raft_inv ms c" and cand: "rn_state (cl_node c i) = CANDIDATE"
    and maj: "enough_votes ms (voters c (rn_term (cl_node c i)) i)"
    and c': "cl_node c' = (cl_node c)(i := promote_to_leader (cl_node c i))" "cl_grants c' = cl_grants c"
      "cl_elected c' = insert (rn_term (cl_node c i), i) (cl_elected c)"
  shows "raft_inv ms c'"
proof -
  let ?t = "rn_term (cl_node c i)"
  note ok = inv [unfolded raft_inv_def]
  note no = nodes_okD [OF ok [THEN conjunct1]]
  note go = grants_okD [OF ok [THEN conjunct2, THEN conjunct1]]
  note eo = elected_okD [OF ok [THEN conjunct2, THEN conjunct2]]
  have node: "rn_id (cl_node c' j) = j" "rn_term (cl_node c' j) = rn_term (cl_node c j)"
    "rn_voted (cl_node c' j) = rn_voted (cl_node c j)"
    "rn_state (cl_node c' j) = (if j = i then LEADER else rn_state (cl_node c j))" for j
    using no(1) by (simp_all add: c' promote_to_leader_def)
  have own: "x = i" if "(i, ?t, x) \<in> cl_grants c" for x
    using go(2) [OF that] cand by auto
  have new: "l = i" if e: "(?t, l) \<in> cl_elected c" for l
  proof (rule votes.one_choice [where votes = "{(v, x). (v, ?t, x) \<in> cl_grants c}" and ms = ms])
    show "enough_votes ms {v. (v, l) \<in> {(v, x). (v, ?t, x) \<in> cl_grants c}}"
      using eo(4) [OF e] by (simp add: voters_def)
    show "enough_votes ms {v. (v, i) \<in> {(v, x). (v, ?t, x) \<in> cl_grants c}}"
      using maj by (simp add: voters_def)
  next
    fix v assume v: "(v, l) \<in> {(v, x). (v, ?t, x) \<in> cl_grants c}" "(v, i) \<in> {(v, x). (v, ?t, x) \<in> cl_grants c}"
    then show "l = i" using eo(3) [OF e] own go(3) by blast
  qed
  have "nodes_ok c'"
    unfolding nodes_ok_def node c'(3) using no cand by auto
  moreover have "grants_ok c'"
    using ok own cand unfolding grants_ok_def c'(2) node by (auto split: if_splits)
  moreover have "elected_ok ms c'"
  proof -
    have "t \<le> rn_term (cl_node c' l) \<and> (t = rn_term (cl_node c' l) \<longrightarrow> rn_state (cl_node c' l) = LEADER) \<and>
        (\<forall>x. (l, t, x) \<in> cl_grants c' \<longrightarrow> x = l) \<and> enough_votes ms (voters c' t l)"
      if "(t, l) \<in> cl_elected c'" for t l
    proof (cases "(t, l) \<in> cl_elected c")
      case True
      have "voters c' t l = voters c t l" by (simp add: voters_def c'(2))
      then show ?thesis using eo(1) [OF True] eo(2) [OF True] eo(4) [OF True] eo(3) [OF True]
        unfolding node c'(2) by (metis (no_types))
    next
      case False
      then have "t = ?t" "l = i" using that by (auto simp: c'(3))
      then show ?thesis using own maj unfolding node c'(2) voters_def by simp
    qed
    moreover have "a = b" if "(t, a) \<in> cl_elected c'" "(t, b) \<in> cl_elected c'" for t a b
      using eo(5) new that unfolding c'(3) by blast
    ultimately show ?thesis unfolding elected_ok_def by blast
  qed
  ultimately show ?thesis by (simp add: raft_inv_def)
qed

lemma kept_move:
  assumes "raft_inv ms c" "kept (cl_node c i) n"
  shows "node_move (cl_node c i) n"
proof -
  have ok: "nodes_ok c" using assms(1) by (simp add: raft_inv_def)
  show ?thesis
    using assms(2) nodes_okD [OF ok, of i] unfolding node_move_def kept_def by auto
qed

lemma adopt_move: "rn_term n < t \<Longrightarrow> kept (adopt_term n t) n' \<Longrightarrow> node_move n n'"
  by (simp add: node_move_def kept_def adopt_term_def)

lemma inv_entries:
  assumes inv: "raft_inv ms c" and el: "(aa_term a, aa_leader a) \<in> cl_elected c" "i \<noteq> aa_leader a"
    and h: "handle_append_entries (cl_node c i) a = (n, r)"
  shows "raft_inv ms (set_node c i n)"
proof -
  have "node_move (cl_node c i) n"
    using append_entries_view [OF h]
  proof (elim disjE conjE)
    assume "kept (cl_node c i) n" then show ?thesis by (rule kept_move [OF inv])
  next
    assume k: "kept (adopt_term (cl_node c i) (aa_term a)) n" and t: "rn_term (cl_node c i) < aa_term a"
    show ?thesis by (rule adopt_move [OF t k])
  next
    assume k: "kept (adopt_term (cl_node c i) (aa_term a)) n" and t: "rn_term (cl_node c i) \<le> aa_term a"
      and st: "rn_state (cl_node c i) \<noteq> FOLLOWER"
    have "rn_state (cl_node c i) \<noteq> LEADER" if "aa_term a = rn_term (cl_node c i)"
    proof
      assume "rn_state (cl_node c i) = LEADER"
      then have "(aa_term a, i) \<in> cl_elected c"
        using nodes_okD(3) [of c i] inv that by (simp add: raft_inv_def)
      then show False using elected_okD(5) [OF _ el(1)] inv el(2) unfolding raft_inv_def by blast
    qed
    then show ?thesis using k t st by (auto simp: node_move_def kept_def adopt_term_def)
  qed
  then show ?thesis by (rule inv_update [OF inv, where gs = "{}"]) (auto simp: set_node_def)
qed

lemma inv_vote:
  assumes inv: "raft_inv ms c" and h: "handle_request_vote (cl_node c i) a = (n, r)"
  shows "raft_inv ms (set_node c i n\<lparr>cl_grants := cl_grants c \<union> granted i a r\<rparr>)"
proof -
  let ?x = "va_candidate a"
  have ok: "nodes_ok c" using inv by (simp add: raft_inv_def)
  note no = nodes_okD [OF ok, of i]
  have "node_move (cl_node c i) n \<and> (granted i a r \<subseteq> {(i, rn_term n, ?x)}) \<and>
    (granted i a r \<noteq> {} \<longrightarrow> rn_voted n = Some ?x \<and> (?x \<noteq> i \<longrightarrow> rn_state n = FOLLOWER))"
    using h
  proof (cases rule: request_vote_view)
    case same
    then have "granted i a r = {}" by (auto simp: granted_def split: sum.split)
    then show ?thesis using kept_move [OF inv same(1)] by simp
  next
    case adopted
    then have "granted i a r = {}" by (auto simp: granted_def split: sum.split)
    then show ?thesis using adopt_move [OF adopted(2,1)] by simp
  next
    case new_vote
    then show ?thesis by (simp add: granted_def node_move_def kept_def adopt_term_def)
  next
    case vote
    have "rn_state (cl_node c i) \<noteq> FOLLOWER \<Longrightarrow> ?x = i" using no(2) vote(3) by auto
    then show ?thesis
      using vote no(1) by (auto simp: granted_def node_move_def kept_def)
  qed
  then show ?thesis
    by (intro inv_update [OF inv, where gs = "granted i a r"]) (auto simp: set_node_def)
qed

lemma update_commit_kept: "kept n (fst (update_leader_commit n))"
proof -
  have "kept n n1" if "apply_entries (n\<lparr>rn_commit := int i\<rparr>) = (n1, r)" for i n1 r
    using kept_simps(4) [of n "int i"] that by simp
  then show ?thesis
    by (auto simp: update_leader_commit_def split: option.split prod.split sum.split)
qed

lemma step_raft_inv: "cluster_step ms c c' \<Longrightarrow> raft_inv ms c \<Longrightarrow> raft_inv ms c'"
proof (induction rule: cluster_step.induct)
  case (timeout i c n r)
  have ok: "nodes_ok c" using timeout by (simp add: raft_inv_def)
  have n: "n = (cl_node c i)\<lparr>rn_state := CANDIDATE, rn_term := rn_term (cl_node c i) + 1, rn_voted := Some i\<rparr>"
    using timeout(2) nodes_okD(1) [OF ok, of i] by (simp add: start_election_def Let_def)
  have "node_move (cl_node c i) n"
    using nodes_okD(1) [OF ok, of i] by (simp add: n node_move_def)
  then show ?case
    by (rule inv_update [OF timeout(3), where gs = "{(i, rn_term n, i)}"]) (auto simp: set_node_def n)
next
  case (deliver_vote i a c n r)
  then show ?case by (intro inv_vote)
next
  case (promote i c)
  show ?case by (rule inv_promote [OF promote(4,2,3)]) (simp_all add: set_node_def)
next
  case (deliver_entries a c i n r)
  then show ?case by (intro inv_entries)
next
  case (client i c cmd n ix)
  then have "kept (cl_node c i) n" by (auto simp: propose_def Let_def split: if_splits)
  from kept_move [OF client(3) this] show ?case
    by (rule inv_update [OF client(3), where gs = "{}"]) (auto simp: set_node_def)
next
  case (commit i c n r)
  then have "kept (cl_node c i) n" using update_commit_kept [of "cl_node c i"] by simp
  from kept_move [OF commit(3) this] show ?case
    by (rule inv_update [OF commit(3), where gs = "{}"]) (auto simp: set_node_def)
qed

lemma reach_raft_inv: "cluster_reach ms c \<Longrightarrow> raft_inv ms c"
proof (induction rule: cluster_reach.induct)
  case init
  show ?case
    by (simp add: raft_inv_def nodes_ok_def grants_ok_def elected_ok_def cluster_new_def raft_new_def)
next
  case (step c c')
  then show ?case using step_raft_inv by blast
qed

section \<open>Applying entries\<close>

definition commands :: "'c log_entry list \<Rightarrow> 'c list" where
  "commands es = List.map_filter le_command es"

lemma commands_simps [simp]:
  "commands [] = []"
  "commands (e # es) = (case le_command e of None \<Rightarrow> [] | Some c \<Rightarrow> [c]) @ commands es"
  by (auto simp: commands_def map_filter_simps split: option.split)

lemma apply_entries_result:
  assumes "0 \<le> rn_applied n" "rn_applied n \<le> rn_commit n" "rn_commit n < int (length (rn_log n))"
  shows "apply_entries n = (n\<lparr>rn_applied := rn_commit n, rn_output := rn_output n @
    commands (drop (nat (rn_applied n) + 1) (take (nat (rn_commit n) + 1) (rn_log n)))\<rparr>, Inr ())"
  using assms
proof (induction n rule: apply_entries.induct)
  case (1 n)
  show ?case
  proof (cases "rn_applied n < rn_commit n")
    case True
    define i where "i = nat (rn_applied n) + 1"
    have i: "rn_applied n + 1 = int i" "i < length (rn_log n)" "i < nat (rn_commit n) + 1" "int i \<le> rn_commit n"
      using True 1(2,4) by (auto simp: i_def)
    let ?L = "take (nat (rn_commit n) + 1) (rn_log n)"
    have d: "drop i ?L = rn_log n ! i # drop (i + 1) ?L"
      using i by (simp add: Cons_nth_drop_Suc [symmetric])
    have get: "py_get (rn_log (n\<lparr>rn_applied := rn_applied n + 1\<rparr>)) (rn_applied (n\<lparr>rn_applied := rn_applied n + 1\<rparr>)) = Inr (rn_log n ! i)"
      using i by simp
    define n2 where "n2 = n\<lparr>rn_applied := rn_applied n + 1,
      rn_output := rn_output n @ (case le_command (rn_log n ! i) of None \<Rightarrow> [] | Some c \<Rightarrow> [c])\<rparr>"
    have n2: "rn_applied n2 = int i" "rn_commit n2 = rn_commit n" "rn_log n2 = rn_log n"
      "rn_output n2 = rn_output n @ (case le_command (rn_log n ! i) of None \<Rightarrow> [] | Some c \<Rightarrow> [c])"
      using i(1) by (simp_all add: n2_def)
    have "apply_entries n = apply_entries n2"
      using True get by (subst apply_entries.simps) (simp add: Let_def n2_def)
    also have "\<dots> = (n2\<lparr>rn_applied := rn_commit n, rn_output := rn_output n2 @ commands (drop (i + 1) ?L)\<rparr>, Inr ())"
      using 1(1) [OF True refl get] i 1(4) n2 True by (simp add: n2_def)
    also have "\<dots> = (n\<lparr>rn_applied := rn_commit n, rn_output := rn_output n @ commands (drop i ?L)\<rparr>, Inr ())"
      unfolding d n2(4) by (simp add: n2_def)
    finally show ?thesis by (simp add: i_def)
  next
    case False
    then show ?thesis using 1(2-4) by (subst apply_entries.simps) simp
  qed
qed

lemma find_commit_rev:
  "(find_commit n (rev [a ..< b]) = None \<longleftrightarrow> (\<forall>i. a \<le> i \<longrightarrow> i < b \<longrightarrow> \<not> committable n i)) \<and>
   (\<forall>i. find_commit n (rev [a ..< b]) = Some i \<longrightarrow>
      a \<le> i \<and> i < b \<and> committable n i \<and> (\<forall>j. i < j \<longrightarrow> j < b \<longrightarrow> \<not> committable n j))"
proof (induction b)
  case (Suc b)
  then show ?case by (cases "a \<le> b") (auto simp: less_Suc_eq)
qed simp

lemma entries_at_leader:
  assumes "handle_append_entries n a = (n', r)" "rn_state n = LEADER"
  shows "n' = n \<or> rn_state n' = FOLLOWER"
proof (cases "aa_term a < rn_term n")
  case True
  then show ?thesis using assms by (simp add: handle_append_entries_def Let_def)
next
  case False
  have "rn_state (fst (advance_commit (adopt_term n (aa_term a)\<lparr>rn_log := l\<rparr>) k)) = FOLLOWER" for l k
    by (simp add: adopt_term_def)
  then have "rn_state n2 = FOLLOWER" if "advance_commit (adopt_term n (aa_term a)\<lparr>rn_log := l\<rparr>) k = (n2, q)" for l k n2 q
    using that by (metis fst_conv)
  then show ?thesis
    using assms False unfolding handle_append_entries_def Let_def
    by (auto simp: adopt_term_def split: if_splits sum.splits prod.splits)
qed

lemma vote_keeps_log: "handle_request_vote n a = (n', r) \<Longrightarrow> rn_log n' = rn_log n"
  by (auto simp: handle_request_vote_def Let_def adopt_term_def split: if_splits sum.splits)

section \<open>Properties\<close>

text \<open>
  C13: election safety: whatever the network delivers, two nodes of a cluster that are leaders
  of the same term are the same node.
\<close>

theorem election_safety:
  assumes "cluster_reach ms c" "rn_state (cl_node c a) = LEADER" "rn_state (cl_node c b) = LEADER"
    and "rn_term (cl_node c a) = rn_term (cl_node c b)"
  shows "a = b"
proof -
  have inv: "nodes_ok c" "elected_ok ms c" using reach_raft_inv [OF assms(1)] by (simp_all add: raft_inv_def)
  show ?thesis
    using elected_okD(5) [OF inv(2)] nodes_okD(3) [OF inv(1)] assms(2-4) by metis
qed

definition small_cluster :: "nat cluster" where
  "small_cluster =
     (let c0 = cluster_new [''a''];
          c1 = set_node c0 ''a'' (fst (start_election (cl_node c0 ''a'')))
                 \<lparr>cl_requests := {}, cl_grants := {(''a'', 1, ''a'')}\<rparr>
      in set_node c1 ''a'' (promote_to_leader (cl_node c1 ''a''))\<lparr>cl_elected := {(1, ''a'')}\<rparr>)"

lemma small_cluster_node:
  "cl_node small_cluster ''a'' = promote_to_leader (fst (start_election (raft_new ''a'' [])))"
  by (simp add: small_cluster_def cluster_new_def set_node_def)

lemma small_cluster_reach: "cluster_reach [''a''] small_cluster"
proof -
  let ?c0 = "cluster_new [''a''] :: nat cluster"
  define n where "n = fst (start_election (cl_node ?c0 ''a''))"
  define c1 where "c1 = set_node ?c0 ''a'' n\<lparr>cl_requests := {}, cl_grants := {(''a'', 1, ''a'')}\<rparr>"
  have n: "start_election (cl_node ?c0 ''a'') = (n, Inr [])" "rn_term n = 1" "rn_state n = CANDIDATE"
    by (simp_all add: n_def start_election_def cluster_new_def raft_new_def last_log_index_def
      last_log_term_def Let_def)
  have "cluster_step [''a''] ?c0 c1"
    using cluster_step.timeout [OF _ n(1), of "[''a'']"] n(2)
    by (simp add: c1_def sent_def cluster_new_def set_node_def)
  then have r1: "cluster_reach [''a''] c1" by (rule cluster_reach.step [OF cluster_reach.init])
  have c1: "cl_node c1 ''a'' = n" "cl_elected c1 = {}" "voters c1 1 ''a'' = {''a''}"
    by (auto simp: c1_def set_node_def cluster_new_def voters_def)
  have "cluster_step [''a''] c1 (set_node c1 ''a'' (promote_to_leader n)\<lparr>cl_elected := {(1, ''a'')}\<rparr>)"
    using cluster_step.promote [of "''a''" "[''a'']" c1] c1 n(2,3)
    by (simp add: enough_votes_def majority_def)
  moreover have "set_node c1 ''a'' (promote_to_leader n)\<lparr>cl_elected := {(1, ''a'')}\<rparr> = small_cluster"
    by (simp add: small_cluster_def Let_def c1_def n_def set_node_def)
  ultimately show ?thesis using cluster_reach.step [OF r1] by simp
qed

text \<open>
  An election of three nodes: \<^verbatim>\<open>a\<close> and \<^verbatim>\<open>c\<close> stand for term 1,
  \<^verbatim>\<open>b\<close> votes for \<^verbatim>\<open>a\<close> and refuses \<^verbatim>\<open>c\<close>, and
  \<^verbatim>\<open>a\<close> is promoted.
\<close>

definition time_out :: "'c cluster \<Rightarrow> string \<Rightarrow> 'c cluster" where
  "time_out c i = (case start_election (cl_node c i) of (n, r) \<Rightarrow>
     set_node c i n\<lparr>cl_requests := cl_requests c \<union> sent r, cl_grants := insert (i, rn_term n, i) (cl_grants c)\<rparr>)"

definition ask :: "'c cluster \<Rightarrow> string \<Rightarrow> vote_args \<Rightarrow> 'c cluster" where
  "ask c i a = (case handle_request_vote (cl_node c i) a of (n, r) \<Rightarrow>
     set_node c i n\<lparr>cl_grants := cl_grants c \<union> granted i a r\<rparr>)"

definition win :: "'c cluster \<Rightarrow> string \<Rightarrow> 'c cluster" where
  "win c i = set_node c i (promote_to_leader (cl_node c i))
     \<lparr>cl_elected := insert (rn_term (cl_node c i), i) (cl_elected c)\<rparr>"

lemma reach_steps:
  "cluster_reach ms c \<Longrightarrow> i \<in> set ms \<Longrightarrow> cluster_reach ms (time_out c i)"
  "cluster_reach ms c \<Longrightarrow> i \<in> set ms \<Longrightarrow> (i, a) \<in> cl_requests c \<Longrightarrow> cluster_reach ms (ask c i a)"
  "cluster_reach ms c \<Longrightarrow> i \<in> set ms \<Longrightarrow> rn_state (cl_node c i) = CANDIDATE \<Longrightarrow>
     enough_votes ms (voters c (rn_term (cl_node c i)) i) \<Longrightarrow> cluster_reach ms (win c i)"
  by (auto simp: time_out_def ask_def win_def split: prod.split intro: cluster_reach.step cluster_step.intros)

definition candidacy :: "string \<Rightarrow> vote_args" where
  "candidacy i = \<lparr>va_term = 1, va_candidate = i, va_last_index = 0, va_last_term = 0\<rparr>"

definition two_candidates :: "nat cluster" where
  "two_candidates = time_out (time_out (cluster_new [''a'', ''b'', ''c'']) ''a'') ''c''"

definition contested :: "nat cluster" where
  "contested = ask (ask two_candidates ''b'' (candidacy ''a'')) ''b'' (candidacy ''c'')"

definition decided :: "nat cluster" where
  "decided = win contested ''a''"

lemmas election_defs = time_out_def ask_def win_def candidacy_def set_node_def cluster_new_def raft_new_def
  start_election_def handle_request_vote_def up_to_date_def adopt_term_def last_log_index_def
  last_log_term_def sent_def granted_def Let_def

lemma two_candidates_state:
  "cl_requests two_candidates = {(''b'', candidacy ''a''), (''c'', candidacy ''a''), (''a'', candidacy ''c''), (''b'', candidacy ''c'')}"
  "cl_grants two_candidates = {(''a'', 1, ''a''), (''c'', 1, ''c'')}"
  by (auto simp: two_candidates_def election_defs)

lemma contested_state:
  "cl_grants contested = {(''a'', 1, ''a''), (''c'', 1, ''c''), (''b'', 1, ''a'')}"
  "rn_state (cl_node contested ''a'') = CANDIDATE" "rn_term (cl_node contested ''a'') = 1"
  by (auto simp: contested_def two_candidates_def election_defs)

lemma decided_reach: "cluster_reach [''a'', ''b'', ''c''] decided"
proof -
  have "cluster_reach [''a'', ''b'', ''c''] two_candidates"
    unfolding two_candidates_def by (intro reach_steps cluster_reach.init) simp_all
  then have "cluster_reach [''a'', ''b'', ''c''] (ask two_candidates ''b'' (candidacy ''a''))"
    by (rule reach_steps) (simp_all add: two_candidates_state)
  then have "cluster_reach [''a'', ''b'', ''c''] contested"
    unfolding contested_def by (rule reach_steps) (simp_all add: two_candidates_state ask_def set_node_def split: prod.split)
  moreover have "voters contested 1 ''a'' = {''a'', ''b''}"
    by (auto simp: voters_def contested_state(1))
  ultimately show ?thesis
    unfolding decided_def by (intro reach_steps) (simp_all add: contested_state enough_votes_def majority_def)
qed

lemma decided_leader: "rn_state (cl_node decided ''a'') = LEADER" "rn_term (cl_node decided ''a'') = 1"
  by (simp_all add: decided_def win_def set_node_def promote_to_leader_def contested_state)

lemma decided_rival: "rn_state (cl_node decided ''c'') = CANDIDATE" "rn_term (cl_node decided ''c'') = 1"
  by (simp_all add: decided_def contested_def two_candidates_def election_defs)

lemma election_safety_witness:
  "{i. rn_state (cl_node decided i) = LEADER \<and> rn_term (cl_node decided i) = 1} = {''a''} \<and>
   rn_state (cl_node decided ''c'') = CANDIDATE \<and> rn_term (cl_node decided ''c'') = 1"
proof -
  have "i = ''a''" if "rn_state (cl_node decided i) = LEADER" "rn_term (cl_node decided i) = 1" for i
    by (rule election_safety [OF decided_reach that(1) decided_leader(1)]) (simp only: that(2) decided_leader(2))
  then have "{i. rn_state (cl_node decided i) = LEADER \<and> rn_term (cl_node decided i) = 1} = {''a''}"
    using decided_leader by blast
  then show ?thesis using decided_rival by (intro conjI)
qed

text \<open>
  Leader append-only: while a node stays leader, its term does not change and a step only
  appends to its log.
\<close>

theorem leader_append_only:
  assumes "cluster_reach ms c" "cluster_step ms c c'"
    and "rn_state (cl_node c i) = LEADER" "rn_state (cl_node c' i) = LEADER"
  shows "rn_term (cl_node c' i) = rn_term (cl_node c i) \<and>
    (\<exists>es. rn_log (cl_node c' i) = rn_log (cl_node c i) @ es)"
proof -
  have inv: "raft_inv ms c" "raft_inv ms c'"
    using reach_raft_inv assms(1) step_raft_inv [OF assms(2)] by blast+
  show ?thesis
    using assms(2)
  proof (cases rule: cluster_step.cases)
    case (timeout j n r)
    then show ?thesis using assms(3,4)
      by (cases "i = j") (auto simp: start_election_def Let_def set_node_def)
  next
    case (deliver_vote j a n r)
    have "rn_term n = rn_term (cl_node c j)" if "rn_state n = LEADER"
      using deliver_vote(4) that
      by (cases rule: request_vote_view) (auto simp: kept_def adopt_term_def)
    then show ?thesis using deliver_vote(1) assms(4) vote_keeps_log [OF deliver_vote(4)]
      by (cases "i = j") (auto simp: set_node_def)
  next
    case (promote j)
    then show ?thesis using assms(3) by (cases "i = j") (auto simp: set_node_def)
  next
    case (deliver_entries a j n r)
    then show ?thesis using assms(3,4) entries_at_leader [OF deliver_entries(5)]
      by (cases "i = j") (auto simp: set_node_def)
  next
    case (client j cmd n ix)
    then show ?thesis
      by (cases "i = j") (auto simp: set_node_def propose_def Let_def split: if_splits)
  next
    case (commit j n r)
    have "rn_log n = rn_log (cl_node c j)"
      using commit(3) by (auto simp: update_leader_commit_def
        dest!: arg_cong [of "apply_entries _" _ fst] split: if_splits option.splits prod.splits sum.splits)
    moreover have "kept (cl_node c j) n" using update_commit_kept [of "cl_node c j"] commit(3) by simp
    ultimately show ?thesis using commit(1) by (cases "i = j") (auto simp: set_node_def kept_def)
  qed
qed

lemma leader_append_only_witness:
  "\<exists>es. rn_log (fst (propose (cl_node small_cluster ''a'') 7)) = rn_log (cl_node small_cluster ''a'') @ es"
proof -
  obtain n ix where p: "propose (cl_node small_cluster ''a'') 7 = (n, ix)" by (cases "propose (cl_node small_cluster ''a'') 7")
  have l: "rn_state (cl_node small_cluster ''a'') = LEADER" "rn_state n = LEADER"
    using p by (auto simp: small_cluster_node promote_to_leader_def propose_def Let_def)
  have st: "cluster_step [''a''] small_cluster (set_node small_cluster ''a'' n)"
    by (rule cluster_step.client [OF _ p]) simp
  show ?thesis
    using leader_append_only [OF small_cluster_reach st, of "''a''"] l p by (simp add: set_node_def)
qed

text \<open>
  The leader's commit rule: it advances the commit index to the greatest index above it
  whose entry has the leader's term and is stored on a majority, applies exactly the commands
  up to there, in order, and changes nothing when there is none; it never raises.
\<close>

theorem leader_commit_rule:
  assumes "rn_state n = LEADER" "0 \<le> rn_applied n" "rn_applied n \<le> rn_commit n"
  shows "(\<exists>i n'. update_leader_commit n = (n', Inr True) \<and> rn_commit n < int i \<and> i < length (rn_log n) \<and>
       committable n i \<and> (\<forall>j. i < j \<and> j < length (rn_log n) \<longrightarrow> \<not> committable n j) \<and>
       n' = n\<lparr>rn_commit := int i, rn_applied := int i,
              rn_output := rn_output n @ commands (drop (nat (rn_applied n) + 1) (take (i + 1) (rn_log n)))\<rparr>) \<or>
    update_leader_commit n = (n, Inr False) \<and>
      (\<forall>j. rn_commit n < int j \<and> j < length (rn_log n) \<longrightarrow> \<not> committable n j)"
proof (cases "find_commit n (rev [nat (rn_commit n) + 1 ..< length (rn_log n)])")
  case None
  then have "\<not> committable n j" if "rn_commit n < int j" "j < length (rn_log n)" for j
    using find_commit_rev [of n "nat (rn_commit n) + 1" "length (rn_log n)"] that assms(2,3) by auto
  then show ?thesis using None assms(1) by (simp add: update_leader_commit_def)
next
  case (Some i)
  have i: "nat (rn_commit n) + 1 \<le> i" "i < length (rn_log n)" "committable n i"
    "\<forall>j. i < j \<longrightarrow> j < length (rn_log n) \<longrightarrow> \<not> committable n j"
    using find_commit_rev [of n "nat (rn_commit n) + 1" "length (rn_log n)"] Some by simp_all
  have "apply_entries (n\<lparr>rn_commit := int i\<rparr>) = (n\<lparr>rn_commit := int i, rn_applied := int i,
      rn_output := rn_output n @ commands (drop (nat (rn_applied n) + 1) (take (i + 1) (rn_log n)))\<rparr>, Inr ())"
    using apply_entries_result [of "n\<lparr>rn_commit := int i\<rparr>"] i(1,2) assms(2,3) by simp
  then have u: "update_leader_commit n = (n\<lparr>rn_commit := int i, rn_applied := int i,
      rn_output := rn_output n @ commands (drop (nat (rn_applied n) + 1) (take (i + 1) (rn_log n)))\<rparr>, Inr True)"
    using Some assms(1) by (simp add: update_leader_commit_def)
  show ?thesis
    by (rule disjI1, rule exI [of _ i], rule exI, rule conjI [OF u]) (use i in auto)
qed

lemma leader_commit_rule_witness:
  "\<exists>i n'. update_leader_commit (fst (propose (cl_node small_cluster ''a'') 7)) = (n', Inr True) \<and>
     i = 1 \<and> rn_output n' = [7]"
proof -
  let ?n = "fst (propose (cl_node small_cluster ''a'') 7)"
  have n: "rn_state ?n = LEADER" "rn_applied ?n = 0" "rn_commit ?n = 0" "rn_output ?n = []"
    "rn_log ?n = [\<lparr>le_term = 0, le_index = 0, le_command = None\<rparr>, \<lparr>le_term = 1, le_index = 1, le_command = Some 7\<rparr>]"
    "committable ?n 1"
    by (simp_all add: small_cluster_node promote_to_leader_def propose_def start_election_def raft_new_def
      Let_def committable_def replicas_def majority_def)
  have "\<not> (\<forall>j. rn_commit ?n < int j \<and> j < length (rn_log ?n) \<longrightarrow> \<not> committable ?n j)"
    using n by (auto intro!: exI [of _ 1])
  then show ?thesis
    using leader_commit_rule [of ?n] n by (auto simp: less_Suc_eq numeral_2_eq_2)
qed

text \<open>
  A candidate that hears from the leader of its own term forgets that it voted for itself:
  it can then grant a second vote, for another candidate, in the same term.  (Election safety
  survives because a leader of that term exists by then.)
\<close>

theorem second_vote_in_term:
  assumes "rn_state n = CANDIDATE" "handle_append_entries n a = (n1, r)" "aa_term a = rn_term n"
    and "va_term v = rn_term n" "up_to_date n1 v = Inr True"
  shows "\<exists>n2. handle_request_vote n1 v = (n2, Inr \<lparr>vr_term = rn_term n, vr_granted = True\<rparr>) \<and>
    rn_voted n2 = Some (va_candidate v)"
proof -
  have "kept (adopt_term n (aa_term a)) n1"
  proof -
    have "rn_state n1 = FOLLOWER \<and> rn_voted n1 = None \<and> rn_term n1 = rn_term n"
      using assms(1-3) unfolding handle_append_entries_def Let_def
      by (auto simp: adopt_term_def dest!: arg_cong [of "advance_commit _ _" _ fst]
        split: if_splits sum.splits prod.splits)
    moreover have "kept n n1 \<Longrightarrow> False"
      using assms(1) calculation by (simp add: kept_def)
    ultimately show ?thesis using append_entries_view [OF assms(2)] by blast
  qed
  then show ?thesis
    using assms(3-5) by (simp add: handle_request_vote_def kept_def adopt_term_def)
qed

lemma second_vote_in_term_witness:
  "\<exists>n1 r n2. handle_append_entries (fst (start_election (raft_new ''a'' [''b'', ''c''] :: nat raft_node)))
       \<lparr>aa_term = 1, aa_leader = ''b'', aa_prev_index = 0, aa_prev_term = 0, aa_entries = [], aa_commit = 0\<rparr> = (n1, r) \<and>
     handle_request_vote n1 \<lparr>va_term = 1, va_candidate = ''c'', va_last_index = 0, va_last_term = 0\<rparr> =
       (n2, Inr \<lparr>vr_term = 1, vr_granted = True\<rparr>)"
proof -
  let ?n = "fst (start_election (raft_new ''a'' [''b'', ''c''] :: nat raft_node))"
  let ?a = "\<lparr>aa_term = 1, aa_leader = ''b'', aa_prev_index = 0, aa_prev_term = 0, aa_entries = [], aa_commit = 0\<rparr>"
  obtain n1 r where h: "handle_append_entries ?n ?a = (n1, r)" by (cases "handle_append_entries ?n ?a")
  have n: "rn_state ?n = CANDIDATE" "rn_term ?n = 1" by (simp_all add: start_election_def raft_new_def Let_def)
  have "up_to_date n1 \<lparr>va_term = 1, va_candidate = ''c'', va_last_index = 0, va_last_term = 0\<rparr> = Inr True"
    using h by (auto simp: start_election_def raft_new_def Let_def handle_append_entries_def adopt_term_def
      advance_commit_def up_to_date_def last_log_term_def last_log_index_def)
  then show ?thesis
    using second_vote_in_term [OF n(1) h, of "\<lparr>va_term = 1, va_candidate = ''c'', va_last_index = 0, va_last_term = 0\<rparr>"]
      n(2) h by auto
qed

text \<open>
  A follower commits what it has, not what the leader has: a heartbeat that matches only the
  first entry makes the follower commit and apply its whole log, up to the leader's commit
  index, whatever the terms of those entries, and report all of it as matching.
\<close>

theorem heartbeat_commits_unmatched_suffix:
  assumes "rn_state n = FOLLOWER" "rn_log n = e # es" "0 \<le> rn_applied n" "rn_applied n \<le> rn_commit n"
    and "aa_term a = rn_term n" "aa_prev_index a = 0" "aa_prev_term a = le_term e" "aa_entries a = []"
    and "rn_commit n < aa_commit a" "aa_commit a = int (length es)"
  shows "\<exists>n'. handle_append_entries n a =
      (n', Inr \<lparr>ar_term = rn_term n, ar_success = True, ar_match = int (length es)\<rparr>) \<and>
    rn_commit n' = int (length es) \<and>
    rn_output n' = rn_output n @ commands (drop (nat (rn_applied n)) es)"
proof -
  have "apply_entries (n\<lparr>rn_log := e # es, rn_commit := int (length es)\<rparr>) =
      (n\<lparr>rn_log := e # es, rn_commit := int (length es), rn_applied := int (length es),
         rn_output := rn_output n @ commands (drop (nat (rn_applied n)) es)\<rparr>, Inr ())"
    using apply_entries_result [of "n\<lparr>rn_log := e # es, rn_commit := int (length es)\<rparr>"] assms by simp
  then show ?thesis
    using assms by (simp add: handle_append_entries_def Let_def advance_commit_def)
qed

lemma heartbeat_commits_unmatched_suffix_witness:
  "let n = (raft_new ''a'' [''b''])\<lparr>rn_term := 2, rn_log :=
         [\<lparr>le_term = 0, le_index = 0, le_command = None\<rparr>, \<lparr>le_term = 1, le_index = 1, le_command = Some (7::nat)\<rparr>]\<rparr>;
       a = \<lparr>aa_term = 2, aa_leader = ''b'', aa_prev_index = 0, aa_prev_term = 0, aa_entries = [], aa_commit = 1\<rparr>
   in rn_output (fst (handle_append_entries n a)) = [7]"
proof -
  let ?n = "(raft_new ''a'' [''b''])\<lparr>rn_term := 2, rn_log :=
         [\<lparr>le_term = 0, le_index = 0, le_command = None\<rparr>, \<lparr>le_term = 1, le_index = 1, le_command = Some (7::nat)\<rparr>]\<rparr>"
  let ?a = "\<lparr>aa_term = 2, aa_leader = ''b'', aa_prev_index = 0, aa_prev_term = 0, aa_entries = [], aa_commit = 1\<rparr>"
  obtain n' r where n': "handle_append_entries ?n ?a = (n', r)" "rn_output n' = [7]"
    using heartbeat_commits_unmatched_suffix [of ?n _ _ ?a] by (auto simp: raft_new_def)
  then show ?thesis by (simp add: Let_def)
qed

end
