(* ===== verification/Query_Result.thy ===== *)
theory Query_Result
  imports Py_Data Types
begin

text \<open>
  The result of a statement, \<^verbatim>\<open>QueryResult\<close> of
  \<^verbatim>\<open>src/pysql/executor.py\<close>, and its text rendering.
\<close>

record 'v query_result =
  qr_columns :: "string list"
  qr_rows :: "'v list list"
  qr_affected :: int
  qr_message :: string

definition table_result :: "string list \<Rightarrow> 'v list list \<Rightarrow> 'v query_result" where
  "table_result cols rows = \<lparr>qr_columns = cols, qr_rows = rows, qr_affected = 0, qr_message = []\<rparr>"

definition message_result :: "int \<Rightarrow> string \<Rightarrow> 'v query_result" where
  "message_result n msg = \<lparr>qr_columns = [], qr_rows = [], qr_affected = n, qr_message = msg\<rparr>"

section \<open>Rendering\<close>

definition join_str :: "string \<Rightarrow> string list \<Rightarrow> string" where
  "join_str sep xs = (case xs of [] \<Rightarrow> [] | x # ys \<Rightarrow> x @ concat (map (\<lambda>y. sep @ y) ys))"

definition ljust :: "nat \<Rightarrow> string \<Rightarrow> string" where
  "ljust w s = s @ replicate (w - length s) CHR '' ''"

text \<open>A row widens the columns it has values for, up to the limit.\<close>

fun widen :: "py_runtime \<Rightarrow> nat \<Rightarrow> nat list \<Rightarrow> pyval list \<Rightarrow> nat list" where
  "widen rt m (w # ws) (v # vs) = max w (min (length (py_str rt v)) m) # widen rt m ws vs"
| "widen rt m ws vs = ws"

fun render_row :: "py_runtime \<Rightarrow> nat \<Rightarrow> nat list \<Rightarrow> pyval list \<Rightarrow> string list result" where
  "render_row rt m ws [] = Inr []"
| "render_row rt m [] (v # vs) = Inl IndexError"
| "render_row rt m (w # ws) (v # vs) =
     bindr (render_row rt m ws vs) (\<lambda>cells. Inr (take m (ljust w (py_str rt v)) # cells))"

definition to_table_string :: "py_runtime \<Rightarrow> pyval query_result \<Rightarrow> nat \<Rightarrow> string result" where
  "to_table_string rt q max_width =
     (if qr_columns q = [] then
        Inr (if qr_message q \<noteq> [] then qr_message q else str_of_int (qr_affected q) @ '' row(s) affected'')
      else
        (let widths = fold (\<lambda>row ws. widen rt max_width ws row) (qr_rows q) (map length (qr_columns q));
             header = join_str '' | '' (map2 ljust widths (qr_columns q));
             separator = join_str ''-+-'' (map (\<lambda>w. replicate w CHR ''-'') widths);
             n = length (qr_rows q);
             count = ''('' @ str_of_int (int n) @ '' row'' @ (if n \<noteq> 1 then ''s'' else []) @ '')''
         in bindr (mapr (\<lambda>row. bindr (render_row rt max_width widths row)
                             (\<lambda>cells. Inr (join_str '' | '' cells))) (qr_rows q))
              (\<lambda>lines. Inr (join_str [CHR 0x0A] ([header, separator] @ lines @ [count])))))"

section \<open>Every table renders\<close>

lemma widen_length [simp]: "length (widen rt m ws vs) = length ws"
  by (induction rt m ws vs rule: widen.induct) auto

lemma fold_widen_length [simp]: "length (fold (\<lambda>row ws. widen rt m ws row) rows ws) = length ws"
  by (induction rows arbitrary: ws) auto

lemma render_row_ok: "length vs \<le> length ws \<Longrightarrow> is_ok (render_row rt m ws vs)"
  by (induction rt m ws vs rule: render_row.induct) (auto simp: is_ok_iff)

lemma mapr_ok: "(\<And>x. x \<in> set xs \<Longrightarrow> is_ok (f x)) \<Longrightarrow> is_ok (mapr f xs)"
proof (induction xs)
  case (Cons x xs)
  then have "is_ok (f x)" "is_ok (mapr f xs)" by simp_all
  then show ?case by (auto simp: is_ok_iff)
qed simp

lemma to_table_string_ok:
  assumes "list_all (\<lambda>row. length row \<le> length (qr_columns q)) (qr_rows q)"
  shows "is_ok (to_table_string rt q m)"
proof -
  have "is_ok (mapr (\<lambda>row. bindr (render_row rt m ws row) (\<lambda>cells. Inr (join_str '' | '' cells))) (qr_rows q))"
    if "length ws = length (qr_columns q)" for ws
  proof (rule mapr_ok)
    fix row assume "row \<in> set (qr_rows q)"
    then have "is_ok (render_row rt m ws row)"
      using assms that by (intro render_row_ok) (auto simp: list_all_iff)
    then show "is_ok (bindr (render_row rt m ws row) (\<lambda>cells. Inr (join_str '' | '' cells)))"
      by (auto simp: is_ok_iff)
  qed
  from this [of "fold (\<lambda>row ws. widen rt m ws row) (qr_rows q) (map length (qr_columns q))"]
  show ?thesis by (auto simp: to_table_string_def Let_def is_ok_iff)
qed

end
