(* ===== verification/Distributed.thy ===== *)
theory Distributed
  imports Query_Result
begin

text \<open>
  The coordinator of \<^verbatim>\<open>src/pysql/distributed.py\<close>: routing by hash, two-phase
  commit over the participants and scatter-gather queries.  A participant is a database of some
  type \<open>'d\<close>; its \<^verbatim>\<open>execute\<close> and \<^verbatim>\<open>checkpoint\<close> are parameters that give the database
  after the call, changed or not, with a result or an exception.  Node names are distinct and
  stand for distinct databases, as the keys of the code's dictionary do.
\<close>

section \<open>State\<close>

datatype txn_phase = INIT | PREPARING | PREPARED | COMMITTING | COMMITTED | ABORTING | ABORTED

record dist_txn =
  dt_id :: string
  dt_phase :: txn_phase
  dt_participants :: "string list"
  dt_votes :: "(string \<times> bool) list"

record 'd coordinator =
  co_id :: string
  co_nodes :: "(string \<times> 'd) list"
  co_shards :: "string list"
  co_txns :: "(string \<times> dist_txn) list"

definition coordinator_new :: "string \<Rightarrow> (string \<times> 'd) list \<Rightarrow> 'd coordinator" where
  "coordinator_new i ns = \<lparr>co_id = i, co_nodes = ns, co_shards = map fst ns, co_txns = []\<rparr>"

text \<open>Routing; \<open>hash\<close> stands for the MD5 digest of the key's text, read as a number.\<close>

definition get_shard :: "('k \<Rightarrow> nat) \<Rightarrow> string list \<Rightarrow> 'k \<Rightarrow> string result" where
  "get_shard hash shards key =
     (if shards = [] then Inl ZeroDivisionError else Inr (shards ! (hash key mod length shards)))"

section \<open>Two-phase commit\<close>

definition begin_distributed_txn ::
  "'d coordinator \<Rightarrow> string \<Rightarrow> string list \<Rightarrow> 'd coordinator \<times> dist_txn"
where
  "begin_distributed_txn c i ps =
     (let s = \<lparr>dt_id = i, dt_phase = INIT, dt_participants = ps, dt_votes = []\<rparr>
      in (c\<lparr>co_txns := assoc_put i s (co_txns c)\<rparr>, s))"

definition save_txn :: "'d coordinator \<Rightarrow> dist_txn \<Rightarrow> 'd coordinator" where
  "save_txn c s = c\<lparr>co_txns := assoc_put (dt_id s) s (co_txns c)\<rparr>"

text \<open>The prepare phase: nodes, votes and whether all went well, stopping at the first failure.\<close>

fun prepare ::
  "('d \<Rightarrow> string \<Rightarrow> 'd \<times> 'r result) \<Rightarrow> (string \<times> 'd) list \<Rightarrow> (string \<times> bool) list \<Rightarrow>
   (string \<times> string) list \<Rightarrow> (string \<times> 'd) list \<times> (string \<times> bool) list \<times> bool"
where
  "prepare exec ns vs [] = (ns, vs, True)"
| "prepare exec ns vs ((i, cmd) # cs) =
     (case assoc_get i ns of
        None \<Rightarrow> (ns, assoc_put i False vs, False)
      | Some d \<Rightarrow>
          (case exec d cmd of
             (d', Inl e) \<Rightarrow> (assoc_put i d' ns, assoc_put i False vs, False)
           | (d', Inr r) \<Rightarrow> prepare exec (assoc_put i d' ns) (assoc_put i True vs) cs))"

fun checkpoint_all ::
  "('d \<Rightarrow> 'd \<times> unit result) \<Rightarrow> (string \<times> 'd) list \<Rightarrow> string list \<Rightarrow> (string \<times> 'd) list \<times> unit result"
where
  "checkpoint_all chk ns [] = (ns, Inr ())"
| "checkpoint_all chk ns (i # is) =
     (case assoc_get i ns of
        None \<Rightarrow> (ns, Inl KeyError)
      | Some d \<Rightarrow>
          (case chk d of
             (d', Inl e) \<Rightarrow> (assoc_put i d' ns, Inl e)
           | (d', Inr _) \<Rightarrow> checkpoint_all chk (assoc_put i d' ns) is))"

text \<open>
  The abort branch looks up each participant that voted yes and does nothing with it; the
  lookup cannot fail, those nodes having been found in the prepare phase.
\<close>

definition execute_2pc ::
  "('d \<Rightarrow> string \<Rightarrow> 'd \<times> 'r result) \<Rightarrow> ('d \<Rightarrow> 'd \<times> unit result) \<Rightarrow>
   'd coordinator \<Rightarrow> string \<Rightarrow> (string \<times> string) list \<Rightarrow> 'd coordinator \<times> bool result"
where
  "execute_2pc exec chk c i cmds =
     (let (c1, s) = begin_distributed_txn c i (map fst cmds);
          (ns, vs, ok) = prepare exec (co_nodes c1) (dt_votes s) cmds;
          s1 = s\<lparr>dt_votes := vs\<rparr>;
          c2 = c1\<lparr>co_nodes := ns\<rparr>
      in if ok then
           (case checkpoint_all chk ns (map fst cmds) of
              (ns', Inl e) \<Rightarrow> (save_txn (c2\<lparr>co_nodes := ns'\<rparr>) (s1\<lparr>dt_phase := COMMITTING\<rparr>), Inl e)
            | (ns', Inr _) \<Rightarrow> (save_txn (c2\<lparr>co_nodes := ns'\<rparr>) (s1\<lparr>dt_phase := COMMITTED\<rparr>), Inr True))
         else (save_txn c2 (s1\<lparr>dt_phase := ABORTED\<rparr>), Inr False))"

section \<open>Scatter-gather\<close>

fun gather ::
  "('d \<Rightarrow> string \<Rightarrow> 'd \<times> 'v query_result result) \<Rightarrow> string \<Rightarrow> (string \<times> 'd) list \<Rightarrow>
   string list \<Rightarrow> 'v list list \<Rightarrow> (string \<times> 'd) list \<times> (string list \<times> 'v list list) result"
where
  "gather exec sql [] schema rows = ([], Inr (schema, rows))"
| "gather exec sql ((i, d) # ns) schema rows =
     (case exec d sql of
        (d', Inl e) \<Rightarrow> ((i, d') # ns, Inl e)
      | (d', Inr r) \<Rightarrow>
          (let schema' = (if schema = [] \<and> qr_columns r \<noteq> [] then qr_columns r else schema);
               (ns', out) = gather exec sql ns schema' (rows @ qr_rows r)
           in ((i, d') # ns', out)))"

definition execute_scatter_gather ::
  "('d \<Rightarrow> string \<Rightarrow> 'd \<times> 'v query_result result) \<Rightarrow> 'd coordinator \<Rightarrow> string \<Rightarrow>
   'd coordinator \<times> 'v query_result result"
where
  "execute_scatter_gather exec c sql =
     (case gather exec sql (co_nodes c) [] [] of
        (ns, Inl e) \<Rightarrow> (c\<lparr>co_nodes := ns\<rparr>, Inl e)
      | (ns, Inr (schema, rows)) \<Rightarrow>
          (c\<lparr>co_nodes := ns\<rparr>,
           Inr \<lparr>qr_columns = schema, qr_rows = rows, qr_affected = int (length rows), qr_message = ''''\<rparr>))"

section \<open>The effect on one participant\<close>

text \<open>
  What a command does to the database of a node.  \<open>runs\<close> are the commands that reach their node,
  up to and including the first that fails.
\<close>

definition succeeds ::
  "('d \<Rightarrow> string \<Rightarrow> 'd \<times> 'r result) \<Rightarrow> (string \<times> 'd) list \<Rightarrow> string \<times> string \<Rightarrow> bool"
where
  "succeeds exec ns p = (case assoc_get (fst p) ns of None \<Rightarrow> False | Some d \<Rightarrow> is_ok (snd (exec d (snd p))))"

fun attempted ::
  "('d \<Rightarrow> string \<Rightarrow> 'd \<times> 'r result) \<Rightarrow> (string \<times> 'd) list \<Rightarrow> (string \<times> string) list \<Rightarrow> (string \<times> string) list"
where
  "attempted exec ns [] = []"
| "attempted exec ns (p # ps) = p # (if succeeds exec ns p then attempted exec ns ps else [])"

lemma succeeds_frame:
  "fst p \<noteq> i \<Longrightarrow> succeeds exec (assoc_put i d ns) p = succeeds exec ns p"
  by (simp add: succeeds_def assoc_get_put)

lemma attempted_frame: "i \<notin> fst ` set ps \<Longrightarrow> attempted exec (assoc_put i d ns) ps = attempted exec ns ps"
  by (induction ps) (auto simp: succeeds_frame)

lemma attempted_subset: "set (attempted exec ns ps) \<subseteq> set ps"
  by (induction ps) auto

lemma prepare_effect:
  assumes "distinct (map fst cmds)" "prepare exec ns vs cmds = (ns', vs', ok)"
  shows "ok = list_all (succeeds exec ns) cmds \<and>
    (\<forall>i. assoc_get i ns' =
       (case assoc_get i ns of
          None \<Rightarrow> None
        | Some d \<Rightarrow> Some (case map_of (attempted exec ns cmds) i of None \<Rightarrow> d | Some cmd \<Rightarrow> fst (exec d cmd))))"
  using assms
proof (induction cmds arbitrary: ns vs)
  case Nil
  then show ?case by (auto split: option.split)
next
  case (Cons p cmds)
  obtain j cmd where p: "p = (j, cmd)" by (cases p)
  have j: "j \<notin> fst ` set cmds" "distinct (map fst cmds)" using Cons(2) p by simp_all
  show ?case
  proof (cases "assoc_get j ns")
    case None
    then show ?thesis using Cons(3) p by (auto simp: succeeds_def split: option.split)
  next
    case (Some d)
    obtain d' r where e: "exec d cmd = (d', r)" by (cases "exec d cmd")
    show ?thesis
    proof (cases r)
      case (Inl x)
      then show ?thesis using Cons(3) p Some e
        by (auto simp: succeeds_def assoc_get_put split: option.split)
    next
      case (Inr x)
      let ?ns = "assoc_put j d' ns"
      have run: "prepare exec ?ns (assoc_put j True vs) cmds = (ns', vs', ok)" using Cons(3) p Some e Inr by simp
      have all: "list_all (succeeds exec ?ns) cmds = list_all (succeeds exec ns) cmds"
        using j(1) by (auto simp: list_all_iff succeeds_frame image_iff intro!: ball_cong)
      have att: "attempted exec ?ns cmds = attempted exec ns cmds" by (rule attempted_frame [OF j(1)])
      have out: "map_of (attempted exec ns cmds) j = None"
        using attempted_subset [of exec ns cmds] j(1) by (force simp: map_of_eq_None_iff)
      have s: "succeeds exec ns (j, cmd)" using Some e Inr by (simp add: succeeds_def)
      show ?thesis
        using Cons(1) [OF j(2) run] all att out s Some e p
        by (auto simp: assoc_get_put split: option.split)
    qed
  qed
qed

lemma checkpoint_effect:
  assumes "distinct is" "checkpoint_all chk ns is = (ns', Inr ())"
  shows "assoc_get i ns' =
    (case assoc_get i ns of None \<Rightarrow> None | Some d \<Rightarrow> Some (if i \<in> set is then fst (chk d) else d))"
  using assms
proof (induction chk ns "is" rule: checkpoint_all.induct)
  case (2 chk ns j js)
  obtain d where d: "assoc_get j ns = Some d" using 2(3) by (auto split: option.splits)
  obtain d' where c: "chk d = (d', Inr ())" using 2(3) d by (auto split: prod.splits sum.splits)
  show ?case
    using 2(1) [OF d c [symmetric]] 2(2,3) d c by (auto simp: assoc_get_put split: option.splits)
qed (auto split: option.split)

lemma attempted_all: "list_all (succeeds exec ns) cmds \<Longrightarrow> attempted exec ns cmds = cmds"
  by (induction cmds) auto

lemma execute_2pc_cases:
  assumes "prepare exec (co_nodes c) [] cmds = (ns, vs, ok)"
  shows "execute_2pc exec chk c i cmds =
    (let c2 = c\<lparr>co_txns := assoc_put i \<lparr>dt_id = i, dt_phase = INIT, dt_participants = map fst cmds, dt_votes = []\<rparr> (co_txns c),
                co_nodes := ns\<rparr>;
         s1 = \<lparr>dt_id = i, dt_phase = INIT, dt_participants = map fst cmds, dt_votes = vs\<rparr> in
     if ok then
       (case checkpoint_all chk ns (map fst cmds) of
          (ns', Inl e) \<Rightarrow> (save_txn (c2\<lparr>co_nodes := ns'\<rparr>) (s1\<lparr>dt_phase := COMMITTING\<rparr>), Inl e)
        | (ns', Inr _) \<Rightarrow> (save_txn (c2\<lparr>co_nodes := ns'\<rparr>) (s1\<lparr>dt_phase := COMMITTED\<rparr>), Inr True))
     else (save_txn c2 (s1\<lparr>dt_phase := ABORTED\<rparr>), Inr False))"
  using assms by (simp add: execute_2pc_def begin_distributed_txn_def Let_def)

lemma gather_rows:
  assumes "list_all (\<lambda>(i, d). is_ok (snd (exec d sql))) ns"
  shows "gather exec sql ns schema rows =
    (map (\<lambda>(i, d). (i, fst (exec d sql))) ns,
     let rs = map (\<lambda>(i, d). case snd (exec d sql) of Inr r \<Rightarrow> r) ns in
     Inr (if schema = [] then concat (take 1 (filter (\<lambda>c. c \<noteq> []) (map qr_columns rs))) else schema,
          rows @ concat (map qr_rows rs)))"
  using assms
proof (induction ns arbitrary: schema rows)
  case (Cons p ns)
  obtain i d where p: "p = (i, d)" by (cases p)
  obtain d' r where e: "exec d sql = (d', Inr r)" using Cons(2) p by (cases "exec d sql") (auto simp: is_ok_iff)
  show ?case using Cons p e by (simp add: Let_def)
qed simp

section \<open>Properties\<close>

text \<open>
  Two-phase commit decides commit exactly when every participant exists and executed its
  command (checkpoints permitting), and then every participant has executed its command and is
  checkpointed while all other nodes are unchanged.
\<close>

theorem commit_applies_everywhere:
  assumes "distinct (map fst cmds)" "execute_2pc exec chk c i cmds = (c', Inr True)"
  shows "list_all (succeeds exec (co_nodes c)) cmds \<and>
    (\<forall>n. assoc_get n (co_nodes c') =
       (case assoc_get n (co_nodes c) of
          None \<Rightarrow> None
        | Some d \<Rightarrow> Some (case map_of cmds n of None \<Rightarrow> d | Some cmd \<Rightarrow> fst (chk (fst (exec d cmd)))))) \<and>
    map_option dt_phase (assoc_get i (co_txns c')) = Some COMMITTED"
proof -
  obtain ns vs ok where p: "prepare exec (co_nodes c) [] cmds = (ns, vs, ok)" by (cases "prepare exec (co_nodes c) [] cmds")
  note c' = assms(2) [unfolded execute_2pc_cases [OF p]]
  have ok: ok using c' by (simp add: Let_def split: if_splits)
  obtain ns' where k: "checkpoint_all chk ns (map fst cmds) = (ns', Inr ())" "co_nodes c' = ns'"
      "map_option dt_phase (assoc_get i (co_txns c')) = Some COMMITTED"
    using c' ok by (auto simp: Let_def save_txn_def assoc_get_put split: prod.splits sum.splits)
  note pe = prepare_effect [OF assms(1) p]
  have all: "list_all (succeeds exec (co_nodes c)) cmds" using pe ok by simp
  have "assoc_get n ns' =
       (case assoc_get n (co_nodes c) of
          None \<Rightarrow> None
        | Some d \<Rightarrow> Some (case map_of cmds n of None \<Rightarrow> d | Some cmd \<Rightarrow> fst (chk (fst (exec d cmd)))))" for n
  proof (cases "map_of cmds n")
    case None
    then have "n \<notin> set (map fst cmds)" by (simp add: map_of_eq_None_iff)
    then show ?thesis
      using checkpoint_effect [OF assms(1) k(1), of n] pe None attempted_all [OF all] by (simp split: option.split)
  next
    case (Some cmd)
    then have "n \<in> set (map fst cmds)" by (metis map_of_eq_None_iff option.distinct(1) set_map)
    then show ?thesis
      using checkpoint_effect [OF assms(1) k(1), of n] pe Some attempted_all [OF all] by (simp split: option.split)
  qed
  then show ?thesis using all k by simp
qed

text \<open>A database that records what it was told, and fails on one command.\<close>

definition log_exec :: "string list \<Rightarrow> string \<Rightarrow> string list \<times> unit result" where
  "log_exec d cmd = (d @ [cmd], if cmd = ''bad'' then Inl RuntimeError else Inr ())"

definition log_chk :: "string list \<Rightarrow> string list \<times> unit result" where
  "log_chk d = (d @ [''checkpoint''], Inr ())"

definition log_cluster :: "string list coordinator" where
  "log_cluster = coordinator_new ''a'' [(''a'', []), (''b'', []), (''c'', [])]"

lemma commit_applies_everywhere_witness:
  "\<exists>c'. execute_2pc log_exec log_chk log_cluster ''t'' [(''a'', ''x''), (''c'', ''y'')] = (c', Inr True) \<and>
     assoc_get ''b'' (co_nodes c') = Some [] \<and> assoc_get ''c'' (co_nodes c') = Some [''y'', ''checkpoint'']"
proof -
  let ?cmds = "[(''a'', ''x''), (''c'', ''y'')]"
  obtain c' where c': "execute_2pc log_exec log_chk log_cluster ''t'' ?cmds = (c', Inr True)"
    by (simp add: execute_2pc_def begin_distributed_txn_def Let_def log_exec_def log_chk_def log_cluster_def
      coordinator_new_def)
  show ?thesis
    using commit_applies_everywhere [OF _ c'] c'
    by (simp add: log_exec_def log_chk_def log_cluster_def coordinator_new_def)
qed

text \<open>
  C39: an aborted transaction is not rolled back: the nodes whose command ran before the failure
  keep its effect, and so does the failing node; only the commands after the failure are not
  run.
\<close>

theorem abort_keeps_partial_effects:
  assumes "distinct (map fst cmds)" "execute_2pc exec chk c i cmds = (c', Inr False)"
  shows "\<not> list_all (succeeds exec (co_nodes c)) cmds \<and>
    (\<forall>n. assoc_get n (co_nodes c') =
       (case assoc_get n (co_nodes c) of
          None \<Rightarrow> None
        | Some d \<Rightarrow> Some (case map_of (attempted exec (co_nodes c) cmds) n of
                           None \<Rightarrow> d | Some cmd \<Rightarrow> fst (exec d cmd)))) \<and>
    map_option dt_phase (assoc_get i (co_txns c')) = Some ABORTED"
proof -
  obtain ns vs ok where p: "prepare exec (co_nodes c) [] cmds = (ns, vs, ok)" by (cases "prepare exec (co_nodes c) [] cmds")
  note c' = assms(2) [unfolded execute_2pc_cases [OF p]]
  have "\<not> ok \<and> co_nodes c' = ns \<and> map_option dt_phase (assoc_get i (co_txns c')) = Some ABORTED"
    using c' by (auto simp: Let_def save_txn_def assoc_get_put split: if_splits prod.splits sum.splits)
  then show ?thesis using prepare_effect [OF assms(1) p] by simp
qed

lemma abort_keeps_partial_effects_witness:
  "\<exists>c'. execute_2pc log_exec log_chk log_cluster ''t'' [(''a'', ''x''), (''b'', ''bad''), (''c'', ''y'')] = (c', Inr False) \<and>
     assoc_get ''a'' (co_nodes c') = Some [''x''] \<and> assoc_get ''b'' (co_nodes c') = Some [''bad''] \<and>
     assoc_get ''c'' (co_nodes c') = Some []"
proof -
  let ?cmds = "[(''a'', ''x''), (''b'', ''bad''), (''c'', ''y'')]"
  obtain c' where c': "execute_2pc log_exec log_chk log_cluster ''t'' ?cmds = (c', Inr False)"
    by (simp add: execute_2pc_def begin_distributed_txn_def Let_def log_exec_def log_cluster_def coordinator_new_def)
  show ?thesis
    using abort_keeps_partial_effects [OF _ c'] c'
    by (simp add: log_exec_def log_cluster_def coordinator_new_def succeeds_def)
qed

text \<open>
  When every node answers, a scatter-gather query returns the rows of all nodes in order,
  with the first non-empty list of columns and the number of rows.
\<close>

theorem scatter_gather_merges:
  assumes "list_all (\<lambda>(i, d). is_ok (snd (exec d sql))) (co_nodes c)"
  shows "let rs = map (\<lambda>(i, d). case snd (exec d sql) of Inr r \<Rightarrow> r) (co_nodes c);
             rows = concat (map qr_rows rs) in
    snd (execute_scatter_gather exec c sql) =
      Inr \<lparr>qr_columns = concat (take 1 (filter (\<lambda>c. c \<noteq> []) (map qr_columns rs))), qr_rows = rows,
           qr_affected = int (length rows), qr_message = ''''\<rparr>"
  using gather_rows [of exec sql "co_nodes c" "[]" "[]"] assms by (simp add: execute_scatter_gather_def Let_def)

lemma scatter_gather_merges_witness:
  "snd (execute_scatter_gather
      (\<lambda>d sql. (d, Inr \<lparr>qr_columns = [''id''], qr_rows = [[d]], qr_affected = 1, qr_message = ''''\<rparr>))
      (coordinator_new ''a'' [(''a'', 1::nat), (''b'', 2)]) ''q'') =
    Inr \<lparr>qr_columns = [''id''], qr_rows = [[1], [2]], qr_affected = 2, qr_message = ''''\<rparr>"
  using scatter_gather_merges [of "\<lambda>d sql. (d, Inr \<lparr>qr_columns = [''id''], qr_rows = [[d]], qr_affected = 1, qr_message = ''''\<rparr>)"
      "''q''" "coordinator_new ''a'' [(''a'', 1::nat), (''b'', 2)]"]
  by (simp add: coordinator_new_def)

end
