(* ===== verification/Lexer.thy ===== *)
theory Lexer
  imports Py_Data Types
begin

text \<open>
  The SQL tokenizer, \<^verbatim>\<open>src/pysql/lexer.py\<close>.  A position is the pair of
  the current line and column; the rest of the source from the current index on stands for
  the source and the index.  Characters are the code points below 256, with Python's Latin-1
  character classes; the two letters whose capitals lie beyond them keep their form, which no
  keyword contains.  The loops are recursions over the rest of the source.
\<close>

section \<open>Tokens\<close>

text \<open>The enumeration is split so that each part stays small; the abbreviations give every
  member the one name the source has for it.\<close>

datatype keyword_a =
    KW_SELECT | KW_FROM | KW_WHERE | KW_INSERT | KW_INTO | KW_VALUES | KW_UPDATE | KW_SET
    | KW_DELETE | KW_CREATE | KW_TABLE | KW_DROP | KW_ALTER | KW_ADD | KW_COLUMN | KW_INDEX
    | KW_ON | KW_PRIMARY | KW_KEY | KW_FOREIGN | KW_REFERENCES | KW_UNIQUE | KW_NOT | KW_DEFAULT
    | KW_NULL | KW_AND

datatype keyword_b =
    KW_OR | KW_IN | KW_BETWEEN | KW_LIKE | KW_IS | KW_AS | KW_JOIN | KW_INNER | KW_LEFT | KW_RIGHT
    | KW_OUTER | KW_CROSS | KW_FULL | KW_ORDER | KW_BY | KW_ASC | KW_DESC | KW_GROUP | KW_HAVING
    | KW_LIMIT | KW_OFFSET | KW_DISTINCT | KW_ALL | KW_EXISTS | KW_CASE | KW_WHEN

datatype keyword_c =
    KW_THEN | KW_ELSE | KW_END | KW_CAST | KW_BEGIN | KW_COMMIT | KW_ROLLBACK | KW_TRANSACTION
    | KW_IF | KW_EXPLAIN | KW_UNION | KW_INTERSECT | KW_EXCEPT | KW_TRUE | KW_FALSE | KW_CHECK
    | KW_CONSTRAINT | KW_CASCADE | KW_RESTRICT | KW_AUTOINCREMENT | KW_COUNT | KW_SUM | KW_AVG
    | KW_MIN | KW_MAX | KW_USING | KW_NATURAL

datatype token_type =
    TK_INTEGER_LITERAL | TK_FLOAT_LITERAL | TK_STRING_LITERAL | TK_BOOLEAN_LITERAL
    | TK_NULL_LITERAL | TK_IDENTIFIER | TK_QUOTED_IDENTIFIER | TK_PLUS | TK_MINUS | TK_STAR
    | TK_SLASH | TK_PERCENT | TK_EQUALS | TK_NOT_EQUALS | TK_LESS | TK_GREATER | TK_LESS_EQUALS
    | TK_GREATER_EQUALS | TK_CONCAT | TK_LPAREN | TK_RPAREN | TK_COMMA | TK_SEMICOLON | TK_DOT
    | TK_EOF | TK_INVALID | TK_A keyword_a | TK_B keyword_b | TK_C keyword_c

abbreviation "TK_SELECT \<equiv> TK_A KW_SELECT"
abbreviation "TK_FROM \<equiv> TK_A KW_FROM"
abbreviation "TK_WHERE \<equiv> TK_A KW_WHERE"
abbreviation "TK_INSERT \<equiv> TK_A KW_INSERT"
abbreviation "TK_INTO \<equiv> TK_A KW_INTO"
abbreviation "TK_VALUES \<equiv> TK_A KW_VALUES"
abbreviation "TK_UPDATE \<equiv> TK_A KW_UPDATE"
abbreviation "TK_SET \<equiv> TK_A KW_SET"
abbreviation "TK_DELETE \<equiv> TK_A KW_DELETE"
abbreviation "TK_CREATE \<equiv> TK_A KW_CREATE"
abbreviation "TK_TABLE \<equiv> TK_A KW_TABLE"
abbreviation "TK_DROP \<equiv> TK_A KW_DROP"
abbreviation "TK_ALTER \<equiv> TK_A KW_ALTER"
abbreviation "TK_ADD \<equiv> TK_A KW_ADD"
abbreviation "TK_COLUMN \<equiv> TK_A KW_COLUMN"
abbreviation "TK_INDEX \<equiv> TK_A KW_INDEX"
abbreviation "TK_ON \<equiv> TK_A KW_ON"
abbreviation "TK_PRIMARY \<equiv> TK_A KW_PRIMARY"
abbreviation "TK_KEY \<equiv> TK_A KW_KEY"
abbreviation "TK_FOREIGN \<equiv> TK_A KW_FOREIGN"
abbreviation "TK_REFERENCES \<equiv> TK_A KW_REFERENCES"
abbreviation "TK_UNIQUE \<equiv> TK_A KW_UNIQUE"
abbreviation "TK_NOT \<equiv> TK_A KW_NOT"
abbreviation "TK_DEFAULT \<equiv> TK_A KW_DEFAULT"
abbreviation "TK_NULL \<equiv> TK_A KW_NULL"
abbreviation "TK_AND \<equiv> TK_A KW_AND"
abbreviation "TK_OR \<equiv> TK_B KW_OR"
abbreviation "TK_IN \<equiv> TK_B KW_IN"
abbreviation "TK_BETWEEN \<equiv> TK_B KW_BETWEEN"
abbreviation "TK_LIKE \<equiv> TK_B KW_LIKE"
abbreviation "TK_IS \<equiv> TK_B KW_IS"
abbreviation "TK_AS \<equiv> TK_B KW_AS"
abbreviation "TK_JOIN \<equiv> TK_B KW_JOIN"
abbreviation "TK_INNER \<equiv> TK_B KW_INNER"
abbreviation "TK_LEFT \<equiv> TK_B KW_LEFT"
abbreviation "TK_RIGHT \<equiv> TK_B KW_RIGHT"
abbreviation "TK_OUTER \<equiv> TK_B KW_OUTER"
abbreviation "TK_CROSS \<equiv> TK_B KW_CROSS"
abbreviation "TK_FULL \<equiv> TK_B KW_FULL"
abbreviation "TK_ORDER \<equiv> TK_B KW_ORDER"
abbreviation "TK_BY \<equiv> TK_B KW_BY"
abbreviation "TK_ASC \<equiv> TK_B KW_ASC"
abbreviation "TK_DESC \<equiv> TK_B KW_DESC"
abbreviation "TK_GROUP \<equiv> TK_B KW_GROUP"
abbreviation "TK_HAVING \<equiv> TK_B KW_HAVING"
abbreviation "TK_LIMIT \<equiv> TK_B KW_LIMIT"
abbreviation "TK_OFFSET \<equiv> TK_B KW_OFFSET"
abbreviation "TK_DISTINCT \<equiv> TK_B KW_DISTINCT"
abbreviation "TK_ALL \<equiv> TK_B KW_ALL"
abbreviation "TK_EXISTS \<equiv> TK_B KW_EXISTS"
abbreviation "TK_CASE \<equiv> TK_B KW_CASE"
abbreviation "TK_WHEN \<equiv> TK_B KW_WHEN"
abbreviation "TK_THEN \<equiv> TK_C KW_THEN"
abbreviation "TK_ELSE \<equiv> TK_C KW_ELSE"
abbreviation "TK_END \<equiv> TK_C KW_END"
abbreviation "TK_CAST \<equiv> TK_C KW_CAST"
abbreviation "TK_BEGIN \<equiv> TK_C KW_BEGIN"
abbreviation "TK_COMMIT \<equiv> TK_C KW_COMMIT"
abbreviation "TK_ROLLBACK \<equiv> TK_C KW_ROLLBACK"
abbreviation "TK_TRANSACTION \<equiv> TK_C KW_TRANSACTION"
abbreviation "TK_IF \<equiv> TK_C KW_IF"
abbreviation "TK_EXPLAIN \<equiv> TK_C KW_EXPLAIN"
abbreviation "TK_UNION \<equiv> TK_C KW_UNION"
abbreviation "TK_INTERSECT \<equiv> TK_C KW_INTERSECT"
abbreviation "TK_EXCEPT \<equiv> TK_C KW_EXCEPT"
abbreviation "TK_TRUE \<equiv> TK_C KW_TRUE"
abbreviation "TK_FALSE \<equiv> TK_C KW_FALSE"
abbreviation "TK_CHECK \<equiv> TK_C KW_CHECK"
abbreviation "TK_CONSTRAINT \<equiv> TK_C KW_CONSTRAINT"
abbreviation "TK_CASCADE \<equiv> TK_C KW_CASCADE"
abbreviation "TK_RESTRICT \<equiv> TK_C KW_RESTRICT"
abbreviation "TK_AUTOINCREMENT \<equiv> TK_C KW_AUTOINCREMENT"
abbreviation "TK_COUNT \<equiv> TK_C KW_COUNT"
abbreviation "TK_SUM \<equiv> TK_C KW_SUM"
abbreviation "TK_AVG \<equiv> TK_C KW_AVG"
abbreviation "TK_MIN \<equiv> TK_C KW_MIN"
abbreviation "TK_MAX \<equiv> TK_C KW_MAX"
abbreviation "TK_USING \<equiv> TK_C KW_USING"
abbreviation "TK_NATURAL \<equiv> TK_C KW_NATURAL"

definition sql_keywords :: "(string \<times> token_type) list" where
  "sql_keywords = [
     (''SELECT'', TK_SELECT), (''FROM'', TK_FROM), (''WHERE'', TK_WHERE),
     (''INSERT'', TK_INSERT), (''INTO'', TK_INTO), (''VALUES'', TK_VALUES),
     (''UPDATE'', TK_UPDATE), (''SET'', TK_SET), (''DELETE'', TK_DELETE),
     (''CREATE'', TK_CREATE), (''TABLE'', TK_TABLE), (''DROP'', TK_DROP), (''ALTER'', TK_ALTER),
     (''ADD'', TK_ADD), (''COLUMN'', TK_COLUMN), (''INDEX'', TK_INDEX), (''ON'', TK_ON),
     (''PRIMARY'', TK_PRIMARY), (''KEY'', TK_KEY), (''FOREIGN'', TK_FOREIGN),
     (''REFERENCES'', TK_REFERENCES), (''UNIQUE'', TK_UNIQUE), (''NOT'', TK_NOT),
     (''DEFAULT'', TK_DEFAULT), (''NULL'', TK_NULL_LITERAL), (''AND'', TK_AND), (''OR'', TK_OR),
     (''IN'', TK_IN), (''BETWEEN'', TK_BETWEEN), (''LIKE'', TK_LIKE), (''IS'', TK_IS),
     (''AS'', TK_AS), (''JOIN'', TK_JOIN), (''INNER'', TK_INNER), (''LEFT'', TK_LEFT),
     (''RIGHT'', TK_RIGHT), (''OUTER'', TK_OUTER), (''CROSS'', TK_CROSS), (''FULL'', TK_FULL),
     (''ORDER'', TK_ORDER), (''BY'', TK_BY), (''ASC'', TK_ASC), (''DESC'', TK_DESC),
     (''GROUP'', TK_GROUP), (''HAVING'', TK_HAVING), (''LIMIT'', TK_LIMIT),
     (''OFFSET'', TK_OFFSET), (''DISTINCT'', TK_DISTINCT), (''ALL'', TK_ALL),
     (''EXISTS'', TK_EXISTS), (''CASE'', TK_CASE), (''WHEN'', TK_WHEN), (''THEN'', TK_THEN),
     (''ELSE'', TK_ELSE), (''END'', TK_END), (''CAST'', TK_CAST), (''BEGIN'', TK_BEGIN),
     (''COMMIT'', TK_COMMIT), (''ROLLBACK'', TK_ROLLBACK), (''TRANSACTION'', TK_TRANSACTION),
     (''IF'', TK_IF), (''EXPLAIN'', TK_EXPLAIN), (''UNION'', TK_UNION),
     (''INTERSECT'', TK_INTERSECT), (''EXCEPT'', TK_EXCEPT), (''TRUE'', TK_TRUE),
     (''FALSE'', TK_FALSE), (''CHECK'', TK_CHECK), (''CONSTRAINT'', TK_CONSTRAINT),
     (''CASCADE'', TK_CASCADE), (''RESTRICT'', TK_RESTRICT),
     (''AUTOINCREMENT'', TK_AUTOINCREMENT), (''COUNT'', TK_COUNT), (''SUM'', TK_SUM),
     (''AVG'', TK_AVG), (''MIN'', TK_MIN), (''MAX'', TK_MAX), (''USING'', TK_USING),
     (''NATURAL'', TK_NATURAL)]"

record token =
  tok_type :: token_type
  tok_value :: string
  tok_line :: int
  tok_column :: int

definition mk_token :: "token_type \<Rightarrow> string \<Rightarrow> int \<times> int \<Rightarrow> token" where
  "mk_token ty v p = \<lparr>tok_type = ty, tok_value = v, tok_line = fst p, tok_column = snd p\<rparr>"

lemma mk_token_simps [simp]: "tok_type (mk_token ty v p) = ty" "tok_value (mk_token ty v p) = v"
  by (simp_all add: mk_token_def)

section \<open>Errors of the front end\<close>

datatype lex_fault =
    UnterminatedComment
  | UnterminatedString
  | UnterminatedQuoted
  | InvalidNumber
  | UnexpectedChar char

datatype sql_error =
    LexerError lex_fault int int
  | ParseError token
  | PyError pyerr
  | OutOfFuel

type_synonym 'a sql_result = "sql_error + 'a"

definition bind_sql :: "'a sql_result \<Rightarrow> ('a \<Rightarrow> 'b sql_result) \<Rightarrow> 'b sql_result" where
  "bind_sql r f = (case r of Inl e \<Rightarrow> Inl e | Inr x \<Rightarrow> f x)"

lemma bind_sql_simps [simp]: "bind_sql (Inl e) f = Inl e" "bind_sql (Inr x) f = f x"
  by (simp_all add: bind_sql_def)

lemma bind_sql_Inr_iff: "bind_sql r f = Inr y \<longleftrightarrow> (\<exists>x. r = Inr x \<and> f x = Inr y)"
  by (cases r) auto

section \<open>Character classes\<close>

definition py_isdigit :: "char \<Rightarrow> bool" where
  "py_isdigit c = (let n = of_char c :: nat in 48 \<le> n \<and> n \<le> 57 \<or> n = 178 \<or> n = 179 \<or> n = 185)"

definition py_isalpha :: "char \<Rightarrow> bool" where
  "py_isalpha c =
     (let n = of_char c :: nat
      in 65 \<le> n \<and> n \<le> 90 \<or> 97 \<le> n \<and> n \<le> 122 \<or> n = 170 \<or> n = 181 \<or> n = 186
         \<or> 192 \<le> n \<and> n \<noteq> 215 \<and> n \<noteq> 247)"

definition py_isalnum :: "char \<Rightarrow> bool" where
  "py_isalnum c =
     (let n = of_char c :: nat in py_isalpha c \<or> py_isdigit c \<or> 188 \<le> n \<and> n \<le> 190)"

definition upper_latin :: "char \<Rightarrow> string" where
  "upper_latin c =
     (let n = of_char c :: nat
      in if n = 223 then ''SS''
         else if 97 \<le> n \<and> n \<le> 122 \<or> 224 \<le> n \<and> n \<le> 254 \<and> n \<noteq> 247 then [char_of (n - 32)]
         else [c])"

definition str_upper :: "string \<Rightarrow> string" where
  "str_upper s = concat (map upper_latin s)"

definition is_space :: "char \<Rightarrow> bool" where
  "is_space c = (c \<in> set [CHR '' '', CHR 0x09, CHR 0x0D, CHR 0x0A])"

definition is_word :: "char \<Rightarrow> bool" where
  "is_word c = (py_isalnum c \<or> c = CHR ''_'')"

section \<open>Moving through the source\<close>

type_synonym lex_pos = "int \<times> int"

definition bump :: "char \<Rightarrow> lex_pos \<Rightarrow> lex_pos" where
  "bump c p = (if c = CHR 0x0A then (fst p + 1, 1) else (fst p, snd p + 1))"

definition bumps :: "string \<Rightarrow> lex_pos \<Rightarrow> lex_pos" where
  "bumps s p = fold bump s p"

fun lex_while :: "(char \<Rightarrow> bool) \<Rightarrow> string \<Rightarrow> lex_pos \<Rightarrow> string \<times> string \<times> lex_pos" where
  "lex_while P [] p = ([], [], p)"
| "lex_while P (c # cs) p =
     (if P c then (case lex_while P cs (bump c p) of (w, s, q) \<Rightarrow> (c # w, s, q))
      else ([], c # cs, p))"

definition skip_whitespace :: "string \<Rightarrow> lex_pos \<Rightarrow> string \<times> lex_pos" where
  "skip_whitespace s p = snd (lex_while is_space s p)"

definition skip_line_comment :: "string \<Rightarrow> lex_pos \<Rightarrow> string \<times> lex_pos" where
  "skip_line_comment s p = snd (lex_while (\<lambda>c. c \<noteq> CHR 0x0A) s p)"

fun block_comment :: "nat \<Rightarrow> string \<Rightarrow> lex_pos \<Rightarrow> (string \<times> lex_pos) sql_result" where
  "block_comment 0 s p = Inr (s, p)"
| "block_comment (Suc d) [] p = Inl (LexerError UnterminatedComment (fst p) (snd p))"
| "block_comment (Suc d) [c] p = block_comment (Suc d) [] (bump c p)"
| "block_comment (Suc d) (c # e # cs) p =
     (if c = CHR ''/'' \<and> e = CHR ''*'' then block_comment (Suc (Suc d)) cs (bump e (bump c p))
      else if c = CHR ''*'' \<and> e = CHR ''/'' then block_comment d cs (bump e (bump c p))
      else block_comment (Suc d) (e # cs) (bump c p))"

definition skip_block_comment :: "string \<Rightarrow> lex_pos \<Rightarrow> (string \<times> lex_pos) sql_result" where
  "skip_block_comment s p = block_comment 1 (drop 2 s) (bumps (take 2 s) p)"

section \<open>Literals and names\<close>

text \<open>The body of a string literal, after the opening quote: \<^const>\<open>None\<close> when
  the source ends before the closing quote.\<close>

abbreviation "QUOTE \<equiv> CHR 0x27"

fun string_body :: "string \<Rightarrow> lex_pos \<Rightarrow> (string \<times> string \<times> lex_pos) option" where
  "string_body [] p = None"
| "string_body [c] p = (if c = QUOTE then Some ([], [], bump c p) else None)"
| "string_body (c # d # cs) p =
     (if c = QUOTE then
        if d = QUOTE then
          (case string_body cs (bump d (bump c p)) of
             None \<Rightarrow> None | Some (w, s, q) \<Rightarrow> Some (QUOTE # w, s, q))
        else Some ([], d # cs, bump c p)
      else
        (case string_body (d # cs) (bump c p) of
           None \<Rightarrow> None | Some (w, s, q) \<Rightarrow> Some (c # w, s, q)))"

type_synonym lexed = "(token \<times> string \<times> lex_pos) sql_result"

definition read_string :: "char \<Rightarrow> string \<Rightarrow> lex_pos \<Rightarrow> lexed" where
  "read_string c cs p =
     (case string_body cs (bump c p) of
        None \<Rightarrow> Inl (LexerError UnterminatedString (fst p) (snd p))
      | Some (w, s, q) \<Rightarrow> Inr (mk_token TK_STRING_LITERAL w p, s, q))"

definition read_fraction :: "string \<Rightarrow> lex_pos \<Rightarrow> string \<times> string \<times> lex_pos" where
  "read_fraction s p =
     (case s of
        c # d # cs \<Rightarrow>
          if c = CHR ''.'' \<and> py_isdigit d then
            (case lex_while py_isdigit (d # cs) (bump c p) of (w, r, q) \<Rightarrow> (c # w, r, q))
          else ([], s, p)
      | _ \<Rightarrow> ([], s, p))"

definition read_exponent ::
  "lex_pos \<Rightarrow> string \<Rightarrow> lex_pos \<Rightarrow> (string \<times> string \<times> lex_pos) sql_result" where
  "read_exponent start s p =
     (case s of
        e # cs \<Rightarrow>
          if e = CHR ''e'' \<or> e = CHR ''E'' then
            (let (sign, s2, p2) =
               (case cs of
                  g # ds \<Rightarrow> if g = CHR ''+'' \<or> g = CHR ''-'' then ([g], ds, bump g (bump e p))
                            else ([], cs, bump e p)
                | [] \<Rightarrow> ([], cs, bump e p))
             in if s2 = [] \<or> \<not> py_isdigit (hd s2)
                then Inl (LexerError InvalidNumber (fst start) (snd start))
                else (case lex_while py_isdigit s2 p2 of
                        (w, r, q) \<Rightarrow> Inr (e # sign @ w, r, q)))
          else Inr ([], s, p)
      | [] \<Rightarrow> Inr ([], s, p))"

definition read_number :: "string \<Rightarrow> lex_pos \<Rightarrow> lexed" where
  "read_number s p =
     (let (w1, s1, p1) = lex_while py_isdigit s p;
          (w2, s2, p2) = read_fraction s1 p1
      in bind_sql (read_exponent p s2 p2) (\<lambda>(w3, s3, p3).
           Inr (mk_token (if w2 \<noteq> [] \<or> w3 \<noteq> [] then TK_FLOAT_LITERAL else TK_INTEGER_LITERAL)
                  (w1 @ w2 @ w3) p, s3, p3)))"

definition word_token :: "string \<Rightarrow> lex_pos \<Rightarrow> token" where
  "word_token w p =
     (case assoc_get (str_upper w) sql_keywords of
        Some ty \<Rightarrow>
          if str_upper w = ''TRUE'' then mk_token TK_BOOLEAN_LITERAL ''TRUE'' p
          else if str_upper w = ''FALSE'' then mk_token TK_BOOLEAN_LITERAL ''FALSE'' p
          else mk_token ty (str_upper w) p
      | None \<Rightarrow> mk_token TK_IDENTIFIER w p)"

definition read_identifier_or_keyword :: "string \<Rightarrow> lex_pos \<Rightarrow> token \<times> string \<times> lex_pos" where
  "read_identifier_or_keyword s p =
     (case lex_while is_word s p of (w, r, q) \<Rightarrow> (word_token w p, r, q))"

definition read_quoted_identifier :: "char \<Rightarrow> string \<Rightarrow> lex_pos \<Rightarrow> lexed" where
  "read_quoted_identifier c cs p =
     (case lex_while (\<lambda>d. d \<noteq> CHR 0x22) cs (bump c p) of
        (w, [], q) \<Rightarrow> Inl (LexerError UnterminatedQuoted (fst p) (snd p))
      | (w, d # r, q) \<Rightarrow> Inr (mk_token TK_QUOTED_IDENTIFIER w p, r, bump d q))"

section \<open>The main loop\<close>

definition two_char_map :: "(string \<times> token_type) list" where
  "two_char_map =
     [(''!='', TK_NOT_EQUALS), (''<>'', TK_NOT_EQUALS), (''<='', TK_LESS_EQUALS),
      (''>='', TK_GREATER_EQUALS), (''||'', TK_CONCAT)]"

definition single_char_map :: "(char \<times> token_type) list" where
  "single_char_map =
     [(CHR ''+'', TK_PLUS), (CHR ''-'', TK_MINUS), (CHR ''*'', TK_STAR), (CHR ''/'', TK_SLASH),
      (CHR ''%'', TK_PERCENT), (CHR ''='', TK_EQUALS), (CHR ''<'', TK_LESS),
      (CHR ''>'', TK_GREATER), (CHR ''('', TK_LPAREN), (CHR '')'', TK_RPAREN),
      (CHR '','', TK_COMMA), (CHR '';'', TK_SEMICOLON), (CHR ''.'', TK_DOT)]"

definition lex_operator :: "char \<Rightarrow> string \<Rightarrow> lex_pos \<Rightarrow> lexed" where
  "lex_operator c cs p =
     (case assoc_get (c # take 1 cs) two_char_map of
        Some ty \<Rightarrow> Inr (mk_token ty (c # take 1 cs) p, drop 1 cs, bumps (c # take 1 cs) p)
      | None \<Rightarrow>
          (case assoc_get c single_char_map of
             Some ty \<Rightarrow> Inr (mk_token ty [c] p, cs, bump c p)
           | None \<Rightarrow> Inl (LexerError (UnexpectedChar c) (fst p) (snd p))))"

text \<open>One turn of the loop of \<^verbatim>\<open>tokenize\<close> at a character that is not
  white space: the tokens it appends, none for a comment, and the source after it.\<close>

definition lex_one :: "char \<Rightarrow> string \<Rightarrow> lex_pos \<Rightarrow> (token list \<times> string \<times> lex_pos) sql_result" where
  "lex_one c cs p =
     (if c = CHR ''-'' \<and> take 1 cs = ''-'' then Inr ([], skip_line_comment (c # cs) p)
      else if c = CHR ''/'' \<and> take 1 cs = ''*'' then
        bind_sql (skip_block_comment (c # cs) p) (\<lambda>(s, q). Inr ([], s, q))
      else if c = QUOTE then bind_sql (read_string c cs p) (\<lambda>(t, s, q). Inr ([t], s, q))
      else if py_isdigit c then bind_sql (read_number (c # cs) p) (\<lambda>(t, s, q). Inr ([t], s, q))
      else if py_isalpha c \<or> c = CHR ''_'' then
        (case read_identifier_or_keyword (c # cs) p of (t, s, q) \<Rightarrow> Inr ([t], s, q))
      else if c = CHR 0x22 then
        bind_sql (read_quoted_identifier c cs p) (\<lambda>(t, s, q). Inr ([t], s, q))
      else bind_sql (lex_operator c cs p) (\<lambda>(t, s, q). Inr ([t], s, q)))"

lemma lex_while_takeWhile:
  "lex_while P s p = (takeWhile P s, dropWhile P s, bumps (takeWhile P s) p)"
  by (induction s arbitrary: p) (auto simp: bumps_def)

lemma skip_whitespace_length: "length (fst (skip_whitespace s p)) \<le> length s"
  by (simp add: skip_whitespace_def lex_while_takeWhile length_dropWhile_le)

lemma block_comment_length: "block_comment d s p = Inr (r, q) \<Longrightarrow> length r \<le> length s"
  by (induction d s p rule: block_comment.induct) (auto split: if_splits)

lemma string_body_length: "string_body s p = Some (w, r, q) \<Longrightarrow> length r \<le> length s"
  by (induction s p arbitrary: w r q rule: string_body.induct)
     (fastforce split: if_splits option.splits)+

lemma read_fraction_length: "read_fraction s p = (w, r, q) \<Longrightarrow> length r \<le> length s"
  by (auto simp: read_fraction_def lex_while_takeWhile length_dropWhile_le le_SucI
      split: list.splits if_splits)

lemma read_exponent_length: "read_exponent u s p = Inr (w, r, q) \<Longrightarrow> length r \<le> length s"
  by (auto simp: read_exponent_def Let_def lex_while_takeWhile length_dropWhile_le le_SucI
      split: list.splits if_splits)

lemma read_number_length:
  assumes "read_number (c # cs) p = Inr (t, r, q)" and "py_isdigit c"
  shows "length r \<le> length cs"
proof -
  define s1 where "s1 = dropWhile py_isdigit cs"
  obtain w2 s2 p2 where 2: "read_fraction s1 (bumps (takeWhile py_isdigit (c # cs)) p) = (w2, s2, p2)"
    by (cases "read_fraction s1 (bumps (takeWhile py_isdigit (c # cs)) p)") auto
  obtain w3 where 3: "read_exponent p s2 p2 = Inr (w3, r, q)"
    using assms 2 by (auto simp: read_number_def lex_while_takeWhile s1_def bind_sql_Inr_iff)
  show ?thesis
    using read_fraction_length [OF 2] read_exponent_length [OF 3]
      length_dropWhile_le [of py_isdigit cs] by (simp add: s1_def)
qed

lemma dropWhile_Cons_length: "dropWhile P s = c # r \<Longrightarrow> length r \<le> length s"
  using length_dropWhile_le [of P s] by simp

lemma reader_lengths:
  "read_string c cs p = Inr (t, r, q) \<Longrightarrow> length r \<le> length cs"
  "read_quoted_identifier c cs p = Inr (t, r, q) \<Longrightarrow> length r \<le> length cs"
  "lex_operator c cs p = Inr (t, r, q) \<Longrightarrow> length r \<le> length cs"
  by (auto simp: read_string_def read_quoted_identifier_def lex_operator_def lex_while_takeWhile
      dest: string_body_length dropWhile_Cons_length split: option.splits list.splits)

lemma read_word_length:
  "read_identifier_or_keyword (c # cs) p = (t, r, q) \<Longrightarrow> is_word c \<Longrightarrow> length r \<le> length cs"
  by (auto simp: read_identifier_or_keyword_def lex_while_takeWhile length_dropWhile_le)

lemma comment_lengths:
  "skip_line_comment (CHR ''-'' # cs) p = (r, q) \<Longrightarrow> length r \<le> length cs"
  "skip_block_comment (c # cs) p = Inr (r, q) \<Longrightarrow> length r \<le> length cs"
  by (auto simp: skip_line_comment_def skip_block_comment_def lex_while_takeWhile
      length_dropWhile_le dest: block_comment_length)

lemma lex_one_length: "lex_one c cs p = Inr (ts, r, q) \<Longrightarrow> length r \<le> length cs"
  unfolding lex_one_def
  by (auto simp: bind_sql_Inr_iff is_word_def py_isalnum_def
      dest: reader_lengths read_word_length comment_lengths read_number_length
      split: if_splits prod.splits)

function lex_loop :: "string \<Rightarrow> lex_pos \<Rightarrow> token list sql_result" where
  "lex_loop s p =
     (case skip_whitespace s p of
        ([], q) \<Rightarrow> Inr [mk_token TK_EOF [] q]
      | (c # cs, q) \<Rightarrow>
          (case lex_one c cs q of
             Inl e \<Rightarrow> Inl e
           | Inr (ts, r, u) \<Rightarrow> bind_sql (lex_loop r u) (\<lambda>rest. Inr (ts @ rest))))"
  by pat_completeness auto
termination
proof (relation "measure (\<lambda>(s, p). length s)", goal_cases)
  case (2 s p s' q c cs x ts y r u)
  then have "length r \<le> length cs" "Suc (length cs) \<le> length s"
    using lex_one_length [of c cs q ts r u] skip_whitespace_length [of s p] by (auto simp flip: 2(1))
  then show ?case by simp
qed simp

declare lex_loop.simps [simp del]

definition tokenize :: "string \<Rightarrow> token list sql_result" where
  "tokenize src = lex_loop src (1, 1)"

end
