(* ===== verification/Ast.thy ===== *)
theory Ast
  imports Lexer
begin

text \<open>
  The syntax trees, \<^verbatim>\<open>src/pysql/ast_nodes.py\<close>.  Expressions, table
  references and \<^verbatim>\<open>SELECT\<close> statements refer to one another; the constructors
  and their arguments are the source's classes and fields, in their order.  The select list
  mixes bare expressions and (expression, alias) pairs.
\<close>

section \<open>Operators\<close>

datatype binary_op_type =
    OP_ADD | OP_SUB | OP_MUL | OP_DIV | OP_MOD
  | OP_EQ | OP_NEQ | OP_LT | OP_GT | OP_LTE | OP_GTE
  | OP_AND | OP_OR
  | OP_CONCAT

datatype unary_op_type = OP_NOT | OP_NEGATE

datatype join_type = J_INNER | J_LEFT | J_RIGHT | J_FULL | J_CROSS | J_NATURAL

section \<open>Expressions, table references and queries\<close>

datatype expr =
    Literal pyval string
  | ColumnRef string "string option"
  | BinaryOp binary_op_type expr expr
  | UnaryOp unary_op_type expr
  | FunctionCall string "expr list" bool bool
  | StarExpr "string option"
  | BetweenExpr expr expr expr bool
  | InExpr expr "expr list" "select option" bool
  | LikeExpr expr expr bool
  | IsNullExpr expr bool
  | CaseExpr "expr option" "(expr \<times> expr) list" "expr option"
  | CastExpr expr string
  | ExistsExpr select
  | SubqueryExpr select
and table_ref =
    SimpleTableRef string "string option"
  | JoinTableRef table_ref table_ref join_type "expr option" "string list option"
  | SubqueryTableRef select string
and select_item = PlainItem expr | AliasItem expr string
and order_by_item = OrderByItem expr bool
and select =
    SelectStatement "select_item list" "table_ref option" "expr option" "expr list option"
      "expr option" "order_by_item list option" "int option" "int option" bool

text \<open>The constructor of a call marks the five aggregate functions by their name.\<close>

definition aggregate_names :: "string list" where
  "aggregate_names = [''COUNT'', ''SUM'', ''AVG'', ''MIN'', ''MAX'']"

definition function_call :: "string \<Rightarrow> expr list \<Rightarrow> bool \<Rightarrow> bool \<Rightarrow> expr" where
  "function_call name args dis agg =
     FunctionCall name args dis (agg \<or> str_upper name \<in> set aggregate_names)"

section \<open>Definitions and statements\<close>

datatype constraint_type =
    C_PRIMARY_KEY | C_NOT_NULL | C_UNIQUE | C_DEFAULT | C_CHECK | C_FOREIGN_KEY | C_AUTOINCREMENT

text \<open>The \<^verbatim>\<open>value\<close> of a constraint: absent, an expression, the columns of a
  table-level key, or the referencing column.\<close>

datatype constraint_value = CV_None | CV_Expr expr | CV_Columns "string list" | CV_Column string

record sql_constraint =
  con_type :: constraint_type
  con_value :: constraint_value
  con_references_table :: "string option"
  con_references_column :: "string option"

definition mk_constraint :: "constraint_type \<Rightarrow> constraint_value \<Rightarrow> sql_constraint" where
  "mk_constraint ty v = \<lparr>con_type = ty, con_value = v, con_references_table = None,
     con_references_column = None\<rparr>"

record column_def =
  cd_name :: string
  cd_data_type :: string
  cd_constraints :: "sql_constraint list"

definition has_constraint :: "constraint_type \<Rightarrow> column_def \<Rightarrow> bool" where
  "has_constraint ty c = list_ex (\<lambda>k. con_type k = ty) (cd_constraints c)"

definition is_primary_key :: "column_def \<Rightarrow> bool" where
  "is_primary_key = has_constraint C_PRIMARY_KEY"

definition is_not_null :: "column_def \<Rightarrow> bool" where
  "is_not_null = has_constraint C_NOT_NULL"

definition is_unique :: "column_def \<Rightarrow> bool" where
  "is_unique = has_constraint C_UNIQUE"

definition is_autoincrement :: "column_def \<Rightarrow> bool" where
  "is_autoincrement = has_constraint C_AUTOINCREMENT"

definition default_value :: "column_def \<Rightarrow> constraint_value" where
  "default_value c =
     (case List.find (\<lambda>k. con_type k = C_DEFAULT) (cd_constraints c) of
        Some k \<Rightarrow> con_value k | None \<Rightarrow> CV_None)"

datatype statement =
    Select select
  | InsertStatement string "string list option" "expr list list"
  | UpdateStatement string "(string \<times> expr) list" "expr option"
  | DeleteStatement string "expr option"
  | CreateTableStatement string "column_def list" bool "sql_constraint list"
  | DropTableStatement string bool bool
  | CreateIndexStatement string string "string list" bool bool
  | ExplainStatement statement
  | BeginStatement
  | CommitStatement
  | RollbackStatement

end
