(* ===== verification/Parser.thy ===== *)
theory Parser
  imports Ast
begin

text \<open>
  The recursive-descent parser of \<^verbatim>\<open>src/pysql/parser.py\<close> for expressions,
  table references and queries.  The tokens from the current index on stand for the token list
  and the index; the last one, \<^verbatim>\<open>EOF\<close>, is never passed, as the source's
  \<^verbatim>\<open>_current\<close> returns it forever.  A method of the parser is a function from
  the tokens to a result and the tokens left.  The methods call one another through
  \<open>pe\<close>, the parser of whole expressions, and \<open>ps\<close>, the parser of queries;
  \<open>pexpr\<close> and \<open>psel\<close> tie the knot with a bound on the nesting, and the
  loops are bounded by the number of tokens.  \<^verbatim>\<open>Parser_Spec\<close> proves that the
  bounds are never met.
\<close>

section \<open>The token stream\<close>

type_synonym 'a parser = "token list \<Rightarrow> ('a \<times> token list) sql_result"

definition current :: "token list \<Rightarrow> token" where
  "current ts = hd ts"

definition advance :: "token list \<Rightarrow> token list" where
  "advance ts = (case ts of t # u # us \<Rightarrow> u # us | _ \<Rightarrow> ts)"

definition peek :: "token list \<Rightarrow> token" where
  "peek ts = (case ts of t # u # us \<Rightarrow> u | _ \<Rightarrow> hd ts)"

definition at :: "token_type \<Rightarrow> token list \<Rightarrow> bool" where
  "at ty ts = (tok_type (current ts) = ty)"

definition at_any :: "token_type list \<Rightarrow> token list \<Rightarrow> bool" where
  "at_any tys ts = (tok_type (current ts) \<in> set tys)"

definition expect :: "token_type \<Rightarrow> token parser" where
  "expect ty ts = (if at ty ts then Inr (current ts, advance ts) else Inl (ParseError (current ts)))"

definition match_opt :: "token_type \<Rightarrow> token list \<Rightarrow> bool \<times> token list" where
  "match_opt ty ts = (if at ty ts then (True, advance ts) else (False, ts))"

text \<open>An optional clause: when the current token is \<open>ty\<close>, take it and parse the
  rest of the clause.\<close>

definition optional :: "token_type \<Rightarrow> 'a parser \<Rightarrow> 'a option parser" where
  "optional ty p ts =
     (if at ty ts then bind_sql (p (advance ts)) (\<lambda>(x, ts). Inr (Some x, ts)) else Inr (None, ts))"

text \<open>The \<^verbatim>\<open>while True: ...; if not self._match(COMMA): break\<close> loops.\<close>

fun sep_loop :: "nat \<Rightarrow> 'a parser \<Rightarrow> 'a list parser" where
  "sep_loop 0 p ts = Inl OutOfFuel"
| "sep_loop (Suc n) p ts =
     bind_sql (p ts) (\<lambda>(x, ts).
       if at TK_COMMA ts then bind_sql (sep_loop n p (advance ts)) (\<lambda>(xs, ts). Inr (x # xs, ts))
       else Inr ([x], ts))"

definition comma_list :: "'a parser \<Rightarrow> 'a list parser" where
  "comma_list p ts = sep_loop (length ts) p ts"

definition name_list :: "string list parser" where
  "name_list = comma_list (\<lambda>ts. bind_sql (expect TK_IDENTIFIER ts) (\<lambda>(t, ts). Inr (tok_value t, ts)))"

definition in_parens :: "'a parser \<Rightarrow> 'a parser" where
  "in_parens p ts =
     bind_sql (expect TK_LPAREN ts) (\<lambda>(_, ts). bind_sql (p ts) (\<lambda>(x, ts).
     bind_sql (expect TK_RPAREN ts) (\<lambda>(_, ts). Inr (x, ts))))"

section \<open>Literals\<close>

text \<open>\<^verbatim>\<open>int()\<close> of a run of digit characters: the superscripts the lexer lets
  through are not decimal digits, and CPython refuses more than 4300 digits.\<close>

definition is_decimal :: "char \<Rightarrow> bool" where
  "is_decimal c = (48 \<le> (of_char c :: nat) \<and> (of_char c :: nat) \<le> 57)"

definition digits_value :: "string \<Rightarrow> nat" where
  "digits_value s = foldl (\<lambda>n c. 10 * n + (of_char c - 48)) 0 s"

definition int_literal :: "string \<Rightarrow> int sql_result" where
  "int_literal s =
     (if s \<noteq> [] \<and> list_all is_decimal s \<and> length s \<le> 4300 then Inr (int (digits_value s))
      else Inl (PyError ValueError))"

definition float_literal :: "py_runtime \<Rightarrow> string \<Rightarrow> 64 word sql_result" where
  "float_literal rt s =
     (case rt_float_of_str rt s of Some f \<Rightarrow> Inr f | None \<Rightarrow> Inl (PyError ValueError))"

section \<open>Operators, by precedence\<close>

fun binary_loop :: "nat \<Rightarrow> (token_type \<times> binary_op_type) list \<Rightarrow> expr parser \<Rightarrow> expr \<Rightarrow> expr parser" where
  "binary_loop 0 ops p left ts = Inl OutOfFuel"
| "binary_loop (Suc n) ops p left ts =
     (case assoc_get (tok_type (current ts)) ops of
        None \<Rightarrow> Inr (left, ts)
      | Some op \<Rightarrow>
          bind_sql (p (advance ts)) (\<lambda>(right, ts). binary_loop n ops p (BinaryOp op left right) ts))"

definition left_assoc :: "(token_type \<times> binary_op_type) list \<Rightarrow> expr parser \<Rightarrow> expr parser" where
  "left_assoc ops p ts = bind_sql (p ts) (\<lambda>(left, ts). binary_loop (length ts) ops p left ts)"

definition parse_expression_list :: "expr parser \<Rightarrow> expr list parser" where
  "parse_expression_list pe = comma_list pe"

definition parse_aggregate_function :: "expr parser \<Rightarrow> expr parser" where
  "parse_aggregate_function pe ts =
     bind_sql (expect TK_LPAREN (advance ts)) (\<lambda>(_, us).
     bind_sql
       (if at TK_STAR us then Inr (([StarExpr None], False), advance us)
        else let (dis, us) = match_opt TK_DISTINCT us
             in if \<not> at TK_RPAREN us
                then bind_sql (parse_expression_list pe us) (\<lambda>(args, us). Inr ((args, dis), us))
                else Inr (([], dis), us)) (\<lambda>((args, dis), us).
     bind_sql (expect TK_RPAREN us) (\<lambda>(_, us).
     Inr (function_call (tok_value (current ts)) args dis True, us))))"

fun when_loop :: "nat \<Rightarrow> expr parser \<Rightarrow> (expr \<times> expr) list parser" where
  "when_loop 0 pe ts = Inl OutOfFuel"
| "when_loop (Suc n) pe ts =
     (if at TK_WHEN ts then
        bind_sql (pe (advance ts)) (\<lambda>(condition, ts).
        bind_sql (expect TK_THEN ts) (\<lambda>(_, ts).
        bind_sql (pe ts) (\<lambda>(res, ts).
        bind_sql (when_loop n pe ts) (\<lambda>(ws, ts). Inr ((condition, res) # ws, ts)))))
      else Inr ([], ts))"

definition parse_case_expr :: "expr parser \<Rightarrow> expr parser" where
  "parse_case_expr pe ts =
     bind_sql (if at TK_WHEN ts then Inr (None, ts)
               else bind_sql (pe ts) (\<lambda>(e, ts). Inr (Some e, ts))) (\<lambda>(operand, ts).
     bind_sql (when_loop (length ts) pe ts) (\<lambda>(whens, ts).
     bind_sql (optional TK_ELSE pe ts) (\<lambda>(els, ts).
     bind_sql (expect TK_END ts) (\<lambda>(_, ts). Inr (CaseExpr operand whens els, ts)))))"

text \<open>A type name, possibly with a length: \<^verbatim>\<open>VARCHAR(100)\<close>.\<close>

definition parse_type_name :: "string parser" where
  "parse_type_name ts =
     (let name = tok_value (current ts); ts = advance ts
      in if at TK_LPAREN ts then
           bind_sql (expect TK_INTEGER_LITERAL (advance ts)) (\<lambda>(param, ts).
           bind_sql (expect TK_RPAREN ts) (\<lambda>(_, ts).
           Inr (name @ ''('' @ tok_value param @ '')'', ts)))
         else Inr (name, ts))"

definition parse_cast_expr :: "expr parser \<Rightarrow> expr parser" where
  "parse_cast_expr pe ts =
     bind_sql (expect TK_LPAREN ts) (\<lambda>(_, ts).
     bind_sql (pe ts) (\<lambda>(e, ts).
     bind_sql (expect TK_AS ts) (\<lambda>(_, ts).
     bind_sql (parse_type_name ts) (\<lambda>(ty, ts).
     bind_sql (expect TK_RPAREN ts) (\<lambda>(_, ts). Inr (CastExpr e ty, ts))))))"

text \<open>After an identifier: a call, a qualified column, or a column.\<close>

definition parse_name :: "expr parser \<Rightarrow> string \<Rightarrow> expr parser" where
  "parse_name pe name ts =
     (if at TK_LPAREN ts then
        let ts = advance ts
        in bind_sql
             (if \<not> at TK_RPAREN ts then
                let (dis, ts) = match_opt TK_DISTINCT ts
                in bind_sql (parse_expression_list pe ts) (\<lambda>(args, ts). Inr ((args, dis), ts))
              else Inr (([], False), ts)) (\<lambda>((args, dis), ts).
           bind_sql (expect TK_RPAREN ts) (\<lambda>(_, ts).
           Inr (function_call name args dis False, ts)))
      else if at TK_DOT ts then
        Inr (ColumnRef (tok_value (current (advance ts))) (Some name), advance (advance ts))
      else Inr (ColumnRef name None, ts))"

definition parse_primary :: "py_runtime \<Rightarrow> expr parser \<Rightarrow> select parser \<Rightarrow> expr parser" where
  "parse_primary rt pe ps ts =
     (let v = tok_value (current ts); us = advance ts
      in if at TK_NULL_LITERAL ts then Inr (Literal VNone ''null'', us)
      else if at TK_BOOLEAN_LITERAL ts then Inr (Literal (VBool (v = ''TRUE'')) ''boolean'', us)
      else if at TK_INTEGER_LITERAL ts then
        bind_sql (int_literal v) (\<lambda>i. Inr (Literal (VInt i) ''integer'', us))
      else if at TK_FLOAT_LITERAL ts then
        bind_sql (float_literal rt v) (\<lambda>f. Inr (Literal (VFloat f) ''float'', us))
      else if at TK_STRING_LITERAL ts then Inr (Literal (VStr v) ''string'', us)
      else if at TK_CASE ts then parse_case_expr pe us
      else if at TK_CAST ts then parse_cast_expr pe us
      else if at TK_EXISTS ts then
        bind_sql (in_parens ps us) (\<lambda>(q, us). Inr (ExistsExpr q, us))
      else if at_any [TK_COUNT, TK_SUM, TK_AVG, TK_MIN, TK_MAX] ts then parse_aggregate_function pe ts
      else if at TK_LPAREN ts then
        if at TK_SELECT us then
          bind_sql (ps us) (\<lambda>(q, us).
          bind_sql (expect TK_RPAREN us) (\<lambda>(_, us). Inr (SubqueryExpr q, us)))
        else
          bind_sql (pe us) (\<lambda>(e, us).
          bind_sql (expect TK_RPAREN us) (\<lambda>(_, us). Inr (e, us)))
      else if at_any [TK_IDENTIFIER, TK_QUOTED_IDENTIFIER] ts then parse_name pe v us
      else if at TK_STAR ts then Inr (StarExpr None, us)
      else Inl (ParseError (current ts)))"

text \<open>A list of one token is \<^verbatim>\<open>[EOF]\<close>, which starts no prefix operator.\<close>

fun parse_unary :: "py_runtime \<Rightarrow> expr parser \<Rightarrow> select parser \<Rightarrow> expr parser" where
  "parse_unary rt pe ps (t # u # us) =
     (if tok_type t = TK_MINUS then
        bind_sql (parse_unary rt pe ps (u # us)) (\<lambda>(e, ts). Inr (UnaryOp OP_NEGATE e, ts))
      else parse_primary rt pe ps (t # u # us))"
| "parse_unary rt pe ps ts = parse_primary rt pe ps ts"

definition mul_ops :: "(token_type \<times> binary_op_type) list" where
  "mul_ops = [(TK_STAR, OP_MUL), (TK_SLASH, OP_DIV), (TK_PERCENT, OP_MOD)]"

definition parse_multiplication :: "py_runtime \<Rightarrow> expr parser \<Rightarrow> select parser \<Rightarrow> expr parser" where
  "parse_multiplication rt pe ps = left_assoc mul_ops (parse_unary rt pe ps)"

definition add_ops :: "(token_type \<times> binary_op_type) list" where
  "add_ops = [(TK_PLUS, OP_ADD), (TK_MINUS, OP_SUB), (TK_CONCAT, OP_CONCAT)]"

definition parse_addition :: "py_runtime \<Rightarrow> expr parser \<Rightarrow> select parser \<Rightarrow> expr parser" where
  "parse_addition rt pe ps = left_assoc add_ops (parse_multiplication rt pe ps)"

definition comparison_ops :: "(token_type \<times> binary_op_type) list" where
  "comparison_ops =
     [(TK_EQUALS, OP_EQ), (TK_NOT_EQUALS, OP_NEQ), (TK_LESS, OP_LT), (TK_GREATER, OP_GT),
      (TK_LESS_EQUALS, OP_LTE), (TK_GREATER_EQUALS, OP_GTE)]"

definition parse_in_list :: "expr parser \<Rightarrow> select parser \<Rightarrow> expr \<Rightarrow> bool \<Rightarrow> expr parser" where
  "parse_in_list pe ps left negated ts =
     bind_sql (expect TK_LPAREN ts) (\<lambda>(_, ts).
     if at TK_SELECT ts then
       bind_sql (ps ts) (\<lambda>(q, ts).
       bind_sql (expect TK_RPAREN ts) (\<lambda>(_, ts). Inr (InExpr left [] (Some q) negated, ts)))
     else
       bind_sql (parse_expression_list pe ts) (\<lambda>(vs, ts).
       bind_sql (expect TK_RPAREN ts) (\<lambda>(_, ts). Inr (InExpr left vs None negated, ts))))"

text \<open>The part of a comparison after its left operand.\<close>

definition parse_comparison_tail ::
  "expr parser \<Rightarrow> select parser \<Rightarrow> expr parser \<Rightarrow> expr \<Rightarrow> expr parser" where
  "parse_comparison_tail pe ps pa left ts =
     (if at TK_IS ts then
        let (negated, ts) = match_opt TK_NOT (advance ts)
        in bind_sql (expect TK_NULL_LITERAL ts) (\<lambda>(_, ts). Inr (IsNullExpr left negated, ts))
      else
        let negated = (at TK_NOT ts \<and> tok_type (peek ts) \<in> set [TK_BETWEEN, TK_IN, TK_LIKE]);
            ts = (if negated then advance ts else ts)
        in if at TK_BETWEEN ts then
             bind_sql (pa (advance ts)) (\<lambda>(low, ts).
             bind_sql (expect TK_AND ts) (\<lambda>(_, ts).
             bind_sql (pa ts) (\<lambda>(high, ts). Inr (BetweenExpr left low high negated, ts))))
           else if at TK_IN ts then parse_in_list pe ps left negated (advance ts)
           else if at TK_LIKE ts then
             bind_sql (pa (advance ts)) (\<lambda>(pat, ts). Inr (LikeExpr left pat negated, ts))
           else
             (case assoc_get (tok_type (current ts)) comparison_ops of
                Some op \<Rightarrow>
                  bind_sql (pa (advance ts)) (\<lambda>(right, ts). Inr (BinaryOp op left right, ts))
              | None \<Rightarrow> Inr (left, ts)))"

definition parse_comparison :: "py_runtime \<Rightarrow> expr parser \<Rightarrow> select parser \<Rightarrow> expr parser" where
  "parse_comparison rt pe ps ts =
     bind_sql (parse_addition rt pe ps ts) (\<lambda>(left, ts).
       parse_comparison_tail pe ps (parse_addition rt pe ps) left ts)"

fun parse_not_expr :: "py_runtime \<Rightarrow> expr parser \<Rightarrow> select parser \<Rightarrow> expr parser" where
  "parse_not_expr rt pe ps (t # u # us) =
     (if tok_type t = TK_NOT then
        bind_sql (parse_not_expr rt pe ps (u # us)) (\<lambda>(e, ts). Inr (UnaryOp OP_NOT e, ts))
      else parse_comparison rt pe ps (t # u # us))"
| "parse_not_expr rt pe ps ts = parse_comparison rt pe ps ts"

definition parse_and_expr :: "py_runtime \<Rightarrow> expr parser \<Rightarrow> select parser \<Rightarrow> expr parser" where
  "parse_and_expr rt pe ps = left_assoc [(TK_AND, OP_AND)] (parse_not_expr rt pe ps)"

definition parse_or_expr :: "py_runtime \<Rightarrow> expr parser \<Rightarrow> select parser \<Rightarrow> expr parser" where
  "parse_or_expr rt pe ps = left_assoc [(TK_OR, OP_OR)] (parse_and_expr rt pe ps)"

section \<open>Table references\<close>

definition alias_stops :: "token_type list" where
  "alias_stops =
     [TK_JOIN, TK_INNER, TK_LEFT, TK_RIGHT, TK_FULL, TK_CROSS, TK_NATURAL, TK_ON, TK_WHERE,
      TK_GROUP, TK_ORDER, TK_LIMIT, TK_HAVING, TK_SET]"

definition parse_table_alias :: "string option parser" where
  "parse_table_alias ts =
     (if at TK_AS ts then
        bind_sql (expect TK_IDENTIFIER (advance ts)) (\<lambda>(t, ts). Inr (Some (tok_value t), ts))
      else if at TK_IDENTIFIER ts \<and> \<not> at_any alias_stops ts then
        Inr (Some (tok_value (current ts)), advance ts)
      else Inr (None, ts))"

definition parse_subquery_alias :: "string parser" where
  "parse_subquery_alias ts =
     (if at TK_AS ts then
        bind_sql (expect TK_IDENTIFIER (advance ts)) (\<lambda>(t, ts). Inr (tok_value t, ts))
      else if at TK_IDENTIFIER ts then Inr (tok_value (current ts), advance ts)
      else Inr ([], ts))"

definition parse_primary_table_ref :: "select parser \<Rightarrow> table_ref parser" where
  "parse_primary_table_ref ps ts =
     (if at TK_LPAREN ts then
        let ts = advance ts
        in if at TK_SELECT ts then
             bind_sql (ps ts) (\<lambda>(q, ts).
             bind_sql (expect TK_RPAREN ts) (\<lambda>(_, ts).
             bind_sql (parse_subquery_alias ts) (\<lambda>(a, ts). Inr (SubqueryTableRef q a, ts))))
           else Inl (ParseError (current ts))
      else
        bind_sql (expect TK_IDENTIFIER ts) (\<lambda>(t, ts).
        bind_sql (parse_table_alias ts) (\<lambda>(a, ts). Inr (SimpleTableRef (tok_value t) a, ts))))"

definition parse_join_type :: "join_type parser" where
  "parse_join_type ts =
     (if at TK_NATURAL ts then Inr (J_NATURAL, snd (match_opt TK_JOIN (advance ts)))
      else if at TK_CROSS ts then bind_sql (expect TK_JOIN (advance ts)) (\<lambda>(_, ts). Inr (J_CROSS, ts))
      else if at TK_INNER ts then bind_sql (expect TK_JOIN (advance ts)) (\<lambda>(_, ts). Inr (J_INNER, ts))
      else if at TK_LEFT ts then
        bind_sql (expect TK_JOIN (snd (match_opt TK_OUTER (advance ts)))) (\<lambda>(_, ts). Inr (J_LEFT, ts))
      else if at TK_RIGHT ts then
        bind_sql (expect TK_JOIN (snd (match_opt TK_OUTER (advance ts)))) (\<lambda>(_, ts). Inr (J_RIGHT, ts))
      else if at TK_FULL ts then
        bind_sql (expect TK_JOIN (snd (match_opt TK_OUTER (advance ts)))) (\<lambda>(_, ts). Inr (J_FULL, ts))
      else if at TK_JOIN ts then Inr (J_INNER, advance ts)
      else Inl (ParseError (current ts)))"

definition parse_join_condition :: "expr parser \<Rightarrow> (expr option \<times> string list option) parser" where
  "parse_join_condition pe ts =
     (if at TK_ON ts then bind_sql (pe (advance ts)) (\<lambda>(e, ts). Inr ((Some e, None), ts))
      else if at TK_USING ts then
        bind_sql (in_parens name_list (advance ts)) (\<lambda>(cols, ts). Inr ((None, Some cols), ts))
      else Inr ((None, None), ts))"

definition join_starts :: "token_type list" where
  "join_starts =
     [TK_JOIN, TK_INNER, TK_LEFT, TK_RIGHT, TK_FULL, TK_CROSS, TK_NATURAL, TK_COMMA]"

fun join_loop :: "nat \<Rightarrow> expr parser \<Rightarrow> select parser \<Rightarrow> table_ref \<Rightarrow> table_ref parser" where
  "join_loop 0 pe ps left ts = Inl OutOfFuel"
| "join_loop (Suc n) pe ps left ts =
     (if \<not> at_any join_starts ts then Inr (left, ts)
      else if at TK_COMMA ts then
        bind_sql (parse_primary_table_ref ps (advance ts)) (\<lambda>(right, ts).
        join_loop n pe ps (JoinTableRef left right J_CROSS None None) ts)
      else
        bind_sql (parse_join_type ts) (\<lambda>(jt, ts).
        bind_sql (parse_primary_table_ref ps ts) (\<lambda>(right, ts).
        bind_sql (parse_join_condition pe ts) (\<lambda>((condition, using_columns), ts).
        join_loop n pe ps (JoinTableRef left right jt condition using_columns) ts))))"

definition parse_table_ref :: "expr parser \<Rightarrow> select parser \<Rightarrow> table_ref parser" where
  "parse_table_ref pe ps ts =
     bind_sql (parse_primary_table_ref ps ts) (\<lambda>(left, ts). join_loop (length ts) pe ps left ts)"

section \<open>Queries\<close>

definition select_alias_stops :: "token_type list" where
  "select_alias_stops =
     [TK_FROM, TK_WHERE, TK_GROUP, TK_ORDER, TK_LIMIT, TK_JOIN, TK_INNER, TK_LEFT, TK_RIGHT,
      TK_FULL, TK_CROSS, TK_NATURAL, TK_ON, TK_HAVING]"

definition mk_item :: "expr \<Rightarrow> string \<Rightarrow> select_item" where
  "mk_item e alias = (if alias \<noteq> [] then AliasItem e alias else PlainItem e)"

definition parse_item_alias :: "expr \<Rightarrow> select_item parser" where
  "parse_item_alias e ts =
     (if at TK_AS ts then
        bind_sql (expect TK_IDENTIFIER (advance ts)) (\<lambda>(t, ts). Inr (mk_item e (tok_value t), ts))
      else if at TK_IDENTIFIER ts \<and> \<not> at_any select_alias_stops ts then
        Inr (mk_item e (tok_value (current ts)), advance ts)
      else Inr (PlainItem e, ts))"

definition parse_select_item :: "expr parser \<Rightarrow> select_item parser" where
  "parse_select_item pe ts =
     (if at TK_STAR ts then Inr (PlainItem (StarExpr None), advance ts)
      else
        bind_sql (pe ts) (\<lambda>(e, ts).
        case e of
          ColumnRef c tbl \<Rightarrow>
            if at TK_DOT ts then
              if at TK_STAR (advance ts) then
                Inr (PlainItem (StarExpr (Some c)), advance (advance ts))
              else parse_item_alias e (advance ts)
            else parse_item_alias e ts
        | _ \<Rightarrow> parse_item_alias e ts))"

definition parse_select_list :: "expr parser \<Rightarrow> select_item list parser" where
  "parse_select_list pe = comma_list (parse_select_item pe)"

definition parse_order_item :: "expr parser \<Rightarrow> order_by_item parser" where
  "parse_order_item pe ts =
     bind_sql (pe ts) (\<lambda>(e, ts).
     if at TK_DESC ts then Inr (OrderByItem e True, advance ts)
     else if at TK_ASC ts then Inr (OrderByItem e False, advance ts)
     else Inr (OrderByItem e False, ts))"

definition parse_order_by_list :: "expr parser \<Rightarrow> order_by_item list parser" where
  "parse_order_by_list pe = comma_list (parse_order_item pe)"

definition by_clause :: "'a parser \<Rightarrow> 'a parser" where
  "by_clause p ts = bind_sql (expect TK_BY ts) (\<lambda>(_, ts). p ts)"

definition parse_count :: "int parser" where
  "parse_count ts =
     bind_sql (expect TK_INTEGER_LITERAL ts) (\<lambda>(t, ts).
     bind_sql (int_literal (tok_value t)) (\<lambda>i. Inr (i, ts)))"

definition parse_limit :: "(int \<times> int option) parser" where
  "parse_limit ts =
     bind_sql (parse_count ts) (\<lambda>(limit, ts).
     bind_sql (optional TK_OFFSET parse_count ts) (\<lambda>(offset, ts). Inr ((limit, offset), ts)))"

definition parse_select :: "expr parser \<Rightarrow> select parser \<Rightarrow> select parser" where
  "parse_select pe ps ts =
     bind_sql (expect TK_SELECT ts) (\<lambda>(_, ts).
     let (distinct, ts) = match_opt TK_DISTINCT ts
     in bind_sql (parse_select_list pe ts) (\<lambda>(columns, ts).
        bind_sql (optional TK_FROM (parse_table_ref pe ps) ts) (\<lambda>(from_clause, ts).
        bind_sql (optional TK_WHERE pe ts) (\<lambda>(whr, ts).
        bind_sql (optional TK_GROUP (by_clause (parse_expression_list pe)) ts) (\<lambda>(group_by, ts).
        bind_sql (optional TK_HAVING pe ts) (\<lambda>(having, ts).
        bind_sql (optional TK_ORDER (by_clause (parse_order_by_list pe)) ts) (\<lambda>(order_by, ts).
        bind_sql (optional TK_LIMIT parse_limit ts) (\<lambda>(lim, ts).
        Inr (SelectStatement columns from_clause whr group_by having order_by
               (map_option fst lim) (Option.bind lim snd) distinct, ts)))))))))"

section \<open>Tying the knot\<close>

fun pexpr :: "py_runtime \<Rightarrow> nat \<Rightarrow> expr parser"
and psel :: "py_runtime \<Rightarrow> nat \<Rightarrow> select parser" where
  "pexpr rt 0 ts = Inl OutOfFuel"
| "pexpr rt (Suc n) ts = parse_or_expr rt (pexpr rt n) (psel rt n) ts"
| "psel rt 0 ts = Inl OutOfFuel"
| "psel rt (Suc n) ts = parse_select (pexpr rt n) (psel rt n) ts"

definition parse_expression :: "py_runtime \<Rightarrow> expr parser" where
  "parse_expression rt ts = pexpr rt (length ts) ts"

definition parse_query :: "py_runtime \<Rightarrow> select parser" where
  "parse_query rt ts = psel rt (length ts) ts"

end
