(* ===== verification/Parser_Statements.thy ===== *)
theory Parser_Statements
  imports Parser
begin

text \<open>
  The statements of \<^verbatim>\<open>src/pysql/parser.py\<close>: \<^verbatim>\<open>INSERT\<close>,
  \<^verbatim>\<open>UPDATE\<close>, \<^verbatim>\<open>DELETE\<close>, the definition statements with
  their column and table constraints, \<^verbatim>\<open>EXPLAIN\<close>, transaction control, and
  the loop over a whole source.  A method that parses expressions takes the parser of
  expressions as \<open>pe\<close>; the entry points instantiate it.
\<close>

section \<open>Data statements\<close>

definition parse_identifier :: "string parser" where
  "parse_identifier ts = bind_sql (expect TK_IDENTIFIER ts) (\<lambda>(t, ts). Inr (tok_value t, ts))"

definition parse_insert :: "expr parser \<Rightarrow> statement parser" where
  "parse_insert pe ts =
     bind_sql (expect TK_INSERT ts) (\<lambda>(_, ts).
     bind_sql (expect TK_INTO ts) (\<lambda>(_, ts).
     bind_sql (parse_identifier ts) (\<lambda>(table, ts).
     bind_sql (if at TK_LPAREN ts then
                 bind_sql (in_parens name_list ts) (\<lambda>(cs, ts). Inr (Some cs, ts))
               else Inr (None, ts)) (\<lambda>(columns, ts).
     bind_sql (expect TK_VALUES ts) (\<lambda>(_, ts).
     bind_sql (comma_list (in_parens (comma_list pe)) ts) (\<lambda>(values, ts).
     Inr (InsertStatement table columns values, ts)))))))"

definition parse_assignment :: "expr parser \<Rightarrow> (string \<times> expr) parser" where
  "parse_assignment pe ts =
     bind_sql (parse_identifier ts) (\<lambda>(col, ts).
     bind_sql (expect TK_EQUALS ts) (\<lambda>(_, ts).
     bind_sql (pe ts) (\<lambda>(e, ts). Inr ((col, e), ts))))"

definition parse_update :: "expr parser \<Rightarrow> statement parser" where
  "parse_update pe ts =
     bind_sql (expect TK_UPDATE ts) (\<lambda>(_, ts).
     bind_sql (parse_identifier ts) (\<lambda>(table, ts).
     bind_sql (expect TK_SET ts) (\<lambda>(_, ts).
     bind_sql (comma_list (parse_assignment pe) ts) (\<lambda>(assignments, ts).
     bind_sql (optional TK_WHERE pe ts) (\<lambda>(whr, ts).
     Inr (UpdateStatement table assignments whr, ts))))))"

definition parse_delete :: "expr parser \<Rightarrow> statement parser" where
  "parse_delete pe ts =
     bind_sql (expect TK_DELETE ts) (\<lambda>(_, ts).
     bind_sql (expect TK_FROM ts) (\<lambda>(_, ts).
     bind_sql (parse_identifier ts) (\<lambda>(table, ts).
     bind_sql (optional TK_WHERE pe ts) (\<lambda>(whr, ts).
     Inr (DeleteStatement table whr, ts)))))"

section \<open>Definitions\<close>

definition parse_if_not_exists :: "bool parser" where
  "parse_if_not_exists ts =
     (if at TK_IF ts then
        bind_sql (expect TK_NOT (advance ts)) (\<lambda>(_, ts).
        bind_sql (expect TK_EXISTS ts) (\<lambda>(_, ts). Inr (True, ts)))
      else Inr (False, ts))"

definition parse_reference :: "(string \<times> string) parser" where
  "parse_reference ts =
     bind_sql (parse_identifier ts) (\<lambda>(ref_table, ts).
     bind_sql (in_parens parse_identifier ts) (\<lambda>(ref_col, ts). Inr ((ref_table, ref_col), ts)))"

definition mk_foreign_key :: "constraint_value \<Rightarrow> string \<Rightarrow> string \<Rightarrow> sql_constraint" where
  "mk_foreign_key v t c =
     \<lparr>con_type = C_FOREIGN_KEY, con_value = v, con_references_table = Some t,
      con_references_column = Some c\<rparr>"

text \<open>One turn of the constraint loop of a column: \<^const>\<open>None\<close> ends it.\<close>

definition parse_column_constraint :: "expr parser \<Rightarrow> sql_constraint list option parser" where
  "parse_column_constraint pe ts =
     (let us = advance ts
      in if at TK_PRIMARY ts then
           bind_sql (expect TK_KEY us) (\<lambda>(_, us).
           if at TK_AUTOINCREMENT us then
             Inr (Some [mk_constraint C_PRIMARY_KEY CV_None, mk_constraint C_AUTOINCREMENT CV_None],
                  advance us)
           else Inr (Some [mk_constraint C_PRIMARY_KEY CV_None], us))
         else if at TK_NOT ts then
           if at TK_NULL_LITERAL us then Inr (Some [mk_constraint C_NOT_NULL CV_None], advance us)
           else Inl (ParseError (current us))
         else if at TK_UNIQUE ts then Inr (Some [mk_constraint C_UNIQUE CV_None], us)
         else if at TK_DEFAULT ts then
           bind_sql (pe us) (\<lambda>(e, us). Inr (Some [mk_constraint C_DEFAULT (CV_Expr e)], us))
         else if at TK_CHECK ts then
           bind_sql (in_parens pe us) (\<lambda>(e, us). Inr (Some [mk_constraint C_CHECK (CV_Expr e)], us))
         else if at TK_AUTOINCREMENT ts then Inr (Some [mk_constraint C_AUTOINCREMENT CV_None], us)
         else if at TK_REFERENCES ts then
           bind_sql (parse_reference us) (\<lambda>((t, c), us). Inr (Some [mk_foreign_key CV_None t c], us))
         else Inr (None, ts))"

fun constraint_loop :: "nat \<Rightarrow> expr parser \<Rightarrow> sql_constraint list parser" where
  "constraint_loop 0 pe ts = Inl OutOfFuel"
| "constraint_loop (Suc n) pe ts =
     bind_sql (parse_column_constraint pe ts) (\<lambda>(r, ts).
     case r of
       None \<Rightarrow> Inr ([], ts)
     | Some cs \<Rightarrow> bind_sql (constraint_loop n pe ts) (\<lambda>(ds, ts). Inr (cs @ ds, ts)))"

definition parse_column_def :: "expr parser \<Rightarrow> column_def parser" where
  "parse_column_def pe ts =
     bind_sql (parse_identifier ts) (\<lambda>(name, ts).
     bind_sql (parse_type_name ts) (\<lambda>(ty, ts).
     bind_sql (constraint_loop (length ts) pe ts) (\<lambda>(cs, ts).
     Inr (\<lparr>cd_name = name, cd_data_type = ty, cd_constraints = cs\<rparr>, ts))))"

definition parse_table_constraint :: "expr parser \<Rightarrow> sql_constraint parser" where
  "parse_table_constraint pe ts0 =
     (let ts = (if at TK_CONSTRAINT ts0 then advance (advance ts0) else ts0); us = advance ts
      in if at TK_PRIMARY ts then
           bind_sql (expect TK_KEY us) (\<lambda>(_, us).
           bind_sql (in_parens name_list us) (\<lambda>(cols, us).
           Inr (mk_constraint C_PRIMARY_KEY (CV_Columns cols), us)))
         else if at TK_UNIQUE ts then
           bind_sql (in_parens name_list us) (\<lambda>(cols, us).
           Inr (mk_constraint C_UNIQUE (CV_Columns cols), us))
         else if at TK_FOREIGN ts then
           bind_sql (expect TK_KEY us) (\<lambda>(_, us).
           bind_sql (in_parens parse_identifier us) (\<lambda>(col, us).
           bind_sql (expect TK_REFERENCES us) (\<lambda>(_, us).
           bind_sql (parse_reference us) (\<lambda>((t, c), us).
           Inr (mk_foreign_key (CV_Column col) t c, us)))))
         else if at TK_CHECK ts then
           bind_sql (in_parens pe us) (\<lambda>(e, us). Inr (mk_constraint C_CHECK (CV_Expr e), us))
         else Inl (ParseError (current ts)))"

definition constraint_starts :: "token_type list" where
  "constraint_starts = [TK_PRIMARY, TK_UNIQUE, TK_CHECK, TK_FOREIGN, TK_CONSTRAINT]"

fun table_body :: "nat \<Rightarrow> expr parser \<Rightarrow> (column_def list \<times> sql_constraint list) parser" where
  "table_body 0 pe ts = Inl OutOfFuel"
| "table_body (Suc n) pe ts =
     (if at TK_RPAREN ts then Inr (([], []), ts)
      else
        bind_sql
          (if at_any constraint_starts ts then
             bind_sql (parse_table_constraint pe ts) (\<lambda>(c, ts). Inr (([], [c]), ts))
           else bind_sql (parse_column_def pe ts) (\<lambda>(c, ts). Inr (([c], []), ts))) (\<lambda>((cs, ks), ts).
        if at TK_COMMA ts then
          bind_sql (table_body n pe (advance ts)) (\<lambda>((cs', ks'), ts). Inr ((cs @ cs', ks @ ks'), ts))
        else Inr ((cs, ks), ts)))"

definition parse_create_table :: "expr parser \<Rightarrow> statement parser" where
  "parse_create_table pe ts =
     bind_sql (expect TK_TABLE ts) (\<lambda>(_, ts).
     bind_sql (parse_if_not_exists ts) (\<lambda>(if_not_exists, ts).
     bind_sql (parse_identifier ts) (\<lambda>(name, ts).
     bind_sql (expect TK_LPAREN ts) (\<lambda>(_, ts).
     bind_sql (table_body (length ts) pe ts) (\<lambda>((columns, cons), ts).
     bind_sql (expect TK_RPAREN ts) (\<lambda>(_, ts).
     Inr (CreateTableStatement name columns if_not_exists cons, ts)))))))"

definition parse_create_index :: "bool \<Rightarrow> statement parser" where
  "parse_create_index unique ts =
     bind_sql (expect TK_INDEX ts) (\<lambda>(_, ts).
     bind_sql (parse_if_not_exists ts) (\<lambda>(if_not_exists, ts).
     bind_sql (parse_identifier ts) (\<lambda>(name, ts).
     bind_sql (expect TK_ON ts) (\<lambda>(_, ts).
     bind_sql (parse_identifier ts) (\<lambda>(table, ts).
     bind_sql (in_parens name_list ts) (\<lambda>(columns, ts).
     Inr (CreateIndexStatement name table columns unique if_not_exists, ts)))))))"

definition parse_create :: "expr parser \<Rightarrow> statement parser" where
  "parse_create pe ts =
     bind_sql (expect TK_CREATE ts) (\<lambda>(_, ts).
     if at TK_UNIQUE ts then parse_create_index True (advance ts)
     else if at TK_INDEX ts then parse_create_index False ts
     else parse_create_table pe ts)"

definition parse_drop :: "statement parser" where
  "parse_drop ts =
     bind_sql (expect TK_DROP ts) (\<lambda>(_, ts).
     bind_sql (expect TK_TABLE ts) (\<lambda>(_, ts).
     bind_sql (if at TK_IF ts then
                 bind_sql (expect TK_EXISTS (advance ts)) (\<lambda>(_, ts). Inr (True, ts))
               else Inr (False, ts)) (\<lambda>(if_exists, ts).
     bind_sql (parse_identifier ts) (\<lambda>(name, ts).
     if at TK_CASCADE ts then Inr (DropTableStatement name if_exists True, advance ts)
     else if at TK_RESTRICT ts then Inr (DropTableStatement name if_exists False, advance ts)
     else Inr (DropTableStatement name if_exists False, ts)))))"

definition parse_begin :: "statement parser" where
  "parse_begin ts =
     bind_sql (expect TK_BEGIN ts) (\<lambda>(_, ts). Inr (BeginStatement, snd (match_opt TK_TRANSACTION ts)))"

section \<open>Statements and sources\<close>

definition parse_simple_statement :: "expr parser \<Rightarrow> select parser \<Rightarrow> statement parser" where
  "parse_simple_statement pe ps ts =
     (if at TK_SELECT ts then bind_sql (ps ts) (\<lambda>(q, ts). Inr (Select q, ts))
      else if at TK_INSERT ts then parse_insert pe ts
      else if at TK_UPDATE ts then parse_update pe ts
      else if at TK_DELETE ts then parse_delete pe ts
      else if at TK_CREATE ts then parse_create pe ts
      else if at TK_DROP ts then parse_drop ts
      else if at TK_BEGIN ts then parse_begin ts
      else if at TK_COMMIT ts then Inr (CommitStatement, advance ts)
      else if at TK_ROLLBACK ts then Inr (RollbackStatement, advance ts)
      else Inl (ParseError (current ts)))"

fun parse_statement :: "expr parser \<Rightarrow> select parser \<Rightarrow> statement parser" where
  "parse_statement pe ps (t # u # us) =
     (if tok_type t = TK_EXPLAIN then
        bind_sql (parse_statement pe ps (u # us)) (\<lambda>(s, ts). Inr (ExplainStatement s, ts))
      else parse_simple_statement pe ps (t # u # us))"
| "parse_statement pe ps ts = parse_simple_statement pe ps ts"

fun statement_loop :: "nat \<Rightarrow> expr parser \<Rightarrow> select parser \<Rightarrow> statement list parser" where
  "statement_loop 0 pe ps ts = Inl OutOfFuel"
| "statement_loop (Suc n) pe ps ts =
     (if at TK_EOF ts then Inr ([], ts)
      else
        bind_sql (parse_statement pe ps ts) (\<lambda>(s, ts).
        bind_sql (statement_loop n pe ps (snd (match_opt TK_SEMICOLON ts))) (\<lambda>(ss, ts).
        Inr (s # ss, ts))))"

definition parse_tokens :: "py_runtime \<Rightarrow> token list \<Rightarrow> statement list sql_result" where
  "parse_tokens rt ts =
     bind_sql (statement_loop (length ts) (parse_expression rt) (parse_query rt) ts)
       (\<lambda>(ss, _). Inr ss)"

definition parse_sql :: "py_runtime \<Rightarrow> string \<Rightarrow> statement list sql_result" where
  "parse_sql rt src = bind_sql (tokenize src) (parse_tokens rt)"

text \<open>\<^verbatim>\<open>parse_single\<close> raises at the current token, which is the last one, when
  there is no statement.\<close>

definition parse_single :: "py_runtime \<Rightarrow> string \<Rightarrow> statement sql_result" where
  "parse_single rt src =
     bind_sql (tokenize src) (\<lambda>ts.
     bind_sql (parse_tokens rt ts) (\<lambda>ss.
     case ss of [] \<Rightarrow> Inl (ParseError (last ts)) | s # _ \<Rightarrow> Inr s))"

end
