(* ===== verification/Lexer_Spec.thy ===== *)
theory Lexer_Spec
  imports Lexer
begin

text \<open>
  What the tokenizer promises.  A successful run ends with the \<^verbatim>\<open>EOF\<close>
  token and has no other; a failing one raises \<^verbatim>\<open>LexerError\<close> and nothing
  else.  The lexemes and gaps below are an abstract syntax for sources, with the text of each
  written out; tokenizing a source gives back exactly its lexemes, whatever white space and
  comments, nested ones included, lie between them.
\<close>

section \<open>The shape of the result\<close>

definition ended :: "token list \<Rightarrow> bool" where
  "ended ts = (ts \<noteq> [] \<and> tok_type (last ts) = TK_EOF \<and>
     list_all (\<lambda>t. tok_type t \<noteq> TK_EOF) (butlast ts))"

lemma ended_append:
  "ended us \<Longrightarrow> list_all (\<lambda>t. tok_type t \<noteq> TK_EOF) ts \<Longrightarrow> ended (ts @ us)"
  by (auto simp: ended_def butlast_append)

lemma keyword_types: "assoc_get w sql_keywords = Some ty \<Longrightarrow> ty \<noteq> TK_EOF"
  by (drule assoc_get_in) (auto simp: sql_keywords_def)

lemma operator_types:
  "assoc_get w two_char_map = Some ty \<Longrightarrow> ty \<noteq> TK_EOF"
  "assoc_get c single_char_map = Some ty' \<Longrightarrow> ty' \<noteq> TK_EOF"
  by (drule assoc_get_in; auto simp: two_char_map_def single_char_map_def)+

lemma reader_types:
  "read_string c cs p = Inr (t, s, q) \<Longrightarrow> tok_type t \<noteq> TK_EOF"
  "read_quoted_identifier c cs p = Inr (t, s, q) \<Longrightarrow> tok_type t \<noteq> TK_EOF"
  "lex_operator c cs p = Inr (t, s, q) \<Longrightarrow> tok_type t \<noteq> TK_EOF"
  by (auto simp: read_string_def read_quoted_identifier_def lex_operator_def
      dest: operator_types split: option.splits prod.splits list.splits)

lemma read_number_type: "read_number cs p = Inr (t, s, q) \<Longrightarrow> tok_type t \<noteq> TK_EOF"
  by (auto simp: read_number_def bind_sql_Inr_iff Let_def split_beta split: if_splits)

lemma word_token_type: "tok_type (word_token w p) \<noteq> TK_EOF"
  by (auto simp: word_token_def dest: keyword_types split: option.split)

lemma lex_one_types:
  "lex_one c cs p = Inr (ts, s, q) \<Longrightarrow> list_all (\<lambda>t. tok_type t \<noteq> TK_EOF) ts"
  unfolding lex_one_def
  by (auto simp: bind_sql_Inr_iff read_identifier_or_keyword_def word_token_type
      dest: reader_types read_number_type split: if_splits prod.splits)

definition lexer_error :: "sql_error \<Rightarrow> bool" where
  "lexer_error e = (case e of LexerError _ _ _ \<Rightarrow> True | _ \<Rightarrow> False)"

lemma lexer_error_simp [simp]: "lexer_error (LexerError k l c)"
  by (simp add: lexer_error_def)

lemma bind_sql_Inl_iff: "bind_sql r f = Inl e \<longleftrightarrow> r = Inl e \<or> (\<exists>x. r = Inr x \<and> f x = Inl e)"
  by (cases r) auto

lemma block_comment_error: "block_comment d s p = Inl e \<Longrightarrow> lexer_error e"
  by (induction d s p rule: block_comment.induct) (auto split: if_splits)

lemma read_number_error: "read_number s p = Inl e \<Longrightarrow> lexer_error e"
  by (auto simp: read_number_def read_exponent_def Let_def bind_sql_Inl_iff
      split: if_splits prod.splits list.splits)

lemma lex_one_error:
  assumes "lex_one c cs p = Inl e"
  shows "lexer_error e"
proof -
  have "lexer_error e" if "read_string c cs p = Inl e"
    using that by (auto simp: read_string_def split: option.splits)
  moreover have "lexer_error e" if "read_quoted_identifier c cs p = Inl e"
    using that by (auto simp: read_quoted_identifier_def split: prod.splits list.splits)
  moreover have "lexer_error e" if "lex_operator c cs p = Inl e"
    using that by (auto simp: lex_operator_def split: option.splits)
  ultimately show ?thesis
    using assms block_comment_error read_number_error
    by (auto simp: lex_one_def bind_sql_Inl_iff skip_block_comment_def split: if_splits prod.splits)
qed

lemma lex_loop_shape:
  "case lex_loop s p of Inr ts \<Rightarrow> ended ts | Inl e \<Rightarrow> lexer_error e"
proof (induction s p rule: lex_loop.induct)
  case (1 s p)
  show ?case
  proof -
    obtain r q where Pair: "skip_whitespace s p = (r, q)" by (cases "skip_whitespace s p")
    show ?thesis
    proof (cases r)
      case Nil
      then show ?thesis using Pair by (subst lex_loop.simps) (simp add: ended_def)
    next
      case (Cons c cs)
      show ?thesis
      proof (cases "lex_one c cs q")
        case (Inl e)
        then show ?thesis
          using Pair Cons lex_one_error [OF Inl] by (subst lex_loop.simps) simp
      next
        case (Inr x)
        obtain ts s' u where x: "x = (ts, s', u)" by (cases x)
        have "case lex_loop s' u of Inr ts \<Rightarrow> ended ts | Inl e \<Rightarrow> lexer_error e"
          using 1 Pair Cons Inr x by simp
        then show ?thesis
          using Pair Cons Inr x lex_one_types [of c cs q ts s' u]
          by (subst lex_loop.simps) (auto simp: ended_append split: sum.splits)
      qed
    qed
  qed
qed

section \<open>Lexemes\<close>

text \<open>A lexeme is a token as it is written: words in any case, numbers by their parts.\<close>

datatype lexeme =
    LexWord string
  | LexInt string
  | LexFloat string string "(char \<times> string \<times> string) option"
  | LexString string
  | LexQuoted string
  | LexOp string

definition double_quotes :: "string \<Rightarrow> string" where
  "double_quotes v = concat (map (\<lambda>c. if c = QUOTE then [QUOTE, QUOTE] else [c]) v)"

fun exponent_text :: "(char \<times> string \<times> string) option \<Rightarrow> string" where
  "exponent_text None = []"
| "exponent_text (Some (e, sign, ds)) = e # sign @ ds"

definition fraction_text :: "string \<Rightarrow> string" where
  "fraction_text b = (if b = [] then [] else CHR ''.'' # b)"

fun lexeme_text :: "lexeme \<Rightarrow> string" where
  "lexeme_text (LexWord w) = w"
| "lexeme_text (LexInt ds) = ds"
| "lexeme_text (LexFloat a b x) = a @ fraction_text b @ exponent_text x"
| "lexeme_text (LexString v) = [QUOTE] @ double_quotes v @ [QUOTE]"
| "lexeme_text (LexQuoted v) = [CHR 0x22] @ v @ [CHR 0x22]"
| "lexeme_text (LexOp w) = w"

definition digits :: "string \<Rightarrow> bool" where
  "digits ds = (ds \<noteq> [] \<and> list_all py_isdigit ds)"

fun exponent_ok :: "(char \<times> string \<times> string) option \<Rightarrow> bool" where
  "exponent_ok None = True"
| "exponent_ok (Some (e, sign, ds)) =
     (e \<in> set ''eE'' \<and> sign \<in> set [[], ''+'', ''-''] \<and> digits ds)"

fun lexeme_ok :: "lexeme \<Rightarrow> bool" where
  "lexeme_ok (LexWord w) =
     (w \<noteq> [] \<and> (py_isalpha (hd w) \<or> hd w = CHR ''_'') \<and> list_all is_word w)"
| "lexeme_ok (LexInt ds) = digits ds"
| "lexeme_ok (LexFloat a b x) =
     (digits a \<and> (b = [] \<or> digits b) \<and> exponent_ok x \<and> (b \<noteq> [] \<or> x \<noteq> None))"
| "lexeme_ok (LexString v) = True"
| "lexeme_ok (LexQuoted v) = (CHR 0x22 \<notin> set v)"
| "lexeme_ok (LexOp w) =
     (w \<in> fst ` set two_char_map \<or> (\<exists>c \<in> fst ` set single_char_map. w = [c]))"

text \<open>The token of a lexeme: keywords are recognised in any case and their value is the
  upper-case form; the other tokens keep their text.\<close>

fun lexeme_token :: "lexeme \<Rightarrow> token_type \<times> string" where
  "lexeme_token (LexWord w) =
     (case assoc_get (str_upper w) sql_keywords of
        Some ty \<Rightarrow>
          (if str_upper w \<in> set [''TRUE'', ''FALSE''] then TK_BOOLEAN_LITERAL else ty, str_upper w)
      | None \<Rightarrow> (TK_IDENTIFIER, w))"
| "lexeme_token (LexInt ds) = (TK_INTEGER_LITERAL, ds)"
| "lexeme_token (LexFloat a b x) = (TK_FLOAT_LITERAL, a @ fraction_text b @ exponent_text x)"
| "lexeme_token (LexString v) = (TK_STRING_LITERAL, v)"
| "lexeme_token (LexQuoted v) = (TK_QUOTED_IDENTIFIER, v)"
| "lexeme_token (LexOp w) =
     (case assoc_get w two_char_map of
        Some ty \<Rightarrow> (ty, w) | None \<Rightarrow> (the (assoc_get (hd w) single_char_map), w))"

definition token_key :: "token \<Rightarrow> token_type \<times> string" where
  "token_key t = (tok_type t, tok_value t)"

lemma token_key_mk [simp]: "token_key (mk_token ty v p) = (ty, v)"
  by (simp add: token_key_def)

section \<open>Gaps\<close>

text \<open>White space and comments between two lexemes; block comments nest.\<close>

datatype comment = CommentText string | CommentBlock "comment list"

fun comment_text :: "comment \<Rightarrow> string" where
  "comment_text (CommentText w) = w"
| "comment_text (CommentBlock cs) = ''/*'' @ concat (map comment_text cs) @ ''*/''"

fun comment_ok :: "comment \<Rightarrow> bool" where
  "comment_ok (CommentText w) = (CHR ''/'' \<notin> set w \<and> CHR ''*'' \<notin> set w)"
| "comment_ok (CommentBlock cs) = list_all comment_ok cs"

datatype gap_piece = GapSpace char | GapLine string | GapBlock "comment list"

fun piece_text :: "gap_piece \<Rightarrow> string" where
  "piece_text (GapSpace c) = [c]"
| "piece_text (GapLine w) = ''--'' @ w @ [CHR 0x0A]"
| "piece_text (GapBlock cs) = comment_text (CommentBlock cs)"

fun piece_ok :: "gap_piece \<Rightarrow> bool" where
  "piece_ok (GapSpace c) = is_space c"
| "piece_ok (GapLine w) = (CHR 0x0A \<notin> set w)"
| "piece_ok (GapBlock cs) = comment_ok (CommentBlock cs)"

definition gap_text :: "char \<times> gap_piece list \<Rightarrow> string" where
  "gap_text g = fst g # concat (map piece_text (snd g))"

definition gap_ok :: "char \<times> gap_piece list \<Rightarrow> bool" where
  "gap_ok g = (is_space (fst g) \<and> list_all piece_ok (snd g))"

definition source_text :: "(lexeme \<times> char \<times> gap_piece list) list \<Rightarrow> string" where
  "source_text src = concat (map (\<lambda>(l, g). lexeme_text l @ gap_text g) src)"

section \<open>Tokenizing a lexeme\<close>

lemma bumps_simps [simp]:
  "bumps [] p = p" "bumps (c # s) p = bumps s (bump c p)" "bumps (s @ u) p = bumps u (bumps s p)"
  by (simp_all add: bumps_def)

lemma span_append:
  assumes "list_all P w" "\<not> P d"
  shows "takeWhile P (w @ d # s) = w" "dropWhile P (w @ d # s) = d # s"
  using assms by (simp_all add: takeWhile_append2 dropWhile_append2 list_all_iff)

lemma lex_while_span:
  "list_all P w \<Longrightarrow> \<not> P d \<Longrightarrow> lex_while P (w @ d # s) p = (w, d # s, bumps w p)"
  by (simp add: lex_while_takeWhile span_append)

lemma space_classes:
  assumes "is_space d"
  shows "\<not> py_isdigit d" "\<not> py_isalpha d" "\<not> is_word d" "d \<noteq> CHR ''.''" "d \<noteq> CHR ''e''" "d \<noteq> CHR ''E''"
    "d \<noteq> QUOTE" "d \<noteq> CHR ''-''" "d \<noteq> CHR ''*''" "d \<noteq> CHR ''/''" "d \<noteq> CHR ''=''" "d \<noteq> CHR ''>''"
    "d \<noteq> CHR ''|''"
  using assms
  by (auto simp: is_space_def py_isdigit_def py_isalpha_def py_isalnum_def is_word_def)

lemma word_classes:
  assumes "py_isalpha c \<or> c = CHR ''_''"
  shows "\<not> py_isdigit c" "\<not> is_space c" "c \<noteq> QUOTE" "c \<noteq> CHR ''-''" "c \<noteq> CHR ''/''" "c \<noteq> CHR 0x22"
  using assms by (auto simp: is_space_def py_isdigit_def py_isalpha_def Let_def)

lemma quote_classes:
  "\<not> py_isdigit CHR 0x22" "\<not> py_isalpha CHR 0x22" "\<not> is_space CHR 0x22"
  by (simp_all add: is_space_def py_isdigit_def py_isalpha_def)

lemma operator_classes:
  assumes "c \<in> set ''!<>|+-*/%=(),;.''"
  shows "\<not> py_isdigit c \<and> \<not> py_isalpha c \<and> \<not> is_space c \<and> c \<noteq> QUOTE \<and> c \<noteq> CHR 0x22 \<and> c \<noteq> CHR ''_''"
  using assms by (auto simp: is_space_def py_isdigit_def py_isalpha_def)

lemma digit_classes:
  assumes "py_isdigit c"
  shows "\<not> is_space c" "c \<noteq> QUOTE" "c \<noteq> CHR ''-''" "c \<noteq> CHR ''/''" "c \<noteq> CHR ''e''" "c \<noteq> CHR ''E''"
    "c \<noteq> CHR ''.''" "c \<noteq> CHR ''+''"
  using assms by (auto simp: is_space_def py_isdigit_def)

lemma string_body_double:
  "d \<noteq> QUOTE \<Longrightarrow>
   string_body (double_quotes v @ QUOTE # d # s) p =
     Some (v, d # s, bumps (double_quotes v @ [QUOTE]) p)"
proof (induction v arbitrary: p)
  case Nil
  then show ?case by (simp add: double_quotes_def)
next
  case (Cons c v)
  show ?case
  proof (cases "c = QUOTE")
    case True
    then show ?thesis using Cons by (simp add: double_quotes_def)
  next
    case False
    obtain e r where er: "double_quotes v @ QUOTE # d # s = e # r"
      by (cases "double_quotes v @ QUOTE # d # s") auto
    have "string_body (e # r) (bump c p) = Some (v, d # s, bumps (double_quotes v @ [QUOTE]) (bump c p))"
      using Cons.IH [OF Cons.prems] by (simp flip: er)
    then show ?thesis using False er by (simp add: double_quotes_def)
  qed
qed

text \<open>One turn of the loop reads the lexeme up to the blank \<open>d\<close> after it.\<close>

definition reads :: "lexeme \<Rightarrow> char \<Rightarrow> string \<Rightarrow> lex_pos \<Rightarrow> bool" where
  "reads l d s p = (\<exists>c cs t. lexeme_text l = c # cs \<and> \<not> is_space c \<and> token_key t = lexeme_token l \<and>
     lex_one c (cs @ d # s) p = Inr ([t], d # s, bumps (lexeme_text l) p))"

lemma readsI:
  assumes "lex_one c (cs @ d # s) p = Inr ([t], d # s, bumps (c # cs) p)"
    and "lexeme_text l = c # cs" "\<not> is_space c" "token_key t = lexeme_token l"
  shows "reads l d s p"
  using assms by (auto simp: reads_def)

lemma reads_word:
  assumes ok: "lexeme_ok (LexWord w)" and d: "is_space d"
  shows "reads (LexWord w) d s p"
proof -
  obtain c cs where w: "w = c # cs" using ok by (cases w) auto
  have c: "py_isalpha c \<or> c = CHR ''_''" and all: "list_all is_word w" using ok w by auto
  have "lex_one c (cs @ d # s) p = Inr ([word_token w p], d # s, bumps w p)"
    using word_classes [OF c] c lex_while_span [OF all space_classes(3) [OF d], of s p]
    by (auto simp: lex_one_def read_identifier_or_keyword_def w)
  then have "lex_one c (cs @ d # s) p = Inr ([word_token w p], d # s, bumps (c # cs) p)"
    by (simp only: w)
  then show ?thesis
    by (rule readsI) (use word_classes [OF c] w in \<open>auto simp: word_token_def split: option.split\<close>)
qed

lemma read_fraction_text:
  assumes "b = [] \<or> digits b" "r \<noteq> []" "\<not> py_isdigit (hd r)" "hd r \<noteq> CHR ''.''"
  shows "read_fraction (fraction_text b @ r) p = (fraction_text b, r, bumps (fraction_text b) p)"
proof (cases b)
  case Nil
  then show ?thesis using assms by (auto simp: read_fraction_def fraction_text_def split: list.split)
next
  case (Cons c cs)
  obtain d s where r: "r = d # s" using assms by (cases r) auto
  have "lex_while py_isdigit (b @ d # s) (bump CHR ''.'' p) = (b, d # s, bumps b (bump CHR ''.'' p))"
    using assms Cons r by (intro lex_while_span) (auto simp: digits_def)
  then show ?thesis
    using assms Cons r by (auto simp: read_fraction_def fraction_text_def digits_def)
qed

lemma read_exponent_text:
  assumes x: "exponent_ok x" and d: "is_space d"
  shows "read_exponent u (exponent_text x @ d # s) p =
    Inr (exponent_text x, d # s, bumps (exponent_text x) p)"
proof (cases x)
  case None
  then show ?thesis using space_classes [OF d] by (simp add: read_exponent_def)
next
  case (Some y)
  obtain e sign ds where y: "x = Some (e, sign, ds)" using Some by (cases y) auto
  have ok: "e \<in> set ''eE''" "sign \<in> set [[], ''+'', ''-'']" "digits ds" using x y by auto
  obtain c cs where ds: "ds = c # cs" "py_isdigit c" using ok(3) by (cases ds) (auto simp: digits_def)
  have "list_all py_isdigit cs" using ok(3) ds by (simp add: digits_def)
  then show ?thesis
    using ok(1,2) ds digit_classes [OF ds(2)] space_classes(1) [OF d]
    by (auto simp: read_exponent_def y lex_while_span)
qed

lemma reads_number:
  assumes a: "digits a" and b: "b = [] \<or> digits b" and x: "exponent_ok x" and d: "is_space d"
  shows "read_number (a @ fraction_text b @ exponent_text x @ d # s) p =
    Inr (mk_token (if b = [] \<and> x = None then TK_INTEGER_LITERAL else TK_FLOAT_LITERAL)
           (a @ fraction_text b @ exponent_text x) p,
         d # s, bumps (a @ fraction_text b @ exponent_text x) p)"
proof -
  let ?r = "exponent_text x @ d # s"
  have r: "?r \<noteq> []" "\<not> py_isdigit (hd ?r)" "hd ?r \<noteq> CHR ''.''"
    using x space_classes [OF d] by (cases x; auto simp: py_isdigit_def)+
  obtain e t where e: "fraction_text b @ ?r = e # t" "\<not> py_isdigit e"
    using r by (cases "fraction_text b @ ?r") (auto simp: fraction_text_def py_isdigit_def split: if_splits)
  have 1: "lex_while py_isdigit (a @ fraction_text b @ ?r) p = (a, fraction_text b @ ?r, bumps a p)"
    using a e lex_while_span [of py_isdigit a e t p] by (simp add: digits_def)
  show ?thesis
    using 1 read_fraction_text [OF b r, of "bumps a p"] read_exponent_text [OF x d]
    by (cases x) (auto simp: read_number_def fraction_text_def split: if_splits)
qed

lemma reads_op:
  assumes ok: "lexeme_ok (LexOp w)" and d: "is_space d"
  shows "reads (LexOp w) d s p"
proof -
  consider (two) "w \<in> fst ` set two_char_map" | (one) c where "c \<in> fst ` set single_char_map" "w = [c]"
    using ok by auto
  then show ?thesis
  proof cases
    case two
    then obtain c e where w: "w = [c, e]" "c \<in> set ''!<>|+-*/%=(),;.''" "c \<noteq> CHR ''-''" "c \<noteq> CHR ''/''"
      by (auto simp: two_char_map_def)
    obtain ty where "assoc_get w two_char_map = Some ty"
      using two by (cases "assoc_get w two_char_map") (auto simp: assoc_get_None)
    then have "lex_one c ([e] @ d # s) p = Inr ([mk_token ty w p], d # s, bumps (c # [e]) p)"
      using w(1,3,4) operator_classes [OF w(2)] by (simp add: lex_one_def lex_operator_def)
    then show ?thesis
      by (rule readsI) (simp_all add: w \<open>assoc_get w two_char_map = Some ty\<close> [unfolded w]
          operator_classes [OF w(2)])
  next
    case one
    have c: "c \<in> set ''!<>|+-*/%=(),;.''" using one(1) by (auto simp: single_char_map_def)
    obtain ty where ty: "assoc_get c single_char_map = Some ty"
      using one(1) by (cases "assoc_get c single_char_map") (auto simp: assoc_get_None)
    have two: "assoc_get [c, d] two_char_map = None" "assoc_get [c] two_char_map = None"
      using space_classes [OF d] by (auto simp: two_char_map_def)
    have "lex_one c ([] @ d # s) p = Inr ([mk_token ty [c] p], d # s, bumps (c # []) p)"
      using ty two operator_classes [OF c] space_classes [OF d]
      by (simp add: lex_one_def lex_operator_def)
    then show ?thesis
      by (rule readsI) (simp_all add: one(2) ty two operator_classes [OF c])
  qed
qed

lemma reads_lexeme:
  assumes "lexeme_ok l" "is_space d"
  shows "reads l d s p"
proof (cases l)
  case (LexString v)
  have "lex_one QUOTE ((double_quotes v @ [QUOTE]) @ d # s) p =
      Inr ([mk_token TK_STRING_LITERAL v p], d # s, bumps (QUOTE # double_quotes v @ [QUOTE]) p)"
    using space_classes [OF assms(2)] string_body_double [of d v s "bump QUOTE p"]
    by (simp add: lex_one_def read_string_def)
  then show ?thesis
    by (rule readsI) (simp_all add: LexString is_space_def)
next
  case (LexQuoted v)
  have "list_all (\<lambda>c. c \<noteq> CHR 0x22) v" using assms LexQuoted by (auto simp: list_all_iff)
  then have "lex_while (\<lambda>c. c \<noteq> CHR 0x22) (v @ CHR 0x22 # d # s) (bump CHR 0x22 p) =
      (v, CHR 0x22 # d # s, bumps v (bump CHR 0x22 p))"
    by (rule lex_while_span) simp
  then have "lex_one CHR 0x22 ((v @ [CHR 0x22]) @ d # s) p =
      Inr ([mk_token TK_QUOTED_IDENTIFIER v p], d # s, bumps (CHR 0x22 # v @ [CHR 0x22]) p)"
    by (simp add: lex_one_def read_quoted_identifier_def quote_classes)
  then show ?thesis
    by (rule readsI) (simp_all add: LexQuoted quote_classes)
next
  case (LexInt ds)
  have ds: "digits ds" using assms LexInt by simp
  then obtain c cs where c: "ds = c # cs" "py_isdigit c" by (cases ds) (auto simp: digits_def)
  have "lex_one c (cs @ d # s) p = Inr ([mk_token TK_INTEGER_LITERAL ds p], d # s, bumps (c # cs) p)"
    using c digit_classes [OF c(2)] reads_number [OF ds _ _ assms(2), of "[]" None s p]
    by (simp add: lex_one_def fraction_text_def)
  then show ?thesis
    by (rule readsI) (simp_all add: LexInt c digit_classes [OF c(2)])
next
  case (LexFloat a b x)
  have ok: "digits a" "b = [] \<or> digits b" "exponent_ok x" "b \<noteq> [] \<or> x \<noteq> None"
    using assms LexFloat by auto
  then obtain c cs where c: "a = c # cs" "py_isdigit c" by (cases a) (auto simp: digits_def)
  have "lex_one c ((cs @ fraction_text b @ exponent_text x) @ d # s) p =
      Inr ([mk_token TK_FLOAT_LITERAL (a @ fraction_text b @ exponent_text x) p], d # s,
           bumps (c # cs @ fraction_text b @ exponent_text x) p)"
    using c digit_classes [OF c(2)] reads_number [OF ok(1-3) assms(2), of s p] ok(4)
    by (auto simp add: lex_one_def)
  then show ?thesis
    by (rule readsI) (simp_all add: LexFloat c digit_classes [OF c(2)])
qed (use assms reads_word reads_op in auto)

section \<open>Skipping a gap\<close>

lemma bind_sql_right [simp]: "bind_sql r Inr = r"
  by (cases r) auto

lemma skip_whitespace_simps:
  "is_space c \<Longrightarrow> skip_whitespace (c # s) p = skip_whitespace s (bump c p)"
  "\<not> is_space c \<Longrightarrow> skip_whitespace (c # s) p = (c # s, p)"
  by (auto simp: skip_whitespace_def split: prod.split)

lemma lex_loop_space: "is_space c \<Longrightarrow> lex_loop (c # s) p = lex_loop s (bump c p)"
  by (simp add: lex_loop.simps [of "c # s"] lex_loop.simps [of s] skip_whitespace_simps)

lemma lex_loop_step:
  "\<not> is_space c \<Longrightarrow> lex_one c cs p = Inr (ts, s, q) \<Longrightarrow>
   lex_loop (c # cs) p = bind_sql (lex_loop s q) (\<lambda>us. Inr (ts @ us))"
  by (simp add: lex_loop.simps [of "c # cs"] skip_whitespace_simps)

lemma lex_loop_line:
  assumes "CHR 0x0A \<notin> set w"
  shows "lex_loop (''--'' @ w @ CHR 0x0A # s) p = lex_loop s (bumps (''--'' @ w @ [CHR 0x0A]) p)"
proof -
  have "list_all (\<lambda>c. c \<noteq> CHR 0x0A) (''--'' @ w)" using assms by (auto simp: list_all_iff)
  then have "lex_while (\<lambda>c. c \<noteq> CHR 0x0A) ((''--'' @ w) @ CHR 0x0A # s) p =
      (''--'' @ w, CHR 0x0A # s, bumps (''--'' @ w) p)"
    by (rule lex_while_span) simp
  then have "lex_one CHR ''-'' (CHR ''-'' # w @ CHR 0x0A # s) p =
      Inr ([], CHR 0x0A # s, bumps (''--'' @ w) p)"
    by (simp add: lex_one_def skip_line_comment_def)
  then have "lex_loop (''--'' @ w @ CHR 0x0A # s) p = lex_loop (CHR 0x0A # s) (bumps (''--'' @ w) p)"
    by (simp add: lex_loop_step is_space_def)
  then show ?thesis by (simp add: lex_loop_space is_space_def)
qed

lemma block_comment_char:
  "c \<noteq> CHR ''/'' \<Longrightarrow> c \<noteq> CHR ''*'' \<Longrightarrow>
   block_comment (Suc d) (c # s) p = block_comment (Suc d) s (bump c p)"
  by (cases s) auto

lemma block_comment_text:
  "CHR ''/'' \<notin> set w \<Longrightarrow> CHR ''*'' \<notin> set w \<Longrightarrow>
   block_comment (Suc d) (w @ s) p = block_comment (Suc d) s (bumps w p)"
  proof (induction w arbitrary: p)
  case (Cons c w)
  then have "c \<noteq> CHR ''/''" "c \<noteq> CHR ''*''" by auto
  then show ?case using Cons by (simp add: block_comment_char)
qed simp

lemma block_comment_list:
  assumes "\<And>c d s p. c \<in> set cs \<Longrightarrow>
      block_comment (Suc d) (comment_text c @ s) p = block_comment (Suc d) s (bumps (comment_text c) p)"
  shows "block_comment (Suc d) (concat (map comment_text cs) @ s) p =
    block_comment (Suc d) s (bumps (concat (map comment_text cs)) p)"
  using assms by (induction cs arbitrary: p) auto

lemma block_comment_comment:
  "comment_ok c \<Longrightarrow>
   block_comment (Suc d) (comment_text c @ s) p = block_comment (Suc d) s (bumps (comment_text c) p)"
proof (induction c arbitrary: d s p)
  case (CommentText w)
  then show ?case by (simp add: block_comment_text)
next
  case (CommentBlock cs)
  have "block_comment (Suc e) (concat (map comment_text cs) @ r) q =
      block_comment (Suc e) r (bumps (concat (map comment_text cs)) q)" for e r q
    using CommentBlock by (intro block_comment_list) (auto simp: list_all_iff)
  then show ?case by simp
qed

lemma lex_loop_block:
  assumes "comment_ok (CommentBlock cs)"
  shows "lex_loop (comment_text (CommentBlock cs) @ s) p =
    lex_loop s (bumps (comment_text (CommentBlock cs)) p)"
proof -
  let ?b = "concat (map comment_text cs)"
  have "block_comment 1 (?b @ ''*/'' @ s) q = Inr (s, bumps (?b @ ''*/'') q)" for q
    using block_comment_list [of cs 0 "''*/'' @ s" q] block_comment_comment assms
    by (auto simp: list_all_iff)
  then have "lex_one CHR ''/'' (CHR ''*'' # ?b @ ''*/'' @ s) p =
      Inr ([], s, bumps (comment_text (CommentBlock cs)) p)"
    by (simp add: lex_one_def skip_block_comment_def)
  then show ?thesis by (simp add: lex_loop_step is_space_def)
qed

lemma lex_loop_piece:
  "piece_ok g \<Longrightarrow> lex_loop (piece_text g @ s) p = lex_loop s (bumps (piece_text g) p)"
  using lex_loop_line [of "case g of GapLine w \<Rightarrow> w" s p] lex_loop_block
  by (cases g) (auto simp: lex_loop_space)

lemma lex_loop_gap: "gap_ok g \<Longrightarrow> lex_loop (gap_text g @ s) p = lex_loop s (bumps (gap_text g) p)"
proof -
  have "list_all piece_ok gs \<Longrightarrow> lex_loop (concat (map piece_text gs) @ s) q =
      lex_loop s (bumps (concat (map piece_text gs)) q)" for gs q
    by (induction gs arbitrary: q) (auto simp: lex_loop_piece)
  then show "gap_ok g \<Longrightarrow> ?thesis"
    by (auto simp: gap_text_def gap_ok_def lex_loop_space)
qed

lemma lex_loop_source:
  assumes "list_all (\<lambda>(l, g). lexeme_ok l \<and> gap_ok g) src"
  shows "\<exists>ts e. lex_loop (source_text src) p = Inr (ts @ [e]) \<and> tok_type e = TK_EOF \<and>
    map token_key ts = map (\<lambda>(l, g). lexeme_token l) src"
  using assms
proof (induction src arbitrary: p)
  case Nil
  then show ?case
    by (auto simp: source_text_def lex_loop.simps [of "[]"] skip_whitespace_def)
next
  case (Cons x src)
  obtain l g where x: "x = (l, g)" by (cases x)
  have ok: "lexeme_ok l" "gap_ok g" "is_space (fst g)" using Cons.prems x by (auto simp: gap_ok_def)
  let ?r = "concat (map piece_text (snd g)) @ source_text src"
  obtain c cs t where t: "lexeme_text l = c # cs" "\<not> is_space c" "token_key t = lexeme_token l"
    "lex_one c (cs @ fst g # ?r) p = Inr ([t], fst g # ?r, bumps (lexeme_text l) p)"
    using reads_lexeme [OF ok(1,3), of ?r p] unfolding reads_def by blast
  have "lex_loop (source_text (x # src)) p =
      bind_sql (lex_loop (gap_text g @ source_text src) (bumps (lexeme_text l) p)) (\<lambda>us. Inr ([t] @ us))"
    using lex_loop_step [OF t(2,4)] t(1) by (simp add: x source_text_def gap_text_def)
  also have "\<dots> = bind_sql (lex_loop (source_text src) (bumps (gap_text g) (bumps (lexeme_text l) p)))
      (\<lambda>us. Inr ([t] @ us))"
    by (simp add: lex_loop_gap [OF ok(2)])
  finally have eq: "lex_loop (source_text (x # src)) p = \<dots>" .
  obtain ts e where ts: "lex_loop (source_text src) (bumps (gap_text g) (bumps (lexeme_text l) p)) =
      Inr (ts @ [e])" "tok_type e = TK_EOF" "map token_key ts = map (\<lambda>(l, g). lexeme_token l) src"
    using Cons.IH [of "bumps (gap_text g) (bumps (lexeme_text l) p)"] Cons.prems x by auto
  show ?case
    using eq ts t(3) x by (intro exI [of _ "t # ts"] exI [of _ e]) auto
qed

section \<open>Properties\<close>

text \<open>
  C15: tokenizing inverts writing: for every sequence of well-formed lexemes, with any white space
  and any line or nested block comments between them, the tokenizer returns exactly the tokens of
  the lexemes, keywords in any case included, and then \<^verbatim>\<open>EOF\<close>.
\<close>

theorem tokenize_source:
  assumes "list_all (\<lambda>(l, g). lexeme_ok l \<and> gap_ok g) src"
  shows "\<exists>ts e. tokenize (source_text src) = Inr (ts @ [e]) \<and> tok_type e = TK_EOF \<and>
    map token_key ts = map (\<lambda>(l, g). lexeme_token l) src"
  using lex_loop_source [OF assms, of "(1, 1)"] by (simp add: tokenize_def)

definition sample_source :: "(lexeme \<times> char \<times> gap_piece list) list" where
  "sample_source =
     [(LexWord ''Select'', CHR '' '', [GapBlock [CommentText ''a'', CommentBlock [CommentText ''b'']]]),
      (LexString [CHR ''a'', QUOTE], CHR '' '', [GapLine ''x'']),
      (LexFloat ''1'' [] (Some (CHR ''e'', ''-'', ''3'')), CHR 0x0A, []),
      (LexOp ''<='', CHR '' '', []),
      (LexWord ''t_1'', CHR '' '', [])]"

theorem tokenize_source_witness:
  "\<exists>ts e. tokenize (source_text sample_source) = Inr (ts @ [e]) \<and> tok_type e = TK_EOF \<and>
    map token_key ts = [(TK_SELECT, ''SELECT''), (TK_STRING_LITERAL, [CHR ''a'', QUOTE]),
      (TK_FLOAT_LITERAL, ''1e-3''), (TK_LESS_EQUALS, ''<=''), (TK_IDENTIFIER, ''t_1'')]"
proof -
  have "list_all (\<lambda>(l, g). lexeme_ok l \<and> gap_ok g) sample_source" by code_simp
  moreover have "map (\<lambda>(l, g). lexeme_token l) sample_source =
      [(TK_SELECT, ''SELECT''), (TK_STRING_LITERAL, [CHR ''a'', QUOTE]),
       (TK_FLOAT_LITERAL, ''1e-3''), (TK_LESS_EQUALS, ''<=''), (TK_IDENTIFIER, ''t_1'')]"
    by code_simp
  ultimately show ?thesis using tokenize_source [of sample_source] by simp
qed

text \<open>
  The tokenizer is total: on every source it returns tokens of which the last, and only the
  last, is \<^verbatim>\<open>EOF\<close>, or raises \<^verbatim>\<open>LexerError\<close>.
\<close>

theorem tokenize_shape:
  "case tokenize src of Inr ts \<Rightarrow> ended ts | Inl e \<Rightarrow> lexer_error e"
  unfolding tokenize_def by (rule lex_loop_shape)

end
