(* ===== verification/Parser_Spec.thy ===== *)
theory Parser_Spec
  imports Parser_Statements Lexer_Spec
begin

text \<open>
  The parser's loops and recursion end before their bounds: on every token list that ends in
  \<^verbatim>\<open>EOF\<close>, each method leaves a shorter list of the same kind or raises, and
  the bound is never the reason.  \<open>ok Q r\<close> is the weakest precondition of a
  result: it satisfies \<open>Q\<close> or is an error other than running out of fuel; it is
  computed over sequencing by rewriting.
\<close>

section \<open>Weakest preconditions of results\<close>

definition ok :: "('a \<Rightarrow> bool) \<Rightarrow> 'a sql_result \<Rightarrow> bool" where
  "ok Q r = (case r of Inl e \<Rightarrow> e \<noteq> OutOfFuel | Inr x \<Rightarrow> Q x)"

lemma ok_simps [simp]:
  "ok Q (Inl e) = (e \<noteq> OutOfFuel)"
  "ok Q (Inr x) = Q x"
  "ok Q (bind_sql r f) = ok (\<lambda>x. ok Q (f x)) r"
  by (auto simp: ok_def bind_sql_def split: sum.splits)

lemma ok_if [simp]: "ok Q (if b then r else s) = ((b \<longrightarrow> ok Q r) \<and> (\<not> b \<longrightarrow> ok Q s))"
  by simp

lemma ok_mono: "ok P r \<Longrightarrow> (\<And>x. P x \<Longrightarrow> Q x) \<Longrightarrow> ok Q r"
  by (auto simp: ok_def split: sum.splits)

lemma ok_expect [simp]: "ok Q (expect ty ts) = (at ty ts \<longrightarrow> Q (current ts, advance ts))"
  by (simp add: expect_def)

lemma ok_int_literal [simp]: "ok Q (int_literal s) = (\<forall>i. int_literal s = Inr i \<longrightarrow> Q i)"
  by (auto simp: int_literal_def)

lemma ok_float_literal [simp]:
  "ok Q (float_literal rt s) = (\<forall>f. float_literal rt s = Inr f \<longrightarrow> Q f)"
  by (auto simp: float_literal_def split: option.splits)

section \<open>Token lists that end in EOF\<close>

definition remaining :: "token list \<Rightarrow> nat" where
  "remaining ts = length ts"

lemma ended_pos: "ended ts \<Longrightarrow> 0 < remaining ts"
  by (simp add: ended_def remaining_def)

lemma ended_Cons: "ended (t # u # us) \<Longrightarrow> ended (u # us)"
  by (simp add: ended_def)

lemma ended_advance [simp]: "ended ts \<Longrightarrow> ended (advance ts)"
  by (auto simp: advance_def ended_def split: list.splits)

lemma remaining_advance:
  "ended ts \<Longrightarrow> remaining (advance ts) = (if at TK_EOF ts then remaining ts else remaining ts - 1)"
  by (auto simp: advance_def ended_def at_def current_def remaining_def split: list.splits)

lemma at_EOF_iff: "ended ts \<Longrightarrow> at TK_EOF ts \<longleftrightarrow> length ts = 1"
  by (cases ts) (auto simp: ended_def at_def current_def split: if_splits)

text \<open>\<open>shrinks n p\<close>: within \<open>n\<close> tokens \<open>p\<close> takes at least
  one; \<open>keeps n p\<close>: it takes any number.\<close>

definition less_left :: "token list \<Rightarrow> 'a \<times> token list \<Rightarrow> bool" where
  "less_left ts r = (ended (snd r) \<and> remaining (snd r) < remaining ts)"

definition le_left :: "token list \<Rightarrow> 'a \<times> token list \<Rightarrow> bool" where
  "le_left ts r = (ended (snd r) \<and> remaining (snd r) \<le> remaining ts)"

definition shrinks :: "nat \<Rightarrow> 'a parser \<Rightarrow> bool" where
  "shrinks n p = (\<forall>ts. ended ts \<longrightarrow> remaining ts \<le> n \<longrightarrow> ok (less_left ts) (p ts))"

definition keeps :: "nat \<Rightarrow> 'a parser \<Rightarrow> bool" where
  "keeps n p = (\<forall>ts. ended ts \<longrightarrow> remaining ts \<le> n \<longrightarrow> ok (le_left ts) (p ts))"

lemma less_left_use:
  assumes "ok (less_left ts) r"
    and "\<And>x us. ended us \<Longrightarrow> 0 < remaining us \<Longrightarrow> remaining us < remaining ts \<Longrightarrow> Q (x, us)"
  shows "ok Q r"
  using assms(1) by (rule ok_mono) (auto simp: less_left_def intro!: assms(2) ended_pos)

lemma le_left_use:
  assumes "ok (le_left ts) r"
    and "\<And>x us. ended us \<Longrightarrow> 0 < remaining us \<Longrightarrow> remaining us \<le> remaining ts \<Longrightarrow> Q (x, us)"
  shows "ok Q r"
  using assms(1) by (rule ok_mono) (auto simp: le_left_def intro!: assms(2) ended_pos)

lemma shrinks_use:
  assumes "shrinks n p" "ended ts" "remaining ts \<le> n"
    and "\<And>x us. ended us \<Longrightarrow> 0 < remaining us \<Longrightarrow> remaining us < remaining ts \<Longrightarrow> Q (x, us)"
  shows "ok Q (p ts)"
  using assms by (auto simp: shrinks_def intro: less_left_use)

lemma keeps_use:
  assumes "keeps n p" "ended ts" "remaining ts \<le> n"
    and "\<And>x us. ended us \<Longrightarrow> 0 < remaining us \<Longrightarrow> remaining us \<le> remaining ts \<Longrightarrow> Q (x, us)"
  shows "ok Q (p ts)"
  using assms by (auto simp: keeps_def intro: le_left_use)

lemma shrinksI:
  assumes "\<And>ts. ended ts \<Longrightarrow> 0 < remaining ts \<Longrightarrow> remaining ts \<le> n \<Longrightarrow> ok (less_left ts) (p ts)"
  shows "shrinks n p"
  using assms ended_pos by (auto simp: shrinks_def)

lemma keepsI:
  assumes "\<And>ts. ended ts \<Longrightarrow> 0 < remaining ts \<Longrightarrow> remaining ts \<le> n \<Longrightarrow> ok (le_left ts) (p ts)"
  shows "keeps n p"
  using assms ended_pos by (auto simp: keeps_def)

lemma shrinks_keeps: "shrinks n p \<Longrightarrow> keeps n p"
  by (rule keepsI) (auto simp: le_left_def intro!: shrinks_use [of n p])

lemma shrinks_le: "shrinks n p \<Longrightarrow> m \<le> n \<Longrightarrow> shrinks m p"
  by (auto simp: shrinks_def)

lemmas stream_simps =
  remaining_advance at_def match_opt_def at_any_def less_left_def le_left_def

section \<open>Combinators\<close>

lemma sep_loop_ok:
  assumes "shrinks n p" "ended ts" "remaining ts \<le> n" "remaining ts \<le> k"
  shows "ok (less_left ts) (sep_loop k p ts)"
  using assms(2-4)
proof (induction k arbitrary: ts)
  case 0
  then show ?case by (simp add: ended_def remaining_def)
next
  case (Suc k)
  show ?case
    using Suc.prems
    by (auto simp: stream_simps intro!: shrinks_use [OF assms(1)] less_left_use [OF Suc.IH])
qed

lemma shrinks_comma_list: "shrinks n p \<Longrightarrow> shrinks n (comma_list p)"
  by (rule shrinksI) (auto simp: comma_list_def remaining_def [symmetric] intro!: sep_loop_ok [of n])

lemma keeps_optional: "shrinks n p \<Longrightarrow> ty \<noteq> TK_EOF \<Longrightarrow> keeps n (optional ty p)"
  by (rule keepsI) (auto simp: optional_def stream_simps intro!: shrinks_use [of n p])

lemma shrinks_in_parens: "shrinks n p \<Longrightarrow> shrinks n (in_parens p)"
  by (rule shrinksI) (auto simp: in_parens_def stream_simps intro!: shrinks_use [of n p])

lemma shrinks_name_list: "shrinks n name_list"
  unfolding name_list_def
  by (rule shrinks_comma_list, rule shrinksI) (auto simp: stream_simps)

lemma binary_loop_ok:
  assumes "shrinks n p" "ended ts" "remaining ts \<le> n" "remaining ts \<le> k"
    and "assoc_get TK_EOF ops = None"
  shows "ok (le_left ts) (binary_loop k ops p left ts)"
  using assms(2-4)
proof (induction k arbitrary: ts left)
  case 0
  then show ?case by (simp add: ended_def remaining_def)
next
  case (Suc k)
  have *: "at TK_EOF ts \<Longrightarrow> assoc_get (tok_type (current ts)) ops = None"
    using assms(5) by (simp add: at_def)
  show ?case
  proof (cases "at TK_EOF ts")
    case True
    then show ?thesis using Suc.prems * by (simp add: le_left_def)
  next
    case False
    then show ?thesis
      using Suc.prems
      by (auto simp: le_left_def remaining_advance split: option.split
          intro!: shrinks_use [OF assms(1)] le_left_use [OF Suc.IH])
  qed
qed

lemma shrinks_left_assoc:
  assumes "shrinks n p" "assoc_get TK_EOF ops = None"
  shows "shrinks n (left_assoc ops p)"
  by (rule shrinksI)
     (auto simp: left_assoc_def less_left_def remaining_def [symmetric]
      intro!: shrinks_use [OF assms(1)] le_left_use [OF binary_loop_ok [OF assms(1) _ _ _ assms(2)]])

section \<open>The methods of the parser\<close>

text \<open>What the methods rely on of the two parsers they call for the nested expressions and
  queries: within \<open>n\<close> tokens each takes at least one.\<close>

locale subparsers =
  fixes pe :: "expr parser" and ps :: "select parser" and n :: nat
  assumes pe: "shrinks n pe" and ps: "shrinks n ps"
begin

lemmas sub_uses = shrinks_use [OF pe] shrinks_use [OF ps]

lemma shrinks_list: "shrinks n (parse_expression_list pe)"
  unfolding parse_expression_list_def by (rule shrinks_comma_list [OF pe])

lemma aggregate_ok: "ended ts \<Longrightarrow> remaining ts \<le> Suc n \<Longrightarrow> \<not> at TK_EOF ts \<Longrightarrow>
    ok (less_left ts) (parse_aggregate_function pe ts)"
  using ended_pos [of ts]
  by (auto simp: parse_aggregate_function_def stream_simps Let_def split: prod.splits
      intro!: shrinks_use [OF shrinks_list]; linarith)

lemma when_loop_ok:
  assumes "ended ts" "remaining ts \<le> n" "remaining ts \<le> k"
  shows "ok (le_left ts) (when_loop k pe ts)"
  using assms
proof (induction k arbitrary: ts)
  case 0
  then show ?case by (simp add: ended_def remaining_def)
next
  case (Suc k)
  then show ?case
    by (auto simp: stream_simps intro!: sub_uses le_left_use [OF Suc.IH]; linarith)
qed

lemma keeps_case: "keeps n (parse_case_expr pe)"
  by (rule keepsI)
     (auto simp: parse_case_expr_def stream_simps remaining_def [symmetric]
      intro!: sub_uses le_left_use [OF when_loop_ok] keeps_use [OF keeps_optional [OF pe]]; linarith)

lemma keeps_type_name: "keeps n parse_type_name"
  by (rule keepsI) (auto simp: parse_type_name_def stream_simps Let_def; linarith)

lemma keeps_cast: "keeps n (parse_cast_expr pe)"
  by (rule keepsI)
     (auto simp: parse_cast_expr_def stream_simps intro!: sub_uses keeps_use [OF keeps_type_name];
      linarith)

lemma keeps_name: "keeps n (parse_name pe v)"
  by (rule keepsI)
     (auto simp: parse_name_def stream_simps Let_def split: prod.splits
      intro!: shrinks_use [OF shrinks_list]; linarith)

lemma primary_ok: "shrinks (Suc n) (parse_primary rt pe ps)"
proof (rule shrinksI)
  fix ts :: "token list" assume "ended ts" "0 < remaining ts" "remaining ts \<le> Suc n"
  then show "ok (less_left ts) (parse_primary rt pe ps ts)"
    using aggregate_ok [of ts]
    by (auto simp: parse_primary_def Let_def stream_simps
        intro!: sub_uses keeps_use [OF keeps_case] keeps_use [OF keeps_cast]
          keeps_use [OF keeps_name] shrinks_use [OF shrinks_in_parens [OF ps]]; linarith)
qed

lemma unary_ok: "shrinks (Suc n) (parse_unary rt pe ps)"
proof (rule shrinksI)
  fix ts :: "token list" assume "ended ts" "remaining ts \<le> Suc n"
  then show "ok (less_left ts) (parse_unary rt pe ps ts)"
  proof (induction ts rule: induct_list012)
    case (3 t u us)
    have "ok (less_left (u # us)) (parse_unary rt pe ps (u # us))"
      using 3 by (auto simp: remaining_def dest: ended_Cons)
    then have "ok (less_left (t # u # us))
        (bind_sql (parse_unary rt pe ps (u # us)) (\<lambda>(e, ts). Inr (UnaryOp op e, ts)))" for op
      by (auto simp: less_left_def remaining_def elim!: ok_mono)
    then show ?case using 3(3,4) primary_ok [of rt] by (simp add: shrinks_def)
  qed (use primary_ok in \<open>auto simp: shrinks_def\<close>)
qed

lemma multiplication_ok: "shrinks (Suc n) (parse_multiplication rt pe ps)"
  unfolding parse_multiplication_def
  by (rule shrinks_left_assoc [OF unary_ok]) (simp add: mul_ops_def)

lemma addition_ok: "shrinks (Suc n) (parse_addition rt pe ps)"
  unfolding parse_addition_def
  by (rule shrinks_left_assoc [OF multiplication_ok]) (simp add: add_ops_def)

lemma comparison_tail_ok:
  assumes pa: "shrinks (Suc n) pa" and ts: "ended ts" "remaining ts \<le> n"
  shows "ok (le_left ts) (parse_comparison_tail pe ps pa left ts)"
proof (cases "at TK_IS ts")
  case True
  then show ?thesis
    using ts by (auto simp: parse_comparison_tail_def Let_def stream_simps; linarith)
next
  case False
  define negated where "negated = (at TK_NOT ts \<and> tok_type (peek ts) \<in> set [TK_BETWEEN, TK_IN, TK_LIKE])"
  define us where "us = (if negated then advance ts else ts)"
  have us: "ended us" "remaining us \<le> remaining ts" "remaining us \<le> n" "0 < remaining us"
    using ts ended_pos [of us] by (auto simp: us_def remaining_advance)
  have le: "remaining (advance us) \<le> remaining ts" "remaining (advance us) \<le> Suc n"
    "remaining (advance us) \<le> n"
    using us by (auto simp: remaining_advance)
  show ?thesis
    unfolding parse_comparison_tail_def Let_def negated_def [symmetric] us_def [symmetric]
    using False us le
    by (auto simp: parse_in_list_def le_left_def remaining_advance at_def
        split: option.split intro!: sub_uses shrinks_use [OF pa] shrinks_use [OF shrinks_list])
qed

lemma comparison_ok: "shrinks (Suc n) (parse_comparison rt pe ps)"
  by (rule shrinksI)
     (auto simp: parse_comparison_def less_left_def
      intro!: shrinks_use [OF addition_ok] le_left_use [OF comparison_tail_ok [OF addition_ok]])

lemma not_ok: "shrinks (Suc n) (parse_not_expr rt pe ps)"
proof (rule shrinksI)
  fix ts :: "token list" assume "ended ts" "remaining ts \<le> Suc n"
  then show "ok (less_left ts) (parse_not_expr rt pe ps ts)"
  proof (induction ts rule: induct_list012)
    case (3 t u us)
    have "ok (less_left (u # us)) (parse_not_expr rt pe ps (u # us))"
      using 3 by (auto simp: remaining_def dest: ended_Cons)
    then have "ok (less_left (t # u # us))
        (bind_sql (parse_not_expr rt pe ps (u # us)) (\<lambda>(e, ts). Inr (UnaryOp op e, ts)))" for op
      by (auto simp: less_left_def remaining_def elim!: ok_mono)
    then show ?case using 3(3,4) comparison_ok [of rt] by (simp add: shrinks_def)
  qed (use comparison_ok in \<open>auto simp: shrinks_def\<close>)
qed

lemma or_ok: "shrinks (Suc n) (parse_or_expr rt pe ps)"
  unfolding parse_or_expr_def parse_and_expr_def
  by (intro shrinks_left_assoc not_ok) simp_all

lemma keeps_table_alias: "keeps m parse_table_alias" "keeps m parse_subquery_alias"
  by (rule keepsI, auto simp: parse_table_alias_def parse_subquery_alias_def stream_simps; linarith)+

lemma primary_table_ok: "shrinks n (parse_primary_table_ref ps)"
  by (rule shrinksI)
     (auto simp: parse_primary_table_ref_def Let_def stream_simps
      intro!: sub_uses keeps_use [OF keeps_table_alias(1) [of n]]
        keeps_use [OF keeps_table_alias(2) [of n]]; linarith)

lemma join_type_ok: "shrinks n parse_join_type"
  by (rule shrinksI) (auto simp: parse_join_type_def stream_simps; linarith)

lemma join_condition_ok: "keeps n (parse_join_condition pe)"
  by (rule keepsI)
     (auto simp: parse_join_condition_def stream_simps
      intro!: sub_uses shrinks_use [OF shrinks_in_parens [OF shrinks_name_list [of n]]]; linarith)

lemma join_loop_ok:
  assumes "ended ts" "remaining ts \<le> n" "remaining ts \<le> k"
  shows "ok (le_left ts) (join_loop k pe ps left ts)"
  using assms
proof (induction k arbitrary: ts left)
  case 0
  then show ?case by (simp add: ended_def remaining_def)
next
  case (Suc k)
  show ?case
    using Suc.prems ended_pos [OF Suc.prems(1)]
    by (auto simp: stream_simps join_starts_def intro!: shrinks_use [OF primary_table_ok]
        shrinks_use [OF join_type_ok] keeps_use [OF join_condition_ok] le_left_use [OF Suc.IH]; linarith)
qed

lemma table_ref_ok: "shrinks n (parse_table_ref pe ps)"
  by (rule shrinksI)
     (auto simp: parse_table_ref_def less_left_def remaining_def [symmetric]
      intro!: shrinks_use [OF primary_table_ok] le_left_use [OF join_loop_ok])

lemma item_alias_ok: "keeps n (parse_item_alias e)"
  by (rule keepsI) (auto simp: parse_item_alias_def stream_simps; linarith)

lemma select_list_ok: "shrinks n (parse_select_list pe)"
  unfolding parse_select_list_def
  by (rule shrinks_comma_list, rule shrinksI)
     (auto simp: parse_select_item_def stream_simps split: expr.split
      intro!: sub_uses keeps_use [OF item_alias_ok]; linarith)

lemma order_by_ok: "shrinks n (parse_order_by_list pe)"
  unfolding parse_order_by_list_def
  by (rule shrinks_comma_list, rule shrinksI)
     (auto simp: parse_order_item_def stream_simps intro!: sub_uses; linarith)

lemma by_clause_ok: "shrinks n p \<Longrightarrow> shrinks n (by_clause p)"
  by (rule shrinksI) (auto simp: by_clause_def stream_simps intro!: shrinks_use [of n p]; linarith)

lemma count_ok: "shrinks n parse_count"
  by (rule shrinksI) (auto simp: parse_count_def stream_simps; linarith)

lemma limit_ok: "shrinks n parse_limit"
  by (rule shrinksI)
     (auto simp: parse_limit_def stream_simps intro!: shrinks_use [OF count_ok]
      keeps_use [OF keeps_optional [OF count_ok]])

lemma select_ok: "shrinks (Suc n) (parse_select pe ps)"
  by (rule shrinksI)
     (auto simp: parse_select_def stream_simps Let_def intro!: shrinks_use [OF select_list_ok]
      keeps_use [OF keeps_optional [OF pe]] keeps_use [OF keeps_optional [OF table_ref_ok]]
      keeps_use [OF keeps_optional [OF by_clause_ok [OF shrinks_list]]]
      keeps_use [OF keeps_optional [OF by_clause_ok [OF order_by_ok]]]
      keeps_use [OF keeps_optional [OF limit_ok]]; linarith)

lemma identifier_ok: "shrinks n parse_identifier"
  by (rule shrinksI) (auto simp: parse_identifier_def stream_simps; linarith)

lemma insert_ok: "shrinks n (parse_insert pe)"
  by (rule shrinksI)
     (auto simp: parse_insert_def stream_simps
      intro!: shrinks_use [OF identifier_ok] shrinks_use [OF shrinks_in_parens [OF shrinks_name_list [of n]]]
        shrinks_use [OF shrinks_comma_list [OF shrinks_in_parens [OF shrinks_comma_list [OF pe]]]];
      linarith)

lemma update_ok: "shrinks n (parse_update pe)"
proof -
  have assignment: "shrinks n (parse_assignment pe)"
    by (rule shrinksI)
       (auto simp: parse_assignment_def stream_simps intro!: sub_uses shrinks_use [OF identifier_ok];
        linarith)
  show ?thesis
    by (rule shrinksI)
       (auto simp: parse_update_def stream_simps intro!: shrinks_use [OF identifier_ok]
          shrinks_use [OF shrinks_comma_list [OF assignment]] keeps_use [OF keeps_optional [OF pe]];
        linarith)
qed

lemma delete_ok: "shrinks n (parse_delete pe)"
  by (rule shrinksI)
     (auto simp: parse_delete_def stream_simps intro!: shrinks_use [OF identifier_ok]
        keeps_use [OF keeps_optional [OF pe]]; linarith)

lemma if_not_exists_ok: "keeps n parse_if_not_exists"
  by (rule keepsI) (auto simp: parse_if_not_exists_def stream_simps; linarith)

lemma reference_ok: "shrinks n parse_reference"
  by (rule shrinksI)
     (auto simp: parse_reference_def stream_simps intro!: shrinks_use [OF identifier_ok]
        shrinks_use [OF shrinks_in_parens [OF identifier_ok]])

lemma column_constraint_ok:
  assumes "ended ts" "remaining ts \<le> n"
  shows "ok (\<lambda>(r, us). ended us \<and> remaining us \<le> remaining ts \<and>
           (r \<noteq> None \<longrightarrow> remaining us < remaining ts)) (parse_column_constraint pe ts)"
  using assms ended_pos [OF assms(1)]
  by (auto simp: parse_column_constraint_def Let_def stream_simps
      intro!: sub_uses shrinks_use [OF shrinks_in_parens [OF pe]] shrinks_use [OF reference_ok];
      linarith)

lemma constraint_loop_ok:
  assumes "ended ts" "remaining ts \<le> n" "remaining ts \<le> k"
  shows "ok (le_left ts) (constraint_loop k pe ts)"
  using assms
proof (induction k arbitrary: ts)
  case 0
  then show ?case by (simp add: ended_def remaining_def)
next
  case (Suc k)
  show ?case
    unfolding constraint_loop.simps ok_simps
  proof (rule ok_mono [OF column_constraint_ok [OF Suc.prems(1,2)]])
    fix x :: "sql_constraint list option \<times> token list"
    assume x: "case x of (r, us) \<Rightarrow> ended us \<and> remaining us \<le> remaining ts \<and>
      (r \<noteq> None \<longrightarrow> remaining us < remaining ts)"
    obtain r us where "x = (r, us)" by (cases x)
    then show "ok (le_left ts) (case x of (r, ts) \<Rightarrow>
        (case r of None \<Rightarrow> Inr ([], ts)
         | Some cs \<Rightarrow> bind_sql (constraint_loop k pe ts) (\<lambda>(ds, ts). Inr (cs @ ds, ts))))"
      using x Suc.prems
      by (cases r) (auto simp: le_left_def intro!: le_left_use [OF Suc.IH])
  qed
qed

lemma column_def_ok: "shrinks n (parse_column_def pe)"
  by (rule shrinksI)
     (auto simp: parse_column_def_def less_left_def remaining_def [symmetric]
      intro!: shrinks_use [OF identifier_ok] keeps_use [OF keeps_type_name]
        le_left_use [OF constraint_loop_ok])

lemma table_constraint_ok:
  assumes "ended ts" "remaining ts \<le> n"
  shows "ok (less_left ts) (parse_table_constraint pe ts)"
proof -
  have *: "ended (advance (advance ts))" "remaining (advance (advance ts)) \<le> remaining ts"
    using assms by (auto simp: remaining_advance)
  define us where "us = (if at TK_CONSTRAINT ts then advance (advance ts) else ts)"
  have us: "ended us" "remaining us \<le> remaining ts" "remaining us \<le> n" "0 < remaining us"
    using assms * ended_pos [of us] by (auto simp: us_def)
  show ?thesis
    unfolding parse_table_constraint_def us_def [symmetric] using us
    by (auto simp: Let_def stream_simps
        intro!: shrinks_use [OF shrinks_in_parens [OF pe]] shrinks_use [OF reference_ok]
          shrinks_use [OF shrinks_in_parens [OF shrinks_name_list [of n]]]
          shrinks_use [OF shrinks_in_parens [OF identifier_ok]]; linarith)
qed

lemma table_body_ok:
  assumes "ended ts" "remaining ts \<le> n" "remaining ts \<le> k"
  shows "ok (le_left ts) (table_body k pe ts)"
  using assms
proof (induction k arbitrary: ts)
  case 0
  then show ?case by (simp add: ended_def remaining_def)
next
  case (Suc k)
  show ?case
    using Suc.prems
    by (auto simp: le_left_def remaining_advance at_def
        intro!: less_left_use [OF table_constraint_ok] shrinks_use [OF column_def_ok]
          le_left_use [OF Suc.IH])
qed

lemma create_ok: "shrinks n (parse_create pe)"
proof -
  have index: "shrinks n (parse_create_index u)" for u
    by (rule shrinksI)
       (auto simp: parse_create_index_def stream_simps intro!: shrinks_use [OF identifier_ok]
          keeps_use [OF if_not_exists_ok] shrinks_use [OF shrinks_in_parens [OF shrinks_name_list [of n]]];
        linarith)
  have table: "shrinks n (parse_create_table pe)"
    by (rule shrinksI)
       (auto simp: parse_create_table_def stream_simps remaining_def [symmetric]
          intro!: shrinks_use [OF identifier_ok] keeps_use [OF if_not_exists_ok]
            le_left_use [OF table_body_ok]; linarith)
  show ?thesis
    by (rule shrinksI)
       (auto simp: parse_create_def stream_simps
        intro!: shrinks_use [OF index] shrinks_use [OF table]; linarith)
qed

lemma drop_ok: "shrinks n parse_drop"
  by (rule shrinksI)
     (auto simp: parse_drop_def stream_simps intro!: shrinks_use [OF identifier_ok]; linarith)

lemma simple_statement_ok: "shrinks n (parse_simple_statement pe ps)"
  by (rule shrinksI)
     (auto simp: parse_simple_statement_def parse_begin_def stream_simps
      intro!: sub_uses shrinks_use [OF insert_ok] shrinks_use [OF update_ok]
        shrinks_use [OF delete_ok] shrinks_use [OF create_ok] shrinks_use [OF drop_ok]; linarith)

lemma statement_ok: "shrinks n (parse_statement pe ps)"
proof (rule shrinksI)
  fix ts :: "token list" assume "ended ts" "remaining ts \<le> n"
  then show "ok (less_left ts) (parse_statement pe ps ts)"
  proof (induction ts rule: induct_list012)
    case (3 t u us)
    have "ok (less_left (u # us)) (parse_statement pe ps (u # us))"
      using 3 by (auto simp: remaining_def dest: ended_Cons)
    then have "ok (less_left (t # u # us))
        (bind_sql (parse_statement pe ps (u # us)) (\<lambda>(s, ts). Inr (ExplainStatement s, ts)))"
      by (auto simp: less_left_def remaining_def elim!: ok_mono)
    then show ?case using 3(3,4) simple_statement_ok by (simp add: shrinks_def)
  qed (use simple_statement_ok in \<open>auto simp: shrinks_def\<close>)
qed

lemma statement_loop_ok:
  assumes "ended ts" "remaining ts \<le> n" "remaining ts \<le> k"
  shows "ok (\<lambda>_. True) (statement_loop k pe ps ts)"
  using assms
proof (induction k arbitrary: ts)
  case 0
  then show ?case by (simp add: ended_def remaining_def)
next
  case (Suc k)
  show ?case
    using Suc.prems
    by (auto simp: match_opt_def remaining_advance at_def
        intro!: shrinks_use [OF statement_ok] ok_mono [OF Suc.IH])
qed

end

section \<open>The knot\<close>

lemma knot_ok: "subparsers (pexpr rt n) (psel rt n) n"
proof (induction n)
  case 0
  show ?case
    by unfold_locales (auto simp: shrinks_def dest: ended_pos)
next
  case (Suc n)
  show ?case
    using subparsers.or_ok [OF Suc] subparsers.select_ok [OF Suc]
    by unfold_locales (auto simp: shrinks_def)
qed

interpretation fuelled: subparsers "pexpr rt n" "psel rt n" n for rt n
  by (rule knot_ok)

lemma entry_ok: "subparsers (parse_expression rt) (parse_query rt) n"
  using fuelled.pe fuelled.ps
  by unfold_locales (auto simp: shrinks_def parse_expression_def parse_query_def remaining_def)

interpretation entry: subparsers "parse_expression rt" "parse_query rt" n for rt n
  by (rule entry_ok)

section \<open>Properties\<close>

text \<open>
  C35: an expression or a query parser started on a token list that ends in
  \<^verbatim>\<open>EOF\<close> raises or takes at least one token and leaves a list of the same
  kind; nesting never exhausts the bound.
\<close>

theorem parse_expression_progress:
  assumes "ended ts"
  shows "case parse_expression rt ts of
      Inr (e, us) \<Rightarrow> ended us \<and> length us < length ts
    | Inl err \<Rightarrow> err \<noteq> OutOfFuel"
  using entry.pe [of "remaining ts" rt] assms
  by (auto simp: shrinks_def ok_def less_left_def remaining_def split: sum.splits)

definition null_runtime :: py_runtime where
  "null_runtime = \<lparr>rt_int_of_str = (\<lambda>_. None), rt_int_of_float = (\<lambda>_. Inl ValueError),
     rt_float_of_int = (\<lambda>_. Inl OverflowError), rt_float_of_str = (\<lambda>_. None),
     rt_float_repr = (\<lambda>_. []), rt_bytes_repr = (\<lambda>_. [])\<rparr>"

definition sample_tokens :: "token list" where
  "sample_tokens = map (\<lambda>(ty, v). mk_token ty v (1, 1))
     [(TK_LPAREN, ''(''), (TK_IDENTIFIER, ''a''), (TK_RPAREN, '')''), (TK_EOF, [])]"

theorem parse_expression_progress_witness:
  "case parse_expression null_runtime sample_tokens of
      Inr (e, us) \<Rightarrow> ended us \<and> length us < length sample_tokens
    | Inl err \<Rightarrow> err \<noteq> OutOfFuel"
proof -
  have "ended sample_tokens" by code_simp
  then show ?thesis by (rule parse_expression_progress)
qed

text \<open>
  C23: parsing terminates on every source: the bounds on nesting and on loops are never met, so a
  failing parse is a tokenizer error, a parse error at a token, or the
  \<^verbatim>\<open>ValueError\<close> of a numeric literal.
\<close>

theorem parse_sql_terminates: "parse_sql rt src \<noteq> Inl OutOfFuel"
proof (cases "tokenize src")
  case (Inl e)
  then have "lexer_error e" using lex_loop_shape [of src "(1, 1)"] by (simp add: tokenize_def)
  then show ?thesis using Inl by (auto simp: parse_sql_def lexer_error_def)
next
  case (Inr ts)
  then have ts: "ended ts" using lex_loop_shape [of src "(1, 1)"] by (simp add: tokenize_def)
  have "ok (\<lambda>_. True) (parse_tokens rt ts)"
    using entry.statement_loop_ok [OF ts, where rt = rt and n = "remaining ts" and k = "remaining ts"]
    by (auto simp: parse_tokens_def remaining_def elim!: ok_mono)
  then show ?thesis using Inr by (auto simp: parse_sql_def ok_def)
qed

text \<open>
  Dots in the select list: \<^verbatim>\<open>t.*\<close> parses to a column named
  \<^verbatim>\<open>*\<close> of the table \<^verbatim>\<open>t\<close>, never to the qualified star the
  branch for it builds, since the primary expression has already taken the dot;
  \<^verbatim>\<open>a.b.c\<close> drops the second dot and takes \<^verbatim>\<open>c\<close> as an
  alias; and a name may end in a dot.
\<close>

theorem dotted_select_items:
  "parse_sql rt ''SELECT t.* FROM t'' = Inr [Select (SelectStatement
     [PlainItem (ColumnRef ''*'' (Some ''t''))] (Some (SimpleTableRef ''t'' None))
     None None None None None None False)] \<and>
   parse_sql rt ''SELECT a.b.c FROM t'' = Inr [Select (SelectStatement
     [AliasItem (ColumnRef ''b'' (Some ''a'')) ''c''] (Some (SimpleTableRef ''t'' None))
     None None None None None None False)] \<and>
   parse_sql rt ''SELECT a.'' = Inr [Select (SelectStatement
     [PlainItem (ColumnRef [] (Some ''a''))] None None None None None None None False)]"
  by (intro conjI; code_simp)

end
