(* ===== verification/Parser_Roundtrip.thy ===== *)
theory Parser_Roundtrip
  imports Parser Lexer_Spec
begin

text \<open>
  Printing expressions with the fewest parentheses, and the proof that the parser of
  \<^verbatim>\<open>Parser\<close> reads back what is printed: operator precedence and
  associativity are those of the grammar in the source's header.  An expression is printed as
  the types and values of its tokens, so the statement holds for tokens at any position.
  Subqueries are left out, as are float literals, whose text is Python's.
\<close>

section \<open>Levels\<close>

text \<open>Levels of the grammar: 0 \<^verbatim>\<open>OR\<close>, 1 \<^verbatim>\<open>AND\<close>,
  2 \<^verbatim>\<open>NOT\<close>, 3 comparisons, 4 addition, 5 multiplication, 6 negation,
  7 primary.\<close>

type_synonym key = "token_type \<times> string"

fun op_key :: "binary_op_type \<Rightarrow> key" where
  "op_key OP_ADD = (TK_PLUS, ''+'')"
| "op_key OP_SUB = (TK_MINUS, ''-'')"
| "op_key OP_CONCAT = (TK_CONCAT, ''||'')"
| "op_key OP_MUL = (TK_STAR, ''*'')"
| "op_key OP_DIV = (TK_SLASH, ''/'')"
| "op_key OP_MOD = (TK_PERCENT, ''%'')"
| "op_key OP_EQ = (TK_EQUALS, ''='')"
| "op_key OP_NEQ = (TK_NOT_EQUALS, ''<>'')"
| "op_key OP_LT = (TK_LESS, ''<'')"
| "op_key OP_GT = (TK_GREATER, ''>'')"
| "op_key OP_LTE = (TK_LESS_EQUALS, ''<='')"
| "op_key OP_GTE = (TK_GREATER_EQUALS, ''>='')"
| "op_key OP_AND = (TK_AND, ''AND'')"
| "op_key OP_OR = (TK_OR, ''OR'')"

fun op_level :: "binary_op_type \<Rightarrow> nat" where
  "op_level OP_OR = 0"
| "op_level OP_AND = 1"
| "op_level OP_ADD = 4"
| "op_level OP_SUB = 4"
| "op_level OP_CONCAT = 4"
| "op_level OP_MUL = 5"
| "op_level OP_DIV = 5"
| "op_level OP_MOD = 5"
| "op_level _ = 3"

definition left_level :: "binary_op_type \<Rightarrow> nat" where
  "left_level op = (if op_level op = 3 then 4 else op_level op)"

fun prec :: "expr \<Rightarrow> nat" where
  "prec (BinaryOp op a b) = op_level op"
| "prec (UnaryOp OP_NOT e) = 2"
| "prec (UnaryOp OP_NEGATE e) = 6"
| "prec (BetweenExpr _ _ _ _) = 3"
| "prec (InExpr _ _ _ _) = 3"
| "prec (LikeExpr _ _ _) = 3"
| "prec (IsNullExpr _ _) = 3"
| "prec _ = 7"

section \<open>Printing\<close>

fun literal_key :: "pyval \<Rightarrow> key" where
  "literal_key (VBool b) = (TK_BOOLEAN_LITERAL, if b then ''TRUE'' else ''FALSE'')"
| "literal_key (VInt i) = (TK_INTEGER_LITERAL, digits_of (nat i))"
| "literal_key (VStr s) = (TK_STRING_LITERAL, s)"
| "literal_key _ = (TK_NULL_LITERAL, ''NULL'')"

definition name_key :: "string \<Rightarrow> key" where
  "name_key name =
     (if name \<in> set aggregate_names then (the (assoc_get name sql_keywords), name)
      else (TK_IDENTIFIER, name))"

abbreviation "LP \<equiv> (TK_LPAREN, ''('')"
abbreviation "RP \<equiv> (TK_RPAREN, '')'')"
abbreviation "CM \<equiv> (TK_COMMA, '','')"

definition wrap :: "bool \<Rightarrow> key list \<Rightarrow> key list" where
  "wrap b ks = (if b then LP # ks @ [RP] else ks)"

fun commas :: "key list list \<Rightarrow> key list" where
  "commas [] = []"
| "commas [x] = x"
| "commas (x # y # zs) = x @ CM # commas (y # zs)"

definition flag :: "bool \<Rightarrow> key \<Rightarrow> key list" where
  "flag b k = (if b then [k] else [])"

fun raw :: "expr \<Rightarrow> key list" where
  "raw (Literal v ty) = [literal_key v]"
| "raw (ColumnRef c None) = [(TK_IDENTIFIER, c)]"
| "raw (ColumnRef c (Some t)) = [(TK_IDENTIFIER, t), (TK_DOT, ''.''), (TK_IDENTIFIER, c)]"
| "raw (BinaryOp op a b) =
     wrap (prec a < left_level op) (raw a) @ op_key op # wrap (prec b < Suc (op_level op)) (raw b)"
| "raw (UnaryOp OP_NOT e) = (TK_NOT, ''NOT'') # wrap (prec e < 2) (raw e)"
| "raw (UnaryOp OP_NEGATE e) = (TK_MINUS, ''-'') # wrap (prec e < 6) (raw e)"
| "raw (FunctionCall name args dis agg) =
     name_key name # LP # flag dis (TK_DISTINCT, ''DISTINCT'') @ commas (map raw args) @ [RP]"
| "raw (StarExpr t) = [(TK_STAR, ''*'')]"
| "raw (BetweenExpr e lo hi neg) =
     wrap (prec e < 4) (raw e) @ flag neg (TK_NOT, ''NOT'') @ (TK_BETWEEN, ''BETWEEN'') #
     wrap (prec lo < 4) (raw lo) @ (TK_AND, ''AND'') # wrap (prec hi < 4) (raw hi)"
| "raw (InExpr e vs q neg) =
     wrap (prec e < 4) (raw e) @ flag neg (TK_NOT, ''NOT'') @ (TK_IN, ''IN'') #
     LP # commas (map raw vs) @ [RP]"
| "raw (LikeExpr e pat neg) =
     wrap (prec e < 4) (raw e) @ flag neg (TK_NOT, ''NOT'') @ (TK_LIKE, ''LIKE'') #
     wrap (prec pat < 4) (raw pat)"
| "raw (IsNullExpr e neg) =
     wrap (prec e < 4) (raw e) @ (TK_IS, ''IS'') # flag neg (TK_NOT, ''NOT'') @
     [(TK_NULL_LITERAL, ''NULL'')]"
| "raw (CaseExpr operand ws els) =
     (TK_CASE, ''CASE'') # (case operand of None \<Rightarrow> [] | Some e \<Rightarrow> raw e) @
     concat (map (\<lambda>(c, r). (TK_WHEN, ''WHEN'') # raw c @ (TK_THEN, ''THEN'') # raw r) ws) @
     (case els of None \<Rightarrow> [] | Some e \<Rightarrow> (TK_ELSE, ''ELSE'') # raw e) @ [(TK_END, ''END'')]"
| "raw (CastExpr e ty) =
     (TK_CAST, ''CAST'') # LP # raw e @ [(TK_AS, ''AS''), (TK_IDENTIFIER, ty), RP]"
| "raw (ExistsExpr q) = []"
| "raw (SubqueryExpr q) = []"

definition unparse :: "nat \<Rightarrow> expr \<Rightarrow> key list" where
  "unparse l e = wrap (prec e < l) (raw e)"

fun literal_ok :: "pyval \<Rightarrow> string \<Rightarrow> bool" where
  "literal_ok VNone ty = (ty = ''null'')"
| "literal_ok (VBool b) ty = (ty = ''boolean'')"
| "literal_ok (VInt i) ty = (ty = ''integer'' \<and> 0 \<le> i \<and> length (digits_of (nat i)) \<le> 4300)"
| "literal_ok (VStr s) ty = (ty = ''string'')"
| "literal_ok _ ty = False"

text \<open>The expressions the grammar can denote: calls carry the aggregate mark their name gives
  them, \<open>*\<close> is the sole argument of an aggregate, and lists are not empty where the
  grammar wants an item.\<close>

fun plain :: "expr \<Rightarrow> bool" where
  "plain (Literal v ty) = literal_ok v ty"
| "plain (ColumnRef c t) = True"
| "plain (BinaryOp op a b) = (plain a \<and> plain b)"
| "plain (UnaryOp op e) = plain e"
| "plain (FunctionCall name args dis agg) =
     (if name \<in> set aggregate_names
      then agg \<and> (args = [StarExpr None] \<and> \<not> dis \<or> list_all plain args)
      else \<not> agg \<and> str_upper name \<notin> set aggregate_names \<and> list_all plain args \<and>
           (dis \<longrightarrow> args \<noteq> []))"
| "plain (StarExpr t) = False"
| "plain (BetweenExpr e lo hi neg) = (plain e \<and> plain lo \<and> plain hi)"
| "plain (InExpr e vs q neg) = (plain e \<and> list_all plain vs \<and> vs \<noteq> [] \<and> q = None)"
| "plain (LikeExpr e pat neg) = (plain e \<and> plain pat)"
| "plain (IsNullExpr e neg) = plain e"
| "plain (CaseExpr operand ws els) =
     ((case operand of None \<Rightarrow> ws \<noteq> [] | Some e \<Rightarrow> plain e) \<and>
      list_all (\<lambda>(c, r). plain c \<and> plain r) ws \<and>
      (case els of None \<Rightarrow> True | Some e \<Rightarrow> plain e))"
| "plain (CastExpr e ty) = plain e"
| "plain (ExistsExpr q) = False"
| "plain (SubqueryExpr q) = False"

section \<open>What may follow and what may start\<close>

definition stops :: "nat \<Rightarrow> token_type list" where
  "stops l =
     [TK_LPAREN, TK_DOT] @
     (if l \<le> 5 then [TK_STAR, TK_SLASH, TK_PERCENT] else []) @
     (if l \<le> 4 then [TK_PLUS, TK_MINUS, TK_CONCAT] else []) @
     (if l \<le> 3 then [TK_IS, TK_NOT, TK_BETWEEN, TK_IN, TK_LIKE, TK_EQUALS, TK_NOT_EQUALS, TK_LESS,
        TK_GREATER, TK_LESS_EQUALS, TK_GREATER_EQUALS] else []) @
     (if l \<le> 1 then [TK_AND] else []) @
     (if l = 0 then [TK_OR] else [])"

definition follow :: "nat \<Rightarrow> token list \<Rightarrow> bool" where
  "follow l rest = (rest \<noteq> [] \<and> tok_type (hd rest) \<notin> set (stops l))"

definition nonstarts :: "nat \<Rightarrow> token_type list" where
  "nonstarts l =
     [TK_SELECT, TK_WHEN, TK_RPAREN, TK_STAR, TK_DISTINCT] @
     (if 2 < l then [TK_NOT] else []) @ (if 6 < l then [TK_MINUS] else [])"

definition starts :: "nat \<Rightarrow> key list \<Rightarrow> bool" where
  "starts l ks = (ks \<noteq> [] \<and> fst (hd ks) \<notin> set (nonstarts l))"

lemma follow_mono: "follow l rest \<Longrightarrow> l \<le> k \<Longrightarrow> follow k rest"
  by (auto simp: follow_def stops_def)

lemma starts_mono: "starts k ks \<Longrightarrow> l \<le> k \<Longrightarrow> starts l ks"
  by (auto simp: starts_def nonstarts_def)

lemma starts_append [simp]: "ks \<noteq> [] \<Longrightarrow> starts l (ks @ js) = starts l ks"
  by (auto simp: starts_def)

lemma starts_wrap: "starts k ks \<Longrightarrow> \<not> b \<Longrightarrow> l \<le> k \<Longrightarrow> starts l (wrap b ks)" "starts l (wrap True ks)"
  by (auto simp: starts_def wrap_def nonstarts_def)

lemma keyword_count: "assoc_get ''COUNT'' sql_keywords = Some TK_COUNT"
  by code_simp

lemma keyword_sum: "assoc_get ''SUM'' sql_keywords = Some TK_SUM"
  by code_simp

lemma keyword_avg: "assoc_get ''AVG'' sql_keywords = Some TK_AVG"
  by code_simp

lemma keyword_min: "assoc_get ''MIN'' sql_keywords = Some TK_MIN"
  by code_simp

lemma keyword_max: "assoc_get ''MAX'' sql_keywords = Some TK_MAX"
  by code_simp

lemmas aggregate_keywords = keyword_count keyword_sum keyword_avg keyword_min keyword_max

lemma aggregate_key:
  "name \<in> set aggregate_names \<Longrightarrow>
   fst (name_key name) \<in> set [TK_COUNT, TK_SUM, TK_AVG, TK_MIN, TK_MAX]"
  using aggregate_keywords by (auto simp: aggregate_names_def name_key_def)

lemma name_key_start: "starts l (name_key name # ks)"
proof (cases "name \<in> set aggregate_names")
  case True
  then show ?thesis using aggregate_key [OF True] by (auto simp: starts_def nonstarts_def)
next
  case False
  then show ?thesis by (simp add: starts_def nonstarts_def name_key_def)
qed

lemma op_level_le: "op_level op \<le> 5"
  by (cases op) simp_all

lemma raw_starts: "plain e \<Longrightarrow> starts (prec e) (raw e)"
proof (induction e rule: raw.induct)
  case (1 v ty)
  then show ?case by (cases v) (auto simp: starts_def nonstarts_def)
next
  case (4 op a b)
  have "starts (op_level op) (wrap (prec a < left_level op) (raw a))"
  proof (cases "prec a < left_level op")
    case False
    then have "op_level op \<le> prec a" by (simp add: left_level_def split: if_splits)
    then show ?thesis using 4 False by (intro starts_wrap(1)) auto
  qed (simp add: starts_wrap)
  then show ?case by (auto simp: starts_def)
next
  case (9 e lo hi neg)
  then show ?case using starts_wrap(1) [of "prec e" "raw e" "prec e < 4" 3] starts_wrap(2) [of 3]
    by (cases "prec e < 4") (auto simp: starts_def)
next
  case (10 e vs q neg)
  then show ?case using starts_wrap(1) [of "prec e" "raw e" "prec e < 4" 3] starts_wrap(2) [of 3]
    by (cases "prec e < 4") (auto simp: starts_def)
next
  case (11 e pat neg)
  then show ?case using starts_wrap(1) [of "prec e" "raw e" "prec e < 4" 3] starts_wrap(2) [of 3]
    by (cases "prec e < 4") (auto simp: starts_def)
next
  case (12 e neg)
  then show ?case using starts_wrap(1) [of "prec e" "raw e" "prec e < 4" 3] starts_wrap(2) [of 3]
    by (cases "prec e < 4") (auto simp: starts_def)
next
  case (7 name args dis agg)
  then show ?case using name_key_start by simp
qed (simp_all add: starts_def nonstarts_def)

lemma unparse_starts: "plain e \<Longrightarrow> starts l (unparse l e)"
  unfolding unparse_def using raw_starts [of e] starts_wrap
  by (cases "prec e < l") (auto intro: starts_wrap(1) simp: not_less)

section \<open>Reading tokens\<close>

lemma stream_Cons [simp]:
  "current (t # ts) = t"
  "at ty (t # ts) = (tok_type t = ty)"
  "at_any tys (t # ts) = (tok_type t \<in> set tys)"
  "ts \<noteq> [] \<Longrightarrow> advance (t # ts) = ts"
  "ts \<noteq> [] \<Longrightarrow> peek (t # ts) = hd ts"
  by (auto simp: current_def at_def at_any_def advance_def peek_def split: list.splits)

lemma token_key_eq: "token_key t = (ty, v) \<longleftrightarrow> tok_type t = ty \<and> tok_value t = v"
  by (auto simp: token_key_def)

lemma keys_Cons: "map token_key us = (ty, v) # ks \<longleftrightarrow>
    (\<exists>t vs. us = t # vs \<and> tok_type t = ty \<and> tok_value t = v \<and> map token_key vs = ks)"
  by (auto simp: map_eq_Cons_conv token_key_def)

lemma keys_append: "map token_key us = js @ ks \<longleftrightarrow>
    (\<exists>vs ws. us = vs @ ws \<and> map token_key vs = js \<and> map token_key ws = ks)"
  by (auto simp: map_eq_append_conv)

lemmas key_split = keys_Cons keys_append

lemma follow_Cons [simp]: "follow l (t # ts) = (tok_type t \<notin> set (stops l))"
  by (simp add: follow_def)

lemma follow_nonempty: "follow l rest \<Longrightarrow> rest \<noteq> []"
  by (simp add: follow_def)

lemma follow_current: "follow l rest \<Longrightarrow> tok_type (current rest) \<notin> set (stops l)"
  by (simp add: follow_def current_def)

definition parses :: "nat \<Rightarrow> nat \<Rightarrow> 'a parser \<Rightarrow> key list \<Rightarrow> 'a \<Rightarrow> bool" where
  "parses m l p ks x = (\<forall>us rest. map token_key us = ks \<longrightarrow> length us \<le> m \<longrightarrow> follow l rest \<longrightarrow>
     p (us @ rest) = Inr (x, rest))"

lemma parsesI:
  "(\<And>us rest. map token_key us = ks \<Longrightarrow> length us \<le> m \<Longrightarrow> follow l rest \<Longrightarrow> p (us @ rest) = Inr (x, rest))
   \<Longrightarrow> parses m l p ks x"
  by (simp add: parses_def)

lemma parsesD:
  "parses m l p ks x \<Longrightarrow> map token_key us = ks \<Longrightarrow> length us \<le> m \<Longrightarrow> follow l rest \<Longrightarrow>
   p (us @ rest) = Inr (x, rest)"
  by (simp add: parses_def)

definition level_parser :: "py_runtime \<Rightarrow> expr parser \<Rightarrow> select parser \<Rightarrow> nat \<Rightarrow> expr parser" where
  "level_parser rt pe ps l =
     [parse_or_expr rt pe ps, parse_and_expr rt pe ps, parse_not_expr rt pe ps,
      parse_comparison rt pe ps, parse_addition rt pe ps, parse_multiplication rt pe ps,
      parse_unary rt pe ps, parse_primary rt pe ps] ! l"

definition level_ops :: "nat \<Rightarrow> (token_type \<times> binary_op_type) list" where
  "level_ops l =
     (if l = 0 then [(TK_OR, OP_OR)] else if l = 1 then [(TK_AND, OP_AND)]
      else if l = 4 then add_ops else mul_ops)"

definition loop_levels :: "nat set" where
  "loop_levels = {0, 1, 4, 5}"

lemma level_loop:
  "l \<in> loop_levels \<Longrightarrow>
   level_parser rt pe ps l = left_assoc (level_ops l) (level_parser rt pe ps (Suc l))"
  by (auto simp: loop_levels_def level_parser_def level_ops_def parse_or_expr_def parse_and_expr_def
      parse_addition_def parse_multiplication_def)

lemma level_ops_follow:
  "l \<in> loop_levels \<Longrightarrow> follow l rest \<Longrightarrow> assoc_get (tok_type (current rest)) (level_ops l) = None"
  by (auto simp: loop_levels_def follow_def stops_def level_ops_def add_ops_def mul_ops_def current_def)

lemma parse_not_skip:
  assumes "us \<noteq> []" "rest \<noteq> []" "tok_type (hd us) \<noteq> TK_NOT"
  shows "parse_not_expr rt pe ps (us @ rest) = parse_comparison rt pe ps (us @ rest)"
proof -
  obtain t vs u ws where "us = t # vs" "vs @ rest = u # ws"
    using assms by (cases us; cases "tl us @ rest") auto
  then show ?thesis using assms by simp
qed

lemma parse_unary_skip:
  assumes "us \<noteq> []" "rest \<noteq> []" "tok_type (hd us) \<noteq> TK_MINUS"
  shows "parse_unary rt pe ps (us @ rest) = parse_primary rt pe ps (us @ rest)"
proof -
  obtain t vs u ws where "us = t # vs" "vs @ rest = u # ws"
    using assms by (cases us; cases "tl us @ rest") auto
  then show ?thesis using assms by simp
qed

lemma starts_hd: "starts l (map token_key us) \<Longrightarrow> us \<noteq> [] \<and> tok_type (hd us) \<notin> set (nonstarts l)"
  by (cases us) (auto simp: starts_def token_key_def)

lemma comparison_tail_none:
  assumes "follow 3 rest"
  shows "parse_comparison_tail pe ps pa e rest = Inr (e, rest)"
  using assms
  by (auto simp: parse_comparison_tail_def follow_def stops_def at_def current_def comparison_ops_def)

lemma descend:
  assumes p: "parses m (Suc l) (level_parser rt pe ps (Suc l)) ks e"
    and s: "starts (Suc l) ks" and l: "l < 7"
  shows "parses m l (level_parser rt pe ps l) ks e"
proof (rule parsesI)
  fix us rest assume us: "map token_key us = ks" "length us \<le> m" "follow l rest"
  have next_level: "level_parser rt pe ps (Suc l) (us @ rest) = Inr (e, rest)"
    using parsesD [OF p us(1,2)] follow_mono [OF us(3)] by simp
  have h: "us \<noteq> []" "tok_type (hd us) \<notin> set (nonstarts (Suc l))" "rest \<noteq> []"
    using starts_hd [of "Suc l" us] s us follow_nonempty by auto
  have "l = 0 \<or> l = 1 \<or> l = 2 \<or> l = 3 \<or> l = 4 \<or> l = 5 \<or> l = 6" using l by linarith
  then consider "l \<in> loop_levels" | "l = 2" | "l = 3" | "l = 6"
    unfolding loop_levels_def by blast
  then show "level_parser rt pe ps l (us @ rest) = Inr (e, rest)"
  proof cases
    case 1
    then show ?thesis
      using next_level level_ops_follow [OF 1 us(3)] h(3)
      by (cases rest) (simp_all add: level_loop left_assoc_def)
  next
    case 2
    then show ?thesis
      using next_level parse_not_skip [OF h(1,3)] h(2) by (simp add: level_parser_def nonstarts_def)
  next
    case 3
    then show ?thesis
      using next_level comparison_tail_none [of rest] us(3)
      by (simp add: level_parser_def parse_comparison_def)
  next
    case 4
    then show ?thesis
      using next_level parse_unary_skip [OF h(1,3)] h(2) by (simp add: level_parser_def nonstarts_def)
  qed
qed

lemma descend_le:
  assumes "parses m k (level_parser rt pe ps k) ks e" "starts k ks" "l \<le> k" "k \<le> 7"
  shows "parses m l (level_parser rt pe ps l) ks e"
  using assms(3)
proof (induction rule: inc_induct)
  case (step n)
  then show ?case using descend [OF step.IH] starts_mono [OF assms(2)] assms(4) by simp
qed (rule assms(1))

section \<open>Loops\<close>

text \<open>At a level with a left-associative loop, what is read is the left operand the loop
  goes on with.\<close>

definition spines ::
  "py_runtime \<Rightarrow> expr parser \<Rightarrow> select parser \<Rightarrow> nat \<Rightarrow> nat \<Rightarrow> key list \<Rightarrow> expr \<Rightarrow> bool" where
  "spines rt pe ps m l ks e = (\<forall>us rest. map token_key us = ks \<longrightarrow> length us \<le> m \<longrightarrow>
     follow (Suc l) rest \<longrightarrow>
     (\<exists>k \<ge> length rest. level_parser rt pe ps l (us @ rest) =
        binary_loop k (level_ops l) (level_parser rt pe ps (Suc l)) e rest))"

lemma spinesD:
  assumes "spines rt pe ps m l ks e" "map token_key us = ks" "length us \<le> m" "follow (Suc l) rest"
  obtains k where "length rest \<le> k"
    "level_parser rt pe ps l (us @ rest) =
       binary_loop k (level_ops l) (level_parser rt pe ps (Suc l)) e rest"
  using assms unfolding spines_def by blast

lemma spines_parses:
  assumes "spines rt pe ps m l ks e" "l \<in> loop_levels"
  shows "parses m l (level_parser rt pe ps l) ks e"
proof (rule parsesI)
  fix us rest assume us: "map token_key us = ks" "length us \<le> m" "follow l rest"
  obtain k where k: "length rest \<le> k" "level_parser rt pe ps l (us @ rest) =
      binary_loop k (level_ops l) (level_parser rt pe ps (Suc l)) e rest"
    using spinesD [OF assms(1) us(1,2) follow_mono [OF us(3)]] by auto
  then obtain j where "k = Suc j" using follow_nonempty [OF us(3)] by (cases k) auto
  then show "level_parser rt pe ps l (us @ rest) = Inr (e, rest)"
    using k(2) level_ops_follow [OF assms(2) us(3)] by simp
qed

lemma parses_spines:
  assumes "parses m (Suc l) (level_parser rt pe ps (Suc l)) ks e" "l \<in> loop_levels"
  shows "spines rt pe ps m l ks e"
  unfolding spines_def level_loop [OF assms(2)] left_assoc_def
  using parsesD [OF assms(1)] by auto

lemma spines_step:
  assumes a: "spines rt pe ps m l ja a" and l: "l \<in> loop_levels"
    and b: "parses m (Suc l) (level_parser rt pe ps (Suc l)) jb b"
    and op: "assoc_get (fst k) (level_ops l) = Some op" "fst k \<notin> set (stops (Suc l))"
  shows "spines rt pe ps m l (ja @ k # jb) (BinaryOp op a b)"
  unfolding spines_def
proof (intro allI impI)
  fix us rest
  assume us: "map token_key us = ja @ k # jb" "length us \<le> m" "follow (Suc l) rest"
  obtain va t vb where v: "us = va @ t # vb" "map token_key va = ja" "token_key t = k"
    "map token_key vb = jb"
    using us(1) by (auto simp: map_eq_append_conv map_eq_Cons_conv)
  have t: "tok_type t = fst k" using v(3) by (auto simp: token_key_def)
  have "follow (Suc l) (t # vb @ rest)" using op(2) t by simp
  then obtain n where n: "length (t # vb @ rest) \<le> n"
    "level_parser rt pe ps l (va @ t # vb @ rest) =
      binary_loop n (level_ops l) (level_parser rt pe ps (Suc l)) a (t # vb @ rest)"
    using spinesD [OF a v(2), of "t # vb @ rest"] us(2) v(1) by auto
  then obtain j where j: "n = Suc j" by (cases n) auto
  have "level_parser rt pe ps (Suc l) (vb @ rest) = Inr (b, rest)"
    using parsesD [OF b v(4) _ us(3)] us(2) v(1) by simp
  then have "level_parser rt pe ps l (us @ rest) =
      binary_loop j (level_ops l) (level_parser rt pe ps (Suc l)) (BinaryOp op a b) rest"
    using n(2) j v(1) t op(1) follow_nonempty [OF us(3)] by simp
  then show "\<exists>k \<ge> length rest. level_parser rt pe ps l (us @ rest) =
      binary_loop k (level_ops l) (level_parser rt pe ps (Suc l)) (BinaryOp op a b) rest"
    using n(1) j by (intro exI [of _ j]) auto
qed

lemma commas_nonempty: "\<lbrakk>list_all (\<lambda>k. k \<noteq> []) kss; kss \<noteq> []\<rbrakk> \<Longrightarrow> commas kss \<noteq> []"
  by (induction kss rule: commas.induct) auto

lemma commas_length: "list_all (\<lambda>k. k \<noteq> []) kss \<Longrightarrow> length kss \<le> length (commas kss)"
  by (induction kss rule: commas.induct) (auto simp: Suc_le_eq)

lemma sep_loop_parses:
  assumes "\<And>x. x \<in> set xs \<Longrightarrow> parses m 0 p (f x) x"
    and "xs \<noteq> []" "map token_key us = commas (map f xs)" "length us \<le> m" "length xs \<le> k"
    and "follow 0 rest" "\<not> at TK_COMMA rest"
  shows "sep_loop k p (us @ rest) = Inr (xs, rest)"
  using assms
proof (induction xs arbitrary: us k)
  case (Cons x xs)
  obtain j where j: "k = Suc j" "length xs \<le> j" using Cons.prems(5) by (cases k) auto
  show ?case
  proof (cases xs)
    case Nil
    then have "p (us @ rest) = Inr (x, rest)"
      using Cons.prems by (intro parsesD [OF Cons.prems(1)]) auto
    then show ?thesis using j Nil Cons.prems(7) by simp
  next
    case (Cons y ys)
    then obtain va t vb where v: "us = va @ t # vb" "map token_key va = f x"
      "token_key t = CM" "map token_key vb = commas (map f xs)"
      using Cons.prems(3) by (auto simp: map_eq_append_conv map_eq_Cons_conv)
    have t: "tok_type t = TK_COMMA" using v(3) by (simp add: token_key_eq)
    have "p (va @ t # vb @ rest) = Inr (x, t # vb @ rest)"
      using Cons.prems(4) v t by (intro parsesD [OF Cons.prems(1)]) (auto simp: stops_def)
    moreover have "sep_loop j p (vb @ rest) = Inr (xs, rest)"
      using Cons.prems v j Cons by (intro Cons.IH) auto
    ultimately show ?thesis
      using v t j follow_nonempty [OF Cons.prems(6)] by simp
  qed
qed simp

lemma list_parses:
  assumes "\<And>x. x \<in> set xs \<Longrightarrow> parses m 0 pe (raw x) x" "\<And>x. x \<in> set xs \<Longrightarrow> plain x"
    and "xs \<noteq> []" "map token_key us = commas (map raw xs)" "length us \<le> m"
    and "follow 0 rest" "\<not> at TK_COMMA rest"
  shows "parse_expression_list pe (us @ rest) = Inr (xs, rest)"
proof -
  have "list_all (\<lambda>k. k \<noteq> []) (map raw xs)"
    using raw_starts assms(2) by (auto simp: list_all_iff starts_def)
  then have "length xs \<le> length us"
    using commas_length [of "map raw xs"] arg_cong [OF assms(4), of length] by simp
  then show ?thesis
    unfolding parse_expression_list_def comma_list_def
    using assms by (intro sep_loop_parses [where f = raw and m = m]) auto
qed

lemma commas_starts:
  assumes "\<And>x. x \<in> set xs \<Longrightarrow> plain x" "xs \<noteq> []"
  shows "starts 0 (commas (map raw xs))"
proof -
  obtain x ys where xs: "xs = x # ys" using assms(2) by (cases xs) auto
  have "starts 0 (raw x)" using raw_starts assms(1) xs starts_mono by (metis le0 list.set_intros(1))
  then show ?thesis by (cases ys) (auto simp: xs starts_def)
qed

lemma when_texts_length: "length ws \<le>
    length (concat (map (\<lambda>(c, r). (TK_WHEN, ''WHEN'') # raw c @ (TK_THEN, ''THEN'') # raw r) ws))"
  by (induction ws) auto

lemma when_loop_parses:
  assumes "\<And>c r. (c, r) \<in> set ws \<Longrightarrow> parses m 0 pe (raw c) c \<and> parses m 0 pe (raw r) r"
    and "map token_key us =
      concat (map (\<lambda>(c, r). (TK_WHEN, ''WHEN'') # raw c @ (TK_THEN, ''THEN'') # raw r) ws)"
    and "length us \<le> m" "length ws < k" "follow 0 rest" "\<not> at TK_WHEN rest"
  shows "when_loop k pe (us @ rest) = Inr (ws, rest)"
  using assms
proof (induction ws arbitrary: us k)
  case Nil
  then show ?case by (cases k) auto
next
  case (Cons x ws)
  obtain c r where x: "x = (c, r)" by (cases x)
  obtain j where j: "k = Suc j" "length ws < j" using Cons.prems(4) by (cases k) auto
  obtain t vc u vr vb where v: "us = t # vc @ u # vr @ vb" "tok_type t = TK_WHEN"
    "map token_key vc = raw c" "tok_type u = TK_THEN" "map token_key vr = raw r"
    "map token_key vb =
       concat (map (\<lambda>(c, r). (TK_WHEN, ''WHEN'') # raw c @ (TK_THEN, ''THEN'') # raw r) ws)"
    using Cons.prems(2) by (auto simp: x key_split)
  have rest: "follow 0 (vb @ rest)"
  proof (cases ws)
    case Nil
    then show ?thesis using v(6) Cons.prems(5) by simp
  next
    case (Cons y ys)
    then show ?thesis
      using v(6) by (cases y) (auto simp: map_eq_Cons_conv token_key_eq stops_def)
  qed
  have "pe (vc @ u # vr @ vb @ rest) = Inr (c, u # vr @ vb @ rest)"
    using Cons.prems(1) [of c r] Cons.prems(3) x v by (intro parsesD) (auto simp: stops_def)
  moreover have "pe (vr @ vb @ rest) = Inr (r, vb @ rest)"
    using Cons.prems(1) [of c r] Cons.prems(3) x v rest by (intro parsesD) auto
  moreover have "when_loop j pe (vb @ rest) = Inr (ws, rest)"
    using Cons.prems v j x by (intro Cons.IH) auto
  moreover have "vr @ vb @ rest \<noteq> []" using follow_nonempty [OF rest] by auto
  ultimately show ?case
    using v(1,2,4) j(1) x by (simp add: expect_def)
qed

section \<open>Literals\<close>

lemma digits_of_decimal: "list_all is_decimal (digits_of n) \<and> digits_of n \<noteq> []"
proof (induction n rule: digits_of.induct)
  case (1 n)
  have "is_decimal (char_of (48 + k))" if "k < 10" for k :: nat
    using that by (simp add: is_decimal_def)
  then show ?case using 1 by (subst (1 2) digits_of.simps) simp
qed

lemma digits_value_snoc: "digits_value (s @ [c]) = 10 * digits_value s + (of_char c - 48)"
  by (simp add: digits_value_def)

lemma digits_value_of: "digits_value (digits_of n) = n"
proof (induction n rule: digits_of.induct)
  case (1 n)
  show ?case
  proof (cases "n < 10")
    case True
    then show ?thesis by (subst digits_of.simps) (simp add: digits_value_def)
  next
    case False
    then show ?thesis using 1 by (subst digits_of.simps) (simp add: digits_value_snoc)
  qed
qed

lemma int_literal_digits:
  "0 \<le> i \<Longrightarrow> length (digits_of (nat i)) \<le> 4300 \<Longrightarrow> int_literal (digits_of (nat i)) = Inr i"
  using digits_of_decimal [of "nat i"] by (simp add: int_literal_def digits_value_of)

section \<open>Every level reads what is printed at it\<close>

definition own_level :: "py_runtime \<Rightarrow> expr parser \<Rightarrow> select parser \<Rightarrow> nat \<Rightarrow> expr \<Rightarrow> bool" where
  "own_level rt pe ps m e =
     (if prec e \<in> loop_levels then spines rt pe ps m (prec e) (raw e) e
      else parses m (prec e) (level_parser rt pe ps (prec e)) (raw e) e)"

lemma own_parses:
  "own_level rt pe ps m e \<Longrightarrow> parses m (prec e) (level_parser rt pe ps (prec e)) (raw e) e"
  by (auto simp: own_level_def spines_parses split: if_splits)

text \<open>What the methods rely on of the parser of nested expressions: within \<open>m\<close> tokens
  it reads back every printed expression.\<close>

locale expr_reader =
  fixes rt :: py_runtime and pe :: "expr parser" and ps :: "select parser" and m :: nat
  assumes pe: "plain e \<Longrightarrow> parses m 0 pe (raw e) e"
begin

lemma wrapped:
  assumes "plain e"
  shows "parses (Suc m) 7 (level_parser rt pe ps 7) (LP # raw e @ [RP]) e"
proof (rule parsesI)
  fix us rest assume us: "map token_key us = LP # raw e @ [RP]" "length us \<le> Suc m" "follow 7 rest"
  obtain t vs u where v: "us = t # vs @ [u]" "tok_type t = TK_LPAREN" "map token_key vs = raw e"
    "tok_type u = TK_RPAREN"
    using us(1) by (auto simp: key_split)
  have "starts 0 (map token_key vs)" using raw_starts [OF assms] v(3) starts_mono by simp
  then have h: "vs \<noteq> []" "tok_type (hd vs) \<notin> set (nonstarts 0)" using starts_hd by auto
  have "pe (vs @ u # rest) = Inr (e, u # rest)"
    using us(2) v by (intro parsesD [OF pe [OF assms]]) (auto simp: stops_def)
  then show "level_parser rt pe ps 7 (us @ rest) = Inr (e, rest)"
    using v h follow_nonempty [OF us(3)]
    by (cases vs) (auto simp: level_parser_def parse_primary_def expect_def nonstarts_def)
qed

lemma at_level:
  assumes "plain e" "own_level rt pe ps (Suc m) e" "l \<le> 7" "prec e \<le> 7"
  shows "parses (Suc m) l (level_parser rt pe ps l) (unparse l e) e"
proof (cases "prec e < l")
  case True
  then show ?thesis
    using descend_le [OF wrapped [OF assms(1)] _ assms(3)] starts_wrap(2) [of 7 "raw e"]
    by (simp add: unparse_def wrap_def)
next
  case False
  then show ?thesis
    using descend_le [OF own_parses [OF assms(2)] raw_starts [OF assms(1)], of l] assms(4)
    by (simp add: unparse_def wrap_def)
qed

lemma loop_operator:
  assumes a: "plain a" "own_level rt pe ps (Suc m) a" "prec a \<le> 7"
    and b: "plain b" "own_level rt pe ps (Suc m) b" "prec b \<le> 7"
    and l: "op_level op \<in> loop_levels"
  shows "spines rt pe ps (Suc m) (op_level op) (raw (BinaryOp op a b)) (BinaryOp op a b)"
proof -
  let ?l = "op_level op"
  have ll: "left_level op = ?l" "Suc ?l \<le> 7"
    using l op_level_le [of op] by (auto simp: left_level_def loop_levels_def)
  have spine: "spines rt pe ps (Suc m) ?l (wrap (prec a < ?l) (raw a)) a"
  proof (cases "prec a = ?l")
    case True
    then show ?thesis using a(2) l by (simp add: own_level_def wrap_def)
  next
    case False
    then have "(prec a < ?l) = (prec a < Suc ?l)" by auto
    then show ?thesis
      using parses_spines [OF at_level [OF a(1,2) ll(2) a(3)] l] by (simp add: unparse_def)
  qed
  have "assoc_get (fst (op_key op)) (level_ops ?l) = Some op \<and> fst (op_key op) \<notin> set (stops (Suc ?l))"
    using l by (cases op) (simp_all add: level_ops_def add_ops_def mul_ops_def stops_def loop_levels_def)
  then show ?thesis
    using spines_step [OF spine l at_level [OF b(1,2) ll(2) b(3)], of "op_key op" op]
    by (simp add: unparse_def ll(1))
qed

text \<open>A comparison: its left operand is read by the addition level, the rest by the tail.\<close>

lemma comparison_reads:
  assumes e: "plain e" "own_level rt pe ps (Suc m) e" "prec e \<le> 7"
    and tail: "parses m 3 (parse_comparison_tail pe ps (level_parser rt pe ps 4) e) kt x"
    and kt: "kt \<noteq> []" "fst (hd kt) \<notin> set (stops 4)"
  shows "parses (Suc m) 3 (level_parser rt pe ps 3) (unparse 4 e @ kt) x"
proof (rule parsesI)
  fix us rest
  assume us: "map token_key us = unparse 4 e @ kt" "length us \<le> Suc m" "follow 3 rest"
  obtain vs ws where v: "us = vs @ ws" "map token_key vs = unparse 4 e" "map token_key ws = kt"
    using us(1) by (auto simp: key_split)
  have "unparse 4 e \<noteq> []" using unparse_starts [OF e(1), of 4] by (simp add: starts_def)
  then have "length ws \<le> m" using v us(2) by (cases vs) auto
  then have "parse_comparison_tail pe ps (level_parser rt pe ps 4) e (ws @ rest) = Inr (x, rest)"
    using v us(3) by (intro parsesD [OF tail]) auto
  moreover have "level_parser rt pe ps 4 (vs @ ws @ rest) = Inr (e, ws @ rest)"
    using v us(2) kt at_level [OF e(1,2) _ e(3), of 4]
    by (intro parsesD [of "Suc m" 4]) (cases ws; auto simp: token_key_def)+
  ultimately show "level_parser rt pe ps 3 (us @ rest) = Inr (x, rest)"
    using v(1) by (simp add: level_parser_def parse_comparison_def)
qed

text \<open>A bound on the operands: what a comparison or a prefix operator reads is within \<open>m\<close>.\<close>

lemma parses_le: "parses n l p ks x \<Longrightarrow> k \<le> n \<Longrightarrow> parses k l p ks x"
  by (auto simp: parses_def)

lemma operator_tail:
  assumes b: "parses m 4 pa kb b" and op: "op_level op = 3"
  shows "parses m 3 (parse_comparison_tail pe ps pa a) (op_key op # kb) (BinaryOp op a b)"
proof (rule parsesI)
  fix us rest assume us: "map token_key us = op_key op # kb" "length us \<le> m" "follow 3 rest"
  obtain t vs where v: "us = t # vs" "token_key t = op_key op" "map token_key vs = kb"
    using us(1) by auto
  have "pa (vs @ rest) = Inr (b, rest)"
    using v us follow_mono [OF us(3), of 4] by (intro parsesD [OF b]) auto
  then show "parse_comparison_tail pe ps pa a (us @ rest) = Inr (BinaryOp op a b, rest)"
    using op v(1,2) follow_nonempty [OF us(3)]
    by (cases op) (simp_all add: parse_comparison_tail_def comparison_ops_def token_key_eq)
qed

lemma is_null_tail:
  "parses m 3 (parse_comparison_tail pe ps pa a)
     ((TK_IS, ''IS'') # flag neg (TK_NOT, ''NOT'') @ [(TK_NULL_LITERAL, ''NULL'')]) (IsNullExpr a neg)"
  by (rule parsesI)
     (auto simp: flag_def key_split parse_comparison_tail_def match_opt_def expect_def
      dest: follow_nonempty split: if_splits)

text \<open>The three negatable forms start with their keyword after an optional
  \<^verbatim>\<open>NOT\<close>.\<close>

lemma negatable_tail:
  assumes us: "map token_key us = flag neg (TK_NOT, ''NOT'') @ (ty, v) # ks"
    and ty: "ty \<in> set [TK_BETWEEN, TK_IN, TK_LIKE]" and rest: "rest \<noteq> []"
  obtains vs where "map token_key vs = ks" "length vs < length us"
    "parse_comparison_tail pe ps pa a (us @ rest) =
       (if ty = TK_BETWEEN then
          bind_sql (pa (vs @ rest)) (\<lambda>(low, ts).
          bind_sql (expect TK_AND ts) (\<lambda>(_, ts).
          bind_sql (pa ts) (\<lambda>(high, ts). Inr (BetweenExpr a low high neg, ts))))
        else if ty = TK_IN then parse_in_list pe ps a neg (vs @ rest)
        else bind_sql (pa (vs @ rest)) (\<lambda>(pat, ts). Inr (LikeExpr a pat neg, ts)))"
proof (cases neg)
  case True
  then obtain t u vs where v: "us = t # u # vs" "tok_type t = TK_NOT" "tok_type u = ty"
    "map token_key vs = ks"
    using us by (auto simp: flag_def key_split)
  show thesis
    using that [of vs] v ty rest True by (auto simp: parse_comparison_tail_def)
next
  case False
  then obtain u vs where v: "us = u # vs" "tok_type u = ty" "map token_key vs = ks"
    using us by (auto simp: flag_def key_split)
  show thesis
    using that [of vs] v ty rest False by (auto simp: parse_comparison_tail_def)
qed

lemma between_tail:
  assumes lo: "parses m 4 pa klo lo" and hi: "parses m 4 pa khi hi"
  shows "parses m 3 (parse_comparison_tail pe ps pa a)
    (flag neg (TK_NOT, ''NOT'') @ (TK_BETWEEN, ''BETWEEN'') # klo @ (TK_AND, ''AND'') # khi)
    (BetweenExpr a lo hi neg)"
proof (rule parsesI)
  fix us rest
  assume us: "map token_key us =
      flag neg (TK_NOT, ''NOT'') @ (TK_BETWEEN, ''BETWEEN'') # klo @ (TK_AND, ''AND'') # khi"
    "length us \<le> m" "follow 3 rest"
  obtain vs where v: "map token_key vs = klo @ (TK_AND, ''AND'') # khi" "length vs < length us"
    "parse_comparison_tail pe ps pa a (us @ rest) =
          bind_sql (pa (vs @ rest)) (\<lambda>(low, ts).
          bind_sql (expect TK_AND ts) (\<lambda>(_, ts).
          bind_sql (pa ts) (\<lambda>(high, ts). Inr (BetweenExpr a low high neg, ts))))"
    by (rule negatable_tail [OF us(1) _ follow_nonempty [OF us(3)], where pa = pa and a = a]) simp_all
  obtain vl t vh where w: "vs = vl @ t # vh" "map token_key vl = klo" "tok_type t = TK_AND"
    "map token_key vh = khi"
    using v(1) by (auto simp: key_split)
  have "pa (vl @ t # vh @ rest) = Inr (lo, t # vh @ rest)"
    using w v(2) us(2) by (intro parsesD [OF lo]) (auto simp: stops_def)
  moreover have "pa (vh @ rest) = Inr (hi, rest)"
    using w v(2) us(2) follow_mono [OF us(3), of 4] by (intro parsesD [OF hi]) auto
  ultimately show "parse_comparison_tail pe ps pa a (us @ rest) = Inr (BetweenExpr a lo hi neg, rest)"
    using v(3) w(1,3) follow_nonempty [OF us(3)] by (simp add: expect_def)
qed

lemma like_tail:
  assumes pat: "parses m 4 pa kp pat"
  shows "parses m 3 (parse_comparison_tail pe ps pa a)
    (flag neg (TK_NOT, ''NOT'') @ (TK_LIKE, ''LIKE'') # kp) (LikeExpr a pat neg)"
proof (rule parsesI)
  fix us rest
  assume us: "map token_key us = flag neg (TK_NOT, ''NOT'') @ (TK_LIKE, ''LIKE'') # kp"
    "length us \<le> m" "follow 3 rest"
  obtain vs where v: "map token_key vs = kp" "length vs < length us"
    "parse_comparison_tail pe ps pa a (us @ rest) =
          bind_sql (pa (vs @ rest)) (\<lambda>(pat, ts). Inr (LikeExpr a pat neg, ts))"
    by (rule negatable_tail [OF us(1) _ follow_nonempty [OF us(3)], where pa = pa and a = a]) simp_all
  have "pa (vs @ rest) = Inr (pat, rest)"
    using v us(2) follow_mono [OF us(3), of 4] by (intro parsesD [OF pat]) auto
  then show "parse_comparison_tail pe ps pa a (us @ rest) = Inr (LikeExpr a pat neg, rest)"
    using v(3) by simp
qed

lemma in_tail:
  assumes vs: "\<And>x. x \<in> set xs \<Longrightarrow> plain x" "xs \<noteq> []"
  shows "parses m 3 (parse_comparison_tail pe ps pa a)
    (flag neg (TK_NOT, ''NOT'') @ (TK_IN, ''IN'') # LP # commas (map raw xs) @ [RP])
    (InExpr a xs None neg)"
proof (rule parsesI)
  fix us rest
  assume us: "map token_key us =
      flag neg (TK_NOT, ''NOT'') @ (TK_IN, ''IN'') # LP # commas (map raw xs) @ [RP]"
    "length us \<le> m" "follow 3 rest"
  obtain ws where v: "map token_key ws = LP # commas (map raw xs) @ [RP]" "length ws < length us"
    "parse_comparison_tail pe ps pa a (us @ rest) = parse_in_list pe ps a neg (ws @ rest)"
    by (rule negatable_tail [OF us(1) _ follow_nonempty [OF us(3)], where pa = pa and a = a]) simp_all
  obtain t vx u where w: "ws = t # vx @ [u]" "tok_type t = TK_LPAREN"
    "map token_key vx = commas (map raw xs)" "tok_type u = TK_RPAREN"
    using v(1) by (auto simp: key_split)
  have "starts 0 (map token_key vx)" using commas_starts [OF vs] w(3) by simp
  then have h: "vx \<noteq> []" "tok_type (hd vx) \<notin> set (nonstarts 0)" using starts_hd by auto
  have "parse_expression_list pe (vx @ u # rest) = Inr (xs, u # rest)"
    using w v(2) us(2) vs pe by (intro list_parses [where m = m]) (auto simp: stops_def)
  then show "parse_comparison_tail pe ps pa a (us @ rest) = Inr (InExpr a xs None neg, rest)"
    using v(3) w h follow_nonempty [OF us(3)]
    by (cases vx) (auto simp: parse_in_list_def expect_def nonstarts_def)
qed

lemma prefix_operator:
  assumes e: "parses (Suc m) l (level_parser rt pe ps l) ks e" and l: "l = 2 \<or> l = 6"
    and k: "k = (if l = 2 then (TK_NOT, ''NOT'') else (TK_MINUS, ''-''))"
    and op: "op = (if l = 2 then OP_NOT else OP_NEGATE)"
  shows "parses (Suc m) l (level_parser rt pe ps l) (k # ks) (UnaryOp op e)"
proof (rule parsesI)
  fix us rest assume us: "map token_key us = k # ks" "length us \<le> Suc m" "follow l rest"
  obtain t vs where v: "us = t # vs" "tok_type t = fst k" "map token_key vs = ks"
    using us(1) by (auto simp: token_key_def)
  obtain u ws where w: "vs @ rest = u # ws" using follow_nonempty [OF us(3)] by (cases "vs @ rest") auto
  have "level_parser rt pe ps l (vs @ rest) = Inr (e, rest)"
    using v us by (intro parsesD [OF e]) auto
  then show "level_parser rt pe ps l (us @ rest) = Inr (UnaryOp op e, rest)"
    using l v(1,2) w k op by (auto simp: level_parser_def)
qed

section \<open>Primary expressions\<close>

lemma literal_reads:
  "literal_ok v ty \<Longrightarrow> parses n 7 (level_parser rt pe ps 7) [literal_key v] (Literal v ty)"
  by (rule parsesI, cases v)
     (auto simp: key_split level_parser_def parse_primary_def int_literal_digits
      dest: follow_nonempty split: if_splits)

lemma column_reads:
  "parses n 7 (level_parser rt pe ps 7) (raw (ColumnRef c t)) (ColumnRef c t)"
  by (rule parsesI, cases t)
     (auto simp: key_split level_parser_def parse_primary_def parse_name_def follow_def stops_def
      at_def current_def advance_def split: list.splits)

lemma cast_reads:
  assumes "plain e"
  shows "parses (Suc m) 7 (level_parser rt pe ps 7) (raw (CastExpr e ty)) (CastExpr e ty)"
proof (rule parsesI)
  fix us rest assume us: "map token_key us = raw (CastExpr e ty)" "length us \<le> Suc m" "follow 7 rest"
  obtain t u vs a b c where v: "us = t # u # vs @ [a, b, c]" "tok_type t = TK_CAST"
    "tok_type u = TK_LPAREN" "map token_key vs = raw e" "tok_type a = TK_AS" "tok_value b = ty"
    "tok_type c = TK_RPAREN"
    using us(1) by (auto simp: key_split)
  have "pe (vs @ a # b # c # rest) = Inr (e, a # b # c # rest)"
    using v us(2) by (intro parsesD [OF pe [OF assms]]) (auto simp: stops_def)
  then show "level_parser rt pe ps 7 (us @ rest) = Inr (CastExpr e ty, rest)"
    using v follow_nonempty [OF us(3)]
    by (simp add: level_parser_def parse_primary_def parse_cast_expr_def parse_type_name_def expect_def)
qed

lemma arguments_read:
  assumes "\<And>x. x \<in> set args \<Longrightarrow> plain x" "args \<noteq> []" "map token_key us = commas (map raw args)"
    "length us \<le> m" "tok_type t = TK_RPAREN"
  shows "us \<noteq> [] \<and> tok_type (hd us) \<notin> set (nonstarts 0) \<and>
    parse_expression_list pe (us @ t # rest) = Inr (args, t # rest)"
proof -
  have "starts 0 (map token_key us)" using commas_starts [OF assms(1,2)] assms(3) by simp
  then show ?thesis
    using assms pe starts_hd [of 0 us]
    by (auto intro!: list_parses [where m = m] simp: stops_def)
qed

lemma name_reads:
  assumes "str_upper name \<notin> set aggregate_names" "\<And>x. x \<in> set args \<Longrightarrow> plain x"
    "dis \<longrightarrow> args \<noteq> []" "map token_key ds = flag dis (TK_DISTINCT, ''DISTINCT'')"
    "map token_key vs = commas (map raw args)" "length vs \<le> m" "tok_type u = TK_LPAREN"
    "tok_type r = TK_RPAREN" "rest \<noteq> []"
  shows "parse_name pe name (u # ds @ vs @ r # rest) = Inr (FunctionCall name args dis False, rest)"
proof (cases "args = []")
  case True
  then show ?thesis
    using assms by (auto simp: flag_def parse_name_def function_call_def expect_def)
next
  case False
  note a = arguments_read [OF assms(2) False assms(5,6,8), of rest]
  have d: "ds = [] \<and> \<not> dis \<or> dis \<and> (\<exists>d. ds = [d] \<and> tok_type d = TK_DISTINCT)"
    using assms(4) by (auto simp: flag_def key_split split: if_splits)
  have "hd (vs @ r # rest) = hd vs" using a by simp
  then show ?thesis
    using assms a d
    by (cases vs) (auto simp: parse_name_def function_call_def expect_def match_opt_def nonstarts_def)
qed

lemma aggregate_reads:
  assumes "name \<in> set aggregate_names"
    "args = [StarExpr None] \<and> \<not> dis \<or> (\<forall>x \<in> set args. plain x)"
    "map token_key ds = flag dis (TK_DISTINCT, ''DISTINCT'')"
    "map token_key vs = commas (map raw args)" "length vs \<le> m" "tok_type u = TK_LPAREN"
    "tok_type r = TK_RPAREN" "tok_value t = name" "rest \<noteq> []"
  shows "parse_aggregate_function pe (t # u # ds @ vs @ r # rest) =
    Inr (FunctionCall name args dis True, rest)"
proof -
  have d: "ds = [] \<and> \<not> dis \<or> dis \<and> (\<exists>d. ds = [d] \<and> tok_type d = TK_DISTINCT)"
    using assms(3) by (auto simp: flag_def key_split split: if_splits)
  consider (star) "args = [StarExpr None]" "\<not> dis" | (none) "args = []"
    | (list) "args \<noteq> []" "\<forall>x \<in> set args. plain x"
    using assms(2) by blast
  then show ?thesis
  proof cases
    case star
    then obtain v where "vs = [v]" "tok_type v = TK_STAR" using assms(4) by (auto simp: key_split)
    then show ?thesis
      using star d assms(1,6-9)
      by (auto simp: parse_aggregate_function_def function_call_def expect_def)
  next
    case none
    then show ?thesis
      using d assms
      by (auto simp: parse_aggregate_function_def function_call_def expect_def match_opt_def)
  next
    case list
    have "\<And>x. x \<in> set args \<Longrightarrow> plain x" using list(2) by blast
    note a = arguments_read [OF this list(1) assms(4,5,7), of rest]
    then show ?thesis
      using d assms(1,6-9)
      by (cases vs) (auto simp: parse_aggregate_function_def function_call_def expect_def
          match_opt_def nonstarts_def)
  qed
qed

lemma call_reads:
  assumes "plain (FunctionCall name args dis agg)"
  shows "parses (Suc m) 7 (level_parser rt pe ps 7) (raw (FunctionCall name args dis agg))
    (FunctionCall name args dis agg)"
proof (rule parsesI)
  fix us rest
  assume us: "map token_key us = raw (FunctionCall name args dis agg)" "length us \<le> Suc m" "follow 7 rest"
  obtain k v where nk: "name_key name = (k, v)" by (cases "name_key name")
  obtain t u ds vs r where v: "us = t # u # ds @ vs @ [r]" "tok_type t = fst (name_key name)"
    "tok_value t = snd (name_key name)" "tok_type u = TK_LPAREN"
    "map token_key ds = flag dis (TK_DISTINCT, ''DISTINCT'')"
    "map token_key vs = commas (map raw args)" "tok_type r = TK_RPAREN"
    using us(1) by (auto simp: key_split nk)
  have len: "length vs \<le> m" using us(2) v(1) by simp
  have snd_name: "snd (name_key name) = name" by (simp add: name_key_def)
  show "level_parser rt pe ps 7 (us @ rest) = Inr (FunctionCall name args dis agg, rest)"
  proof (cases "name \<in> set aggregate_names")
    case True
    then have "agg" "args = [StarExpr None] \<and> \<not> dis \<or> (\<forall>x \<in> set args. plain x)"
      using assms by (auto simp: list_all_iff)
    then have "parse_aggregate_function pe (us @ rest) = Inr (FunctionCall name args dis agg, rest)"
      using aggregate_reads [OF True _ v(5,6) len v(4,7), of t rest] v(1,3) snd_name
        follow_nonempty [OF us(3)] by auto
    then show ?thesis
      using aggregate_key [OF True] v(1,2)
      by (auto simp: level_parser_def parse_primary_def)
  next
    case False
    then have "\<not> agg" "str_upper name \<notin> set aggregate_names" "\<And>x. x \<in> set args \<Longrightarrow> plain x"
      "dis \<longrightarrow> args \<noteq> []"
      using assms by (auto simp: list_all_iff)
    then show ?thesis
      using name_reads [OF _ _ _ v(5,6) len v(4,7), of name rest] v(1,2,3) False
        follow_nonempty [OF us(3)]
      by (auto simp: level_parser_def parse_primary_def name_key_def)
  qed
qed

lemma case_reads:
  assumes "plain (CaseExpr operand ws els)"
  shows "parses (Suc m) 7 (level_parser rt pe ps 7) (raw (CaseExpr operand ws els))
    (CaseExpr operand ws els)"
proof (rule parsesI)
  fix us rest
  assume us: "map token_key us = raw (CaseExpr operand ws els)" "length us \<le> Suc m" "follow 7 rest"
  let ?ws = "concat (map (\<lambda>(c, r). (TK_WHEN, ''WHEN'') # raw c @ (TK_THEN, ''THEN'') # raw r) ws)"
  obtain t vo vw ve u where v: "us = t # vo @ vw @ ve @ [u]" "tok_type t = TK_CASE"
    "map token_key vo = (case operand of None \<Rightarrow> [] | Some e \<Rightarrow> raw e)" "map token_key vw = ?ws"
    "map token_key ve = (case els of None \<Rightarrow> [] | Some e \<Rightarrow> (TK_ELSE, ''ELSE'') # raw e)"
    "tok_type u = TK_END"
    using us(1) by (auto simp: key_split)
  let ?r = "ve @ u # rest"
  have r: "follow 0 ?r" "\<not> at TK_WHEN ?r"
    using v(5,6) by (cases els; auto simp: keys_Cons stops_def)+
  have pc: "parses m 0 pe (raw c) c" "parses m 0 pe (raw d) d" "plain c" "plain d"
    if "(c, d) \<in> set ws" for c d
    using assms that pe by (auto simp: list_all_iff)
  have lw: "length ws \<le> length vw"
    using when_texts_length [of ws] arg_cong [OF v(4), of length] by simp
  have whens: "when_loop k pe (vw @ ?r) = Inr (ws, ?r)" if "length ws < k" for k
    using us(2) v(1) pc r that by (intro when_loop_parses [OF _ v(4)]) auto
  have els: "optional TK_ELSE pe ?r = Inr (els, u # rest)"
  proof (cases els)
    case None
    then show ?thesis using v(5,6) by (simp add: optional_def)
  next
    case (Some e)
    then obtain w vx where x: "ve = w # vx" "tok_type w = TK_ELSE" "map token_key vx = raw e"
      using v(5) by (auto simp: key_split)
    have "pe (vx @ u # rest) = Inr (e, u # rest)"
      using assms Some x us(2) v(1,6) by (intro parsesD [OF pe]) (auto simp: stops_def)
    then show ?thesis using x Some by (simp add: optional_def)
  qed
  have operand: "(if at TK_WHEN (vo @ vw @ ?r) then Inr (None, vo @ vw @ ?r)
      else bind_sql (pe (vo @ vw @ ?r)) (\<lambda>(e, ts). Inr (Some e, ts))) = Inr (operand, vw @ ?r)"
  proof (cases operand)
    case None
    then obtain c d xs where "ws = (c, d) # xs" using assms by (cases ws) auto
    then show ?thesis using v(3,4) None by (auto simp: key_split)
  next
    case (Some e)
    have "starts 0 (map token_key vo)" using raw_starts assms Some v(3) starts_mono by fastforce
    then have h: "vo \<noteq> []" "tok_type (hd vo) \<notin> set (nonstarts 0)" using starts_hd by auto
    have "follow 0 (vw @ ?r)"
    proof (cases ws)
      case Nil
      then show ?thesis using v(4) r by simp
    next
      case (Cons y ys)
      then show ?thesis using v(4) by (cases y) (auto simp: key_split stops_def)
    qed
    then have "pe (vo @ vw @ ?r) = Inr (e, vw @ ?r)"
      using assms Some us(2) v(1,3) by (intro parsesD [OF pe]) auto
    then show ?thesis using h Some by (cases vo) (auto simp: nonstarts_def)
  qed
  have "parse_case_expr pe (vo @ vw @ ?r) = Inr (CaseExpr operand ws els, rest)"
    unfolding parse_case_expr_def operand
    using whens [of "length (vw @ ?r)"] lw els v(6) follow_nonempty [OF us(3)]
    by (simp add: expect_def)
  then show "level_parser rt pe ps 7 (us @ rest) = Inr (CaseExpr operand ws els, rest)"
    using v(1,2) by (simp add: level_parser_def parse_primary_def)
qed

section \<open>The induction\<close>

lemma prec_le: "prec e \<le> 7"
proof (cases e)
  case (BinaryOp op a b)
  then show ?thesis using op_level_le [of op] by simp
next
  case (UnaryOp op a)
  then show ?thesis by (cases op) simp_all
qed simp_all

lemma own_level_reads: "plain e \<Longrightarrow> own_level rt pe ps (Suc m) e"
proof (induction e rule: raw.induct)
  case (4 op a b)
  then have ab: "plain a" "plain b" "own_level rt pe ps (Suc m) a" "own_level rt pe ps (Suc m) b"
    by auto
  show ?case
  proof (cases "op_level op \<in> loop_levels")
    case True
    then show ?thesis
      using loop_operator [OF ab(1,3) prec_le ab(2,4) prec_le True] by (simp add: own_level_def)
  next
    case False
    then have op: "op_level op = 3" by (cases op) (auto simp: loop_levels_def)
    have b: "parses m 4 (level_parser rt pe ps 4) (unparse 4 b) b"
      using at_level [OF ab(2,4) _ prec_le, of 4] by (auto intro: parses_le)
    have "fst (op_key op) \<notin> set (stops 4)" using op by (cases op) (simp_all add: stops_def)
    then show ?thesis
      using comparison_reads [OF ab(1,3) prec_le operator_tail [OF b op]] op
      by (simp add: own_level_def loop_levels_def unparse_def left_level_def)
  qed
next
  case (2 c)
  then show ?case using column_reads [of "Suc m" c None] by (simp add: own_level_def loop_levels_def)
next
  case (3 c t)
  then show ?case
    using column_reads [of "Suc m" c "Some t"] by (simp add: own_level_def loop_levels_def)
next
  case (5 e)
  then show ?case
    using prefix_operator [of 2 "unparse 2 e" e "(TK_NOT, ''NOT'')" OP_NOT]
      at_level [OF _ _ _ prec_le, of e 2]
    by (simp add: own_level_def loop_levels_def unparse_def)
next
  case (6 e)
  then show ?case
    using prefix_operator [of 6 "unparse 6 e" e "(TK_MINUS, ''-'')" OP_NEGATE]
      at_level [OF _ _ _ prec_le, of e 6]
    by (simp add: own_level_def loop_levels_def unparse_def)
next
  case (9 e lo hi neg)
  then have "parses m 4 (level_parser rt pe ps 4) (unparse 4 lo) lo"
    "parses m 4 (level_parser rt pe ps 4) (unparse 4 hi) hi" "plain e" "own_level rt pe ps (Suc m) e"
    using at_level [OF _ _ _ prec_le, of lo 4] at_level [OF _ _ _ prec_le, of hi 4]
    by (auto intro: parses_le)
  then show ?case
    using comparison_reads [OF _ _ prec_le between_tail]
    by (auto simp: own_level_def loop_levels_def unparse_def flag_def stops_def)
next
  case (10 e vs q neg)
  then have "plain e" "own_level rt pe ps (Suc m) e" "q = None" "vs \<noteq> []" "\<And>x. x \<in> set vs \<Longrightarrow> plain x"
    by (auto simp: list_all_iff)
  then show ?case
    using comparison_reads [OF _ _ prec_le in_tail]
    by (auto simp: own_level_def loop_levels_def unparse_def flag_def stops_def)
next
  case (11 e pat neg)
  then have "parses m 4 (level_parser rt pe ps 4) (unparse 4 pat) pat"
    "plain e" "own_level rt pe ps (Suc m) e"
    using at_level [OF _ _ _ prec_le, of pat 4] by (auto intro: parses_le)
  then show ?case
    using comparison_reads [OF _ _ prec_le like_tail]
    by (auto simp: own_level_def loop_levels_def unparse_def flag_def stops_def)
next
  case (12 e neg)
  then show ?case
    using comparison_reads [OF _ _ prec_le is_null_tail]
    by (auto simp: own_level_def loop_levels_def unparse_def stops_def)
qed (use literal_reads cast_reads call_reads case_reads in
    \<open>auto simp: own_level_def loop_levels_def\<close>)

lemma parse_or_reads: "plain e \<Longrightarrow> parses (Suc m) 0 (parse_or_expr rt pe ps) (raw e) e"
  using at_level [OF _ own_level_reads _ prec_le, of e 0]
  by (simp add: unparse_def wrap_def level_parser_def)

end

section \<open>The whole parser\<close>

lemma pexpr_reads: "expr_reader (pexpr rt n) n"
proof (induction n)
  case 0
  show ?case
  proof
    fix e assume "plain e"
    then have "raw e \<noteq> []" using raw_starts by (simp add: starts_def)
    then show "parses 0 0 (pexpr rt 0) (raw e) e" by (intro parsesI) auto
  qed
next
  case (Suc n)
  have "pexpr rt (Suc n) = parse_or_expr rt (pexpr rt n) (psel rt n)" by (rule ext) simp
  then show ?case
    using expr_reader.parse_or_reads [OF Suc] by unfold_locales simp
qed

interpretation reader: expr_reader rt "pexpr rt n" "psel rt n" n for rt n
  by (rule pexpr_reads)

text \<open>
  C10: the parser inverts printing with the fewest parentheses: for every expression of the
  grammar, over all the operators, calls, \<^verbatim>\<open>CASE\<close>, \<^verbatim>\<open>CAST\<close>,
  \<^verbatim>\<open>BETWEEN\<close>, \<^verbatim>\<open>IN\<close>, \<^verbatim>\<open>LIKE\<close> and
  \<^verbatim>\<open>IS NULL\<close>, parsing the tokens it is printed as, at any positions and before
  any token that cannot continue it, gives back the expression and leaves the rest.  So the
  precedence and the associativity of the operators are those of the documented grammar.
\<close>

theorem parse_unparse:
  assumes "plain e" and "map token_key us = unparse 0 e" and "follow 0 rest"
  shows "parse_expression rt (us @ rest) = Inr (e, rest)"
  unfolding parse_expression_def
  using parsesD [OF reader.pe [OF assms(1), of "length (us @ rest)"], of us rest] assms
  by (simp add: unparse_def wrap_def)

definition sample_expr :: expr where
  "sample_expr =
     BinaryOp OP_OR (UnaryOp OP_NOT (BinaryOp OP_EQ (ColumnRef ''a'' None) (Literal (VInt 12) ''integer'')))
       (BetweenExpr (BinaryOp OP_SUB (BinaryOp OP_SUB (ColumnRef ''b'' (Some ''t'')) (Literal VNone ''null''))
            (BinaryOp OP_SUB (ColumnRef ''c'' None) (ColumnRef ''d'' None)))
          (UnaryOp OP_NEGATE (ColumnRef ''x'' None))
          (FunctionCall ''f'' [Literal (VStr ''s'') ''string''] True False) True)"

definition place_keys :: "key list \<Rightarrow> token list" where
  "place_keys = map (\<lambda>(ty, v). mk_token ty v (1, 1))"

lemma place_keys: "map token_key (place_keys ks) = ks"
  by (simp add: place_keys_def split_beta comp_def)

theorem parse_unparse_witness:
  "\<forall>rt. parse_expression rt (place_keys (unparse 0 sample_expr) @ [mk_token TK_EOF [] (1, 9)]) =
     Inr (sample_expr, [mk_token TK_EOF [] (1, 9)])"
proof (intro allI, rule parse_unparse [OF _ place_keys])
  show "plain sample_expr" by code_simp
  show "follow 0 [mk_token TK_EOF [] (1, 9)]" by code_simp
qed

end
