(* ===== verification/Catalog.thy ===== *)
theory Catalog
  imports Py_Data Record_Codec
begin

text \<open>
  The schema catalog, \<^verbatim>\<open>src/pysql/catalog.py\<close>: the dictionaries of tables
  and indexes, the operations on them, and the file each change is saved to.  The file holds
  the dictionary \<^verbatim>\<open>_save\<close> builds, which is what \<^verbatim>\<open>json.loads\<close>
  gives back for the text \<^verbatim>\<open>json.dumps\<close> writes; an absent key, which
  \<^verbatim>\<open>_load\<close> replaces by a default, is \<^const>\<open>None\<close>.
\<close>

section \<open>Metadata\<close>

record index_info =
  ix_name :: string
  ix_table :: string
  ix_columns :: "string list"
  ix_unique :: bool
  ix_primary :: bool

record column_info =
  ci_name :: string
  ci_type :: string
  ci_constraints :: "string list"

record table_info =
  ti_name :: string
  ti_columns :: "column_info list"
  ti_primary_key :: "string option"
  ti_first_page_id :: int
  ti_indexes :: "index_info list"
  ti_auto_counter :: int
  ti_row_count :: int

definition column_names :: "table_info \<Rightarrow> string list" where
  "column_names t = map ci_name (ti_columns t)"

definition get_schema :: "py_runtime \<Rightarrow> table_info \<Rightarrow> table_schema result" where
  "get_schema rt t =
     bindr (mapr (\<lambda>c. type_from_string rt (ci_type c)) (ti_columns t)) (\<lambda>tys.
       Inr \<lparr>ts_table_name = ti_name t, ts_column_names = column_names t, ts_column_types = tys,
            ts_primary_key = ti_primary_key t\<rparr>)"

definition column_type :: "py_runtime \<Rightarrow> table_info \<Rightarrow> string \<Rightarrow> data_type result" where
  "column_type rt t name =
     (case List.find (\<lambda>c. ci_name c = name) (ti_columns t) of
        Some c \<Rightarrow> type_from_string rt (ci_type c)
      | None \<Rightarrow> Inl ValueError)"

definition has_column :: "table_info \<Rightarrow> string \<Rightarrow> bool" where
  "has_column t name = list_ex (\<lambda>c. ci_name c = name) (ti_columns t)"

section \<open>The file\<close>

record table_data =
  td_name :: string
  td_columns :: "column_info list"
  td_primary_key :: "string option"
  td_first_page_id :: "int option"
  td_auto_counter :: "int option"
  td_row_count :: "int option"

record index_data =
  xd_name :: string
  xd_table :: string
  xd_columns :: "string list"
  xd_unique :: "bool option"
  xd_primary :: "bool option"

datatype catalog_file =
    Missing
  | Garbled
  | Stored "(string \<times> table_data) list option" "(string \<times> index_data) list option"

section \<open>The catalog\<close>

record catalog =
  ct_tables :: "(string \<times> table_info) list"
  ct_indexes :: "(string \<times> index_info) list"
  ct_file :: catalog_file

definition save_table :: "table_info \<Rightarrow> table_data" where
  "save_table t = \<lparr>td_name = ti_name t, td_columns = ti_columns t,
     td_primary_key = ti_primary_key t, td_first_page_id = Some (ti_first_page_id t),
     td_auto_counter = Some (ti_auto_counter t), td_row_count = Some (ti_row_count t)\<rparr>"

definition save_index :: "index_info \<Rightarrow> index_data" where
  "save_index i = \<lparr>xd_name = ix_name i, xd_table = ix_table i, xd_columns = ix_columns i,
     xd_unique = Some (ix_unique i), xd_primary = Some (ix_primary i)\<rparr>"

definition catalog_save :: "catalog \<Rightarrow> catalog" where
  "catalog_save c = c\<lparr>ct_file :=
     Stored (Some (map (\<lambda>(n, t). (n, save_table t)) (ct_tables c)))
            (Some (map (\<lambda>(n, i). (n, save_index i)) (ct_indexes c)))\<rparr>"

definition load_table :: "table_data \<Rightarrow> table_info" where
  "load_table d = \<lparr>ti_name = td_name d, ti_columns = td_columns d,
     ti_primary_key = td_primary_key d,
     ti_first_page_id = (case td_first_page_id d of Some p \<Rightarrow> p | None \<Rightarrow> - 1),
     ti_indexes = [],
     ti_auto_counter = (case td_auto_counter d of Some n \<Rightarrow> n | None \<Rightarrow> 0),
     ti_row_count = (case td_row_count d of Some n \<Rightarrow> n | None \<Rightarrow> 0)\<rparr>"

definition load_index :: "index_data \<Rightarrow> index_info" where
  "load_index d = \<lparr>ix_name = xd_name d, ix_table = xd_table d, ix_columns = xd_columns d,
     ix_unique = (case xd_unique d of Some b \<Rightarrow> b | None \<Rightarrow> False),
     ix_primary = (case xd_primary d of Some b \<Rightarrow> b | None \<Rightarrow> False)\<rparr>"

text \<open>Changing the table object a name refers to, when there is one.\<close>

definition with_table ::
  "string \<Rightarrow> (table_info \<Rightarrow> table_info) \<Rightarrow> (string \<times> table_info) list \<Rightarrow> (string \<times> table_info) list"
where
  "with_table n f ts = (case assoc_get n ts of None \<Rightarrow> ts | Some t \<Rightarrow> assoc_put n (f t) ts)"

definition add_index :: "index_info \<Rightarrow> table_info \<Rightarrow> table_info" where
  "add_index i t = t\<lparr>ti_indexes := ti_indexes t @ [i]\<rparr>"

fun load_tables ::
  "(string \<times> table_data) list \<Rightarrow> (string \<times> table_info) list \<Rightarrow> (string \<times> table_info) list"
where
  "load_tables [] ts = ts"
| "load_tables ((n, d) # ds) ts = load_tables ds (assoc_put n (load_table d) ts)"

fun load_indexes :: "(string \<times> index_data) list \<Rightarrow> catalog \<Rightarrow> catalog" where
  "load_indexes [] c = c"
| "load_indexes ((n, d) # ds) c =
     (let i = load_index d
      in load_indexes ds
           (c\<lparr>ct_indexes := assoc_put n i (ct_indexes c),
              ct_tables := with_table (ix_table i) (add_index i) (ct_tables c)\<rparr>))"

definition catalog_load :: "catalog \<Rightarrow> catalog" where
  "catalog_load c =
     (case ct_file c of
        Stored ts xs \<Rightarrow>
          load_indexes (case xs of Some l \<Rightarrow> l | None \<Rightarrow> [])
            (c\<lparr>ct_tables := load_tables (case ts of Some l \<Rightarrow> l | None \<Rightarrow> []) (ct_tables c)\<rparr>)
      | _ \<Rightarrow> c)"

definition catalog_open :: "catalog_file \<Rightarrow> catalog" where
  "catalog_open f = catalog_load \<lparr>ct_tables = [], ct_indexes = [], ct_file = f\<rparr>"

section \<open>Operations\<close>

definition table_exists :: "catalog \<Rightarrow> string \<Rightarrow> bool" where
  "table_exists c n = (assoc_get n (ct_tables c) \<noteq> None)"

definition get_table :: "catalog \<Rightarrow> string \<Rightarrow> table_info option" where
  "get_table c n = assoc_get n (ct_tables c)"

definition list_tables :: "catalog \<Rightarrow> string list" where
  "list_tables c = map fst (ct_tables c)"

definition get_index :: "catalog \<Rightarrow> string \<Rightarrow> index_info option" where
  "get_index c n = assoc_get n (ct_indexes c)"

definition get_indexes_for_table :: "catalog \<Rightarrow> string \<Rightarrow> index_info list" where
  "get_indexes_for_table c n = filter (\<lambda>i. ix_table i = n) (map snd (ct_indexes c))"

definition create_table :: "catalog \<Rightarrow> table_info \<Rightarrow> catalog \<times> unit result" where
  "create_table c t =
     (if table_exists c (ti_name t) then (c, Inl ValueError)
      else (catalog_save (c\<lparr>ct_tables := assoc_put (ti_name t) t (ct_tables c)\<rparr>), Inr ()))"

definition drop_table :: "catalog \<Rightarrow> string \<Rightarrow> catalog \<times> unit result" where
  "drop_table c n =
     (if \<not> table_exists c n then (c, Inl ValueError)
      else (let names = map fst (filter (\<lambda>(_, i). ix_table i = n) (ct_indexes c))
            in (catalog_save (c\<lparr>ct_indexes := fold assoc_del names (ct_indexes c),
                                ct_tables := assoc_del n (ct_tables c)\<rparr>), Inr ())))"

definition create_index :: "catalog \<Rightarrow> index_info \<Rightarrow> catalog \<times> unit result" where
  "create_index c i =
     (if get_index c (ix_name i) \<noteq> None then (c, Inl ValueError)
      else (catalog_save (c\<lparr>ct_indexes := assoc_put (ix_name i) i (ct_indexes c),
                            ct_tables := with_table (ix_table i) (add_index i) (ct_tables c)\<rparr>), Inr ()))"

definition update_table_stats :: "catalog \<Rightarrow> string \<Rightarrow> int \<Rightarrow> catalog" where
  "update_table_stats c n rows =
     (if table_exists c n
      then catalog_save (c\<lparr>ct_tables := with_table n (ti_row_count_update (\<lambda>_. rows)) (ct_tables c)\<rparr>)
      else c)"

definition increment_auto_counter :: "catalog \<Rightarrow> string \<Rightarrow> catalog \<times> int result" where
  "increment_auto_counter c n =
     (case get_table c n of
        None \<Rightarrow> (c, Inl ValueError)
      | Some t \<Rightarrow>
          (catalog_save (c\<lparr>ct_tables :=
              with_table n (ti_auto_counter_update (\<lambda>k. k + 1)) (ct_tables c)\<rparr>),
           Inr (ti_auto_counter t + 1)))"

definition update_first_page_id :: "catalog \<Rightarrow> string \<Rightarrow> int \<Rightarrow> catalog" where
  "update_first_page_id c n pid =
     (if table_exists c n
      then catalog_save (c\<lparr>ct_tables := with_table n (ti_first_page_id_update (\<lambda>_. pid)) (ct_tables c)\<rparr>)
      else c)"

section \<open>Dictionaries as lists with distinct keys\<close>

lemma assoc_put_new: "k \<notin> fst ` set xs \<Longrightarrow> assoc_put k v xs = xs @ [(k, v)]"
  by (induction k v xs rule: assoc_put.induct) auto

lemma assoc_del_filter: "distinct (map fst xs) \<Longrightarrow> assoc_del k xs = filter (\<lambda>(k', _). k' \<noteq> k) xs"
proof (induction k xs rule: assoc_del.induct)
  case (2 k k' w xs)
  then have "k = k' \<Longrightarrow> filter (\<lambda>(l, _). l \<noteq> k) xs = xs" by (intro filter_True) force
  then show ?case using 2 by (cases "k = k'") auto
qed simp

lemma fold_assoc_del:
  "distinct (map fst xs) \<Longrightarrow> fold assoc_del ks xs = filter (\<lambda>(k, _). k \<notin> set ks) xs"
proof (induction ks arbitrary: xs)
  case (Cons k ks)
  have "distinct (map fst (filter (\<lambda>(k', _). k' \<noteq> k) xs))"
    using Cons.prems by (rule distinct_map_filter)
  then show ?case
    using Cons by (simp add: assoc_del_filter) (rule filter_cong, auto)
qed simp

lemma with_table_map:
  "distinct (map fst ts) \<Longrightarrow> with_table n f ts = map (\<lambda>(k, t). (k, if k = n then f t else t)) ts"
proof -
  have "distinct (map fst ts) \<Longrightarrow> assoc_get n ts = Some t \<Longrightarrow>
      assoc_put n (f t) ts = map (\<lambda>(k, t). (k, if k = n then f t else t)) ts" for t
  proof (induction n ts rule: assoc_get.induct)
    case (2 n k' v xs)
    have "n = k' \<Longrightarrow> map (\<lambda>(k, t). (k, if k = n then f t else t)) xs = xs"
      using 2(2) by (intro map_idI) force
    then show ?case using 2 by (cases "n = k'") auto
  qed simp
  moreover have "assoc_get n ts = None \<Longrightarrow> map (\<lambda>(k, t). (k, if k = n then f t else t)) ts = ts"
    by (intro map_idI) (force simp: assoc_get_None)
  ultimately show "distinct (map fst ts) \<Longrightarrow> ?thesis"
    by (cases "assoc_get n ts") (auto simp: with_table_def)
qed

section \<open>Saving and loading\<close>

lemma load_tables_map:
  "distinct (map fst ds) \<Longrightarrow> fst ` set ds \<inter> fst ` set ts = {} \<Longrightarrow>
   load_tables ds ts = ts @ map (\<lambda>(n, d). (n, load_table d)) ds"
proof (induction ds arbitrary: ts)
  case (Cons x ds)
  obtain n d where x: "x = (n, d)" by (cases x)
  have "n \<notin> fst ` set ts" using Cons.prems x by auto
  then show ?case using Cons x by (subst x) (auto simp: assoc_put_new)
qed simp

lemma load_indexes_eq:
  assumes "distinct (map fst (ct_tables c))" "distinct (map fst ds)"
    and "fst ` set ds \<inter> fst ` set (ct_indexes c) = {}"
  shows "load_indexes ds c = c\<lparr>ct_indexes := ct_indexes c @ map (\<lambda>(n, d). (n, load_index d)) ds,
    ct_tables := map (\<lambda>(k, t). (k, t\<lparr>ti_indexes := ti_indexes t @
        filter (\<lambda>i. ix_table i = k) (map (\<lambda>(n, d). load_index d) ds)\<rparr>)) (ct_tables c)\<rparr>"
  using assms
proof (induction ds arbitrary: c)
  case Nil
  have "map (\<lambda>(k, t). (k, t\<lparr>ti_indexes := ti_indexes t\<rparr>)) ts = ts" for ts :: "(string \<times> table_info) list"
    by (auto intro: map_idI)
  then show ?case by simp
next
  case (Cons x ds)
  obtain n d where x: "x = (n, d)" by (cases x)
  define c1 where "c1 = c\<lparr>ct_indexes := assoc_put n (load_index d) (ct_indexes c),
    ct_tables := with_table (ix_table (load_index d)) (add_index (load_index d)) (ct_tables c)\<rparr>"
  have n: "n \<notin> fst ` set (ct_indexes c)" using Cons.prems x by auto
  have t1: "ct_tables c1 = map (\<lambda>(k, t). (k, if k = ix_table (load_index d)
      then add_index (load_index d) t else t)) (ct_tables c)"
    using Cons.prems by (simp add: c1_def with_table_map)
  have "map fst (ct_tables c1) = map fst (ct_tables c)" by (auto simp: t1)
  then have "load_indexes ds c1 = c1\<lparr>ct_indexes := ct_indexes c1 @ map (\<lambda>(n, d). (n, load_index d)) ds,
    ct_tables := map (\<lambda>(k, t). (k, t\<lparr>ti_indexes := ti_indexes t @
        filter (\<lambda>i. ix_table i = k) (map (\<lambda>(n, d). load_index d) ds)\<rparr>)) (ct_tables c1)\<rparr>"
    using Cons.prems n x by (intro Cons.IH) (auto simp: c1_def assoc_put_new)
  moreover have "load_indexes (x # ds) c = load_indexes ds c1"
    by (simp add: x c1_def Let_def)
  moreover have "ct_indexes c1 @ map (\<lambda>(n, d). (n, load_index d)) ds =
      ct_indexes c @ map (\<lambda>(n, d). (n, load_index d)) (x # ds)"
    using n by (simp add: c1_def assoc_put_new x)
  moreover have "c1\<lparr>ct_indexes := a, ct_tables := b\<rparr> = c\<lparr>ct_indexes := a, ct_tables := b\<rparr>" for a b
    by (simp add: c1_def)
  moreover have "map (\<lambda>(k, t). (k, t\<lparr>ti_indexes := ti_indexes t @
        filter (\<lambda>i. ix_table i = k) (map (\<lambda>(n, d). load_index d) ds)\<rparr>)) (ct_tables c1) =
      map (\<lambda>(k, t). (k, t\<lparr>ti_indexes := ti_indexes t @
        filter (\<lambda>i. ix_table i = k) (map (\<lambda>(n, d). load_index d) (x # ds))\<rparr>)) (ct_tables c)"
    by (auto simp: t1 x add_index_def)
  ultimately show ?case by (simp only:)
qed

definition catalog_inv :: "catalog \<Rightarrow> bool" where
  "catalog_inv c =
     (distinct (map fst (ct_tables c)) \<and> distinct (map fst (ct_indexes c)) \<and>
      (\<forall>(n, t) \<in> set (ct_tables c). ti_indexes t = get_indexes_for_table c n) \<and>
      (\<forall>(n, i) \<in> set (ct_indexes c). ix_table i \<in> fst ` set (ct_tables c)))"

lemma load_save_index [simp]: "load_index (save_index i) = i"
  by (simp add: load_index_def save_index_def)

lemma load_save_table [simp]: "load_table (save_table t) = t\<lparr>ti_indexes := []\<rparr>"
  by (simp add: load_table_def save_table_def)

text \<open>The catalog with the index list of every table recomputed, as loading does.\<close>

definition relinked :: "catalog \<Rightarrow> catalog" where
  "relinked c = c\<lparr>ct_tables := map (\<lambda>(n, t). (n, t\<lparr>ti_indexes := get_indexes_for_table c n\<rparr>)) (ct_tables c)\<rparr>"

definition catalog_keyed :: "catalog \<Rightarrow> bool" where
  "catalog_keyed c = (distinct (map fst (ct_tables c)) \<and> distinct (map fst (ct_indexes c)))"

lemma inv_keyed: "catalog_inv c \<Longrightarrow> catalog_keyed c"
  by (simp add: catalog_inv_def catalog_keyed_def)

lemma relinked_inv: "catalog_inv c \<Longrightarrow> relinked c = c"
proof -
  assume "catalog_inv c"
  then have "map (\<lambda>(n, t). (n, t\<lparr>ti_indexes := get_indexes_for_table c n\<rparr>)) (ct_tables c) = ct_tables c"
    by (auto simp: catalog_inv_def intro!: map_idI)
  then show ?thesis by (simp add: relinked_def)
qed

lemma open_saved:
  assumes "catalog_keyed c"
  shows "catalog_open (ct_file (catalog_save c)) = relinked (catalog_save c)"
proof -
  let ?ds = "map (\<lambda>(n, t). (n, save_table t)) (ct_tables c)"
  let ?xs = "map (\<lambda>(n, i). (n, save_index i)) (ct_indexes c)"
  have ts: "load_tables ?ds [] = map (\<lambda>(n, t). (n, t\<lparr>ti_indexes := []\<rparr>)) (ct_tables c)"
    using assms by (subst load_tables_map) (auto simp: catalog_keyed_def comp_def split_def)
  have names: "fst \<circ> (\<lambda>(n, t). (n, t\<lparr>ti_indexes := []\<rparr>)) = fst" "fst \<circ> (\<lambda>(n, i). (n, save_index i)) = fst"
    by auto
  have xs: "map (\<lambda>(n, d). load_index d) ?xs = map snd (ct_indexes c)"
    "map (\<lambda>(n, d). (n, load_index d)) ?xs = ct_indexes c"
    by (auto simp: comp_def split_def)
  let ?c = "\<lparr>ct_tables = map (\<lambda>(n, t). (n, t\<lparr>ti_indexes := []\<rparr>)) (ct_tables c), ct_indexes = [],
    ct_file = ct_file (catalog_save c)\<rparr>"
  have relink: "map (\<lambda>(k, t). (k, t\<lparr>ti_indexes := ti_indexes t @
        filter (\<lambda>i. ix_table i = k) (map snd (ct_indexes c))\<rparr>)) (ct_tables ?c) =
      map (\<lambda>(n, t). (n, t\<lparr>ti_indexes := get_indexes_for_table c n\<rparr>)) (ct_tables c)"
    by (auto simp: get_indexes_for_table_def)
  have "load_indexes ?xs ?c = ?c\<lparr>ct_indexes := ct_indexes c,
      ct_tables := map (\<lambda>(n, t). (n, t\<lparr>ti_indexes := get_indexes_for_table c n\<rparr>)) (ct_tables c)\<rparr>"
  proof -
    have d: "distinct (map fst (ct_tables ?c))" "distinct (map fst ?xs)"
        "fst ` set ?xs \<inter> fst ` set (ct_indexes ?c) = {}"
      using assms by (simp_all add: catalog_keyed_def names)
    show ?thesis
      unfolding load_indexes_eq [OF d] xs relink by simp
  qed
  then show ?thesis
    using ts by (simp add: catalog_open_def catalog_load_def catalog_save_def relinked_def get_indexes_for_table_def)
qed

lemma open_save:
  assumes "catalog_inv c"
  shows "catalog_open (ct_file (catalog_save c)) = catalog_save c"
proof -
  have "relinked (catalog_save c) = catalog_save (relinked c)"
    by (simp add: relinked_def catalog_save_def get_indexes_for_table_def comp_def split_def save_table_def)
  then show ?thesis using open_saved [OF inv_keyed [OF assms]] relinked_inv [OF assms] by simp
qed

section \<open>Histories\<close>

datatype catalog_op =
    CreateTable table_info
  | DropTable string
  | CreateIndex index_info
  | UpdateStats string int
  | IncrementAuto string
  | UpdateFirstPage string int

fun catalog_step :: "catalog \<Rightarrow> catalog_op \<Rightarrow> catalog" where
  "catalog_step c (CreateTable t) = fst (create_table c t)"
| "catalog_step c (DropTable n) = fst (drop_table c n)"
| "catalog_step c (CreateIndex i) = fst (create_index c i)"
| "catalog_step c (UpdateStats n r) = update_table_stats c n r"
| "catalog_step c (IncrementAuto n) = fst (increment_auto_counter c n)"
| "catalog_step c (UpdateFirstPage n p) = update_first_page_id c n p"

text \<open>The executor registers new tables without indexes; an index of a table that exists.\<close>

fun op_ok :: "catalog \<Rightarrow> catalog_op \<Rightarrow> bool" where
  "op_ok c (CreateTable t) = (ti_indexes t = [])"
| "op_ok c (CreateIndex i) = table_exists c (ix_table i)"
| "op_ok c _ = True"

fun ops_ok :: "catalog \<Rightarrow> catalog_op list \<Rightarrow> bool" where
  "ops_ok c [] = True"
| "ops_ok c (x # xs) = (op_ok c x \<and> ops_ok (catalog_step c x) xs)"

lemma inv_save [simp]: "catalog_inv (catalog_save c) = catalog_inv c"
  by (simp add: catalog_inv_def catalog_save_def get_indexes_for_table_def)

lemma table_exists_iff: "table_exists c n \<longleftrightarrow> n \<in> fst ` set (ct_tables c)"
  by (simp add: table_exists_def assoc_get_None)

lemma inv_create_table:
  assumes "catalog_inv c" "ti_indexes t = []" "\<not> table_exists c n"
  shows "catalog_inv (c\<lparr>ct_tables := assoc_put n t (ct_tables c)\<rparr>)"
proof -
  have n: "n \<notin> fst ` set (ct_tables c)" using assms(3) by (simp add: table_exists_iff)
  then have "filter (\<lambda>i. ix_table i = n) (map snd (ct_indexes c)) = []"
    using assms(1) by (force simp: catalog_inv_def filter_empty_conv)
  then show ?thesis
    using assms(1,2) n
    by (auto simp: catalog_inv_def assoc_put_new get_indexes_for_table_def)
qed

lemma with_table_keys [simp]:
  "distinct (map fst ts) \<Longrightarrow> map fst (with_table n f ts) = map fst ts"
  by (auto simp: with_table_map)

lemma with_table_dom [simp]:
  "distinct (map fst ts) \<Longrightarrow> fst ` set (with_table n f ts) = fst ` set ts"
  by (metis list.set_map with_table_keys)

lemma with_table_member:
  assumes "distinct (map fst ts)" "(k, u) \<in> set (with_table n f ts)"
  obtains t where "(k, t) \<in> set ts" "u = (if k = n then f t else t)"
  using assms by (auto simp: with_table_map)

lemma inv_map_tables:
  assumes "catalog_inv c" "\<And>t. ti_indexes (f t) = ti_indexes t"
  shows "catalog_inv (c\<lparr>ct_tables := with_table n f (ct_tables c)\<rparr>)"
proof -
  have d: "distinct (map fst (ct_tables c))" using assms(1) by (simp add: catalog_inv_def)
  have "ti_indexes u = get_indexes_for_table c k" if "(k, u) \<in> set (with_table n f (ct_tables c))" for k u
  proof (rule with_table_member [OF d that])
    fix t assume "(k, t) \<in> set (ct_tables c)" and u: "u = (if k = n then f t else t)"
    then have "ti_indexes t = get_indexes_for_table c k"
      using assms(1) unfolding catalog_inv_def by fast
    then show ?thesis using u assms(2) by simp
  qed
  then show ?thesis
    using assms(1) d unfolding catalog_inv_def get_indexes_for_table_def by (simp add: split_beta)
qed

lemma inv_create_index:
  assumes "catalog_inv c" "table_exists c (ix_table i)" "get_index c (ix_name i) = None"
  shows "catalog_inv (c\<lparr>ct_indexes := assoc_put (ix_name i) i (ct_indexes c),
    ct_tables := with_table (ix_table i) (add_index i) (ct_tables c)\<rparr>)" (is "catalog_inv ?c")
proof -
  have n: "ix_name i \<notin> fst ` set (ct_indexes c)"
    using assms(3) by (simp add: get_index_def assoc_get_None)
  have d: "distinct (map fst (ct_tables c))" using assms(1) by (simp add: catalog_inv_def)
  have link: "ti_indexes t = get_indexes_for_table c k" if "(k, t) \<in> set (ct_tables c)" for k t
    using assms(1) that unfolding catalog_inv_def by fast
  have idx: "get_indexes_for_table ?c k = get_indexes_for_table c k @ (if k = ix_table i then [i] else [])" for k
    using n by (simp add: get_indexes_for_table_def assoc_put_new)
  have "ti_indexes u = get_indexes_for_table ?c k"
    if "(k, u) \<in> set (with_table (ix_table i) (add_index i) (ct_tables c))" for k u
  proof (rule with_table_member [OF d that])
    fix t assume "(k, t) \<in> set (ct_tables c)" and u: "u = (if k = ix_table i then add_index i t else t)"
    then show ?thesis using link [of k t] by (simp add: idx add_index_def)
  qed
  moreover have "\<forall>(m, j) \<in> set (assoc_put (ix_name i) i (ct_indexes c)). ix_table j \<in> fst ` set (ct_tables c)"
    using assms(1,2) n by (auto simp: catalog_inv_def assoc_put_new table_exists_iff)
  moreover have "distinct (map fst (assoc_put (ix_name i) i (ct_indexes c)))"
    using assms(1) n by (simp add: catalog_inv_def assoc_put_new)
  ultimately show ?thesis
    using d unfolding catalog_inv_def by simp blast
qed

lemma dropped_indexes:
  assumes "distinct (map fst xs)"
  shows "fold assoc_del (map fst (filter P xs)) xs = filter (\<lambda>x. \<not> P x) xs"
proof -
  have "k \<notin> set (map fst (filter P xs)) \<longleftrightarrow> \<not> P (k, v)" if "(k, v) \<in> set xs" for k v
    using that assms by (force dest: eq_key_imp_eq_value)
  then show ?thesis
    using assms by (auto simp: fold_assoc_del intro!: filter_cong)
qed

lemma drop_table_effect:
  assumes "catalog_inv c" "table_exists c n"
  shows "fst (drop_table c n) = catalog_save (c\<lparr>
    ct_indexes := filter (\<lambda>(_, i). ix_table i \<noteq> n) (ct_indexes c),
    ct_tables := filter (\<lambda>(k, _). k \<noteq> n) (ct_tables c)\<rparr>)"
  using assms
  by (auto simp: drop_table_def catalog_inv_def dropped_indexes assoc_del_filter split_def Let_def)

lemma inv_drop_table:
  assumes "catalog_inv c"
  shows "catalog_inv (c\<lparr>ct_indexes := filter (\<lambda>(_, i). ix_table i \<noteq> n) (ct_indexes c),
    ct_tables := filter (\<lambda>(k, _). k \<noteq> n) (ct_tables c)\<rparr>)" (is "catalog_inv ?c")
proof -
  have "filter (\<lambda>i. ix_table i = k) (map snd (filter (\<lambda>(_, i). ix_table i \<noteq> n) xs)) =
      filter (\<lambda>i. ix_table i = k) (map snd xs)" if "k \<noteq> n" for k and xs :: "(string \<times> index_info) list"
    using that by (induction xs) auto
  then have idx: "get_indexes_for_table ?c k = get_indexes_for_table c k" if "k \<noteq> n" for k
    using that by (simp add: get_indexes_for_table_def)
  have link: "ti_indexes t = get_indexes_for_table c k" if "(k, t) \<in> set (ct_tables c)" for k t
    using assms that unfolding catalog_inv_def by fast
  have "\<forall>(k, t) \<in> set (ct_tables ?c). ti_indexes t = get_indexes_for_table ?c k"
    using link idx by (simp add: split_beta)
  moreover have "ix_table i \<in> fst ` set (ct_tables ?c)" if "(m, i) \<in> set (ct_indexes ?c)" for m i
  proof -
    have "ix_table i \<in> fst ` set (ct_tables c)" "ix_table i \<noteq> n"
      using assms that by (auto simp: catalog_inv_def)
    then show ?thesis by force
  qed
  moreover have "distinct (map fst (ct_tables ?c)) \<and> distinct (map fst (ct_indexes ?c))"
    using assms by (simp add: catalog_inv_def distinct_map_filter)
  ultimately show ?thesis unfolding catalog_inv_def by blast
qed

lemma inv_fst_create_table:
  "catalog_inv c \<Longrightarrow> ti_indexes t = [] \<Longrightarrow> catalog_inv (fst (create_table c t))"
  by (simp add: create_table_def inv_create_table)

lemma inv_fst_drop_table: "catalog_inv c \<Longrightarrow> catalog_inv (fst (drop_table c n))"
  using inv_drop_table [of c n] drop_table_effect [of c n]
  by (cases "table_exists c n") (simp_all add: drop_table_def)

lemma inv_fst_create_index:
  "catalog_inv c \<Longrightarrow> table_exists c (ix_table i) \<Longrightarrow> catalog_inv (fst (create_index c i))"
  by (cases "get_index c (ix_name i)") (simp_all add: create_index_def inv_create_index)

lemma inv_fst_increment:
  "catalog_inv c \<Longrightarrow> catalog_inv (fst (increment_auto_counter c n))"
  by (cases "get_table c n") (simp_all add: increment_auto_counter_def inv_map_tables)

lemma catalog_step_inv: "catalog_inv c \<Longrightarrow> op_ok c x \<Longrightarrow> catalog_inv (catalog_step c x)"
  by (cases x) (simp_all add: inv_fst_create_table inv_fst_drop_table inv_fst_create_index
      inv_fst_increment update_table_stats_def update_first_page_id_def inv_map_tables)

lemma step_saves: "catalog_step c x = c \<or> (\<exists>d. catalog_step c x = catalog_save d)"
  by (cases x) (auto simp: create_table_def drop_table_def create_index_def update_table_stats_def
      update_first_page_id_def increment_auto_counter_def Let_def split: option.split)

lemma keyed_save [simp]: "catalog_keyed (catalog_save c) = catalog_keyed c"
  by (simp add: catalog_keyed_def catalog_save_def)

lemma keyed_step:
  assumes "catalog_keyed c"
  shows "catalog_keyed (catalog_step c x)"
proof -
  have d: "distinct (map fst (ct_tables c))" "distinct (map fst (ct_indexes c))" using assms by (simp_all add: catalog_keyed_def)
  have "distinct (map fst (assoc_del n (ct_tables c)))" for n by (simp add: d assoc_del_filter distinct_map_filter)
  moreover have "distinct (map fst (fold assoc_del ns (ct_indexes c)))" for ns
    by (simp add: d fold_assoc_del distinct_map_filter)
  ultimately show ?thesis
    using d
    by (cases x) (auto simp: create_table_def drop_table_def create_index_def increment_auto_counter_def
        update_table_stats_def update_first_page_id_def catalog_keyed_def catalog_save_def Let_def table_exists_iff
        get_index_def assoc_get_None assoc_put_new split: option.split)
qed

lemma step_saved: "catalog_keyed c \<Longrightarrow> catalog_step c x = c \<or> (\<exists>d. catalog_keyed d \<and> catalog_step c x = catalog_save d)"
  using step_saves [of c x] keyed_step [of c x] by auto

lemma run_reopens:
  assumes "catalog_keyed c" "catalog_open (ct_file c) = relinked c"
  shows "catalog_open (ct_file (foldl catalog_step c ops)) = relinked (foldl catalog_step c ops)"
  using assms
proof (induction ops arbitrary: c)
  case (Cons x xs)
  have "catalog_open (ct_file (catalog_step c x)) = relinked (catalog_step c x)"
    using step_saved [of c x] Cons.prems open_saved by auto
  then show ?case using Cons keyed_step by simp
qed simp

lemma run_inv: "ops_ok c ops \<Longrightarrow> catalog_inv c \<Longrightarrow> catalog_inv (foldl catalog_step c ops)"
  by (induction ops arbitrary: c) (simp_all add: catalog_step_inv)

lemma empty_inv: "catalog_inv (catalog_open Missing)" "catalog_open Missing = \<lparr>ct_tables = [], ct_indexes = [], ct_file = Missing\<rparr>"
  by (simp_all add: catalog_open_def catalog_load_def catalog_inv_def)

text \<open>
  C12: the catalog survives a restart.  After any sequence of operations on a new catalog, failing
  ones included, opening the file gives the same tables, counters and statistics and the same
  indexes, with the index list of each table recomputed from the indexes that name it.  The lists
  are the ones before, and the catalog is the same altogether, when indexes were created only on
  tables that existed and tables were registered without indexes.  The executor registers tables so,
  but it registers an index before it looks at the table.
\<close>

theorem catalog_restart:
  assumes "c = foldl catalog_step (catalog_open Missing) ops"
  shows "catalog_open (ct_file c) =
      c\<lparr>ct_tables := map (\<lambda>(n, t). (n, t\<lparr>ti_indexes := get_indexes_for_table c n\<rparr>)) (ct_tables c)\<rparr> \<and>
    (ops_ok (catalog_open Missing) ops \<longrightarrow> catalog_open (ct_file c) = c)"
proof -
  have new: "catalog_keyed (catalog_open Missing)" "catalog_open (ct_file (catalog_open Missing)) = relinked (catalog_open Missing)"
    by (simp_all add: empty_inv(2) catalog_keyed_def relinked_def)
  have "catalog_open (ct_file c) = relinked c" using run_reopens [OF new] by (simp add: assms)
  moreover have "ops_ok (catalog_open Missing) ops \<Longrightarrow> relinked c = c"
    using run_inv [OF _ empty_inv(1)] by (simp add: assms relinked_inv)
  ultimately show ?thesis by (simp add: relinked_def)
qed

definition users_table :: table_info where
  "users_table = \<lparr>ti_name = ''users'', ti_columns = [\<lparr>ci_name = ''id'', ci_type = ''INTEGER'',
     ci_constraints = [''PRIMARY_KEY'', ''AUTOINCREMENT'']\<rparr>], ti_primary_key = Some ''id'',
     ti_first_page_id = 0, ti_indexes = [], ti_auto_counter = 0, ti_row_count = 0\<rparr>"

definition users_index :: index_info where
  "users_index = \<lparr>ix_name = ''pk_users_id'', ix_table = ''users'', ix_columns = [''id''],
     ix_unique = True, ix_primary = True\<rparr>"

definition sample_ops :: "catalog_op list" where
  "sample_ops = [CreateTable users_table, CreateIndex users_index, IncrementAuto ''users'',
     CreateTable users_table, UpdateStats ''users'' 1]"

theorem catalog_restart_witness:
  "catalog_open (ct_file (foldl catalog_step (catalog_open Missing) sample_ops)) =
     foldl catalog_step (catalog_open Missing) sample_ops"
proof -
  have "ops_ok (catalog_open Missing) sample_ops" by code_simp
  then show ?thesis using catalog_restart [OF refl, of sample_ops] by blast
qed

text \<open>
  An index made before its table: it is not in the list of the new table, as
  \<^verbatim>\<open>create_index\<close> found no table to put it in, but it is after a restart.
\<close>

lemma early_index_linked_by_restart:
  "map (\<lambda>(n, t). ti_indexes t) (ct_tables (foldl catalog_step (catalog_open Missing) [CreateIndex users_index, CreateTable users_table])) = [[]]"
  "map (\<lambda>(n, t). ti_indexes t) (ct_tables (catalog_open (ct_file
     (foldl catalog_step (catalog_open Missing) [CreateIndex users_index, CreateTable users_table])))) = [[users_index]]"
  by code_simp+

end
