(* ===== verification/Py_Ops.thy ===== *)
theory Py_Ops
  imports Py_Data Types Ast "HOL-Library.Char_ord" "HOL-Library.List_Lexorder"
begin

text \<open>
  Python's operators on the runtime values of \<^verbatim>\<open>Types\<close>, as the query layer
  uses them: equality, ordering and arithmetic with the promotion of booleans and integers, the
  string methods, and the truth of \<^verbatim>\<open>is True\<close>.  Numbers of all three kinds are
  compared exactly, on their common multiple of \<open>2\<^sup>-\<^sup>1\<^sup>0\<^sup>7\<^sup>4\<close>.  The rounding operations of
  floating-point arithmetic, \<^verbatim>\<open>%\<close> formatting, the hash of a string and the text
  of a syntax tree are fields of \<open>sql_runtime\<close>, a parameter.
\<close>

section \<open>Exact values of numbers\<close>

text \<open>A finite number times \<open>2\<^sup>1\<^sup>0\<^sup>7\<^sup>4\<close> is an integer.\<close>

datatype num_key = Neg_Inf | Fin int | Pos_Inf

fun num_key_le :: "num_key \<Rightarrow> num_key \<Rightarrow> bool" where
  "num_key_le Neg_Inf b = True"
| "num_key_le (Fin i) Neg_Inf = False"
| "num_key_le (Fin i) (Fin j) = (i \<le> j)"
| "num_key_le (Fin i) Pos_Inf = True"
| "num_key_le Pos_Inf b = (b = Pos_Inf)"

instantiation num_key :: linorder
begin

definition less_eq_num_key :: "num_key \<Rightarrow> num_key \<Rightarrow> bool" where
  "less_eq_num_key = num_key_le"

definition less_num_key :: "num_key \<Rightarrow> num_key \<Rightarrow> bool" where
  "less_num_key a b = (a \<le> b \<and> a \<noteq> b)"

instance
proof
  fix a b c :: num_key
  show anti: "a \<le> b \<Longrightarrow> b \<le> a \<Longrightarrow> a = b"
    by (cases a; cases b) (auto simp: less_eq_num_key_def)
  show "a < b \<longleftrightarrow> a \<le> b \<and> \<not> b \<le> a"
    by (cases a; cases b) (auto simp: less_eq_num_key_def less_num_key_def)
  show "a \<le> a" by (cases a) (auto simp: less_eq_num_key_def)
  show "a \<le> b \<Longrightarrow> b \<le> c \<Longrightarrow> a \<le> c"
    by (cases a; cases b; cases c) (auto simp: less_eq_num_key_def)
  show "a \<le> b \<or> b \<le> a" by (cases a; cases b) (auto simp: less_eq_num_key_def)
qed

end

definition float_negative :: "64 word \<Rightarrow> bool" where
  "float_negative f = (drop_bit 63 f \<noteq> 0)"

definition float_exponent :: "64 word \<Rightarrow> nat" where
  "float_exponent f = unat (drop_bit 52 f AND 0x7FF)"

definition float_fraction :: "64 word \<Rightarrow> nat" where
  "float_fraction f = unat (f AND 0xFFFFFFFFFFFFF)"

definition float_scaled :: "64 word \<Rightarrow> int" where
  "float_scaled f =
     (let m = (if float_exponent f = 0 then int (float_fraction f)
               else (2 ^ 52 + int (float_fraction f)) * 2 ^ (float_exponent f - 1))
      in if float_negative f then - m else m)"

definition float_num_key :: "64 word \<Rightarrow> num_key option" where
  "float_num_key f =
     (if float_exponent f < 2047 then Some (Fin (float_scaled f))
      else if float_fraction f \<noteq> 0 then None
      else if float_negative f then Some Neg_Inf else Some Pos_Inf)"

definition float_unit :: int where
  "float_unit = 2 ^ 1074"

fun py_num_key :: "pyval \<Rightarrow> num_key option" where
  "py_num_key (VBool b) = Some (Fin (of_bool b * float_unit))"
| "py_num_key (VInt i) = Some (Fin (i * float_unit))"
| "py_num_key (VFloat f) = float_num_key f"
| "py_num_key _ = None"

fun is_number :: "pyval \<Rightarrow> bool" where
  "is_number (VBool b) = True"
| "is_number (VInt i) = True"
| "is_number (VFloat f) = True"
| "is_number _ = False"

fun is_int :: "pyval \<Rightarrow> bool" where
  "is_int (VBool b) = True"
| "is_int (VInt i) = True"
| "is_int _ = False"

fun int_value :: "pyval \<Rightarrow> int" where
  "int_value (VBool b) = of_bool b"
| "int_value (VInt i) = i"
| "int_value _ = 0"

section \<open>Equality and order\<close>

fun py_eq :: "pyval \<Rightarrow> pyval \<Rightarrow> bool" where
  "py_eq VNull b = (b = VNull)"
| "py_eq VNone b = (b = VNone)"
| "py_eq (VStr s) b = (b = VStr s)"
| "py_eq (VBytes s) b = (b = VBytes s)"
| "py_eq a b = (py_num_key a \<noteq> None \<and> py_num_key a = py_num_key b)"

text \<open>
  The order of two values is that of their \<open>order_key\<close>s, when they are both numbers, both
  strings or both byte strings; otherwise Python raises \<^verbatim>\<open>TypeError\<close>.  Every
  comparison with a NaN is false.
\<close>

datatype order_key = KNum num_key | KNaN | KStr string | KBytes "byte list" | KNull

fun key_rank :: "order_key \<Rightarrow> nat" where
  "key_rank (KNum k) = 0"
| "key_rank KNaN = 1"
| "key_rank (KStr s) = 2"
| "key_rank (KBytes bs) = 3"
| "key_rank KNull = 4"

fun order_key_le :: "order_key \<Rightarrow> order_key \<Rightarrow> bool" where
  "order_key_le (KNum j) (KNum k) = (j \<le> k)"
| "order_key_le (KStr s) (KStr t) = (s \<le> t)"
| "order_key_le (KBytes s) (KBytes t) = (s \<le> t)"
| "order_key_le a b = (key_rank a \<le> key_rank b)"

instantiation order_key :: linorder
begin

definition less_eq_order_key :: "order_key \<Rightarrow> order_key \<Rightarrow> bool" where
  "less_eq_order_key = order_key_le"

definition less_order_key :: "order_key \<Rightarrow> order_key \<Rightarrow> bool" where
  "less_order_key a b = (a \<le> b \<and> a \<noteq> b)"

instance
proof
  fix a b c :: order_key
  show "a \<le> b \<Longrightarrow> b \<le> a \<Longrightarrow> a = b"
    by (cases a; cases b) (auto simp: less_eq_order_key_def)
  show "a < b \<longleftrightarrow> a \<le> b \<and> \<not> b \<le> a"
    by (cases a; cases b) (auto simp: less_eq_order_key_def less_order_key_def)
  show "a \<le> a" by (cases a) (auto simp: less_eq_order_key_def)
  show "a \<le> b \<Longrightarrow> b \<le> c \<Longrightarrow> a \<le> c"
    by (cases a; cases b; cases c) (auto simp: less_eq_order_key_def)
  show "a \<le> b \<or> b \<le> a" by (cases a; cases b) (auto simp: less_eq_order_key_def)
qed

end

fun py_key :: "pyval \<Rightarrow> order_key" where
  "py_key (VStr s) = KStr s"
| "py_key (VBytes bs) = KBytes bs"
| "py_key VNull = KNull"
| "py_key VNone = KNull"
| "py_key v = (case py_num_key v of Some k \<Rightarrow> KNum k | None \<Rightarrow> KNaN)"

fun comparable :: "order_key \<Rightarrow> order_key \<Rightarrow> bool" where
  "comparable (KStr s) b = (key_rank b = 2)"
| "comparable (KBytes s) b = (key_rank b = 3)"
| "comparable KNull b = False"
| "comparable a b = (key_rank b \<le> 1)"

section \<open>What the interpreter computes\<close>

text \<open>
  The operations on floats and text that are not modelled.  \<open>ra_nan_sort\<close> is the order, by
  position, in which \<^verbatim>\<open>sorted\<close> returns rows whose keys have a NaN among them: no
  comparison with a NaN holds, so it depends on which comparisons the algorithm makes.
\<close>

record sql_runtime = py_runtime +
  ra_add :: "64 word \<Rightarrow> 64 word \<Rightarrow> 64 word"
  ra_sub :: "64 word \<Rightarrow> 64 word \<Rightarrow> 64 word"
  ra_mul :: "64 word \<Rightarrow> 64 word \<Rightarrow> 64 word"
  ra_div :: "64 word \<Rightarrow> 64 word \<Rightarrow> 64 word"
  ra_mod :: "64 word \<Rightarrow> 64 word \<Rightarrow> 64 word"
  ra_int_div :: "int \<Rightarrow> int \<Rightarrow> 64 word result"
  ra_round :: "64 word \<Rightarrow> int \<Rightarrow> 64 word result"
  ra_sum :: "pyval list \<Rightarrow> pyval result"
  ra_format :: "pyval \<Rightarrow> pyval \<Rightarrow> pyval result"
  ra_expr_str :: "expr \<Rightarrow> string"
  ra_hash :: "string \<Rightarrow> int"
  ra_float_text :: "nat \<Rightarrow> pyval \<Rightarrow> string"
  ra_nan_sort :: "order_key list list \<Rightarrow> nat list result"

definition base_rt :: "sql_runtime \<Rightarrow> py_runtime" where
  "base_rt rt = py_runtime.truncate rt"

section \<open>Comparisons\<close>

definition py_lt :: "pyval \<Rightarrow> pyval \<Rightarrow> bool result" where
  "py_lt a b =
     (if \<not> comparable (py_key a) (py_key b) then Inl TypeError
      else Inr (py_key a \<noteq> KNaN \<and> py_key b \<noteq> KNaN \<and> py_key a < py_key b))"

definition py_le :: "pyval \<Rightarrow> pyval \<Rightarrow> bool result" where
  "py_le a b =
     (if \<not> comparable (py_key a) (py_key b) then Inl TypeError
      else Inr (py_key a \<noteq> KNaN \<and> py_key b \<noteq> KNaN \<and> py_key a \<le> py_key b))"

section \<open>Arithmetic\<close>

definition float_flip :: "64 word \<Rightarrow> 64 word" where
  "float_flip f = f XOR push_bit 63 1"

text \<open>An arithmetic operator on two numbers: on integers, or on floats after conversion.\<close>

definition num_op ::
  "sql_runtime \<Rightarrow> (int \<Rightarrow> int \<Rightarrow> pyval result) \<Rightarrow> (64 word \<Rightarrow> 64 word \<Rightarrow> 64 word) \<Rightarrow> pyval \<Rightarrow> pyval \<Rightarrow> pyval result"
where
  "num_op rt f g a b =
     (if is_int a \<and> is_int b then f (int_value a) (int_value b)
      else if is_number a \<and> is_number b then
        bindr (py_float (base_rt rt) a) (\<lambda>x. bindr (py_float (base_rt rt) b) (\<lambda>y. Inr (VFloat (g x y))))
      else Inl TypeError)"

definition py_add :: "sql_runtime \<Rightarrow> pyval \<Rightarrow> pyval \<Rightarrow> pyval result" where
  "py_add rt a b =
     (case (a, b) of
        (VStr s, VStr t) \<Rightarrow> Inr (VStr (s @ t))
      | (VBytes s, VBytes t) \<Rightarrow> Inr (VBytes (s @ t))
      | _ \<Rightarrow> num_op rt (\<lambda>i j. Inr (VInt (i + j))) (ra_add rt) a b)"

definition py_sub :: "sql_runtime \<Rightarrow> pyval \<Rightarrow> pyval \<Rightarrow> pyval result" where
  "py_sub rt = num_op rt (\<lambda>i j. Inr (VInt (i - j))) (ra_sub rt)"

text \<open>A sequence times an integer is repeated; a count below one gives the empty sequence.\<close>

definition py_mul :: "sql_runtime \<Rightarrow> pyval \<Rightarrow> pyval \<Rightarrow> pyval result" where
  "py_mul rt a b =
     (case (a, b) of
        (VStr s, _) \<Rightarrow> if is_int b then Inr (VStr (concat (replicate (nat (int_value b)) s))) else Inl TypeError
      | (VBytes s, _) \<Rightarrow> if is_int b then Inr (VBytes (concat (replicate (nat (int_value b)) s))) else Inl TypeError
      | (_, VStr s) \<Rightarrow> if is_int a then Inr (VStr (concat (replicate (nat (int_value a)) s))) else Inl TypeError
      | (_, VBytes s) \<Rightarrow> if is_int a then Inr (VBytes (concat (replicate (nat (int_value a)) s))) else Inl TypeError
      | _ \<Rightarrow> num_op rt (\<lambda>i j. Inr (VInt (i * j))) (ra_mul rt) a b)"

text \<open>Division and remainder, whose divisor the callers have compared with zero.\<close>

definition py_truediv :: "sql_runtime \<Rightarrow> pyval \<Rightarrow> pyval \<Rightarrow> pyval result" where
  "py_truediv rt = num_op rt (\<lambda>i j. bindr (ra_int_div rt i j) (\<lambda>f. Inr (VFloat f))) (ra_div rt)"

definition py_mod :: "sql_runtime \<Rightarrow> pyval \<Rightarrow> pyval \<Rightarrow> pyval result" where
  "py_mod rt a b =
     (case a of
        VStr _ \<Rightarrow> ra_format rt a b
      | VBytes _ \<Rightarrow> ra_format rt a b
      | _ \<Rightarrow> num_op rt (\<lambda>i j. Inr (VInt (i mod j))) (ra_mod rt) a b)"

fun py_neg :: "pyval \<Rightarrow> pyval result" where
  "py_neg (VBool b) = Inr (VInt (- of_bool b))"
| "py_neg (VInt i) = Inr (VInt (- i))"
| "py_neg (VFloat f) = Inr (VFloat (float_flip f))"
| "py_neg _ = Inl TypeError"

fun py_abs :: "pyval \<Rightarrow> pyval result" where
  "py_abs (VBool b) = Inr (VInt (of_bool b))"
| "py_abs (VInt i) = Inr (VInt \<bar>i\<bar>)"
| "py_abs (VFloat f) = Inr (VFloat (f AND 0x7FFFFFFFFFFFFFFF))"
| "py_abs _ = Inl TypeError"

text \<open>\<^verbatim>\<open>sum\<close> starts from 0; a list with a float is summed by the runtime.\<close>

definition py_sum :: "sql_runtime \<Rightarrow> pyval list \<Rightarrow> pyval result" where
  "py_sum rt vs =
     (if list_all is_int vs then Inr (VInt (sum_list (map int_value vs)))
      else if list_ex (\<lambda>v. is_number v \<and> \<not> is_int v) vs then ra_sum rt vs
      else Inl TypeError)"

text \<open>\<^verbatim>\<open>min\<close> and \<^verbatim>\<open>max\<close> keep the first of equal values.\<close>

fun py_best :: "(pyval \<Rightarrow> pyval \<Rightarrow> bool result) \<Rightarrow> pyval \<Rightarrow> pyval list \<Rightarrow> pyval result" where
  "py_best better v [] = Inr v"
| "py_best better v (w # ws) = bindr (better w v) (\<lambda>b. py_best better (if b then w else v) ws)"

definition py_min :: "pyval list \<Rightarrow> pyval result" where
  "py_min vs = (case vs of [] \<Rightarrow> Inl ValueError | v # ws \<Rightarrow> py_best py_lt v ws)"

definition py_max :: "pyval list \<Rightarrow> pyval result" where
  "py_max vs = (case vs of [] \<Rightarrow> Inl ValueError | v # ws \<Rightarrow> py_best (\<lambda>w v. py_lt v w) v ws)"

section \<open>Strings\<close>

definition lower_latin :: "char \<Rightarrow> char" where
  "lower_latin c =
     (let n = of_char c :: nat
      in if 65 \<le> n \<and> n \<le> 90 \<or> 192 \<le> n \<and> n \<le> 222 \<and> n \<noteq> 215 then char_of (n + 32) else c)"

definition str_lower :: "string \<Rightarrow> string" where
  "str_lower s = map lower_latin s"

definition py_isspace :: "char \<Rightarrow> bool" where
  "py_isspace c =
     (let n = of_char c :: nat
      in 9 \<le> n \<and> n \<le> 13 \<or> 28 \<le> n \<and> n \<le> 32 \<or> n = 133 \<or> n = 160)"

definition str_strip :: "string \<Rightarrow> string" where
  "str_strip s = rev (dropWhile py_isspace (rev (dropWhile py_isspace s)))"

fun starts_with :: "'a list \<Rightarrow> 'a list \<Rightarrow> bool" where
  "starts_with [] s = True"
| "starts_with (x # p) [] = False"
| "starts_with (x # p) (y # s) = (x = y \<and> starts_with p s)"

text \<open>
  \<^verbatim>\<open>s.replace(old, new)\<close> replaces occurrences from the left; an empty pattern
  occurs before every character and at the end.
\<close>

function replace_from :: "string \<Rightarrow> string \<Rightarrow> string \<Rightarrow> string" where
  "replace_from old new s =
     (if s = [] then []
      else if old \<noteq> [] \<and> starts_with old s then new @ replace_from old new (drop (length old) s)
      else hd s # replace_from old new (tl s))"
  by auto
termination by (relation "measure (\<lambda>(old, new, s). length s)") auto

declare replace_from.simps [simp del]

definition str_replace :: "string \<Rightarrow> string \<Rightarrow> string \<Rightarrow> string" where
  "str_replace old new s =
     (if old = [] then concat (map (\<lambda>c. new @ [c]) s) @ new else replace_from old new s)"

section \<open>Rows as dictionaries\<close>

type_synonym row_dict = "(string \<times> pyval) list"

definition row_dict :: "string list \<Rightarrow> pyval list \<Rightarrow> row_dict" where
  "row_dict cols row = fold (\<lambda>(c, v) d. assoc_put c v d) (zip cols row) []"

text \<open>A dictionary from keys under a given equality to lists, each key at its first insertion.\<close>

fun group_put :: "('k \<Rightarrow> 'k \<Rightarrow> bool) \<Rightarrow> 'k \<Rightarrow> 'r \<Rightarrow> ('k \<times> 'r list) list \<Rightarrow> ('k \<times> 'r list) list" where
  "group_put eq k r [] = [(k, [r])]"
| "group_put eq k r ((k', rs) # gs) =
     (if eq k' k then (k', rs @ [r]) # gs else (k', rs) # group_put eq k r gs)"

fun group_get :: "('k \<Rightarrow> 'k \<Rightarrow> bool) \<Rightarrow> 'k \<Rightarrow> ('k \<times> 'r list) list \<Rightarrow> 'r list" where
  "group_get eq k [] = []"
| "group_get eq k ((k', rs) # gs) = (if eq k' k then rs else group_get eq k gs)"

definition tuple_eq :: "pyval list \<Rightarrow> pyval list \<Rightarrow> bool" where
  "tuple_eq xs ys = list_all2 py_eq xs ys"

section \<open>Facts\<close>

lemma float_unit_pos [simp]: "0 < float_unit"
  by (simp only: float_unit_def) (rule zero_less_power, simp)

lemma py_key_number:
  "is_number v \<Longrightarrow> py_key v = (case py_num_key v of Some k \<Rightarrow> KNum k | None \<Rightarrow> KNaN)"
  by (cases v) auto

lemma py_num_key_other: "\<not> is_number v \<Longrightarrow> py_num_key v = None"
  by (cases v) auto

lemma py_eq_number:
  "is_number a \<Longrightarrow> py_eq a b \<longleftrightarrow> py_num_key a \<noteq> None \<and> py_num_key a = py_num_key b"
  by (cases a) auto

lemma py_key_inverse:
  "py_key v = KStr s \<longleftrightarrow> v = VStr s"
  "py_key v = KBytes bs \<longleftrightarrow> v = VBytes bs"
  "py_key v = KNull \<longleftrightarrow> v = VNull \<or> v = VNone"
  "py_key v = KNum k \<longleftrightarrow> py_num_key v = Some k"
  by (cases v; simp split: option.split)+

lemma py_eq_key:
  "py_eq a b \<longleftrightarrow> (a = VNull \<and> b = VNull) \<or> (a = VNone \<and> b = VNone) \<or>
     (py_key a = py_key b \<and> py_key a \<noteq> KNaN \<and> py_key a \<noteq> KNull)"
proof (cases "is_number a")
  case True
  then have "a \<noteq> VNull" "a \<noteq> VNone" by auto
  moreover have "Some k = py_num_key b \<longleftrightarrow> KNum k = py_key b" for k
    by (metis py_key_inverse(4))
  ultimately show ?thesis
    unfolding py_eq_number [OF True] py_key_number [OF True]
    by (cases "py_num_key a") simp_all
next
  case False
  then show ?thesis
    by (cases a) (simp_all add: py_key_inverse eq_commute [of "KStr _"] eq_commute [of "KBytes _"])
qed

lemma py_eq_sym: "py_eq a b = py_eq b a"
  unfolding py_eq_key by metis

lemma py_eq_trans: "py_eq a b \<Longrightarrow> py_eq b c \<Longrightarrow> py_eq a c"
  unfolding py_eq_key by metis

lemma py_eq_null [simp]: "py_eq a VNull \<longleftrightarrow> a = VNull" "py_eq VNull a \<longleftrightarrow> a = VNull"
  by (auto simp: py_eq_key)

lemma comparable_sym: "comparable a b = comparable b a"
  by (cases a; cases b) auto

lemma comparable_trans: "comparable a b \<Longrightarrow> comparable b c \<Longrightarrow> comparable a c"
  by (cases a; cases b; cases c) auto

lemma base_rt_simps [simp]:
  "rt_int_of_str (base_rt rt) = rt_int_of_str rt"
  "rt_int_of_float (base_rt rt) = rt_int_of_float rt"
  "rt_float_of_int (base_rt rt) = rt_float_of_int rt"
  "rt_float_of_str (base_rt rt) = rt_float_of_str rt"
  "rt_float_repr (base_rt rt) = rt_float_repr rt"
  "rt_bytes_repr (base_rt rt) = rt_bytes_repr rt"
  by (simp_all add: base_rt_def py_runtime.truncate_def)

lemma starts_with_append: "starts_with p s \<longleftrightarrow> (\<exists>t. s = p @ t)"
  by (induction p s rule: starts_with.induct) auto

lemma assoc_get_fold_put:
  "assoc_get k (fold (\<lambda>(c, v) d. assoc_put c v d) xs d) =
     (case map_of (rev xs) k of Some v \<Rightarrow> Some v | None \<Rightarrow> assoc_get k d)"
  by (induction xs arbitrary: d) (auto simp: assoc_get_put map_add_def split: option.split)

lemma row_dict_get: "assoc_get k (row_dict cols row) = map_of (rev (zip cols row)) k"
  by (simp add: row_dict_def assoc_get_fold_put split: option.split)

lemma map_of_rev_distinct:
  assumes "distinct (map fst xs)"
  shows "map_of (rev xs) k = map_of xs k"
proof -
  have "distinct (map fst (rev xs))" using assms by (simp flip: rev_map)
  then have "map_of (rev xs) k = Some v \<longleftrightarrow> map_of xs k = Some v" for v
    using assms by (simp add: map_of_eq_Some_iff)
  then show ?thesis by (metis not_Some_eq)
qed

lemma row_dict_distinct:
  assumes "distinct cols" "length row = length cols" "i < length cols"
  shows "assoc_get (cols ! i) (row_dict cols row) = Some (row ! i)"
  using assms by (simp add: row_dict_get map_of_rev_distinct map_of_zip_nth)

end
