(* ===== verification/Vectorized.thy ===== *)
theory Vectorized
  imports Py_Ops Ast Record_Codec
begin

unbundle bit_operations_syntax

text \<open>
  The vectorized engine of \<^verbatim>\<open>src/pysql/vectorized.py\<close>: column vectors with a
  bit-packed null mask, record batches, the pull-based operators and the pipeline that drives
  them.  List indices out of range raise \<^verbatim>\<open>IndexError\<close>, as in the code.
\<close>

definition VECTOR_SIZE :: nat where
  "VECTOR_SIZE = 2048"

section \<open>Column vectors\<close>

text \<open>The three subclasses differ in the element they convert to.\<close>

datatype vector_kind = INT64 | FLOAT64 | STRINGS

record column_vector =
  cv_kind :: vector_kind
  cv_length :: nat
  cv_mask :: "byte list"
  cv_data :: "pyval list"

fun blank_value :: "vector_kind \<Rightarrow> pyval" where
  "blank_value INT64 = VInt 0"
| "blank_value FLOAT64 = VFloat 0"
| "blank_value STRINGS = VStr []"

definition vector_new :: "vector_kind \<Rightarrow> nat \<Rightarrow> column_vector" where
  "vector_new k capacity = \<lparr>cv_kind = k, cv_length = 0, cv_mask = replicate ((capacity + 7) div 8) 0,
     cv_data = replicate capacity (blank_value k)\<rparr>"

definition is_null :: "column_vector \<Rightarrow> nat \<Rightarrow> bool result" where
  "is_null v i =
     (let byte_idx = drop_bit 3 i; bit_idx = i AND 7 in
      if byte_idx < length (cv_mask v) then Inr (cv_mask v ! byte_idx AND push_bit bit_idx 1 \<noteq> 0)
      else Inl IndexError)"

definition set_null :: "column_vector \<Rightarrow> nat \<Rightarrow> column_vector result" where
  "set_null v i =
     (let byte_idx = drop_bit 3 i; bit_idx = i AND 7 in
      if byte_idx < length (cv_mask v)
      then Inr (v\<lparr>cv_mask := (cv_mask v)[byte_idx := cv_mask v ! byte_idx OR push_bit bit_idx 1]\<rparr>)
      else Inl IndexError)"

definition vec_get :: "column_vector \<Rightarrow> nat \<Rightarrow> pyval result" where
  "vec_get v i =
     bindr (is_null v i) (\<lambda>b.
       if b then Inr VNull else if i < length (cv_data v) then Inr (cv_data v ! i) else Inl IndexError)"

fun to_kind :: "sql_runtime \<Rightarrow> vector_kind \<Rightarrow> pyval \<Rightarrow> pyval result" where
  "to_kind rt INT64 v = bindr (py_int (base_rt rt) v) (\<lambda>i. Inr (VInt i))"
| "to_kind rt FLOAT64 v = bindr (py_float (base_rt rt) v) (\<lambda>f. Inr (VFloat f))"
| "to_kind rt STRINGS v = Inr (VStr (py_str (base_rt rt) v))"

definition vec_append :: "sql_runtime \<Rightarrow> column_vector \<Rightarrow> pyval \<Rightarrow> column_vector result" where
  "vec_append rt v x =
     bindr (if null_like x then set_null v (cv_length v)
            else bindr (to_kind rt (cv_kind v) x) (\<lambda>y.
              if cv_length v < length (cv_data v) then Inr (v\<lparr>cv_data := (cv_data v)[cv_length v := y]\<rparr>)
              else Inl IndexError))
       (\<lambda>w. Inr (w\<lparr>cv_length := cv_length v + 1\<rparr>))"

fun append_values :: "sql_runtime \<Rightarrow> ('x \<Rightarrow> pyval result) \<Rightarrow> 'x list \<Rightarrow> column_vector \<Rightarrow> column_vector result" where
  "append_values rt f [] v = Inr v"
| "append_values rt f (x # xs) v = bindr (f x) (\<lambda>y. bindr (vec_append rt v y) (append_values rt f xs))"

definition vec_slice :: "sql_runtime \<Rightarrow> column_vector \<Rightarrow> nat list \<Rightarrow> column_vector result" where
  "vec_slice rt v selection = append_values rt (vec_get v) selection (vector_new (cv_kind v) (length selection))"

text \<open>The loops that collect matching indices.\<close>

fun matching :: "(nat \<Rightarrow> bool result) \<Rightarrow> nat list \<Rightarrow> nat list result" where
  "matching f [] = Inr []"
| "matching f (i # is) = bindr (f i) (\<lambda>b. bindr (matching f is) (\<lambda>js. Inr (if b then i # js else js)))"

definition vec_gt :: "column_vector \<Rightarrow> pyval \<Rightarrow> nat list result" where
  "vec_gt v scalar =
     matching (\<lambda>i. bindr (is_null v i) (\<lambda>b.
         if b then Inr False
         else if i < length (cv_data v) then py_lt scalar (cv_data v ! i) else Inl IndexError))
       [0..<cv_length v]"

text \<open>\<^verbatim>\<open>vec_add\<close> writes into a result whose length is already set.\<close>

fun add_from :: "sql_runtime \<Rightarrow> column_vector \<Rightarrow> column_vector \<Rightarrow> nat list \<Rightarrow> column_vector \<Rightarrow> column_vector result" where
  "add_from rt v w [] res = Inr res"
| "add_from rt v w (i # is) res =
     bindr (is_null v i) (\<lambda>a. bindr (if a then Inr True else is_null w i) (\<lambda>b.
       bindr (if b then set_null res i
              else bindr (py_get (cv_data v) (int i)) (\<lambda>x. bindr (py_get (cv_data w) (int i)) (\<lambda>y.
                bindr (py_add rt x y) (\<lambda>z. Inr (res\<lparr>cv_data := (cv_data res)[i := z]\<rparr>)))))
         (add_from rt v w is)))"

definition vec_add :: "sql_runtime \<Rightarrow> column_vector \<Rightarrow> column_vector \<Rightarrow> column_vector result" where
  "vec_add rt v w =
     add_from rt v w [0..<cv_length v] ((vector_new INT64 (cv_length v))\<lparr>cv_length := cv_length v\<rparr>)"

section \<open>Record batches\<close>

record record_batch =
  rb_schema :: "string list"
  rb_vectors :: "column_vector list"
  rb_num_rows :: nat

text \<open>The first value of a column that is not missing.\<close>

fun column_sample :: "nat \<Rightarrow> pyval list list \<Rightarrow> pyval option result" where
  "column_sample j [] = Inr None"
| "column_sample j (row # rows) =
     bindr (py_get row (int j)) (\<lambda>v. if null_like v then column_sample j rows else Inr (Some v))"

fun kind_of :: "pyval option \<Rightarrow> vector_kind" where
  "kind_of (Some (VFloat f)) = FLOAT64"
| "kind_of (Some (VInt i)) = INT64"
| "kind_of _ = STRINGS"

definition build_column :: "sql_runtime \<Rightarrow> pyval list list \<Rightarrow> nat \<Rightarrow> column_vector result" where
  "build_column rt rows j =
     bindr (column_sample j rows) (\<lambda>sample.
       append_values rt (\<lambda>row. py_get row (int j)) rows
         (vector_new (kind_of sample) (max (length rows) VECTOR_SIZE)))"

definition from_rows :: "sql_runtime \<Rightarrow> string list \<Rightarrow> pyval list list \<Rightarrow> record_batch result" where
  "from_rows rt schema rows =
     (if rows = [] then Inr \<lparr>rb_schema = schema, rb_vectors = [], rb_num_rows = 0\<rparr>
      else bindr (mapr (build_column rt rows) [0..<length schema]) (\<lambda>vs.
             Inr \<lparr>rb_schema = schema, rb_vectors = vs, rb_num_rows = length rows\<rparr>))"

definition to_rows :: "record_batch \<Rightarrow> pyval list list result" where
  "to_rows b = mapr (\<lambda>i. mapr (\<lambda>v. vec_get v i) (rb_vectors b)) [0..<rb_num_rows b]"

definition filter_by_selection :: "sql_runtime \<Rightarrow> record_batch \<Rightarrow> nat list \<Rightarrow> record_batch result" where
  "filter_by_selection rt b selection =
     bindr (mapr (\<lambda>v. vec_slice rt v selection) (rb_vectors b)) (\<lambda>vs.
       Inr (b\<lparr>rb_vectors := vs, rb_num_rows := length selection\<rparr>))"

section \<open>Predicates\<close>

fun scalar_value :: "row_dict \<Rightarrow> expr \<Rightarrow> pyval" where
  "scalar_value row (Literal v ty) = v"
| "scalar_value row (ColumnRef c tab) = (case assoc_get c row of Some v \<Rightarrow> v | None \<Rightarrow> VNull)"
| "scalar_value row _ = VNull"

fun scalar_holds :: "row_dict \<Rightarrow> expr \<Rightarrow> bool result" where
  "scalar_holds row (BinaryOp op l r) =
     (let left = scalar_value row l; right = scalar_value row r in
      if is_null_value left \<or> is_null_value right then Inr False
      else if op = OP_GT then py_lt right left
      else if op = OP_EQ then Inr (py_eq left right)
      else if op = OP_LT then py_lt left right
      else if op = OP_AND then Inr (py_bool left \<and> py_bool right)
      else Inr True)"
| "scalar_holds row _ = Inr True"

definition batch_row :: "record_batch \<Rightarrow> nat \<Rightarrow> row_dict result" where
  "batch_row b i =
     bindr (mapr (\<lambda>c. bindr (py_get (rb_vectors b) (int c)) (\<lambda>v. vec_get v i)) [0..<length (rb_schema b)])
       (\<lambda>vs. Inr (row_dict (rb_schema b) vs))"

definition row_by_row :: "expr \<Rightarrow> record_batch \<Rightarrow> nat list result" where
  "row_by_row e b = matching (\<lambda>i. bindr (batch_row b i) (\<lambda>row. scalar_holds row e)) [0..<rb_num_rows b]"

text \<open>The fast path of \<^verbatim>\<open>_eval_vector_predicate\<close>, when it applies.\<close>

fun fast_path :: "expr \<Rightarrow> record_batch \<Rightarrow> nat list option result" where
  "fast_path (BinaryOp op (ColumnRef c tab) (Literal v ty)) b =
     (if c \<in> set (rb_schema b) then
        bindr (index_of c (rb_schema b)) (\<lambda>j. bindr (py_get (rb_vectors b) (int j)) (\<lambda>vec.
          if cv_kind vec = INT64 \<and> is_int v then
            (if op = OP_GT then bindr (vec_gt vec v) (\<lambda>is. Inr (Some is))
             else if op = OP_EQ then
               bindr (matching (\<lambda>i. bindr (vec_get vec i) (\<lambda>x. Inr (py_eq x v))) [0..<rb_num_rows b])
                 (\<lambda>is. Inr (Some is))
             else Inr None)
          else Inr None))
      else Inr None)"
| "fast_path _ b = Inr None"

definition vector_predicate :: "expr \<Rightarrow> record_batch \<Rightarrow> nat list result" where
  "vector_predicate e b =
     bindr (fast_path e b) (\<lambda>r. case r of Some is \<Rightarrow> Inr is | None \<Rightarrow> row_by_row e b)"

section \<open>Operators\<close>

text \<open>
  A pipeline has one scan, whose cursor is the only state of its operators.  The loop of the filter
  asks its child again until a batch has a matching row.
\<close>

datatype vector_op =
    BatchScan "string list" "pyval list list"
  | VectorFilter vector_op expr
  | VectorProject vector_op "string list"

type_synonym batch_stream = "nat \<Rightarrow> (nat \<times> record_batch option result) option"

definition scan_batch :: "sql_runtime \<Rightarrow> string list \<Rightarrow> pyval list list \<Rightarrow> batch_stream" where
  "scan_batch rt schema rows cursor =
     (if length rows \<le> cursor then Some (cursor, Inr None)
      else (let end = min (cursor + VECTOR_SIZE) (length rows)
            in Some (end, bindr (from_rows rt schema (take (end - cursor) (drop cursor rows))) (\<lambda>b. Inr (Some b)))))"

definition select_batch :: "sql_runtime \<Rightarrow> expr \<Rightarrow> record_batch \<Rightarrow> record_batch option result" where
  "select_batch rt e b =
     (if rb_num_rows b = 0 then Inr None
      else bindr (vector_predicate e b) (\<lambda>selection.
             if selection = [] then Inr None
             else bindr (filter_by_selection rt b selection) (\<lambda>c. Inr (Some c))))"

partial_function (option) filter_batches ::
  "batch_stream \<Rightarrow> (record_batch \<Rightarrow> record_batch option result) \<Rightarrow> batch_stream"
where
  "filter_batches next sel cursor =
     (case next cursor of
        None \<Rightarrow> None
      | Some (cursor1, r) \<Rightarrow>
          (case r of
             Inl e \<Rightarrow> Some (cursor1, Inl e)
           | Inr None \<Rightarrow> Some (cursor1, Inr None)
           | Inr (Some b) \<Rightarrow>
               (case sel b of
                  Inl e \<Rightarrow> Some (cursor1, Inl e)
                | Inr None \<Rightarrow> filter_batches next sel cursor1
                | Inr (Some c) \<Rightarrow> Some (cursor1, Inr (Some c)))))"

fun project_columns :: "record_batch \<Rightarrow> string list \<Rightarrow> (string \<times> column_vector) list result" where
  "project_columns b [] = Inr []"
| "project_columns b (c # cs) =
     (if c \<in> set (rb_schema b) then
        bindr (index_of c (rb_schema b)) (\<lambda>j. bindr (py_get (rb_vectors b) (int j)) (\<lambda>v.
          bindr (project_columns b cs) (\<lambda>rest. Inr ((c, v) # rest))))
      else project_columns b cs)"

definition project_batch :: "string list \<Rightarrow> record_batch \<Rightarrow> record_batch result" where
  "project_batch cs b =
     bindr (project_columns b cs) (\<lambda>cvs.
       Inr \<lparr>rb_schema = map fst cvs, rb_vectors = map snd cvs, rb_num_rows = rb_num_rows b\<rparr>)"

definition project_batches :: "batch_stream \<Rightarrow> string list \<Rightarrow> batch_stream" where
  "project_batches next cs cursor =
     (case next cursor of
        None \<Rightarrow> None
      | Some (cursor1, r) \<Rightarrow>
          Some (cursor1, bindr r (\<lambda>ob. case ob of
            None \<Rightarrow> Inr None | Some b \<Rightarrow> bindr (project_batch cs b) (\<lambda>c. Inr (Some c)))))"

primrec next_batch :: "sql_runtime \<Rightarrow> vector_op \<Rightarrow> batch_stream" where
  "next_batch rt (BatchScan schema rows) = scan_batch rt schema rows"
| "next_batch rt (VectorFilter child e) = filter_batches (next_batch rt child) (select_batch rt e)"
| "next_batch rt (VectorProject child cs) = project_batches (next_batch rt child) cs"

partial_function (option) drain :: "batch_stream \<Rightarrow> nat \<Rightarrow> pyval list list \<Rightarrow> pyval list list result option" where
  "drain next cursor acc =
     (case next cursor of
        None \<Rightarrow> None
      | Some (cursor1, r) \<Rightarrow>
          (case r of
             Inl e \<Rightarrow> Some (Inl e)
           | Inr None \<Rightarrow> Some (Inr acc)
           | Inr (Some b) \<Rightarrow>
               (case to_rows b of
                  Inl e \<Rightarrow> Some (Inl e)
                | Inr rows \<Rightarrow> drain next cursor1 (acc @ rows))))"

definition execute_pipeline ::
  "sql_runtime \<Rightarrow> string list \<Rightarrow> pyval list list \<Rightarrow> expr option \<Rightarrow> string list option \<Rightarrow>
   pyval list list result option"
where
  "execute_pipeline rt schema rows predicate select_cols =
     (let source = BatchScan schema rows;
          filtered = (case predicate of Some e \<Rightarrow> VectorFilter source e | None \<Rightarrow> source);
          projected = (case select_cols of Some (c # cs) \<Rightarrow> VectorProject filtered (c # cs) | _ \<Rightarrow> filtered)
      in drain (next_batch rt projected) 0 [])"

end
