(* ===== verification/Sql_Eval.thy ===== *)
theory Sql_Eval
  imports Py_Ops
begin

text \<open>
  Evaluation of expressions, the last part of \<^verbatim>\<open>src/pysql/executor.py\<close>:
  operators with \<^verbatim>\<open>NULL\<close>, scalar functions, \<^verbatim>\<open>LIKE\<close>, casts and
  predicates over a row.  The transaction argument, which evaluation never uses, is left out.
\<close>

section \<open>Operators\<close>

text \<open>The exceptions an operator or a cast turns into \<^verbatim>\<open>NULL\<close>.\<close>

definition or_null :: "pyval result \<Rightarrow> pyval result" where
  "or_null r = (case r of Inl e \<Rightarrow> if e = TypeError \<or> e = ValueError then Inr VNull else Inl e | Inr v \<Rightarrow> Inr v)"

definition bool_result :: "bool result \<Rightarrow> pyval result" where
  "bool_result r = bindr r (\<lambda>b. Inr (VBool b))"

fun apply_op :: "sql_runtime \<Rightarrow> binary_op_type \<Rightarrow> pyval \<Rightarrow> pyval \<Rightarrow> pyval result" where
  "apply_op rt OP_ADD a b = py_add rt a b"
| "apply_op rt OP_SUB a b = py_sub rt a b"
| "apply_op rt OP_MUL a b = py_mul rt a b"
| "apply_op rt OP_DIV a b = (if \<not> py_eq b (VInt 0) then py_truediv rt a b else Inr VNull)"
| "apply_op rt OP_MOD a b = (if \<not> py_eq b (VInt 0) then py_mod rt a b else Inr VNull)"
| "apply_op rt OP_EQ a b = Inr (VBool (py_eq a b))"
| "apply_op rt OP_NEQ a b = Inr (VBool (\<not> py_eq a b))"
| "apply_op rt OP_LT a b = bool_result (py_lt a b)"
| "apply_op rt OP_GT a b = bool_result (py_lt b a)"
| "apply_op rt OP_LTE a b = bool_result (py_le a b)"
| "apply_op rt OP_GTE a b = bool_result (py_le b a)"
| "apply_op rt OP_AND a b = Inr (if py_bool a then b else a)"
| "apply_op rt OP_OR a b = Inr (if py_bool a then a else b)"
| "apply_op rt OP_CONCAT a b = Inr (VStr (py_str (base_rt rt) a @ py_str (base_rt rt) b))"

definition eval_binary_op :: "sql_runtime \<Rightarrow> binary_op_type \<Rightarrow> pyval \<Rightarrow> pyval \<Rightarrow> pyval result" where
  "eval_binary_op rt op left right =
     (if is_null_value left \<or> is_null_value right then
        (if op = OP_AND \<and> is_null_value left \<and> right = VBool False then Inr (VBool False)
         else if op = OP_AND \<and> is_null_value right \<and> left = VBool False then Inr (VBool False)
         else if op = OP_OR \<and> is_null_value left \<and> right = VBool True then Inr (VBool True)
         else if op = OP_OR \<and> is_null_value right \<and> left = VBool True then Inr (VBool True)
         else Inr VNull)
      else or_null (apply_op rt op left right))"

fun eval_unary_op :: "unary_op_type \<Rightarrow> pyval \<Rightarrow> pyval result" where
  "eval_unary_op OP_NOT v = Inr (if is_null_value v then VNull else VBool (\<not> py_bool v))"
| "eval_unary_op OP_NEGATE v = (if is_null_value v then Inr VNull else py_neg v)"

section \<open>LIKE\<close>

text \<open>
  The regular expressions a pattern is translated to: anchored sequences of
  \<^verbatim>\<open>.*\<close>, \<^verbatim>\<open>.\<close> and escaped characters.  A dot does not match a newline,
  characters match up to case, and the final \<^verbatim>\<open>$\<close> also matches before a newline at
  the end of the string.
\<close>

datatype rx = Rx_Many | Rx_One | Rx_Char char

definition like_to_regex :: "string \<Rightarrow> rx list" where
  "like_to_regex pattern =
     map (\<lambda>ch. if ch = CHR ''%'' then Rx_Many else if ch = CHR ''_'' then Rx_One else Rx_Char ch) pattern"

definition newline :: char where
  "newline = CHR 0x0A"

function re_match :: "rx list \<Rightarrow> string \<Rightarrow> bool" where
  "re_match [] s = (s = [] \<or> s = [newline])"
| "re_match (Rx_Many # r) s =
     (re_match r s \<or> (case s of [] \<Rightarrow> False | c # s' \<Rightarrow> c \<noteq> newline \<and> re_match (Rx_Many # r) s'))"
| "re_match (Rx_One # r) s = (case s of [] \<Rightarrow> False | c # s' \<Rightarrow> c \<noteq> newline \<and> re_match r s')"
| "re_match (Rx_Char d # r) s =
     (case s of [] \<Rightarrow> False | c # s' \<Rightarrow> lower_latin c = lower_latin d \<and> re_match r s')"
  by pat_completeness auto
termination by (relation "measure (\<lambda>(r, s). length r + length s)") auto

section \<open>Functions and casts\<close>

definition text_fun :: "sql_runtime \<Rightarrow> (string \<Rightarrow> pyval) \<Rightarrow> pyval list \<Rightarrow> pyval result" where
  "text_fun rt f args = Inr (case args of [] \<Rightarrow> VNull | a # _ \<Rightarrow> f (py_str (base_rt rt) a))"

definition sql_substr :: "sql_runtime \<Rightarrow> pyval list \<Rightarrow> pyval result" where
  "sql_substr rt args =
     (case args of
        a # b # rest \<Rightarrow>
          (let s = py_str (base_rt rt) a in
           bindr (py_int (base_rt rt) b) (\<lambda>i.
             let start = i - 1 in
             bindr (case rest of c # _ \<Rightarrow> py_int (base_rt rt) c | [] \<Rightarrow> Inr (int (length s)))
               (\<lambda>n. Inr (VStr (py_slice s start (start + n))))))
      | _ \<Rightarrow> Inr VNull)"

definition sql_replace :: "sql_runtime \<Rightarrow> pyval list \<Rightarrow> pyval result" where
  "sql_replace rt args =
     (case args of
        a # b # c # _ \<Rightarrow> Inr (VStr (str_replace (py_str (base_rt rt) b) (py_str (base_rt rt) c)
                                    (py_str (base_rt rt) a)))
      | _ \<Rightarrow> Inr VNull)"

definition sql_round :: "sql_runtime \<Rightarrow> pyval list \<Rightarrow> pyval result" where
  "sql_round rt args =
     (case args of
        [] \<Rightarrow> Inr VNull
      | a # rest \<Rightarrow>
          bindr (case rest of b # _ \<Rightarrow> py_int (base_rt rt) b | [] \<Rightarrow> Inr 0) (\<lambda>d.
            bindr (py_float (base_rt rt) a) (\<lambda>f.
              bindr (ra_round rt f d) (\<lambda>r. Inr (VFloat r)))))"

fun sql_typeof :: "pyval list \<Rightarrow> pyval" where
  "sql_typeof [] = VNull"
| "sql_typeof (VNull # _) = VStr ''null''"
| "sql_typeof (VBool _ # _) = VStr ''integer''"
| "sql_typeof (VInt _ # _) = VStr ''integer''"
| "sql_typeof (VFloat _ # _) = VStr ''real''"
| "sql_typeof (VStr _ # _) = VStr ''text''"
| "sql_typeof (_ # _) = VStr ''blob''"

definition eval_function :: "sql_runtime \<Rightarrow> string \<Rightarrow> pyval list \<Rightarrow> pyval result" where
  "eval_function rt name args =
     (let n = str_upper name in
      if n = ''ABS'' then (case args of [] \<Rightarrow> Inr VNull | a # _ \<Rightarrow> py_abs a)
      else if n = ''UPPER'' then text_fun rt (\<lambda>s. VStr (str_upper s)) args
      else if n = ''LOWER'' then text_fun rt (\<lambda>s. VStr (str_lower s)) args
      else if n = ''LENGTH'' \<or> n = ''LEN'' then text_fun rt (\<lambda>s. VInt (int (length s))) args
      else if n = ''COALESCE'' then
        Inr (case List.find (\<lambda>v. \<not> is_null_value v) args of Some v \<Rightarrow> v | None \<Rightarrow> VNull)
      else if n = ''NULLIF'' then
        Inr (case args of
               a # b # _ \<Rightarrow> if py_eq a b then VNull else a
             | [a] \<Rightarrow> a
             | [] \<Rightarrow> VNull)
      else if n = ''SUBSTR'' \<or> n = ''SUBSTRING'' then sql_substr rt args
      else if n = ''REPLACE'' then sql_replace rt args
      else if n = ''TRIM'' then text_fun rt (\<lambda>s. VStr (str_strip s)) args
      else if n = ''ROUND'' then sql_round rt args
      else if n = ''TYPEOF'' then Inr (sql_typeof args)
      else Inr VNull)"

definition cast_value :: "sql_runtime \<Rightarrow> pyval \<Rightarrow> string \<Rightarrow> pyval result" where
  "cast_value rt v target_type =
     (if is_null_value v then Inr VNull
      else let target = str_upper target_type in
        if target \<in> set [''INTEGER'', ''INT''] then
          or_null (bindr (py_int (base_rt rt) v) (\<lambda>i. Inr (VInt i)))
        else if target \<in> set [''FLOAT'', ''DOUBLE'', ''REAL''] then
          or_null (bindr (py_float (base_rt rt) v) (\<lambda>f. Inr (VFloat f)))
        else if target \<in> set [''TEXT'', ''VARCHAR''] then Inr (VStr (py_str (base_rt rt) v))
        else if target \<in> set [''BOOLEAN'', ''BOOL''] then Inr (VBool (py_bool v))
        else Inr v)"

section \<open>Expressions\<close>

definition column_value :: "row_dict \<Rightarrow> string \<Rightarrow> string option \<Rightarrow> pyval" where
  "column_value row c tab =
     (case (case tab of
              Some t \<Rightarrow> if t = [] then None else assoc_get (t @ ''.'' @ c) row
            | None \<Rightarrow> None) of
        Some v \<Rightarrow> v
      | None \<Rightarrow>
          (case assoc_get c row of
             Some v \<Rightarrow> v
           | None \<Rightarrow>
               (case List.find (\<lambda>(k, _). str_lower k = str_lower c) row of
                  Some (_, v) \<Rightarrow> v
                | None \<Rightarrow> VNull)))"

text \<open>\<^verbatim>\<open>low <= val <= high\<close> looks at the second bound only when the first holds.\<close>

definition py_between :: "pyval \<Rightarrow> pyval \<Rightarrow> pyval \<Rightarrow> bool result" where
  "py_between low v high = bindr (py_le low v) (\<lambda>b. if b then py_le v high else Inr False)"

definition negated_if :: "bool \<Rightarrow> bool \<Rightarrow> pyval" where
  "negated_if negated b = VBool (if negated then \<not> b else b)"

lemma mapr_cong [fundef_cong]:
  "xs = ys \<Longrightarrow> (\<And>x. x \<in> set ys \<Longrightarrow> f x = g x) \<Longrightarrow> mapr f xs = mapr g ys"
proof (induction xs arbitrary: ys)
  case (Cons x xs)
  then show ?case by (cases ys) auto
qed simp

function eval_expr :: "sql_runtime \<Rightarrow> row_dict \<Rightarrow> expr \<Rightarrow> pyval result"
and eval_whens :: "sql_runtime \<Rightarrow> row_dict \<Rightarrow> pyval option \<Rightarrow> (expr \<times> expr) list \<Rightarrow> pyval option result" where
  "eval_expr rt row (Literal v ty) = Inr (if ty = ''null'' then VNull else v)"
| "eval_expr rt row (ColumnRef c tab) = Inr (column_value row c tab)"
| "eval_expr rt row (BinaryOp op l r) =
     bindr (eval_expr rt row l) (\<lambda>a. bindr (eval_expr rt row r) (\<lambda>b. eval_binary_op rt op a b))"
| "eval_expr rt row (UnaryOp op e) = bindr (eval_expr rt row e) (eval_unary_op op)"
| "eval_expr rt row (FunctionCall name args dis agg) =
     (if agg then Inr VNull
      else bindr (mapr (eval_expr rt row) args) (eval_function rt name))"
| "eval_expr rt row (IsNullExpr e negated) =
     bindr (eval_expr rt row e) (\<lambda>v. Inr (negated_if negated (is_null_value v)))"
| "eval_expr rt row (BetweenExpr e l h negated) =
     bindr (eval_expr rt row e) (\<lambda>v. bindr (eval_expr rt row l) (\<lambda>low. bindr (eval_expr rt row h) (\<lambda>high.
       bindr (py_between low v high) (\<lambda>b. Inr (negated_if negated b)))))"
| "eval_expr rt row (InExpr e vs q negated) =
     bindr (eval_expr rt row e) (\<lambda>v. bindr (mapr (eval_expr rt row) vs) (\<lambda>ws.
       Inr (negated_if negated (list_ex (\<lambda>w. py_eq w v) ws))))"
| "eval_expr rt row (LikeExpr e p negated) =
     bindr (eval_expr rt row e) (\<lambda>v. bindr (eval_expr rt row p) (\<lambda>pattern.
       if is_null_value v \<or> is_null_value pattern then Inr VNull
       else Inr (negated_if negated
              (re_match (like_to_regex (py_str (base_rt rt) pattern)) (py_str (base_rt rt) v)))))"
| "eval_expr rt row (CaseExpr operand whens els) =
     bindr (case operand of
              Some e \<Rightarrow> bindr (eval_expr rt row e) (\<lambda>v. eval_whens rt row (Some v) whens)
            | None \<Rightarrow> eval_whens rt row None whens)
       (\<lambda>r. case r of
          Some v \<Rightarrow> Inr v
        | None \<Rightarrow> (case els of Some e \<Rightarrow> eval_expr rt row e | None \<Rightarrow> Inr VNull))"
| "eval_expr rt row (CastExpr e ty) = bindr (eval_expr rt row e) (\<lambda>v. cast_value rt v ty)"
| "eval_expr rt row (StarExpr tab) = Inr VNull"
| "eval_expr rt row (ExistsExpr q) = Inr VNull"
| "eval_expr rt row (SubqueryExpr q) = Inr VNull"
| "eval_whens rt row opv [] = Inr None"
| "eval_whens rt row opv ((w, t) # ws) =
     bindr (eval_expr rt row w) (\<lambda>v.
       if (case opv of Some a \<Rightarrow> py_eq a v | None \<Rightarrow> py_bool v)
       then bindr (eval_expr rt row t) (\<lambda>r. Inr (Some r))
       else eval_whens rt row opv ws)"
  by pat_completeness auto
termination
  by (relation "measure (case_sum (\<lambda>(rt, row, e). size e)
      (\<lambda>(rt, row, opv, ws). size_list (size_prod size size) ws))")
    (auto simp: less_Suc_eq_le intro: size_list_estimation' trans_le_add1)

definition eval_predicate :: "sql_runtime \<Rightarrow> row_dict \<Rightarrow> expr option \<Rightarrow> bool result" where
  "eval_predicate rt row predicate =
     (case predicate of
        None \<Rightarrow> Inr True
      | Some e \<Rightarrow> bindr (eval_expr rt row e) (\<lambda>v. Inr (if is_null_value v then False else py_bool v)))"

section \<open>Truth values\<close>

text \<open>The truth values of SQL, with \<^const>\<open>None\<close> for unknown, and Kleene's connectives.\<close>

fun truth :: "bool option \<Rightarrow> pyval" where
  "truth None = VNull"
| "truth (Some b) = VBool b"

fun kleene_and :: "bool option \<Rightarrow> bool option \<Rightarrow> bool option" where
  "kleene_and (Some False) b = Some False"
| "kleene_and a (Some False) = Some False"
| "kleene_and (Some True) (Some True) = Some True"
| "kleene_and a b = None"

definition kleene_or :: "bool option \<Rightarrow> bool option \<Rightarrow> bool option" where
  "kleene_or a b = map_option Not (kleene_and (map_option Not a) (map_option Not b))"

lemma truth_cases: "a = None \<or> a = Some True \<or> a = Some False"
  by (cases a) auto

lemma eval_and_truth: "eval_binary_op rt OP_AND (truth a) (truth b) = Inr (truth (kleene_and a b))"
  using truth_cases [of a] truth_cases [of b]
  by (auto simp: eval_binary_op_def is_null_value_def or_null_def)

lemma eval_or_truth: "eval_binary_op rt OP_OR (truth a) (truth b) = Inr (truth (kleene_or a b))"
  using truth_cases [of a] truth_cases [of b]
  by (auto simp: eval_binary_op_def is_null_value_def or_null_def kleene_or_def)

lemma null_operand:
  "op \<noteq> OP_AND \<Longrightarrow> op \<noteq> OP_OR \<Longrightarrow> eval_binary_op rt op VNull v = Inr VNull \<and> eval_binary_op rt op v VNull = Inr VNull"
  by (simp add: eval_binary_op_def is_null_value_def)

text \<open>
  The logical operators follow the three-valued logic of SQL: on true, false and
  \<^verbatim>\<open>NULL\<close>, \<^verbatim>\<open>AND\<close>, \<^verbatim>\<open>OR\<close> and
  \<^verbatim>\<open>NOT\<close> are Kleene's connectives, every other operator gives
  \<^verbatim>\<open>NULL\<close> when an operand is \<^verbatim>\<open>NULL\<close>, and a
  predicate holds exactly when it is true.
\<close>

theorem three_valued_logic:
  "eval_binary_op rt OP_AND (truth a) (truth b) = Inr (truth (kleene_and a b)) \<and>
   eval_binary_op rt OP_OR (truth a) (truth b) = Inr (truth (kleene_or a b)) \<and>
   eval_unary_op OP_NOT (truth a) = Inr (truth (map_option Not a)) \<and>
   (op \<in> {OP_AND, OP_OR} \<or> eval_binary_op rt op VNull v = Inr VNull \<and> eval_binary_op rt op v VNull = Inr VNull) \<and>
   eval_predicate rt row (Some (Literal (truth a) ''boolean'')) = Inr (a = Some True)"
  using truth_cases [of a] null_operand [of op rt v] eval_and_truth eval_or_truth
  by (auto simp: is_null_value_def eval_predicate_def)

section \<open>Patterns\<close>

text \<open>What a pattern means: a string can be cut into pieces that its characters describe.\<close>

inductive likes :: "string \<Rightarrow> string \<Rightarrow> bool" where
  likes_end: "likes [] []"
| likes_many: "likes p s \<Longrightarrow> likes (CHR ''%'' # p) (t @ s)"
| likes_one: "likes p s \<Longrightarrow> likes (CHR ''_'' # p) (c # s)"
| likes_char: "d \<noteq> CHR ''%'' \<Longrightarrow> d \<noteq> CHR ''_'' \<Longrightarrow> lower_latin c = lower_latin d \<Longrightarrow> likes p s \<Longrightarrow>
    likes (d # p) (c # s)"

inductive_cases likes_NilE: "likes [] s"
inductive_cases likes_ConsE: "likes (d # p) s"

lemma re_match_many:
  "re_match (Rx_Many # r) s \<longleftrightarrow> (\<exists>t u. s = t @ u \<and> newline \<notin> set t \<and> re_match r u)"
proof (induction s)
  case Nil
  then show ?case by auto
next
  case (Cons c s)
  have "(\<exists>t u. c # s = t @ u \<and> newline \<notin> set t \<and> re_match r u) \<longleftrightarrow>
      re_match r (c # s) \<or> (\<exists>t u. s = t @ u \<and> newline \<notin> set (c # t) \<and> re_match r u)" (is "?l \<longleftrightarrow> ?r")
  proof
    show ?r if l: ?l
    proof -
      obtain t u where *: "c # s = t @ u" "newline \<notin> set t" "re_match r u" using l by blast
      show ?thesis
      proof (cases t)
        case Nil
        then show ?thesis using * by simp
      next
        case (Cons a t')
        then have "s = t' @ u \<and> newline \<notin> set (c # t') \<and> re_match r u" using * by simp
        then show ?thesis by blast
      qed
    qed
    have "re_match r (c # s) \<Longrightarrow> ?l" by (rule exI [of _ "[]"]) simp
    moreover have "\<exists>t u. s = t @ u \<and> newline \<notin> set (c # t) \<and> re_match r u \<Longrightarrow> ?l"
      by (metis append_Cons)
    ultimately show "?r \<Longrightarrow> ?l" by blast
  qed
  then show ?case using Cons by auto
qed

lemma like_to_regex_Cons:
  "like_to_regex (d # p) =
     (if d = CHR ''%'' then Rx_Many else if d = CHR ''_'' then Rx_One else Rx_Char d) # like_to_regex p"
  by (simp add: like_to_regex_def)

lemma likes_re_match: "likes p s \<Longrightarrow> newline \<notin> set s \<Longrightarrow> re_match (like_to_regex p) s"
proof (induction rule: likes.induct)
  case likes_end
  then show ?case by (simp add: like_to_regex_def)
next
  case (likes_many p s t)
  then show ?case by (auto simp: like_to_regex_Cons re_match_many simp del: re_match.simps)
qed (auto simp: like_to_regex_Cons)

lemma re_match_likes: "re_match (like_to_regex p) s \<Longrightarrow> newline \<notin> set s \<Longrightarrow> likes p s"
proof (induction p arbitrary: s)
  case Nil
  then show ?case by (auto simp: like_to_regex_def intro: likes_end)
next
  case (Cons d p)
  show ?case
  proof (cases "d = CHR ''%''")
    case True
    then obtain t u where "s = t @ u" "re_match (like_to_regex p) u"
      using Cons.prems by (auto simp: like_to_regex_Cons re_match_many simp del: re_match.simps)
    then show ?thesis using True Cons by (auto intro: likes_many)
  next
    case False
    then obtain c u where u: "s = c # u" "re_match (like_to_regex p) u"
      "d = CHR ''_'' \<or> lower_latin c = lower_latin d"
      using Cons.prems by (auto simp: like_to_regex_Cons split: if_splits list.splits)
    then show ?thesis using False Cons by (cases "d = CHR ''_''") (auto intro: likes_one likes_char)
  qed
qed

lemma lower_latin_newline [simp]: "lower_latin newline = newline" "lower_latin c = newline \<longleftrightarrow> c = newline"
proof -
  show eq: "lower_latin newline = newline" by code_simp
  have "c = newline" if "lower_latin c = newline"
  proof (rule ccontr)
    assume "c \<noteq> newline"
    then have "char_of (of_char c + 32 :: nat) = newline" "65 \<le> (of_char c :: nat)" "(of_char c :: nat) \<le> 222"
      using that by (auto simp: lower_latin_def Let_def split: if_splits)
    then have "(of_char c + 32 :: nat) mod 256 = of_char newline"
      by (metis of_char_of)
    then show False
      using \<open>65 \<le> (of_char c :: nat)\<close> \<open>(of_char c :: nat) \<le> 222\<close> by (auto simp: newline_def)
  qed
  then show "lower_latin c = newline \<longleftrightarrow> c = newline" using eq by auto
qed

lemma split_last_newline:
  assumes "newline \<notin> set s"
  shows "(\<exists>t u. s @ [newline] = t @ u \<and> newline \<notin> set t \<and> P u) \<longleftrightarrow>
    (\<exists>t u. s = t @ u \<and> newline \<notin> set t \<and> P (u @ [newline]))" (is "?l \<longleftrightarrow> ?r")
proof
  assume ?l
  then obtain t u where *: "s @ [newline] = t @ u" "newline \<notin> set t" "P u" by blast
  then have "u \<noteq> []" by auto
  then obtain v where "u = v @ [newline]" "s = t @ v"
    using *(1) by (cases u rule: rev_cases) auto
  then show ?r using * by blast
qed (metis append_assoc)

lemma re_match_newline:
  "newline \<notin> set p \<Longrightarrow> newline \<notin> set s \<Longrightarrow>
   re_match (like_to_regex p) (s @ [newline]) = re_match (like_to_regex p) s"
proof (induction p arbitrary: s)
  case Nil
  then show ?case by (cases s) (auto simp: like_to_regex_def)
next
  case (Cons d p)
  have "re_match (like_to_regex p) (u @ [newline]) = re_match (like_to_regex p) u" if "s = t @ u" for t u
    using Cons.IH [of u] Cons.prems that by simp
  then have "(\<exists>t u. s = t @ u \<and> newline \<notin> set t \<and> re_match (like_to_regex p) (u @ [newline])) \<longleftrightarrow>
      (\<exists>t u. s = t @ u \<and> newline \<notin> set t \<and> re_match (like_to_regex p) u)" by blast
  then have many: "re_match (Rx_Many # like_to_regex p) (s @ [newline]) = re_match (Rx_Many # like_to_regex p) s"
    using Cons.prems(2) unfolding re_match_many by (subst split_last_newline) simp_all
  show ?case
  proof (cases "d = CHR ''%''")
    case True
    then show ?thesis using many by (simp add: like_to_regex_Cons del: re_match.simps)
  next
    case False
    have "newline \<noteq> lower_latin d" using Cons.prems(1) by (metis list.set_intros(1) lower_latin_newline(2))
    then show ?thesis
      using False Cons.prems Cons.IH [of "tl s"] by (cases s) (auto simp: like_to_regex_Cons)
  qed
qed

text \<open>
  C30: \<^verbatim>\<open>LIKE\<close> matches what its pattern describes, up to case: on strings
  without newlines the translated regular expression accepts exactly the strings that can be cut
  into pieces that the characters of the pattern stand for; and one newline at the end of the
  string goes unnoticed.
\<close>

theorem like_matches:
  assumes "newline \<notin> set s" and "newline \<notin> set p"
  shows "re_match (like_to_regex p) s = likes p s \<and> re_match (like_to_regex p) (s @ [newline]) = likes p s"
  using assms re_match_newline likes_re_match re_match_likes by blast

theorem like_matches_witness:
  "re_match (like_to_regex ''J%_n'') ''jordan'' = likes ''J%_n'' ''jordan'' \<and>
   re_match (like_to_regex ''J%_n'') (''jordan'' @ [newline]) = likes ''J%_n'' ''jordan''"
proof (rule like_matches)
  show "newline \<notin> set ''jordan''" by code_simp
  show "newline \<notin> set ''J%_n''" by code_simp
qed

end
