(* ===== verification/Plan.thy ===== *)
theory Plan
  imports Sql_Eval Query_Result
begin

text \<open>
  Plan nodes and their printed form, from \<^verbatim>\<open>src/pysql/planner.py\<close>.  A node has
  the fields of the dataclass and its children; row and cost estimates are Python numbers,
  integers or floats.  \<^verbatim>\<open>explain\<close> gives the lines of the rendering, each with its
  depth in place of the indentation and the arrow.
\<close>

section \<open>Nodes\<close>

datatype plan_node_type =
    P_SEQ_SCAN | P_INDEX_SCAN | P_FILTER | P_PROJECT | P_NESTED_LOOP_JOIN | P_HASH_JOIN
  | P_SORT_MERGE_JOIN | P_SORT | P_AGGREGATE | P_LIMIT | P_DISTINCT | P_INSERT | P_UPDATE
  | P_DELETE | P_CREATE_TABLE | P_DROP_TABLE | P_CREATE_INDEX | P_VALUES

record plan_fields =
  pn_type :: plan_node_type
  pn_table_name :: "string option"
  pn_alias :: "string option"
  pn_predicate :: "expr option"
  pn_columns :: "select_item list option"
  pn_output_columns :: "string list option"
  pn_sort_keys :: "(expr \<times> bool) list option"
  pn_group_by :: "expr list option"
  pn_aggregates :: "expr list option"
  pn_limit :: "int option"
  pn_offset :: "int option"
  pn_join_type :: "join_type option"
  pn_join_condition :: "expr option"
  pn_index_name :: "string option"
  pn_index_columns :: "string list option"
  pn_scan_range :: "(pyval \<times> pyval) option"
  pn_assignments :: "(string \<times> expr) list option"
  pn_values :: "expr list list option"
  pn_insert_columns :: "string list option"
  pn_rows :: pyval
  pn_cost :: pyval
  pn_statement :: "statement option"

datatype plan_node = PlanNode (node_fields: plan_fields) (node_children: "plan_node list")

definition blank_node :: "plan_node_type \<Rightarrow> plan_fields" where
  "blank_node ty = \<lparr>pn_type = ty, pn_table_name = None, pn_alias = None, pn_predicate = None,
     pn_columns = None, pn_output_columns = None, pn_sort_keys = None, pn_group_by = None,
     pn_aggregates = None, pn_limit = None, pn_offset = None, pn_join_type = None,
     pn_join_condition = None, pn_index_name = None, pn_index_columns = None,
     pn_scan_range = None, pn_assignments = None, pn_values = None, pn_insert_columns = None,
     pn_rows = VInt 0, pn_cost = VInt 0, pn_statement = None\<rparr>"

section \<open>Select items\<close>

fun item_expr :: "select_item \<Rightarrow> expr" where
  "item_expr (PlainItem e) = e"
| "item_expr (AliasItem e a) = e"

fun is_aggregate_call :: "expr \<Rightarrow> bool" where
  "is_aggregate_call (FunctionCall name args dis agg) = agg"
| "is_aggregate_call _ = False"

section \<open>Printing\<close>

definition join_comma :: "string list \<Rightarrow> string" where
  "join_comma = join_str '', ''"

fun node_type_name :: "plan_node_type \<Rightarrow> string" where
  "node_type_name P_SEQ_SCAN = ''SEQ_SCAN''"
| "node_type_name P_INDEX_SCAN = ''INDEX_SCAN''"
| "node_type_name P_FILTER = ''FILTER''"
| "node_type_name P_PROJECT = ''PROJECT''"
| "node_type_name P_NESTED_LOOP_JOIN = ''NESTED_LOOP_JOIN''"
| "node_type_name P_HASH_JOIN = ''HASH_JOIN''"
| "node_type_name P_SORT_MERGE_JOIN = ''SORT_MERGE_JOIN''"
| "node_type_name P_SORT = ''SORT''"
| "node_type_name P_AGGREGATE = ''AGGREGATE''"
| "node_type_name P_LIMIT = ''LIMIT''"
| "node_type_name P_DISTINCT = ''DISTINCT''"
| "node_type_name P_INSERT = ''INSERT''"
| "node_type_name P_UPDATE = ''UPDATE''"
| "node_type_name P_DELETE = ''DELETE''"
| "node_type_name P_CREATE_TABLE = ''CREATE_TABLE''"
| "node_type_name P_DROP_TABLE = ''DROP_TABLE''"
| "node_type_name P_CREATE_INDEX = ''CREATE_INDEX''"
| "node_type_name P_VALUES = ''VALUES''"

fun join_type_name :: "join_type \<Rightarrow> string" where
  "join_type_name J_INNER = ''INNER''"
| "join_type_name J_LEFT = ''LEFT''"
| "join_type_name J_RIGHT = ''RIGHT''"
| "join_type_name J_FULL = ''FULL''"
| "join_type_name J_CROSS = ''CROSS''"
| "join_type_name J_NATURAL = ''NATURAL''"

text \<open>The symbols of the operators, and the names of the two that have none.\<close>

fun op_symbol :: "binary_op_type \<Rightarrow> string" where
  "op_symbol OP_EQ = ''=''"
| "op_symbol OP_NEQ = ''!=''"
| "op_symbol OP_LT = ''<''"
| "op_symbol OP_GT = ''>''"
| "op_symbol OP_LTE = ''<=''"
| "op_symbol OP_GTE = ''>=''"
| "op_symbol OP_AND = ''AND''"
| "op_symbol OP_OR = ''OR''"
| "op_symbol OP_ADD = ''+''"
| "op_symbol OP_SUB = ''-''"
| "op_symbol OP_MUL = ''*''"
| "op_symbol OP_DIV = ''/''"
| "op_symbol OP_MOD = ''BinaryOpType.MOD''"
| "op_symbol OP_CONCAT = ''BinaryOpType.CONCAT''"

text \<open>\<^verbatim>\<open>str\<close> of a node: column references print themselves, other classes as
  dataclasses.\<close>

fun expr_str :: "sql_runtime \<Rightarrow> expr \<Rightarrow> string" where
  "expr_str rt (ColumnRef c (Some t)) =
     (if t \<noteq> [] then ''ColumnRef('' @ t @ ''.'' @ c @ '')'' else ''ColumnRef('' @ c @ '')'')"
| "expr_str rt (ColumnRef c None) = ''ColumnRef('' @ c @ '')''"
| "expr_str rt e = ra_expr_str rt e"

fun expr_to_str :: "sql_runtime \<Rightarrow> expr \<Rightarrow> string" where
  "expr_to_str rt (ColumnRef c tab) =
     (case tab of Some t \<Rightarrow> if t \<noteq> [] then t @ ''.'' @ c else c | None \<Rightarrow> c)"
| "expr_to_str rt (Literal v ty) =
     (case v of VStr s \<Rightarrow> QUOTE # s @ [QUOTE] | _ \<Rightarrow> py_str (base_rt rt) v)"
| "expr_to_str rt (BinaryOp op l r) =
     expr_to_str rt l @ '' '' @ op_symbol op @ '' '' @ expr_to_str rt r"
| "expr_to_str rt (FunctionCall name args dis agg) =
     name @ ''('' @ join_comma (map (expr_to_str rt) args) @ '')''"
| "expr_to_str rt e = expr_str rt e"

definition explain_line :: "sql_runtime \<Rightarrow> plan_fields \<Rightarrow> string" where
  "explain_line rt f =
     node_type_name (pn_type f)
     @ (case pn_table_name f of
          Some t \<Rightarrow> if t = [] then []
            else '' on '' @ t @ (case pn_alias f of Some a \<Rightarrow> if a = [] then [] else '' AS '' @ a | None \<Rightarrow> [])
        | None \<Rightarrow> [])
     @ (case pn_index_name f of Some i \<Rightarrow> if i = [] then [] else '' using index '' @ i | None \<Rightarrow> [])
     @ (case pn_predicate f of Some e \<Rightarrow> ''  (filter: '' @ expr_to_str rt e @ '')'' | None \<Rightarrow> [])
     @ (case pn_join_type f of Some j \<Rightarrow> ''  ('' @ join_type_name j @ '' JOIN)'' | None \<Rightarrow> [])
     @ (case pn_sort_keys f of
          Some ks \<Rightarrow> if ks = [] then []
            else ''  (sort: ''
              @ join_comma (map (\<lambda>(e, d). expr_to_str rt e @ '' '' @ (if d then ''DESC'' else ''ASC'')) ks) @ '')''
        | None \<Rightarrow> [])
     @ (case pn_limit f of
          Some n \<Rightarrow> ''  (limit: '' @ str_of_int n
            @ (case pn_offset f of Some m \<Rightarrow> if m = 0 then [] else '', offset: '' @ str_of_int m | None \<Rightarrow> [])
            @ '')''
        | None \<Rightarrow> [])
     @ ''  [est. '' @ ra_float_text rt 0 (pn_rows f) @ '' rows, cost: '' @ ra_float_text rt 1 (pn_cost f) @ '']''"

fun explain :: "sql_runtime \<Rightarrow> nat \<Rightarrow> plan_node \<Rightarrow> (nat \<times> string) list" where
  "explain rt indent (PlanNode f cs) =
     (indent, explain_line rt f) # concat (map (explain rt (indent + 1)) cs)"


end
