(* ===== verification/Operators.thy ===== *)
theory Operators
  imports Plan "HOL-Library.Multiset"
begin

text \<open>
  The relational operators of \<^verbatim>\<open>src/pysql/executor.py\<close>, each as a function of the
  results of its children: filter, projection, sort, limit, distinct, the two joins and
  aggregation.  A Python dictionary keyed by values or tuples is a list of groups under
  \<^const>\<open>py_eq\<close>, in insertion order.  The module does not import
  \<^verbatim>\<open>JoinType\<close>; the name is read as that of \<^verbatim>\<open>ast_nodes\<close>.
\<close>

type_synonym table = "pyval query_result"

section \<open>Filter and projection\<close>

fun filter_rows :: "sql_runtime \<Rightarrow> string list \<Rightarrow> expr option \<Rightarrow> pyval list list \<Rightarrow> pyval list list result" where
  "filter_rows rt cols p [] = Inr []"
| "filter_rows rt cols p (row # rows) =
     bindr (eval_predicate rt (row_dict cols row) p) (\<lambda>b.
       bindr (filter_rows rt cols p rows) (\<lambda>rest. Inr (if b then row # rest else rest)))"

definition exec_filter :: "sql_runtime \<Rightarrow> expr option \<Rightarrow> table \<Rightarrow> table result" where
  "exec_filter rt p t =
     bindr (filter_rows rt (qr_columns t) p (qr_rows t)) (\<lambda>rows. Inr (table_result (qr_columns t) rows))"

fun item_alias :: "select_item \<Rightarrow> string option" where
  "item_alias (PlainItem e) = None"
| "item_alias (AliasItem e a) = Some a"

text \<open>\<^verbatim>\<open>t.*\<close> selects the columns prefixed by the table and those without a dot.\<close>

definition star_selects :: "string \<Rightarrow> string \<Rightarrow> bool" where
  "star_selects t c = (starts_with (t @ ''.'') c \<or> CHR ''.'' \<notin> set c)"

definition item_columns :: "sql_runtime \<Rightarrow> string list \<Rightarrow> select_item \<Rightarrow> string list" where
  "item_columns rt cols item =
     (case item_expr item of
        StarExpr (Some t) \<Rightarrow> if t = [] then cols else filter (star_selects t) cols
      | StarExpr None \<Rightarrow> cols
      | e \<Rightarrow>
          (case item_alias item of
             Some a \<Rightarrow> if a \<noteq> [] then [a] else
               [case e of ColumnRef c _ \<Rightarrow> c
                | FunctionCall name args _ _ \<Rightarrow> name @ ''('' @ join_comma (map (expr_str rt) args) @ '')''
                | _ \<Rightarrow> expr_str rt e]
           | None \<Rightarrow>
               [case e of ColumnRef c _ \<Rightarrow> c
                | FunctionCall name args _ _ \<Rightarrow> name @ ''('' @ join_comma (map (expr_str rt) args) @ '')''
                | _ \<Rightarrow> expr_str rt e]))"

definition item_values :: "sql_runtime \<Rightarrow> string list \<Rightarrow> pyval list \<Rightarrow> select_item \<Rightarrow> pyval list result" where
  "item_values rt cols row item =
     (case item_expr item of
        StarExpr (Some t) \<Rightarrow>
          if t = [] then Inr row
          else mapr (\<lambda>(i, c). py_get row (int i)) (filter (\<lambda>(i, c). star_selects t c) (enumerate 0 cols))
      | StarExpr None \<Rightarrow> Inr row
      | e \<Rightarrow> bindr (eval_expr rt (row_dict cols row) e) (\<lambda>v. Inr [v]))"

definition project_row :: "sql_runtime \<Rightarrow> string list \<Rightarrow> select_item list \<Rightarrow> pyval list \<Rightarrow> pyval list result" where
  "project_row rt cols items row = bindr (mapr (item_values rt cols row) items) (\<lambda>vss. Inr (concat vss))"

definition exec_project :: "sql_runtime \<Rightarrow> select_item list option \<Rightarrow> table \<Rightarrow> table result" where
  "exec_project rt cols t =
     (case cols of
        Some (i # is) \<Rightarrow>
          bindr (mapr (project_row rt (qr_columns t) (i # is)) (qr_rows t)) (\<lambda>rows.
            Inr (table_result (concat (map (item_columns rt (qr_columns t)) (i # is))) rows))
      | _ \<Rightarrow> Inr t)"

section \<open>Sort, limit, distinct\<close>

text \<open>
  The key of a row: a tuple that puts \<^verbatim>\<open>NULL\<close>s last.  Comparing two tuples
  compares the first components that differ.
\<close>

definition sort_cell :: "bool \<Rightarrow> pyval \<Rightarrow> order_key result" where
  "sort_cell desc v =
     (if is_null_value v then Inr KNull
      else if desc \<and> is_number v then bindr (py_neg v) (\<lambda>w. Inr (py_key w))
      else Inr (py_key v))"

definition row_sort_key ::
  "sql_runtime \<Rightarrow> string list \<Rightarrow> (expr \<times> bool) list \<Rightarrow> pyval list \<Rightarrow> order_key list result"
where
  "row_sort_key rt cols keys row =
     mapr (\<lambda>(e, desc). bindr (eval_expr rt (row_dict cols row) e) (sort_cell desc)) keys"

fun keys_comparable :: "order_key list \<Rightarrow> order_key list \<Rightarrow> bool" where
  "keys_comparable (a # as) (b # bs) =
     (if a = b then keys_comparable as bs
      else a = KNull \<or> b = KNull \<or> comparable a b)"
| "keys_comparable as bs = True"

text \<open>
  \<^verbatim>\<open>sorted\<close> is stable; it raises when two rows do not compare, which it must
  then find out about two neighbours of the result.  Keys with a NaN have no such order.
\<close>

definition sorted_by :: "sql_runtime \<Rightarrow> (order_key list \<times> 'r) list \<Rightarrow> 'r list result" where
  "sorted_by rt krs =
     (if 1 < length krs \<and> list_ex (\<lambda>(k, _). KNaN \<in> set k) krs
      then bindr (ra_nan_sort rt (map fst krs)) (\<lambda>is. Inr [snd (krs ! i). i \<leftarrow> is, i < length krs])
      else if list_all (\<lambda>(k, _). list_all (\<lambda>(l, _). keys_comparable k l) krs) krs
      then Inr (map snd (sort_key fst krs)) else Inl TypeError)"

definition exec_sort :: "sql_runtime \<Rightarrow> (expr \<times> bool) list option \<Rightarrow> table \<Rightarrow> table result" where
  "exec_sort rt sort_keys t =
     (case sort_keys of
        Some (k # ks) \<Rightarrow>
          bindr (mapr (\<lambda>row. bindr (row_sort_key rt (qr_columns t) (k # ks) row) (\<lambda>key. Inr (key, row)))
                   (qr_rows t)) (\<lambda>krs.
            bindr (sorted_by rt krs) (\<lambda>rows.
              Inr (table_result (qr_columns t) (if list_all snd (k # ks) then rev rows else rows))))
      | _ \<Rightarrow> Inr t)"

definition exec_limit :: "int option \<Rightarrow> int option \<Rightarrow> table \<Rightarrow> table" where
  "exec_limit lim off t =
     (let offset = (case off of Some m \<Rightarrow> m | None \<Rightarrow> 0);
          limit = (case lim of Some n \<Rightarrow> if n = 0 then int (length (qr_rows t)) else n
                   | None \<Rightarrow> int (length (qr_rows t)))
      in table_result (qr_columns t) (py_slice (qr_rows t) offset (offset + limit)))"

text \<open>The key of a row in the set of rows seen: \<^verbatim>\<open>NULL\<close>s are turned into text.\<close>

definition distinct_key :: "pyval list \<Rightarrow> pyval list" where
  "distinct_key row = map (\<lambda>v. if is_null_value v then VStr ''NULL'' else v) row"

fun distinct_rows :: "pyval list list \<Rightarrow> pyval list list \<Rightarrow> pyval list list" where
  "distinct_rows seen [] = []"
| "distinct_rows seen (row # rows) =
     (if list_ex (\<lambda>k. tuple_eq k (distinct_key row)) seen then distinct_rows seen rows
      else row # distinct_rows (distinct_key row # seen) rows)"

definition exec_distinct :: "table \<Rightarrow> table" where
  "exec_distinct t = table_result (qr_columns t) (distinct_rows [] (qr_rows t))"

section \<open>Joins\<close>

definition join_matches :: "sql_runtime \<Rightarrow> string list \<Rightarrow> expr option \<Rightarrow> pyval list \<Rightarrow> bool result" where
  "join_matches rt cols cond combined = eval_predicate rt (row_dict cols combined) cond"

definition nulls :: "nat \<Rightarrow> pyval list" where
  "nulls n = replicate n VNull"

definition join_left_row ::
  "sql_runtime \<Rightarrow> string list \<Rightarrow> expr option \<Rightarrow> join_type option \<Rightarrow> nat \<Rightarrow> pyval list list \<Rightarrow> pyval list \<Rightarrow> pyval list list result"
where
  "join_left_row rt cols cond jt rn rights l =
     bindr (filter_rows rt cols cond (map (\<lambda>r. l @ r) rights)) (\<lambda>matched.
       Inr (if matched = [] \<and> jt \<in> {Some J_LEFT, Some J_FULL} then [l @ nulls rn] else matched))"

text \<open>Whether a right row has a match, up to the first one.\<close>

fun has_match :: "sql_runtime \<Rightarrow> string list \<Rightarrow> expr option \<Rightarrow> pyval list list \<Rightarrow> pyval list \<Rightarrow> bool result" where
  "has_match rt cols cond [] r = Inr False"
| "has_match rt cols cond (l # ls) r =
     bindr (join_matches rt cols cond (l @ r)) (\<lambda>b. if b then Inr True else has_match rt cols cond ls r)"

definition exec_nested_loop_join ::
  "sql_runtime \<Rightarrow> join_type option \<Rightarrow> expr option \<Rightarrow> table \<Rightarrow> table \<Rightarrow> table result"
where
  "exec_nested_loop_join rt jt cond lt rgt =
     (let cols = qr_columns lt @ qr_columns rgt in
      bindr (mapr (join_left_row rt cols cond jt (length (qr_columns rgt)) (qr_rows rgt)) (qr_rows lt)) (\<lambda>lss.
      bindr (if jt \<in> {Some J_RIGHT, Some J_FULL}
             then mapr (\<lambda>r. bindr (has_match rt cols cond (qr_rows lt) r) (\<lambda>b.
                    Inr (if b then [] else [nulls (length (qr_columns lt)) @ r]))) (qr_rows rgt)
             else Inr []) (\<lambda>rss.
        Inr (table_result cols (concat lss @ concat rss)))))"

fun find_column :: "string \<Rightarrow> string list \<Rightarrow> nat option" where
  "find_column c [] = None"
| "find_column c (d # ds) = (if d = c then Some 0 else map_option Suc (find_column c ds))"

text \<open>The columns a join condition compares, when it is an equation of two columns.\<close>

fun equi_columns :: "expr option \<Rightarrow> (string \<times> string) option" where
  "equi_columns (Some (BinaryOp OP_EQ (ColumnRef a ta) (ColumnRef b tb))) = Some (a, b)"
| "equi_columns _ = None"

definition hash_build :: "nat \<Rightarrow> pyval list list \<Rightarrow> (pyval \<times> pyval list list) list result" where
  "hash_build j rows =
     bindr (mapr (\<lambda>r. bindr (py_get r (int j)) (\<lambda>k. Inr (k, r))) rows)
       (\<lambda>krs. Inr (fold (\<lambda>(k, r) g. group_put py_eq k r g) krs []))"

definition hash_probe ::
  "join_type option \<Rightarrow> nat \<Rightarrow> nat \<Rightarrow> (pyval \<times> pyval list list) list \<Rightarrow> pyval list \<Rightarrow> pyval list list result"
where
  "hash_probe jt i rn tab l =
     bindr (py_get l (int i)) (\<lambda>k.
       let rs = group_get py_eq k tab in
       Inr (if rs \<noteq> [] then map (\<lambda>r. l @ r) rs
            else if jt \<in> {Some J_LEFT, Some J_FULL} then [l @ nulls rn] else []))"

text \<open>The positions of the join columns in the two tables, when both are there.\<close>

definition hash_columns :: "expr option \<Rightarrow> table \<Rightarrow> table \<Rightarrow> (nat \<times> nat) option" where
  "hash_columns cond lt rgt =
     (case equi_columns cond of
        None \<Rightarrow> None
      | Some (a, b) \<Rightarrow>
          (case (find_column a (qr_columns lt), find_column b (qr_columns rgt)) of
             (Some i, Some j) \<Rightarrow> Some (i, j)
           | _ \<Rightarrow> None))"

definition exec_hash_join ::
  "sql_runtime \<Rightarrow> join_type option \<Rightarrow> expr option \<Rightarrow> table \<Rightarrow> table \<Rightarrow> table result"
where
  "exec_hash_join rt jt cond lt rgt =
     (case hash_columns cond lt rgt of
        None \<Rightarrow> exec_nested_loop_join rt jt cond lt rgt
      | Some (i, j) \<Rightarrow>
          bindr (hash_build j (qr_rows rgt)) (\<lambda>tab.
            bindr (mapr (hash_probe jt i (length (qr_columns rgt)) tab) (qr_rows lt)) (\<lambda>rss.
              Inr (table_result (qr_columns lt @ qr_columns rgt) (concat rss)))))"

section \<open>Aggregation\<close>

fun call_name :: "expr \<Rightarrow> string" where
  "call_name (FunctionCall name args dis agg) = name"
| "call_name _ = []"

fun call_args :: "expr \<Rightarrow> expr list" where
  "call_args (FunctionCall name args dis agg) = args"
| "call_args _ = []"

fun is_star :: "expr \<Rightarrow> bool" where
  "is_star (StarExpr t) = True"
| "is_star _ = False"

text \<open>The values of an aggregate's argument over the rows that are not \<^verbatim>\<open>NULL\<close>.\<close>

definition present_values ::
  "sql_runtime \<Rightarrow> string list \<Rightarrow> expr \<Rightarrow> pyval list list \<Rightarrow> pyval list result"
where
  "present_values rt cols e rows =
     bindr (mapr (\<lambda>row. eval_expr rt (row_dict cols row) e) rows)
       (\<lambda>vs. Inr (filter (\<lambda>v. \<not> is_null_value v) vs))"

definition compute_aggregate ::
  "sql_runtime \<Rightarrow> string list \<Rightarrow> pyval list list \<Rightarrow> expr \<Rightarrow> pyval result"
where
  "compute_aggregate rt cols rows agg =
     (let func = str_upper (call_name agg) in
      if func = ''COUNT'' then
        (case call_args agg of
           [] \<Rightarrow> Inr (VInt (int (length rows)))
         | a # _ \<Rightarrow>
             if is_star a then Inr (VInt (int (length rows)))
             else bindr (present_values rt cols a rows) (\<lambda>vs. Inr (VInt (int (length vs)))))
      else
        bindr (case call_args agg of
                 [] \<Rightarrow> if rows = [] then Inr [] else Inl IndexError
               | a # _ \<Rightarrow> present_values rt cols a rows) (\<lambda>vs.
          if vs = [] then Inr VNull
          else if func = ''SUM'' then py_sum rt vs
          else if func = ''AVG'' then
            bindr (py_sum rt vs) (\<lambda>s. py_truediv rt s (VInt (int (length vs))))
          else if func = ''MIN'' then py_min vs
          else if func = ''MAX'' then py_max vs
          else Inl RuntimeError))"

definition group_key :: "sql_runtime \<Rightarrow> string list \<Rightarrow> expr list \<Rightarrow> pyval list \<Rightarrow> pyval list result" where
  "group_key rt cols es row = mapr (eval_expr rt (row_dict cols row)) es"

definition list_or_empty :: "'a list option \<Rightarrow> 'a list" where
  "list_or_empty x = (case x of Some xs \<Rightarrow> xs | None \<Rightarrow> [])"

definition aggregate_columns :: "sql_runtime \<Rightarrow> string list \<Rightarrow> expr list \<Rightarrow> expr list \<Rightarrow> string list" where
  "aggregate_columns rt cols group_by aggs =
     (let out = map (\<lambda>e. case e of ColumnRef c _ \<Rightarrow> c | _ \<Rightarrow> expr_str rt e) group_by
                @ map (\<lambda>a. call_name a @ ''('' @ join_comma (map (expr_str rt) (call_args a)) @ '')'') aggs
      in if out = [] then cols else out)"

definition aggregate_row ::
  "sql_runtime \<Rightarrow> string list \<Rightarrow> expr list \<Rightarrow> pyval list \<times> pyval list list \<Rightarrow> pyval list result"
where
  "aggregate_row rt cols aggs g =
     bindr (mapr (compute_aggregate rt cols (snd g)) aggs) (\<lambda>vs. Inr (fst g @ vs))"

definition group_rows ::
  "sql_runtime \<Rightarrow> string list \<Rightarrow> expr list \<Rightarrow> pyval list list \<Rightarrow> (pyval list \<times> pyval list list) list result"
where
  "group_rows rt cols group_by rows =
     bindr (mapr (\<lambda>row. bindr (group_key rt cols group_by row) (\<lambda>k. Inr (k, row))) rows) (\<lambda>krs.
       let groups = fold (\<lambda>(k, r) g. group_put tuple_eq k r g) krs []
       in Inr (if groups = [] \<and> group_by = [] then [([], [])] else groups))"

definition exec_aggregate ::
  "sql_runtime \<Rightarrow> expr list option \<Rightarrow> expr list option \<Rightarrow> table \<Rightarrow> table result"
where
  "exec_aggregate rt group_by aggregates t =
     (let es = list_or_empty group_by; aggs = list_or_empty aggregates; cols = qr_columns t in
      bindr (group_rows rt cols es (qr_rows t)) (\<lambda>groups.
        bindr (mapr (aggregate_row rt cols aggs) groups) (\<lambda>rows.
          Inr (table_result (aggregate_columns rt cols es aggs) rows))))"

definition exec_values :: "table" where
  "exec_values = table_result [] [[]]"

end
