(* ===== verification/Operators_Spec.thy ===== *)
theory Operators_Spec
  imports Operators "HOL-Library.Sublist"
begin

text \<open>
  What the relational operators compute: a filter and its complements split a table, a sort is
  stable, the two join algorithms agree where the planner may exchange them, and where they do
  not; windows of \<^verbatim>\<open>LIMIT\<close>; duplicates; aggregates under a projection.
\<close>

section \<open>Dictionaries under an equality\<close>

locale key_equality =
  fixes eq :: "'k \<Rightarrow> 'k \<Rightarrow> bool"
  assumes eq_sym: "eq a b = eq b a"
    and eq_trans: "eq a b \<Longrightarrow> eq b c \<Longrightarrow> eq a c"
begin

lemma get_put: "group_get eq k (group_put eq k' r gs) = group_get eq k gs @ (if eq k' k then [r] else [])"
proof (induction gs)
  case (Cons g gs)
  obtain k0 rs where g: "g = (k0, rs)" by (cases g)
  have "eq k0 k' \<Longrightarrow> eq k' k = eq k0 k" using eq_sym eq_trans by metis
  moreover have "\<not> eq k0 k' \<Longrightarrow> eq k0 k \<Longrightarrow> \<not> eq k' k" using eq_sym eq_trans by metis
  ultimately show ?case using Cons.IH by (auto simp: g)
qed simp

lemma get_fold:
  "group_get eq k (fold (\<lambda>(k, r) g. group_put eq k r g) krs gs) =
     group_get eq k gs @ map snd (filter (\<lambda>(k', r). eq k' k) krs)"
  by (induction krs arbitrary: gs) (auto simp: get_put)

lemma put_members:
  "mset (concat (map snd (group_put eq k r gs))) = mset (concat (map snd gs)) + {#r#}"
  by (induction eq k r gs rule: group_put.induct) auto

lemma fold_members:
  "mset (concat (map snd (fold (\<lambda>(k, r) g. group_put eq k r g) krs gs))) =
     mset (concat (map snd gs)) + mset (map snd krs)"
  by (induction krs arbitrary: gs) (auto simp: put_members)

lemma put_apart:
  assumes "sorted_wrt (\<lambda>g h. \<not> eq (fst g) (fst h)) gs"
  shows "sorted_wrt (\<lambda>g h. \<not> eq (fst g) (fst h)) (group_put eq k r gs)"
  using assms
proof (induction gs)
  case (Cons g gs)
  obtain k0 rs where g: "g = (k0, rs)" by (cases g)
  have "fst ` set (group_put eq k r gs) \<subseteq> insert k (fst ` set gs)" for gs
    by (induction eq k r gs rule: group_put.induct) auto
  then have "fst h \<in> insert k (fst ` set gs)" if "h \<in> set (group_put eq k r gs)" for h
    using that by blast
  then show ?case using Cons g by fastforce
qed simp

lemma fold_apart:
  "sorted_wrt (\<lambda>g h. \<not> eq (fst g) (fst h)) gs \<Longrightarrow>
   sorted_wrt (\<lambda>g h. \<not> eq (fst g) (fst h)) (fold (\<lambda>(k, r) g. group_put eq k r g) krs gs)"
  by (induction krs arbitrary: gs) (auto simp: put_apart)

lemma get_member:
  assumes "sorted_wrt (\<lambda>g h. \<not> eq (fst g) (fst h)) gs" "(k, rs) \<in> set gs" "eq k k"
  shows "group_get eq k gs = rs"
  using assms by (induction gs) auto

lemma put_cases:
  assumes "(k, rs) \<in> set (group_put eq k' r gs)"
  obtains "(k, rs) \<in> set gs" | "k = k'" "rs = [r]" | qs where "(k, qs) \<in> set gs" "rs = qs @ [r]" "eq k k'"
  using assms by (induction eq k' r gs rule: group_put.induct) (auto split: if_splits)

text \<open>A group starts with the row its key comes from; only a key equal to itself gathers more.\<close>

lemma fold_origin:
  assumes "(k, rs) \<in> set (fold (\<lambda>(k, r) g. group_put eq k r g) krs [])"
  shows "rs \<noteq> [] \<and> (k, hd rs) \<in> set krs \<and> (eq k k \<or> length rs = 1)"
  using assms
proof (induction krs arbitrary: k rs rule: rev_induct)
  case (snoc x krs)
  obtain k' r where x: "x = (k', r)" by (cases x)
  let ?gs = "fold (\<lambda>(k, r) g. group_put eq k r g) krs []"
  have "(k, rs) \<in> set (group_put eq k' r ?gs)" using snoc.prems by (simp add: x)
  then show ?case
  proof (cases rule: put_cases)
    case 1
    then show ?thesis using snoc.IH [of k rs] by auto
  next
    case 2
    then show ?thesis by (simp add: x)
  next
    case (3 qs)
    have "eq k k" using 3(3) eq_sym eq_trans by metis
    then show ?thesis using snoc.IH [OF 3(1)] 3(2) by auto
  qed
qed simp

lemma fold_group:
  assumes "(k, rs) \<in> set (fold (\<lambda>(k, r) g. group_put eq k r g) krs [])" "eq k k"
  shows "rs = map snd (filter (\<lambda>(k', r). eq k' k) krs)"
  using get_member [OF fold_apart [of "[]" krs] assms] get_fold [of k krs "[]"] by simp

end

interpretation value_keys: key_equality py_eq
  by unfold_locales (rule py_eq_sym, rule py_eq_trans)


section \<open>Filters\<close>

lemma filter_rows_eq:
  "(\<And>row. row \<in> set rows \<Longrightarrow> eval_predicate rt (row_dict cols row) p = Inr (f row)) \<Longrightarrow>
   filter_rows rt cols p rows = Inr (filter f rows)"
  by (induction rows) auto

lemma filter_rows_None [simp]: "filter_rows rt cols None rows = Inr rows"
  using filter_rows_eq [of rows rt cols None "\<lambda>_. True"] by (simp add: eval_predicate_def)

lemma mset_split_three:
  "filter_mset (\<lambda>x. \<not> n x \<and> b x) M + filter_mset (\<lambda>x. \<not> n x \<and> \<not> b x) M + filter_mset n M = M"
  by (induction M) auto

text \<open>
  C31: a condition, its negation and the test that it is unknown split a table: when the condition
  can be evaluated on every row, each row passes exactly one of the three filters.
\<close>

theorem filter_partitions:
  assumes "list_all (\<lambda>row. is_ok (eval_expr rt (row_dict (qr_columns t) row) e)) (qr_rows t)"
  shows "\<exists>a b c. exec_filter rt (Some e) t = Inr a \<and>
    exec_filter rt (Some (UnaryOp OP_NOT e)) t = Inr b \<and>
    exec_filter rt (Some (IsNullExpr e False)) t = Inr c \<and>
    mset (qr_rows a) + mset (qr_rows b) + mset (qr_rows c) = mset (qr_rows t)"
proof -
  define v where "v row = projr (eval_expr rt (row_dict (qr_columns t) row) e)" for row
  have v: "eval_expr rt (row_dict (qr_columns t) row) e = Inr (v row)" if "row \<in> set (qr_rows t)" for row
    using assms that by (auto simp: v_def list_all_iff is_ok_iff)
  define n b where "n row = is_null_value (v row)" and "b row = py_bool (v row)" for row
  have "filter_rows rt (qr_columns t) (Some e) (qr_rows t) = Inr (filter (\<lambda>x. \<not> n x \<and> b x) (qr_rows t))"
    by (rule filter_rows_eq) (simp add: eval_predicate_def v n_def b_def)
  moreover have "filter_rows rt (qr_columns t) (Some (UnaryOp OP_NOT e)) (qr_rows t) =
      Inr (filter (\<lambda>x. \<not> n x \<and> \<not> b x) (qr_rows t))"
    by (rule filter_rows_eq) (simp add: eval_predicate_def v n_def b_def is_null_value_def)
  moreover have "filter_rows rt (qr_columns t) (Some (IsNullExpr e False)) (qr_rows t) = Inr (filter n (qr_rows t))"
    by (rule filter_rows_eq) (simp add: eval_predicate_def v n_def negated_if_def is_null_value_def)
  ultimately show ?thesis
    by (simp add: exec_filter_def table_result_def mset_split_three)
qed

section \<open>Windows\<close>

lemma py_slice_nat: "py_slice xs (int m) (int m + int n) = take n (drop m xs)"
  by (simp add: py_slice_def py_bound_def min_def flip: of_nat_add)

text \<open>
  C32: a window of \<^verbatim>\<open>LIMIT\<close> and \<^verbatim>\<open>OFFSET\<close>: a positive limit gives the
  rows after the offset, at most as many as the limit and at most as many as there are; a limit
  of zero gives all of them.
\<close>

theorem limit_window:
  "qr_rows (exec_limit (Some (int n)) (Some (int m)) t) =
     (if n = 0 then drop m (qr_rows t) else take n (drop m (qr_rows t))) \<and>
   (n = 0 \<or> length (qr_rows (exec_limit (Some (int n)) (Some (int m)) t)) \<le> n) \<and>
   length (qr_rows (exec_limit (Some (int n)) (Some (int m)) t)) \<le> length (qr_rows t) - m"
  using py_slice_nat [of "qr_rows t" m "length (qr_rows t)"] py_slice_nat [of "qr_rows t" m n]
  by (auto simp: exec_limit_def table_result_def Let_def)

section \<open>Sorting\<close>

lemma insort_pairs:
  "insort_key fst (f x, x) (map (\<lambda>r. (f r, r)) xs) = map (\<lambda>r. (f r, r)) (insort_key f x xs)"
  by (induction xs) auto

lemma sort_pairs: "map snd (sort_key fst (map (\<lambda>r. (f r, r)) xs)) = sort_key f xs"
proof -
  have "sort_key fst (map (\<lambda>r. (f r, r)) xs) = map (\<lambda>r. (f r, r)) (sort_key f xs)"
    by (induction xs) (simp_all add: sort_key_def insort_pairs)
  then show ?thesis by (simp add: comp_def)
qed

text \<open>The keys of all rows can be computed and compared, and no NaN is among them.\<close>

definition sort_ready ::
  "sql_runtime \<Rightarrow> (expr \<times> bool) list \<Rightarrow> table \<Rightarrow> (pyval list \<Rightarrow> order_key list) \<Rightarrow> bool"
where
  "sort_ready rt keys t f =
     (keys \<noteq> [] \<and>
      list_all (\<lambda>row. row_sort_key rt (qr_columns t) keys row = Inr (f row) \<and> KNaN \<notin> set (f row) \<and>
        list_all (\<lambda>other. keys_comparable (f row) (f other)) (qr_rows t)) (qr_rows t))"

lemma exec_sort_eq:
  assumes "sort_ready rt keys t f"
  shows "exec_sort rt (Some keys) t = Inr (table_result (qr_columns t)
    (if list_all snd keys then rev (sort_key f (qr_rows t)) else sort_key f (qr_rows t)))"
proof -
  have "mapr (\<lambda>row. bindr (row_sort_key rt (qr_columns t) keys row) (\<lambda>key. Inr (key, row))) rows =
      Inr (map (\<lambda>r. (f r, r)) rows)" if "set rows \<subseteq> set (qr_rows t)" for rows
    using that assms by (induction rows) (auto simp: sort_ready_def list_all_iff)
  moreover have "sorted_by rt (map (\<lambda>r. (f r, r)) (qr_rows t)) = Inr (sort_key f (qr_rows t))"
    using assms by (auto simp: sorted_by_def sort_ready_def list_all_iff list_ex_iff sort_pairs)
  ultimately show ?thesis
    using assms by (cases keys) (auto simp: exec_sort_def sort_ready_def)
qed








text \<open>The value of a single integer sort key.\<close>

definition int_key :: "sql_runtime \<Rightarrow> expr \<Rightarrow> table \<Rightarrow> (pyval list \<Rightarrow> int) \<Rightarrow> bool" where
  "int_key rt e t g =
     list_all (\<lambda>row. eval_expr rt (row_dict (qr_columns t) row) e = Inr (VInt (g row))) (qr_rows t)"

lemma sorted_rev_neg:
  fixes g :: "'a \<Rightarrow> int"
  assumes "sorted (map (\<lambda>x. - g x) xs)"
  shows "sorted (map g (rev xs))"
  using assms by (induction xs) (auto simp: sorted_append)

text \<open>
  C0: \<^verbatim>\<open>ORDER BY e DESC\<close> on an integer column returns the rows in ascending order:
  the keys are negated and the sorted rows reversed, and the two cancel.
\<close>

theorem descending_sort_ascends:
  assumes "int_key rt e t g"
  shows "\<exists>u. exec_sort rt (Some [(e, True)]) t = Inr u \<and> mset (qr_rows u) = mset (qr_rows t) \<and>
    sorted (map g (qr_rows u))"
proof -
  define f where "f row = [KNum (Fin (- g row * float_unit))]" for row
  have "sort_ready rt [(e, True)] t f"
    using assms by (auto simp: sort_ready_def list_all_iff int_key_def row_sort_key_def sort_cell_def
        is_null_value_def f_def)
  moreover have "sorted (map (\<lambda>row. - g row) (sort_key f (qr_rows t)))"
  proof -
    have "f a \<le> f b \<longleftrightarrow> - g a \<le> - g b" for a b
      using float_unit_pos by (auto simp del: float_unit_pos simp: f_def less_eq_order_key_def less_eq_num_key_def less_order_key_def
          mult_le_cancel_right)
    then show ?thesis
      using sorted_sort_key [of f "qr_rows t"] by (simp add: sorted_map)
  qed
  ultimately show ?thesis
    using sorted_rev_neg by (auto simp: exec_sort_eq table_result_def)
qed

section \<open>Duplicates\<close>

lemma distinct_rows_facts:
  "subseq (distinct_rows seen rows) rows \<and>
   sorted_wrt (\<lambda>a b. \<not> tuple_eq (distinct_key a) (distinct_key b)) (distinct_rows seen rows) \<and>
   (\<forall>row \<in> set (distinct_rows seen rows). \<forall>k \<in> set seen. \<not> tuple_eq k (distinct_key row)) \<and>
   (\<forall>row \<in> set rows. row \<in> set (distinct_rows seen rows) \<or> (\<exists>k \<in> set seen. tuple_eq k (distinct_key row)) \<or>
     (\<exists>u \<in> set (distinct_rows seen rows). tuple_eq (distinct_key u) (distinct_key row)))"
proof (induction seen rows rule: distinct_rows.induct)
  case (2 seen row rows)
  show ?case
  proof (cases "list_ex (\<lambda>k. tuple_eq k (distinct_key row)) seen")
    case True
    then obtain k where k: "k \<in> set seen" "tuple_eq k (distinct_key row)" by (auto simp: list_ex_iff)
    have eq: "distinct_rows seen (row # rows) = distinct_rows seen rows" using True by simp
    show ?thesis unfolding eq using 2(1) [OF True] k by (simp add: subseq_Cons') blast
  next
    case False
    have IH: "subseq (distinct_rows (distinct_key row # seen) rows) rows"
      "sorted_wrt (\<lambda>a b. \<not> tuple_eq (distinct_key a) (distinct_key b)) (distinct_rows (distinct_key row # seen) rows)"
      "\<And>u k. u \<in> set (distinct_rows (distinct_key row # seen) rows) \<Longrightarrow> k = distinct_key row \<or> k \<in> set seen \<Longrightarrow>
         \<not> tuple_eq k (distinct_key u)"
      "\<And>u. u \<in> set rows \<Longrightarrow> u \<in> set (distinct_rows (distinct_key row # seen) rows) \<or>
         tuple_eq (distinct_key row) (distinct_key u) \<or> (\<exists>k \<in> set seen. tuple_eq k (distinct_key u)) \<or>
         (\<exists>w \<in> set (distinct_rows (distinct_key row # seen) rows). tuple_eq (distinct_key w) (distinct_key u))"
      using 2(2) [OF False] by auto
    have "\<not> tuple_eq k (distinct_key row)" if "k \<in> set seen" for k
      using False that by (auto simp: list_ex_iff)
    moreover have "distinct_rows seen (row # rows) = row # distinct_rows (distinct_key row # seen) rows"
      using False by simp
    ultimately show ?thesis
      using IH by (simp, blast)
  qed
qed simp

text \<open>
  C33: \<^verbatim>\<open>DISTINCT\<close> keeps the first of the rows that are equal: the result is a
  subsequence of the rows, no two of its rows are equal, and every row left out is equal to one
  that was kept, rows being compared with \<^verbatim>\<open>NULL\<close> taken for the text
  \<^verbatim>\<open>NULL\<close>.
\<close>

theorem distinct_keeps_first:
  "subseq (qr_rows (exec_distinct t)) (qr_rows t) \<and>
   sorted_wrt (\<lambda>a b. \<not> tuple_eq (distinct_key a) (distinct_key b)) (qr_rows (exec_distinct t)) \<and>
   set (qr_rows t) \<subseteq> set (qr_rows (exec_distinct t)) \<union>
     {row. list_ex (\<lambda>u. tuple_eq (distinct_key u) (distinct_key row)) (qr_rows (exec_distinct t))}"
  using distinct_rows_facts [of "[]" "qr_rows t"]
  by (auto simp: exec_distinct_def table_result_def list_ex_iff)

lemma distinct_merges_null_text:
  "exec_distinct (table_result [c] [[VNull], [VStr ''NULL'']]) = table_result [c] [[VNull]]"
  by (simp add: exec_distinct_def table_result_def distinct_key_def is_null_value_def tuple_eq_def)

section \<open>Joins\<close>

text \<open>Tables whose rows have a value for every column.\<close>

definition well_shaped :: "table \<Rightarrow> bool" where
  "well_shaped t = list_all (\<lambda>row. length row = length (qr_columns t)) (qr_rows t)"

lemma find_column_Some:
  "find_column c cs = Some i \<Longrightarrow> i < length cs \<and> cs ! i = c"
  by (induction c cs arbitrary: i rule: find_column.induct) (auto split: if_splits)

lemma right_column:
  assumes "length l = length lc" "length r = length rc" "distinct rc" "j < length rc"
  shows "assoc_get (rc ! j) (row_dict (lc @ rc) (l @ r)) = Some (r ! j)"
proof -
  have "map_of (rev (zip rc r)) (rc ! j) = Some (r ! j)"
    using row_dict_distinct [of rc r j] assms by (simp add: row_dict_get)
  then show ?thesis using assms by (simp add: row_dict_get map_add_def)
qed

lemma left_column:
  assumes "length l = length lc" "length r = length rc" "distinct lc" "i < length lc" "lc ! i \<notin> set rc"
  shows "assoc_get (lc ! i) (row_dict (lc @ rc) (l @ r)) = Some (l ! i)"
proof -
  have "map_of (rev (zip lc l)) (lc ! i) = Some (l ! i)"
    using row_dict_distinct [of lc l i] assms by (simp add: row_dict_get)
  moreover have "map_of (rev (zip rc r)) (lc ! i) = None"
    using assms by (auto simp: map_of_eq_None_iff dest: set_zip_leftD)
  ultimately show ?thesis using assms by (simp add: row_dict_get map_add_def)
qed

text \<open>The name of a column is looked up as it stands when no column has the qualified name.\<close>

definition unqualified :: "string list \<Rightarrow> string \<Rightarrow> string option \<Rightarrow> bool" where
  "unqualified cols c tab = (case tab of None \<Rightarrow> True | Some t \<Rightarrow> t = [] \<or> t @ ''.'' @ c \<notin> set cols)"

lemma row_dict_keys: "fst ` set (row_dict cols row) \<subseteq> set cols"
proof -
  have "assoc_get k (row_dict cols row) = None" if "k \<notin> set cols" for k
    using that by (auto simp: row_dict_get map_of_eq_None_iff dest: set_zip_leftD)
  then show ?thesis by (auto simp: assoc_get_None)
qed

lemma column_value_plain:
  assumes "unqualified cols c tab" "assoc_get c (row_dict cols row) = Some v"
  shows "column_value (row_dict cols row) c tab = v"
proof -
  have "(case tab of Some t \<Rightarrow> if t = [] then None else assoc_get (t @ ''.'' @ c) (row_dict cols row)
         | None \<Rightarrow> None) = None"
    using assms(1) row_dict_keys [of cols row]
    by (cases tab) (auto simp: unqualified_def assoc_get_None subset_iff)
  then show ?thesis using assms(2) by (simp add: column_value_def)
qed

lemma equation_holds:
  assumes "column_value row a ta = x" "column_value row b tb = y"
  shows "eval_predicate rt row (Some (BinaryOp OP_EQ (ColumnRef a ta) (ColumnRef b tb))) =
    Inr (\<not> is_null_value x \<and> \<not> is_null_value y \<and> py_eq x y)"
  using assms by (simp add: eval_predicate_def eval_binary_op_def or_null_def is_null_value_def)

text \<open>The rows of a join that does not pad the right side, from a test on pairs of rows.\<close>

definition pairs_join ::
  "(pyval list \<Rightarrow> pyval list \<Rightarrow> bool) \<Rightarrow> join_type option \<Rightarrow> nat \<Rightarrow> pyval list list \<Rightarrow> pyval list list \<Rightarrow> pyval list list"
where
  "pairs_join m jt rn ls rs =
     concat (map (\<lambda>l. let ms = filter (m l) rs in
       if ms = [] \<and> jt \<in> {Some J_LEFT, Some J_FULL} then [l @ nulls rn] else map (\<lambda>r. l @ r) ms) ls)"

lemma mapr_map: "(\<And>x. x \<in> set xs \<Longrightarrow> f x = Inr (g x)) \<Longrightarrow> mapr f xs = Inr (map g xs)"
  by (induction xs) auto

lemma nested_loop_pairs:
  assumes "\<And>l r. l \<in> set (qr_rows lt) \<Longrightarrow> r \<in> set (qr_rows rgt) \<Longrightarrow>
      eval_predicate rt (row_dict (qr_columns lt @ qr_columns rgt) (l @ r)) cond = Inr (m l r)"
    and "jt \<notin> {Some J_RIGHT, Some J_FULL}"
  shows "exec_nested_loop_join rt jt cond lt rgt =
    Inr (table_result (qr_columns lt @ qr_columns rgt)
      (pairs_join m jt (length (qr_columns rgt)) (qr_rows lt) (qr_rows rgt)))"
proof -
  have "filter_rows rt (qr_columns lt @ qr_columns rgt) cond (map (\<lambda>r. l @ r) rs) =
      Inr (map (\<lambda>r. l @ r) (filter (m l) rs))" if "l \<in> set (qr_rows lt)" "set rs \<subseteq> set (qr_rows rgt)" for l rs
    using that(2) by (induction rs) (auto simp: assms(1) [OF that(1)])
  then have "mapr (join_left_row rt (qr_columns lt @ qr_columns rgt) cond jt (length (qr_columns rgt)) (qr_rows rgt))
        (qr_rows lt) =
      Inr (map (\<lambda>l. let ms = filter (m l) (qr_rows rgt) in
        if ms = [] \<and> jt \<in> {Some J_LEFT, Some J_FULL} then [l @ nulls (length (qr_columns rgt))]
        else map (\<lambda>r. l @ r) ms) (qr_rows lt))"
    by (intro mapr_map) (simp add: join_left_row_def Let_def)
  then show ?thesis
    using assms(2) by (simp add: exec_nested_loop_join_def Let_def pairs_join_def)
qed

lemma hash_join_pairs:
  assumes "equi_columns cond = Some (a, b)" "find_column a (qr_columns lt) = Some i"
    and "find_column b (qr_columns rgt) = Some j" and "well_shaped lt" "well_shaped rgt"
  shows "exec_hash_join rt jt cond lt rgt =
    Inr (table_result (qr_columns lt @ qr_columns rgt)
      (pairs_join (\<lambda>l r. py_eq (r ! j) (l ! i)) jt (length (qr_columns rgt)) (qr_rows lt) (qr_rows rgt)))"
proof -
  have i: "i < length (qr_columns lt)" and j: "j < length (qr_columns rgt)"
    using assms(2,3) find_column_Some by blast+
  have "mapr (\<lambda>r. bindr (py_get r (int j)) (\<lambda>k. Inr (k, r))) (qr_rows rgt) = Inr (map (\<lambda>r. (r ! j, r)) (qr_rows rgt))"
    using assms(5) j by (intro mapr_map) (auto simp: well_shaped_def list_all_iff)
  then have build: "hash_build j (qr_rows rgt) =
      Inr (fold (\<lambda>(k, r) g. group_put py_eq k r g) (map (\<lambda>r. (r ! j, r)) (qr_rows rgt)) [])"
    by (simp add: hash_build_def)
  have get: "group_get py_eq k (fold (\<lambda>(k, r) g. group_put py_eq k r g) (map (\<lambda>r. (r ! j, r)) rs) []) =
      filter (\<lambda>r. py_eq (r ! j) k) rs" for k rs
    by (simp add: value_keys.get_fold filter_map comp_def)
  have "mapr (hash_probe jt i (length (qr_columns rgt))
        (fold (\<lambda>(k, r) g. group_put py_eq k r g) (map (\<lambda>r. (r ! j, r)) (qr_rows rgt)) [])) (qr_rows lt) =
      Inr (map (\<lambda>l. let ms = filter (\<lambda>r. py_eq (r ! j) (l ! i)) (qr_rows rgt) in
        if ms = [] \<and> jt \<in> {Some J_LEFT, Some J_FULL} then [l @ nulls (length (qr_columns rgt))]
        else map (\<lambda>r. l @ r) ms) (qr_rows lt))"
    using assms(4) i by (intro mapr_map) (auto simp: hash_probe_def get Let_def well_shaped_def list_all_iff)
  then show ?thesis
    using assms(1-3) build by (simp add: exec_hash_join_def hash_columns_def pairs_join_def)
qed

lemma pairs_join_cong:
  "(\<And>l r. l \<in> set ls \<Longrightarrow> r \<in> set rs \<Longrightarrow> m l r = m' l r) \<Longrightarrow>
   pairs_join m jt n ls rs = pairs_join m' jt n ls rs"
  unfolding pairs_join_def by (intro arg_cong [where f = concat] map_cong refl) (simp cong: filter_cong)

text \<open>A column without \<^verbatim>\<open>NULL\<close>s, and one whose values equal themselves (no NaN).\<close>

definition column_all :: "(pyval \<Rightarrow> bool) \<Rightarrow> string \<Rightarrow> table \<Rightarrow> bool" where
  "column_all P c t =
     (case find_column c (qr_columns t) of
        Some j \<Rightarrow> list_all (\<lambda>r. P (r ! j)) (qr_rows t) | None \<Rightarrow> True)"

abbreviation equation :: "string \<Rightarrow> string option \<Rightarrow> string \<Rightarrow> string option \<Rightarrow> expr" where
  "equation a ta b tb \<equiv> BinaryOp OP_EQ (ColumnRef a ta) (ColumnRef b tb)"

text \<open>
  C7: the hash join the planner chooses for large tables gives exactly the rows of the nested-loop
  join, in the same order, for an equation of two columns: when the column names are distinct,
  the join column of the right table has no \<^verbatim>\<open>NULL\<close>s and the join is not a
  right or full one.
\<close>

theorem hash_join_is_nested_loop:
  assumes "well_shaped lt" and "well_shaped rgt" and "distinct (qr_columns lt @ qr_columns rgt)"
    and "unqualified (qr_columns lt @ qr_columns rgt) a ta" and "unqualified (qr_columns lt @ qr_columns rgt) b tb"
    and "column_all (\<lambda>v. \<not> is_null_value v) b rgt" and "jt \<notin> {Some J_RIGHT, Some J_FULL}"
  shows "exec_hash_join rt jt (Some (equation a ta b tb)) lt rgt =
    exec_nested_loop_join rt jt (Some (equation a ta b tb)) lt rgt"
proof (cases "find_column a (qr_columns lt) = None \<or> find_column b (qr_columns rgt) = None")
  case True
  then show ?thesis by (auto simp: exec_hash_join_def hash_columns_def split: option.split)
next
  case False
  then obtain i j where ij: "find_column a (qr_columns lt) = Some i" "find_column b (qr_columns rgt) = Some j" by auto
  let ?cols = "qr_columns lt @ qr_columns rgt"
  have pos: "i < length (qr_columns lt)" "qr_columns lt ! i = a" "j < length (qr_columns rgt)" "qr_columns rgt ! j = b"
    using ij find_column_Some by blast+
  have "eval_predicate rt (row_dict ?cols (l @ r)) (Some (equation a ta b tb)) = Inr (py_eq (r ! j) (l ! i))"
    if l: "l \<in> set (qr_rows lt)" and r: "r \<in> set (qr_rows rgt)" for l r
  proof -
    have len: "length l = length (qr_columns lt)" "length r = length (qr_columns rgt)"
      using assms(1,2) l r by (auto simp: well_shaped_def list_all_iff)
    have "a \<notin> set (qr_columns rgt)" using assms(3) pos by (metis disjoint_iff distinct_append nth_mem)
    then have "assoc_get a (row_dict ?cols (l @ r)) = Some (l ! i)"
      using left_column [OF len, of i] assms(3) pos by simp
    moreover have "assoc_get b (row_dict ?cols (l @ r)) = Some (r ! j)"
      using right_column [OF len, of j] assms(3) pos by simp
    moreover have "\<not> is_null_value (r ! j)" using assms(6) ij r by (auto simp: column_all_def list_all_iff)
    ultimately show ?thesis
      using equation_holds [OF column_value_plain [OF assms(4)] column_value_plain [OF assms(5)]]
      by (auto simp: is_null_value_def py_eq_sym)
  qed
  then have "exec_nested_loop_join rt jt (Some (equation a ta b tb)) lt rgt =
      Inr (table_result ?cols (pairs_join (\<lambda>l r. py_eq (r ! j) (l ! i)) jt (length (qr_columns rgt)) (qr_rows lt) (qr_rows rgt)))"
    using assms(7) by (rule nested_loop_pairs)
  then show ?thesis
    using hash_join_pairs [OF _ ij assms(1,2), of "Some (equation a ta b tb)" rt jt] by simp
qed

text \<open>
  Joining on columns of the same name, \<^verbatim>\<open>a.c = b.c\<close>: rows carry unqualified
  names, so the nested-loop join compares the right row's value with itself and returns every pair
  of rows, while the hash join, chosen for larger tables, returns the pairs that agree.
\<close>

theorem same_name_join_is_product:
  assumes "well_shaped lt" and "well_shaped rgt" and "distinct (qr_columns rgt)"
    and "find_column c (qr_columns lt) = Some i" and "find_column c (qr_columns rgt) = Some j"
    and "unqualified (qr_columns lt @ qr_columns rgt) c ta" and "unqualified (qr_columns lt @ qr_columns rgt) c tb"
    and "column_all (\<lambda>v. \<not> is_null_value v \<and> py_eq v v) c rgt"
  shows "exec_nested_loop_join rt (Some J_INNER) (Some (equation c ta c tb)) lt rgt =
      Inr (table_result (qr_columns lt @ qr_columns rgt) (concat (map (\<lambda>l. map (\<lambda>r. l @ r) (qr_rows rgt)) (qr_rows lt)))) \<and>
    exec_hash_join rt (Some J_INNER) (Some (equation c ta c tb)) lt rgt =
      Inr (table_result (qr_columns lt @ qr_columns rgt)
        (concat (map (\<lambda>l. map (\<lambda>r. l @ r) (filter (\<lambda>r. py_eq (r ! j) (l ! i)) (qr_rows rgt))) (qr_rows lt))))"
proof
  let ?cols = "qr_columns lt @ qr_columns rgt"
  have "eval_predicate rt (row_dict ?cols (l @ r)) (Some (equation c ta c tb)) = Inr True"
    if l: "l \<in> set (qr_rows lt)" and r: "r \<in> set (qr_rows rgt)" for l r
  proof -
    have len: "length l = length (qr_columns lt)" "length r = length (qr_columns rgt)"
      using assms(1,2) l r by (auto simp: well_shaped_def list_all_iff)
    have "assoc_get c (row_dict ?cols (l @ r)) = Some (r ! j)"
      using right_column [OF len assms(3), of j] find_column_Some [OF assms(5)] by simp
    moreover have "\<not> is_null_value (r ! j) \<and> py_eq (r ! j) (r ! j)"
      using assms(5,8) r by (auto simp: column_all_def list_all_iff)
    ultimately show ?thesis
      using equation_holds [OF column_value_plain [OF assms(6)] column_value_plain [OF assms(7)]] by simp
  qed
  then show "exec_nested_loop_join rt (Some J_INNER) (Some (equation c ta c tb)) lt rgt =
      Inr (table_result ?cols (concat (map (\<lambda>l. map (\<lambda>r. l @ r) (qr_rows rgt)) (qr_rows lt))))"
    by (subst nested_loop_pairs) (auto simp: pairs_join_def Let_def)
  show "exec_hash_join rt (Some J_INNER) (Some (equation c ta c tb)) lt rgt =
      Inr (table_result ?cols
        (concat (map (\<lambda>l. map (\<lambda>r. l @ r) (filter (\<lambda>r. py_eq (r ! j) (l ! i)) (qr_rows rgt))) (qr_rows lt))))"
    by (subst hash_join_pairs [OF _ assms(4,5,1,2)]) (auto simp: pairs_join_def Let_def)
qed

section \<open>Aggregates\<close>






lemma one_group:
  "fold (\<lambda>(k, r) g. group_put tuple_eq k r g) (map (\<lambda>r. ([], r)) rs) [([], qs)] = [([], qs @ rs)]"
  by (induction rs arbitrary: qs) (auto simp: tuple_eq_def)

lemma group_rows_single: "group_rows rt cols [] rows = Inr [([], rows)]"
proof -
  have "mapr (\<lambda>row. bindr (group_key rt cols [] row) (\<lambda>k. Inr (k, row))) rows = Inr (map (\<lambda>r. ([], r)) rows)"
    by (rule mapr_map) (simp add: group_key_def)
  moreover have "fold (\<lambda>(k, r) g. group_put tuple_eq k r g) (map (\<lambda>r. ([], r)) rows) [] =
      (if rows = [] then [] else [([], rows)])"
    using one_group [of "tl rows" "[hd rows]"] by (cases rows) auto
  ultimately show ?thesis by (simp add: group_rows_def Let_def)
qed

text \<open>
  An aggregate query without \<^verbatim>\<open>GROUP BY\<close> returns \<^verbatim>\<open>NULL\<close>s:
  the projection above the aggregation evaluates the calls again, on a row, which gives
  \<^verbatim>\<open>NULL\<close> for every one of them.
\<close>

theorem aggregates_come_out_null:
  assumes "exec_aggregate rt None (Some aggs) t = Inr u"
    and "items \<noteq> []" and "list_all (\<lambda>i. is_aggregate_call (item_expr i)) items"
  shows "\<exists>w. exec_project rt (Some items) u = Inr w \<and> qr_rows w = [replicate (length items) VNull]"
proof -
  have vals: "item_values rt cols row i = Inr [VNull]" if "i \<in> set items" for cols row i
    using assms(3) that
    by (auto simp: list_all_iff item_values_def split: expr.splits)
  have "mapr (item_values rt cols row) items = Inr (map (\<lambda>_. [VNull]) items)" for cols row
    by (rule mapr_map) (rule vals)
  then have "project_row rt cols items row = Inr (replicate (length items) VNull)" for cols row
    by (simp add: project_row_def map_replicate_const concat_replicate_trivial flip: map_replicate_const)
  moreover obtain row where "qr_rows u = [row]"
    using assms(1)
    by (auto simp: exec_aggregate_def list_or_empty_def Let_def group_rows_single bindr_Inr_iff table_result_def)
  ultimately show ?thesis
    using assms(2) by (cases items) (auto simp: exec_project_def table_result_def)
qed

section \<open>Examples\<close>

definition null_sql_runtime :: sql_runtime where
  "null_sql_runtime = \<lparr>rt_int_of_str = (\<lambda>_. None), rt_int_of_float = (\<lambda>_. Inl ValueError),
     rt_float_of_int = (\<lambda>_. Inl OverflowError), rt_float_of_str = (\<lambda>_. None),
     rt_float_repr = (\<lambda>_. []), rt_bytes_repr = (\<lambda>_. []),
     ra_add = (\<lambda>_ _. 0), ra_sub = (\<lambda>_ _. 0), ra_mul = (\<lambda>_ _. 0), ra_div = (\<lambda>_ _. 0), ra_mod = (\<lambda>_ _. 0),
     ra_int_div = (\<lambda>_ _. Inl OverflowError), ra_round = (\<lambda>_ _. Inl OverflowError),
     ra_sum = (\<lambda>_. Inl OverflowError), ra_format = (\<lambda>_ _. Inl TypeError), ra_expr_str = (\<lambda>_. []),
     ra_hash = (\<lambda>_. 0), ra_float_text = (\<lambda>_ _. []), ra_nan_sort = (\<lambda>_. Inl TypeError)\<rparr>"

definition users :: table where
  "users = table_result [''id'', ''name'']
     [[VInt 1, VStr ''ann''], [VInt 2, VNull], [VInt 3, VStr ''cat'']]"

definition orders :: table where
  "orders = table_result [''user'', ''total'']
     [[VInt 2, VInt 30], [VInt 1, VInt 10], [VInt 2, VInt 20]]"

definition visits :: table where
  "visits = table_result [''id'', ''day''] [[VInt 3, VInt 7], [VInt 1, VInt 8]]"

theorem filter_partitions_witness:
  "\<exists>a b c. exec_filter null_sql_runtime (Some (BinaryOp OP_EQ (ColumnRef ''name'' None) (Literal (VStr ''ann'') ''string''))) users = Inr a \<and>
    exec_filter null_sql_runtime (Some (UnaryOp OP_NOT (BinaryOp OP_EQ (ColumnRef ''name'' None) (Literal (VStr ''ann'') ''string'')))) users = Inr b \<and>
    exec_filter null_sql_runtime (Some (IsNullExpr (BinaryOp OP_EQ (ColumnRef ''name'' None) (Literal (VStr ''ann'') ''string'')) False)) users = Inr c \<and>
    mset (qr_rows a) + mset (qr_rows b) + mset (qr_rows c) = mset (qr_rows users)"
proof (rule filter_partitions)
  show "list_all (\<lambda>row. is_ok (eval_expr null_sql_runtime (row_dict (qr_columns users) row)
      (BinaryOp OP_EQ (ColumnRef ''name'' None) (Literal (VStr ''ann'') ''string'')))) (qr_rows users)"
    by code_simp
qed



definition total_int :: "pyval list \<Rightarrow> int" where
  "total_int row = int_value (row ! 1)"

theorem descending_sort_ascends_witness:
  "\<exists>u. exec_sort null_sql_runtime (Some [(ColumnRef ''total'' None, True)]) orders = Inr u \<and>
    mset (qr_rows u) = mset (qr_rows orders) \<and> sorted (map total_int (qr_rows u))"
proof (rule descending_sort_ascends)
  show "int_key null_sql_runtime (ColumnRef ''total'' None) orders total_int" by code_simp
qed

theorem hash_join_is_nested_loop_witness:
  "exec_hash_join null_sql_runtime (Some J_LEFT) (Some (equation ''id'' (Some ''u'') ''user'' (Some ''o''))) users orders =
   exec_nested_loop_join null_sql_runtime (Some J_LEFT) (Some (equation ''id'' (Some ''u'') ''user'' (Some ''o''))) users orders"
proof (rule hash_join_is_nested_loop)
  show "well_shaped users" "well_shaped orders" by code_simp+
  show "distinct (qr_columns users @ qr_columns orders)" by code_simp
  show "unqualified (qr_columns users @ qr_columns orders) ''id'' (Some ''u'')"
    "unqualified (qr_columns users @ qr_columns orders) ''user'' (Some ''o'')" by code_simp+
  show "column_all (\<lambda>v. \<not> is_null_value v) ''user'' orders" by code_simp
  show "Some J_LEFT \<notin> {Some J_RIGHT, Some J_FULL}" by simp
qed

theorem same_name_join_is_product_witness:
  "exec_nested_loop_join null_sql_runtime (Some J_INNER) (Some (equation ''id'' (Some ''u'') ''id'' (Some ''v''))) users visits =
      Inr (table_result (qr_columns users @ qr_columns visits)
        (concat (map (\<lambda>l. map (\<lambda>r. l @ r) (qr_rows visits)) (qr_rows users)))) \<and>
    exec_hash_join null_sql_runtime (Some J_INNER) (Some (equation ''id'' (Some ''u'') ''id'' (Some ''v''))) users visits =
      Inr (table_result (qr_columns users @ qr_columns visits)
        (concat (map (\<lambda>l. map (\<lambda>r. l @ r) (filter (\<lambda>r. py_eq (r ! 0) (l ! 0)) (qr_rows visits))) (qr_rows users))))"
proof (rule same_name_join_is_product)
  show "well_shaped users" "well_shaped visits" by code_simp+
  show "distinct (qr_columns visits)" by code_simp
  show "find_column ''id'' (qr_columns users) = Some 0" "find_column ''id'' (qr_columns visits) = Some 0" by code_simp+
  show "unqualified (qr_columns users @ qr_columns visits) ''id'' (Some ''u'')"
    "unqualified (qr_columns users @ qr_columns visits) ''id'' (Some ''v'')" by code_simp+
  show "column_all (\<lambda>v. \<not> is_null_value v \<and> py_eq v v) ''id'' visits" by code_simp
qed

definition count_all :: expr where
  "count_all = FunctionCall ''COUNT'' [StarExpr None] False True"



theorem aggregates_come_out_null_witness:
  "\<exists>w. exec_project null_sql_runtime (Some [PlainItem count_all])
      (table_result [''COUNT()''] [[VInt 3]]) = Inr w \<and> qr_rows w = [replicate (length [PlainItem count_all]) VNull]"
proof (rule aggregates_come_out_null)
  show "exec_aggregate null_sql_runtime None (Some [count_all]) orders = Inr (table_result [''COUNT()''] [[VInt 3]])"
    by code_simp
qed (simp_all add: count_all_def)

end
