(* ===== verification/Vectorized_Spec.thy ===== *)
theory Vectorized_Spec
  imports Vectorized Operators_Spec
begin

unbundle bit_operations_syntax

text \<open>
  Properties of the vectorized engine: the bit-packed mask is a set of indices, batches carry rows
  faithfully, the fast path of a predicate is the row-by-row evaluation, and the pipeline is a
  filter and a projection of the rows.
\<close>

section \<open>The null mask\<close>

definition null_at :: "column_vector \<Rightarrow> nat \<Rightarrow> bool" where
  "null_at v i = bit (cv_mask v ! (i div 8)) (i mod 8)"

lemma byte_index: "drop_bit 3 (i :: nat) = i div 8" "(i :: nat) AND 7 = i mod 8"
  using take_bit_eq_mask [of 3 i] by (simp_all add: drop_bit_eq_div take_bit_eq_mod mask_eq_exp_minus_1)

lemma byte_bit: "(w :: byte) AND 2 ^ n \<noteq> 0 \<longleftrightarrow> n < 8 \<and> bit w n"
proof -
  have "bit (w AND 2 ^ n) m \<longleftrightarrow> m = n \<and> n < 8 \<and> bit w n" for m
    by (auto simp: bit_and_iff bit_exp_iff)
  then show ?thesis by (metis bit_eq_iff bit_0_eq bot_apply bot_bool_def)
qed

lemma mask_index: "i < 8 * n \<Longrightarrow> i div 8 < (n :: nat)"
  by linarith

lemma is_null_at: "i < 8 * length (cv_mask v) \<Longrightarrow> is_null v i = Inr (null_at v i)"
  by (simp add: is_null_def byte_index Let_def byte_bit null_at_def mask_index)

lemma set_null_at:
  assumes "i < 8 * length (cv_mask v)"
  shows "\<exists>w. set_null v i = Inr w \<and> (\<forall>j < 8 * length (cv_mask v). null_at w j = (j = i \<or> null_at v j)) \<and>
    cv_data w = cv_data v \<and> cv_length w = cv_length v \<and> cv_kind w = cv_kind v \<and>
    length (cv_mask w) = length (cv_mask v)"
proof -
  let ?w = "v\<lparr>cv_mask := (cv_mask v)[i div 8 := cv_mask v ! (i div 8) OR 2 ^ (i mod 8)]\<rparr>"
  have "null_at ?w j = (j = i \<or> null_at v j)" if "j < 8 * length (cv_mask v)" for j
  proof (cases "j div 8 = i div 8")
    case True
    then have "j = i \<longleftrightarrow> j mod 8 = i mod 8" by (metis div_mult_mod_eq)
    moreover have "bit (2 ^ (i mod 8) :: byte) (j mod 8) = (j mod 8 = i mod 8)"
      by (auto simp: bit_exp_iff)
    ultimately show ?thesis
      using True mask_index [OF that] by (simp add: null_at_def bit_or_iff disj_commute)
  next
    case False
    then show ?thesis by (auto simp: null_at_def)
  qed
  moreover have "set_null v i = Inr ?w"
    using mask_index [OF assms] by (simp add: set_null_def byte_index Let_def)
  ultimately show ?thesis by simp
qed

section \<open>Vectors as lists\<close>

fun fits_kind :: "vector_kind \<Rightarrow> pyval \<Rightarrow> bool" where
  "fits_kind INT64 v = (\<exists>i. v = VInt i)"
| "fits_kind FLOAT64 v = (\<exists>f. v = VFloat f)"
| "fits_kind STRINGS v = (\<exists>s. v = VStr s)"

definition clean :: "pyval \<Rightarrow> pyval" where
  "clean v = (if null_like v then VNull else v)"

definition room :: "column_vector \<Rightarrow> nat" where
  "room v = min (length (cv_data v)) (8 * length (cv_mask v))"

text \<open>A vector holds the values appended to it; nothing beyond them is marked.\<close>

definition vec_holds :: "column_vector \<Rightarrow> pyval list \<Rightarrow> bool" where
  "vec_holds v xs =
     (cv_length v = length xs \<and> length xs \<le> room v \<and>
      (\<forall>i < length xs. null_at v i = (xs ! i = VNull) \<and> (xs ! i \<noteq> VNull \<longrightarrow> cv_data v ! i = xs ! i)) \<and>
      (\<forall>i. length xs \<le> i \<longrightarrow> i < 8 * length (cv_mask v) \<longrightarrow> \<not> null_at v i))"

lemma vec_holds_new: "vec_holds (vector_new k n) []" "room (vector_new k n) = n" "cv_kind (vector_new k n) = k"
  by (auto simp: vec_holds_def vector_new_def null_at_def room_def less_mult_imp_div_less)

lemma vec_get_held: "vec_holds v xs \<Longrightarrow> i < length xs \<Longrightarrow> vec_get v i = Inr (xs ! i)"
  by (auto simp: vec_holds_def vec_get_def is_null_at room_def)

lemma to_kind_fits: "fits_kind k v \<Longrightarrow> to_kind rt k v = Inr v"
  by (cases k) auto

lemma fits_not_null: "fits_kind k v \<Longrightarrow> \<not> null_like v"
  by (cases k) (auto simp: null_like_def)

lemma fits_clean: "v = VNull \<or> fits_kind k v \<Longrightarrow> clean v = v"
  using fits_not_null by (auto simp: clean_def null_like_def)

lemma vec_append_held:
  assumes "vec_holds v xs" "length xs < room v" "null_like x \<or> fits_kind (cv_kind v) x"
  shows "\<exists>w. vec_append rt v x = Inr w \<and> vec_holds w (xs @ [clean x]) \<and> room w = room v \<and> cv_kind w = cv_kind v"
proof (cases "null_like x")
  case True
  have i: "cv_length v < 8 * length (cv_mask v)" using assms(1,2) by (simp add: vec_holds_def room_def)
  obtain w where w: "set_null v (cv_length v) = Inr w"
    "\<forall>j < 8 * length (cv_mask v). null_at w j = (j = cv_length v \<or> null_at v j)"
    "cv_data w = cv_data v" "cv_length w = cv_length v" "cv_kind w = cv_kind v"
    "length (cv_mask w) = length (cv_mask v)"
    using set_null_at [OF i] by blast
  let ?w = "w\<lparr>cv_length := cv_length v + 1\<rparr>"
  have "null_at ?w j = null_at w j" for j by (simp add: null_at_def)
  then have "vec_holds ?w (xs @ [VNull])"
    using assms(1,2) w by (auto simp: vec_holds_def room_def nth_append less_Suc_eq)
  moreover have "vec_append rt v x = Inr ?w" "room ?w = room v" "cv_kind ?w = cv_kind v" "clean x = VNull"
    using w True by (simp_all add: vec_append_def clean_def room_def)
  ultimately show ?thesis by metis
next
  case False
  then have x: "to_kind rt (cv_kind v) x = Inr x" "x \<noteq> VNull"
    using assms(3) to_kind_fits by (auto simp: null_like_def)
  let ?w = "v\<lparr>cv_data := (cv_data v)[cv_length v := x], cv_length := cv_length v + 1\<rparr>"
  have "null_at ?w j = null_at v j" for j by (simp add: null_at_def)
  then have "vec_holds ?w (xs @ [x])"
    using assms(1,2) x(2) by (auto simp: vec_holds_def room_def nth_append less_Suc_eq)
  moreover have "vec_append rt v x = Inr ?w" "room ?w = room v" "cv_kind ?w = cv_kind v" "clean x = x"
    using x assms(1,2) False by (simp_all add: vec_append_def clean_def room_def vec_holds_def)
  ultimately show ?thesis by metis
qed

lemma append_values_held:
  assumes "vec_holds v xs" "length xs + length ys \<le> room v"
    and "\<forall>y \<in> set ys. \<exists>z. f y = Inr z \<and> (null_like z \<or> fits_kind (cv_kind v) z)"
  shows "\<exists>w. append_values rt f ys v = Inr w \<and> vec_holds w (xs @ map (\<lambda>y. clean (projr (f y))) ys) \<and>
    room w = room v \<and> cv_kind w = cv_kind v"
  using assms
proof (induction ys arbitrary: v xs)
  case (Cons y ys)
  obtain z where z: "f y = Inr z" "null_like z \<or> fits_kind (cv_kind v) z" using Cons.prems(3) by auto
  have "length xs < room v" using Cons.prems(2) by simp
  obtain w where w: "vec_append rt v z = Inr w" "vec_holds w (xs @ [clean z])" "room w = room v" "cv_kind w = cv_kind v"
    using vec_append_held [OF Cons.prems(1) \<open>length xs < room v\<close> z(2)] by blast
  then show ?case
    using Cons.IH [OF w(2)] Cons.prems(2,3) z(1) by simp
qed simp

lemma vec_slice_held:
  assumes "vec_holds v xs" "\<forall>i \<in> set is. i < length xs" "\<forall>x \<in> set xs. x = VNull \<or> fits_kind (cv_kind v) x"
  shows "\<exists>w. vec_slice rt v is = Inr w \<and> vec_holds w (map ((!) xs) is) \<and> cv_kind w = cv_kind v"
proof -
  have "\<forall>i \<in> set is. \<exists>z. vec_get v i = Inr z \<and> (null_like z \<or> fits_kind (cv_kind v) z)"
    using assms vec_get_held by (auto simp: null_like_def)
  then obtain w where w: "append_values rt (vec_get v) is (vector_new (cv_kind v) (length is)) = Inr w"
    "vec_holds w (map (\<lambda>i. clean (projr (vec_get v i))) is)" "cv_kind w = cv_kind v"
    using append_values_held [OF vec_holds_new(1), of "is" "cv_kind v" "length is" "vec_get v" rt]
    by (auto simp: vec_holds_new)
  have "clean (projr (vec_get v i)) = xs ! i" if "i \<in> set is" for i
  proof -
    have "i < length xs" using that assms(2) by blast
    then show ?thesis using fits_clean [of "xs ! i" "cv_kind v"] vec_get_held [OF assms(1)] assms(3) by simp
  qed
  then have vals: "map (\<lambda>i. clean (projr (vec_get v i))) is = map ((!) xs) is" by simp
  show ?thesis using w(1,3) w(2) [unfolded vals] by (simp add: vec_slice_def)
qed

section \<open>Batches as rows\<close>

lemma mapr_each:
  "(\<And>x. x \<in> set xs \<Longrightarrow> f x = Inr (g x)) \<Longrightarrow> mapr f xs = Inr (map g xs)"
  by (induction xs) auto

lemma mapr_some:
  "\<forall>x \<in> set xs. \<exists>y. f x = Inr y \<and> P x y \<Longrightarrow> \<exists>ys. mapr f xs = Inr ys \<and> list_all2 P xs ys"
proof (induction xs)
  case (Cons x xs)
  obtain y where "f x = Inr y" "P x y" using Cons.prems by auto
  moreover obtain ys where "mapr f xs = Inr ys" "list_all2 P xs ys" using Cons by auto
  ultimately show ?case by auto
qed simp

definition typed_rows :: "string list \<Rightarrow> pyval list list \<Rightarrow> bool" where
  "typed_rows schema rows =
     ((\<forall>row \<in> set rows. length row = length schema) \<and>
      (\<forall>j < length schema. \<exists>k. \<forall>row \<in> set rows. null_like (row ! j) \<or> fits_kind k (row ! j)))"

definition batch_holds :: "record_batch \<Rightarrow> pyval list list \<Rightarrow> bool" where
  "batch_holds b rows =
     (rb_num_rows b = length rows \<and> length (rb_vectors b) = length (rb_schema b) \<and>
      (\<forall>row \<in> set rows. length row = length (rb_schema b)) \<and>
      (\<forall>j < length (rb_schema b). vec_holds (rb_vectors b ! j) (map (\<lambda>row. row ! j) rows) \<and>
         (\<forall>row \<in> set rows. row ! j = VNull \<or> fits_kind (cv_kind (rb_vectors b ! j)) (row ! j))))"

lemma kind_of_fits: "fits_kind k v \<Longrightarrow> kind_of (Some v) = k"
  by (cases k) auto

lemma column_sample_kind:
  assumes "\<forall>row \<in> set rows. j < length row" "\<forall>row \<in> set rows. null_like (row ! j) \<or> fits_kind k (row ! j)"
  shows "\<exists>s. column_sample j rows = Inr s \<and> (\<forall>row \<in> set rows. null_like (row ! j) \<or> fits_kind (kind_of s) (row ! j))"
  using assms
proof (induction rows)
  case (Cons row rows)
  then obtain s where "column_sample j rows = Inr s"
    "\<forall>row \<in> set rows. null_like (row ! j) \<or> fits_kind (kind_of s) (row ! j)" by auto
  then show ?case
    using Cons.prems kind_of_fits [of k "row ! j"] by (cases "null_like (row ! j)") auto
qed simp

lemma build_column_held:
  assumes "\<forall>row \<in> set rows. j < length row" "\<forall>row \<in> set rows. null_like (row ! j) \<or> fits_kind k (row ! j)"
  shows "\<exists>v. build_column rt rows j = Inr v \<and> vec_holds v (map (\<lambda>row. clean (row ! j)) rows) \<and>
    (\<forall>row \<in> set rows. clean (row ! j) = VNull \<or> fits_kind (cv_kind v) (clean (row ! j)))"
proof -
  obtain s where s: "column_sample j rows = Inr s"
    "\<forall>row \<in> set rows. null_like (row ! j) \<or> fits_kind (kind_of s) (row ! j)"
    using column_sample_kind [OF assms] by blast
  let ?new = "vector_new (kind_of s) (max (length rows) VECTOR_SIZE)"
  have get: "py_get row (int j) = Inr (row ! j)" if "row \<in> set rows" for row
    using that assms(1) by simp
  have "\<forall>row \<in> set rows. \<exists>z. py_get row (int j) = Inr z \<and> (null_like z \<or> fits_kind (cv_kind ?new) z)"
    using get s(2) by (auto simp: vec_holds_new)
  then obtain v where v: "append_values rt (\<lambda>row. py_get row (int j)) rows ?new = Inr v"
    "vec_holds v (map (\<lambda>row. clean (projr (py_get row (int j)))) rows)" "cv_kind v = kind_of s"
    using append_values_held [OF vec_holds_new(1), of rows "kind_of s" "max (length rows) VECTOR_SIZE"
        "\<lambda>row. py_get row (int j)" rt] by (auto simp: vec_holds_new)
  have vals: "map (\<lambda>row. clean (projr (py_get row (int j)))) rows = map (\<lambda>row. clean (row ! j)) rows"
    using get by simp
  have "clean (row ! j) = VNull \<or> fits_kind (kind_of s) (clean (row ! j))" if "row \<in> set rows" for row
    using s(2) that by (auto simp: clean_def)
  then show ?thesis
    using v(1,3) v(2) [unfolded vals] s(1) by (simp add: build_column_def)
qed

lemma from_rows_held:
  assumes "typed_rows schema rows" "rows \<noteq> []"
  shows "\<exists>b. from_rows rt schema rows = Inr b \<and> rb_schema b = schema \<and> batch_holds b (map (map clean) rows)"
proof -
  have "\<forall>j \<in> set [0..<length schema]. \<exists>v. build_column rt rows j = Inr v \<and>
      (vec_holds v (map (\<lambda>row. clean (row ! j)) rows) \<and>
       (\<forall>row \<in> set rows. clean (row ! j) = VNull \<or> fits_kind (cv_kind v) (clean (row ! j))))"
  proof
    fix j assume "j \<in> set [0..<length schema]"
    then have j: "j < length schema" by simp
    then obtain k where "\<forall>row \<in> set rows. null_like (row ! j) \<or> fits_kind k (row ! j)"
      using assms(1) unfolding typed_rows_def by blast
    moreover have "\<forall>row \<in> set rows. j < length row" using assms(1) j by (simp add: typed_rows_def)
    ultimately show "\<exists>v. build_column rt rows j = Inr v \<and> (vec_holds v (map (\<lambda>row. clean (row ! j)) rows) \<and>
       (\<forall>row \<in> set rows. clean (row ! j) = VNull \<or> fits_kind (cv_kind v) (clean (row ! j))))"
      using build_column_held by blast
  qed
  from mapr_some [OF this]
  obtain vs where vs: "mapr (build_column rt rows) [0..<length schema] = Inr vs"
    "list_all2 (\<lambda>j v. vec_holds v (map (\<lambda>row. clean (row ! j)) rows) \<and>
      (\<forall>row \<in> set rows. clean (row ! j) = VNull \<or> fits_kind (cv_kind v) (clean (row ! j)))) [0..<length schema] vs"
    by blast
  let ?b = "\<lparr>rb_schema = schema, rb_vectors = vs, rb_num_rows = length rows\<rparr>"
  have len: "row \<in> set rows \<Longrightarrow> length row = length schema" for row
    using assms(1) by (simp add: typed_rows_def)
  have col: "map (\<lambda>row. map clean row ! j) rows = map (\<lambda>row. clean (row ! j)) rows" if "j < length schema" for j
    using that len by simp
  have "length vs = length schema" using vs(2) list_all2_lengthD by fastforce
  moreover have "vec_holds (vs ! j) (map (\<lambda>row. clean (row ! j)) rows) \<and>
      (\<forall>row \<in> set rows. clean (row ! j) = VNull \<or> fits_kind (cv_kind (vs ! j)) (clean (row ! j)))"
    if "j < length schema" for j
    using list_all2_nthD [OF vs(2), of j] that by simp
  ultimately have "batch_holds ?b (map (map clean) rows)"
    using len by (simp add: batch_holds_def comp_def col)
  then show ?thesis using vs(1) assms(2) by (simp add: from_rows_def)
qed

lemma batch_cell:
  assumes "batch_holds b rows" "i < length rows" "j < length (rb_schema b)"
  shows "vec_get (rb_vectors b ! j) i = Inr (rows ! i ! j)"
  using assms vec_get_held [of "rb_vectors b ! j" "map (\<lambda>row. row ! j) rows" i] by (simp add: batch_holds_def)

lemma batch_cells:
  assumes "batch_holds b rows" "i < length rows"
  shows "map (\<lambda>j. rows ! i ! j) [0..<length (rb_schema b)] = rows ! i"
proof -
  have "length (rows ! i) = length (rb_schema b)" using assms by (simp add: batch_holds_def)
  then show ?thesis by (metis map_nth)
qed

lemma to_rows_held:
  assumes "batch_holds b rows"
  shows "to_rows b = Inr rows"
proof -
  have n: "length (rb_vectors b) = length (rb_schema b)" "rb_num_rows b = length rows"
    using assms by (simp_all add: batch_holds_def)
  have vs: "rb_vectors b = map (\<lambda>j. rb_vectors b ! j) [0..<length (rb_schema b)]"
    using n(1) by (metis map_nth)
  have m: "mapr f (map g js) = mapr (\<lambda>j. f (g j)) js" for f :: "column_vector \<Rightarrow> pyval result" and g and js :: "nat list"
    by (induction js) simp_all
  have "mapr (\<lambda>v. vec_get v i) (rb_vectors b) = Inr (rows ! i)" if "i < length rows" for i
    by (subst vs, subst m, subst mapr_each [where g = "\<lambda>j. rows ! i ! j"])
      (use that batch_cell [OF assms] batch_cells [OF assms] in auto)
  then have "to_rows b = Inr (map (\<lambda>i. rows ! i) [0..<length rows])"
    unfolding to_rows_def n(2) by (intro mapr_each) simp
  then show ?thesis by (simp add: map_nth)
qed

text \<open>
  Converting rows to a batch and back gives the rows, their missing values as
  \<^verbatim>\<open>NULL\<close>, when each column holds numbers of one kind or text.
\<close>

theorem batch_roundtrip:
  assumes "typed_rows schema rows"
  shows "bindr (from_rows rt schema rows) to_rows = Inr (map (map clean) rows)"
proof (cases "rows = []")
  case True
  then show ?thesis by (simp add: from_rows_def to_rows_def)
next
  case False
  then show ?thesis using from_rows_held [OF assms, of rt] to_rows_held by auto
qed

section \<open>Rows that are converted\<close>

text \<open>
  A column of a batch is stored by the kind of its first value that is not missing: as floats, as
  integers, or else as text, and every value is converted to that.
\<close>

definition column_kind :: "pyval list list \<Rightarrow> nat \<Rightarrow> vector_kind" where
  "column_kind rows j = kind_of (List.find (\<lambda>v. \<not> null_like v) (map (\<lambda>row. row ! j) rows))"

definition stored_cell :: "sql_runtime \<Rightarrow> vector_kind \<Rightarrow> pyval \<Rightarrow> pyval result" where
  "stored_cell rt k v = (if null_like v then Inr VNull else to_kind rt k v)"

definition stored_column :: "sql_runtime \<Rightarrow> pyval list list \<Rightarrow> nat \<Rightarrow> pyval list result" where
  "stored_column rt rows j = mapr (\<lambda>row. stored_cell rt (column_kind rows j) (row ! j)) rows"

definition stored_rows :: "sql_runtime \<Rightarrow> string list \<Rightarrow> pyval list list \<Rightarrow> pyval list list result" where
  "stored_rows rt schema rows =
     bindr (mapr (stored_column rt rows) [0..<length schema]) (\<lambda>cols.
       Inr (map (\<lambda>i. map (\<lambda>col. col ! i) cols) [0..<length rows]))"

lemma to_kind_result: "to_kind rt k v = Inr w \<Longrightarrow> fits_kind k w"
  by (cases k) (auto simp: bindr_Inr_iff)

lemma stored_cell_fits: "stored_cell rt k v = Inr w \<Longrightarrow> w = VNull \<or> fits_kind k w"
  using to_kind_result by (auto simp: stored_cell_def split: if_splits)

lemma vec_append_stored:
  assumes "vec_holds v xs" "length xs < room v"
  shows "case stored_cell rt (cv_kind v) x of
      Inl e \<Rightarrow> vec_append rt v x = Inl e
    | Inr y \<Rightarrow> \<exists>w. vec_append rt v x = Inr w \<and> vec_holds w (xs @ [y]) \<and> room w = room v \<and> cv_kind w = cv_kind v"
proof (cases "null_like x")
  case True
  then show ?thesis using vec_append_held [OF assms, of x rt] by (auto simp: stored_cell_def clean_def)
next
  case False
  show ?thesis
  proof (cases "to_kind rt (cv_kind v) x")
    case (Inl e)
    then show ?thesis using False by (simp add: stored_cell_def vec_append_def)
  next
    case (Inr y)
    have y: "fits_kind (cv_kind v) y" by (rule to_kind_result [OF Inr])
    then have "vec_append rt v x = vec_append rt v y"
      using False Inr fits_not_null to_kind_fits [OF y] by (simp add: vec_append_def)
    moreover have "clean y = y" using fits_clean y by blast
    ultimately show ?thesis
      using False Inr y vec_append_held [OF assms, of y rt] by (auto simp: stored_cell_def)
  qed
qed

lemma append_values_stored:
  assumes "vec_holds v xs" "length xs + length ys \<le> room v" "\<forall>y \<in> set ys. f y = Inr (g y)"
  shows "case mapr (\<lambda>y. stored_cell rt (cv_kind v) (g y)) ys of
      Inl e \<Rightarrow> append_values rt f ys v = Inl e
    | Inr zs \<Rightarrow> \<exists>w. append_values rt f ys v = Inr w \<and> vec_holds w (xs @ zs) \<and> cv_kind w = cv_kind v"
  using assms
proof (induction ys arbitrary: v xs)
  case (Cons y ys)
  have one: "length xs < room v" "f y = Inr (g y)" using Cons.prems(2,3) by simp_all
  note step = vec_append_stored [OF Cons.prems(1) one(1), of rt "g y"]
  show ?case
  proof (cases "stored_cell rt (cv_kind v) (g y)")
    case (Inl e)
    then show ?thesis using step one(2) by simp
  next
    case (Inr z)
    then obtain w where w: "vec_append rt v (g y) = Inr w" "vec_holds w (xs @ [z])" "room w = room v" "cv_kind w = cv_kind v"
      using step by auto
    have "length (xs @ [z]) + length ys \<le> room w" "\<forall>y \<in> set ys. f y = Inr (g y)" using Cons.prems(2,3) w(3) by simp_all
    from Cons.IH [OF w(2) this] show ?thesis
      using w(1,4) one(2) Inr by (auto split: sum.splits)
  qed
qed simp

lemma column_sample_find:
  assumes "\<forall>row \<in> set rows. j < length row"
  shows "column_sample j rows = Inr (List.find (\<lambda>v. \<not> null_like v) (map (\<lambda>row. row ! j) rows))"
  using assms by (induction rows) simp_all

lemma mapr_stored_fits:
  "mapr (\<lambda>row. stored_cell rt k (row ! j)) rows = Inr col \<Longrightarrow> x \<in> set col \<Longrightarrow> x = VNull \<or> fits_kind k x"
  by (induction rows arbitrary: col) (auto simp: bindr_Inr_iff dest: stored_cell_fits)

lemma build_column_stored:
  assumes "\<forall>row \<in> set rows. j < length row"
  shows "case stored_column rt rows j of
      Inl e \<Rightarrow> build_column rt rows j = Inl e
    | Inr col \<Rightarrow> \<exists>v. build_column rt rows j = Inr v \<and> vec_holds v col \<and>
        (\<forall>x \<in> set col. x = VNull \<or> fits_kind (cv_kind v) x)"
proof -
  let ?new = "vector_new (column_kind rows j) (max (length rows) VECTOR_SIZE)"
  have "\<forall>row \<in> set rows. py_get row (int j) = Inr (row ! j)" using assms by simp
  then have "case stored_column rt rows j of
      Inl e \<Rightarrow> append_values rt (\<lambda>row. py_get row (int j)) rows ?new = Inl e
    | Inr zs \<Rightarrow> \<exists>w. append_values rt (\<lambda>row. py_get row (int j)) rows ?new = Inr w \<and> vec_holds w zs \<and>
        cv_kind w = column_kind rows j"
    using append_values_stored [OF vec_holds_new(1), of rows "column_kind rows j" "max (length rows) VECTOR_SIZE"
        "\<lambda>row. py_get row (int j)" "\<lambda>row. row ! j" rt]
    by (auto simp: vec_holds_new stored_column_def split: sum.splits)
  moreover have "\<forall>x \<in> set col. x = VNull \<or> fits_kind (column_kind rows j) x" if "stored_column rt rows j = Inr col" for col
    using mapr_stored_fits that unfolding stored_column_def by blast
  ultimately show ?thesis
    using column_sample_find [OF assms] by (auto simp: build_column_def column_kind_def split: sum.splits)
qed

lemma mapr_simulates:
  assumes "\<And>x. x \<in> set xs \<Longrightarrow> case g x of Inl e \<Rightarrow> f x = Inl e | Inr y \<Rightarrow> \<exists>z. f x = Inr z \<and> P y z"
  shows "case mapr g xs of Inl e \<Rightarrow> mapr f xs = Inl e | Inr ys \<Rightarrow> \<exists>zs. mapr f xs = Inr zs \<and> list_all2 P ys zs"
  using assms
proof (induction xs)
  case (Cons x xs)
  have one: "case g x of Inl e \<Rightarrow> f x = Inl e | Inr y \<Rightarrow> \<exists>z. f x = Inr z \<and> P y z" using Cons.prems by simp
  have rest: "case mapr g xs of Inl e \<Rightarrow> mapr f xs = Inl e | Inr ys \<Rightarrow> \<exists>zs. mapr f xs = Inr zs \<and> list_all2 P ys zs"
    using Cons by simp
  show ?case
    using one rest by (cases "g x"; cases "mapr g xs") auto
qed simp

lemma stored_column_length: "stored_column rt rows j = Inr col \<Longrightarrow> length col = length rows"
  unfolding stored_column_def using mapr_length by blast

lemma from_rows_stored:
  assumes "\<forall>row \<in> set rows. length row = length schema" "rows \<noteq> []"
  shows "case stored_rows rt schema rows of
      Inl e \<Rightarrow> from_rows rt schema rows = Inl e
    | Inr rs \<Rightarrow> \<exists>b. from_rows rt schema rows = Inr b \<and> rb_schema b = schema \<and> batch_holds b rs"
proof -
  define P where "P col v = (length col = length rows \<and> vec_holds v col \<and>
    (\<forall>x \<in> set col. x = VNull \<or> fits_kind (cv_kind v) x))" for col v
  have "case stored_column rt rows j of Inl e \<Rightarrow> build_column rt rows j = Inl e
      | Inr col \<Rightarrow> \<exists>v. build_column rt rows j = Inr v \<and> P col v" if "j \<in> set [0..<length schema]" for j
    using build_column_stored [of rows j rt] assms(1) that stored_column_length [of rt rows j]
    by (auto simp: P_def split: sum.splits)
  then have cols: "case mapr (stored_column rt rows) [0..<length schema] of
      Inl e \<Rightarrow> mapr (build_column rt rows) [0..<length schema] = Inl e
    | Inr cs \<Rightarrow> \<exists>vs. mapr (build_column rt rows) [0..<length schema] = Inr vs \<and> list_all2 P cs vs"
    by (rule mapr_simulates)
  show ?thesis
  proof (cases "mapr (stored_column rt rows) [0..<length schema]")
    case (Inl e)
    then show ?thesis using cols assms(2) by (simp add: stored_rows_def from_rows_def)
  next
    case (Inr cs)
    then obtain vs where vs: "mapr (build_column rt rows) [0..<length schema] = Inr vs" "list_all2 P cs vs"
      using cols by auto
    let ?b = "\<lparr>rb_schema = schema, rb_vectors = vs, rb_num_rows = length rows\<rparr>"
    let ?rs = "map (\<lambda>i. map (\<lambda>col. col ! i) cs) [0..<length rows]"
    have len: "length cs = length schema" "length vs = length schema"
      using mapr_length [OF Inr] list_all2_lengthD [OF vs(2)] by simp_all
    have "vec_holds (vs ! j) (map (\<lambda>row. row ! j) ?rs) \<and>
        (\<forall>row \<in> set ?rs. row ! j = VNull \<or> fits_kind (cv_kind (vs ! j)) (row ! j))" if "j < length schema" for j
    proof -
      have p: "P (cs ! j) (vs ! j)" using list_all2_nthD [OF vs(2)] that len by simp
      then have "map (\<lambda>row. row ! j) ?rs = cs ! j"
        using that len by (intro nth_equalityI) (simp_all add: P_def)
      moreover have "\<forall>row \<in> set ?rs. row ! j \<in> set (cs ! j)" using p that len by (auto simp: P_def)
      ultimately show ?thesis using p by (simp add: P_def)
    qed
    then have "batch_holds ?b ?rs" using len by (simp add: batch_holds_def)
    then show ?thesis using Inr vs(1) assms(2) by (simp add: stored_rows_def from_rows_def)
  qed
qed

lemma stored_typed:
  assumes "typed_rows schema rows"
  shows "stored_rows rt schema rows = Inr (map (map clean) rows)"
proof -
  have len: "\<forall>row \<in> set rows. length row = length schema" using assms by (simp add: typed_rows_def)
  have "stored_column rt rows j = Inr (map (\<lambda>row. clean (row ! j)) rows)" if j: "j < length schema" for j
  proof -
    obtain k where k: "\<forall>row \<in> set rows. null_like (row ! j) \<or> fits_kind k (row ! j)"
      using assms j unfolding typed_rows_def by blast
    have "\<forall>row \<in> set rows. j < length row" using len j by simp
    from column_sample_kind [OF this k] column_sample_find [OF this]
    have "\<forall>row \<in> set rows. null_like (row ! j) \<or> fits_kind (column_kind rows j) (row ! j)"
      by (auto simp: column_kind_def)
    then show ?thesis
      unfolding stored_column_def by (intro mapr_each) (auto simp: stored_cell_def clean_def to_kind_fits)
  qed
  then have "mapr (stored_column rt rows) [0..<length schema] = Inr (map (\<lambda>j. map (\<lambda>row. clean (row ! j)) rows) [0..<length schema])"
    by (intro mapr_each) simp
  moreover have "map (\<lambda>j. map (\<lambda>row. clean (row ! j)) rows ! i) [0..<length schema] = map clean (rows ! i)"
    if "i < length rows" for i
    using that len by (intro nth_equalityI) simp_all
  ultimately show ?thesis
    by (auto simp: stored_rows_def comp_def intro: nth_equalityI)
qed

section \<open>Predicates\<close>

lemma matching_cong: "(\<And>i. i \<in> set is \<Longrightarrow> f i = g i) \<Longrightarrow> matching f is = matching g is"
  by (induction "is") auto

text \<open>The indices of the rows of a list that satisfy a predicate.\<close>

definition matching_rows :: "(pyval list \<Rightarrow> bool result) \<Rightarrow> pyval list list \<Rightarrow> nat list result" where
  "matching_rows p rows = matching (\<lambda>i. p (rows ! i)) [0..<length rows]"

lemma batch_row_held:
  assumes "batch_holds b rows" "i < length rows"
  shows "batch_row b i = Inr (row_dict (rb_schema b) (rows ! i))"
proof -
  have "length (rb_vectors b) = length (rb_schema b)" using assms(1) by (simp add: batch_holds_def)
  then have "mapr (\<lambda>c. bindr (py_get (rb_vectors b) (int c)) (\<lambda>v. vec_get v i)) [0..<length (rb_schema b)] =
      Inr (map (\<lambda>j. rows ! i ! j) [0..<length (rb_schema b)])"
    using batch_cell [OF assms] by (intro mapr_each) simp
  then show ?thesis using batch_cells [OF assms] by (simp add: batch_row_def)
qed

lemma row_by_row_held:
  assumes "batch_holds b rows"
  shows "row_by_row e b = matching_rows (\<lambda>row. scalar_holds (row_dict (rb_schema b) row) e) rows"
proof -
  have "rb_num_rows b = length rows" using assms by (simp add: batch_holds_def)
  then show ?thesis
    unfolding row_by_row_def matching_rows_def
    by (auto simp: batch_row_held [OF assms] intro: matching_cong)
qed

lemma index_of_found: "c \<in> set cs \<Longrightarrow> \<exists>j. index_of c cs = Inr j \<and> j < length cs \<and> cs ! j = c"
  by (induction cs) auto

lemma int_column_gt:
  assumes "batch_holds b rows" "distinct (rb_schema b)" "j < length (rb_schema b)" "is_int v"
  shows "vec_gt (rb_vectors b ! j) v =
    matching_rows (\<lambda>row. scalar_holds (row_dict (rb_schema b) row)
      (BinaryOp OP_GT (ColumnRef (rb_schema b ! j) tab) (Literal v ty))) rows"
proof -
  let ?vec = "rb_vectors b ! j" and ?xs = "map (\<lambda>row. row ! j) rows"
  have h: "vec_holds ?vec ?xs" using assms(1,3) by (simp add: batch_holds_def)
  have v: "v \<noteq> VNull" using assms(4) by (cases v) auto
  have "bindr (is_null ?vec i) (\<lambda>b. if b then Inr False
        else if i < length (cv_data ?vec) then py_lt v (cv_data ?vec ! i) else Inl IndexError) =
      scalar_holds (row_dict (rb_schema b) (rows ! i)) (BinaryOp OP_GT (ColumnRef (rb_schema b ! j) tab) (Literal v ty))"
    if "i \<in> set [0..<length rows]" for i
  proof -
    have i: "i < length rows" using that by simp
    have "length (rows ! i) = length (rb_schema b)" using assms(1) i by (simp add: batch_holds_def)
    then have "assoc_get (rb_schema b ! j) (row_dict (rb_schema b) (rows ! i)) = Some (rows ! i ! j)"
      using row_dict_distinct [OF assms(2) _ assms(3)] by simp
    moreover have "i < 8 * length (cv_mask ?vec)" "i < length (cv_data ?vec)"
      "null_at ?vec i = (rows ! i ! j = VNull)" "rows ! i ! j \<noteq> VNull \<Longrightarrow> cv_data ?vec ! i = rows ! i ! j"
      using h i by (auto simp: vec_holds_def room_def)
    ultimately show ?thesis
      using v by (simp add: is_null_at is_null_value_def)
  qed
  moreover have "cv_length ?vec = length rows" using h by (simp add: vec_holds_def)
  ultimately show ?thesis
    unfolding vec_gt_def matching_rows_def by (auto intro: matching_cong)
qed

lemma int_column_eq:
  assumes "batch_holds b rows" "distinct (rb_schema b)" "j < length (rb_schema b)" "is_int v"
  shows "matching (\<lambda>i. bindr (vec_get (rb_vectors b ! j) i) (\<lambda>x. Inr (py_eq x v))) [0..<rb_num_rows b] =
    matching_rows (\<lambda>row. scalar_holds (row_dict (rb_schema b) row)
      (BinaryOp OP_EQ (ColumnRef (rb_schema b ! j) tab) (Literal v ty))) rows"
proof -
  have v: "v \<noteq> VNull" using assms(4) by (cases v) auto
  have "bindr (vec_get (rb_vectors b ! j) i) (\<lambda>x. Inr (py_eq x v)) =
      scalar_holds (row_dict (rb_schema b) (rows ! i)) (BinaryOp OP_EQ (ColumnRef (rb_schema b ! j) tab) (Literal v ty))"
    if "i \<in> set [0..<length rows]" for i
  proof -
    have i: "i < length rows" using that by simp
    have "length (rows ! i) = length (rb_schema b)" using assms(1) i by (simp add: batch_holds_def)
    then have "assoc_get (rb_schema b ! j) (row_dict (rb_schema b) (rows ! i)) = Some (rows ! i ! j)"
      using row_dict_distinct [OF assms(2) _ assms(3)] by simp
    then show ?thesis
      using v batch_cell [OF assms(1) i assms(3)] by (simp add: is_null_value_def Let_def)
  qed
  moreover have "rb_num_rows b = length rows" using assms(1) by (simp add: batch_holds_def)
  ultimately show ?thesis
    unfolding matching_rows_def by (auto intro: matching_cong)
qed

lemma fast_path_held:
  assumes "batch_holds b rows" "distinct (rb_schema b)"
  shows "vector_predicate e b = row_by_row e b \<and>
    row_by_row e b = matching_rows (\<lambda>row. scalar_holds (row_dict (rb_schema b) row) e) rows"
proof -
  have "fast_path e b = Inr None \<or> fast_path e b = bindr (row_by_row e b) (\<lambda>is. Inr (Some is))"
  proof (cases "\<exists>op c tab v ty. e = BinaryOp op (ColumnRef c tab) (Literal v ty) \<and> c \<in> set (rb_schema b)")
    case True
    then obtain op c tab v ty where e: "e = BinaryOp op (ColumnRef c tab) (Literal v ty)" "c \<in> set (rb_schema b)"
      by blast
    obtain j where j: "index_of c (rb_schema b) = Inr j" "j < length (rb_schema b)" "rb_schema b ! j = c"
      using index_of_found [OF e(2)] by blast
    have n: "length (rb_vectors b) = length (rb_schema b)" using assms(1) by (simp add: batch_holds_def)
    show ?thesis
      using e j n int_column_gt [OF assms j(2), of v tab ty] int_column_eq [OF assms j(2), of v tab ty]
        row_by_row_held [OF assms(1), of e]
      by auto
  next
    case False
    then show ?thesis
      by (cases "(e, b)" rule: fast_path.cases) auto
  qed
  then show ?thesis
    using row_by_row_held [OF assms(1)] by (auto simp: vector_predicate_def bindr_def split: sum.splits)
qed

text \<open>
  C25: the vectorized comparison is only an optimisation: on a batch that holds rows with distinct
  column names, the loops over an integer column select exactly the rows, in order and with the
  same errors, that the row-by-row evaluation of the predicate selects.
\<close>

theorem fast_path_is_row_by_row:
  assumes "batch_holds b rows" "distinct (rb_schema b)"
  shows "vector_predicate e b = row_by_row e b \<and>
    row_by_row e b = matching_rows (\<lambda>row. scalar_holds (row_dict (rb_schema b) row) e) rows"
  by (rule fast_path_held [OF assms])

text \<open>
  A conjunction of comparisons selects nothing: the engine evaluates the operands of
  \<^verbatim>\<open>AND\<close> as values, an operand that is itself an operator is \<^verbatim>\<open>NULL\<close>,
  and a \<^verbatim>\<open>NULL\<close> operand makes the row fail.
\<close>

theorem conjunction_selects_nothing:
  assumes "batch_holds b rows"
  shows "vector_predicate (BinaryOp OP_AND (BinaryOp o1 a c) (BinaryOp o2 d e)) b = Inr []"
proof -
  have none: "matching (\<lambda>i. Inr False) is = Inr []" for "is" by (induction "is") auto
  show ?thesis
    by (simp add: vector_predicate_def row_by_row_held [OF assms] matching_rows_def is_null_value_def none)
qed

section \<open>Streams of batches\<close>

text \<open>What a stream produces from a cursor on: its batches, and the error it ends with, if any.\<close>

inductive produces :: "batch_stream \<Rightarrow> nat \<Rightarrow> record_batch list \<Rightarrow> pyerr option \<Rightarrow> bool" for "next" where
  produces_end: "next cur = Some (c, Inr None) \<Longrightarrow> produces next cur [] None"
| produces_error: "next cur = Some (c, Inl e) \<Longrightarrow> produces next cur [] (Some e)"
| produces_batch: "next cur = Some (c, Inr (Some b)) \<Longrightarrow> produces next c bs e \<Longrightarrow> produces next cur (b # bs) e"

inductive_cases produces_cases: "produces next cur bs e"

lemma produces_same_step: "produces next c bs e \<Longrightarrow> next cur = next c \<Longrightarrow> produces next cur bs e"
  by (erule produces_cases) (auto intro: produces.intros)

fun selected :: "(record_batch \<Rightarrow> record_batch option result) \<Rightarrow> record_batch list \<Rightarrow> pyerr option \<Rightarrow>
  record_batch list \<times> pyerr option" where
  "selected sel [] e = ([], e)"
| "selected sel (b # bs) e =
     (case sel b of
        Inl e1 \<Rightarrow> ([], Some e1)
      | Inr None \<Rightarrow> selected sel bs e
      | Inr (Some c) \<Rightarrow> (c # fst (selected sel bs e), snd (selected sel bs e)))"

lemma filter_produces:
  "produces next cur bs e \<Longrightarrow>
   produces (filter_batches next sel) cur (fst (selected sel bs e)) (snd (selected sel bs e))"
proof (induction rule: produces.induct)
  case (produces_batch cur c b bs e)
  have step: "filter_batches next sel cur = (case sel b of Inl e \<Rightarrow> Some (c, Inl e)
      | Inr None \<Rightarrow> filter_batches next sel c | Inr (Some d) \<Rightarrow> Some (c, Inr (Some d)))"
    using produces_batch.hyps(1) by (subst filter_batches.simps) simp
  show ?case
  proof (cases "sel b")
    case (Inl e1)
    then show ?thesis using step by (auto intro: produces.intros)
  next
    case (Inr r)
    then show ?thesis
      using step produces_batch.IH by (cases r) (auto intro: produces.intros produces_same_step)
  qed
qed (auto intro: produces.intros simp: filter_batches.simps)

lemma project_produces:
  "produces next cur bs e \<Longrightarrow> list_all2 (\<lambda>b d. project_batch cs b = Inr d) bs ds \<Longrightarrow>
   produces (project_batches next cs) cur ds e"
proof (induction arbitrary: ds rule: produces.induct)
  case (produces_batch cur c b bs e)
  then obtain d ds' where "ds = d # ds'" "project_batch cs b = Inr d" "list_all2 (\<lambda>b d. project_batch cs b = Inr d) bs ds'"
    by (auto simp: list_all2_Cons1)
  then show ?case
    using produces_batch by (auto intro!: produces.intros(3) simp: project_batches_def)
qed (auto intro: produces.intros simp: project_batches_def)

lemma drain_produces:
  "produces next cur bs e \<Longrightarrow> list_all2 batch_holds bs rss \<Longrightarrow>
   drain next cur acc = Some (case e of None \<Rightarrow> Inr (acc @ concat rss) | Some x \<Rightarrow> Inl x)"
proof (induction arbitrary: acc rss rule: produces.induct)
  case (produces_batch cur c b bs e)
  then obtain rs rss' where "rss = rs # rss'" "batch_holds b rs" "list_all2 batch_holds bs rss'"
    by (auto simp: list_all2_Cons1)
  then show ?case
    using produces_batch to_rows_held by (subst drain.simps) (simp split: option.split)
qed (simp_all add: drain.simps)

section \<open>The pipeline\<close>

text \<open>The rows of a table cut into batches.\<close>

function chunks :: "'a list \<Rightarrow> 'a list list" where
  "chunks xs = (if xs = [] then [] else take VECTOR_SIZE xs # chunks (drop VECTOR_SIZE xs))"
  by auto
termination
  by (relation "measure length") (auto simp: VECTOR_SIZE_def)

declare chunks.simps [simp del]

lemma concat_chunks: "concat (chunks xs) = xs"
proof (induction xs rule: chunks.induct)
  case (1 xs)
  then show ?case by (subst chunks.simps) simp
qed

definition batch_of :: "string list \<Rightarrow> record_batch \<Rightarrow> pyval list list \<Rightarrow> bool" where
  "batch_of schema b rows = (rb_schema b = schema \<and> batch_holds b rows)"

text \<open>The rows of the batches that are built, and the exception that building one raises.\<close>

fun stored_chunks ::
  "sql_runtime \<Rightarrow> string list \<Rightarrow> pyval list list list \<Rightarrow> pyval list list list \<times> pyerr option"
where
  "stored_chunks rt schema [] = ([], None)"
| "stored_chunks rt schema (c # cs) =
     (case stored_rows rt schema c of
        Inl e \<Rightarrow> ([], Some e)
      | Inr rs \<Rightarrow> (case stored_chunks rt schema cs of (rss, err) \<Rightarrow> (rs # rss, err)))"

lemma typed_rows_part: "typed_rows schema rows \<Longrightarrow> set part \<subseteq> set rows \<Longrightarrow> typed_rows schema part"
  unfolding typed_rows_def by (meson subset_iff)

lemma stored_chunks_typed:
  "\<forall>c \<in> set cs. typed_rows schema c \<Longrightarrow> stored_chunks rt schema cs = (map (map (map clean)) cs, None)"
  by (induction cs) (simp_all add: stored_typed)

lemma chunks_part: "c \<in> set (chunks xs) \<Longrightarrow> set c \<subseteq> set xs"
  using concat_chunks [of xs] by (metis UN_upper set_concat)

lemma scan_produces:
  assumes "\<forall>row \<in> set rows. length row = length schema" "cur \<le> length rows"
    and "stored_chunks rt schema (chunks (drop cur rows)) = (rss, err)"
  shows "\<exists>bs. produces (scan_batch rt schema rows) cur bs err \<and> list_all2 (batch_of schema) bs rss"
  using assms(2,3)
proof (induction "length rows - cur" arbitrary: cur rss rule: less_induct)
  case less
  show ?case
  proof (cases "cur = length rows")
    case True
    then show ?thesis
      using less.prems(2) by (intro exI [of _ "[]"]) (auto simp: chunks.simps scan_batch_def intro: produces_end)
  next
    case False
    let ?part = "take VECTOR_SIZE (drop cur rows)" and ?stop = "min (cur + VECTOR_SIZE) (length rows)"
    have lt: "cur < length rows" "?part \<noteq> []" "cur < ?stop"
      using less.prems(1) False by (auto simp: VECTOR_SIZE_def)
    have cut: "take (?stop - cur) (drop cur rows) = ?part"
      by (cases "cur + VECTOR_SIZE \<le> length rows") (simp_all add: min_def)
    have "set ?part \<subseteq> set rows" by (meson order_trans set_drop_subset set_take_subset)
    then have "\<forall>row \<in> set ?part. length row = length schema" using assms(1) by blast
    note built = from_rows_stored [OF this lt(2), of rt]
    have "drop ?stop rows = drop VECTOR_SIZE (drop cur rows)"
      by (cases "cur + VECTOR_SIZE \<le> length rows") (simp_all add: min_def add.commute)
    then have cs: "chunks (drop cur rows) = ?part # chunks (drop ?stop rows)"
      using lt(1) by (subst chunks.simps) simp
    have step: "scan_batch rt schema rows cur = Some (?stop, bindr (from_rows rt schema ?part) (\<lambda>b. Inr (Some b)))"
      using lt(1) cut by (simp add: scan_batch_def Let_def)
    show ?thesis
    proof (cases "stored_rows rt schema ?part")
      case (Inl e)
      then have "scan_batch rt schema rows cur = Some (?stop, Inl e)" "rss = []" "err = Some e"
        using step built less.prems(2) cs by simp_all
      then show ?thesis using produces_error [of "scan_batch rt schema rows"] by auto
    next
      case (Inr rs)
      obtain rss1 where rss: "rss = rs # rss1" "stored_chunks rt schema (chunks (drop ?stop rows)) = (rss1, err)"
        using less.prems(2) Inr by (auto simp: cs split: prod.splits)
      obtain b where b: "from_rows rt schema ?part = Inr b" "batch_of schema b rs"
        using built Inr by (auto simp: batch_of_def)
      have shorter: "length rows - ?stop < length rows - cur" "?stop \<le> length rows"
        using lt(1,3) by linarith+
      obtain bs where bs: "produces (scan_batch rt schema rows) ?stop bs err" "list_all2 (batch_of schema) bs rss1"
        using less.hyps [OF shorter(1,2) rss(2)] by blast
      have "produces (scan_batch rt schema rows) cur (b # bs) err"
        using step b(1) bs(1) by (intro produces_batch) simp_all
      then show ?thesis using b(2) bs(2) rss(1) by (intro exI [of _ "b # bs"]) simp
    qed
  qed
qed

fun filter_result :: "('a \<Rightarrow> bool result) \<Rightarrow> 'a list \<Rightarrow> 'a list result" where
  "filter_result p [] = Inr []"
| "filter_result p (x # xs) =
     bindr (p x) (\<lambda>b. bindr (filter_result p xs) (\<lambda>ys. Inr (if b then x # ys else ys)))"

lemma filter_result_append:
  "filter_result p (xs @ ys) = bindr (filter_result p xs) (\<lambda>as. bindr (filter_result p ys) (\<lambda>bs. Inr (as @ bs)))"
  by (induction xs) (auto simp: bindr_def split: sum.split)

lemma matching_filter:
  "filter_result p (map f is) = bindr (matching (\<lambda>i. p (f i)) is) (\<lambda>js. Inr (map f js))"
  by (induction "is") (auto simp: bindr_def split: sum.split)

lemma matching_subset: "matching p is = Inr js \<Longrightarrow> set js \<subseteq> set is"
  by (induction "is" arbitrary: js) (auto simp: bindr_Inr_iff split: if_splits)

lemma filter_by_selection_held:
  assumes "batch_of schema b rows" "\<forall>i \<in> set is. i < length rows"
  shows "\<exists>c. filter_by_selection rt b is = Inr c \<and> batch_of schema c (map ((!) rows) is)"
proof -
  have b: "rb_schema b = schema" "length (rb_vectors b) = length schema"
    "\<forall>row \<in> set rows. length row = length schema"
    "\<And>j. j < length schema \<Longrightarrow> vec_holds (rb_vectors b ! j) (map (\<lambda>row. row ! j) rows) \<and>
       (\<forall>row \<in> set rows. row ! j = VNull \<or> fits_kind (cv_kind (rb_vectors b ! j)) (row ! j))"
    using assms(1) by (auto simp: batch_of_def batch_holds_def)
  have one: "\<exists>w. vec_slice rt (rb_vectors b ! j) is = Inr w \<and>
      vec_holds w (map (\<lambda>i. rows ! i ! j) is) \<and> cv_kind w = cv_kind (rb_vectors b ! j)" if "j < length schema" for j
  proof -
    have vals: "map ((!) (map (\<lambda>row. row ! j) rows)) is = map (\<lambda>i. rows ! i ! j) is" using assms(2) by simp
    show ?thesis
      by (rule vec_slice_held [of "rb_vectors b ! j" "map (\<lambda>row. row ! j) rows" "is" rt, unfolded vals])
        (use b(4) [OF that] assms(2) in auto)
  qed
  define P where "P v w = (\<exists>j < length schema. v = rb_vectors b ! j \<and> vec_slice rt v is = Inr w)" for v w
  have "\<forall>v \<in> set (rb_vectors b). \<exists>w. vec_slice rt v is = Inr w \<and> P v w"
    using one b(2) by (fastforce simp: P_def in_set_conv_nth)
  from mapr_some [OF this] obtain vs where vs: "mapr (\<lambda>v. vec_slice rt v is) (rb_vectors b) = Inr vs"
    "list_all2 P (rb_vectors b) vs" by blast
  have len: "length vs = length schema" using list_all2_lengthD [OF vs(2)] b(2) by simp
  have nth: "vec_slice rt (rb_vectors b ! j) is = Inr (vs ! j)" if "j < length schema" for j
    using list_all2_nthD [OF vs(2), of j] that b(2) by (auto simp: P_def)
  let ?c = "b\<lparr>rb_vectors := vs, rb_num_rows := length is\<rparr>"
  have "vec_holds (vs ! j) (map (\<lambda>row. row ! j) (map ((!) rows) is)) \<and>
      (\<forall>row \<in> set (map ((!) rows) is). row ! j = VNull \<or> fits_kind (cv_kind (vs ! j)) (row ! j))"
    if "j < length schema" for j
    using one [OF that] nth [OF that] b(4) [OF that] assms(2) by (auto simp: comp_def)
  then have "batch_of schema ?c (map ((!) rows) is)"
    using b(1,3) assms(2) len by (simp add: batch_of_def batch_holds_def)
  then show ?thesis using vs(1) by (auto simp: filter_by_selection_def)
qed

lemma select_batch_held:
  assumes "batch_of schema b rows" "distinct schema"
  shows "case filter_result (\<lambda>row. scalar_holds (row_dict schema row) e) rows of
      Inl x \<Rightarrow> select_batch rt e b = Inl x
    | Inr hits \<Rightarrow> hits = [] \<and> select_batch rt e b = Inr None \<or>
        (\<exists>c. select_batch rt e b = Inr (Some c) \<and> batch_of schema c hits)"
proof -
  let ?p = "\<lambda>row. scalar_holds (row_dict schema row) e"
  have b: "batch_holds b rows" "rb_schema b = schema" "rb_num_rows b = length rows"
    using assms(1) by (auto simp: batch_of_def batch_holds_def)
  have sel: "vector_predicate e b = matching (\<lambda>i. ?p (rows ! i)) [0..<length rows]"
    using fast_path_held [OF b(1)] assms(2) b(2) by (simp add: matching_rows_def)
  have fr: "filter_result ?p rows = bindr (matching (\<lambda>i. ?p (rows ! i)) [0..<length rows]) (\<lambda>js. Inr (map ((!) rows) js))"
    using matching_filter [of ?p "(!) rows" "[0..<length rows]"] by (simp add: map_nth)
  show ?thesis
  proof (cases "matching (\<lambda>i. ?p (rows ! i)) [0..<length rows]")
    case (Inl x)
    then show ?thesis using sel fr b(3) by (cases rows) (auto simp: select_batch_def)
  next
    case (Inr js)
    then have "\<forall>i \<in> set js. i < length rows" using matching_subset [OF Inr] by auto
    then obtain c where "filter_by_selection rt b js = Inr c" "batch_of schema c (map ((!) rows) js)"
      using filter_by_selection_held [OF assms(1)] by blast
    moreover have "rows = [] \<Longrightarrow> js = []" using Inr by simp
    ultimately show ?thesis using Inr sel fr b(3) by (auto simp: select_batch_def)
  qed
qed

lemma selected_held:
  assumes "list_all2 (batch_of schema) bs rss" "distinct schema"
  shows "\<exists>hss. list_all2 (batch_of schema) (fst (selected (select_batch rt e) bs err)) hss \<and>
    (case filter_result (\<lambda>row. scalar_holds (row_dict schema row) e) (concat rss) of
       Inl x \<Rightarrow> snd (selected (select_batch rt e) bs err) = Some x
     | Inr hits \<Rightarrow> snd (selected (select_batch rt e) bs err) = err \<and> concat hss = hits)"
  using assms(1)
proof (induction bs rss rule: list_all2_induct)
  case Nil
  then show ?case by auto
next
  case (Cons b bs rows rss)
  let ?fr = "filter_result (\<lambda>row. scalar_holds (row_dict schema row) e)"
  note one = select_batch_held [where rt = rt and e = e, OF Cons.hyps(1) assms(2)]
  show ?case
  proof (cases "?fr rows")
    case (Inl x)
    then show ?thesis using one by (auto simp: filter_result_append)
  next
    case (Inr hits)
    obtain hss where hss: "list_all2 (batch_of schema) (fst (selected (select_batch rt e) bs err)) hss"
      "case ?fr (concat rss) of
         Inl x \<Rightarrow> snd (selected (select_batch rt e) bs err) = Some x
       | Inr hits \<Rightarrow> snd (selected (select_batch rt e) bs err) = err \<and> concat hss = hits"
      using Cons.IH by blast
    consider "hits = []" "select_batch rt e b = Inr None"
      | c where "select_batch rt e b = Inr (Some c)" "batch_of schema c hits"
      using one Inr by auto
    then show ?thesis
    proof cases
      case 1
      then show ?thesis
        using Inr hss by (intro exI [of _ hss]) (auto simp: filter_result_append split: sum.splits)
    next
      case 2
      then show ?thesis
        using Inr hss by (intro exI [of _ "hits # hss"]) (auto simp: filter_result_append split: sum.splits)
    qed
  qed
qed

definition project_values :: "string list \<Rightarrow> string list \<Rightarrow> pyval list \<Rightarrow> pyval list" where
  "project_values schema cs row =
     map (\<lambda>c. row ! projr (index_of c schema)) (filter (\<lambda>c. c \<in> set schema) cs)"

lemma project_columns_held:
  assumes "length (rb_vectors b) = length (rb_schema b)"
  shows "project_columns b cs = Inr (map (\<lambda>c. (c, rb_vectors b ! projr (index_of c (rb_schema b))))
    (filter (\<lambda>c. c \<in> set (rb_schema b)) cs))"
proof (induction cs)
  case (Cons c cs)
  then show ?case using index_of_found [of c "rb_schema b"] assms by auto
qed simp

lemma project_batch_held:
  assumes "batch_of schema b rows"
  shows "\<exists>d. project_batch cs b = Inr d \<and> batch_holds d (map (project_values schema cs) rows)"
proof -
  let ?cs = "filter (\<lambda>c. c \<in> set schema) cs"
  let ?cvs = "map (\<lambda>c. (c, rb_vectors b ! projr (index_of c schema))) ?cs"
  let ?d = "\<lparr>rb_schema = map fst ?cvs, rb_vectors = map snd ?cvs, rb_num_rows = rb_num_rows b\<rparr>"
  have b: "rb_schema b = schema" "rb_num_rows b = length rows" "length (rb_vectors b) = length schema"
    "\<And>j. j < length schema \<Longrightarrow> vec_holds (rb_vectors b ! j) (map (\<lambda>row. row ! j) rows) \<and>
       (\<forall>row \<in> set rows. row ! j = VNull \<or> fits_kind (cv_kind (rb_vectors b ! j)) (row ! j))"
    using assms by (auto simp: batch_of_def batch_holds_def)
  have "vec_holds (snd (?cvs ! k)) (map (\<lambda>row. row ! k) (map (project_values schema cs) rows)) \<and>
      (\<forall>row \<in> set (map (project_values schema cs) rows). row ! k = VNull \<or> fits_kind (cv_kind (snd (?cvs ! k))) (row ! k))"
    if "k < length ?cs" for k
  proof -
    have "?cs ! k \<in> set ?cs" using that by (rule nth_mem)
    then have "?cs ! k \<in> set schema" by simp
    then obtain j where j: "index_of (?cs ! k) schema = Inr j" "j < length schema"
      using index_of_found by blast
    have "map (\<lambda>row. row ! k) (map (project_values schema cs) rows) = map (\<lambda>row. row ! j) rows"
      using that j(1) by (simp add: project_values_def)
    moreover have "\<forall>row \<in> set (map (project_values schema cs) rows). \<exists>row' \<in> set rows. row ! k = row' ! j"
      using that j(1) by (auto simp: project_values_def)
    moreover have "snd (?cvs ! k) = rb_vectors b ! j" using that j(1) by simp
    ultimately show ?thesis using b(4) [OF j(2)] by metis
  qed
  then have "batch_holds ?d (map (project_values schema cs) rows)"
    using b(2) by (simp add: batch_holds_def project_values_def)
  moreover have "project_batch cs b = Inr ?d"
    using project_columns_held [of b cs] b(1,3) by (simp add: project_batch_def comp_def)
  ultimately show ?thesis by blast
qed

text \<open>
  C6: the vectorized pipeline returns, and its answer is a filter and a projection of the rows as
  the batches store them: those the engine's test on rows, \<open>scalar_holds\<close>, selects, in their
  order, cut to the selected columns that exist.  It raises what the test or the building of a batch
  raises first.  The column names are distinct and the rows have their length.  A batch of 2048 rows
  stores a column as integers, floats or text, by its first value that is not missing, and converts
  the others to it; so a column of booleans comes back as text.  When every column holds integers,
  floats or strings throughout, or missing values, the rows are stored as they are, with missing
  values as \<^verbatim>\<open>NULL\<close>, nothing raises but the test, and batching shows nowhere.
\<close>

theorem pipeline_filters_and_projects:
  assumes "\<forall>row \<in> set rows. length row = length schema" "distinct schema"
    and "stored_chunks rt schema (chunks rows) = (rss, err)"
  shows "execute_pipeline rt schema rows predicate select_cols = Some
    (bindr (case predicate of
              None \<Rightarrow> Inr (concat rss)
            | Some e \<Rightarrow> filter_result (\<lambda>row. scalar_holds (row_dict schema row) e) (concat rss))
       (\<lambda>hits. case err of Some x \<Rightarrow> Inl x | None \<Rightarrow> Inr (case select_cols of
          Some (c # cs) \<Rightarrow> map (project_values schema (c # cs)) hits | _ \<Rightarrow> hits))) \<and>
    (typed_rows schema rows \<longrightarrow> concat rss = map (map clean) rows \<and> err = None)"
proof
  show "typed_rows schema rows \<longrightarrow> concat rss = map (map clean) rows \<and> err = None"
  proof
    assume "typed_rows schema rows"
    then have "stored_chunks rt schema (chunks rows) = (map (map (map clean)) (chunks rows), None)"
      using typed_rows_part chunks_part by (intro stored_chunks_typed) blast
    then show "concat rss = map (map clean) rows \<and> err = None"
      using assms(3) concat_chunks [of rows] by (auto simp flip: map_concat)
  qed
  let ?rows = "concat rss"
  let ?source = "scan_batch rt schema rows"
  let ?next = "case predicate of Some e \<Rightarrow> filter_batches ?source (select_batch rt e) | None \<Rightarrow> ?source"
  let ?res = "case predicate of None \<Rightarrow> Inr ?rows
    | Some e \<Rightarrow> filter_result (\<lambda>row. scalar_holds (row_dict schema row) e) ?rows"
  obtain bs where bs: "produces ?source 0 bs err" "list_all2 (batch_of schema) bs rss"
    using scan_produces [OF assms(1), of 0 rt] assms(3) by auto
  have "\<exists>cs hss err1. produces ?next 0 cs err1 \<and> list_all2 (batch_of schema) cs hss \<and>
      (case ?res of Inl x \<Rightarrow> err1 = Some x | Inr hits \<Rightarrow> err1 = err \<and> concat hss = hits)"
  proof (cases predicate)
    case None
    then show ?thesis
      using bs by (intro exI [of _ bs] exI [of _ rss] exI [of _ err]) simp
  next
    case (Some e)
    then show ?thesis
      using filter_produces [OF bs(1), of "select_batch rt e"]
        selected_held [OF bs(2) assms(2), of rt e err] by auto
  qed
  then obtain cs hss err1 where r: "produces ?next 0 cs err1" "list_all2 (batch_of schema) cs hss"
    "case ?res of Inl x \<Rightarrow> err1 = Some x | Inr hits \<Rightarrow> err1 = err \<and> concat hss = hits" by blast
  show "execute_pipeline rt schema rows predicate select_cols = Some
    (bindr ?res (\<lambda>hits. case err of Some x \<Rightarrow> Inl x | None \<Rightarrow> Inr (case select_cols of
          Some (c # cs) \<Rightarrow> map (project_values schema (c # cs)) hits | _ \<Rightarrow> hits)))"
  proof (cases "\<exists>c ds. select_cols = Some (c # ds)")
    case True
    then obtain c ds where cols: "select_cols = Some (c # ds)" by blast
    define P where "P = (\<lambda>b d. project_batch (c # ds) b = Inr d)"
    have "\<exists>es. list_all2 P cs es \<and> list_all2 batch_holds es (map (map (project_values schema (c # ds))) hss)"
      using r(2)
    proof (induction cs hss rule: list_all2_induct)
      case (Cons b bs rows rss)
      obtain d where "project_batch (c # ds) b = Inr d" "batch_holds d (map (project_values schema (c # ds)) rows)"
        using project_batch_held [OF Cons.hyps(1)] by blast
      moreover obtain es where "list_all2 P bs es"
        "list_all2 batch_holds es (map (map (project_values schema (c # ds))) rss)"
        using Cons.IH by blast
      ultimately show ?case by (intro exI [of _ "d # es"]) (simp add: P_def)
    qed simp
    then obtain es where es: "list_all2 P cs es" "list_all2 batch_holds es (map (map (project_values schema (c # ds))) hss)"
      by blast
    have "produces (project_batches ?next (c # ds)) 0 es err1"
      by (rule project_produces [OF r(1)]) (use es(1) in \<open>simp add: P_def\<close>)
    from drain_produces [OF this es(2), of "[]"] show ?thesis
      using r(3) cols
      by (cases predicate) (auto simp: execute_pipeline_def Let_def bindr_def simp flip: map_concat split: sum.splits option.splits)
  next
    case False
    then have no_cols: "(case select_cols of Some (c # cs) \<Rightarrow> f c cs | _ \<Rightarrow> y) = y" for f :: "string \<Rightarrow> string list \<Rightarrow> 'b" and y
      by (auto split: option.split list.split)
    have "list_all2 batch_holds cs hss" using r(2) by (rule list_all2_mono) (simp add: batch_of_def)
    from drain_produces [OF r(1) this, of "[]"] show ?thesis
      using r(3) unfolding execute_pipeline_def Let_def no_cols
      by (cases predicate) (auto simp: bindr_def split: sum.splits option.splits)
  qed
qed

section \<open>Examples\<close>

definition ages :: "pyval list list" where
  "ages = [[VStr ''ann'', VInt 31], [VNone, VInt 17], [VStr ''cat'', VNull]]"

lemma ages_typed: "typed_rows [''name'', ''age''] ages"
proof -
  have "\<forall>row \<in> set ages. null_like (row ! 0) \<or> fits_kind STRINGS (row ! 0)"
    "\<forall>row \<in> set ages. null_like (row ! 1) \<or> fits_kind INT64 (row ! 1)"
    by (simp_all add: ages_def null_like_def)
  then have "\<exists>k. \<forall>row \<in> set ages. null_like (row ! j) \<or> fits_kind k (row ! j)" if "j < 2" for j
    using that by (metis One_nat_def less_2_cases)
  then show ?thesis by (auto simp: typed_rows_def ages_def)
qed

definition age_over :: "int \<Rightarrow> expr" where
  "age_over n = BinaryOp OP_GT (ColumnRef ''age'' None) (Literal (VInt n) ''integer'')"

theorem batch_roundtrip_witness:
  "\<forall>rt. bindr (from_rows rt [''name'', ''age''] ages) to_rows =
     Inr [[VStr ''ann'', VInt 31], [VNull, VInt 17], [VStr ''cat'', VNull]]"
  using batch_roundtrip [OF ages_typed] by (simp add: ages_def clean_def null_like_def)

lemma ages_over_20:
  "filter_result (\<lambda>row. scalar_holds (row_dict [''name'', ''age''] row) (age_over 20)) (map (map clean) ages) =
     Inr [[VStr ''ann'', VInt 31]]"
  by code_simp

lemma flags_stored:
  "stored_chunks null_sql_runtime [''ok''] (chunks [[VBool True], [VNone], [VBool False]]) =
     ([[[VStr ''True''], [VNull], [VStr ''False'']]], None)"
  by code_simp

theorem pipeline_filters_and_projects_witness:
  "(\<forall>rt. execute_pipeline rt [''name'', ''age''] ages (Some (age_over 20)) (Some [''name'', ''height'']) =
     Some (Inr [[VStr ''ann'']])) \<and>
   execute_pipeline null_sql_runtime [''ok''] [[VBool True], [VNone], [VBool False]] None None =
     Some (Inr [[VStr ''True''], [VNull], [VStr ''False'']])"
proof (intro conjI allI)
  fix rt
  have len: "\<forall>row \<in> set ages. length row = length [''name'', ''age'']" by (simp add: ages_def)
  obtain rss err where st: "stored_chunks rt [''name'', ''age''] (chunks ages) = (rss, err)"
    by (cases "stored_chunks rt [''name'', ''age''] (chunks ages)")
  have "distinct [''name'', ''age'']" by simp
  moreover have "project_values [''name'', ''age''] [''name'', ''height''] [VStr ''ann'', VInt 31] = [VStr ''ann'']"
    by code_simp
  ultimately show "execute_pipeline rt [''name'', ''age''] ages (Some (age_over 20)) (Some [''name'', ''height'']) =
     Some (Inr [[VStr ''ann'']])"
    using pipeline_filters_and_projects [OF len _ st, of "Some (age_over 20)" "Some [''name'', ''height'']"]
      ages_typed ages_over_20 by simp
next
  show "execute_pipeline null_sql_runtime [''ok''] [[VBool True], [VNone], [VBool False]] None None =
     Some (Inr [[VStr ''True''], [VNull], [VStr ''False'']])"
    using pipeline_filters_and_projects [OF _ _ flags_stored, of None None] by simp
qed

text \<open>Booleans are stored as text; an integer column that has a text in it cannot be stored.\<close>

lemma mixed_columns_are_converted:
  "bindr (from_rows null_sql_runtime [''ok''] [[VBool True], [VBool False]]) to_rows = Inr [[VStr ''True''], [VStr ''False'']]"
  "bindr (from_rows null_sql_runtime [''x''] [[VInt 1], [VStr ''a'']]) to_rows = Inl ValueError"
proof -
  have "stored_rows null_sql_runtime [''ok''] [[VBool True], [VBool False]] = Inr [[VStr ''True''], [VStr ''False'']]"
    "stored_rows null_sql_runtime [''x''] [[VInt 1], [VStr ''a'']] = Inl ValueError"
    by code_simp+
  then show "bindr (from_rows null_sql_runtime [''ok''] [[VBool True], [VBool False]]) to_rows = Inr [[VStr ''True''], [VStr ''False'']]"
    "bindr (from_rows null_sql_runtime [''x''] [[VInt 1], [VStr ''a'']]) to_rows = Inl ValueError"
    using from_rows_stored [of "[[VBool True], [VBool False]]" "[''ok'']" null_sql_runtime]
      from_rows_stored [of "[[VInt 1], [VStr ''a'']]" "[''x'']" null_sql_runtime] to_rows_held by auto
qed

definition ages_batch :: record_batch where
  "ages_batch = projr (from_rows null_sql_runtime [''name'', ''age''] ages)"

lemma ages_batch_held:
  "batch_holds ages_batch (map (map clean) ages)" "rb_schema ages_batch = [''name'', ''age'']"
  using from_rows_held [OF ages_typed, of null_sql_runtime] by (auto simp: ages_batch_def ages_def)

theorem fast_path_is_row_by_row_witness:
  "vector_predicate (age_over 20) ages_batch = row_by_row (age_over 20) ages_batch \<and>
   row_by_row (age_over 20) ages_batch = Inr [0]"
proof -
  have "distinct (rb_schema ages_batch)" by (simp add: ages_batch_held(2))
  moreover have "matching_rows (\<lambda>row. scalar_holds (row_dict [''name'', ''age''] row) (age_over 20)) (map (map clean) ages) = Inr [0]"
    by code_simp
  ultimately show ?thesis
    using fast_path_is_row_by_row [OF ages_batch_held(1), of "age_over 20"] by (simp add: ages_batch_held(2))
qed

theorem conjunction_selects_nothing_witness:
  "vector_predicate (BinaryOp OP_AND (age_over 20) (age_over 10)) ages_batch = Inr [] \<and>
   vector_predicate (age_over 10) ages_batch = Inr [0, 1]"
proof -
  have "distinct (rb_schema ages_batch)" by (simp add: ages_batch_held(2))
  moreover have "matching_rows (\<lambda>row. scalar_holds (row_dict [''name'', ''age''] row) (age_over 10)) (map (map clean) ages) = Inr [0, 1]"
    by code_simp
  ultimately have "vector_predicate (age_over 10) ages_batch = Inr [0, 1]"
    using fast_path_held [OF ages_batch_held(1), of "age_over 10"] by (simp add: ages_batch_held(2))
  then show ?thesis
    using conjunction_selects_nothing [OF ages_batch_held(1)] by (simp add: age_over_def)
qed

end
