(* ===== verification/Planner.thy ===== *)
theory Planner
  imports Plan Catalog
begin

text \<open>
  The query planner, \<^verbatim>\<open>QueryPlanner\<close> of
  \<^verbatim>\<open>src/pysql/planner.py\<close>: building a plan from a statement, and the rewriting
  passes.  Estimates are computed with Python's arithmetic on integers and floats, so a pass that
  calls an integer's method on a float fails as the code does.  A rewriting pass, which changes
  nodes in place, gives back the changed tree.
\<close>

section \<open>Constants\<close>

abbreviation float_033 :: pyval where "float_033 \<equiv> VFloat 0x3FD51EB851EB851F"
abbreviation float_01 :: pyval where "float_01 \<equiv> VFloat 0x3FB999999999999A"
abbreviation float_05 :: pyval where "float_05 \<equiv> VFloat 0x3FE0000000000000"
abbreviation float_001 :: pyval where "float_001 \<equiv> VFloat 0x3F847AE147AE147B"
abbreviation float_08 :: pyval where "float_08 \<equiv> VFloat 0x3FE999999999999A"
abbreviation float_03 :: pyval where "float_03 \<equiv> VFloat 0x3FD3333333333333"
abbreviation float_1 :: pyval where "float_1 \<equiv> VFloat 0x3FF0000000000000"
abbreviation float_2 :: pyval where "float_2 \<equiv> VFloat 0x4000000000000000"

text \<open>\<^verbatim>\<open>int.bit_length\<close>, which floats do not have.\<close>

fun bit_len :: "nat \<Rightarrow> nat" where
  "bit_len n = (if n = 0 then 0 else bit_len (n div 2) + 1)"

declare bit_len.simps [simp del]

fun py_bit_length :: "pyval \<Rightarrow> pyval result" where
  "py_bit_length (VInt i) = Inr (VInt (int (bit_len (nat \<bar>i\<bar>))))"
| "py_bit_length (VBool b) = Inr (VInt (of_bool b))"
| "py_bit_length _ = Inl AttributeError"

text \<open>\<^verbatim>\<open>a + b * c\<close>.\<close>

definition plus_times :: "sql_runtime \<Rightarrow> pyval \<Rightarrow> pyval \<Rightarrow> pyval \<Rightarrow> pyval result" where
  "plus_times rt a b c = bindr (py_mul rt b c) (\<lambda>p. py_add rt a p)"

section \<open>Select lists and expressions\<close>

definition has_aggregates :: "select_item list \<Rightarrow> bool" where
  "has_aggregates cols = list_ex (\<lambda>c. is_aggregate_call (item_expr c)) cols"

definition extract_aggregates :: "select_item list \<Rightarrow> expr list" where
  "extract_aggregates cols = filter is_aggregate_call (map item_expr cols)"

fun extract_tables :: "expr \<Rightarrow> string list" where
  "extract_tables (ColumnRef c tab) =
     (case tab of Some t \<Rightarrow> if t = [] then [] else [t] | None \<Rightarrow> [])"
| "extract_tables (BinaryOp op l r) = remdups (extract_tables l @ extract_tables r)"
| "extract_tables _ = []"

fun extract_columns :: "expr \<Rightarrow> string list" where
  "extract_columns (ColumnRef c tab) = [c]"
| "extract_columns (BinaryOp op l r) = remdups (extract_columns l @ extract_columns r)"
| "extract_columns _ = []"

definition truthy_name :: "string option \<Rightarrow> bool" where
  "truthy_name t = (case t of Some s \<Rightarrow> s \<noteq> [] | None \<Rightarrow> False)"

fun plan_tables :: "plan_node \<Rightarrow> string list" where
  "plan_tables (PlanNode f cs) =
     (if truthy_name (pn_table_name f)
      then the (pn_table_name f) # (if truthy_name (pn_alias f) then [the (pn_alias f)] else [])
      else []) @ concat (map plan_tables cs)"

section \<open>Building plans\<close>

definition estimates :: "plan_node \<Rightarrow> pyval \<times> pyval" where
  "estimates p = (pn_rows (node_fields p), pn_cost (node_fields p))"

text \<open>A node over a plan, with the estimates \<^verbatim>\<open>rows * r\<close> and
  \<^verbatim>\<open>cost + rows * c\<close>.\<close>

definition node_over ::
  "sql_runtime \<Rightarrow> plan_fields \<Rightarrow> plan_node \<Rightarrow> (pyval \<Rightarrow> pyval result) \<Rightarrow> pyval \<Rightarrow> plan_node result"
where
  "node_over rt f child row_est c =
     (let (rows, cost) = estimates child in
      bindr (row_est rows) (\<lambda>r. bindr (plus_times rt cost rows c) (\<lambda>k.
        Inr (PlanNode (f\<lparr>pn_rows := r, pn_cost := k\<rparr>) [child]))))"

definition filter_over :: "sql_runtime \<Rightarrow> pyval \<Rightarrow> expr \<Rightarrow> plan_node \<Rightarrow> plan_node result" where
  "filter_over rt sel e child =
     node_over rt ((blank_node P_FILTER)\<lparr>pn_predicate := Some e\<rparr>) child (\<lambda>r. py_mul rt r sel) float_01"

definition aggregate_over ::
  "sql_runtime \<Rightarrow> expr list option \<Rightarrow> select_item list \<Rightarrow> plan_node \<Rightarrow> plan_node result"
where
  "aggregate_over rt group_by cols child =
     node_over rt ((blank_node P_AGGREGATE)\<lparr>pn_group_by := group_by,
         pn_aggregates := Some (extract_aggregates cols)\<rparr>) child
       (\<lambda>r. bindr (py_mul rt r float_01) (\<lambda>x. py_max [VInt 1, x])) float_05"

definition project_over :: "sql_runtime \<Rightarrow> select_item list \<Rightarrow> plan_node \<Rightarrow> plan_node result" where
  "project_over rt cols child =
     node_over rt ((blank_node P_PROJECT)\<lparr>pn_columns := Some cols\<rparr>) child Inr float_001"

text \<open>The sort's cost calls \<^verbatim>\<open>max(1, rows).bit_length()\<close>.\<close>

definition rows_bit_length :: "pyval \<Rightarrow> pyval result" where
  "rows_bit_length rows = bindr (py_max [VInt 1, rows]) py_bit_length"

definition sort_over :: "sql_runtime \<Rightarrow> (expr \<times> bool) list \<Rightarrow> plan_node \<Rightarrow> plan_node result" where
  "sort_over rt keys child =
     (let (rows, cost) = estimates child in
      bindr (rows_bit_length rows) (\<lambda>b. bindr (py_mul rt rows b) (\<lambda>x.
        bindr (plus_times rt cost x float_05) (\<lambda>k.
          Inr (PlanNode ((blank_node P_SORT)\<lparr>pn_sort_keys := Some keys, pn_rows := rows, pn_cost := k\<rparr>) [child])))))"

definition distinct_over :: "sql_runtime \<Rightarrow> plan_node \<Rightarrow> plan_node result" where
  "distinct_over rt child = node_over rt (blank_node P_DISTINCT) child (\<lambda>r. py_mul rt r float_08) float_03"

definition limit_over :: "sql_runtime \<Rightarrow> int \<Rightarrow> int option \<Rightarrow> plan_node \<Rightarrow> plan_node result" where
  "limit_over rt n off child =
     (let (rows, cost) = estimates child in
      bindr (py_min [VInt n, rows]) (\<lambda>r. bindr (py_add rt cost float_01) (\<lambda>k.
        Inr (PlanNode ((blank_node P_LIMIT)\<lparr>pn_limit := Some n,
               pn_offset := Some (case off of Some m \<Rightarrow> m | None \<Rightarrow> 0),
               pn_rows := r, pn_cost := k\<rparr>) [child]))))"

definition scan_node :: "sql_runtime \<Rightarrow> catalog \<Rightarrow> string \<Rightarrow> string option \<Rightarrow> plan_node result" where
  "scan_node rt c name alias =
     (let n = VInt (case get_table c name of Some t \<Rightarrow> ti_row_count t | None \<Rightarrow> 1000) in
      bindr (py_float (base_rt rt) n) (\<lambda>f. bindr (py_mul rt (VFloat f) float_1) (\<lambda>k.
        Inr (PlanNode ((blank_node P_SEQ_SCAN)\<lparr>pn_table_name := Some name, pn_alias := alias,
               pn_rows := VFloat f, pn_cost := k\<rparr>) []))))"

definition join_node ::
  "sql_runtime \<Rightarrow> join_type \<Rightarrow> expr option \<Rightarrow> plan_node \<Rightarrow> plan_node \<Rightarrow> plan_node result"
where
  "join_node rt jt cond left right =
     (let (lr, lc) = estimates left; (rr, rc) = estimates right in
      bindr (py_mul rt lr rr) (\<lambda>prod. bindr (py_lt prod (VInt 100000)) (\<lambda>small.
        bindr (py_add rt lc rc) (\<lambda>base.
          bindr (if small then plus_times rt base prod float_001
                 else bindr (py_add rt lr rr) (\<lambda>s. plus_times rt base s float_2)) (\<lambda>cost.
            bindr (py_mul rt prod float_01) (\<lambda>rows.
              Inr (PlanNode ((blank_node (if small then P_NESTED_LOOP_JOIN else P_HASH_JOIN))
                     \<lparr>pn_join_type := Some jt, pn_join_condition := cond, pn_rows := rows,
                      pn_cost := cost\<rparr>) [left, right])))))))"

text \<open>An optional clause adds a node.\<close>

definition when_some :: "'a option \<Rightarrow> ('a \<Rightarrow> 'p \<Rightarrow> 'p result) \<Rightarrow> 'p \<Rightarrow> 'p result" where
  "when_some x f p = (case x of Some a \<Rightarrow> f a p | None \<Rightarrow> Inr p)"

definition order_keys :: "order_by_item list \<Rightarrow> (expr \<times> bool) list" where
  "order_keys items = map (\<lambda>i. case i of OrderByItem e d \<Rightarrow> (e, d)) items"

definition set_alias :: "string \<Rightarrow> plan_node \<Rightarrow> plan_node" where
  "set_alias a p = PlanNode ((node_fields p)\<lparr>pn_alias := Some a\<rparr>) (node_children p)"

fun plan_select :: "sql_runtime \<Rightarrow> catalog \<Rightarrow> select \<Rightarrow> plan_node result"
and plan_table_ref :: "sql_runtime \<Rightarrow> catalog \<Rightarrow> table_ref \<Rightarrow> plan_node result" where
  "plan_select rt c (SelectStatement cols from_clause wh group_by having order_by lim off dis) =
     bindr (case from_clause of
              Some tr \<Rightarrow> plan_table_ref rt c tr
            | None \<Rightarrow> Inr (PlanNode ((blank_node P_VALUES)\<lparr>pn_rows := VInt 1\<rparr>) [])) (\<lambda>p0.
     bindr (when_some wh (filter_over rt float_033) p0) (\<lambda>p1.
     bindr (if group_by \<noteq> None \<or> has_aggregates cols then aggregate_over rt group_by cols p1 else Inr p1) (\<lambda>p2.
     bindr (when_some having (filter_over rt float_05) p2) (\<lambda>p3.
     bindr (project_over rt cols p3) (\<lambda>p4.
     bindr (case order_by of
              Some items \<Rightarrow> if items = [] then Inr p4 else sort_over rt (order_keys items) p4
            | None \<Rightarrow> Inr p4) (\<lambda>p5.
     bindr (if dis then distinct_over rt p5 else Inr p5) (\<lambda>p6.
     when_some lim (\<lambda>n. limit_over rt n off) p6)))))))"
| "plan_table_ref rt c (SimpleTableRef name alias) = scan_node rt c name alias"
| "plan_table_ref rt c (JoinTableRef l r jt cond using_cols) =
     bindr (plan_table_ref rt c l) (\<lambda>left. bindr (plan_table_ref rt c r) (\<lambda>right.
       join_node rt jt cond left right))"
| "plan_table_ref rt c (SubqueryTableRef q alias) =
     bindr (plan_select rt c q) (\<lambda>p. Inr (set_alias alias p))"

definition plan_insert :: "sql_runtime \<Rightarrow> string \<Rightarrow> string list option \<Rightarrow> expr list list \<Rightarrow> plan_node result" where
  "plan_insert rt table cols vals =
     bindr (py_float (base_rt rt) (VInt (int (length vals)))) (\<lambda>n. bindr (py_mul rt (VFloat n) float_1) (\<lambda>k.
       Inr (PlanNode ((blank_node P_INSERT)\<lparr>pn_table_name := Some table, pn_insert_columns := cols,
              pn_values := Some vals, pn_rows := VFloat n, pn_cost := k\<rparr>) [])))"

definition dml_scan :: "string \<Rightarrow> expr option \<Rightarrow> plan_node" where
  "dml_scan table wh =
     (let scan = PlanNode ((blank_node P_SEQ_SCAN)\<lparr>pn_table_name := Some table, pn_rows := VInt 1000,
                             pn_cost := VInt 1000\<rparr>) [] in
      case wh of
        None \<Rightarrow> scan
      | Some e \<Rightarrow> PlanNode ((blank_node P_FILTER)\<lparr>pn_predicate := Some e, pn_rows := VInt 330,
                              pn_cost := VInt 1100\<rparr>) [scan])"

definition plan_dml ::
  "sql_runtime \<Rightarrow> plan_fields \<Rightarrow> string \<Rightarrow> expr option \<Rightarrow> pyval \<Rightarrow> plan_node result"
where
  "plan_dml rt f table wh factor =
     (let scan = dml_scan table wh; (rows, cost) = estimates scan in
      bindr (plus_times rt cost rows factor) (\<lambda>k.
        Inr (PlanNode (f\<lparr>pn_table_name := Some table, pn_rows := rows, pn_cost := k\<rparr>) [scan])))"

definition plan_update ::
  "sql_runtime \<Rightarrow> string \<Rightarrow> (string \<times> expr) list \<Rightarrow> expr option \<Rightarrow> plan_node result"
where
  "plan_update rt table assigns wh =
     plan_dml rt ((blank_node P_UPDATE)\<lparr>pn_assignments := Some assigns\<rparr>) table wh float_2"

definition plan_delete :: "sql_runtime \<Rightarrow> string \<Rightarrow> expr option \<Rightarrow> plan_node result" where
  "plan_delete rt table wh = plan_dml rt (blank_node P_DELETE) table wh float_1"

section \<open>Rewriting\<close>

definition is_join_node :: "plan_node_type \<Rightarrow> bool" where
  "is_join_node ty = (ty \<in> {P_NESTED_LOOP_JOIN, P_HASH_JOIN, P_SORT_MERGE_JOIN})"

text \<open>The filter moves to the first child that has the only table its columns name.\<close>

fun push_into :: "sql_runtime \<Rightarrow> string \<Rightarrow> expr \<Rightarrow> plan_node list \<Rightarrow> plan_node list option result" where
  "push_into rt t e [] = Inr None"
| "push_into rt t e (c # cs) =
     (if t \<in> set (plan_tables c) then
        bindr (filter_over rt float_033 e c) (\<lambda>f. Inr (Some (f # cs)))
      else bindr (push_into rt t e cs) (\<lambda>r. Inr (map_option (\<lambda>ds. c # ds) r)))"

definition try_push_to_join :: "sql_runtime \<Rightarrow> expr \<Rightarrow> plan_node \<Rightarrow> plan_node option result" where
  "try_push_to_join rt e join =
     (case e of
        BinaryOp _ _ _ \<Rightarrow>
          (case extract_tables e of
             [t] \<Rightarrow> bindr (push_into rt t e (node_children join))
                     (\<lambda>r. Inr (map_option (PlanNode (node_fields join)) r))
           | _ \<Rightarrow> Inr None)
      | _ \<Rightarrow> Inr None)"

text \<open>A filter's predicate can be missing only when no statement built it.\<close>

fun pushdown_predicates :: "sql_runtime \<Rightarrow> plan_node \<Rightarrow> plan_node result" where
  "pushdown_predicates rt (PlanNode f cs) =
     (let descend = bindr (mapr (pushdown_predicates rt) cs) (\<lambda>ds. Inr (PlanNode f ds)) in
      case (pn_type f, cs) of
        (P_FILTER, [PlanNode g gs]) \<Rightarrow>
          if pn_type g = P_SEQ_SCAN \<and> pn_predicate g = None then
            bindr (py_mul rt (pn_rows g) float_033) (\<lambda>r.
              Inr (PlanNode (g\<lparr>pn_predicate := pn_predicate f, pn_rows := r\<rparr>) gs))
          else if is_join_node (pn_type g) then
            bindr (case pn_predicate f of
                     Some e \<Rightarrow> try_push_to_join rt e (PlanNode g gs)
                   | None \<Rightarrow> Inr None)
              (\<lambda>r. case r of Some p \<Rightarrow> Inr p | None \<Rightarrow> descend)
          else descend
      | _ \<Rightarrow> descend)"

definition find_applicable_index :: "catalog \<Rightarrow> string \<Rightarrow> expr \<Rightarrow> index_info option" where
  "find_applicable_index c table e =
     List.find (\<lambda>i. ix_columns i \<noteq> [] \<and> hd (ix_columns i) \<in> set (extract_columns e))
       (get_indexes_for_table c table)"

fun extract_scan_range :: "expr \<Rightarrow> (pyval \<times> pyval) option" where
  "extract_scan_range (BinaryOp op l (Literal v ty)) =
     (if op = OP_EQ then Some (v, v)
      else if op \<in> {OP_GT, OP_GTE} then Some (v, VNone)
      else if op \<in> {OP_LT, OP_LTE} then Some (VNone, v)
      else None)"
| "extract_scan_range _ = None"

definition select_index :: "sql_runtime \<Rightarrow> catalog \<Rightarrow> plan_fields \<Rightarrow> plan_fields result" where
  "select_index rt c f =
     (case (pn_type f, pn_predicate f, pn_table_name f) of
        (P_SEQ_SCAN, Some e, Some t) \<Rightarrow>
          (case (if t = [] then None else find_applicable_index c t e) of
             None \<Rightarrow> Inr f
           | Some i \<Rightarrow>
               bindr (rows_bit_length (pn_rows f)) (\<lambda>b. bindr (py_mul rt b float_2) (\<lambda>k.
                 Inr (f\<lparr>pn_type := P_INDEX_SCAN, pn_index_name := Some (ix_name i),
                        pn_index_columns := Some (ix_columns i), pn_scan_range := extract_scan_range e,
                        pn_cost := k\<rparr>))))
      | _ \<Rightarrow> Inr f)"

fun select_indexes :: "sql_runtime \<Rightarrow> catalog \<Rightarrow> plan_node \<Rightarrow> plan_node result" where
  "select_indexes rt c (PlanNode f cs) =
     bindr (select_index rt c f) (\<lambda>g.
       bindr (mapr (select_indexes rt c) cs) (\<lambda>ds. Inr (PlanNode g ds)))"

fun estimate_costs :: "sql_runtime \<Rightarrow> plan_node \<Rightarrow> plan_node result" where
  "estimate_costs rt (PlanNode f cs) =
     bindr (mapr (estimate_costs rt) cs) (\<lambda>ds.
       if ds = [] then Inr (PlanNode f ds)
       else bindr (py_sum rt (map (\<lambda>d. pn_cost (node_fields d)) ds)) (\<lambda>child_cost.
         bindr (py_lt (pn_cost f) child_cost) (\<lambda>less.
           if less then
             bindr (plus_times rt child_cost (pn_rows f) float_01) (\<lambda>k.
               Inr (PlanNode (f\<lparr>pn_cost := k\<rparr>) ds))
           else Inr (PlanNode f ds))))"

definition optimize :: "sql_runtime \<Rightarrow> catalog \<Rightarrow> plan_node \<Rightarrow> plan_node result" where
  "optimize rt c p =
     bindr (pushdown_predicates rt p) (\<lambda>q. bindr (select_indexes rt c q) (estimate_costs rt))"

fun plan :: "sql_runtime \<Rightarrow> catalog \<Rightarrow> statement \<Rightarrow> plan_node result" where
  "plan rt c (Select q) = bindr (plan_select rt c q) (optimize rt c)"
| "plan rt c (InsertStatement table cols vals) = plan_insert rt table cols vals"
| "plan rt c (UpdateStatement table assigns wh) = plan_update rt table assigns wh"
| "plan rt c (DeleteStatement table wh) = plan_delete rt table wh"
| "plan rt c (CreateTableStatement name cols ine cons) =
     Inr (PlanNode ((blank_node P_CREATE_TABLE)
       \<lparr>pn_statement := Some (CreateTableStatement name cols ine cons)\<rparr>) [])"
| "plan rt c (DropTableStatement name ie casc) =
     Inr (PlanNode ((blank_node P_DROP_TABLE)\<lparr>pn_statement := Some (DropTableStatement name ie casc),
       pn_table_name := Some name\<rparr>) [])"
| "plan rt c (CreateIndexStatement name table cols uniq ine) =
     Inr (PlanNode ((blank_node P_CREATE_INDEX)
       \<lparr>pn_statement := Some (CreateIndexStatement name table cols uniq ine)\<rparr>) [])"
| "plan rt c (ExplainStatement s) = plan rt c s"
| "plan rt c _ = Inl ValueError"

end
