(* ===== verification/Executor.thy ===== *)
theory Executor
  imports Operators Planner Heap_File Wal Mvcc BTree
begin

text \<open>
  The executor, \<^verbatim>\<open>Executor\<close> of \<^verbatim>\<open>src/pysql/executor.py\<close>: the
  database it works on, the handlers of data definition and manipulation, the scans, and the
  dispatch over plan trees.  A handler is an \<open>action\<close>: it changes the database and returns a
  value or raises, and it may not return, since opening a heap file follows page links.
\<close>

section \<open>The database and actions on it\<close>

type_synonym index_tree = "(order_key, record_id) btree"

record database =
  db_catalog :: catalog
  db_pool :: pool
  db_wal :: wal
  db_mvcc :: "(record_id, pyval list) mvcc"
  db_heaps :: "(string \<times> heap_file) list"
  db_indexes :: "(string \<times> index_tree) list"

type_synonym 'a action = "database \<Rightarrow> (database \<times> 'a result) option"

definition ret :: "'a \<Rightarrow> 'a action" where
  "ret x db = Some (db, Inr x)"

definition fail :: "pyerr \<Rightarrow> 'a action" where
  "fail e db = Some (db, Inl e)"

definition bind_db :: "'a action \<Rightarrow> ('a \<Rightarrow> 'b action) \<Rightarrow> 'b action" where
  "bind_db m f db =
     (case m db of
        None \<Rightarrow> None
      | Some (db1, Inl e) \<Rightarrow> Some (db1, Inl e)
      | Some (db1, Inr x) \<Rightarrow> f x db1)"

definition from_result :: "'a result \<Rightarrow> 'a action" where
  "from_result r db = Some (db, r)"

definition get_db :: "(database \<Rightarrow> 'a) \<Rightarrow> 'a action" where
  "get_db f db = Some (db, Inr (f db))"

definition modify_db :: "(database \<Rightarrow> database) \<Rightarrow> unit action" where
  "modify_db f db = Some (f db, Inr ())"

definition on_pool :: "(pool \<Rightarrow> pool \<times> 'a result) \<Rightarrow> 'a action" where
  "on_pool f db = (case f (db_pool db) of (b, r) \<Rightarrow> Some (db\<lparr>db_pool := b\<rparr>, r))"

definition on_catalog :: "(catalog \<Rightarrow> catalog \<times> 'a result) \<Rightarrow> 'a action" where
  "on_catalog f db = (case f (db_catalog db) of (c, r) \<Rightarrow> Some (db\<lparr>db_catalog := c\<rparr>, r))"

fun fold_action :: "('x \<Rightarrow> 'a \<Rightarrow> 'a action) \<Rightarrow> 'x list \<Rightarrow> 'a \<Rightarrow> 'a action" where
  "fold_action f [] a = ret a"
| "fold_action f (x # xs) a = bind_db (f x a) (fold_action f xs)"

text \<open>Looking up the table of a statement, which must exist.\<close>

definition table_named :: "string \<Rightarrow> table_info action" where
  "table_named name =
     bind_db (get_db (\<lambda>db. get_table (db_catalog db) name))
       (\<lambda>t. case t of Some ti \<Rightarrow> ret ti | None \<Rightarrow> fail RuntimeError)"

definition name_or_empty :: "string option \<Rightarrow> string" where
  "name_or_empty n = (case n of Some s \<Rightarrow> s | None \<Rightarrow> [])"

section \<open>Heap files\<close>

definition put_heap :: "string \<Rightarrow> heap_file \<Rightarrow> unit action" where
  "put_heap name hf = modify_db (\<lambda>db. db\<lparr>db_heaps := assoc_put name hf (db_heaps db)\<rparr>)"

definition open_heap :: "table_schema \<Rightarrow> int \<Rightarrow> heap_file action" where
  "open_heap s first db =
     (case load_page_chain (db_pool db) first [] of
        None \<Rightarrow> None
      | Some (b, Inl e) \<Rightarrow> Some (db\<lparr>db_pool := b\<rparr>, Inl e)
      | Some (b, Inr pids) \<Rightarrow> Some (db\<lparr>db_pool := b\<rparr>, Inr \<lparr>hf_schema = s, hf_page_ids = pids\<rparr>))"

definition save_first_page :: "string \<Rightarrow> heap_file \<Rightarrow> unit action" where
  "save_first_page name hf =
     on_catalog (\<lambda>c. (update_first_page_id c name (first_page_id hf), Inr ()))"

definition get_heap_file :: "sql_runtime \<Rightarrow> string \<Rightarrow> heap_file option action" where
  "get_heap_file rt name =
     bind_db (get_db (\<lambda>db. assoc_get name (db_heaps db))) (\<lambda>h.
       case h of
         Some hf \<Rightarrow> ret (Some hf)
       | None \<Rightarrow>
           bind_db (get_db (\<lambda>db. get_table (db_catalog db) name)) (\<lambda>t.
             case t of
               None \<Rightarrow> ret None
             | Some ti \<Rightarrow>
                 bind_db (from_result (get_schema (base_rt rt) ti)) (\<lambda>s.
                 bind_db (if ti_first_page_id ti \<ge> 0 then open_heap s (ti_first_page_id ti)
                          else bind_db (on_pool (heap_create s)) (\<lambda>hf.
                                 bind_db (save_first_page name hf) (\<lambda>_. ret hf))) (\<lambda>hf.
                 bind_db (put_heap name hf) (\<lambda>_. ret (Some hf))))))"

definition get_or_create_heap :: "sql_runtime \<Rightarrow> string \<Rightarrow> table_schema \<Rightarrow> heap_file action" where
  "get_or_create_heap rt name s =
     bind_db (get_heap_file rt name) (\<lambda>h.
       case h of
         Some hf \<Rightarrow> ret hf
       | None \<Rightarrow>
           bind_db (on_pool (heap_create s)) (\<lambda>hf.
             bind_db (put_heap name hf) (\<lambda>_. bind_db (save_first_page name hf) (\<lambda>_. ret hf))))"

text \<open>
  A loop over \<^verbatim>\<open>heap.scan()\<close>: the records of a page are taken when the page is
  reached, and the body runs between them.
\<close>

type_synonym 'a row_body = "record_id \<Rightarrow> pyval list \<Rightarrow> 'a \<Rightarrow> 'a action"

definition scan_records :: "sql_runtime \<Rightarrow> table_schema \<Rightarrow> 'a row_body \<Rightarrow> int \<Rightarrow> page \<Rightarrow> 'a \<Rightarrow> 'a action" where
  "scan_records rt s body pid p =
     fold_action (\<lambda>(slot, data) a.
       bind_db (from_result (record_deserialize (base_rt rt) s data)) (\<lambda>vs. body (RID pid slot) vs a))
       (get_all_records p)"

definition unpin_clean :: "int \<Rightarrow> unit action" where
  "unpin_clean pid = on_pool (\<lambda>b. (fst (unpin_page b pid False), Inr ()))"

definition scan_loop :: "sql_runtime \<Rightarrow> heap_file \<Rightarrow> 'a row_body \<Rightarrow> 'a \<Rightarrow> 'a action" where
  "scan_loop rt hf body =
     fold_action (\<lambda>pid a.
       bind_db (on_pool (\<lambda>b. fetch_page b pid)) (\<lambda>p.
         bind_db (unpin_clean pid) (\<lambda>_. scan_records rt (hf_schema hf) body pid p a)))
       (hf_page_ids hf)"

section \<open>Indexes\<close>

definition new_index :: index_tree where
  "new_index = \<lparr>bt_order = 64, bt_root = Leaf [], bt_size = 0, bt_height = 1\<rparr>"

definition index_keys :: "index_tree \<Rightarrow> order_key list" where
  "index_keys t = map fst (concat (leaves (bt_root t)))"

text \<open>
  Insertion compares the new key with keys of the tree.  All keys of a tree compare with one
  another, so the first comparison already raises if the new key is of another kind.  In a tree
  that is a single leaf the uniqueness test, which only asks for equality, comes first.
\<close>

definition index_insert :: "bool \<Rightarrow> index_tree \<Rightarrow> pyval \<Rightarrow> record_id \<Rightarrow> index_tree result" where
  "index_insert uniq t v rid =
     (let k = py_key v in
      if list_all (comparable k) (index_keys t) then
        (if uniq then bindr (insert_unique t k rid) (\<lambda>(t', _). Inr t') else btree_insert t k rid)
      else if uniq \<and> k \<in> set (index_keys t) \<and> num_keys (bt_root t) = length (index_keys t) then Inr t
      else Inl TypeError)"

definition index_bound :: "pyval \<Rightarrow> order_key option" where
  "index_bound v = (if v = VNone then None else Some (py_key v))"

definition bound_ok :: "index_tree \<Rightarrow> order_key option \<Rightarrow> bool" where
  "bound_ok t k = (case k of None \<Rightarrow> True | Some x \<Rightarrow> list_all (comparable x) (index_keys t))"

definition index_range :: "index_tree \<Rightarrow> pyval \<Rightarrow> pyval \<Rightarrow> (order_key \<times> record_id) list result" where
  "index_range t low high =
     (if bound_ok t (index_bound low) \<and> bound_ok t (index_bound high)
      then range_scan t (index_bound low) (index_bound high) True True
      else Inl TypeError)"

definition put_index :: "string \<Rightarrow> index_tree \<Rightarrow> unit action" where
  "put_index name t = modify_db (\<lambda>db. db\<lparr>db_indexes := assoc_put name t (db_indexes db)\<rparr>)"

definition insert_into_index :: "string \<Rightarrow> bool \<Rightarrow> pyval \<Rightarrow> record_id \<Rightarrow> unit action" where
  "insert_into_index name uniq v rid =
     bind_db (get_db (\<lambda>db. assoc_get name (db_indexes db))) (\<lambda>t.
       case t of
         None \<Rightarrow> ret ()
       | Some tree \<Rightarrow> bind_db (from_result (index_insert uniq tree v rid)) (put_index name))"

definition update_index_on_insert ::
  "string list \<Rightarrow> pyval list \<Rightarrow> record_id \<Rightarrow> index_info \<Rightarrow> unit action"
where
  "update_index_on_insert col_names vals rid i =
     (case ix_columns i of
        [] \<Rightarrow> ret ()
      | c # _ \<Rightarrow>
          (case find_column c col_names of
             None \<Rightarrow> ret ()
           | Some j \<Rightarrow>
               bind_db (get_db (\<lambda>db. assoc_get (ix_name i) (db_indexes db))) (\<lambda>t.
                 if t = None then ret ()
                 else bind_db (from_result (py_get vals (int j))) (\<lambda>key.
                   insert_into_index (ix_name i) (ix_unique i) key rid))))"

definition update_indexes_on_insert :: "string \<Rightarrow> pyval list \<Rightarrow> record_id \<Rightarrow> string list \<Rightarrow> unit action" where
  "update_indexes_on_insert name vals rid col_names =
     bind_db (get_db (\<lambda>db. get_indexes_for_table (db_catalog db) name)) (\<lambda>indexes.
       fold_action (\<lambda>i _. update_index_on_insert col_names vals rid i) indexes ())"

section \<open>Data definition\<close>

fun constraint_name :: "constraint_type \<Rightarrow> string" where
  "constraint_name C_PRIMARY_KEY = ''PRIMARY_KEY''"
| "constraint_name C_NOT_NULL = ''NOT_NULL''"
| "constraint_name C_UNIQUE = ''UNIQUE''"
| "constraint_name C_DEFAULT = ''DEFAULT''"
| "constraint_name C_CHECK = ''CHECK''"
| "constraint_name C_FOREIGN_KEY = ''FOREIGN_KEY''"
| "constraint_name C_AUTOINCREMENT = ''AUTOINCREMENT''"

definition column_metadata :: "column_def \<Rightarrow> column_info" where
  "column_metadata c = \<lparr>ci_name = cd_name c, ci_type = str_upper (cd_data_type c),
     ci_constraints = map (\<lambda>k. constraint_name (con_type k)) (cd_constraints c)\<rparr>"

definition primary_key_of :: "column_def list \<Rightarrow> string option" where
  "primary_key_of cols =
     fold (\<lambda>c pk. if has_constraint C_PRIMARY_KEY c then Some (cd_name c) else pk) cols None"

definition quoted :: "string \<Rightarrow> string" where
  "quoted s = QUOTE # s @ [QUOTE]"

definition message :: "string \<Rightarrow> table action" where
  "message m = ret (message_result 0 m)"

definition create_pk_index :: "string \<Rightarrow> string \<Rightarrow> unit action" where
  "create_pk_index table pk =
     (let idx_name = ''pk_'' @ table @ ''_'' @ pk in
      bind_db (put_index idx_name new_index) (\<lambda>_.
        on_catalog (\<lambda>c. create_index c \<lparr>ix_name = idx_name, ix_table = table, ix_columns = [pk],
                                          ix_unique = True, ix_primary = True\<rparr>)))"

definition exec_create_table :: "sql_runtime \<Rightarrow> statement option \<Rightarrow> table action" where
  "exec_create_table rt stmt =
     (case stmt of
        Some (CreateTableStatement name cols if_not_exists cons) \<Rightarrow>
          bind_db (get_db (\<lambda>db. table_exists (db_catalog db) name)) (\<lambda>exists.
            if exists then
              (if if_not_exists then message (''Table '' @ quoted name @ '' already exists (skipped)'')
               else fail RuntimeError)
            else
              (let pk = primary_key_of cols;
                   info = \<lparr>ti_name = name, ti_columns = map column_metadata cols, ti_primary_key = pk,
                           ti_first_page_id = - 1, ti_indexes = [], ti_auto_counter = 0,
                           ti_row_count = 0\<rparr> in
               bind_db (from_result (get_schema (base_rt rt) info)) (\<lambda>s.
               bind_db (on_pool (heap_create s)) (\<lambda>hf.
               bind_db (on_catalog (\<lambda>c. create_table c (info\<lparr>ti_first_page_id := first_page_id hf\<rparr>))) (\<lambda>_.
               bind_db (put_heap name hf) (\<lambda>_.
               bind_db (case pk of
                          Some p \<Rightarrow> if p = [] then ret () else create_pk_index name p
                        | None \<Rightarrow> ret ()) (\<lambda>_.
                 message (''Table '' @ quoted name @ '' created successfully''))))))))
      | _ \<Rightarrow> fail AttributeError)"

definition forget_index :: "string \<Rightarrow> unit action" where
  "forget_index name = modify_db (\<lambda>db. db\<lparr>db_indexes := assoc_del name (db_indexes db)\<rparr>)"

definition exec_drop_table :: "string option \<Rightarrow> statement option \<Rightarrow> table action" where
  "exec_drop_table table_name stmt =
     (let name = name_or_empty table_name in
      bind_db (get_db (\<lambda>db. table_exists (db_catalog db) name)) (\<lambda>exists.
        if \<not> exists then
          (case stmt of
             Some (DropTableStatement _ True _) \<Rightarrow>
               message (''Table '' @ quoted name @ '' does not exist (skipped)'')
           | _ \<Rightarrow> fail RuntimeError)
        else
          bind_db (get_db (\<lambda>db. get_indexes_for_table (db_catalog db) name)) (\<lambda>indexes.
          bind_db (fold_action (\<lambda>i _. forget_index (ix_name i)) indexes ()) (\<lambda>_.
          bind_db (modify_db (\<lambda>db. db\<lparr>db_heaps := assoc_del name (db_heaps db)\<rparr>)) (\<lambda>_.
          bind_db (on_catalog (\<lambda>c. drop_table c name)) (\<lambda>_.
            message (''Table '' @ quoted name @ '' dropped successfully'')))))))"

text \<open>Filling a new index from the rows of its table.\<close>

definition populate_index :: "sql_runtime \<Rightarrow> string \<Rightarrow> string \<Rightarrow> string list \<Rightarrow> bool \<Rightarrow> unit action" where
  "populate_index rt name table cols uniq =
     bind_db (get_heap_file rt table) (\<lambda>h.
       case h of
         None \<Rightarrow> ret ()
       | Some hf \<Rightarrow>
           bind_db (get_db (\<lambda>db. get_table (db_catalog db) table)) (\<lambda>t.
             case cols of
               [] \<Rightarrow> fail IndexError
             | c # _ \<Rightarrow>
                 (case find_column c (case t of Some ti \<Rightarrow> column_names ti | None \<Rightarrow> []) of
                    None \<Rightarrow> ret ()
                  | Some j \<Rightarrow>
                      scan_loop rt hf (\<lambda>rid vs _.
                        bind_db (from_result (py_get vs (int j))) (\<lambda>key.
                          insert_into_index name uniq key rid)) ())))"

definition exec_create_index :: "sql_runtime \<Rightarrow> statement option \<Rightarrow> table action" where
  "exec_create_index rt stmt =
     (case stmt of
        Some (CreateIndexStatement name table cols uniq if_not_exists) \<Rightarrow>
          bind_db (put_index name new_index) (\<lambda>_.
          bind_db (on_catalog (\<lambda>c. create_index c \<lparr>ix_name = name, ix_table = table, ix_columns = cols,
                                                     ix_unique = uniq, ix_primary = False\<rparr>)) (\<lambda>_.
          bind_db (populate_index rt name table cols uniq) (\<lambda>_.
            message (''Index '' @ quoted name @ '' created on '' @ table @ ''('' @ join_comma cols @ '')''))))
      | _ \<Rightarrow> fail AttributeError)"

section \<open>Data manipulation\<close>

definition next_auto_value :: "string \<Rightarrow> pyval action" where
  "next_auto_value name =
     bind_db (on_catalog (\<lambda>c. increment_auto_counter c name)) (\<lambda>n. ret (VInt n))"

definition is_auto :: "column_info \<Rightarrow> bool" where
  "is_auto c = (''AUTOINCREMENT'' \<in> set (ci_constraints c))"

text \<open>
  The values of an \<^verbatim>\<open>INSERT\<close> with a column list, put in their places; then the
  auto-increment columns that are still \<^verbatim>\<open>NULL\<close>.  (The branch for primary keys
  asks again for \<^verbatim>\<open>AUTOINCREMENT\<close> and is never taken.)
\<close>

fun place_values :: "string list \<Rightarrow> string list \<Rightarrow> pyval list \<Rightarrow> pyval list \<Rightarrow> pyval list result" where
  "place_values col_names [] vs full = Inr full"
| "place_values col_names (c # cs) vs full =
     bindr (index_of c col_names) (\<lambda>j.
       (case vs of
          [] \<Rightarrow> Inl IndexError
        | v # vs' \<Rightarrow> place_values col_names cs vs' (full[j := v])))"

definition fill_auto :: "string \<Rightarrow> column_info list \<Rightarrow> pyval list \<Rightarrow> pyval list action" where
  "fill_auto name cols row =
     fold_action (\<lambda>(j, c) row.
       bind_db (from_result (py_get row (int j))) (\<lambda>v.
         if is_auto c \<and> is_null_value v
         then bind_db (next_auto_value name) (\<lambda>n. ret (row[j := n]))
         else ret row)) (enumerate 0 cols) row"

definition extend_row :: "string \<Rightarrow> column_info list \<Rightarrow> pyval list \<Rightarrow> pyval list action" where
  "extend_row name cols row =
     fold_action (\<lambda>(j, c) row.
       if j < length row then ret row
       else bind_db (if is_auto c then next_auto_value name else ret VNull) (\<lambda>v. ret (row @ [v])))
       (enumerate 0 cols) row"

definition complete_row :: "string \<Rightarrow> table_info \<Rightarrow> string list option \<Rightarrow> pyval list \<Rightarrow> pyval list action" where
  "complete_row name t insert_columns vs =
     (let n = length (column_names t) in
      bind_db (case insert_columns of
                 Some (c # cs) \<Rightarrow>
                   bind_db (from_result (place_values (column_names t) (c # cs) vs (nulls n)))
                     (fill_auto name (ti_columns t))
               | _ \<Rightarrow> extend_row name (ti_columns t) vs)
        (\<lambda>row. ret (row @ nulls (n - length row))))"

definition insert_row ::
  "sql_runtime \<Rightarrow> int \<Rightarrow> string \<Rightarrow> string list \<Rightarrow> pyval list \<Rightarrow> unit action"
where
  "insert_row rt txn name col_names row =
     bind_db (get_db (\<lambda>db. assoc_get name (db_heaps db))) (\<lambda>h.
       case h of
         None \<Rightarrow> fail KeyError
       | Some hf \<Rightarrow>
           bind_db (\<lambda>db. case heap_insert (base_rt rt) hf (db_pool db) row of
                          (b, hf1, r) \<Rightarrow>
                            Some (db\<lparr>db_pool := b, db_heaps := assoc_put name hf1 (db_heaps db)\<rparr>, r)) (\<lambda>rid.
           bind_db (update_indexes_on_insert name row rid col_names) (\<lambda>_.
             modify_db (\<lambda>db. db\<lparr>db_wal := fst (log_insert (db_wal db) txn (ra_hash rt name mod 2 ^ 32)
               (rid_page rid) (int (rid_slot rid)) [])\<rparr>))))"

definition update_stats :: "string \<Rightarrow> (int \<Rightarrow> int) \<Rightarrow> unit action" where
  "update_stats name f =
     on_catalog (\<lambda>c. (case get_table c name of
                        Some t \<Rightarrow> update_table_stats c name (f (ti_row_count t)) | None \<Rightarrow> c, Inr ()))"

text \<open>The heap file of the table is in the dictionary once the handler has asked for it.\<close>

definition insert_values ::
  "sql_runtime \<Rightarrow> plan_fields \<Rightarrow> int \<Rightarrow> string \<Rightarrow> table_info \<Rightarrow> expr list \<Rightarrow> int \<Rightarrow> int action"
where
  "insert_values rt f txn name t exprs n =
     bind_db (from_result (mapr (eval_expr rt []) exprs)) (\<lambda>vs.
     bind_db (complete_row name t (pn_insert_columns f) vs) (\<lambda>row.
     bind_db (insert_row rt txn name (column_names t) row) (\<lambda>_. ret (n + 1))))"

definition exec_insert :: "sql_runtime \<Rightarrow> plan_fields \<Rightarrow> int \<Rightarrow> table action" where
  "exec_insert rt f txn =
     (let name = name_or_empty (pn_table_name f) in
      bind_db (table_named name) (\<lambda>t.
      bind_db (from_result (get_schema (base_rt rt) t)) (\<lambda>s.
      bind_db (get_or_create_heap rt name s) (\<lambda>_.
      bind_db (fold_action (insert_values rt f txn name t) (list_or_empty (pn_values f)) 0) (\<lambda>n.
      bind_db (update_stats name (\<lambda>k. k + n)) (\<lambda>_.
        ret (message_result n (str_of_int n @ '' row(s) inserted''))))))))"

text \<open>The predicate \<^verbatim>\<open>UPDATE\<close> and \<^verbatim>\<open>DELETE\<close> take from their child.\<close>

definition child_predicate :: "plan_node list \<Rightarrow> expr option" where
  "child_predicate cs = (case cs of [] \<Rightarrow> None | c # _ \<Rightarrow> pn_predicate (node_fields c))"

definition row_passes :: "sql_runtime \<Rightarrow> string list \<Rightarrow> expr option \<Rightarrow> pyval list \<Rightarrow> bool action" where
  "row_passes rt cols p vs = from_result (eval_predicate rt (row_dict cols vs) p)"

fun assign_values ::
  "sql_runtime \<Rightarrow> string list \<Rightarrow> row_dict \<Rightarrow> (string \<times> expr) list \<Rightarrow> pyval list \<Rightarrow> pyval list result"
where
  "assign_values rt cols row [] vs = Inr vs"
| "assign_values rt cols row ((c, e) # as) vs =
     bindr (index_of c cols) (\<lambda>j. bindr (eval_expr rt row e) (\<lambda>v.
       if j < length vs then assign_values rt cols row as (vs[j := v]) else Inl IndexError))"

definition exec_update :: "sql_runtime \<Rightarrow> plan_fields \<Rightarrow> plan_node list \<Rightarrow> table action \<Rightarrow> table action" where
  "exec_update rt f cs run_child =
     (let name = name_or_empty (pn_table_name f); p = child_predicate cs in
      bind_db (table_named name) (\<lambda>t.
      bind_db run_child (\<lambda>_.
      bind_db (from_result (get_schema (base_rt rt) t)) (\<lambda>s.
      bind_db (get_or_create_heap rt name s) (\<lambda>hf.
      bind_db (scan_loop rt hf (\<lambda>rid vs n.
                 bind_db (row_passes rt (column_names t) p vs) (\<lambda>b.
                   if \<not> b then ret n
                   else bind_db (from_result (assign_values rt (column_names t) (row_dict (column_names t) vs)
                                                (list_or_empty (pn_assignments f)) vs)) (\<lambda>vs'.
                        bind_db (on_pool (\<lambda>b. heap_update (base_rt rt) hf b rid vs')) (\<lambda>_. ret (n + 1)))))
               (0 :: int)) (\<lambda>n.
        ret (message_result n (str_of_int n @ '' row(s) updated''))))))))"

definition exec_delete :: "sql_runtime \<Rightarrow> plan_fields \<Rightarrow> plan_node list \<Rightarrow> table action" where
  "exec_delete rt f cs =
     (let name = name_or_empty (pn_table_name f); p = child_predicate cs in
      bind_db (table_named name) (\<lambda>t.
      bind_db (from_result (get_schema (base_rt rt) t)) (\<lambda>s.
      bind_db (get_or_create_heap rt name s) (\<lambda>hf.
      bind_db (scan_loop rt hf (\<lambda>rid vs rids.
                 bind_db (row_passes rt (column_names t) p vs) (\<lambda>b. ret (if b then rids @ [rid] else rids)))
               []) (\<lambda>rids.
      bind_db (fold_action (\<lambda>rid n. bind_db (on_pool (\<lambda>b. heap_delete hf b rid)) (\<lambda>_. ret (n + 1)))
                 rids (0 :: int)) (\<lambda>n.
      bind_db (update_stats name (\<lambda>k. max 0 (k - n))) (\<lambda>_.
        ret (message_result n (str_of_int n @ '' row(s) deleted'')))))))))"

section \<open>Scans\<close>

definition exec_seq_scan :: "sql_runtime \<Rightarrow> plan_fields \<Rightarrow> table action" where
  "exec_seq_scan rt f =
     (let name = name_or_empty (pn_table_name f) in
      bind_db (table_named name) (\<lambda>t.
      bind_db (from_result (get_schema (base_rt rt) t)) (\<lambda>s.
      bind_db (get_or_create_heap rt name s) (\<lambda>hf.
      bind_db (scan_loop rt hf (\<lambda>rid vs rows.
                 bind_db (row_passes rt (column_names t) (pn_predicate f) vs) (\<lambda>b.
                   ret (if b then rows @ [vs] else rows))) []) (\<lambda>rows.
        ret (table_result (column_names t) rows))))))"

text \<open>Rows of an index scan: those of a range without a test, those of a full scan with it.\<close>

definition fetch_rows ::
  "sql_runtime \<Rightarrow> heap_file \<Rightarrow> string list \<Rightarrow> expr option \<Rightarrow> (order_key \<times> record_id) list \<Rightarrow> pyval list list action"
where
  "fetch_rows rt hf cols p kvs =
     fold_action (\<lambda>(k, rid) rows.
       bind_db (on_pool (\<lambda>b. heap_read (base_rt rt) hf b rid)) (\<lambda>r.
         case r of
           Some (v # vs) \<Rightarrow>
             bind_db (row_passes rt cols p (v # vs)) (\<lambda>b. ret (if b then rows @ [v # vs] else rows))
         | _ \<Rightarrow> ret rows)) kvs []"

definition exec_index_scan :: "sql_runtime \<Rightarrow> plan_fields \<Rightarrow> table action" where
  "exec_index_scan rt f =
     (let name = name_or_empty (pn_table_name f) in
      bind_db (table_named name) (\<lambda>t.
      bind_db (from_result (get_schema (base_rt rt) t)) (\<lambda>s.
      bind_db (get_or_create_heap rt name s) (\<lambda>hf.
      bind_db (get_db (\<lambda>db. assoc_get (name_or_empty (pn_index_name f)) (db_indexes db))) (\<lambda>idx.
        case idx of
          None \<Rightarrow> exec_seq_scan rt f
        | Some tree \<Rightarrow>
            bind_db
              (case pn_scan_range f of
                 Some (low, high) \<Rightarrow>
                   bind_db (from_result (index_range tree low high)) (fetch_rows rt hf (column_names t) None)
               | None \<Rightarrow>
                   bind_db (from_result (scan_all tree)) (fetch_rows rt hf (column_names t) (pn_predicate f)))
              (\<lambda>rows. ret (table_result (column_names t) rows)))))))"

section \<open>Plans\<close>

definition child_at :: "plan_node list \<Rightarrow> nat \<Rightarrow> (plan_node \<Rightarrow> table action) \<Rightarrow> table action" where
  "child_at cs i run = (if i < length cs then run (cs ! i) else fail IndexError)"

lemma child_at_cong [fundef_cong]:
  "cs = ds \<Longrightarrow> i = j \<Longrightarrow> (\<And>c. c \<in> set ds \<Longrightarrow> f c = g c) \<Longrightarrow> child_at cs i f = child_at ds j g"
  by (simp add: child_at_def)

definition with_child :: "table action \<Rightarrow> (table \<Rightarrow> table result) \<Rightarrow> table action" where
  "with_child run f = bind_db run (\<lambda>t. from_result (f t))"

definition with_children ::
  "table action \<Rightarrow> table action \<Rightarrow> (table \<Rightarrow> table \<Rightarrow> table result) \<Rightarrow> table action"
where
  "with_children run1 run2 f = bind_db run1 (\<lambda>a. bind_db run2 (\<lambda>b. from_result (f a b)))"

text \<open>
  A hash join that cannot use its condition falls back on the nested loop, which executes the
  children a second time.
\<close>

definition run_hash_join ::
  "sql_runtime \<Rightarrow> join_type option \<Rightarrow> expr option \<Rightarrow> table action \<Rightarrow> table action \<Rightarrow> table action"
where
  "run_hash_join rt jt cond run1 run2 =
     bind_db run1 (\<lambda>a. bind_db run2 (\<lambda>b.
       if hash_columns cond a b = None then with_children run1 run2 (exec_nested_loop_join rt jt cond)
       else from_result (exec_hash_join rt jt cond a b)))"

text \<open>\<^verbatim>\<open>_execute_node\<close>; the transaction only labels log records.\<close>

fun exec_node :: "sql_runtime \<Rightarrow> int \<Rightarrow> plan_node \<Rightarrow> table action" where
  "exec_node rt txn (PlanNode f cs) =
     (case pn_type f of
        P_CREATE_TABLE \<Rightarrow> exec_create_table rt (pn_statement f)
      | P_DROP_TABLE \<Rightarrow> exec_drop_table (pn_table_name f) (pn_statement f)
      | P_CREATE_INDEX \<Rightarrow> exec_create_index rt (pn_statement f)
      | P_INSERT \<Rightarrow> exec_insert rt f txn
      | P_UPDATE \<Rightarrow> exec_update rt f cs (child_at cs 0 (exec_node rt txn))
      | P_DELETE \<Rightarrow> exec_delete rt f cs
      | P_SEQ_SCAN \<Rightarrow> exec_seq_scan rt f
      | P_INDEX_SCAN \<Rightarrow> exec_index_scan rt f
      | P_FILTER \<Rightarrow> with_child (child_at cs 0 (exec_node rt txn)) (exec_filter rt (pn_predicate f))
      | P_PROJECT \<Rightarrow> with_child (child_at cs 0 (exec_node rt txn)) (exec_project rt (pn_columns f))
      | P_SORT \<Rightarrow> with_child (child_at cs 0 (exec_node rt txn)) (exec_sort rt (pn_sort_keys f))
      | P_LIMIT \<Rightarrow> with_child (child_at cs 0 (exec_node rt txn))
          (\<lambda>t. Inr (exec_limit (pn_limit f) (pn_offset f) t))
      | P_DISTINCT \<Rightarrow> with_child (child_at cs 0 (exec_node rt txn)) (\<lambda>t. Inr (exec_distinct t))
      | P_NESTED_LOOP_JOIN \<Rightarrow>
          with_children (child_at cs 0 (exec_node rt txn)) (child_at cs 1 (exec_node rt txn))
            (exec_nested_loop_join rt (pn_join_type f) (pn_join_condition f))
      | P_HASH_JOIN \<Rightarrow>
          run_hash_join rt (pn_join_type f) (pn_join_condition f)
            (child_at cs 0 (exec_node rt txn)) (child_at cs 1 (exec_node rt txn))
      | P_AGGREGATE \<Rightarrow> with_child (child_at cs 0 (exec_node rt txn))
          (exec_aggregate rt (pn_group_by f) (pn_aggregates f))
      | P_VALUES \<Rightarrow> ret exec_values
      | P_SORT_MERGE_JOIN \<Rightarrow> fail RuntimeError)"

text \<open>\<^verbatim>\<open>execute\<close> without a transaction begins one, and commits it or aborts it.\<close>

definition begin_auto :: "int action" where
  "begin_auto db =
     (case begin_transaction (db_mvcc db) SNAPSHOT of (m, t) \<Rightarrow> Some (db\<lparr>db_mvcc := m\<rparr>, Inr t))"

definition abort_auto :: "int \<Rightarrow> database \<Rightarrow> database" where
  "abort_auto t db = db\<lparr>db_mvcc := abort_transaction (db_mvcc db) t\<rparr>"

definition commit_auto :: "int \<Rightarrow> bool action" where
  "commit_auto t db =
     (case commit_transaction (db_mvcc db) t of (m, r) \<Rightarrow> Some (db\<lparr>db_mvcc := m\<rparr>, r))"

definition execute_plan :: "sql_runtime \<Rightarrow> plan_node \<Rightarrow> int option \<Rightarrow> table action" where
  "execute_plan rt p txn =
     (case txn of
        Some t \<Rightarrow> exec_node rt t p
      | None \<Rightarrow>
          bind_db begin_auto (\<lambda>t db.
            case bind_db (exec_node rt t p) (\<lambda>res. bind_db (commit_auto t) (\<lambda>_. ret res)) db of
              None \<Rightarrow> None
            | Some (db1, Inl e) \<Rightarrow> Some (abort_auto t db1, Inl e)
            | Some (db1, Inr res) \<Rightarrow> Some (db1, Inr res)))"

end
