(* ===== verification/Table_Scan.thy ===== *)
theory Table_Scan
  imports Executor
begin

text \<open>
  What a table holds: the records of its pages in scan order.  A loop over the scan is a fold
  over them, and insertion and deletion change them as a multiset.
\<close>

section \<open>Loops over a list of rows\<close>

fun fold_result :: "('x \<Rightarrow> 'a \<Rightarrow> 'a result) \<Rightarrow> 'x list \<Rightarrow> 'a \<Rightarrow> 'a result" where
  "fold_result f [] a = Inr a"
| "fold_result f (x # xs) a = bindr (f x a) (fold_result f xs)"

lemma fold_result_append: "fold_result f (xs @ ys) a = bindr (fold_result f xs a) (fold_result f ys)"
  by (induction xs arbitrary: a) (auto simp: bindr_def split: sum.split)

lemma bind_db_steps:
  "m db = Some (db1, Inr x) \<Longrightarrow> bind_db m f db = f x db1"
  "m db = Some (db1, Inl e) \<Longrightarrow> bind_db m f db = Some (db1, Inl e)"
  by (simp_all add: bind_db_def)

lemma fold_action_pure:
  assumes "\<And>x a db. g x a db = Some (db, f x a)"
  shows "fold_action g xs a db = Some (db, fold_result f xs a)"
proof (induction xs arbitrary: a)
  case (Cons x xs)
  then show ?case by (cases "f x a") (simp_all add: bind_db_def assms)
qed (simp add: ret_def)

section \<open>The records of a table\<close>

definition sig_records :: "signature option \<Rightarrow> (nat \<times> byte list) list" where
  "sig_records v =
     (case v of
        None \<Rightarrow> []
      | Some (r, h) \<Rightarrow>
          concat (map (\<lambda>k. case r k of None \<Rightarrow> [] | Some d \<Rightarrow> [(k, d)]) [0..<nat (ph_num_slots h)]))"

definition file_records :: "pool \<Rightarrow> heap_file \<Rightarrow> (record_id \<times> byte list) list" where
  "file_records b hf =
     concat (map (\<lambda>pid. map (\<lambda>(k, d). (RID pid k, d)) (sig_records (pool_view b pid))) (hf_page_ids hf))"

lemma live_records_slots:
  "live_records_from k data ss =
     concat (map (\<lambda>i. if slot_deleted (ss ! (i - k)) then [] else [(i, slot_bytes data (ss ! (i - k)))])
       [k..<k + length ss])"
proof (induction ss arbitrary: k)
  case (Cons s ss)
  have shift: "map (\<lambda>i. if slot_deleted ((s # ss) ! (i - k)) then [] else [(i, slot_bytes data ((s # ss) ! (i - k)))])
      [Suc k..<Suc k + length ss] =
    map (\<lambda>i. if slot_deleted (ss ! (i - Suc k)) then [] else [(i, slot_bytes data (ss ! (i - Suc k)))])
      [Suc k..<Suc k + length ss]"
    by (rule map_cong) (auto simp: nth_Cons' Suc_diff_le)
  have up: "[k..<k + length (s # ss)] = k # [Suc k..<Suc k + length ss]" by (simp add: upt_conv_Cons del: upt_Suc)
  show ?case
    unfolding up list.map(2) shift concat.simps Cons.IH live_records_from.simps by simp
qed simp

lemma get_all_records_sig: "page_ok pid p \<Longrightarrow> get_all_records p = sig_records (page_sig p)"
  unfolding get_all_records_def live_records_slots sig_records_def page_sig_def
  by (auto simp: page_ok_def page_wf_def read_record_def Let_def intro!: arg_cong [where f = concat] map_cong)

lemma sig_records_set:
  "page_ok pid p \<Longrightarrow> (k, d) \<in> set (sig_records (page_sig p)) \<longleftrightarrow> read_record p k = Some d"
  unfolding sig_records_def page_sig_def
  by (auto simp: page_ok_def page_wf_def split: option.splits) (auto simp: read_record_def split: if_splits)

lemma view_page:
  assumes "ready b" "in_file b pid"
  obtains p where "pool_view b pid = page_sig p" "page_ok pid p"
  by (rule visit [OF assms]) (rule that)

lemma sig_records_distinct: "page_ok pid p \<Longrightarrow> distinct (map fst (sig_records (page_sig p)))"
  using live_records_distinct by (metis get_all_records_sig get_all_records_def)

lemma file_records_set:
  assumes "heap_inv b hf"
  shows "(rid, d) \<in> set (file_records b hf) \<longleftrightarrow> heap_contents b hf rid = Some d"
proof (cases "rid_page rid \<in> set (hf_page_ids hf)")
  case True
  then have "ready b" "in_file b (rid_page rid)" using assms by (simp_all add: heap_inv_def)
  then obtain p where p: "pool_view b (rid_page rid) = page_sig p" "page_ok (rid_page rid) p"
    by (rule view_page)
  have "(rid, d) \<in> set (file_records b hf) \<longleftrightarrow> (rid_slot rid, d) \<in> set (sig_records (pool_view b (rid_page rid)))"
    using True by (cases rid) (force simp: file_records_def)
  then show ?thesis
    using True p by (simp add: sig_records_set heap_contents_def)
qed (auto simp: heap_contents_def file_records_def)

lemma pages_distinct:
  assumes "ready b" "\<And>pid. pid \<in> set ids \<Longrightarrow> in_file b pid" "distinct ids"
  shows "distinct (concat (map (\<lambda>pid. map (\<lambda>(k, d). (RID pid k, d)) (sig_records (pool_view b pid))) ids))"
  using assms(2,3)
proof (induction ids)
  case (Cons pid ids)
  obtain p where p: "pool_view b pid = page_sig p" "page_ok pid p"
    by (rule view_page [OF assms(1)]) (use Cons.prems in auto)
  have "distinct (sig_records (pool_view b pid))"
    using p sig_records_distinct distinct_map by metis
  then show ?case
    using Cons by (auto simp: distinct_map inj_on_def)
qed simp

lemma file_records_distinct: "heap_inv b hf \<Longrightarrow> distinct (file_records b hf)"
  unfolding file_records_def by (rule pages_distinct) (auto simp: heap_inv_def)

lemma file_records_insert:
  assumes "heap_inv b hf" "heap_inv b' hf'" "heap_contents b hf rid = None"
    and "heap_contents b' hf' = (heap_contents b hf)(rid \<mapsto> rec)"
  shows "mset (file_records b' hf') = add_mset (rid, rec) (mset (file_records b hf))"
proof -
  have "set (file_records b' hf') = set ((rid, rec) # file_records b hf)"
    using assms by (auto simp: file_records_set split: if_splits)
  moreover have "distinct ((rid, rec) # file_records b hf)"
    using assms(1,3) file_records_distinct by (auto simp: file_records_set)
  ultimately have "mset (file_records b' hf') = mset ((rid, rec) # file_records b hf)"
    using file_records_distinct [OF assms(2)] set_eq_iff_mset_eq_distinct by metis
  then show ?thesis by simp
qed

lemma file_records_delete:
  assumes "heap_inv b hf" "heap_inv b' hf"
    and "heap_contents b' hf = (\<lambda>rid. if rid \<in> R then None else heap_contents b hf rid)"
  shows "mset (file_records b' hf) = mset (filter (\<lambda>(rid, d). rid \<notin> R) (file_records b hf))"
proof -
  have "set (file_records b' hf) = set (filter (\<lambda>(rid, d). rid \<notin> R) (file_records b hf))"
    using assms by (auto simp: file_records_set split: if_splits)
  then show ?thesis
    using file_records_distinct [OF assms(1)] file_records_distinct [OF assms(2)]
      set_eq_iff_mset_eq_distinct distinct_filter by metis
qed

section \<open>Loops over a scan\<close>

definition decode_step ::
  "py_runtime \<Rightarrow> table_schema \<Rightarrow> (record_id \<Rightarrow> pyval list \<Rightarrow> 'a \<Rightarrow> 'a result) \<Rightarrow>
   record_id \<times> byte list \<Rightarrow> 'a \<Rightarrow> 'a result"
where
  "decode_step rt s g = (\<lambda>(rid, d) a. bindr (record_deserialize rt s d) (\<lambda>vs. g rid vs a))"

lemma scan_records_pure:
  assumes "\<And>rid vs a db. body rid vs a db = Some (db, g rid vs a)" "page_ok pid p"
  shows "scan_records rt s body pid p a db = Some (db,
    fold_result (decode_step (base_rt rt) s g)
      (map (\<lambda>(k, d). (RID pid k, d)) (sig_records (page_sig p))) a)"
proof -
  have m: "fold_result f (map h xs) a = fold_result (\<lambda>x. f (h x)) xs a" for f h a and xs :: "'z list"
    by (induction xs arbitrary: a) (auto simp: bindr_def split: sum.split)
  have "scan_records rt s body pid p a db = Some (db,
      fold_result (\<lambda>x. decode_step (base_rt rt) s g (case x of (k, d) \<Rightarrow> (RID pid k, d))) (get_all_records p) a)"
    unfolding scan_records_def
    by (rule fold_action_pure)
      (auto simp: bind_db_def from_result_def decode_step_def assms(1) split: sum.splits prod.splits)
  then show ?thesis by (simp add: m get_all_records_sig [OF assms(2)])
qed

lemma scan_loop_pages:
  assumes "\<And>rid vs a db. body rid vs a db = Some (db, g rid vs a)"
    and "ready (db_pool db)" "\<And>pid. pid \<in> set ids \<Longrightarrow> in_file (db_pool db) pid"
  shows "\<exists>b'. fold_action (\<lambda>pid a.
       bind_db (on_pool (\<lambda>b. fetch_page b pid)) (\<lambda>p.
         bind_db (unpin_clean pid) (\<lambda>_. scan_records rt s body pid p a))) ids a db =
     Some (db\<lparr>db_pool := b'\<rparr>, fold_result (decode_step (base_rt rt) s g)
       (concat (map (\<lambda>pid. map (\<lambda>(k, d). (RID pid k, d)) (sig_records (pool_view (db_pool db) pid))) ids)) a) \<and>
     ready b' \<and> pool_view b' = pool_view (db_pool db) \<and>
     dk_num_pages (bp_disk b') = dk_num_pages (bp_disk (db_pool db))"
  using assms(2,3)
proof (induction ids arbitrary: a db)
  case Nil
  then show ?case by (intro exI [of _ "db_pool db"]) (simp add: ret_def)
next
  case (Cons pid ids)
  have pid: "in_file (db_pool db) pid" using Cons.prems(2) by simp
  obtain b1 p where b1: "fetch_page (db_pool db) pid = (b1, Inr p)" "pool_inv b1"
    "pool_view b1 = pool_view (db_pool db)"
    "page_ok pid p" "pool_view (db_pool db) pid = page_sig p" "holds b1 pid p"
    "pins b1 = (\<lambda>_. 0)(pid := 1)" "dk_num_pages (bp_disk b1) = dk_num_pages (bp_disk (db_pool db))"
    "bp_size b1 = bp_size (db_pool db)"
    by (rule visit [OF Cons.prems(1) pid])
  have two: "2 \<le> bp_size b1" using Cons.prems(1) b1(9) by (simp add: ready_def)
  obtain b2 where b2: "unpin_page b1 pid False = (b2, True)" "ready b2" "pool_view b2 = pool_view b1"
    "bp_disk b2 = bp_disk b1"
    by (rule visit_unpin [OF b1(2,6,7) two])
  let ?xs = "map (\<lambda>(k, d). (RID pid k, d)) (sig_records (page_sig p))"
  let ?step = "decode_step (base_rt rt) s g"
  let ?one = "\<lambda>pid a. bind_db (on_pool (\<lambda>b. fetch_page b pid)) (\<lambda>p.
      bind_db (unpin_clean pid) (\<lambda>_. scan_records rt s body pid p a))"
  have one: "?one pid a db = Some (db\<lparr>db_pool := b2\<rparr>, fold_result ?step ?xs a)"
    using b1(1) b2(1) scan_records_pure [where body = body and g = g, OF assms(1) b1(4)]
    by (simp add: bind_db_def on_pool_def unpin_clean_def)
  show ?case
  proof (cases "fold_result ?step ?xs a")
    case (Inl e)
    then have "fold_action ?one (pid # ids) a db = Some (db\<lparr>db_pool := b2\<rparr>, Inl e)"
      unfolding fold_action.simps using one by (subst bind_db_steps(2)) simp_all
    then show ?thesis
      using Inl b1(3,5,8) b2(2-4) by (intro exI [of _ b2]) (simp add: fold_result_append)
  next
    case (Inr a1)
    have files: "in_file (db_pool (db\<lparr>db_pool := b2\<rparr>)) q" if "q \<in> set ids" for q
      using that Cons.prems(2) b1(8) b2(4) by (simp add: in_file_def)
    obtain b' where "fold_action ?one ids a1 (db\<lparr>db_pool := b2\<rparr>) =
        Some (db\<lparr>db_pool := b'\<rparr>, fold_result ?step
          (concat (map (\<lambda>pid. map (\<lambda>(k, d). (RID pid k, d)) (sig_records (pool_view b2 pid))) ids)) a1)"
      "ready b'" "pool_view b' = pool_view b2" "dk_num_pages (bp_disk b') = dk_num_pages (bp_disk b2)"
      using Cons.IH [of "db\<lparr>db_pool := b2\<rparr>" a1] b2(2) files by auto
    moreover have "fold_action ?one (pid # ids) a db = fold_action ?one ids a1 (db\<lparr>db_pool := b2\<rparr>)"
      unfolding fold_action.simps using one Inr by (subst bind_db_steps(1)) simp_all
    ultimately show ?thesis
      using Inr b1(3,5,8) b2(3,4)
      by (intro exI [of _ b']) (simp add: fold_result_append)
  qed
qed

lemma scan_loop_pure:
  assumes "\<And>rid vs a db. body rid vs a db = Some (db, g rid vs a)" "heap_inv (db_pool db) hf"
  obtains b' where "scan_loop rt hf body a db = Some (db\<lparr>db_pool := b'\<rparr>,
      fold_result (decode_step (base_rt rt) (hf_schema hf) g) (file_records (db_pool db) hf) a)"
    "heap_inv b' hf" "pool_view b' = pool_view (db_pool db)"
    "dk_num_pages (bp_disk b') = dk_num_pages (bp_disk (db_pool db))"
proof -
  have r: "ready (db_pool db)" "pid \<in> set (hf_page_ids hf) \<Longrightarrow> in_file (db_pool db) pid" for pid
    using assms(2) by (simp_all add: heap_inv_def)
  obtain b' where b': "scan_loop rt hf body a db = Some (db\<lparr>db_pool := b'\<rparr>,
      fold_result (decode_step (base_rt rt) (hf_schema hf) g) (file_records (db_pool db) hf) a)"
    "ready b'" "pool_view b' = pool_view (db_pool db)"
    "dk_num_pages (bp_disk b') = dk_num_pages (bp_disk (db_pool db))"
    using scan_loop_pages [where body = body and g = g and ids = "hf_page_ids hf", OF assms(1) r]
    unfolding scan_loop_def file_records_def by blast
  then have "heap_inv b' hf" using assms(2) by (simp add: heap_inv_def in_file_def)
  with b' that show thesis by blast
qed

end
