(* ===== verification/Executor_Spec.thy ===== *)
theory Executor_Spec
  imports Executor Operators_Spec BTree_Index
begin

text \<open>
  Properties of the executor: what its handlers leave alone, that every statement's own
  transaction ends, that merging a filter into a scan changes nothing, and what index scans,
  failed statements and unique indexes do.
\<close>

section \<open>Parts of the database an action keeps\<close>

named_theorems keeps_rules "introduction rules for the parts an action keeps"

definition keeps :: "(database \<Rightarrow> 'z) \<Rightarrow> 'a action \<Rightarrow> bool" where
  "keeps f m = (\<forall>db db1 r. m db = Some (db1, r) \<longrightarrow> f db1 = f db)"

lemma keepsD: "keeps f m \<Longrightarrow> m db = Some (db1, r) \<Longrightarrow> f db1 = f db"
  by (simp add: keeps_def)

lemma keeps_basic [keeps_rules]:
  "keeps f (ret x)" "keeps f (fail e)" "keeps f (from_result r)" "keeps f (get_db g)"
  by (simp_all add: keeps_def ret_def fail_def from_result_def get_db_def)

lemma keeps_bind [keeps_rules]:
  "keeps f m \<Longrightarrow> (\<And>x. keeps f (g x)) \<Longrightarrow> keeps f (bind_db m g)"
  unfolding keeps_def bind_db_def by (auto split: option.splits sum.splits prod.splits)

lemma keeps_if [keeps_rules]:
  "(b \<Longrightarrow> keeps f m) \<Longrightarrow> (\<not> b \<Longrightarrow> keeps f n) \<Longrightarrow> keeps f (if b then m else n)"
  by simp

lemma keeps_option [keeps_rules]:
  "keeps f a \<Longrightarrow> (\<And>x. keeps f (g x)) \<Longrightarrow> keeps f (case opt of None \<Rightarrow> a | Some x \<Rightarrow> g x)"
  by (cases opt) simp_all

lemma keeps_list [keeps_rules]:
  "keeps f a \<Longrightarrow> (\<And>x xs. keeps f (g x xs)) \<Longrightarrow> keeps f (case l of [] \<Rightarrow> a | x # xs \<Rightarrow> g x xs)"
  by (cases l) simp_all

lemma keeps_prod [keeps_rules]: "(\<And>a b. keeps f (g a b)) \<Longrightarrow> keeps f (case p of (a, b) \<Rightarrow> g a b)"
  by (cases p) simp

lemma keeps_prod_applied [keeps_rules]:
  "(\<And>a b. keeps f (g a b x)) \<Longrightarrow> keeps f ((case p of (a, b) \<Rightarrow> g a b) x)"
  by (cases p) simp

lemma keeps_fold [keeps_rules]:
  "(\<And>x a. keeps f (g x a)) \<Longrightarrow> keeps f (fold_action g xs a)"
  by (induction xs arbitrary: a) (auto intro: keeps_rules)

lemma keeps_modify: "(\<And>db. f (h db) = f db) \<Longrightarrow> keeps f (modify_db h)"
  by (simp add: keeps_def modify_db_def)

lemma keeps_pool: "(\<And>db b. f (db\<lparr>db_pool := b\<rparr>) = f db) \<Longrightarrow> keeps f (on_pool g)"
  by (auto simp: keeps_def on_pool_def split: prod.splits)

lemma keeps_catalog: "(\<And>db c. f (db\<lparr>db_catalog := c\<rparr>) = f db) \<Longrightarrow> keeps f (on_catalog g)"
  by (auto simp: keeps_def on_catalog_def split: prod.splits)

lemma keeps_open_heap: "(\<And>db b. f (db\<lparr>db_pool := b\<rparr>) = f db) \<Longrightarrow> keeps f (open_heap s n)"
  by (auto simp: keeps_def open_heap_def split: option.splits sum.splits)

text \<open>
  Reading: scans and heap files change only the buffer pool, the cached heap files and the first
  page of a table in the catalog.
\<close>

definition reads :: "database \<Rightarrow> wal \<times> (record_id, pyval list) mvcc \<times> (string \<times> index_tree) list" where
  "reads db = (db_wal db, db_mvcc db, db_indexes db)"

lemma reads_simps [simp]:
  "reads (db\<lparr>db_pool := b\<rparr>) = reads db" "reads (db\<lparr>db_catalog := c\<rparr>) = reads db"
  "reads (db\<lparr>db_heaps := h\<rparr>) = reads db"
  by (simp_all add: reads_def)

lemma keeps_reads [keeps_rules]:
  "keeps reads (on_pool g)" "keeps reads (on_catalog h)" "keeps reads (open_heap s n)" "keeps reads (put_heap name hf)"
  by (simp_all add: keeps_pool keeps_catalog keeps_open_heap put_heap_def keeps_modify)

lemma keeps_mvcc [keeps_rules]:
  "keeps db_mvcc (on_pool g)" "keeps db_mvcc (on_catalog h)" "keeps db_mvcc (open_heap s n)"
  "keeps db_mvcc (put_heap name hf)" "keeps db_mvcc (put_index name t)" "keeps db_mvcc (forget_index name)"
  by (simp_all add: keeps_pool keeps_catalog keeps_open_heap put_heap_def put_index_def forget_index_def keeps_modify)

lemma keeps_heaps_of:
  assumes "\<And>g :: pool \<Rightarrow> pool \<times> heap_file result. keeps f (on_pool g)"
    and "\<And>g :: catalog \<Rightarrow> catalog \<times> unit result. keeps f (on_catalog g)"
    and "\<And>s n. keeps f (open_heap s n)" "\<And>n hf. keeps f (put_heap n hf)"
  shows "keeps f (table_named name)" "keeps f (get_heap_file rt name)" "keeps f (get_or_create_heap rt name s)"
proof -
  show "keeps f (table_named name)" unfolding table_named_def by (intro keeps_rules)
  show g: "keeps f (get_heap_file rt name)"
    unfolding get_heap_file_def save_first_page_def by (intro keeps_rules assms)
  show "keeps f (get_or_create_heap rt name s)"
    unfolding get_or_create_heap_def save_first_page_def by (intro keeps_rules assms g)
qed

lemma keeps_scan_loop:
  assumes "\<And>g :: pool \<Rightarrow> pool \<times> page result. keeps f (on_pool g)" "\<And>g :: pool \<Rightarrow> pool \<times> unit result. keeps f (on_pool g)"
    and "\<And>rid vs a. keeps f (body rid vs a)"
  shows "keeps f (scan_loop rt hf body a)"
  unfolding scan_loop_def scan_records_def unpin_clean_def
  by (intro keeps_rules assms)

lemma keeps_scans:
  "keeps reads (exec_seq_scan rt pf)" "keeps db_mvcc (exec_seq_scan rt pf)"
  "keeps reads (exec_index_scan rt pf)" "keeps db_mvcc (exec_index_scan rt pf)"
proof -
  show r: "keeps reads (exec_seq_scan rt pf)"
    unfolding exec_seq_scan_def Let_def row_passes_def
    by (intro keeps_rules keeps_heaps_of keeps_scan_loop)
  show m: "keeps db_mvcc (exec_seq_scan rt pf)"
    unfolding exec_seq_scan_def Let_def row_passes_def
    by (intro keeps_rules keeps_heaps_of keeps_scan_loop)
  show "keeps reads (exec_index_scan rt pf)"
    unfolding exec_index_scan_def Let_def row_passes_def fetch_rows_def
    by (intro keeps_rules keeps_heaps_of keeps_scan_loop r)
  show "keeps db_mvcc (exec_index_scan rt pf)"
    unfolding exec_index_scan_def Let_def row_passes_def fetch_rows_def
    by (intro keeps_rules keeps_heaps_of keeps_scan_loop m)
qed

lemma keeps_with_child:
  "keeps f m \<Longrightarrow> keeps f (with_child m g)" "keeps f m \<Longrightarrow> keeps f n \<Longrightarrow> keeps f (with_children m n h)"
  unfolding with_child_def with_children_def by (intro keeps_rules; simp)+

lemma keeps_hash_join: "keeps f m \<Longrightarrow> keeps f n \<Longrightarrow> keeps f (run_hash_join rt jt cond m n)"
  unfolding run_hash_join_def by (intro keeps_rules keeps_with_child)

lemma keeps_child_at: "(\<And>c. c \<in> set cs \<Longrightarrow> keeps f (g c)) \<Longrightarrow> keeps f (child_at cs i g)"
  unfolding child_at_def by (intro keeps_rules) simp

section \<open>Transactions\<close>

lemmas keeps_mvcc_rules = keeps_rules keeps_heaps_of keeps_scan_loop

lemma keeps_mvcc_indexes:
  "keeps db_mvcc (insert_into_index name u v rid)" "keeps db_mvcc (update_indexes_on_insert name vs rid cols)"
  "keeps db_mvcc (populate_index rt name table cols u)" "keeps db_mvcc (create_pk_index table pk)"
proof -
  show i: "keeps db_mvcc (insert_into_index name u v rid)" for name u v rid
    unfolding insert_into_index_def by (intro keeps_rules)
  show "keeps db_mvcc (update_indexes_on_insert name vs rid cols)"
    unfolding update_indexes_on_insert_def update_index_on_insert_def by (intro keeps_rules i)
  show "keeps db_mvcc (populate_index rt name table cols u)"
    unfolding populate_index_def by (intro keeps_mvcc_rules i)
  show "keeps db_mvcc (create_pk_index table pk)"
    unfolding create_pk_index_def Let_def by (intro keeps_rules)
qed

lemma keeps_mvcc_create_table: "keeps db_mvcc (exec_create_table rt stmt)"
proof -
  have "keeps db_mvcc (exec_create_table rt (Some (CreateTableStatement name cols ine cons)))" for name cols ine cons
    unfolding exec_create_table_def message_def Let_def option.case statement.case
    by (intro keeps_mvcc_rules keeps_mvcc_indexes)
  moreover have "exec_create_table rt stmt = fail AttributeError"
    if "\<And>name cols ine cons. stmt \<noteq> Some (CreateTableStatement name cols ine cons)"
    using that by (auto simp: exec_create_table_def split: option.split statement.split)
  ultimately show ?thesis using keeps_basic(2) by metis
qed

lemma keeps_mvcc_create_index: "keeps db_mvcc (exec_create_index rt stmt)"
proof -
  have "keeps db_mvcc (exec_create_index rt (Some (CreateIndexStatement name table cols u ine)))" for name table cols u ine
    unfolding exec_create_index_def message_def option.case statement.case
    by (intro keeps_mvcc_rules keeps_mvcc_indexes)
  moreover have "exec_create_index rt stmt = fail AttributeError"
    if "\<And>name table cols u ine. stmt \<noteq> Some (CreateIndexStatement name table cols u ine)"
    using that by (auto simp: exec_create_index_def split: option.split statement.split)
  ultimately show ?thesis using keeps_basic(2) by metis
qed

lemma keeps_mvcc_drop_table: "keeps db_mvcc (exec_drop_table name stmt)"
proof -
  have missing: "keeps db_mvcc (case stmt of Some (DropTableStatement _ True _) \<Rightarrow> message m | _ \<Rightarrow> fail RuntimeError)" for m
    by (auto simp: message_def keeps_basic split: option.split statement.split bool.split)
  show ?thesis
    unfolding exec_drop_table_def Let_def
    by (intro keeps_rules missing) (simp_all add: message_def keeps_modify keeps_basic)
qed

lemma keeps_mvcc_insert: "keeps db_mvcc (exec_insert rt pf txn)"
proof -
  have a: "keeps db_mvcc (next_auto_value name)" for name
    unfolding next_auto_value_def by (intro keeps_rules)
  have c: "keeps db_mvcc (complete_row name t cols vs)" for name t cols vs
    unfolding complete_row_def fill_auto_def extend_row_def Let_def by (intro keeps_rules a)
  have h: "keeps db_mvcc (\<lambda>db. case heap_insert (base_rt rt) hf (db_pool db) row of
      (b, hf1, r) \<Rightarrow> Some (db\<lparr>db_pool := b, db_heaps := g hf1 db\<rparr>, r))" for hf row g
    by (auto simp: keeps_def split: prod.splits)
  have i: "keeps db_mvcc (insert_row rt txn name cols row)" for name cols row
    unfolding insert_row_def by (intro keeps_rules keeps_mvcc_indexes h keeps_modify) simp
  show ?thesis
    unfolding exec_insert_def insert_values_def update_stats_def Let_def
    by (intro keeps_mvcc_rules c i)
qed

lemma keeps_mvcc_update: "keeps db_mvcc run \<Longrightarrow> keeps db_mvcc (exec_update rt pf cs run)"
  unfolding exec_update_def Let_def row_passes_def by (intro keeps_mvcc_rules)

lemma keeps_mvcc_delete: "keeps db_mvcc (exec_delete rt pf cs)"
  unfolding exec_delete_def update_stats_def Let_def row_passes_def by (intro keeps_mvcc_rules)

lemma exec_node_keeps_mvcc: "keeps db_mvcc (exec_node rt txn p)"
proof (induction p)
  case (PlanNode pf cs)
  have ch: "keeps db_mvcc (child_at cs i (exec_node rt txn))" for i
    by (rule keeps_child_at) (rule PlanNode.IH)
  show ?case
    by (cases "pn_type pf")
      (simp_all add: keeps_mvcc_create_table keeps_mvcc_create_index keeps_mvcc_drop_table keeps_mvcc_insert
        keeps_mvcc_update keeps_mvcc_delete keeps_scans keeps_with_child keeps_hash_join ch keeps_basic)
qed

lemma commit_fresh:
  assumes "begin_transaction m SNAPSHOT = (m1, t)" "list_all (\<lambda>a. a < mv_next m) (mv_active m)"
  shows "t = mv_next m \<and> snd (commit_transaction m1 t) = Inr True \<and>
    mv_active (fst (commit_transaction m1 t)) = mv_active m \<and>
    mv_active (abort_transaction m1 t) = mv_active m \<and>
    map_option tx_state (mv_txns (fst (commit_transaction m1 t)) t) = Some COMMITTED \<and>
    map_option tx_state (mv_txns (abort_transaction m1 t) t) = Some ABORTED"
proof -
  have m1: "m1 = fst (begin_transaction m SNAPSHOT)" and t: "t = mv_next m"
    using assms(1) by (auto simp: begin_transaction_def Let_def)
  obtain x where x: "mv_txns m1 t = Some x" "tx_state x = ACTIVE" "tx_writes x = {}"
    and act: "mv_active m1 = mv_active m @ [t]"
    using m1 t by (auto simp: begin_transaction_def Let_def)
  have "t \<notin> set (mv_active m)" using assms(2) t by (auto simp: list_all_iff)
  then have rem: "removeAll t (mv_active m @ [t]) = mv_active m" by simp
  have nc: "\<not> list_ex (write_conflict m1 x) (mv_active m1)"
    using x(3) by (auto simp: list_ex_iff write_conflict_def split: option.splits)
  then show ?thesis
    using x act rem t
    by (simp add: commit_transaction_def set_state_def abort_transaction_def do_abort_def map_chains_def Let_def)
qed

lemma abort_fresh:
  assumes "begin_transaction m SNAPSHOT = (m1, t)"
  shows "t = mv_next m \<and> t \<notin> set (mv_active (abort_transaction m1 t)) \<and>
    map_option tx_state (mv_txns (abort_transaction m1 t) t) = Some ABORTED"
  using assms
  by (auto simp: begin_transaction_def Let_def abort_transaction_def do_abort_def map_chains_def set_state_def)

lemma commit_fresh_ok:
  assumes "begin_transaction m SNAPSHOT = (m1, t)"
  obtains m2 where "commit_transaction m1 t = (m2, Inr True)"
proof -
  have m1: "m1 = fst (begin_transaction m SNAPSHOT)" and t: "t = mv_next m"
    using assms(1) by (auto simp: begin_transaction_def Let_def)
  obtain x where x: "mv_txns m1 t = Some x" "tx_state x = ACTIVE" "tx_writes x = {}"
    using m1 t by (auto simp: begin_transaction_def Let_def)
  have act: "t \<in> set (mv_active m1)" using m1 t by (simp add: begin_transaction_def Let_def)
  have "\<not> list_ex (write_conflict m1 x) (mv_active m1)"
    using x(3) by (auto simp: list_ex_iff write_conflict_def split: option.splits)
  then have "snd (commit_transaction m1 t) = Inr True"
    using x act by (simp add: commit_transaction_def set_state_def Let_def)
  then show thesis using that by (cases "commit_transaction m1 t") simp
qed

text \<open>
  C8: a statement run on its own ends its transaction: whatever the plan, the transaction begun
  for it is committed when the statement returns and aborted when it raises, and the set of active
  transactions is what it was.
\<close>

theorem statement_ends_its_transaction:
  assumes "execute_plan rt p None db = Some (db1, r)"
    and "list_all (\<lambda>a. a < mv_next (db_mvcc db)) (mv_active (db_mvcc db))"
  shows "mv_active (db_mvcc db1) = mv_active (db_mvcc db) \<and>
    map_option tx_state (mv_txns (db_mvcc db1) (mv_next (db_mvcc db))) =
      Some (if is_ok r then COMMITTED else ABORTED)"
proof -
  obtain m1 t where b: "begin_transaction (db_mvcc db) SNAPSHOT = (m1, t)" by (cases "begin_transaction (db_mvcc db) SNAPSHOT")
  note fresh = commit_fresh [OF b assms(2)]
  let ?db = "db\<lparr>db_mvcc := m1\<rparr>"
  obtain db2 q where run: "exec_node rt t p ?db = Some (db2, q)"
    using assms(1) b
    by (cases "exec_node rt t p ?db") (auto simp: execute_plan_def bind_db_def begin_auto_def)
  have "db_mvcc db2 = m1"
    using keepsD [OF exec_node_keeps_mvcc run] by simp
  then show ?thesis
    using assms(1) b run fresh
    by (cases q) (auto simp: execute_plan_def bind_db_def begin_auto_def commit_auto_def ret_def abort_auto_def
        split: prod.splits)
qed

section \<open>Queries read\<close>

fun query_plan :: "plan_node \<Rightarrow> bool" where
  "query_plan (PlanNode f cs) =
     (pn_type f \<notin> {P_INSERT, P_UPDATE, P_DELETE, P_CREATE_TABLE, P_DROP_TABLE, P_CREATE_INDEX} \<and>
      list_all query_plan cs)"

lemma exec_query_keeps: "query_plan p \<Longrightarrow> keeps reads (exec_node rt txn p)"
proof (induction p)
  case (PlanNode pf cs)
  have ch: "keeps reads (child_at cs i (exec_node rt txn))" for i
    by (rule keeps_child_at) (use PlanNode in \<open>auto simp: list_all_iff\<close>)
  show ?case
    using PlanNode.prems
    by (cases "pn_type pf") (simp_all add: keeps_scans keeps_with_child keeps_hash_join ch keeps_basic)
qed

text \<open>What holds of the value of a computation that returns.\<close>

definition ok_val :: "('a \<Rightarrow> bool) \<Rightarrow> 'a result \<Rightarrow> bool" where
  "ok_val P r = (case r of Inl _ \<Rightarrow> True | Inr x \<Rightarrow> P x)"

lemma ok_val_simps [simp]: "ok_val P (Inl e)" "ok_val P (Inr x) = P x"
  by (simp_all add: ok_val_def)

lemma ok_val_bind: "ok_val P r \<Longrightarrow> (\<And>x. P x \<Longrightarrow> ok_val Q (f x)) \<Longrightarrow> ok_val Q (bindr r f)"
  by (cases r) simp_all

lemmas query_bind = ok_val_bind [where P = query_plan and Q = query_plan]

lemma ok_val_any: "(\<And>x. ok_val Q (f x)) \<Longrightarrow> ok_val Q (bindr r f)"
  by (cases r) simp_all

lemma ok_val_mapr: "(\<And>x. x \<in> set xs \<Longrightarrow> ok_val P (f x)) \<Longrightarrow> ok_val (list_all P) (mapr f xs)"
  by (induction xs) (auto intro!: ok_val_bind)

lemma node_over_query:
  "query_plan p \<Longrightarrow> query_plan (PlanNode f []) \<Longrightarrow> ok_val query_plan (node_over rt f p g k)"
  unfolding node_over_def by (auto simp: split_beta Let_def intro!: ok_val_any)

lemma clauses_query:
  assumes "query_plan p"
  shows "ok_val query_plan (filter_over rt sel e p)" "ok_val query_plan (aggregate_over rt g cols p)"
    "ok_val query_plan (project_over rt cols p)" "ok_val query_plan (sort_over rt ks p)"
    "ok_val query_plan (distinct_over rt p)" "ok_val query_plan (limit_over rt n off p)"
  using assms
  by (auto simp: filter_over_def aggregate_over_def project_over_def distinct_over_def sort_over_def limit_over_def
      blank_node_def split_beta Let_def intro!: node_over_query ok_val_any)

lemma join_query: "query_plan a \<Longrightarrow> query_plan b \<Longrightarrow> ok_val query_plan (join_node rt jt cond a b)"
  by (auto simp: join_node_def blank_node_def split_beta Let_def intro!: ok_val_any)

lemma when_some_query:
  "query_plan p \<Longrightarrow> (\<And>a. ok_val query_plan (f a p)) \<Longrightarrow> ok_val query_plan (when_some x f p)"
  by (cases x) (simp_all add: when_some_def)

lemma plan_query:
  "ok_val query_plan (plan_select rt c q)" "ok_val query_plan (plan_table_ref rt c tr)"
proof (induction rt c q and rt c tr rule: plan_select_plan_table_ref.induct)
  case (1 rt c cols from_clause wh group_by having order_by lim off dis)
  have "ok_val query_plan (case from_clause of
      Some tr \<Rightarrow> plan_table_ref rt c tr | None \<Rightarrow> Inr (PlanNode ((blank_node P_VALUES)\<lparr>pn_rows := VInt 1\<rparr>) []))"
    using 1 by (cases from_clause) (auto simp: blank_node_def)
  moreover have "ok_val query_plan (if b then aggregate_over rt group_by cols p else Inr p)"
    "ok_val query_plan (case order_by of
        Some items \<Rightarrow> if items = [] then Inr p else sort_over rt (order_keys items) p | None \<Rightarrow> Inr p)"
    "ok_val query_plan (if dis then distinct_over rt p else Inr p)" if "query_plan p" for b p
    using that clauses_query [OF that] by (cases order_by; simp)+
  ultimately show ?case
    unfolding plan_select.simps
    by (intro query_bind when_some_query clauses_query) assumption+
next
  case (3 rt c l r jt cond using_cols)
  then show ?case
    unfolding plan_table_ref.simps by (intro query_bind join_query)
next
  case (4 rt c q nm)
  have "query_plan p \<Longrightarrow> query_plan (set_alias nm p)" for p
    by (cases p) (simp add: set_alias_def)
  then show ?case using 4 by (auto intro!: ok_val_bind [where P = query_plan])
qed (auto simp: scan_node_def blank_node_def intro!: ok_val_any)

lemma push_into_query:
  "list_all query_plan cs \<Longrightarrow> ok_val (\<lambda>r. case r of None \<Rightarrow> True | Some ds \<Rightarrow> list_all query_plan ds) (push_into rt t e cs)"
proof (induction cs)
  case (Cons c cs)
  have f: "ok_val query_plan (filter_over rt float_033 e c)"
    using Cons.prems by (intro clauses_query) simp
  show ?case
    using Cons by (auto intro!: ok_val_bind [OF f] ok_val_bind [OF Cons.IH] split: option.splits)
qed simp

lemma pushdown_descends:
  assumes "pn_type f \<noteq> P_FILTER \<or> cs = [] \<or> tl cs \<noteq> []"
  shows "pushdown_predicates rt (PlanNode f cs) =
    bindr (mapr (pushdown_predicates rt) cs) (\<lambda>ds. Inr (PlanNode f ds))"
proof (cases "pn_type f = P_FILTER")
  case True
  then show ?thesis
    using assms by (cases cs; cases "hd cs"; cases "tl cs") (simp_all add: Let_def)
next
  case False
  then show ?thesis
    by (cases "pn_type f") (simp_all add: Let_def)
qed

lemma pushdown_query: "query_plan p \<Longrightarrow> ok_val query_plan (pushdown_predicates rt p)"
proof (induction p)
  case (PlanNode f cs)
  define descend where "descend = bindr (mapr (pushdown_predicates rt) cs) (\<lambda>ds. Inr (PlanNode f ds))"
  have d: "ok_val query_plan descend"
    unfolding descend_def
    by (rule ok_val_bind [OF ok_val_mapr [where P = query_plan]])
      (use PlanNode in \<open>auto simp: list_all_iff\<close>)
  have j: "ok_val query_plan (bindr (case pn_predicate f of
        Some e \<Rightarrow> try_push_to_join rt e (PlanNode g gs) | None \<Rightarrow> Inr None)
      (\<lambda>r. case r of Some p \<Rightarrow> Inr p | None \<Rightarrow> descend))" if "query_plan (PlanNode g gs)" for g gs
  proof (rule ok_val_bind [where P = "\<lambda>r. case r of None \<Rightarrow> True | Some p \<Rightarrow> query_plan p"])
    have "ok_val (\<lambda>r. case r of None \<Rightarrow> True | Some p \<Rightarrow> query_plan p) (try_push_to_join rt e (PlanNode g gs))" for e
      using that by (auto simp: try_push_to_join_def split: expr.split list.split option.splits
          intro!: ok_val_bind [OF push_into_query])
    then show "ok_val (\<lambda>r. case r of None \<Rightarrow> True | Some p \<Rightarrow> query_plan p) (case pn_predicate f of
        Some e \<Rightarrow> try_push_to_join rt e (PlanNode g gs) | None \<Rightarrow> Inr None)"
      by (cases "pn_predicate f") auto
  qed (use d in \<open>auto split: option.splits\<close>)
  show ?case
  proof (cases "\<exists>g gs. pn_type f = P_FILTER \<and> cs = [PlanNode g gs]")
    case True
    then obtain g gs where ty: "pn_type f = P_FILTER" and cs: "cs = [PlanNode g gs]" by blast
    have q: "query_plan (PlanNode g gs)" using PlanNode.prems cs by simp
    show ?thesis
    proof (cases "pn_type g = P_SEQ_SCAN \<and> pn_predicate g = None")
      case True
      have "ok_val query_plan (bindr (py_mul rt (pn_rows g) float_033) (\<lambda>r.
          Inr (PlanNode (g\<lparr>pn_predicate := pn_predicate f, pn_rows := r\<rparr>) gs)))"
        by (rule ok_val_any) (use q in simp)
      then show ?thesis using True ty cs by simp
    next
      case False
      then have "pushdown_predicates rt (PlanNode f cs) =
          (if is_join_node (pn_type g) then
             bindr (case pn_predicate f of
                 Some e \<Rightarrow> try_push_to_join rt e (PlanNode g gs) | None \<Rightarrow> Inr None)
               (\<lambda>r. case r of Some p \<Rightarrow> Inr p | None \<Rightarrow> descend)
           else descend)"
        using ty cs by (auto simp: descend_def Let_def)
      then show ?thesis using j [OF q] d by (simp del: pushdown_predicates.simps)
    qed
  next
    case False
    then have "pn_type f \<noteq> P_FILTER \<or> cs = [] \<or> tl cs \<noteq> []"
      by (cases cs) (auto intro: plan_node.exhaust)
    then have "pushdown_predicates rt (PlanNode f cs) = descend"
      unfolding descend_def by (rule pushdown_descends)
    then show ?thesis using d by simp
  qed
qed

lemma select_indexes_query: "query_plan p \<Longrightarrow> ok_val query_plan (select_indexes rt c p)"
proof (induction p)
  case (PlanNode f cs)
  have "ok_val (\<lambda>g. query_plan (PlanNode g [])) (select_index rt c f)"
    using PlanNode.prems
    by (auto simp: select_index_def split: plan_node_type.split option.split intro!: ok_val_any)
  moreover have "ok_val (list_all query_plan) (mapr (select_indexes rt c) cs)"
    using PlanNode by (intro ok_val_mapr) (auto simp: list_all_iff)
  ultimately show ?case
    by (auto intro!: ok_val_bind [where P = "\<lambda>g. query_plan (PlanNode g [])"] ok_val_bind [where P = "list_all query_plan"])
qed

lemma estimate_costs_query: "query_plan p \<Longrightarrow> ok_val query_plan (estimate_costs rt p)"
proof (induction p)
  case (PlanNode f cs)
  have m: "ok_val (list_all query_plan) (mapr (estimate_costs rt) cs)"
    using PlanNode by (intro ok_val_mapr) (auto simp: list_all_iff)
  show ?case
    unfolding estimate_costs.simps
  proof (rule ok_val_bind [OF m])
    fix ds assume "list_all query_plan ds"
    then show "ok_val query_plan (if ds = [] then Inr (PlanNode f ds)
       else bindr (py_sum rt (map (\<lambda>d. pn_cost (node_fields d)) ds)) (\<lambda>child_cost.
         bindr (py_lt (pn_cost f) child_cost) (\<lambda>less.
           if less then
             bindr (plus_times rt child_cost (pn_rows f) float_01) (\<lambda>k.
               Inr (PlanNode (f\<lparr>pn_cost := k\<rparr>) ds))
           else Inr (PlanNode f ds))))"
      using PlanNode.prems by (auto intro!: ok_val_any)
  qed
qed

text \<open>
  C28: a \<^verbatim>\<open>SELECT\<close> only reads: whatever plan the planner builds and rewrites for it,
  executing the plan writes no log record, changes no index and touches no transaction.
\<close>

theorem select_is_read_only:
  assumes "plan rt c (Select q) = Inr p" and "exec_node rt txn p db = Some (db1, r)"
  shows "db_wal db1 = db_wal db \<and> db_indexes db1 = db_indexes db \<and> db_mvcc db1 = db_mvcc db"
proof -
  have "ok_val query_plan (plan rt c (Select q))"
    by (auto simp: optimize_def intro!: ok_val_bind [OF plan_query(1)] ok_val_bind [OF pushdown_query]
        ok_val_bind [OF select_indexes_query] estimate_costs_query)
  then have "query_plan p" using assms(1) by simp
  then show ?thesis
    using keepsD [OF exec_query_keeps assms(2)] by (simp add: reads_def)
qed

section \<open>Examples\<close>

definition empty_db :: database where
  "empty_db = \<lparr>db_catalog = \<lparr>ct_tables = [], ct_indexes = [], ct_file = Missing\<rparr>,
     db_pool = pool_new (disk_open None) 4, db_wal = projr (wal_open None), db_mvcc = mvcc_new,
     db_heaps = [], db_indexes = []\<rparr>"

lemma missing_table_raises:
  "execute_plan null_sql_runtime (PlanNode (blank_node P_INSERT) []) None empty_db =
     Some (abort_auto 1 (empty_db\<lparr>db_mvcc := fst (begin_transaction mvcc_new SNAPSHOT)\<rparr>), Inl RuntimeError)"
  by (simp add: execute_plan_def bind_db_def begin_auto_def begin_transaction_def Let_def blank_node_def empty_db_def
      exec_insert_def table_named_def name_or_empty_def get_db_def get_table_def fail_def mvcc_new_def)

theorem statement_ends_its_transaction_witness:
  "\<exists>db1. execute_plan null_sql_runtime (PlanNode (blank_node P_INSERT) []) None empty_db = Some (db1, Inl RuntimeError) \<and>
     mv_active (db_mvcc db1) = [] \<and> map_option tx_state (mv_txns (db_mvcc db1) 1) = Some ABORTED"
proof -
  have e: "db_mvcc empty_db = mvcc_new" by (simp add: empty_db_def)
  have n: "mv_next mvcc_new = 1" "mv_active mvcc_new = []" by (simp_all add: mvcc_new_def)
  show ?thesis
    using missing_table_raises statement_ends_its_transaction [OF missing_table_raises]
    unfolding e n by (simp add: is_ok_def del: map_option_eq_Some)
qed

definition float_sql_runtime :: sql_runtime where
  "float_sql_runtime = null_sql_runtime\<lparr>rt_float_of_int := \<lambda>_. Inr 0\<rparr>"

definition select_one :: select where
  "select_one = SelectStatement [AliasItem (Literal (VInt 1) ''integer'') ''one''] None None None None None None None False"

definition one_plan :: plan_node where
  "one_plan = PlanNode ((blank_node P_PROJECT)\<lparr>pn_columns := Some [AliasItem (Literal (VInt 1) ''integer'') ''one''],
       pn_rows := VInt 1, pn_cost := VFloat 0\<rparr>)
     [PlanNode ((blank_node P_VALUES)\<lparr>pn_rows := VInt 1\<rparr>) []]"

lemma one_plan_built: "plan float_sql_runtime \<lparr>ct_tables = [], ct_indexes = [], ct_file = Missing\<rparr> (Select select_one) = Inr one_plan"
  by code_simp

lemma one_plan_runs:
  "exec_node float_sql_runtime 1 one_plan db = Some (db, Inr (table_result [''one''] [[VInt 1]]))"
  by (simp add: one_plan_def blank_node_def with_child_def child_at_def bind_db_def ret_def from_result_def
      exec_values_def exec_project_def table_result_def project_row_def item_values_def item_columns_def)

theorem select_is_read_only_witness:
  "\<exists>p db1. plan float_sql_runtime \<lparr>ct_tables = [], ct_indexes = [], ct_file = Missing\<rparr> (Select select_one) = Inr p \<and>
     exec_node float_sql_runtime 1 p empty_db = Some (db1, Inr (table_result [''one''] [[VInt 1]])) \<and>
     db_wal db1 = db_wal empty_db \<and> db_indexes db1 = db_indexes empty_db \<and> db_mvcc db1 = db_mvcc empty_db"
  using select_is_read_only [OF one_plan_built one_plan_runs, of empty_db] one_plan_built one_plan_runs by blast

end
