(* ===== verification/Statements_Spec.thy ===== *)
theory Statements_Spec
  imports Table_Scan Executor_Spec
begin

text \<open>
  Statements on one table against its rows: a scan returns them, an insertion adds one, a deletion
  takes away those its condition selects, and an insertion that fails half way keeps the rows it
  has already written.
\<close>

section \<open>The rows of a table\<close>

definition decode_rows :: "sql_runtime \<Rightarrow> table_schema \<Rightarrow> (record_id \<times> byte list) list \<Rightarrow> pyval list list result" where
  "decode_rows rt s recs = mapr (\<lambda>(rid, d). record_deserialize (base_rt rt) s d) recs"

definition table_holds :: "sql_runtime \<Rightarrow> database \<Rightarrow> string \<Rightarrow> table_info \<Rightarrow> pyval list list \<Rightarrow> bool" where
  "table_holds rt db name t rows =
     (get_table (db_catalog db) name = Some t \<and>
      (\<exists>hf. assoc_get name (db_heaps db) = Some hf \<and> heap_inv (db_pool db) hf \<and>
         get_schema (base_rt rt) t = Inr (hf_schema hf) \<and>
         decode_rows rt (hf_schema hf) (file_records (db_pool db) hf) = Inr rows))"

lemma table_holdsE:
  assumes "table_holds rt db name t rows"
  obtains hf where "get_table (db_catalog db) name = Some t" "assoc_get name (db_heaps db) = Some hf"
    "heap_inv (db_pool db) hf" "get_schema (base_rt rt) t = Inr (hf_schema hf)"
    "decode_rows rt (hf_schema hf) (file_records (db_pool db) hf) = Inr rows"
  using assms unfolding table_holds_def by blast

lemma mapr_ok_iff: "mapr f xs = Inr ys \<longleftrightarrow> (\<forall>x \<in> set xs. is_ok (f x)) \<and> ys = map (projr \<circ> f) xs"
proof (induction xs arbitrary: ys)
  case (Cons x xs)
  then show ?case by (cases "f x") (auto simp: bindr_Inr_iff is_ok_def)
qed auto

lemma table_named_found:
  "get_table (db_catalog db) name = Some t \<Longrightarrow> table_named name db = Some (db, Inr t)"
  by (simp add: table_named_def bind_db_def get_db_def ret_def)

lemma heap_cached:
  "assoc_get name (db_heaps db) = Some hf \<Longrightarrow> get_or_create_heap rt name s db = Some (db, Inr hf)"
  by (simp add: get_or_create_heap_def get_heap_file_def bind_db_def get_db_def ret_def)

lemma open_table:
  assumes "get_table (db_catalog db) name = Some t" "assoc_get name (db_heaps db) = Some hf"
    "get_schema (base_rt rt) t = Inr (hf_schema hf)"
  shows "bind_db (table_named name) (\<lambda>t. bind_db (from_result (get_schema (base_rt rt) t)) (\<lambda>s.
      bind_db (get_or_create_heap rt name s) (\<lambda>hf. run t s hf))) db = run t (hf_schema hf) hf db"
  using table_named_found [OF assms(1)] heap_cached [OF assms(2), of rt "hf_schema hf"] assms(3)
  by (simp add: bind_db_def from_result_def)

lemma fold_decoded:
  assumes "decode_rows rt s recs = Inr rows"
  shows "fold_result (decode_step (base_rt rt) s g) recs a =
    fold_result (\<lambda>(rid, vs). g rid vs) (zip (map fst recs) rows) a"
  using assms unfolding decode_rows_def
proof (induction recs arbitrary: rows a)
  case (Cons x recs)
  then show ?case
    by (cases x) (auto simp: bindr_Inr_iff decode_step_def bindr_def split: sum.splits)
qed simp

section \<open>Scans\<close>

lemma collect_rows:
  assumes "length rids = length rows"
  shows "fold_result (\<lambda>(rid, vs) acc. bindr (eval_predicate rt (row_dict cols vs) p)
      (\<lambda>b. Inr (if b then acc @ [vs] else acc))) (zip rids rows) acc =
    bindr (filter_rows rt cols p rows) (\<lambda>hits. Inr (acc @ hits))"
  using assms
  by (induction rids rows arbitrary: acc rule: list_induct2) (auto simp: bindr_def split: sum.splits)

lemma pure_filter_body:
  "bind_db (row_passes rt cols p vs) (\<lambda>b. ret (f b)) db =
   Some (db, bindr (eval_predicate rt (row_dict cols vs) p) (\<lambda>b. Inr (f b)))"
  by (simp add: bind_db_def row_passes_def from_result_def ret_def bindr_def split: sum.split)

lemma decode_length: "decode_rows rt s recs = Inr rows \<Longrightarrow> length recs = length rows"
  unfolding decode_rows_def by (metis mapr_length)

lemma pool_only:
  assumes "get_table (db_catalog db) name = Some t" "assoc_get name (db_heaps db) = Some hf"
    "get_schema (base_rt rt) t = Inr (hf_schema hf)"
    "decode_rows rt (hf_schema hf) (file_records (db_pool db) hf) = Inr rows"
    and "heap_inv b' hf" "pool_view b' = pool_view (db_pool db)"
  shows "table_holds rt (db\<lparr>db_pool := b'\<rparr>) name t rows"
  using assms unfolding table_holds_def by (simp add: file_records_def)

lemma scan_held:
  assumes "table_holds rt db name t rows" "pn_table_name f = Some name"
  shows "\<exists>b. exec_seq_scan rt f db =
      Some (db\<lparr>db_pool := b\<rparr>, exec_filter rt (pn_predicate f) (table_result (column_names t) rows)) \<and>
    table_holds rt (db\<lparr>db_pool := b\<rparr>) name t rows \<and>
    pool_view b = pool_view (db_pool db) \<and> dk_num_pages (bp_disk b) = dk_num_pages (bp_disk (db_pool db))"
proof -
  obtain hf where h: "get_table (db_catalog db) name = Some t" "assoc_get name (db_heaps db) = Some hf"
    "heap_inv (db_pool db) hf" "get_schema (base_rt rt) t = Inr (hf_schema hf)"
    "decode_rows rt (hf_schema hf) (file_records (db_pool db) hf) = Inr rows"
    by (rule table_holdsE [OF assms(1)])
  let ?cols = "column_names t" and ?p = "pn_predicate f"
  let ?body = "\<lambda>rid vs rows. bind_db (row_passes rt ?cols ?p vs) (\<lambda>b. ret (if b then rows @ [vs] else rows))"
  let ?g = "\<lambda>rid vs rows. bindr (eval_predicate rt (row_dict ?cols vs) ?p) (\<lambda>b. Inr (if b then rows @ [vs] else rows))"
  have body: "?body rid vs a d = Some (d, ?g rid vs a)" for rid vs a d
    by (rule pure_filter_body)
  obtain b where b: "scan_loop rt hf ?body [] db = Some (db\<lparr>db_pool := b\<rparr>,
      fold_result (decode_step (base_rt rt) (hf_schema hf) ?g) (file_records (db_pool db) hf) [])"
    "heap_inv b hf" "pool_view b = pool_view (db_pool db)"
    "dk_num_pages (bp_disk b) = dk_num_pages (bp_disk (db_pool db))"
    by (rule scan_loop_pure [where body = ?body and g = ?g, OF body h(3)])
  have "fold_result (decode_step (base_rt rt) (hf_schema hf) ?g) (file_records (db_pool db) hf) [] =
      filter_rows rt ?cols ?p rows"
    using fold_decoded [OF h(5), of ?g "[]"] collect_rows [of "map fst (file_records (db_pool db) hf)" rows rt ?cols ?p "[]"]
      decode_length [OF h(5)] by simp
  then have "exec_seq_scan rt f db = Some (db\<lparr>db_pool := b\<rparr>, exec_filter rt ?p (table_result ?cols rows))"
    using b(1) assms(2)
    unfolding exec_seq_scan_def
    by (simp add: name_or_empty_def Let_def open_table [OF h(1,2,4)])
      (simp add: bind_db_def exec_filter_def table_result_def ret_def bindr_def split: sum.split)
  then show ?thesis using pool_only [OF h(1,2,4,5) b(2,3)] b(3,4) by blast
qed

text \<open>
  C17: scanning a table returns the rows it holds that satisfy the scan's predicate, in the order
  of the pages: a scan is the filter over the whole table.  The table holds the same rows
  afterwards.
\<close>

theorem scan_reads_table:
  assumes "table_holds rt db name t rows" "pn_table_name f = Some name"
  shows "\<exists>b. exec_seq_scan rt f db =
      Some (db\<lparr>db_pool := b\<rparr>, exec_filter rt (pn_predicate f) (table_result (column_names t) rows)) \<and>
    table_holds rt (db\<lparr>db_pool := b\<rparr>) name t rows"
  using scan_held [OF assms] by blast

text \<open>
  C18: merging a filter into the scan below it changes no answer: when a table holds rows, the plan
  before \<^verbatim>\<open>pushdown_predicates\<close> and the plan after it give the same result, the
  rows or the error.
\<close>

theorem pushdown_keeps_rows:
  assumes "table_holds rt db name t rows" "pn_table_name g = Some name" "pn_type g = P_SEQ_SCAN"
    and "pn_predicate g = None" "pn_type f = P_FILTER"
    and "pushdown_predicates rt (PlanNode f [PlanNode g []]) = Inr q"
  shows "\<exists>b b1 r. exec_node rt txn (PlanNode f [PlanNode g []]) db = Some (db\<lparr>db_pool := b\<rparr>, r) \<and>
    exec_node rt txn q db = Some (db\<lparr>db_pool := b1\<rparr>, r)"
proof -
  let ?whole = "table_result (column_names t) rows"
  obtain k where q: "q = PlanNode (g\<lparr>pn_predicate := pn_predicate f, pn_rows := k\<rparr>) []"
    using assms(3-6) by (auto simp: bindr_Inr_iff)
  obtain b1 where b1: "exec_node rt txn q db = Some (db\<lparr>db_pool := b1\<rparr>, exec_filter rt (pn_predicate f) ?whole)"
    using scan_held [OF assms(1), of "node_fields q"] assms(2,3) q by auto
  obtain b where "exec_seq_scan rt g db = Some (db\<lparr>db_pool := b\<rparr>, exec_filter rt None ?whole)"
    using scan_reads_table [OF assms(1,2)] assms(4) by auto
  moreover have "filter_rows rt cols None rows = Inr rows" for cols
    by (induction rows) (simp_all add: eval_predicate_def)
  ultimately have scan: "exec_seq_scan rt g db = Some (db\<lparr>db_pool := b\<rparr>, Inr ?whole)"
    by (simp add: exec_filter_def table_result_def)
  have "exec_node rt txn (PlanNode f [PlanNode g []]) db =
      Some (db\<lparr>db_pool := b\<rparr>, exec_filter rt (pn_predicate f) ?whole)"
    using assms(3,5) scan by (simp add: with_child_def child_at_def bind_db_def from_result_def)
  then show ?thesis using b1 by blast
qed

section \<open>Insertion\<close>

text \<open>A row that fits the schema and a page, and a table nothing was deleted from.\<close>

definition insertable :: "sql_runtime \<Rightarrow> table_info \<Rightarrow> pyval list \<Rightarrow> bool" where
  "insertable rt t vs =
     (ti_columns t \<noteq> [] \<and>
      (\<exists>s rec. get_schema (base_rt rt) t = Inr s \<and> fits_schema s vs \<and>
         record_serialize (base_rt rt) s vs = Inr rec \<and> int (length rec) \<le> 4060))"

definition append_ready :: "database \<Rightarrow> string \<Rightarrow> bool" where
  "append_ready db name =
     (get_indexes_for_table (db_catalog db) name = [] \<and>
      dk_num_pages (bp_disk (db_pool db)) < INVALID_PAGE_ID \<and>
      (\<exists>hf. assoc_get name (db_heaps db) = Some hf \<and> heap_tight (db_pool db) hf))"

lemma schema_columns:
  assumes "get_schema rt t = Inr s"
  shows "num_columns s = length (ti_columns t)"
  using assms by (auto simp: get_schema_def bindr_Inr_iff num_columns_def column_names_def)

lemma complete_positional:
  assumes "length vs = length (ti_columns t)" "cols = None"
  shows "complete_row name t cols vs db = Some (db, Inr vs)"
proof -
  have keep: "fold_action (\<lambda>(j, c) row. if j < length row then ret row
      else bind_db (if is_auto c then next_auto_value name else ret VNull) (\<lambda>v. ret (row @ [v])))
      xs vs db = Some (db, Inr vs)" if "list_all (\<lambda>(j, c). j < length vs) xs" for xs
    using that
  proof (induction xs)
    case (Cons x xs)
    obtain j c where x: "x = (j, c)" by (cases x)
    then have "j < length vs" using Cons.prems by simp
    then show ?case using Cons x by (simp add: bind_db_steps(1) ret_def)
  qed (simp add: ret_def)
  have "fold_action (\<lambda>(j, c) row. if j < length row then ret row
      else bind_db (if is_auto c then next_auto_value name else ret VNull) (\<lambda>v. ret (row @ [v])))
      (enumerate 0 (ti_columns t)) vs db = Some (db, Inr vs)"
    by (rule keep) (use assms(1) in \<open>auto simp: list_all_iff in_set_enumerate_eq\<close>)
  then show ?thesis
    using assms by (simp add: complete_row_def extend_row_def bind_db_def ret_def Let_def column_names_def nulls_def)
qed

lemma decode_added:
  assumes "decode_rows rt s recs = Inr rows" "record_deserialize (base_rt rt) s d = Inr vs"
    and "mset recs' = add_mset (rid, d) (mset recs)"
  shows "\<exists>rows'. decode_rows rt s recs' = Inr rows' \<and> mset rows' = add_mset vs (mset rows)"
proof -
  let ?f = "\<lambda>(rid, d). record_deserialize (base_rt rt) s d"
  have set': "set recs' = insert (rid, d) (set recs)"
    using arg_cong [where f = set_mset, OF assms(3)] by simp
  have "decode_rows rt s recs' = Inr (map (projr \<circ> ?f) recs')"
    using assms(1,2) set' unfolding decode_rows_def by (auto simp: mapr_ok_iff is_ok_def)
  moreover have "mset (map (projr \<circ> ?f) recs') = add_mset vs (mset rows)"
    using assms unfolding decode_rows_def by (simp add: mapr_ok_iff)
  ultimately show ?thesis by blast
qed

lemma heap_insert_first_page:
  assumes "heap_insert rt hf b vs = (b1, hf1, r)" "hf_page_ids hf \<noteq> []"
  shows "first_page_id hf1 = first_page_id hf"
  using assms by (cases "hf_page_ids hf") (auto simp: heap_insert_def first_page_id_def Let_def
      split: sum.splits prod.splits option.splits)

text \<open>
  What a statement on one table leaves alone: the other tables of the catalog and the open files,
  and every page that is not a page of the table; new pages come from the end of the file.
\<close>

abbreviation file_pages :: "database \<Rightarrow> int" where
  "file_pages db \<equiv> dk_num_pages (bp_disk (db_pool db))"

definition only_changes :: "string \<Rightarrow> database \<Rightarrow> database \<Rightarrow> bool" where
  "only_changes name db db1 =
     (\<exists>hf hf1. assoc_get name (db_heaps db) = Some hf \<and> assoc_get name (db_heaps db1) = Some hf1 \<and>
        hf_schema hf1 = hf_schema hf \<and> first_page_id hf1 = first_page_id hf \<and>
        (\<forall>m. m \<noteq> name \<longrightarrow> assoc_get m (db_heaps db1) = assoc_get m (db_heaps db)) \<and>
        set (hf_page_ids hf) \<subseteq> set (hf_page_ids hf1) \<and>
        set (hf_page_ids hf1) \<subseteq> set (hf_page_ids hf) \<union> {file_pages db..<file_pages db1} \<and>
        file_pages db \<le> file_pages db1 \<and>
        (\<forall>q. q \<notin> set (hf_page_ids hf1) \<longrightarrow> pool_view (db_pool db1) q = pool_view (db_pool db) q))"

lemma only_changes_trans:
  assumes "only_changes name db db1" "only_changes name db1 db2"
  shows "only_changes name db db2"
proof -
  obtain hf hf1 hf2 where h: "assoc_get name (db_heaps db) = Some hf" "assoc_get name (db_heaps db1) = Some hf1"
    "assoc_get name (db_heaps db2) = Some hf2" "hf_schema hf1 = hf_schema hf" "hf_schema hf2 = hf_schema hf1"
    "first_page_id hf1 = first_page_id hf" "first_page_id hf2 = first_page_id hf1"
    "\<forall>m. m \<noteq> name \<longrightarrow> assoc_get m (db_heaps db1) = assoc_get m (db_heaps db)"
    "\<forall>m. m \<noteq> name \<longrightarrow> assoc_get m (db_heaps db2) = assoc_get m (db_heaps db1)"
    "set (hf_page_ids hf) \<subseteq> set (hf_page_ids hf1)" "set (hf_page_ids hf1) \<subseteq> set (hf_page_ids hf2)"
    "set (hf_page_ids hf1) \<subseteq> set (hf_page_ids hf) \<union> {file_pages db..<file_pages db1}"
    "set (hf_page_ids hf2) \<subseteq> set (hf_page_ids hf1) \<union> {file_pages db1..<file_pages db2}"
    "file_pages db \<le> file_pages db1" "file_pages db1 \<le> file_pages db2"
    "\<forall>q. q \<notin> set (hf_page_ids hf1) \<longrightarrow> pool_view (db_pool db1) q = pool_view (db_pool db) q"
    "\<forall>q. q \<notin> set (hf_page_ids hf2) \<longrightarrow> pool_view (db_pool db2) q = pool_view (db_pool db1) q"
    using assms unfolding only_changes_def by auto
  have "{file_pages db..<file_pages db1} \<subseteq> {file_pages db..<file_pages db2}"
    "{file_pages db1..<file_pages db2} \<subseteq> {file_pages db..<file_pages db2}"
    using h(14,15) by auto
  then have "set (hf_page_ids hf2) \<subseteq> set (hf_page_ids hf) \<union> {file_pages db..<file_pages db2}"
    using h(12,13) by blast
  moreover have "\<forall>q. q \<notin> set (hf_page_ids hf2) \<longrightarrow> pool_view (db_pool db2) q = pool_view (db_pool db) q"
    using h(11,16,17) by (metis subsetD)
  ultimately show ?thesis
    unfolding only_changes_def using h by (intro exI [of _ hf] exI [of _ hf2]) auto
qed

text \<open>The same file in a database that differs in nothing the frame speaks of.\<close>

lemma only_changes_cong:
  assumes "db_heaps db1 = db_heaps db2" "pool_view (db_pool db1) = pool_view (db_pool db2)" "file_pages db1 = file_pages db2"
  shows "only_changes name db db1 = only_changes name db db2" "only_changes name db1 db = only_changes name db2 db"
  using assms by (simp_all add: only_changes_def)

definition table_tight :: "database \<Rightarrow> string \<Rightarrow> bool" where
  "table_tight db name = (\<exists>hf. assoc_get name (db_heaps db) = Some hf \<and> heap_tight (db_pool db) hf)"

text \<open>Every record is the encoding of the row it decodes to.\<close>

definition exact_record :: "sql_runtime \<Rightarrow> table_schema \<Rightarrow> byte list \<Rightarrow> bool" where
  "exact_record rt s d =
     (\<exists>vs. record_deserialize (base_rt rt) s d = Inr vs \<and> record_serialize (base_rt rt) s vs = Inr d)"

definition table_exact :: "sql_runtime \<Rightarrow> database \<Rightarrow> string \<Rightarrow> bool" where
  "table_exact rt db name =
     (\<exists>hf. assoc_get name (db_heaps db) = Some hf \<and>
        (\<forall>(rid, d) \<in> set (file_records (db_pool db) hf). exact_record rt (hf_schema hf) d))"

lemma written_exact:
  assumes "fits_schema s vs" "record_serialize (base_rt rt) s vs = Inr d"
  shows "exact_record rt s d"
  unfolding exact_record_def
  using record_deserialize_serialize [OF assms] serialize_normalised [of "base_rt rt" s vs] assms(2) by auto

lemma insert_values_step:
  assumes "table_holds rt db name t rows" "append_ready db name" "insertable rt t vs"
    and "mapr (eval_expr rt []) exprs = Inr vs" "pn_insert_columns f = None"
  obtains db1 rows1 where "insert_values rt f txn name t exprs n db = Some (db1, Inr (n + 1))"
    "table_holds rt db1 name t rows1" "mset rows1 = add_mset (normalise_nulls vs) (mset rows)"
    "db_catalog db1 = db_catalog db" "db_indexes db1 = db_indexes db" "db_mvcc db1 = db_mvcc db"
    "map_option first_page_id (assoc_get name (db_heaps db1)) = map_option first_page_id (assoc_get name (db_heaps db))"
    "only_changes name db db1" "table_tight db1 name" "file_pages db1 \<le> file_pages db + 1"
    "table_exact rt db name \<longrightarrow> table_exact rt db1 name"
proof -
  obtain hf where h: "get_table (db_catalog db) name = Some t" "assoc_get name (db_heaps db) = Some hf"
    "heap_inv (db_pool db) hf" "get_schema (base_rt rt) t = Inr (hf_schema hf)"
    "decode_rows rt (hf_schema hf) (file_records (db_pool db) hf) = Inr rows"
    by (rule table_holdsE [OF assms(1)])
  obtain rec where r: "fits_schema (hf_schema hf) vs" "record_serialize (base_rt rt) (hf_schema hf) vs = Inr rec"
    "int (length rec) \<le> 4060" "ti_columns t \<noteq> []"
    using assms(3) h(4) unfolding insertable_def by auto
  have tight: "heap_tight (db_pool db) hf" "dk_num_pages (bp_disk (db_pool db)) < INVALID_PAGE_ID"
    "get_indexes_for_table (db_catalog db) name = []"
    using assms(2) h(2) by (auto simp: append_ready_def)
  have ne: "rec \<noteq> []" by (rule record_nonempty [OF r(2)]) (use schema_columns [OF h(4)] r(4) in simp)
  have len: "int (length rec) + SLOT_SIZE \<le> PAGE_SIZE - HEADER_SIZE" using r(3) by (simp add: page_consts)
  obtain b hf1 rid where i: "heap_insert (base_rt rt) hf (db_pool db) vs = (b, hf1, Inr rid)" "heap_inv b hf1"
    "hf_schema hf1 = hf_schema hf" "heap_contents (db_pool db) hf rid = None"
    "heap_contents b hf1 = (heap_contents (db_pool db) hf)(rid \<mapsto> rec)" "heap_tight b hf1"
    "set (hf_page_ids hf) \<subseteq> set (hf_page_ids hf1)"
    "set (hf_page_ids hf1) \<subseteq> set (hf_page_ids hf) \<union> {file_pages db..<dk_num_pages (bp_disk b)}"
    "file_pages db \<le> dk_num_pages (bp_disk b)" "dk_num_pages (bp_disk b) \<le> file_pages db + 1"
    "\<forall>q. q \<notin> set (hf_page_ids hf1) \<longrightarrow> pool_view b q = pool_view (db_pool db) q"
    using heap_insert_correct [OF h(3) tight(1,2) r(2) ne len] by blast
  obtain rows1 where rows1: "decode_rows rt (hf_schema hf) (file_records b hf1) = Inr rows1"
    "mset rows1 = add_mset (normalise_nulls vs) (mset rows)"
    using decode_added [OF h(5) record_deserialize_serialize [OF r(1,2)]
        file_records_insert [OF h(3) i(2,4,5)]] by blast
  define db1 where "db1 = db\<lparr>db_pool := b, db_heaps := assoc_put name hf1 (db_heaps db),
      db_wal := fst (log_insert (db_wal db) txn (ra_hash rt name mod 2 ^ 32) (rid_page rid) (int (rid_slot rid)) [])\<rparr>"
  have "length vs = length (ti_columns t)"
    using r(1) schema_columns [OF h(4)] by (simp add: fits_schema_def)
  then have "complete_row name t (pn_insert_columns f) vs db = Some (db, Inr vs)"
    using complete_positional assms(5) by simp
  moreover have "insert_row rt txn name (column_names t) vs db = Some (db1, Inr ())"
    using h(2) i(1) tight(3)
    by (simp add: insert_row_def bind_db_def get_db_def update_indexes_on_insert_def ret_def modify_db_def db1_def)
  ultimately have run: "insert_values rt f txn name t exprs n db = Some (db1, Inr (n + 1))"
    using assms(4) by (simp add: insert_values_def bind_db_def from_result_def ret_def)
  moreover have "table_holds rt db1 name t rows1"
    using h(1,4) i(2,3) rows1(1) by (simp add: table_holds_def db1_def assoc_get_put)
  moreover have "first_page_id hf1 = first_page_id hf"
    using heap_insert_first_page [OF i(1)] h(3) by (simp add: heap_inv_def)
  moreover from this have "only_changes name db db1"
    unfolding only_changes_def using h(2) i(3,7-9,11)
    by (intro exI [of _ hf] exI [of _ hf1]) (simp add: db1_def assoc_get_put)
  moreover have "table_tight db1 name" using i(6) by (simp add: table_tight_def db1_def assoc_get_put)
  moreover have "set (file_records b hf1) = insert (rid, rec) (set (file_records (db_pool db) hf))"
    using arg_cong [where f = set_mset, OF file_records_insert [OF h(3) i(2,4,5)]] by simp
  then have "table_exact rt db name \<longrightarrow> table_exact rt db1 name"
    using h(2) i(3) written_exact [OF r(1,2)] by (auto simp: table_exact_def db1_def assoc_get_put)
  ultimately show thesis
    using that rows1(2) h(2) i(10) by (simp add: db1_def assoc_get_put)
qed

lemma stats_table:
  assumes "table_holds rt db name t rows"
  obtains db1 where "update_stats name f db = Some (db1, Inr ())"
    "table_holds rt db1 name (t\<lparr>ti_row_count := f (ti_row_count t)\<rparr>) rows"
    "db1 = db\<lparr>db_catalog := update_table_stats (db_catalog db) name (f (ti_row_count t))\<rparr>"
proof -
  obtain hf where h: "get_table (db_catalog db) name = Some t" "assoc_get name (db_heaps db) = Some hf"
    "heap_inv (db_pool db) hf" "get_schema (base_rt rt) t = Inr (hf_schema hf)"
    "decode_rows rt (hf_schema hf) (file_records (db_pool db) hf) = Inr rows"
    by (rule table_holdsE [OF assms(1)])
  let ?c = "update_table_stats (db_catalog db) name (f (ti_row_count t))"
  have "get_table ?c name = Some (t\<lparr>ti_row_count := f (ti_row_count t)\<rparr>)"
    using h(1) by (simp add: update_table_stats_def table_exists_def get_table_def catalog_save_def with_table_def assoc_get_put)
  moreover have "get_schema (base_rt rt) (t\<lparr>ti_row_count := f (ti_row_count t)\<rparr>) = get_schema (base_rt rt) t"
    by (simp add: get_schema_def column_names_def)
  ultimately have "table_holds rt (db\<lparr>db_catalog := ?c\<rparr>) name (t\<lparr>ti_row_count := f (ti_row_count t)\<rparr>) rows"
    using h unfolding table_holds_def by simp
  moreover have "update_stats name f db = Some (db\<lparr>db_catalog := ?c\<rparr>, Inr ())"
    using h(1) by (simp add: update_stats_def on_catalog_def)
  ultimately show thesis using that by blast
qed

lemma insert_rows_step:
  assumes "table_holds rt db name t rows" "table_tight db name" "get_indexes_for_table (db_catalog db) name = []"
    and "list_all2 (\<lambda>exprs vs. mapr (eval_expr rt []) exprs = Inr vs \<and> insertable rt t vs) exprss vss"
    and "file_pages db + int (length vss) \<le> INVALID_PAGE_ID" "pn_insert_columns f = None"
  shows "\<exists>db1 rows1. fold_action (insert_values rt f txn name t) exprss n db = Some (db1, Inr (n + int (length vss))) \<and>
    table_holds rt db1 name t rows1 \<and> mset rows1 = mset rows + mset (map normalise_nulls vss) \<and>
    db_catalog db1 = db_catalog db \<and> db_indexes db1 = db_indexes db \<and> only_changes name db db1 \<and>
    table_tight db1 name \<and> file_pages db1 \<le> file_pages db + int (length vss) \<and>
    (table_exact rt db name \<longrightarrow> table_exact rt db1 name)"
  using assms(4,1-3,5)
proof (induction exprss vss arbitrary: db rows n rule: list_all2_induct)
  case Nil
  obtain hf where "assoc_get name (db_heaps db) = Some hf" by (rule table_holdsE [OF Nil(1)])
  then have "only_changes name db db" by (simp add: only_changes_def)
  then show ?case using Nil by (intro exI [of _ db] exI [of _ rows]) (simp add: ret_def)
next
  case (Cons exprs exprss vs vss)
  have "append_ready db name"
    using Cons.prems(2,3,4) by (auto simp: append_ready_def table_tight_def)
  then obtain db1 rows1 where i: "insert_values rt f txn name t exprs n db = Some (db1, Inr (n + 1))"
    "table_holds rt db1 name t rows1" "mset rows1 = add_mset (normalise_nulls vs) (mset rows)"
    "db_catalog db1 = db_catalog db" "db_indexes db1 = db_indexes db"
    "only_changes name db db1" "table_tight db1 name" "file_pages db1 \<le> file_pages db + 1"
    "table_exact rt db name \<longrightarrow> table_exact rt db1 name"
    using insert_values_step [OF Cons.prems(1) _ _ _ assms(6), of vs exprs txn n] Cons.hyps(1) by metis
  have "get_indexes_for_table (db_catalog db1) name = []" "file_pages db1 + int (length vss) \<le> INVALID_PAGE_ID"
    using Cons.prems(3,4) i(4,8) by simp_all
  from Cons.IH [OF i(2,7) this, of "n + 1"] obtain db2 rows2 where
    "fold_action (insert_values rt f txn name t) exprss (n + 1) db1 = Some (db2, Inr (n + 1 + int (length vss)))"
    "table_holds rt db2 name t rows2" "mset rows2 = mset rows1 + mset (map normalise_nulls vss)"
    "db_catalog db2 = db_catalog db1" "db_indexes db2 = db_indexes db1" "only_changes name db1 db2"
    "table_tight db2 name" "file_pages db2 \<le> file_pages db1 + int (length vss)"
    "table_exact rt db1 name \<longrightarrow> table_exact rt db2 name"
    by blast
  moreover from this(1) have "fold_action (insert_values rt f txn name t) (exprs # exprss) n db =
      Some (db2, Inr (n + int (length (vs # vss))))"
    using i(1) by (simp add: bind_db_def add.commute add.left_commute)
  ultimately show ?case
    using i(3-6,8,9) only_changes_trans [OF i(6)]
    by (intro exI [of _ db2] exI [of _ rows2]) (simp add: add.commute add.left_commute)
qed

definition inserted_message :: "int \<Rightarrow> table" where
  "inserted_message n = message_result n (str_of_int n @ '' row(s) inserted'')"

lemma insert_rows_held:
  assumes "table_holds rt db name t rows" "table_tight db name" "get_indexes_for_table (db_catalog db) name = []"
    and "list_all2 (\<lambda>exprs vs. mapr (eval_expr rt []) exprs = Inr vs \<and> insertable rt t vs) exprss vss"
    and "file_pages db + int (length vss) \<le> INVALID_PAGE_ID"
    and "pn_table_name f = Some name" "pn_insert_columns f = None" "pn_values f = Some exprss"
  shows "\<exists>db1 rows1. exec_insert rt f txn db = Some (db1, Inr (inserted_message (int (length vss)))) \<and>
    table_holds rt db1 name (t\<lparr>ti_row_count := ti_row_count t + int (length vss)\<rparr>) rows1 \<and>
    mset rows1 = mset rows + mset (map normalise_nulls vss) \<and>
    db_catalog db1 = update_table_stats (db_catalog db) name (ti_row_count t + int (length vss)) \<and>
    only_changes name db db1 \<and> table_tight db1 name \<and> file_pages db1 \<le> file_pages db + int (length vss) \<and>
    (table_exact rt db name \<longrightarrow> table_exact rt db1 name)"
proof -
  let ?n = "int (length vss)"
  obtain hf where h: "get_table (db_catalog db) name = Some t" "assoc_get name (db_heaps db) = Some hf"
    "get_schema (base_rt rt) t = Inr (hf_schema hf)"
    by (rule table_holdsE [OF assms(1)])
  obtain db1 rows1 where i: "fold_action (insert_values rt f txn name t) exprss 0 db = Some (db1, Inr (0 + ?n))"
    "table_holds rt db1 name t rows1" "mset rows1 = mset rows + mset (map normalise_nulls vss)"
    "db_catalog db1 = db_catalog db" "only_changes name db db1" "table_tight db1 name"
    "file_pages db1 \<le> file_pages db + ?n" "table_exact rt db name \<longrightarrow> table_exact rt db1 name"
    using insert_rows_step [OF assms(1-5,7), of txn 0] by blast
  obtain db2 where u: "update_stats name (\<lambda>k. k + ?n) db1 = Some (db2, Inr ())"
    "table_holds rt db2 name (t\<lparr>ti_row_count := ti_row_count t + ?n\<rparr>) rows1"
    "db2 = db1\<lparr>db_catalog := update_table_stats (db_catalog db1) name (ti_row_count t + ?n)\<rparr>"
    by (rule stats_table [OF i(2), of "\<lambda>k. k + ?n"]) blast
  have "exec_insert rt f txn db = Some (db2, Inr (inserted_message ?n))"
    unfolding exec_insert_def using assms(6,8) i(1) u(1)
    by (simp add: name_or_empty_def Let_def open_table [OF h(1,2,3)] list_or_empty_def)
      (simp add: bind_db_def ret_def inserted_message_def)
  moreover have "only_changes name db db2" "table_tight db2 name" "file_pages db2 \<le> file_pages db + ?n"
    "table_exact rt db name \<longrightarrow> table_exact rt db2 name"
    using i(5-8) only_changes_cong(1) [of db2 db1 name db] by (simp_all add: u(3) table_tight_def table_exact_def)
  ultimately show ?thesis using u(2,3) i(3,4) by (intro exI [of _ db2] exI [of _ rows1]) simp
qed

lemma insert_held:
  assumes "table_holds rt db name t rows" "append_ready db name" "insertable rt t vs"
    and "pn_type f = P_INSERT" "pn_table_name f = Some name" "pn_insert_columns f = None"
    and "pn_values f = Some [exprs]" "mapr (eval_expr rt []) exprs = Inr vs"
  shows "\<exists>db1 rows1. exec_node rt txn (PlanNode f cs) db =
      Some (db1, Inr (message_result 1 (str_of_int 1 @ '' row(s) inserted''))) \<and>
    table_holds rt db1 name (t\<lparr>ti_row_count := ti_row_count t + 1\<rparr>) rows1 \<and>
    mset rows1 = add_mset (normalise_nulls vs) (mset rows)"
proof -
  have "table_tight db name" "get_indexes_for_table (db_catalog db) name = []"
    "file_pages db + int (length [vs]) \<le> INVALID_PAGE_ID"
    using assms(2) by (auto simp: append_ready_def table_tight_def)
  then show ?thesis
    using insert_rows_held [OF assms(1) _ _ _ _ assms(5-7), of "[vs]" txn] assms(3,4,8)
    by (auto simp: inserted_message_def)
qed

text \<open>
  Inserting one row that fits the schema and a page into a table without indexes that nothing
  was deleted from succeeds and adds exactly that row, its missing values as
  \<^verbatim>\<open>NULL\<close>, to the rows of the table; the row count of the catalog goes up by one.
\<close>

theorem insert_adds_row:
  assumes "table_holds rt db name t rows" "append_ready db name" "insertable rt t vs"
    and "pn_type f = P_INSERT" "pn_table_name f = Some name" "pn_insert_columns f = None"
    and "pn_values f = Some [exprs]" "mapr (eval_expr rt []) exprs = Inr vs"
  shows "\<exists>db1 rows1. exec_node rt txn (PlanNode f cs) db =
      Some (db1, Inr (message_result 1 (str_of_int 1 @ '' row(s) inserted''))) \<and>
    table_holds rt db1 name (t\<lparr>ti_row_count := ti_row_count t + 1\<rparr>) rows1 \<and>
    mset rows1 = add_mset (normalise_nulls vs) (mset rows)"
  by (rule insert_held [OF assms])

lemma fold_action_append:
  "fold_action f (xs @ ys) a db = bind_db (fold_action f xs a) (fold_action f ys) db"
  by (induction xs arbitrary: a db) (auto simp: bind_db_def ret_def split: option.split sum.split prod.split)

lemma insert_rows_raise:
  assumes "table_holds rt db name t rows" "table_tight db name" "get_indexes_for_table (db_catalog db) name = []"
    and "list_all2 (\<lambda>exprs vs. mapr (eval_expr rt []) exprs = Inr vs \<and> insertable rt t vs) good vss"
    and "mapr (eval_expr rt []) bad = Inl e" "file_pages db + int (length vss) \<le> INVALID_PAGE_ID"
    and "pn_table_name f = Some name" "pn_insert_columns f = None" "pn_values f = Some (good @ bad # rest)"
  shows "\<exists>db1 rows1. exec_insert rt f txn db = Some (db1, Inl e) \<and> table_holds rt db1 name t rows1 \<and>
    mset rows1 = mset rows + mset (map normalise_nulls vss) \<and> db_catalog db1 = db_catalog db \<and>
    only_changes name db db1 \<and> table_tight db1 name \<and> file_pages db1 \<le> file_pages db + int (length vss) \<and>
    (table_exact rt db name \<longrightarrow> table_exact rt db1 name)"
proof -
  obtain hf where h: "get_table (db_catalog db) name = Some t" "assoc_get name (db_heaps db) = Some hf"
    "get_schema (base_rt rt) t = Inr (hf_schema hf)"
    by (rule table_holdsE [OF assms(1)])
  obtain db1 rows1 where i: "fold_action (insert_values rt f txn name t) good 0 db = Some (db1, Inr (0 + int (length vss)))"
    "table_holds rt db1 name t rows1" "mset rows1 = mset rows + mset (map normalise_nulls vss)"
    "db_catalog db1 = db_catalog db" "only_changes name db db1" "table_tight db1 name"
    "file_pages db1 \<le> file_pages db + int (length vss)" "table_exact rt db name \<longrightarrow> table_exact rt db1 name"
    using insert_rows_step [OF assms(1-4,6,8), of txn 0] by blast
  have "insert_values rt f txn name t bad n db1 = Some (db1, Inl e)" for n
    using assms(5) by (simp add: insert_values_def bind_db_def from_result_def)
  then have "fold_action (insert_values rt f txn name t) (good @ bad # rest) 0 db = Some (db1, Inl e)"
    using i(1) by (simp add: fold_action_append bind_db_def)
  then have "exec_insert rt f txn db = Some (db1, Inl e)"
    unfolding exec_insert_def using assms(7,9)
    by (simp add: name_or_empty_def Let_def open_table [OF h(1,2,3)] list_or_empty_def)
      (simp add: bind_db_def)
  then show ?thesis using i(2-8) by blast
qed

text \<open>
  C36: a statement is not atomic.  When the values of a row of an \<^verbatim>\<open>INSERT\<close> without a
  column list cannot be evaluated, the statement raises and its transaction is aborted, but the
  rows before it stay in the table, and the catalog does not count them.  The table has no indexes,
  nothing was deleted from it, and there is room in the file; the rows before fit its columns.
\<close>

theorem failed_insert_keeps_rows:
  assumes "table_holds rt db name t rows" "table_tight db name" "get_indexes_for_table (db_catalog db) name = []"
    and "list_all2 (\<lambda>exprs vs. mapr (eval_expr rt []) exprs = Inr vs \<and> insertable rt t vs) good vss"
    and "mapr (eval_expr rt []) bad = Inl e" "file_pages db + int (length vss) \<le> INVALID_PAGE_ID"
    and "pn_type f = P_INSERT" "pn_table_name f = Some name" "pn_insert_columns f = None"
    and "pn_values f = Some (good @ bad # rest)"
  shows "\<exists>db1 rows1. execute_plan rt (PlanNode f cs) None db = Some (db1, Inl e) \<and>
    map_option tx_state (mv_txns (db_mvcc db1) (mv_next (db_mvcc db))) = Some ABORTED \<and>
    mv_next (db_mvcc db) \<notin> set (mv_active (db_mvcc db1)) \<and>
    table_holds rt db1 name t rows1 \<and> mset rows1 = mset rows + mset (map normalise_nulls vss)"
proof -
  obtain m x where m: "begin_transaction (db_mvcc db) SNAPSHOT = (m, x)"
    by (cases "begin_transaction (db_mvcc db) SNAPSHOT")
  let ?db = "db\<lparr>db_mvcc := m\<rparr>"
  have start: "table_holds rt ?db name t rows" "table_tight ?db name" "get_indexes_for_table (db_catalog ?db) name = []"
    "file_pages ?db + int (length vss) \<le> INVALID_PAGE_ID"
    using assms(1-3,6) by (simp_all add: table_holds_def table_tight_def)
  obtain db1 rows1 where i: "exec_insert rt f x ?db = Some (db1, Inl e)" "table_holds rt db1 name t rows1"
    "mset rows1 = mset rows + mset (map normalise_nulls vss)"
    using insert_rows_raise [OF start(1-3) assms(4,5) start(4) assms(8-10), of x] by blast
  have "db_mvcc db1 = m" using keepsD [OF keeps_mvcc_insert i(1)] by simp
  moreover have "execute_plan rt (PlanNode f cs) None db = Some (abort_auto x db1, Inl e)"
    using m assms(7) i(1) by (simp add: execute_plan_def bind_db_def begin_auto_def)
  moreover have "table_holds rt (abort_auto x db1) name t rows1"
    using i(2) by (simp add: table_holds_def abort_auto_def)
  ultimately show ?thesis using i(3) abort_fresh [OF m] by (auto simp: abort_auto_def)
qed

section \<open>Deletion\<close>

lemma delete_loop:
  assumes "heap_inv (db_pool db) hf" "list_all (\<lambda>rid. rid_page rid \<in> set (hf_page_ids hf)) rids"
  shows "\<exists>b. fold_action (\<lambda>rid n. bind_db (on_pool (\<lambda>b. heap_delete hf b rid)) (\<lambda>_. ret (n + 1))) rids n db =
      Some (db\<lparr>db_pool := b\<rparr>, Inr (n + int (length rids))) \<and> heap_inv b hf \<and>
    heap_contents b hf = (\<lambda>rid. if rid \<in> set rids then None else heap_contents (db_pool db) hf rid) \<and>
    dk_num_pages (bp_disk b) = file_pages db \<and>
    (\<forall>q. q \<notin> set (hf_page_ids hf) \<longrightarrow> pool_view b q = pool_view (db_pool db) q)"
  using assms
proof (induction rids arbitrary: db n)
  case Nil
  then show ?case by (intro exI [of _ "db_pool db"]) (simp add: ret_def)
next
  case (Cons rid rids)
  have page: "rid_page rid \<in> set (hf_page_ids hf)" using Cons.prems(2) by simp
  obtain b1 where b1: "heap_delete hf (db_pool db) rid = (b1, Inr (heap_contents (db_pool db) hf rid \<noteq> None))"
    "heap_inv b1 hf" "heap_contents b1 hf = (heap_contents (db_pool db) hf)(rid := None)"
    "dk_num_pages (bp_disk b1) = file_pages db"
    "\<forall>q. q \<notin> set (hf_page_ids hf) \<longrightarrow> pool_view b1 q = pool_view (db_pool db) q"
    using heap_delete_correct [OF Cons.prems(1) page] by blast
  define db1 where "db1 = db\<lparr>db_pool := b1\<rparr>"
  have "heap_inv (db_pool db1) hf" "list_all (\<lambda>rid. rid_page rid \<in> set (hf_page_ids hf)) rids"
    using b1(2) Cons.prems(2) by (simp_all add: db1_def)
  note Cons.IH [OF this, of "n + 1"]
  then obtain b where b:
    "fold_action (\<lambda>rid n. bind_db (on_pool (\<lambda>b. heap_delete hf b rid)) (\<lambda>_. ret (n + 1))) rids (n + 1) db1 =
      Some (db1\<lparr>db_pool := b\<rparr>, Inr (n + 1 + int (length rids)))"
    "heap_inv b hf"
    "heap_contents b hf = (\<lambda>r. if r \<in> set rids then None else heap_contents (db_pool db1) hf r)"
    "dk_num_pages (bp_disk b) = file_pages db1"
    "\<forall>q. q \<notin> set (hf_page_ids hf) \<longrightarrow> pool_view b q = pool_view (db_pool db1) q"
    by blast
  have "dk_num_pages (bp_disk b) = file_pages db"
    "\<forall>q. q \<notin> set (hf_page_ids hf) \<longrightarrow> pool_view b q = pool_view (db_pool db) q"
    using b(4,5) b1(4,5) by (simp_all add: db1_def)
  moreover
  have "heap_contents b hf = (\<lambda>r. if r \<in> set (rid # rids) then None else heap_contents (db_pool db) hf r)"
    using b(3) b1(3) by (auto simp: db1_def)
  moreover have "fold_action (\<lambda>rid n. bind_db (on_pool (\<lambda>b. heap_delete hf b rid)) (\<lambda>_. ret (n + 1))) (rid # rids) n db =
      Some (db\<lparr>db_pool := b\<rparr>, Inr (n + int (length (rid # rids))))"
    using b1(1) b(1) by (simp add: db1_def bind_db_def on_pool_def ret_def add.commute add.left_commute)
  ultimately show ?case using b(2) by blast
qed

definition deleted_message :: "int \<Rightarrow> table" where
  "deleted_message n = message_result n (str_of_int n @ '' row(s) deleted'')"

text \<open>The rows a predicate selects, as a filter.\<close>

lemma filter_rows_split:
  assumes "filter_rows rt cols p rows = Inr hits"
  shows "(\<forall>vs \<in> set rows. is_ok (eval_predicate rt (row_dict cols vs) p)) \<and>
    hits = filter (\<lambda>vs. eval_predicate rt (row_dict cols vs) p = Inr True) rows"
  using assms
proof (induction rows arbitrary: hits)
  case (Cons vs rows)
  then show ?case
    by (cases "eval_predicate rt (row_dict cols vs) p") (auto simp: bindr_Inr_iff is_ok_def split: if_splits)
qed simp

lemma collect_ids:
  assumes "length rids = length rows" "\<forall>vs \<in> set rows. is_ok (eval_predicate rt (row_dict cols vs) p)"
  shows "fold_result (\<lambda>(rid, vs) acc. bindr (eval_predicate rt (row_dict cols vs) p)
      (\<lambda>b. Inr (if b then acc @ [rid] else acc))) (zip rids rows) acc =
    Inr (acc @ map fst (filter (\<lambda>(rid, vs). eval_predicate rt (row_dict cols vs) p = Inr True) (zip rids rows)))"
  using assms
proof (induction rids rows arbitrary: acc rule: list_induct2)
  case (Cons rid rids vs rows)
  then show ?case
    by (cases "eval_predicate rt (row_dict cols vs) p") (auto simp: is_ok_def)
qed simp

lemma zip_filter_decoded:
  assumes "decode_rows rt s recs = Inr rows"
  shows "map fst (filter (\<lambda>(rid, vs). P vs) (zip (map fst recs) rows)) =
      map fst (filter (\<lambda>(rid, d). P (projr (record_deserialize (base_rt rt) s d))) recs)"
    and "filter P rows = map (\<lambda>(rid, d). projr (record_deserialize (base_rt rt) s d))
      (filter (\<lambda>(rid, d). P (projr (record_deserialize (base_rt rt) s d))) recs)"
  using assms unfolding decode_rows_def
  by (induction recs arbitrary: rows) (auto simp: bindr_Inr_iff)

lemma kept_records:
  assumes inv: "heap_inv b hf" "heap_inv b1 hf"
    and dec: "decode_rows rt s (file_records b hf) = Inr rows"
    and rids: "rids = map fst (filter (\<lambda>(rid, vs). P vs) (zip (map fst (file_records b hf)) rows))"
    and del: "heap_contents b1 hf = (\<lambda>rid. if rid \<in> set rids then None else heap_contents b hf rid)"
  shows "\<exists>kept. decode_rows rt s (file_records b1 hf) = Inr kept \<and> mset rows = mset (filter P rows) + mset kept"
proof -
  let ?recs = "file_records b hf" and ?f = "\<lambda>(rid, d). record_deserialize (base_rt rt) s d"
  let ?Q = "\<lambda>(rid, d). P (projr (record_deserialize (base_rt rt) s d))"
  have in_rids: "rid \<in> set rids \<longleftrightarrow> (\<exists>d. (rid, d) \<in> set ?recs \<and> ?Q (rid, d))" for rid
    unfolding rids zip_filter_decoded(1) [OF dec, of P] by (force simp: image_iff)
  have "d = d'" if "(rid, d) \<in> set ?recs" "(rid, d') \<in> set ?recs" for rid d d'
    using that file_records_set [OF inv(1)] by simp
  then have "rid \<in> set rids \<longleftrightarrow> ?Q (rid, d)" if "(rid, d) \<in> set ?recs" for rid d
    unfolding in_rids using that by metis
  then have "filter (\<lambda>(rid, d). rid \<notin> set rids) ?recs = filter (\<lambda>x. \<not> ?Q x) ?recs"
    by (intro filter_cong) auto
  then have m: "mset (file_records b1 hf) = mset (filter (\<lambda>x. \<not> ?Q x) ?recs)"
    using file_records_delete [OF inv del] by simp
  then have "set (file_records b1 hf) \<subseteq> set ?recs" using mset_eq_setD [OF m] by auto
  then have d: "decode_rows rt s (file_records b1 hf) = Inr (map (projr \<circ> ?f) (file_records b1 hf))"
    using dec unfolding decode_rows_def by (auto simp: mapr_ok_iff)
  have "mset (map (projr \<circ> ?f) (file_records b1 hf)) = mset (map (projr \<circ> ?f) (filter (\<lambda>x. \<not> ?Q x) ?recs))"
    using m by simp
  also have "map (projr \<circ> ?f) (filter (\<lambda>x. \<not> ?Q x) ?recs) = filter (\<lambda>vs. \<not> P vs) rows"
    using zip_filter_decoded(2) [OF dec, of "\<lambda>vs. \<not> P vs"] by (simp add: comp_def case_prod_unfold)
  finally have left: "mset (map (projr \<circ> ?f) (file_records b1 hf)) = mset (filter (\<lambda>vs. \<not> P vs) rows)" .
  have "mset rows = mset (filter P rows) + mset (map (projr \<circ> ?f) (file_records b1 hf))"
    unfolding left by simp
  then show ?thesis using d by blast
qed

lemma delete_held:
  assumes "table_holds rt db name t rows" "pn_table_name f = Some name"
    and "filter_rows rt (column_names t) (child_predicate cs) rows = Inr hits"
  shows "\<exists>db1 kept. exec_delete rt f cs db = Some (db1, Inr (deleted_message (int (length hits)))) \<and>
    table_holds rt db1 name (t\<lparr>ti_row_count := max 0 (ti_row_count t - int (length hits))\<rparr>) kept \<and>
    mset rows = mset hits + mset kept \<and>
    db_catalog db1 = update_table_stats (db_catalog db) name (max 0 (ti_row_count t - int (length hits))) \<and>
    only_changes name db db1 \<and> file_pages db1 = file_pages db \<and> (table_exact rt db name \<longrightarrow> table_exact rt db1 name)"
proof -
  obtain hf where h: "get_table (db_catalog db) name = Some t" "assoc_get name (db_heaps db) = Some hf"
    "heap_inv (db_pool db) hf" "get_schema (base_rt rt) t = Inr (hf_schema hf)"
    "decode_rows rt (hf_schema hf) (file_records (db_pool db) hf) = Inr rows"
    by (rule table_holdsE [OF assms(1)])
  let ?recs = "file_records (db_pool db) hf"
  let ?cols = "column_names t" and ?p = "child_predicate cs"
  let ?P = "\<lambda>vs. eval_predicate rt (row_dict ?cols vs) ?p = Inr True"
  let ?body = "\<lambda>rid vs rids. bind_db (row_passes rt ?cols ?p vs) (\<lambda>b. ret (if b then rids @ [rid] else rids))"
  let ?g = "\<lambda>rid vs rids. bindr (eval_predicate rt (row_dict ?cols vs) ?p) (\<lambda>b. Inr (if b then rids @ [rid] else rids))"
  let ?delete = "\<lambda>rid (n :: int). bind_db (on_pool (\<lambda>b. heap_delete hf b rid)) (\<lambda>_. ret (n + 1))"
  let ?count = "\<lambda>k. max 0 (k - int (length hits))"
  define rids where "rids = map fst (filter (\<lambda>(rid, vs). ?P vs) (zip (map fst ?recs) rows))"
  note hits = filter_rows_split [OF assms(3)]
  have body: "?body rid vs a d = Some (d, ?g rid vs a)" for rid vs a d
    by (rule pure_filter_body)
  obtain b where b: "scan_loop rt hf ?body [] db = Some (db\<lparr>db_pool := b\<rparr>,
      fold_result (decode_step (base_rt rt) (hf_schema hf) ?g) ?recs [])"
    "heap_inv b hf" "pool_view b = pool_view (db_pool db)" "dk_num_pages (bp_disk b) = file_pages db"
    by (rule scan_loop_pure [where body = ?body and g = ?g, OF body h(3)])
  have ids: "fold_result (decode_step (base_rt rt) (hf_schema hf) ?g) ?recs [] = Inr rids"
    using fold_decoded [OF h(5), of ?g "[]"] collect_ids [of "map fst ?recs" rows rt ?cols ?p "[]"]
      decode_length [OF h(5)] hits by (simp add: rids_def)
  have "rid_page rid \<in> set (hf_page_ids hf)" if "rid \<in> set rids" for rid
  proof -
    have "rid \<in> fst ` set ?recs" using that set_zip_leftD unfolding rids_def by fastforce
    then show ?thesis by (auto simp: file_records_def)
  qed
  then have pages: "list_all (\<lambda>rid. rid_page rid \<in> set (hf_page_ids hf)) rids"
    unfolding list_all_iff by blast
  have same: "heap_contents b hf = heap_contents (db_pool db) hf" "file_records b hf = ?recs"
    using b(3) by (simp_all add: heap_contents_def file_records_def fun_eq_iff)
  define db1 where "db1 = db\<lparr>db_pool := b\<rparr>"
  have "heap_inv (db_pool db1) hf" using b(2) by (simp add: db1_def)
  note delete_loop [OF this pages, of 0]
  then obtain b1 where b1:
    "fold_action (\<lambda>rid n. bind_db (on_pool (\<lambda>b. heap_delete hf b rid)) (\<lambda>_. ret (n + 1))) rids (0 :: int) db1 =
      Some (db1\<lparr>db_pool := b1\<rparr>, Inr (0 + int (length rids)))"
    "heap_inv b1 hf" "heap_contents b1 hf = (\<lambda>rid. if rid \<in> set rids then None else heap_contents (db_pool db1) hf rid)"
    "dk_num_pages (bp_disk b1) = file_pages db1"
    "\<forall>q. q \<notin> set (hf_page_ids hf) \<longrightarrow> pool_view b1 q = pool_view (db_pool db1) q"
    by blast
  have n: "length rids = length hits"
    using zip_filter_decoded [OF h(5), of ?P] hits by (simp add: rids_def)
  have del: "heap_contents b1 hf = (\<lambda>rid. if rid \<in> set rids then None else heap_contents b hf rid)"
    using b1(3) by (simp add: db1_def fun_eq_iff)
  have "decode_rows rt (hf_schema hf) (file_records b hf) = Inr rows" using h(5) same by simp
  then obtain kept where kept: "decode_rows rt (hf_schema hf) (file_records b1 hf) = Inr kept"
    "mset rows = mset hits + mset kept"
    using kept_records [OF b(2) b1(2) _ rids_def [folded same(2)] del] hits by metis
  have "table_holds rt (db1\<lparr>db_pool := b1\<rparr>) name t kept"
    using h(1,2,4) b1(2) kept(1) by (simp add: table_holds_def db1_def)
  then obtain db2 where u: "update_stats name (\<lambda>k. max 0 (k - int (length hits))) (db1\<lparr>db_pool := b1\<rparr>) = Some (db2, Inr ())"
    "table_holds rt db2 name (t\<lparr>ti_row_count := max 0 (ti_row_count t - int (length hits))\<rparr>) kept"
    "db2 = db1\<lparr>db_pool := b1\<rparr>\<lparr>db_catalog :=
       update_table_stats (db_catalog (db1\<lparr>db_pool := b1\<rparr>)) name (max 0 (ti_row_count t - int (length hits)))\<rparr>"
    by (rule stats_table [where f = "\<lambda>k. max 0 (k - int (length hits))"]) blast
  have "exec_delete rt f cs db = Some (db2, Inr (deleted_message (int (length hits))))"
    unfolding exec_delete_def using assms(2)
    by (simp add: name_or_empty_def Let_def open_table [OF h(1,2,4)])
      (simp add: bind_db_steps(1) [where m = "scan_loop rt hf ?body []", OF b(1) [unfolded ids, folded db1_def]]
        bind_db_steps(1) [where m = "fold_action ?delete rids 0", OF b1(1)] n
        bind_db_steps(1) [where m = "update_stats name ?count", OF u(1)] ret_def deleted_message_def)
  moreover have "only_changes name db db2"
    unfolding only_changes_def using h(2) b(3,4) b1(4,5)
    by (intro exI [of _ hf]) (simp add: u(3) db1_def)
  moreover have "file_pages db2 = file_pages db" using b(4) b1(4) by (simp add: u(3) db1_def)
  moreover have "set (file_records b1 hf) \<subseteq> set (file_records (db_pool db) hf)"
    using file_records_set [OF b1(2)] file_records_set [OF b(2)] same(2) by (auto simp: del split: if_splits)
  then have "table_exact rt db name \<longrightarrow> table_exact rt db2 name"
    using h(2) by (auto simp: table_exact_def u(3) db1_def)
  ultimately show ?thesis using u(2,3) kept(2) by (intro exI [of _ db2] exI [of _ kept]) (simp add: u(3) db1_def)
qed

text \<open>
  C3: deleting removes exactly the rows the condition selects, whatever the table contained: the
  statement answers their number, and the rows left are the others.
\<close>

theorem delete_removes_matching:
  assumes "table_holds rt db name t rows" "pn_type f = P_DELETE" "pn_table_name f = Some name"
    and "filter_rows rt (column_names t) (child_predicate cs) rows = Inr hits"
  shows "\<exists>db1 kept. exec_node rt txn (PlanNode f cs) db =
      Some (db1, Inr (message_result (int (length hits)) (str_of_int (int (length hits)) @ '' row(s) deleted''))) \<and>
    table_holds rt db1 name (t\<lparr>ti_row_count := max 0 (ti_row_count t - int (length hits))\<rparr>) kept \<and>
    mset rows = mset hits + mset kept"
  using delete_held [OF assms(1,3,4)] assms(2) by (auto simp: deleted_message_def)

section \<open>Indexes\<close>

lemma bind_get [simp]: "bind_db (get_db f) k db = k (f db) db"
  by (simp add: bind_db_def get_db_def)

lemma index_scan_runs:
  assumes "get_table (db_catalog db) name = Some t" "assoc_get name (db_heaps db) = Some hf"
    and "get_schema (base_rt rt) t = Inr (hf_schema hf)" "pn_table_name g = Some name"
    and "assoc_get (name_or_empty (pn_index_name g)) (db_indexes db) = Some tree"
  shows "exec_index_scan rt g db = bind_db
      (case pn_scan_range g of
         Some (low, high) \<Rightarrow>
           bind_db (from_result (index_range tree low high)) (fetch_rows rt hf (column_names t) None)
       | None \<Rightarrow> bind_db (from_result (scan_all tree)) (fetch_rows rt hf (column_names t) (pn_predicate g)))
      (\<lambda>rows. ret (table_result (column_names t) rows)) db"
  unfolding exec_index_scan_def assms(4) using assms(5)
  by (simp add: name_or_empty_def [of "Some name"] Let_def open_table [OF assms(1-3)])

text \<open>The rows the entries of an index point at.\<close>

definition index_rows ::
  "sql_runtime \<Rightarrow> database \<Rightarrow> string \<Rightarrow> index_tree \<Rightarrow> (record_id \<Rightarrow> pyval list) \<Rightarrow> bool"
where
  "index_rows rt db name tree row =
     (\<exists>hf. assoc_get name (db_heaps db) = Some hf \<and>
        (\<forall>(k, rid) \<in> set (tree_entries tree). row rid \<noteq> [] \<and>
           (\<exists>d. heap_contents (db_pool db) hf rid = Some d \<and> record_deserialize (base_rt rt) (hf_schema hf) d = Inr (row rid))))"

lemma fetch_rows_held:
  assumes "heap_inv (db_pool db) hf"
    and "\<forall>(k, rid) \<in> set kvs. row rid \<noteq> [] \<and>
      (\<exists>d. heap_contents (db_pool db) hf rid = Some d \<and> record_deserialize (base_rt rt) (hf_schema hf) d = Inr (row rid))"
  shows "\<exists>b. fetch_rows rt hf cols None kvs db = Some (db\<lparr>db_pool := b\<rparr>, Inr (map (row \<circ> snd) kvs))"
proof -
  let ?step = "\<lambda>(k, rid) rows. bind_db (on_pool (\<lambda>b. heap_read (base_rt rt) hf b rid)) (\<lambda>r.
    case r of Some (v # vs) \<Rightarrow> bind_db (row_passes rt cols None (v # vs)) (\<lambda>b. ret (if b then rows @ [v # vs] else rows))
    | _ \<Rightarrow> ret rows)"
  have "\<exists>b. fold_action ?step kvs acc db = Some (db\<lparr>db_pool := b\<rparr>, Inr (acc @ map (row \<circ> snd) kvs))" for acc
    using assms
  proof (induction kvs arbitrary: acc db)
    case Nil
    then show ?case by (intro exI [of _ "db_pool db"]) (simp add: ret_def)
  next
    case (Cons kv kvs)
    obtain k rid where kv: "kv = (k, rid)" by (cases kv)
    obtain d where d: "heap_contents (db_pool db) hf rid = Some d" "row rid \<noteq> []"
      "record_deserialize (base_rt rt) (hf_schema hf) d = Inr (row rid)"
      using Cons.prems(2) by (auto simp: kv)
    have page: "rid_page rid \<in> set (hf_page_ids hf)" using d(1) by (auto simp: heap_contents_def split: if_splits)
    obtain b where b: "heap_read (base_rt rt) hf (db_pool db) rid = (b, Inr (Some (row rid)))"
      "heap_inv b hf" "pool_view b = pool_view (db_pool db)"
      by (rule heap_read_correct [OF Cons.prems(1) page, of "base_rt rt"]) (use d in simp)
    have same: "heap_contents b hf = heap_contents (db_pool db) hf" using b(3) by (simp add: heap_contents_def fun_eq_iff)
    have "?step kv acc db = Some (db\<lparr>db_pool := b\<rparr>, Inr (acc @ [row rid]))"
      using b(1) d(2)
      by (cases "row rid") (auto simp: kv bind_db_def on_pool_def row_passes_def eval_predicate_def from_result_def ret_def)
    then show ?case
      using Cons.IH [of "db\<lparr>db_pool := b\<rparr>" "acc @ [row rid]"] Cons.prems(2) b(2) same by (simp add: kv bind_db_def)
  qed
  from this [of "[]"] show ?thesis by (simp add: fetch_rows_def)
qed

text \<open>
  C38: an index scan over a range does not test the predicate it was chosen for, and the range of a
  strict comparison includes its bound: the plan the planner makes for \<^verbatim>\<open>c > v\<close>
  returns the rows of all entries with a key from \<^verbatim>\<open>v\<close> up, those with the key
  \<^verbatim>\<open>v\<close> among them, as the plan for \<^verbatim>\<open>c >= v\<close> does, and likewise
  for \<^verbatim>\<open>c < v\<close> and \<^verbatim>\<open>c <= v\<close>.  The index has no duplicates, its keys
  compare with \<^verbatim>\<open>v\<close>, and its entries point at rows of the table.
\<close>

theorem strict_range_scan_is_inclusive:
  assumes "table_holds rt db name t rows" "pn_type f = P_SEQ_SCAN" "pn_table_name f = Some name"
    and "op \<in> {OP_GT, OP_GTE, OP_LT, OP_LTE}"
    and "select_index rt c (f\<lparr>pn_predicate := Some (BinaryOp op (ColumnRef col tab) (Literal v ty))\<rparr>) = Inr g"
    and "pn_type g = P_INDEX_SCAN" "assoc_get (name_or_empty (pn_index_name g)) (db_indexes db) = Some tree"
    and "btree_ok True tree" "index_rows rt db name tree row"
    and "v \<noteq> VNone" "list_all (comparable (py_key v)) (index_keys tree)"
  shows "\<exists>b. exec_node rt txn (PlanNode g []) db = Some (db\<lparr>db_pool := b\<rparr>, Inr (table_result (column_names t)
    (map (row \<circ> snd) (filter (\<lambda>(k, rid). if op \<in> {OP_GT, OP_GTE} then py_key v \<le> k else k \<le> py_key v)
       (tree_entries tree)))))"
proof -
  let ?e = "BinaryOp op (ColumnRef col tab) (Literal v ty)" and ?range = "extract_scan_range (BinaryOp op (ColumnRef col tab) (Literal v ty))"
  have g: "pn_scan_range g = ?range" "pn_table_name g = Some name"
    using assms(2,3,5,6) by (auto simp: select_index_def bindr_Inr_iff split: if_splits option.splits)
  obtain low high where r: "?range = Some (low, high)" "bound_ok tree (index_bound low)" "bound_ok tree (index_bound high)"
    "\<And>k. (\<not> too_low (index_bound low) True k \<and> \<not> too_high (index_bound high) True k) =
       (if op \<in> {OP_GT, OP_GTE} then py_key v \<le> k else k \<le> py_key v)"
    using assms(4,10,11) by (auto simp: bound_ok_def index_bound_def too_low_def too_high_def not_less)
  let ?hits = "filter (\<lambda>(k, rid). if op \<in> {OP_GT, OP_GTE} then py_key v \<le> k else k \<le> py_key v) (tree_entries tree)"
  have "range_scan tree (index_bound low) (index_bound high) True True = Inr ?hits"
    using range_scan_entries [OF assms(8), of "index_bound low" "index_bound high" True True]
    unfolding r(4) by (simp only: case_prod_unfold)
  then have "index_range tree low high = Inr ?hits" using r(2,3) by (simp add: index_range_def)
  moreover obtain hf where hf: "get_table (db_catalog db) name = Some t" "assoc_get name (db_heaps db) = Some hf"
    "heap_inv (db_pool db) hf" "get_schema (base_rt rt) t = Inr (hf_schema hf)"
    by (rule table_holdsE [OF assms(1)])
  moreover have "\<forall>(k, rid) \<in> set ?hits. row rid \<noteq> [] \<and>
      (\<exists>d. heap_contents (db_pool db) hf rid = Some d \<and> record_deserialize (base_rt rt) (hf_schema hf) d = Inr (row rid))"
    using assms(9) hf(2) by (simp add: index_rows_def)
  then obtain b where "fetch_rows rt hf (column_names t) None ?hits db = Some (db\<lparr>db_pool := b\<rparr>, Inr (map (row \<circ> snd) ?hits))"
    using fetch_rows_held [OF hf(3), of ?hits row rt "column_names t"] by blast
  ultimately have "exec_index_scan rt g db = Some (db\<lparr>db_pool := b\<rparr>, Inr (table_result (column_names t) (map (row \<circ> snd) ?hits)))"
    using index_scan_runs [OF hf(1,2,4) g(2) assms(7)] g(1) r(1) by (simp add: bind_db_def from_result_def ret_def)
  then show ?thesis using assms(6) by (intro exI [of _ b]) simp
qed

lemma empty_index_scan:
  assumes "table_holds rt db name t rows" "pn_table_name g = Some name"
    and "assoc_get (name_or_empty (pn_index_name g)) (db_indexes db) = Some new_index"
  shows "exec_index_scan rt g db = Some (db, Inr (table_result (column_names t) []))"
proof -
  have h: "exec_index_scan rt g db = Some (db, Inr (table_result (column_names t) []))"
    if "get_table (db_catalog db) name = Some t" "assoc_get name (db_heaps db) = Some hf"
      "get_schema (base_rt rt) t = Inr (hf_schema hf)" for hf
  proof -
    have "index_range new_index low high = Inr []" "scan_all new_index = Inr []" for low high
      by (auto simp: index_range_def bound_ok_def index_keys_def new_index_def range_scan_def scan_all_def
          split: option.split)
    then show ?thesis
      unfolding index_scan_runs [OF that assms(2,3)]
      by (cases "pn_scan_range g") (auto simp: bind_db_def from_result_def fetch_rows_def ret_def)
  qed
  show ?thesis by (rule table_holdsE [OF assms(1)]) (rule h)
qed

text \<open>
  C0: \<^verbatim>\<open>CREATE INDEX\<close> with the name of an existing index, even with
  \<^verbatim>\<open>IF NOT EXISTS\<close>, raises only after it has replaced the index by an empty
  one: from then on every scan through that index returns no rows, whatever the table holds.
\<close>

theorem failed_create_index_empties_index:
  assumes "table_holds rt db name t rows" "get_index (db_catalog db) ix \<noteq> None"
    and "pn_type f = P_CREATE_INDEX" "pn_statement f = Some (CreateIndexStatement ix tab cols uniq if_not_exists)"
    and "pn_type g = P_INDEX_SCAN" "pn_table_name g = Some name" "pn_index_name g = Some ix"
  shows "\<exists>db1. exec_node rt txn (PlanNode f cs) db = Some (db1, Inl ValueError) \<and>
    table_holds rt db1 name t rows \<and>
    exec_node rt txn (PlanNode g []) db1 = Some (db1, Inr (table_result (column_names t) []))"
proof -
  let ?db1 = "db\<lparr>db_indexes := assoc_put ix new_index (db_indexes db)\<rparr>"
  have "exec_create_index rt (pn_statement f) db = Some (?db1, Inl ValueError)"
    using assms(2,4)
    by (auto simp: exec_create_index_def bind_db_def put_index_def modify_db_def on_catalog_def create_index_def)
  moreover have holds: "table_holds rt ?db1 name t rows" using assms(1) by (simp add: table_holds_def)
  moreover have "exec_index_scan rt g ?db1 = Some (?db1, Inr (table_result (column_names t) []))"
    by (rule empty_index_scan [OF holds assms(6)]) (simp add: assms(7) name_or_empty_def assoc_get_put)
  ultimately show ?thesis using assms(3,5) by auto
qed

section \<open>Examples\<close>

text \<open>A table with two columns in a new database file, empty at first, then with one row.\<close>

definition sample_schema :: table_schema where
  "sample_schema = \<lparr>ts_table_name = ''t'', ts_column_names = [''id'', ''ok''],
     ts_column_types = [IntegerType, BooleanType], ts_primary_key = None\<rparr>"

definition sample_table :: table_info where
  "sample_table = \<lparr>ti_name = ''t'', ti_columns = [\<lparr>ci_name = ''id'', ci_type = ''INTEGER'', ci_constraints = []\<rparr>,
       \<lparr>ci_name = ''ok'', ci_type = ''BOOLEAN'', ci_constraints = []\<rparr>], ti_primary_key = None,
     ti_first_page_id = 0, ti_indexes = [], ti_auto_counter = 0, ti_row_count = 0\<rparr>"

definition sample_db :: database where
  "sample_db =
     (case heap_create sample_schema (pool_new (disk_open None) 4) of
        (b, r) \<Rightarrow> \<lparr>db_catalog = catalog_save \<lparr>ct_tables = [(''t'', sample_table)], ct_indexes = [], ct_file = Missing\<rparr>,
                   db_pool = b, db_wal = projr (wal_open None), db_mvcc = mvcc_new,
                   db_heaps = [(''t'', projr r)], db_indexes = []\<rparr>)"

lemma sample_get_schema: "get_schema rt sample_table = Inr sample_schema"
  by (simp add: get_schema_def sample_table_def sample_schema_def column_names_def type_from_string_def) code_simp

lemma sample_ready:
  "table_holds rt sample_db ''t'' sample_table []" "append_ready sample_db ''t''"
  "map_option first_page_id (assoc_get ''t'' (db_heaps sample_db)) = Some 0" "table_exact rt sample_db ''t''"
proof -
  have pages: "dk_num_pages (bp_disk (pool_new (disk_open None) 4)) = 0"
    by (simp add: pool_new_def disk_open_new)
  obtain b hf where c: "heap_create sample_schema (pool_new (disk_open None) 4) = (b, Inr hf)"
    "heap_inv b hf" "heap_tight b hf" "hf_schema hf = sample_schema" "heap_contents b hf = Map.empty"
    "dk_num_pages (bp_disk b) = 1"
    using heap_create_correct [OF new_pool_ready [of 4], of sample_schema] pages
    by (auto simp: INVALID_PAGE_ID_def)
  have "x \<notin> set (file_records b hf)" for x
    using file_records_set [OF c(2)] c(5) by (cases x) simp
  then have none: "file_records b hf = []" by (metis list.set_intros(1) neq_Nil_conv)
  show "table_holds rt sample_db ''t'' sample_table []"
    using c none sample_get_schema by (simp add: table_holds_def sample_db_def get_table_def decode_rows_def catalog_save_def)
  show "append_ready sample_db ''t''"
    using c by (simp add: append_ready_def sample_db_def get_indexes_for_table_def INVALID_PAGE_ID_def catalog_save_def)
  show "table_exact rt sample_db ''t''" using c(1) none by (simp add: table_exact_def sample_db_def)
  have "first_page_id hf = 0"
    using c(2,6) by (cases "hf_page_ids hf") (auto simp: heap_inv_def in_file_def first_page_id_def)
  then show "map_option first_page_id (assoc_get ''t'' (db_heaps sample_db)) = Some 0"
    using c(1) by (simp add: sample_db_def)
qed

lemma sample_record:
  assumes "0 \<le> i" "i < 2 ^ 64"
  shows "\<exists>rec. record_serialize (base_rt rt) sample_schema [VInt i, VNull] = Inr rec \<and> length rec = 9"
    "fits_schema sample_schema [VInt i, VNull]"
  using int_serialize_nonneg [OF assms] assms
  by (auto simp: record_serialize_def fits_schema_def sample_schema_def num_columns_def null_like_def is_null_value_def
      null_bitmap_size_def less_Suc_eq)

lemma sample_insertable: "insertable rt sample_table [VInt 7, VNull]"
  using sample_record(1) [of 7 rt] sample_record(2) [of 7] sample_get_schema unfolding insertable_def by (fastforce simp: sample_table_def)

definition seven :: "expr list" where
  "seven = [Literal (VInt 7) ''integer'', Literal VNull ''null'']"

definition scan_fields :: plan_fields where
  "scan_fields = (blank_node P_SEQ_SCAN)\<lparr>pn_table_name := Some ''t'', pn_rows := VFloat 0\<rparr>"

definition insert_fields :: "expr list list \<Rightarrow> plan_fields" where
  "insert_fields rows = (blank_node P_INSERT)\<lparr>pn_table_name := Some ''t'', pn_values := Some rows\<rparr>"

definition id_is_seven :: expr where
  "id_is_seven = BinaryOp OP_EQ (ColumnRef ''id'' None) (Literal (VInt 7) ''integer'')"

lemma seven_values: "mapr (eval_expr rt []) seven = Inr [VInt 7, VNull]"
  by (simp add: seven_def)

lemma seven_null: "normalise_nulls [VInt 7, VNull] = [VInt 7, VNull]"
  by (simp add: normalise_nulls_def null_like_def is_null_value_def)

lemma sample_filled:
  obtains db where "table_holds rt db ''t'' sample_table [[VInt 7, VNull]]"
    "db_catalog db = db_catalog sample_db" "map_option first_page_id (assoc_get ''t'' (db_heaps db)) = Some 0"
    "table_exact rt db ''t''"
proof (rule insert_values_step [where rt = rt and f = "insert_fields [seven]" and txn = 0 and n = 0,
      OF sample_ready(1,2) sample_insertable seven_values])
  show "pn_insert_columns (insert_fields [seven]) = None"
    by (simp add: insert_fields_def blank_node_def)
qed (use seven_null sample_ready(3,4) that in auto)

lemma id_seven_holds:
  "filter_rows null_sql_runtime (column_names sample_table) (Some id_is_seven) [[VInt 7, VNull]] =
     Inr [[VInt 7, VNull]]"
  by code_simp

theorem scan_reads_table_witness:
  "\<exists>db b. table_holds null_sql_runtime db ''t'' sample_table [[VInt 7, VNull]] \<and>
     exec_seq_scan null_sql_runtime (scan_fields\<lparr>pn_predicate := Some id_is_seven\<rparr>) db =
       Some (db\<lparr>db_pool := b\<rparr>, Inr (table_result [''id'', ''ok''] [[VInt 7, VNull]]))"
proof -
  obtain db where db: "table_holds null_sql_runtime db ''t'' sample_table [[VInt 7, VNull]]"
    by (rule sample_filled)
  have "column_names sample_table = [''id'', ''ok'']" by code_simp
  then show ?thesis
    using scan_reads_table [OF db, of "scan_fields\<lparr>pn_predicate := Some id_is_seven\<rparr>"] db id_seven_holds
    by (auto simp: scan_fields_def blank_node_def exec_filter_def table_result_def)
qed

lemma scan_mult: "py_mul null_sql_runtime (VFloat 0) float_033 = Inr (VFloat 0)"
  by code_simp

theorem pushdown_keeps_rows_witness:
  "\<exists>db q b b1 r. table_holds null_sql_runtime db ''t'' sample_table [[VInt 7, VNull]] \<and>
     pushdown_predicates null_sql_runtime (PlanNode ((blank_node P_FILTER)\<lparr>pn_predicate := Some id_is_seven\<rparr>)
       [PlanNode scan_fields []]) = Inr q \<and> q \<noteq> PlanNode scan_fields [] \<and>
     exec_node null_sql_runtime 1 (PlanNode ((blank_node P_FILTER)\<lparr>pn_predicate := Some id_is_seven\<rparr>)
       [PlanNode scan_fields []]) db = Some (db\<lparr>db_pool := b\<rparr>, r) \<and>
     exec_node null_sql_runtime 1 q db = Some (db\<lparr>db_pool := b1\<rparr>, r)"
proof -
  obtain db where db: "table_holds null_sql_runtime db ''t'' sample_table [[VInt 7, VNull]]"
    by (rule sample_filled)
  let ?f = "(blank_node P_FILTER)\<lparr>pn_predicate := Some id_is_seven\<rparr>"
  obtain q where q: "pushdown_predicates null_sql_runtime (PlanNode ?f [PlanNode scan_fields []]) = Inr q"
    "q \<noteq> PlanNode scan_fields []"
    using scan_mult by (auto simp: scan_fields_def blank_node_def)
  show ?thesis
    using pushdown_keeps_rows [OF db _ _ _ _ q(1), of 1] q db by (auto simp: scan_fields_def blank_node_def)
qed

lemma insert_fields_simps [simp]:
  "pn_type (insert_fields rows) = P_INSERT" "pn_table_name (insert_fields rows) = Some ''t''"
  "pn_insert_columns (insert_fields rows) = None" "pn_values (insert_fields rows) = Some rows"
  by (simp_all add: insert_fields_def blank_node_def)

theorem insert_adds_row_witness:
  "\<exists>db1. exec_node null_sql_runtime 1 (PlanNode (insert_fields [seven]) []) sample_db =
       Some (db1, Inr (message_result 1 (str_of_int 1 @ '' row(s) inserted''))) \<and>
     table_holds null_sql_runtime db1 ''t'' (sample_table\<lparr>ti_row_count := 1\<rparr>) [[VInt 7, VNull]]"
proof -
  have "ti_row_count sample_table + 1 = 1" by (simp add: sample_table_def)
  then show ?thesis
    using insert_adds_row [where rt = null_sql_runtime and f = "insert_fields [seven]" and txn = 1 and cs = "[]",
        OF sample_ready(1,2) sample_insertable _ _ _ _ seven_values] seven_null
    by (auto simp del: exec_node.simps)
qed

definition x_between :: expr where
  "x_between = BetweenExpr (Literal (VStr ''x'') ''string'') (Literal (VInt 1) ''integer'')
     (Literal (VInt 2) ''integer'') False"

lemma x_between_raises: "mapr (eval_expr null_sql_runtime []) [x_between] = Inl TypeError"
  by code_simp

theorem failed_insert_keeps_rows_witness:
  "\<exists>db1. execute_plan null_sql_runtime (PlanNode (insert_fields [seven, [x_between]]) []) None sample_db =
       Some (db1, Inl TypeError) \<and>
     map_option tx_state (mv_txns (db_mvcc db1) 1) = Some ABORTED \<and>
     table_holds null_sql_runtime db1 ''t'' sample_table [[VInt 7, VNull]]"
proof -
  have start: "table_tight sample_db ''t''" "get_indexes_for_table (db_catalog sample_db) ''t'' = []"
    "file_pages sample_db + int (length [[VInt 7, VNull]]) \<le> INVALID_PAGE_ID"
    using sample_ready(2) by (auto simp: append_ready_def table_tight_def)
  have good: "list_all2 (\<lambda>exprs vs. mapr (eval_expr null_sql_runtime []) exprs = Inr vs \<and> insertable null_sql_runtime sample_table vs)
      [seven] [[VInt 7, VNull]]"
    using seven_values sample_insertable by simp
  have "mv_next (db_mvcc sample_db) = 1" by (simp add: sample_db_def mvcc_new_def split: prod.split)
  then show ?thesis
    using failed_insert_keeps_rows [where f = "insert_fields [seven, [x_between]]" and cs = "[]" and rest = "[]",
        OF sample_ready(1) start(1,2) good x_between_raises start(3)] seven_null
    by (auto simp del: map_option_eq_Some)
qed

theorem delete_removes_matching_witness:
  "\<exists>db db1. table_holds null_sql_runtime db ''t'' sample_table [[VInt 7, VNull]] \<and>
     exec_node null_sql_runtime 1 (PlanNode ((blank_node P_DELETE)\<lparr>pn_table_name := Some ''t''\<rparr>)
       [dml_scan ''t'' (Some id_is_seven)]) db =
       Some (db1, Inr (message_result 1 (str_of_int 1 @ '' row(s) deleted''))) \<and>
     table_holds null_sql_runtime db1 ''t'' sample_table []"
proof -
  obtain db where db: "table_holds null_sql_runtime db ''t'' sample_table [[VInt 7, VNull]]"
    by (rule sample_filled)
  have p: "child_predicate [dml_scan ''t'' (Some id_is_seven)] = Some id_is_seven"
    by (simp add: child_predicate_def dml_scan_def blank_node_def)
  have "sample_table\<lparr>ti_row_count := 0\<rparr> = sample_table" by (simp add: sample_table_def)
  then show ?thesis
    using delete_removes_matching [OF db, of "(blank_node P_DELETE)\<lparr>pn_table_name := Some ''t''\<rparr>"
        "[dml_scan ''t'' (Some id_is_seven)]" "[[VInt 7, VNull]]" 1] db id_seven_holds p
    by (auto simp: blank_node_def sample_table_def)
qed

definition sample_index :: index_info where
  "sample_index = \<lparr>ix_name = ''ix'', ix_table = ''t'', ix_columns = [''id''], ix_unique = False, ix_primary = False\<rparr>"

definition index_catalog :: catalog where
  "index_catalog = \<lparr>ct_tables = [(''t'', sample_table)], ct_indexes = [(''ix'', sample_index)], ct_file = Missing\<rparr>"

lemma indexed_holds:
  "table_holds rt db ''t'' sample_table rows \<Longrightarrow>
   table_holds rt (db\<lparr>db_catalog := index_catalog, db_indexes := ixs\<rparr>) ''t'' sample_table rows"
  by (simp add: table_holds_def index_catalog_def get_table_def)

definition id_compared :: "binary_op_type \<Rightarrow> expr" where
  "id_compared op = BinaryOp op (ColumnRef ''id'' None) (Literal (VInt 7) ''integer'')"

definition index_fields :: "binary_op_type \<Rightarrow> plan_fields" where
  "index_fields op = scan_fields\<lparr>pn_predicate := Some (id_compared op), pn_type := P_INDEX_SCAN,
     pn_index_name := Some ''ix'', pn_index_columns := Some [''id''], pn_scan_range := Some (VInt 7, VNone),
     pn_cost := VFloat 0\<rparr>"

lemma id_range_chosen:
  "select_index float_sql_runtime index_catalog (scan_fields\<lparr>pn_predicate := Some (BinaryOp OP_GT (ColumnRef ''id'' None) (Literal (VInt 7) ''integer''))\<rparr>) =
     Inr (index_fields OP_GT)"
  by code_simp

text \<open>The row with 7 is in the answer to \<^verbatim>\<open>id > 7\<close>.\<close>

theorem strict_range_scan_is_inclusive_witness:
  "\<exists>db b. table_holds float_sql_runtime db ''t'' sample_table [[VInt 7, VNull]] \<and>
     exec_node float_sql_runtime 1 (PlanNode (index_fields OP_GT) []) db =
       Some (db\<lparr>db_pool := b\<rparr>, Inr (table_result [''id'', ''ok''] [[VInt 7, VNull]]))"
proof -
  obtain db0 where db0: "table_holds float_sql_runtime db0 ''t'' sample_table [[VInt 7, VNull]]"
    by (rule sample_filled)
  obtain hf where hf: "assoc_get ''t'' (db_heaps db0) = Some hf" "heap_inv (db_pool db0) hf"
    "decode_rows float_sql_runtime (hf_schema hf) (file_records (db_pool db0) hf) = Inr [[VInt 7, VNull]]"
    by (rule table_holdsE [OF db0])
  obtain rid d where rec: "file_records (db_pool db0) hf = [(rid, d)]"
    "record_deserialize (base_rt float_sql_runtime) (hf_schema hf) d = Inr [VInt 7, VNull]"
    using hf(3) unfolding decode_rows_def
    by (cases "file_records (db_pool db0) hf"; cases "tl (file_records (db_pool db0) hf)") (auto simp: bindr_Inr_iff)
  have contents: "heap_contents (db_pool db0) hf rid = Some d"
    using file_records_set [OF hf(2), of rid d] rec(1) by simp
  define tree :: index_tree where
    "tree = \<lparr>bt_order = 64, bt_root = Leaf [(py_key (VInt 7), rid)], bt_size = 1, bt_height = 1\<rparr>"
  let ?db = "db0\<lparr>db_catalog := index_catalog, db_indexes := [(''ix'', tree)]\<rparr>"
  have tree: "btree_ok True tree" "tree_entries tree = [(py_key (VInt 7), rid)]"
    "list_all (comparable (py_key (VInt 7))) (index_keys tree)"
    by (simp_all add: tree_def btree_ok_def min_keys_def contents_def tree_entries_def index_keys_def)
  have rows: "index_rows float_sql_runtime ?db ''t'' tree (\<lambda>_. [VInt 7, VNull])"
    using hf(1) contents rec(2) by (simp add: index_rows_def tree(2))
  have holds: "table_holds float_sql_runtime ?db ''t'' sample_table [[VInt 7, VNull]]"
    using db0 by (rule indexed_holds)
  have f: "pn_table_name scan_fields = Some ''t''" "pn_type scan_fields = P_SEQ_SCAN"
    by (simp_all add: scan_fields_def blank_node_def)
  have g: "pn_type (index_fields OP_GT) = P_INDEX_SCAN" "pn_index_name (index_fields OP_GT) = Some ''ix''"
    by (simp_all add: index_fields_def)
  have ix: "assoc_get (name_or_empty (pn_index_name (index_fields OP_GT))) (db_indexes ?db) = Some tree"
    by (simp add: g(2) name_or_empty_def)
  have "column_names sample_table = [''id'', ''ok'']" by code_simp
  then show ?thesis
    using strict_range_scan_is_inclusive [OF holds f(2,1) _ id_range_chosen g(1) ix tree(1) rows _ tree(3), of 1] holds
    by (auto simp: tree(2) simp del: exec_node.simps)
qed

theorem failed_create_index_empties_index_witness:
  "\<exists>db db1. table_holds null_sql_runtime db ''t'' sample_table [[VInt 7, VNull]] \<and>
     exec_node null_sql_runtime 1 (PlanNode ((blank_node P_CREATE_INDEX)\<lparr>pn_statement :=
       Some (CreateIndexStatement ''ix'' ''t'' [''id''] False True)\<rparr>) []) db = Some (db1, Inl ValueError) \<and>
     exec_node null_sql_runtime 1 (PlanNode (index_fields OP_GTE) []) db1 =
       Some (db1, Inr (table_result [''id'', ''ok''] []))"
proof -
  obtain db where "table_holds null_sql_runtime db ''t'' sample_table [[VInt 7, VNull]]"
    by (rule sample_filled)
  then have holds: "table_holds null_sql_runtime (db\<lparr>db_catalog := index_catalog, db_indexes := []\<rparr>)
      ''t'' sample_table [[VInt 7, VNull]]"
    by (rule indexed_holds)
  have ix: "get_index (db_catalog (db\<lparr>db_catalog := index_catalog, db_indexes := []\<rparr>)) ''ix'' \<noteq> None"
    by (simp add: index_catalog_def get_index_def)
  have g: "pn_type (index_fields op) = P_INDEX_SCAN" "pn_index_name (index_fields op) = Some ''ix''"
    "pn_table_name (index_fields op) = Some ''t''" for op
    by (simp_all add: index_fields_def scan_fields_def blank_node_def)
  let ?f = "(blank_node P_CREATE_INDEX)\<lparr>pn_statement := Some (CreateIndexStatement ''ix'' ''t'' [''id''] False True)\<rparr>"
  have f: "pn_type ?f = P_CREATE_INDEX" "pn_statement ?f = Some (CreateIndexStatement ''ix'' ''t'' [''id''] False True)"
    by (simp_all add: blank_node_def)
  have "column_names sample_table = [''id'', ''ok'']" by code_simp
  then show ?thesis
    using failed_create_index_empties_index [OF holds ix f g(1,3,2), of 1 "[]" OP_GTE] holds by auto
qed

end
