(* ===== verification/Database.thy ===== *)
theory Database
  imports Statements_Spec Parser_Statements
begin

text \<open>
  The database facade, \<^verbatim>\<open>Database\<close> of \<^verbatim>\<open>src/pysql/engine.py\<close>: opening the
  files, running source text through the parser, the planner and the executor, explicit
  transactions, checkpoints and closing.  Then what holds across the components: a table survives
  a restart, and a rolled back transaction keeps what its statements did.
\<close>

section \<open>Opening and closing\<close>

text \<open>What the directory of a database holds.\<close>

record db_files =
  fs_data :: "byte list option"
  fs_wal :: "byte list option"
  fs_catalog :: catalog_file

definition database_files :: "database \<Rightarrow> db_files" where
  "database_files db = \<lparr>fs_data = Some (dk_file (bp_disk (db_pool db))),
     fs_wal = Some (wal_file (db_wal db)), fs_catalog = ct_file (db_catalog db)\<rparr>"

definition database_recover :: "database \<Rightarrow> database result" where
  "database_recover db = bindr (recover (db_wal db)) (\<lambda>(w, committed, aborted). Inr (db\<lparr>db_wal := w\<rparr>))"

definition database_open :: "db_files \<Rightarrow> nat \<Rightarrow> database result" where
  "database_open fs pool_size =
     bindr (wal_open (fs_wal fs)) (\<lambda>w.
       database_recover \<lparr>db_catalog = catalog_open (fs_catalog fs),
         db_pool = pool_new (disk_open (fs_data fs)) pool_size, db_wal = w, db_mvcc = mvcc_new,
         db_heaps = [], db_indexes = []\<rparr>)"

definition database_flush :: "database \<Rightarrow> database \<times> unit result" where
  "database_flush db = (case flush_all (db_pool db) of (b, r) \<Rightarrow> (db\<lparr>db_pool := b\<rparr>, r))"

definition checkpoint :: "database \<Rightarrow> database \<times> unit result" where
  "checkpoint db =
     (case database_flush db of
        (db1, Inl e) \<Rightarrow> (db1, Inl e)
      | (db1, Inr _) \<Rightarrow>
          (case log_checkpoint (db_wal db1) of
             (w, r) \<Rightarrow> (db1\<lparr>db_wal := w\<rparr>, bindr r (\<lambda>_. Inr ()))))"

text \<open>The final \<^verbatim>\<open>fsync\<close> changes nothing that the model sees.\<close>

definition database_close :: "database \<Rightarrow> database \<times> unit result" where
  "database_close db =
     (case checkpoint db of
        (db1, Inl e) \<Rightarrow> (db1, Inl e)
      | (db1, Inr _) \<Rightarrow> database_flush db1)"

section \<open>Statements\<close>

type_synonym 'a sql_action = "database \<Rightarrow> (database \<times> 'a sql_result) option"

fun as_sql :: "'a result \<Rightarrow> 'a sql_result" where
  "as_sql (Inl e) = Inl (PyError e)"
| "as_sql (Inr x) = Inr x"

definition exec_statement :: "sql_runtime \<Rightarrow> statement \<Rightarrow> table sql_action" where
  "exec_statement rt stmt db =
     (case plan rt (db_catalog db) stmt of
        Inl e \<Rightarrow> Some (db, Inl (PyError e))
      | Inr p \<Rightarrow> map_option (\<lambda>(db1, r). (db1, as_sql r)) (execute_plan rt p None db))"

fun exec_statements :: "sql_runtime \<Rightarrow> statement list \<Rightarrow> table list \<Rightarrow> table list sql_action" where
  "exec_statements rt [] results db = Some (db, Inr results)"
| "exec_statements rt (s # ss) results db =
     (case exec_statement rt s db of
        None \<Rightarrow> None
      | Some (db1, Inl e) \<Rightarrow> Some (db1, Inl e)
      | Some (db1, Inr t) \<Rightarrow> exec_statements rt ss (results @ [t]) db1)"

definition execute_many :: "sql_runtime \<Rightarrow> string \<Rightarrow> table list sql_action" where
  "execute_many rt sql db =
     (case parse_sql (base_rt rt) sql of
        Inl e \<Rightarrow> Some (db, Inl e)
      | Inr ss \<Rightarrow> exec_statements rt ss [] db)"

text \<open>\<^verbatim>\<open>execute\<close> keeps only the last result.\<close>

definition execute :: "sql_runtime \<Rightarrow> string \<Rightarrow> table sql_action" where
  "execute rt sql db =
     (case parse_sql (base_rt rt) sql of
        Inl e \<Rightarrow> Some (db, Inl e)
      | Inr [] \<Rightarrow> Some (db, Inr (message_result 0 ''No statement to execute''))
      | Inr (s # ss) \<Rightarrow>
          map_option (\<lambda>(db1, r). (db1, bind_sql r (\<lambda>ts. Inr (last ts)))) (exec_statements rt (s # ss) [] db))"

text \<open>The lines of the plan of the first statement; none when there is no statement.\<close>

definition explain_sql :: "sql_runtime \<Rightarrow> database \<Rightarrow> string \<Rightarrow> (nat \<times> string) list option sql_result" where
  "explain_sql rt db sql =
     bind_sql (parse_sql (base_rt rt) sql) (\<lambda>ss.
       case ss of
         [] \<Rightarrow> Inr None
       | s # _ \<Rightarrow> bind_sql (as_sql (plan rt (db_catalog db) s)) (\<lambda>p. Inr (Some (explain rt 0 p))))"

section \<open>Explicit transactions\<close>

definition db_begin :: "database \<Rightarrow> database \<times> int" where
  "db_begin db = (case begin_transaction (db_mvcc db) SNAPSHOT of (m, t) \<Rightarrow> (db\<lparr>db_mvcc := m\<rparr>, t))"

definition db_commit :: "int \<Rightarrow> database \<Rightarrow> database \<times> bool result" where
  "db_commit t db =
     (case commit_transaction (db_mvcc db) t of
        (m, Inl e) \<Rightarrow> (db\<lparr>db_mvcc := m\<rparr>, Inl e)
      | (m, Inr success) \<Rightarrow>
          (let db1 = db\<lparr>db_mvcc := m\<rparr> in
           if success then
             (case log_commit (db_wal db1) t of
                (w, r) \<Rightarrow> (db1\<lparr>db_wal := w\<rparr>, bindr r (\<lambda>_. Inr True)))
           else (db1, Inr False)))"

definition db_rollback :: "int \<Rightarrow> database \<Rightarrow> database" where
  "db_rollback t db = db\<lparr>db_mvcc := abort_transaction (db_mvcc db) t, db_wal := fst (log_abort (db_wal db) t)\<rparr>"

section \<open>Restarting\<close>

lemma write_keeps_count: "write_page d p = Inr (d', p') \<Longrightarrow> dk_num_pages d' = dk_num_pages d"
  by (auto simp: write_page_def bindr_Inr_iff)

lemma clean_keeps_count: "clean_frame b i = (b', r) \<Longrightarrow> dk_num_pages (bp_disk b') = dk_num_pages (bp_disk b)"
  by (auto simp: clean_frame_def write_frame_def set_header_def dest: write_keeps_count
      split: prod.splits sum.splits option.splits)

lemma flush_keeps_count: "flush_frames is b = (b', r) \<Longrightarrow> dk_num_pages (bp_disk b') = dk_num_pages (bp_disk b)"
proof (induction "is" b rule: flush_frames.induct)
  case (2 i "is" b)
  then show ?case
    by (auto simp: Let_def dest: clean_keeps_count split: if_splits prod.splits sum.splits)
qed simp

lemma flush_database:
  assumes "ready (db_pool db)"
  obtains b where "database_flush db = (db\<lparr>db_pool := b\<rparr>, Inr ())" "pool_view b = pool_view (db_pool db)"
    "disk_sig (bp_disk b) = pool_view (db_pool db)" "disk_ok (bp_disk b)" "ready b"
    "dk_num_pages (bp_disk b) = dk_num_pages (bp_disk (db_pool db))"
proof -
  have r: "pool_inv (db_pool db)" "pins (db_pool db) = (\<lambda>_. 0)" "2 \<le> bp_size (db_pool db)"
    using assms by (simp_all add: ready_def)
  have ix: "\<forall>i \<in> set [0..<length (bp_headers (db_pool db))]. i < bp_size (db_pool db)"
    using pool_lens [OF r(1)] by simp
  obtain b where b: "flush_all (db_pool db) = (b, Inr ())" "pool_inv b" "pool_view b = pool_view (db_pool db)"
    "disk_sig (bp_disk b) = pool_view (db_pool db)"
    using flush_all_correct [OF r(1,2)] by blast
  have more: "pins b = pins (db_pool db)" "bp_size b = bp_size (db_pool db)"
    "dk_num_pages (bp_disk b) = dk_num_pages (bp_disk (db_pool db))"
    using flush_frames_facts [OF r(1) ix] b(1) flush_keeps_count unfolding flush_all_def by fastforce+
  have "ready b" using b(2) more(1,2) r(2,3) by (simp add: ready_def)
  moreover have "disk_ok (bp_disk b)" using b(2) by (simp add: pool_inv_def)
  moreover have "database_flush db = (db\<lparr>db_pool := b\<rparr>, Inr ())" using b(1) by (simp add: database_flush_def)
  ultimately show thesis using that b(3,4) more(3) by blast
qed

lemma reopen_disk: "disk_ok d \<Longrightarrow> disk_open (Some (dk_file d)) = d"
  by (cases d) (auto simp: disk_ok_def disk_wf_def disk_open_def PAGE_SIZE_def)

text \<open>A handler that asks for a table file that is not open yet opens it first.\<close>

lemma open_first:
  assumes "get_table (db_catalog db) name = Some t" "get_schema (base_rt rt) t = Inr (hf_schema hf)"
    and "get_or_create_heap rt name (hf_schema hf) db = Some (db1, Inr hf)"
    and "db_catalog db1 = db_catalog db" "assoc_get name (db_heaps db1) = Some hf"
  shows "bind_db (table_named name) (\<lambda>t. bind_db (from_result (get_schema (base_rt rt) t)) (\<lambda>s.
      bind_db (get_or_create_heap rt name s) (\<lambda>hf. run t s hf))) db =
    bind_db (table_named name) (\<lambda>t. bind_db (from_result (get_schema (base_rt rt) t)) (\<lambda>s.
      bind_db (get_or_create_heap rt name s) (\<lambda>hf. run t s hf))) db1"
proof -
  have t1: "get_table (db_catalog db1) name = Some t" using assms(1,4) by simp
  show ?thesis
    unfolding open_table [OF t1 assms(5,2)]
    using table_named_found [OF assms(1)] assms(2,3) by (simp add: bind_db_def from_result_def)
qed

lemma handlers_open:
  assumes "get_table (db_catalog db) name = Some t" "get_schema (base_rt rt) t = Inr (hf_schema hf)"
    and "get_or_create_heap rt name (hf_schema hf) db = Some (db1, Inr hf)"
    and "db_catalog db1 = db_catalog db" "assoc_get name (db_heaps db1) = Some hf" "pn_table_name f = Some name"
  shows "exec_seq_scan rt f db = exec_seq_scan rt f db1"
    and "exec_insert rt f txn db = exec_insert rt f txn db1"
    and "exec_delete rt f cs db = exec_delete rt f cs db1"
  using open_first [OF assms(1-5)] assms(6)
  unfolding exec_seq_scan_def exec_insert_def exec_delete_def by (simp_all add: name_or_empty_def Let_def)

lemma reopen_heap:
  assumes "get_table (db_catalog db) name = Some t" "get_schema (base_rt rt) t = Inr (hf_schema hf)"
    and "assoc_get name (db_heaps db) = None" "ti_first_page_id t = first_page_id hf"
    and "ready (db_pool db)" "pool_view (db_pool db) = pool_view b" "heap_inv b hf"
    and "dk_num_pages (bp_disk (db_pool db)) = dk_num_pages (bp_disk b)"
  obtains b1 where "get_or_create_heap rt name (hf_schema hf) db =
      Some (db\<lparr>db_pool := b1, db_heaps := assoc_put name hf (db_heaps db)\<rparr>, Inr hf)"
    "heap_inv b1 hf" "pool_view b1 = pool_view b" "dk_num_pages (bp_disk b1) = dk_num_pages (bp_disk b)"
proof -
  have inv: "hf_page_ids hf \<noteq> []" "\<forall>pid \<in> set (hf_page_ids hf). in_file b pid"
    "dk_num_pages (bp_disk b) \<le> INVALID_PAGE_ID" "chained (\<lambda>pid. view_next (pool_view b pid)) (hf_page_ids hf)"
    using assms(7) by (simp_all add: heap_inv_def)
  have first: "first_page_id hf = hd (hf_page_ids hf)" "0 \<le> hd (hf_page_ids hf)"
    using inv(1,2) by (cases "hf_page_ids hf"; auto simp: first_page_id_def in_file_def)+
  have pages: "\<forall>pid \<in> set (hf_page_ids hf). in_file (db_pool db) pid \<and> pid \<noteq> INVALID_PAGE_ID"
    using inv(2,3) assms(8) by (auto simp: in_file_def)
  obtain b1 where b1: "load_page_chain (db_pool db) (hd (hf_page_ids hf)) [] = Some (b1, Inr (hf_page_ids hf))"
    "ready b1" "pool_view b1 = pool_view b" "dk_num_pages (bp_disk b1) = dk_num_pages (bp_disk b)"
    using load_page_chain_correct [OF assms(5) pages _ inv(1), of "[]"] inv(4) assms(6,8) by auto
  have "heap_inv b1 hf" using assms(7) b1(2-4) by (simp add: heap_inv_def in_file_def)
  moreover have "open_heap (hf_schema hf) (ti_first_page_id t) db = Some (db\<lparr>db_pool := b1\<rparr>, Inr hf)"
    using b1(1) first(1) assms(4) by (simp add: open_heap_def)
  then have "get_or_create_heap rt name (hf_schema hf) db =
      Some (db\<lparr>db_pool := b1, db_heaps := assoc_put name hf (db_heaps db)\<rparr>, Inr hf)"
    using assms(1-4) first
    by (simp add: get_or_create_heap_def get_heap_file_def bind_db_def get_db_def from_result_def ret_def
        put_heap_def modify_db_def)
  ultimately show thesis using that b1(3,4) by blast
qed

text \<open>Closing a database and opening its files again, with any pool of at least two frames.\<close>

lemma reopen_database:
  assumes "ready (db_pool db)" "catalog_open (ct_file (db_catalog db)) = db_catalog db"
    and "is_ok (snd (log_checkpoint (db_wal db)))" "2 \<le> n"
  obtains db1 db2 where "database_close db = (db1, Inr ())" "database_open (database_files db1) n = Inr db2"
    "db_catalog db2 = db_catalog db" "db_heaps db2 = []" "ready (db_pool db2)"
    "pool_view (db_pool db2) = pool_view (db_pool db)" "file_pages db2 = file_pages db"
proof -
  obtain b where b: "database_flush db = (db\<lparr>db_pool := b\<rparr>, Inr ())" "pool_view b = pool_view (db_pool db)"
    "ready b" "dk_num_pages (bp_disk b) = dk_num_pages (bp_disk (db_pool db))"
    by (rule flush_database [OF assms(1)])
  obtain w k where w: "log_checkpoint (db_wal db) = (w, Inr k)"
    using assms(3) by (cases "log_checkpoint (db_wal db)") (auto simp: is_ok_def split: sum.splits)
  let ?mid = "db\<lparr>db_pool := b, db_wal := w\<rparr>"
  have "ready (db_pool ?mid)" using b(3) by simp
  then obtain b1 where b1: "database_flush ?mid = (?mid\<lparr>db_pool := b1\<rparr>, Inr ())" "pool_view b1 = pool_view b"
    "disk_sig (bp_disk b1) = pool_view b" "disk_ok (bp_disk b1)" "dk_num_pages (bp_disk b1) = dk_num_pages (bp_disk b)"
    by (rule flush_database) simp
  let ?db1 = "db\<lparr>db_pool := b1, db_wal := w\<rparr>" and ?pool = "pool_new (bp_disk b1) n"
  have close: "database_close db = (?db1, Inr ())"
    using b(1) w b1(1) by (simp add: database_close_def checkpoint_def)
  obtain w2 where "database_open (database_files ?db1) n = Inr \<lparr>db_catalog = db_catalog db, db_pool = ?pool, db_wal = w2,
      db_mvcc = mvcc_new, db_heaps = [], db_indexes = []\<rparr>"
    using assms(2) reopen_disk [OF b1(4)]
    by (auto simp: database_open_def database_files_def wal_open_def read_all_empty recover_lsn_def database_recover_def
        recover_def Let_def)
  moreover have "ready ?pool" "pool_view ?pool = pool_view (db_pool db)"
      "dk_num_pages (bp_disk ?pool) = file_pages db"
    using pool_new_inv [OF b1(4), of n] b(2,4) b1(3,5) assms(4)
    by (auto simp: ready_def pins_def pool_new_def fun_eq_iff)
  ultimately show thesis using that [OF close] by simp
qed

text \<open>
  C5: a table survives a restart: close the database and open its files again, with any pool of
  at least two frames, and a scan of the table returns the rows it held, in the same order;
  provided the catalog file is current and names the first page of the table, and the checkpoint
  record can be written.
\<close>

theorem restart_keeps_table:
  assumes "table_holds rt db name t rows" "assoc_get name (db_heaps db) = Some hf"
    and "ti_first_page_id t = first_page_id hf" "catalog_open (ct_file (db_catalog db)) = db_catalog db"
    and "is_ok (snd (log_checkpoint (db_wal db)))" "2 \<le> n" "pn_table_name f = Some name"
  shows "\<exists>db1 db2 db3. database_close db = (db1, Inr ()) \<and> database_open (database_files db1) n = Inr db2 \<and>
    exec_seq_scan rt f db2 = Some (db3, exec_filter rt (pn_predicate f) (table_result (column_names t) rows)) \<and>
    table_holds rt db3 name t rows"
proof -
  have h: "get_table (db_catalog db) name = Some t" "heap_inv (db_pool db) hf"
    "get_schema (base_rt rt) t = Inr (hf_schema hf)"
    "decode_rows rt (hf_schema hf) (file_records (db_pool db) hf) = Inr rows"
    using assms(1,2) unfolding table_holds_def by auto
  have "ready (db_pool db)" using h(2) by (simp add: heap_inv_def)
  then obtain db1 db2 where db2: "database_close db = (db1, Inr ())" "database_open (database_files db1) n = Inr db2"
    "db_catalog db2 = db_catalog db" "db_heaps db2 = []" "ready (db_pool db2)"
    "pool_view (db_pool db2) = pool_view (db_pool db)" "file_pages db2 = file_pages db"
    by (rule reopen_database [OF _ assms(4-6)])
  obtain b2 where b2: "get_or_create_heap rt name (hf_schema hf) db2 =
      Some (db2\<lparr>db_pool := b2, db_heaps := assoc_put name hf (db_heaps db2)\<rparr>, Inr hf)"
    "heap_inv b2 hf" "pool_view b2 = pool_view (db_pool db)"
    by (rule reopen_heap [of db2 name t rt hf "db_pool db"]) (use h db2 assms(3) in simp_all)
  let ?open = "db2\<lparr>db_pool := b2, db_heaps := assoc_put name hf (db_heaps db2)\<rparr>"
  have "file_records b2 hf = file_records (db_pool db) hf" using b2(3) by (simp add: file_records_def)
  then have "table_holds rt ?open name t rows"
    using h db2(3) b2(2) by (simp add: table_holds_def assoc_get_put)
  moreover have "exec_seq_scan rt f db2 = exec_seq_scan rt f ?open"
    by (rule handlers_open(1) [OF _ h(3) b2(1)]) (use h(1) db2(3) assms(7) in \<open>simp_all add: assoc_get_put\<close>)
  ultimately show ?thesis
    using db2(1,2) scan_held [of rt ?open name t rows f] assms(7) by auto
qed

section \<open>Rolling back\<close>

lemma table_holds_mvcc [simp]: "table_holds rt (db\<lparr>db_mvcc := m\<rparr>) name t rows = table_holds rt db name t rows"
  "table_holds rt (db\<lparr>db_wal := w\<rparr>) name t rows = table_holds rt db name t rows"
  "append_ready (db\<lparr>db_mvcc := m\<rparr>) name = append_ready db name"
  by (simp_all add: table_holds_def append_ready_def)

lemma auto_commit:
  assumes "begin_transaction (db_mvcc db) SNAPSHOT = (m, x)" "exec_node rt x p (db\<lparr>db_mvcc := m\<rparr>) = Some (db1, Inr r)"
  obtains m2 where "execute_plan rt p None db = Some (db1\<lparr>db_mvcc := m2\<rparr>, Inr r)"
proof -
  obtain m2 where m2: "commit_transaction m x = (m2, Inr True)"
    by (rule commit_fresh_ok [OF assms(1)])
  have "db_mvcc db1 = m" using keepsD [OF exec_node_keeps_mvcc assms(2)] by simp
  then have "execute_plan rt p None db = Some (db1\<lparr>db_mvcc := m2\<rparr>, Inr r)"
    using assms m2 by (simp add: execute_plan_def bind_db_def begin_auto_def commit_auto_def ret_def)
  then show thesis by (rule that)
qed

text \<open>
  C37: rolling back undoes nothing: an \<^verbatim>\<open>INSERT\<close> run between
  \<^verbatim>\<open>begin\<close> and \<^verbatim>\<open>rollback\<close> commits in a transaction of its own, and
  after the rollback the table holds the inserted row.
\<close>

theorem rolled_back_insert_stays:
  assumes "table_holds rt db name t rows" "append_ready db name" "insertable rt t vs"
    and "mapr (eval_expr rt []) exprs = Inr vs"
    and "is_ok (plan rt (db_catalog db) (InsertStatement name None [exprs]))"
  shows "\<exists>db0 x db1 rows1. db_begin db = (db0, x) \<and>
    exec_statement rt (InsertStatement name None [exprs]) db0 =
      Some (db1, Inr (message_result 1 (str_of_int 1 @ '' row(s) inserted''))) \<and>
    table_holds rt (db_rollback x db1) name (t\<lparr>ti_row_count := ti_row_count t + 1\<rparr>) rows1 \<and>
    mset rows1 = add_mset (normalise_nulls vs) (mset rows)"
proof -
  obtain m0 x where m0: "begin_transaction (db_mvcc db) SNAPSHOT = (m0, x)"
    by (cases "begin_transaction (db_mvcc db) SNAPSHOT")
  obtain m y where m: "begin_transaction m0 SNAPSHOT = (m, y)" by (cases "begin_transaction m0 SNAPSHOT")
  obtain f where f: "plan rt (db_catalog db) (InsertStatement name None [exprs]) = Inr (PlanNode f [])"
    "pn_type f = P_INSERT" "pn_table_name f = Some name" "pn_insert_columns f = None" "pn_values f = Some [exprs]"
    using assms(5) by (auto simp: is_ok_def plan_insert_def bindr_def blank_node_def split: sum.splits)
  let ?db0 = "db\<lparr>db_mvcc := m0\<rparr>"
  obtain db1 rows1 where i: "exec_node rt y (PlanNode f []) (?db0\<lparr>db_mvcc := m\<rparr>) =
      Some (db1, Inr (message_result 1 (str_of_int 1 @ '' row(s) inserted'')))"
    "table_holds rt db1 name (t\<lparr>ti_row_count := ti_row_count t + 1\<rparr>) rows1"
    "mset rows1 = add_mset (normalise_nulls vs) (mset rows)"
    using insert_held [of rt "?db0\<lparr>db_mvcc := m\<rparr>" name t rows vs f exprs y "[]"] assms(1-4) f(2-5)
    by (simp del: exec_node.simps) blast
  obtain m2 where "execute_plan rt (PlanNode f []) None ?db0 =
      Some (db1\<lparr>db_mvcc := m2\<rparr>, Inr (message_result 1 (str_of_int 1 @ '' row(s) inserted'')))"
    by (rule auto_commit [of ?db0 m y rt "PlanNode f []" db1]) (use m i(1) in \<open>simp_all del: exec_node.simps\<close>)
  then have "exec_statement rt (InsertStatement name None [exprs]) ?db0 =
      Some (db1\<lparr>db_mvcc := m2\<rparr>, Inr (message_result 1 (str_of_int 1 @ '' row(s) inserted'')))"
    using f(1) by (simp add: exec_statement_def del: plan.simps)
  moreover have "table_holds rt (db_rollback x (db1\<lparr>db_mvcc := m2\<rparr>)) name (t\<lparr>ti_row_count := ti_row_count t + 1\<rparr>) rows1"
    using i(2) by (simp add: db_rollback_def)
  ultimately show ?thesis using m0 i(3) by (auto simp: db_begin_def)
qed

section \<open>Examples\<close>

lemma sample_catalog_current: "catalog_open (ct_file (db_catalog sample_db)) = db_catalog sample_db"
proof -
  have "db_catalog sample_db = catalog_save \<lparr>ct_tables = [(''t'', sample_table)], ct_indexes = [], ct_file = Missing\<rparr>"
    by (simp add: sample_db_def split: prod.split)
  moreover have "catalog_open (ct_file (catalog_save \<lparr>ct_tables = [(''t'', sample_table)], ct_indexes = [], ct_file = Missing\<rparr>)) =
      catalog_save \<lparr>ct_tables = [(''t'', sample_table)], ct_indexes = [], ct_file = Missing\<rparr>"
    by code_simp
  ultimately show ?thesis by simp
qed

lemma new_log_checkpoint: "is_ok (snd (log_checkpoint (projr (wal_open None))))"
  by code_simp

theorem restart_keeps_table_witness:
  "\<exists>db db1 db2 db3. table_holds null_sql_runtime db ''t'' sample_table [[VInt 7, VNull]] \<and>
     database_close db = (db1, Inr ()) \<and> database_open (database_files db1) 2 = Inr db2 \<and>
     exec_seq_scan null_sql_runtime scan_fields db2 =
       Some (db3, Inr (table_result [''id'', ''ok''] [[VInt 7, VNull]]))"
proof -
  obtain db where db: "table_holds null_sql_runtime db ''t'' sample_table [[VInt 7, VNull]]"
    "db_catalog db = db_catalog sample_db" "map_option first_page_id (assoc_get ''t'' (db_heaps db)) = Some 0"
    by (rule sample_filled)
  let ?db = "db\<lparr>db_wal := projr (wal_open None)\<rparr>"
  obtain hf where hf: "assoc_get ''t'' (db_heaps ?db) = Some hf" "first_page_id hf = 0" using db(3) by auto
  have first: "ti_first_page_id sample_table = first_page_id hf" using hf(2) by (simp add: sample_table_def)
  have current: "catalog_open (ct_file (db_catalog ?db)) = db_catalog ?db"
    using sample_catalog_current db(2) by simp
  have holds: "table_holds null_sql_runtime ?db ''t'' sample_table [[VInt 7, VNull]]" using db(1) by simp
  have "column_names sample_table = [''id'', ''ok'']" by code_simp
  moreover have "pn_table_name scan_fields = Some ''t''" "pn_predicate scan_fields = None"
    by (simp_all add: scan_fields_def blank_node_def)
  moreover have "is_ok (snd (log_checkpoint (db_wal ?db)))" using new_log_checkpoint by simp
  ultimately show ?thesis
    using restart_keeps_table [OF holds hf(1) first current, of 2 scan_fields] holds
    by (auto simp: exec_filter_def eval_predicate_def table_result_def simp del: table_holds_mvcc)
qed

theorem rolled_back_insert_stays_witness:
  "\<exists>db0 x db1. db_begin sample_db = (db0, x) \<and>
     exec_statement float_sql_runtime (InsertStatement ''t'' None [seven]) db0 =
       Some (db1, Inr (message_result 1 (str_of_int 1 @ '' row(s) inserted''))) \<and>
     table_holds float_sql_runtime (db_rollback x db1) ''t'' (sample_table\<lparr>ti_row_count := 1\<rparr>) [[VInt 7, VNull]]"
proof -
  have "is_ok (plan float_sql_runtime c (InsertStatement ''t'' None [seven]))" for c
    by (simp add: plan_insert_def is_ok_def) code_simp
  then show ?thesis
    using rolled_back_insert_stays [of float_sql_runtime sample_db "''t''" sample_table "[]" "[VInt 7, VNull]" seven]
      sample_ready(1,2) sample_insertable seven_values seven_null
    by (auto simp: sample_table_def simp del: plan.simps)
qed

end
