(* ===== verification/Table_Update.thy ===== *)
theory Table_Update
  imports Statements_Spec
begin

text \<open>
  \<^verbatim>\<open>UPDATE\<close> against the rows of a table.  The loop of \<^verbatim>\<open>_exec_update\<close>
  changes the pages it scans: it sees the records a page had when it came to the page, and each
  record is replaced in its place when the new one is no longer.
\<close>

section \<open>A loop that replaces records\<close>

definition rewritten :: "heap_file \<Rightarrow> (byte list \<Rightarrow> byte list) \<Rightarrow> record_id set \<Rightarrow> pool \<Rightarrow> pool \<Rightarrow> bool" where
  "rewritten hf N R b b1 =
     (heap_inv b1 hf \<and> dk_num_pages (bp_disk b1) = dk_num_pages (bp_disk b) \<and>
      (\<forall>rid. heap_contents b1 hf rid =
         (if rid \<in> R then map_option N (heap_contents b hf rid) else heap_contents b hf rid)) \<and>
      (\<forall>q. q \<notin> rid_page ` R \<longrightarrow> pool_view b1 q = pool_view b q))"

lemma rewritten_trans:
  assumes "rewritten hf N R b b1" "rewritten hf N R1 b1 b2" "R \<inter> R1 = {}"
  shows "rewritten hf N (R \<union> R1) b b2"
  using assms unfolding rewritten_def by (auto simp: image_Un)

lemma rewritten_none: "heap_inv b hf \<Longrightarrow> rewritten hf N {} b b"
  by (simp add: rewritten_def)

lemma rewritten_view:
  assumes "heap_inv b1 hf" "pool_view b1 = pool_view b" "dk_num_pages (bp_disk b1) = dk_num_pages (bp_disk b)"
  shows "rewritten hf N {} b b1" "rewritten hf N R b1 b2 = rewritten hf N R b b2"
  using assms by (simp_all add: rewritten_def heap_contents_def)

text \<open>Slots without a record can be counted in.\<close>

lemma rewritten_page:
  assumes "rewritten hf N R b b1" "R \<subseteq> {rid. rid_page rid = pid}"
    and "\<And>rid. rid_page rid = pid \<Longrightarrow> rid \<notin> R \<Longrightarrow> heap_contents b hf rid = None"
  shows "rewritten hf N {rid. rid_page rid = pid} b b1"
  using assms unfolding rewritten_def by fastforce

text \<open>What the body of the loop does to one record.\<close>

definition replaces ::
  "sql_runtime \<Rightarrow> heap_file \<Rightarrow> (record_id \<Rightarrow> pyval list \<Rightarrow> int \<Rightarrow> int action) \<Rightarrow> (byte list \<Rightarrow> byte list) \<Rightarrow>
   (byte list \<Rightarrow> bool) \<Rightarrow> bool \<Rightarrow> byte list \<Rightarrow> bool"
where
  "replaces rt hf body N hit Q d =
     (\<forall>rid n db. heap_inv (db_pool db) hf \<longrightarrow> heap_contents (db_pool db) hf rid = Some d \<longrightarrow>
        (\<exists>b. bind_db (from_result (record_deserialize (base_rt rt) (hf_schema hf) d)) (\<lambda>vs. body rid vs n) db =
               Some (db\<lparr>db_pool := b\<rparr>, Inr (n + of_bool (hit d))) \<and>
             rewritten hf N {rid} (db_pool db) b \<and> (Q \<longrightarrow> heap_tight (db_pool db) hf \<longrightarrow> heap_tight b hf)))"

lemma rewrite_records:
  assumes "\<forall>(k, d) \<in> set recs. replaces rt hf body N hit Q d" "heap_inv (db_pool db) hf" "distinct (map fst recs)"
    and "\<forall>(k, d) \<in> set recs. heap_contents (db_pool db) hf (RID pid k) = Some d"
  shows "\<exists>b. fold_action (\<lambda>(slot, data) a. bind_db (from_result (record_deserialize (base_rt rt) (hf_schema hf) data))
      (\<lambda>vs. body (RID pid slot) vs a)) recs n db =
      Some (db\<lparr>db_pool := b\<rparr>, Inr (n + int (length (filter (\<lambda>(k, d). hit d) recs)))) \<and>
    rewritten hf N (RID pid ` fst ` set recs) (db_pool db) b \<and> (Q \<longrightarrow> heap_tight (db_pool db) hf \<longrightarrow> heap_tight b hf)"
  using assms
proof (induction recs arbitrary: n db)
  case Nil
  then show ?case by (intro exI [of _ "db_pool db"]) (simp add: ret_def rewritten_none)
next
  case (Cons x recs)
  obtain k d where x: "x = (k, d)" by (cases x)
  have "replaces rt hf body N hit Q d" "heap_contents (db_pool db) hf (RID pid k) = Some d"
    using Cons.prems(1,4) x by auto
  then obtain b1 where b1: "bind_db (from_result (record_deserialize (base_rt rt) (hf_schema hf) d))
      (\<lambda>vs. body (RID pid k) vs n) db = Some (db\<lparr>db_pool := b1\<rparr>, Inr (n + of_bool (hit d)))"
    "rewritten hf N {RID pid k} (db_pool db) b1" "Q \<longrightarrow> heap_tight (db_pool db) hf \<longrightarrow> heap_tight b1 hf"
    using Cons.prems(2) unfolding replaces_def by blast
  let ?db1 = "db\<lparr>db_pool := b1\<rparr>"
  have new: "k \<notin> fst ` set recs" using Cons.prems(3) x by simp
  have "\<forall>(k, d) \<in> set recs. replaces rt hf body N hit Q d" "heap_inv (db_pool ?db1) hf" "distinct (map fst recs)"
    using Cons.prems(1,3) b1(2) by (auto simp: rewritten_def)
  moreover have "\<forall>(j, e) \<in> set recs. heap_contents (db_pool ?db1) hf (RID pid j) = Some e"
    using Cons.prems(4) b1(2) new by (force simp: rewritten_def)
  ultimately obtain b2 where b2: "fold_action (\<lambda>(slot, data) a. bind_db (from_result (record_deserialize (base_rt rt) (hf_schema hf) data))
      (\<lambda>vs. body (RID pid slot) vs a)) recs (n + of_bool (hit d)) ?db1 =
      Some (?db1\<lparr>db_pool := b2\<rparr>, Inr (n + of_bool (hit d) + int (length (filter (\<lambda>(k, d). hit d) recs))))"
    "rewritten hf N (RID pid ` fst ` set recs) (db_pool ?db1) b2"
    "Q \<longrightarrow> heap_tight (db_pool ?db1) hf \<longrightarrow> heap_tight b2 hf"
    using Cons.IH [of ?db1 "n + of_bool (hit d)"] by blast
  have "rewritten hf N ({RID pid k} \<union> RID pid ` fst ` set recs) (db_pool db) b2"
    by (rule rewritten_trans [OF b1(2)]) (use b2(2) new in auto)
  moreover have "fold_action (\<lambda>(slot, data) a. bind_db (from_result (record_deserialize (base_rt rt) (hf_schema hf) data))
      (\<lambda>vs. body (RID pid slot) vs a)) (x # recs) n db =
      Some (db\<lparr>db_pool := b2\<rparr>, Inr (n + int (length (filter (\<lambda>(k, d). hit d) (x # recs)))))"
    using b1(1) b2(1) by (simp add: x bind_db_steps(1))
  ultimately show ?case
    using b1(3) b2(3) by (intro exI [of _ b2]) (simp add: x)
qed

lemma page_contents:
  assumes "heap_inv b hf" "pid \<in> set (hf_page_ids hf)" "pool_view b pid = page_sig p" "page_ok pid p"
  shows "(k, d) \<in> set (sig_records (page_sig p)) \<longleftrightarrow> heap_contents b hf (RID pid k) = Some d"
  using assms by (simp add: heap_contents_def sig_records_set)

lemma rewrite_pages:
  assumes "heap_inv (db_pool db) hf" "distinct ids" "set ids \<subseteq> set (hf_page_ids hf)"
    and "\<forall>rid d. rid_page rid \<in> set ids \<longrightarrow> heap_contents (db_pool db) hf rid = Some d \<longrightarrow> replaces rt hf body N hit Q d"
  shows "\<exists>b. fold_action (\<lambda>pid a. bind_db (on_pool (\<lambda>b. fetch_page b pid)) (\<lambda>p.
      bind_db (unpin_clean pid) (\<lambda>_. scan_records rt (hf_schema hf) body pid p a))) ids n db =
      Some (db\<lparr>db_pool := b\<rparr>, Inr (n + int (length (filter (\<lambda>(rid, d). hit d)
        (concat (map (\<lambda>pid. map (\<lambda>(k, d). (RID pid k, d)) (sig_records (pool_view (db_pool db) pid))) ids)))))) \<and>
    rewritten hf N {rid. rid_page rid \<in> set ids} (db_pool db) b \<and> (Q \<longrightarrow> heap_tight (db_pool db) hf \<longrightarrow> heap_tight b hf)"
  using assms
proof (induction ids arbitrary: n db)
  case Nil
  then show ?case by (intro exI [of _ "db_pool db"]) (simp add: ret_def rewritten_none)
next
  case (Cons pid ids)
  have pid: "pid \<in> set (hf_page_ids hf)" "in_file (db_pool db) pid" "ready (db_pool db)"
    using Cons.prems(1,3) by (simp_all add: heap_inv_def)
  obtain b1 p where b1: "fetch_page (db_pool db) pid = (b1, Inr p)" "pool_inv b1"
    "pool_view b1 = pool_view (db_pool db)"
    "page_ok pid p" "pool_view (db_pool db) pid = page_sig p" "holds b1 pid p"
    "pins b1 = (\<lambda>_. 0)(pid := 1)" "dk_num_pages (bp_disk b1) = dk_num_pages (bp_disk (db_pool db))"
    "bp_size b1 = bp_size (db_pool db)"
    by (rule visit [OF pid(3,2)])
  have two: "2 \<le> bp_size b1" using pid(3) b1(9) by (simp add: ready_def)
  obtain b2 where b2: "unpin_page b1 pid False = (b2, True)" "ready b2" "pool_view b2 = pool_view b1"
    "bp_disk b2 = bp_disk b1"
    by (rule visit_unpin [OF b1(2,6,7) two])
  let ?db2 = "db\<lparr>db_pool := b2\<rparr>" and ?recs = "sig_records (page_sig p)"
  let ?one = "\<lambda>pid a. bind_db (on_pool (\<lambda>b. fetch_page b pid)) (\<lambda>p.
      bind_db (unpin_clean pid) (\<lambda>_. scan_records rt (hf_schema hf) body pid p a))"
  have inv2: "heap_inv b2 hf" using Cons.prems(1) b1(3,8) b2(2-4) by (simp add: heap_inv_def in_file_def)
  have same: "heap_contents b2 hf = heap_contents (db_pool db) hf" "heap_tight b2 hf = heap_tight (db_pool db) hf"
    using b1(3) b2(3) by (simp_all add: heap_contents_def heap_tight_def fun_eq_iff)
  have recs: "(k, d) \<in> set ?recs \<longleftrightarrow> heap_contents b2 hf (RID pid k) = Some d" for k d
    by (rule page_contents [OF inv2 pid(1) _ b1(4)]) (simp add: b2(3) b1(3,5))
  have "\<exists>b. fold_action (\<lambda>(slot, data) a. bind_db (from_result (record_deserialize (base_rt rt) (hf_schema hf) data))
      (\<lambda>vs. body (RID pid slot) vs a)) ?recs n ?db2 =
      Some (?db2\<lparr>db_pool := b\<rparr>, Inr (n + int (length (filter (\<lambda>(k, d). hit d) ?recs)))) \<and>
    rewritten hf N (RID pid ` fst ` set ?recs) (db_pool ?db2) b \<and> (Q \<longrightarrow> heap_tight (db_pool ?db2) hf \<longrightarrow> heap_tight b hf)"
  proof (rule rewrite_records)
    have "replaces rt hf body N hit Q d" if "(k, d) \<in> set ?recs" for k d
      by (rule Cons.prems(4) [rule_format, of "RID pid k"]) (use that recs same(1) in simp_all)
    then show "\<forall>(k, d) \<in> set ?recs. replaces rt hf body N hit Q d" by blast
    show "distinct (map fst ?recs)" by (rule sig_records_distinct [OF b1(4)])
  qed (use inv2 recs in auto)
  then obtain b3 where b3: "fold_action (\<lambda>(slot, data) a. bind_db (from_result (record_deserialize (base_rt rt) (hf_schema hf) data))
      (\<lambda>vs. body (RID pid slot) vs a)) ?recs n ?db2 =
      Some (db\<lparr>db_pool := b3\<rparr>, Inr (n + int (length (filter (\<lambda>(k, d). hit d) ?recs))))"
    "rewritten hf N (RID pid ` fst ` set ?recs) b2 b3" "Q \<longrightarrow> heap_tight b2 hf \<longrightarrow> heap_tight b3 hf"
    by auto
  have "rewritten hf N {rid. rid_page rid = pid} b2 b3"
  proof (rule rewritten_page [OF b3(2)])
    fix rid assume "rid_page rid = pid" "rid \<notin> RID pid ` fst ` set ?recs"
    then show "heap_contents b2 hf rid = None"
      using recs [of "rid_slot rid"] by (cases rid; cases "heap_contents b2 hf rid") (force simp: image_iff)+
  qed auto
  then have r3: "rewritten hf N {rid. rid_page rid = pid} (db_pool db) b3"
    using rewritten_view(2) [OF inv2, of "db_pool db"] b1(3,8) b2(3,4) by simp
  have one: "?one pid n db = Some (db\<lparr>db_pool := b3\<rparr>, Inr (n + int (length (filter (\<lambda>(k, d). hit d) ?recs))))"
    using b1(1) b2(1) b3(1)
    by (simp add: bind_db_def [of "on_pool _"] on_pool_def bind_db_def [of "unpin_clean _"] unpin_clean_def scan_records_def
        get_all_records_sig [OF b1(4)])
  let ?db3 = "db\<lparr>db_pool := b3\<rparr>"
  have p3: "heap_inv (db_pool ?db3) hf" "distinct ids" "set ids \<subseteq> set (hf_page_ids hf)" "pid \<notin> set ids"
    using r3 Cons.prems(2,3) by (simp_all add: rewritten_def)
  have rep3: "replaces rt hf body N hit Q d"
    if "rid_page rid \<in> set ids" "heap_contents (db_pool ?db3) hf rid = Some d" for rid d
  proof (rule Cons.prems(4) [rule_format])
    show "rid_page rid \<in> set (pid # ids)" using that(1) by simp
    have "rid \<notin> {rid. rid_page rid = pid}" using that(1) p3(4) by auto
    then show "heap_contents (db_pool db) hf rid = Some d" using that(2) r3 by (simp add: rewritten_def)
  qed
  obtain b4 where b4: "fold_action ?one ids (n + int (length (filter (\<lambda>(k, d). hit d) ?recs))) ?db3 =
      Some (?db3\<lparr>db_pool := b4\<rparr>, Inr (n + int (length (filter (\<lambda>(k, d). hit d) ?recs)) + int (length (filter (\<lambda>(rid, d). hit d)
        (concat (map (\<lambda>pid. map (\<lambda>(k, d). (RID pid k, d)) (sig_records (pool_view (db_pool ?db3) pid))) ids))))))"
    "rewritten hf N {rid. rid_page rid \<in> set ids} (db_pool ?db3) b4" "Q \<longrightarrow> heap_tight (db_pool ?db3) hf \<longrightarrow> heap_tight b4 hf"
    using Cons.IH [OF p3(1-3), of "n + int (length (filter (\<lambda>(k, d). hit d) ?recs))"] rep3 by blast
  have views: "map (\<lambda>pid. map (\<lambda>(k, d). (RID pid k, d)) (sig_records (pool_view b3 pid))) ids =
      map (\<lambda>pid. map (\<lambda>(k, d). (RID pid k, d)) (sig_records (pool_view (db_pool db) pid))) ids"
    using r3 p3(4) by (intro map_cong) (auto simp: rewritten_def)
  have "rewritten hf N ({rid. rid_page rid = pid} \<union> {rid. rid_page rid \<in> set ids}) (db_pool db) b4"
    by (rule rewritten_trans [OF r3]) (use b4(2) p3(4) in auto)
  moreover have "{rid. rid_page rid = pid} \<union> {rid. rid_page rid \<in> set ids} = {rid. rid_page rid \<in> set (pid # ids)}"
    by auto
  moreover have "length (filter (\<lambda>(rid, d). hit d) (map (\<lambda>(k, d). (RID pid k, d)) ?recs)) = length (filter (\<lambda>(k, d). hit d) ?recs)"
    by (simp add: filter_map comp_def case_prod_unfold)
  then have "fold_action ?one (pid # ids) n db = Some (db\<lparr>db_pool := b4\<rparr>, Inr (n + int (length (filter (\<lambda>(rid, d). hit d)
        (concat (map (\<lambda>pid. map (\<lambda>(k, d). (RID pid k, d)) (sig_records (pool_view (db_pool db) pid))) (pid # ids)))))))"
    using b4(1) views b1(5) unfolding fold_action.simps by (subst bind_db_steps(1) [where m = "?one pid n", OF one]) simp
  ultimately show ?case
    using b3(3) b4(3) same(2) by (intro exI [of _ b4]) simp
qed

section \<open>The records of a table after it\<close>

lemma file_records_rewritten:
  assumes "heap_inv b hf" "rewritten hf N {rid. rid_page rid \<in> set (hf_page_ids hf)} b b1"
  shows "mset (file_records b1 hf) = image_mset (\<lambda>(rid, d). (rid, N d)) (mset (file_records b hf))"
proof -
  let ?f = "\<lambda>(rid :: record_id, d). (rid, N d)" and ?recs = "file_records b hf"
  have inv1: "heap_inv b1 hf" using assms(2) by (simp add: rewritten_def)
  have "(rid, e) \<in> set (file_records b1 hf) \<longleftrightarrow> (\<exists>d. (rid, d) \<in> set ?recs \<and> e = N d)" for rid e
    using assms(2) unfolding file_records_set [OF inv1] file_records_set [OF assms(1)]
    by (cases "heap_contents b hf rid") (auto simp: rewritten_def heap_contents_def split: if_splits)
  then have "set (file_records b1 hf) = set (map ?f ?recs)" by (force simp: image_iff)
  moreover have "inj_on ?f (set ?recs)"
    by (rule inj_onI) (auto simp: file_records_set [OF assms(1)])
  then have "distinct (map ?f ?recs)"
    using file_records_distinct [OF assms(1)] by (simp add: distinct_map)
  ultimately have "mset (file_records b1 hf) = mset (map ?f ?recs)"
    using file_records_distinct [OF inv1] set_eq_iff_mset_eq_distinct by blast
  then show ?thesis by simp
qed

lemma scan_loop_rewrites:
  assumes "heap_inv (db_pool db) hf"
    and "\<forall>(rid, d) \<in> set (file_records (db_pool db) hf). replaces rt hf body N hit Q d"
  obtains b where "scan_loop rt hf body n db = Some (db\<lparr>db_pool := b\<rparr>,
      Inr (n + int (length (filter (\<lambda>(rid, d). hit d) (file_records (db_pool db) hf)))))"
    "heap_inv b hf" "dk_num_pages (bp_disk b) = file_pages db"
    "\<forall>q. q \<notin> set (hf_page_ids hf) \<longrightarrow> pool_view b q = pool_view (db_pool db) q"
    "mset (file_records b hf) = image_mset (\<lambda>(rid, d). (rid, N d)) (mset (file_records (db_pool db) hf))"
    "Q \<longrightarrow> heap_tight (db_pool db) hf \<longrightarrow> heap_tight b hf"
proof -
  have d: "distinct (hf_page_ids hf)" using assms(1) by (simp add: heap_inv_def)
  have "\<forall>rid d. rid_page rid \<in> set (hf_page_ids hf) \<longrightarrow> heap_contents (db_pool db) hf rid = Some d \<longrightarrow> replaces rt hf body N hit Q d"
    using assms(2) file_records_set [OF assms(1)] by blast
  from rewrite_pages [OF assms(1) d subset_refl this, of n] obtain b where
    b: "scan_loop rt hf body n db = Some (db\<lparr>db_pool := b\<rparr>,
      Inr (n + int (length (filter (\<lambda>(rid, d). hit d) (file_records (db_pool db) hf)))))"
    "rewritten hf N {rid. rid_page rid \<in> set (hf_page_ids hf)} (db_pool db) b"
    "Q \<longrightarrow> heap_tight (db_pool db) hf \<longrightarrow> heap_tight b hf"
    unfolding scan_loop_def file_records_def by blast
  have "q \<notin> set (hf_page_ids hf) \<Longrightarrow> q \<notin> rid_page ` {rid. rid_page rid \<in> set (hf_page_ids hf)}" for q by auto
  then show thesis
    using that [OF b(1)] b(2,3) file_records_rewritten [OF assms(1) b(2)] unfolding rewritten_def by blast
qed

section \<open>Updating rows\<close>

definition row_passes_now :: "sql_runtime \<Rightarrow> table_info \<Rightarrow> expr option \<Rightarrow> pyval list \<Rightarrow> bool result" where
  "row_passes_now rt t wh vs = eval_predicate rt (row_dict (column_names t) vs) wh"

definition assigned :: "sql_runtime \<Rightarrow> table_info \<Rightarrow> (string \<times> expr) list \<Rightarrow> pyval list \<Rightarrow> pyval list result" where
  "assigned rt t assigns vs = assign_values rt (column_names t) (row_dict (column_names t) vs) assigns vs"

definition updated_row :: "sql_runtime \<Rightarrow> table_info \<Rightarrow> expr option \<Rightarrow> (string \<times> expr) list \<Rightarrow> pyval list \<Rightarrow> pyval list" where
  "updated_row rt t wh assigns vs =
     (if row_passes_now rt t wh vs = Inr True then normalise_nulls (projr (assigned rt t assigns vs)) else vs)"

definition row_bytes :: "sql_runtime \<Rightarrow> table_info \<Rightarrow> pyval list \<Rightarrow> nat" where
  "row_bytes rt t vs =
     (case bindr (get_schema (base_rt rt) t) (\<lambda>s. record_serialize (base_rt rt) s vs) of
        Inr d \<Rightarrow> length d | Inl _ \<Rightarrow> 0)"

text \<open>The condition holds or does not, and a new row fits the schema and takes no more bytes.\<close>

definition updatable :: "sql_runtime \<Rightarrow> table_info \<Rightarrow> expr option \<Rightarrow> (string \<times> expr) list \<Rightarrow> pyval list \<Rightarrow> bool" where
  "updatable rt t wh assigns vs =
     (is_ok (row_passes_now rt t wh vs) \<and>
      (row_passes_now rt t wh vs = Inr True \<longrightarrow>
         (\<exists>s vs1. get_schema (base_rt rt) t = Inr s \<and> assigned rt t assigns vs = Inr vs1 \<and> fits_schema s vs1 \<and>
            row_bytes rt t vs1 \<le> row_bytes rt t vs)))"

definition same_bytes :: "sql_runtime \<Rightarrow> table_info \<Rightarrow> expr option \<Rightarrow> (string \<times> expr) list \<Rightarrow> pyval list \<Rightarrow> bool" where
  "same_bytes rt t wh assigns vs =
     (row_passes_now rt t wh vs = Inr True \<longrightarrow> row_bytes rt t (projr (assigned rt t assigns vs)) = row_bytes rt t vs)"

text \<open>The body of the loop, and what it does to a record.\<close>

definition update_body ::
  "sql_runtime \<Rightarrow> table_info \<Rightarrow> heap_file \<Rightarrow> expr option \<Rightarrow> (string \<times> expr) list \<Rightarrow>
   record_id \<Rightarrow> pyval list \<Rightarrow> int \<Rightarrow> int action"
where
  "update_body rt t hf wh assigns = (\<lambda>rid vs n.
     bind_db (row_passes rt (column_names t) wh vs) (\<lambda>b.
       if \<not> b then ret n
       else bind_db (from_result (assign_values rt (column_names t) (row_dict (column_names t) vs) assigns vs)) (\<lambda>vs'.
            bind_db (on_pool (\<lambda>b. heap_update (base_rt rt) hf b rid vs')) (\<lambda>_. ret (n + 1)))))"

definition updated_record ::
  "sql_runtime \<Rightarrow> table_info \<Rightarrow> table_schema \<Rightarrow> expr option \<Rightarrow> (string \<times> expr) list \<Rightarrow> byte list \<Rightarrow> byte list"
where
  "updated_record rt t s wh assigns d =
     (let vs = projr (record_deserialize (base_rt rt) s d) in
      if row_passes_now rt t wh vs = Inr True then projr (record_serialize (base_rt rt) s (projr (assigned rt t assigns vs)))
      else d)"

lemma update_record_step:
  assumes "get_schema (base_rt rt) t = Inr (hf_schema hf)" "ti_columns t \<noteq> []"
    and "record_deserialize (base_rt rt) (hf_schema hf) d = Inr vs" "record_serialize (base_rt rt) (hf_schema hf) vs = Inr d"
    and "updatable rt t wh assigns vs" "Q \<Longrightarrow> same_bytes rt t wh assigns vs"
  shows "replaces rt hf (update_body rt t hf wh assigns) (updated_record rt t (hf_schema hf) wh assigns)
      (\<lambda>d. row_passes_now rt t wh (projr (record_deserialize (base_rt rt) (hf_schema hf) d)) = Inr True) Q d"
    and "record_deserialize (base_rt rt) (hf_schema hf) (updated_record rt t (hf_schema hf) wh assigns d) =
      Inr (updated_row rt t wh assigns vs)"
    and "exact_record rt (hf_schema hf) (updated_record rt t (hf_schema hf) wh assigns d)"
proof -
  let ?s = "hf_schema hf" and ?p = "row_passes_now rt t wh vs" and ?N = "updated_record rt t (hf_schema hf) wh assigns"
  obtain b where p: "?p = Inr b" using assms(5) by (cases ?p) (simp_all add: updatable_def is_ok_def)
  have now: "row_passes rt (column_names t) wh vs = from_result (Inr b)"
    using p by (simp add: row_passes_def row_passes_now_def)
  show "replaces rt hf (update_body rt t hf wh assigns) ?N
      (\<lambda>d. row_passes_now rt t wh (projr (record_deserialize (base_rt rt) ?s d)) = Inr True) Q d" (is ?rep)
    "record_deserialize (base_rt rt) ?s (?N d) = Inr (updated_row rt t wh assigns vs)" (is ?dec)
    "exact_record rt ?s (?N d)" (is ?exact)
  proof (atomize (full), cases b)
    case False
    have "?N d = d" using p False assms(3) by (simp add: updated_record_def)
    moreover have "rewritten hf ?N {rid} b0 b0" if "heap_inv b0 hf" "heap_contents b0 hf rid = Some d" for b0 rid
      using that \<open>?N d = d\<close> by (simp add: rewritten_def)
    then have ?rep
      using p False now assms(3)
      by (auto simp: replaces_def update_body_def bind_db_def from_result_def ret_def)
        (metis (no_types, lifting) database.surjective database.update_convs(2))
    ultimately show "?rep \<and> ?dec \<and> ?exact"
      using p False assms(3,4) by (auto simp: updated_row_def exact_record_def)
  next
    case True
    then obtain vs1 where a: "assigned rt t assigns vs = Inr vs1" "fits_schema ?s vs1" "row_bytes rt t vs1 \<le> row_bytes rt t vs"
      using assms(1,5) p by (auto simp: updatable_def)
    obtain r where r: "record_serialize (base_rt rt) ?s vs1 = Inr r" using record_serialize_total [OF a(2)] by blast
    have ne: "r \<noteq> []" by (rule record_nonempty [OF r]) (use schema_columns [OF assms(1)] assms(2) in simp)
    have len: "length r \<le> length d" "Q \<Longrightarrow> length r = length d"
      using a(1,3) r assms(1,4,6) p True by (simp_all add: row_bytes_def same_bytes_def)
    have N: "?N d = r" using p True assms(3) a(1) r by (simp add: updated_record_def)
    have ?rep
      unfolding replaces_def
    proof (intro allI impI)
      fix rid n and db :: database
      assume h: "heap_inv (db_pool db) hf" "heap_contents (db_pool db) hf rid = Some d"
      obtain b1 where b1: "heap_update (base_rt rt) hf (db_pool db) rid vs1 = (b1, Inr True)" "heap_inv b1 hf"
        "heap_contents b1 hf = (heap_contents (db_pool db) hf)(rid \<mapsto> r)"
        "dk_num_pages (bp_disk b1) = dk_num_pages (bp_disk (db_pool db))"
        "\<forall>q. q \<noteq> rid_page rid \<longrightarrow> pool_view b1 q = pool_view (db_pool db) q"
        "length r = length d \<longrightarrow> heap_tight (db_pool db) hf \<longrightarrow> heap_tight b1 hf"
        using heap_update_correct [OF h r ne len(1)] by blast
      have "update_body rt t hf wh assigns rid vs n db = Some (db\<lparr>db_pool := b1\<rparr>, Inr (n + 1))"
        using now True a(1) b1(1)
        by (simp add: update_body_def bind_db_def from_result_def on_pool_def ret_def assigned_def)
      moreover have "rewritten hf ?N {rid} (db_pool db) b1" using b1(2-5) h(2) N by (simp add: rewritten_def)
      ultimately show "\<exists>b. bind_db (from_result (record_deserialize (base_rt rt) ?s d)) (\<lambda>vs. update_body rt t hf wh assigns rid vs n) db =
          Some (db\<lparr>db_pool := b\<rparr>, Inr (n + of_bool (row_passes_now rt t wh (projr (record_deserialize (base_rt rt) ?s d)) = Inr True))) \<and>
        rewritten hf ?N {rid} (db_pool db) b \<and> (Q \<longrightarrow> heap_tight (db_pool db) hf \<longrightarrow> heap_tight b hf)"
        using b1(6) len(2) p True assms(3) by (intro exI [of _ b1]) (simp add: bind_db_def from_result_def)
    qed
    moreover have ?dec
      using record_deserialize_serialize [OF a(2) r] p True a(1) by (simp add: N updated_row_def)
    moreover have ?exact using written_exact [OF a(2) r] by (simp add: N)
    ultimately show "?rep \<and> ?dec \<and> ?exact" by blast
  qed
qed

section \<open>The statement\<close>

lemma filter_rows_all:
  assumes "\<forall>vs \<in> set rows. is_ok (eval_predicate rt (row_dict cols vs) p)"
  shows "filter_rows rt cols p rows = Inr (filter (\<lambda>vs. eval_predicate rt (row_dict cols vs) p = Inr True) rows)"
  using assms
proof (induction rows)
  case (Cons vs rows)
  then show ?case by (cases "eval_predicate rt (row_dict cols vs) p") (auto simp: is_ok_def bindr_def)
qed simp

text \<open>The child of an \<^verbatim>\<open>UPDATE\<close> plan is executed, and its rows are not used.\<close>

lemma dml_scan_held:
  assumes "table_holds rt db name t rows" "\<forall>vs \<in> set rows. is_ok (row_passes_now rt t wh vs)"
  obtains b r where "exec_node rt txn (dml_scan name wh) db = Some (db\<lparr>db_pool := b\<rparr>, Inr r)"
    "table_holds rt (db\<lparr>db_pool := b\<rparr>) name t rows" "pool_view b = pool_view (db_pool db)"
    "dk_num_pages (bp_disk b) = file_pages db"
proof -
  let ?f = "(blank_node P_SEQ_SCAN)\<lparr>pn_table_name := Some name, pn_rows := VInt 1000, pn_cost := VInt 1000\<rparr>"
  let ?whole = "table_result (column_names t) rows"
  have "filter_rows rt cols None rows = Inr rows" for cols
    by (induction rows) (simp_all add: eval_predicate_def)
  then have all: "exec_filter rt None ?whole = Inr ?whole" by (simp add: exec_filter_def table_result_def)
  have "pn_table_name ?f = Some name" "pn_predicate ?f = None" by (simp_all add: blank_node_def)
  then obtain b where b: "exec_seq_scan rt ?f db = Some (db\<lparr>db_pool := b\<rparr>, Inr ?whole)"
    "table_holds rt (db\<lparr>db_pool := b\<rparr>) name t rows" "pool_view b = pool_view (db_pool db)"
    "dk_num_pages (bp_disk b) = file_pages db"
    using scan_held [OF assms(1), of ?f] all by auto
  have "\<exists>r. exec_filter rt (Some e) ?whole = Inr r" if "wh = Some e" for e
    using assms(2) filter_rows_all [of rows rt "column_names t" wh] that
    by (simp add: exec_filter_def table_result_def row_passes_now_def)
  then have "\<exists>r. exec_node rt txn (dml_scan name wh) db = Some (db\<lparr>db_pool := b\<rparr>, Inr r)"
    using b(1)
    by (cases wh) (auto simp: dml_scan_def with_child_def child_at_def bind_db_def from_result_def blank_node_def)
  then show thesis using that b(2-4) by blast
qed

definition updated_message :: "int \<Rightarrow> table" where
  "updated_message n = message_result n (str_of_int n @ '' row(s) updated'')"

lemma update_held:
  assumes h: "table_holds rt db name t rows" "table_exact rt db name" "ti_columns t \<noteq> []"
    and u: "\<forall>vs \<in> set rows. updatable rt t wh assigns vs"
    and f: "pn_type f = P_UPDATE" "pn_table_name f = Some name" "pn_assignments f = Some assigns"
  shows "\<exists>db1 rows1. exec_node rt txn (PlanNode f [dml_scan name wh]) db =
      Some (db1, Inr (updated_message (int (length (filter (\<lambda>vs. row_passes_now rt t wh vs = Inr True) rows))))) \<and>
    table_holds rt db1 name t rows1 \<and> mset rows1 = image_mset (updated_row rt t wh assigns) (mset rows) \<and>
    db_catalog db1 = db_catalog db \<and> only_changes name db db1 \<and> file_pages db1 = file_pages db \<and> table_exact rt db1 name \<and>
    ((\<forall>vs \<in> set rows. same_bytes rt t wh assigns vs) \<longrightarrow> table_tight db name \<longrightarrow> table_tight db1 name)"
proof -
  let ?P = "\<lambda>vs. row_passes_now rt t wh vs = Inr True" and ?Q = "\<forall>vs \<in> set rows. same_bytes rt t wh assigns vs"
  obtain b r where c: "exec_node rt txn (dml_scan name wh) db = Some (db\<lparr>db_pool := b\<rparr>, Inr r)"
    "table_holds rt (db\<lparr>db_pool := b\<rparr>) name t rows" "pool_view b = pool_view (db_pool db)"
    "dk_num_pages (bp_disk b) = file_pages db"
    by (rule dml_scan_held [OF h(1), of wh txn]) (use u in \<open>simp add: updatable_def\<close>)
  let ?db1 = "db\<lparr>db_pool := b\<rparr>"
  obtain hf where o: "get_table (db_catalog ?db1) name = Some t" "assoc_get name (db_heaps ?db1) = Some hf"
    "heap_inv (db_pool ?db1) hf" "get_schema (base_rt rt) t = Inr (hf_schema hf)"
    "decode_rows rt (hf_schema hf) (file_records (db_pool ?db1) hf) = Inr rows"
    by (rule table_holdsE [OF c(2)])
  let ?s = "hf_schema hf" and ?recs = "file_records b hf"
  let ?dec = "\<lambda>d. projr (record_deserialize (base_rt rt) ?s d)" and ?N = "updated_record rt t ?s wh assigns"
  have same: "?recs = file_records (db_pool db) hf" "heap_tight b hf = heap_tight (db_pool db) hf"
    using c(3) by (simp_all add: file_records_def heap_tight_def)
  have rows: "rows = map (\<lambda>(rid, d). ?dec d) ?recs"
    using o(5) unfolding decode_rows_def by (simp add: mapr_ok_iff comp_def case_prod_unfold)
  have rec: "replaces rt hf (update_body rt t hf wh assigns) ?N (\<lambda>d. ?P (?dec d)) ?Q d"
      "record_deserialize (base_rt rt) ?s (?N d) = Inr (updated_row rt t wh assigns (?dec d))" "exact_record rt ?s (?N d)"
    if "(rid, d) \<in> set ?recs" for rid d
  proof -
    have "exact_record rt ?s d" using h(2) o(2) that same(1) by (auto simp: table_exact_def)
    then have e: "record_deserialize (base_rt rt) ?s d = Inr (?dec d)" "record_serialize (base_rt rt) ?s (?dec d) = Inr d"
      by (auto simp: exact_record_def)
    have "?dec d \<in> set rows" unfolding rows using that by force
    then have "updatable rt t wh assigns (?dec d)" "?Q \<Longrightarrow> same_bytes rt t wh assigns (?dec d)" using u by blast+
    from update_record_step [OF o(4) h(3) e this]
    show "replaces rt hf (update_body rt t hf wh assigns) ?N (\<lambda>d. ?P (?dec d)) ?Q d"
      "record_deserialize (base_rt rt) ?s (?N d) = Inr (updated_row rt t wh assigns (?dec d))" "exact_record rt ?s (?N d)"
      by blast+
  qed
  have "\<forall>(rid, d) \<in> set (file_records (db_pool ?db1) hf). replaces rt hf (update_body rt t hf wh assigns) ?N (\<lambda>d. ?P (?dec d)) ?Q d"
    using rec(1) by auto
  then obtain b2 where b2: "scan_loop rt hf (update_body rt t hf wh assigns) 0 ?db1 = Some (?db1\<lparr>db_pool := b2\<rparr>,
      Inr (0 + int (length (filter (\<lambda>(rid, d). ?P (?dec d)) (file_records (db_pool ?db1) hf)))))"
    "heap_inv b2 hf" "dk_num_pages (bp_disk b2) = file_pages ?db1"
    "\<forall>q. q \<notin> set (hf_page_ids hf) \<longrightarrow> pool_view b2 q = pool_view (db_pool ?db1) q"
    "mset (file_records b2 hf) = image_mset (\<lambda>(rid, d). (rid, ?N d)) (mset (file_records (db_pool ?db1) hf))"
    "?Q \<longrightarrow> heap_tight (db_pool ?db1) hf \<longrightarrow> heap_tight b2 hf"
    by (rule scan_loop_rewrites [OF o(3)])
  let ?db2 = "db\<lparr>db_pool := b2\<rparr>" and ?n = "int (length (filter ?P rows))"
  have n: "int (length (filter (\<lambda>(rid, d). ?P (?dec d)) ?recs)) = ?n"
    unfolding rows by (simp add: filter_map comp_def case_prod_unfold)
  have run: "exec_node rt txn (PlanNode f [dml_scan name wh]) db = Some (?db2, Inr (updated_message ?n))"
  proof -
    have p: "child_predicate [dml_scan name wh] = wh"
      by (cases wh) (simp_all add: dml_scan_def child_predicate_def blank_node_def)
    have assigns: "list_or_empty (pn_assignments f) = assigns" using f(3) by (simp add: list_or_empty_def)
    have "exec_update rt f [dml_scan name wh] (exec_node rt txn (dml_scan name wh)) db =
      bind_db (scan_loop rt hf (update_body rt t hf wh assigns) 0) (\<lambda>n. ret (updated_message n)) ?db1"
      using table_named_found [of db name t] o(1,2,4) c(1) f(2,3) p heap_cached [OF o(2), of rt ?s]
      unfolding exec_update_def update_body_def assigns
      by (simp add: name_or_empty_def Let_def updated_message_def
          bind_db_steps(1) [where m = "table_named name"] bind_db_steps(1) [where m = "exec_node rt txn (dml_scan name wh)"]
          bind_db_steps(1) [where m = "get_or_create_heap rt name ?s"] bind_db_steps(1) [where m = "from_result (Inr ?s)"] from_result_def)
    then show ?thesis
      using f(1) b2(1) n by (simp add: child_at_def bind_db_def ret_def)
  qed
  have recs2: "set (file_records b2 hf) = (\<lambda>(rid, d). (rid, ?N d)) ` set ?recs"
    using arg_cong [where f = set_mset, OF b2(5)] by simp
  define rows1 where "rows1 = map (\<lambda>(rid, d). ?dec d) (file_records b2 hf)"
  have "decode_rows rt ?s (file_records b2 hf) = Inr rows1"
    using rec(2) recs2 unfolding decode_rows_def rows1_def
    by (auto simp: mapr_ok_iff is_ok_def comp_def case_prod_unfold)
  then have "table_holds rt ?db2 name t rows1" using o(1,2,4) b2(2) by (simp add: table_holds_def)
  moreover have "mset rows1 = image_mset (updated_row rt t wh assigns) (mset rows)"
  proof -
    have "mset rows1 = image_mset (\<lambda>(rid, d). ?dec (?N d)) (mset ?recs)"
      using b2(5) by (simp add: rows1_def image_mset.compositionality comp_def case_prod_unfold)
    also have "\<dots> = image_mset (\<lambda>(rid, d). updated_row rt t wh assigns (?dec d)) (mset ?recs)"
      by (rule image_mset_cong) (use rec(2) in auto)
    finally show ?thesis unfolding rows by (simp add: image_mset.compositionality comp_def case_prod_unfold)
  qed
  moreover have "only_changes name db ?db2"
    unfolding only_changes_def using o(2) b2(3,4) c(3,4) by (intro exI [of _ hf]) simp
  moreover have "table_exact rt ?db2 name" using o(2) rec(3) recs2 by (auto simp: table_exact_def)
  moreover have "?Q \<longrightarrow> table_tight db name \<longrightarrow> table_tight ?db2 name"
    using o(2) b2(6) same(2) by (auto simp: table_tight_def)
  ultimately show ?thesis using run b2(3) c(4) by (intro exI [of _ ?db2] exI [of _ rows1]) simp
qed

text \<open>
  C4: updating replaces exactly the rows the condition selects, each by the row with the assigned
  values, computed from the row before: the statement answers their number, and the table holds the
  new rows and the others.  The loop changes the pages it scans, and no row is visited twice or
  missed.  The hypothesis is that the condition can be evaluated on every row, and that a new row
  fits the schema and takes no more bytes than the old one.
\<close>

theorem update_changes_matching:
  assumes "table_holds rt db name t rows" "table_exact rt db name" "ti_columns t \<noteq> []"
    and "\<forall>vs \<in> set rows. updatable rt t wh assigns vs"
    and "pn_type f = P_UPDATE" "pn_table_name f = Some name" "pn_assignments f = Some assigns"
  shows "\<exists>db1 rows1 n. n = int (length (filter (\<lambda>vs. row_passes_now rt t wh vs = Inr True) rows)) \<and>
    exec_node rt txn (PlanNode f [dml_scan name wh]) db =
      Some (db1, Inr (message_result n (str_of_int n @ '' row(s) updated''))) \<and>
    table_holds rt db1 name t rows1 \<and> mset rows1 = image_mset (updated_row rt t wh assigns) (mset rows) \<and>
    db_catalog db1 = db_catalog db"
  using update_held [OF assms, of txn] unfolding updated_message_def by blast

section \<open>Examples\<close>

definition seven_more :: "(string \<times> expr) list" where
  "seven_more = [(''id'', BinaryOp OP_ADD (ColumnRef ''id'' None) (Literal (VInt 7) ''integer''))]"

lemma sample_row_bytes:
  assumes "get_schema (base_rt rt) t = Inr sample_schema" "0 \<le> i" "i < 2 ^ 64"
  shows "row_bytes rt t [VInt i, VNull] = 9"
  using assms(1) sample_record(1) [OF assms(2,3), of rt] by (auto simp: row_bytes_def)

lemma seven_updated:
  assumes "row_passes_now rt t wh [VInt 7, VNull] = Inr True" "assigned rt t seven_more [VInt 7, VNull] = Inr [VInt 14, VNull]"
    and "get_schema (base_rt rt) t = Inr sample_schema"
  shows "updatable rt t wh seven_more [VInt 7, VNull]" "updated_row rt t wh seven_more [VInt 7, VNull] = [VInt 14, VNull]"
    "same_bytes rt t wh seven_more [VInt 7, VNull]"
  using assms sample_row_bytes [OF assms(3), of 7] sample_row_bytes [OF assms(3), of 14] sample_record(2) [of 14]
  by (simp_all add: updatable_def updated_row_def same_bytes_def is_ok_def normalise_nulls_def null_like_def is_null_value_def)

lemma sample_assigned:
  "row_passes_now null_sql_runtime sample_table (Some id_is_seven) [VInt 7, VNull] = Inr True"
  "assigned null_sql_runtime sample_table seven_more [VInt 7, VNull] = Inr [VInt 14, VNull]"
  by code_simp+

theorem update_changes_matching_witness:
  "\<exists>db db1 rows1. table_holds null_sql_runtime db ''t'' sample_table [[VInt 7, VNull]] \<and>
     exec_node null_sql_runtime 1 (PlanNode ((blank_node P_UPDATE)\<lparr>pn_table_name := Some ''t'', pn_assignments := Some seven_more\<rparr>)
       [dml_scan ''t'' (Some id_is_seven)]) db =
       Some (db1, Inr (message_result 1 (str_of_int 1 @ '' row(s) updated''))) \<and>
     table_holds null_sql_runtime db1 ''t'' sample_table rows1 \<and> rows1 = [[VInt 14, VNull]]"
proof -
  obtain db where db: "table_holds null_sql_runtime db ''t'' sample_table [[VInt 7, VNull]]"
    "db_catalog db = db_catalog sample_db" "map_option first_page_id (assoc_get ''t'' (db_heaps db)) = Some 0"
    "table_exact null_sql_runtime db ''t''"
    by (rule sample_filled)
  let ?f = "(blank_node P_UPDATE)\<lparr>pn_table_name := Some ''t'', pn_assignments := Some seven_more\<rparr>"
  have f: "pn_type ?f = P_UPDATE" "pn_table_name ?f = Some ''t''" "pn_assignments ?f = Some seven_more"
    by (simp_all add: blank_node_def)
  have columns: "ti_columns sample_table \<noteq> []" by (simp add: sample_table_def)
  note u = seven_updated [OF sample_assigned sample_get_schema]
  from update_changes_matching [OF db(1,4) columns _ f, of "Some id_is_seven" 1] u db(1) sample_assigned(1)
  show ?thesis by auto
qed

end
