(* ===== verification/Store.thy ===== *)
theory Store
  imports Database Table_Update
begin

text \<open>
  What a database promises: a store of named tables, each a multiset of rows, on which the
  statements of \<^verbatim>\<open>src/pysql/engine.py\<close> act.  A step of the store is
  \<^const>\<open>None\<close> where it promises nothing: tables with a primary key, statements that
  raise for some row of a table, updates that make a row longer, insertions into a table where rows
  were deleted or made shorter, and the statements and clauses left out.  \<open>refines_store\<close> relates databases to stores.
\<close>

section \<open>The store\<close>

record table_state =
  tb_columns :: "column_info list"
  tb_rows :: "pyval list multiset"
  tb_appendable :: bool

type_synonym store = "string \<Rightarrow> table_state option"

datatype answer = Message int string | Rows "string list" "pyval list multiset" | Fails pyerr

definition new_table :: "string \<Rightarrow> column_info list \<Rightarrow> table_info" where
  "new_table name cols = \<lparr>ti_name = name, ti_columns = cols, ti_primary_key = None,
     ti_first_page_id = - 1, ti_indexes = [], ti_auto_counter = 0, ti_row_count = 0\<rparr>"

definition empty_table :: "column_info list \<Rightarrow> table_state" where
  "empty_table cols = \<lparr>tb_columns = cols, tb_rows = {#}, tb_appendable = True\<rparr>"

definition store_create ::
  "sql_runtime \<Rightarrow> store \<Rightarrow> string \<Rightarrow> column_def list \<Rightarrow> bool \<Rightarrow> (store \<times> answer) option"
where
  "store_create rt S name cols if_not_exists =
     (if S name \<noteq> None then
        Some (S, if if_not_exists then Message 0 (''Table '' @ quoted name @ '' already exists (skipped)'')
                 else Fails RuntimeError)
      else if primary_key_of cols \<noteq> None then None
      else case get_schema (base_rt rt) (new_table name (map column_metadata cols)) of
        Inl e \<Rightarrow> Some (S, Fails e)
      | Inr s \<Rightarrow> Some (S(name \<mapsto> empty_table (map column_metadata cols)),
                      Message 0 (''Table '' @ quoted name @ '' created successfully'')))"

definition store_drop :: "store \<Rightarrow> string \<Rightarrow> bool \<Rightarrow> store \<times> answer" where
  "store_drop S name if_exists =
     (if S name = None then
        (S, if if_exists then Message 0 (''Table '' @ quoted name @ '' does not exist (skipped)'')
            else Fails RuntimeError)
      else (S(name := None), Message 0 (''Table '' @ quoted name @ '' dropped successfully'')))"

text \<open>The rows before the first one that cannot be evaluated, and its exception.\<close>

fun evaluated_rows :: "sql_runtime \<Rightarrow> expr list list \<Rightarrow> pyval list list \<times> pyerr option" where
  "evaluated_rows rt [] = ([], None)"
| "evaluated_rows rt (es # rows) =
     (case mapr (eval_expr rt []) es of
        Inl e \<Rightarrow> ([], Some e)
      | Inr vs \<Rightarrow> (case evaluated_rows rt rows of (vss, x) \<Rightarrow> (vs # vss, x)))"

definition store_insert :: "sql_runtime \<Rightarrow> store \<Rightarrow> string \<Rightarrow> expr list list \<Rightarrow> (store \<times> answer) option" where
  "store_insert rt S name rows =
     (case S name of
        None \<Rightarrow> Some (S, Fails RuntimeError)
      | Some ts \<Rightarrow>
          (let (vss, x) = evaluated_rows rt rows; n = int (length rows) in
           if tb_appendable ts \<and> list_all (insertable rt (new_table name (tb_columns ts))) vss then
             Some (S(name \<mapsto> ts\<lparr>tb_rows := tb_rows ts + mset (map normalise_nulls vss)\<rparr>),
                   case x of Some e \<Rightarrow> Fails e | None \<Rightarrow> Message n (str_of_int n @ '' row(s) inserted''))
           else None))"

definition passes :: "sql_runtime \<Rightarrow> table_state \<Rightarrow> expr option \<Rightarrow> pyval list \<Rightarrow> bool result" where
  "passes rt ts wh vs = eval_predicate rt (row_dict (map ci_name (tb_columns ts)) vs) wh"

definition store_delete :: "sql_runtime \<Rightarrow> store \<Rightarrow> string \<Rightarrow> expr option \<Rightarrow> (store \<times> answer) option" where
  "store_delete rt S name wh =
     (case S name of
        None \<Rightarrow> Some (S, Fails RuntimeError)
      | Some ts \<Rightarrow>
          (let hits = filter_mset (\<lambda>vs. passes rt ts wh vs = Inr True) (tb_rows ts); n = int (size hits) in
           if \<forall>vs \<in># tb_rows ts. is_ok (passes rt ts wh vs) then
             Some (S(name \<mapsto> ts\<lparr>tb_rows := tb_rows ts - hits, tb_appendable := False\<rparr>),
                   Message n (str_of_int n @ '' row(s) deleted''))
           else None))"

definition store_update ::
  "sql_runtime \<Rightarrow> store \<Rightarrow> string \<Rightarrow> (string \<times> expr) list \<Rightarrow> expr option \<Rightarrow> (store \<times> answer) option"
where
  "store_update rt S name assigns wh =
     (case S name of
        None \<Rightarrow> Some (S, Fails RuntimeError)
      | Some ts \<Rightarrow>
          (let t = new_table name (tb_columns ts); n = int (size (filter_mset (\<lambda>vs. passes rt ts wh vs = Inr True) (tb_rows ts))) in
           if tb_columns ts \<noteq> [] \<and> (\<forall>vs \<in># tb_rows ts. updatable rt t wh assigns vs) then
             Some (S(name \<mapsto> ts\<lparr>tb_rows := image_mset (updated_row rt t wh assigns) (tb_rows ts),
                       tb_appendable := tb_appendable ts \<and> (\<forall>vs \<in># tb_rows ts. same_bytes rt t wh assigns vs)\<rparr>),
                   Message n (str_of_int n @ '' row(s) updated''))
           else None))"

definition store_select ::
  "sql_runtime \<Rightarrow> store \<Rightarrow> select_item list \<Rightarrow> string \<Rightarrow> expr option \<Rightarrow> (store \<times> answer) option"
where
  "store_select rt S items name wh =
     (case S name of
        None \<Rightarrow> Some (S, Fails RuntimeError)
      | Some ts \<Rightarrow>
          (let cols = map ci_name (tb_columns ts);
               hits = filter_mset (\<lambda>vs. passes rt ts wh vs = Inr True) (tb_rows ts) in
           if (\<forall>vs \<in># tb_rows ts. is_ok (passes rt ts wh vs)) \<and> (\<forall>vs \<in># hits. is_ok (project_row rt cols items vs))
           then Some (S, Rows (concat (map (item_columns rt cols) items))
                           (image_mset (\<lambda>vs. projr (project_row rt cols items vs)) hits))
           else None))"

text \<open>Queries of one table, without grouping, ordering, a limit or \<^verbatim>\<open>DISTINCT\<close>.\<close>

fun store_query :: "sql_runtime \<Rightarrow> store \<Rightarrow> select \<Rightarrow> (store \<times> answer) option" where
  "store_query rt S (SelectStatement items from_clause wh group_by having order_by lim off dis) =
     (case from_clause of
        Some (SimpleTableRef name al) \<Rightarrow>
          if items \<noteq> [] \<and> \<not> has_aggregates items \<and> group_by = None \<and> having = None \<and> order_by = None \<and>
             lim = None \<and> \<not> dis
          then store_select rt S items name wh else None
      | _ \<Rightarrow> None)"

fun store_step :: "sql_runtime \<Rightarrow> store \<Rightarrow> statement \<Rightarrow> (store \<times> answer) option" where
  "store_step rt S (Select q) = store_query rt S q"
| "store_step rt S (InsertStatement name cols rows) =
     (if cols = None then store_insert rt S name rows else None)"
| "store_step rt S (UpdateStatement name assigns wh) = store_update rt S name assigns wh"
| "store_step rt S (DeleteStatement name wh) = store_delete rt S name wh"
| "store_step rt S (CreateTableStatement name cols if_not_exists cons) = store_create rt S name cols if_not_exists"
| "store_step rt S (DropTableStatement name if_exists casc) = Some (store_drop S name if_exists)"
| "store_step rt S _ = None"

text \<open>An answer of the store, and what the database gives.\<close>

fun answers :: "answer \<Rightarrow> table sql_result \<Rightarrow> bool" where
  "answers (Message n m) r = (r = Inr (message_result n m))"
| "answers (Rows cols rows) r = (\<exists>list. r = Inr (table_result cols list) \<and> mset list = rows)"
| "answers (Fails e) r = (r = Inl (PyError e))"

text \<open>
  The pages a statement may take, at most one for each new row or table.  Page numbers and row
  counts stay below \<^const>\<open>INVALID_PAGE_ID\<close> as long as the sum of these costs does.
\<close>

fun statement_cost :: "statement \<Rightarrow> int" where
  "statement_cost (InsertStatement name cols rows) = int (length rows)"
| "statement_cost (CreateTableStatement name cols if_not_exists cons) = 1"
| "statement_cost _ = 0"

text \<open>
  What planning relies on: the row counts that occur have a float, and the sum of one float is a
  float.
\<close>

definition counts_rows :: "sql_runtime \<Rightarrow> bool" where
  "counts_rows rt =
     ((\<forall>n. 0 \<le> n \<and> n \<le> INVALID_PAGE_ID \<longrightarrow> is_ok (rt_float_of_int rt n)) \<and>
      (\<forall>x. \<exists>y. ra_sum rt [VFloat x] = Inr (VFloat y)))"

section \<open>The relation\<close>

definition table_refines :: "sql_runtime \<Rightarrow> pool \<Rightarrow> string \<Rightarrow> heap_file \<Rightarrow> table_info \<Rightarrow> table_state \<Rightarrow> bool" where
  "table_refines rt b name hf t ts =
     (ti_name t = name \<and> ti_columns t = tb_columns ts \<and> ti_primary_key t = None \<and>
      ti_first_page_id t = first_page_id hf \<and> heap_inv b hf \<and> get_schema (base_rt rt) t = Inr (hf_schema hf) \<and>
      (\<exists>rows. decode_rows rt (hf_schema hf) (file_records b hf) = Inr rows \<and> mset rows = tb_rows ts) \<and>
      (tb_appendable ts \<longrightarrow> heap_tight b hf) \<and>
      (\<forall>(rid, d) \<in> set (file_records b hf). exact_record rt (hf_schema hf) d))"

text \<open>The catalog file is current, and there are no indexes.\<close>

definition catalog_current :: "catalog \<Rightarrow> bool" where
  "catalog_current c = (catalog_inv c \<and> ct_indexes c = [] \<and> catalog_open (ct_file c) = c)"

text \<open>
  Every table of the catalog has a file with its rows, and no two tables share a page.  A file may
  not be open yet; \<open>F\<close> gives the open ones and those that opening would give.
\<close>

definition refines_with ::
  "sql_runtime \<Rightarrow> int \<Rightarrow> (string \<Rightarrow> heap_file) \<Rightarrow> database \<Rightarrow> store \<Rightarrow> bool"
where
  "refines_with rt K F db S =
     (ready (db_pool db) \<and> file_pages db \<le> K \<and> K \<le> INVALID_PAGE_ID \<and> catalog_current (db_catalog db) \<and>
      (\<forall>name. get_table (db_catalog db) name = None \<longleftrightarrow> S name = None) \<and>
      (\<forall>name t ts. get_table (db_catalog db) name = Some t \<longrightarrow> S name = Some ts \<longrightarrow>
         table_refines rt (db_pool db) name (F name) t ts \<and>
         assoc_get name (db_heaps db) \<in> {None, Some (F name)} \<and> 0 \<le> ti_row_count t \<and> ti_row_count t \<le> K) \<and>
      (\<forall>m n. S m \<noteq> None \<and> S n \<noteq> None \<and> m \<noteq> n \<longrightarrow> disjnt (set (hf_page_ids (F m))) (set (hf_page_ids (F n)))))"

definition refines_store :: "sql_runtime \<Rightarrow> int \<Rightarrow> database \<Rightarrow> store \<Rightarrow> bool" where
  "refines_store rt K db S = (\<exists>F. refines_with rt K F db S)"


section \<open>Changes elsewhere\<close>

lemma heap_frame:
  assumes "heap_inv b hf" "ready b1" "dk_num_pages (bp_disk b) \<le> dk_num_pages (bp_disk b1)"
    and "dk_num_pages (bp_disk b1) \<le> INVALID_PAGE_ID" "\<forall>q \<in> set (hf_page_ids hf). pool_view b1 q = pool_view b q"
  shows "heap_inv b1 hf" "file_records b1 hf = file_records b hf" "heap_tight b1 hf = heap_tight b hf"
proof -
  have "chained (\<lambda>q. view_next (pool_view b1 q)) (hf_page_ids hf) = chained (\<lambda>q. view_next (pool_view b q)) (hf_page_ids hf)"
    using assms(5) by (intro chained_cong) simp
  moreover have "in_file b1 q" if "q \<in> set (hf_page_ids hf)" for q
    using assms(1,3) that by (auto simp: heap_inv_def in_file_def)
  ultimately show "heap_inv b1 hf" using assms(1,2,4) by (simp add: heap_inv_def)
  show "file_records b1 hf = file_records b hf"
    unfolding file_records_def using assms(5) by (intro arg_cong [where f = concat] map_cong) simp_all
  show "heap_tight b1 hf = heap_tight b hf" using assms(5) by (simp add: heap_tight_def)
qed

lemma table_refines_frame:
  assumes "table_refines rt b name hf t ts" "ready b1" "dk_num_pages (bp_disk b) \<le> dk_num_pages (bp_disk b1)"
    and "dk_num_pages (bp_disk b1) \<le> INVALID_PAGE_ID" "\<forall>q \<in> set (hf_page_ids hf). pool_view b1 q = pool_view b q"
  shows "table_refines rt b1 name hf t ts"
proof -
  have "heap_inv b hf" using assms(1) by (simp add: table_refines_def)
  then show ?thesis using assms(1) heap_frame [OF _ assms(2-5)] by (simp add: table_refines_def)
qed

lemma refines_with_irrelevant [simp]:
  "refines_with rt K F (db\<lparr>db_mvcc := m\<rparr>) S = refines_with rt K F db S"
  "refines_with rt K F (db\<lparr>db_wal := w\<rparr>) S = refines_with rt K F db S"
  "refines_store rt K (db\<lparr>db_mvcc := m\<rparr>) S = refines_store rt K db S"
  "refines_store rt K (db\<lparr>db_wal := w\<rparr>) S = refines_store rt K db S"
  by (simp_all add: refines_with_def refines_store_def)

lemma refines_withI:
  assumes "ready (db_pool db)" "file_pages db \<le> K" "K \<le> INVALID_PAGE_ID" "catalog_current (db_catalog db)"
    and "\<And>name. get_table (db_catalog db) name = None \<longleftrightarrow> S name = None"
    and "\<And>name t ts. get_table (db_catalog db) name = Some t \<Longrightarrow> S name = Some ts \<Longrightarrow>
      table_refines rt (db_pool db) name (F name) t ts \<and>
      assoc_get name (db_heaps db) \<in> {None, Some (F name)} \<and> 0 \<le> ti_row_count t \<and> ti_row_count t \<le> K"
    and "\<And>m n. S m \<noteq> None \<Longrightarrow> S n \<noteq> None \<Longrightarrow> m \<noteq> n \<Longrightarrow> disjnt (set (hf_page_ids (F m))) (set (hf_page_ids (F n)))"
  shows "refines_with rt K F db S"
  using assms unfolding refines_with_def by simp

lemma refines_at:
  assumes "refines_with rt K F db S" "get_table (db_catalog db) name = Some t" "S name = Some ts"
  shows "table_refines rt (db_pool db) name (F name) t ts" "assoc_get name (db_heaps db) \<in> {None, Some (F name)}"
    "0 \<le> ti_row_count t" "ti_row_count t \<le> K"
  using assms unfolding refines_with_def by blast+

lemma refines_apart:
  assumes "refines_with rt K F db S" "S m \<noteq> None" "S n \<noteq> None" "m \<noteq> n"
  shows "disjnt (set (hf_page_ids (F m))) (set (hf_page_ids (F n)))"
  using assms unfolding refines_with_def by blast

lemma pool_pages: "ready b \<Longrightarrow> 0 \<le> dk_num_pages (bp_disk b)"
  by (simp add: ready_def pool_inv_def disk_ok_def disk_wf_def)

lemma refines_withD:
  assumes "refines_with rt K F db S"
  shows "ready (db_pool db)" "file_pages db \<le> K" "K \<le> INVALID_PAGE_ID" "catalog_current (db_catalog db)"
    "get_indexes_for_table (db_catalog db) name = []"
    "get_table (db_catalog db) name = None \<longleftrightarrow> S name = None"
  using assms by (simp_all add: refines_with_def catalog_current_def get_indexes_for_table_def)

lemma refines_table:
  assumes "refines_with rt K F db S" "S name = Some ts"
  obtains t where "get_table (db_catalog db) name = Some t" "table_refines rt (db_pool db) name (F name) t ts"
    "assoc_get name (db_heaps db) \<in> {None, Some (F name)}" "0 \<le> ti_row_count t" "ti_row_count t \<le> K"
proof -
  obtain t where "get_table (db_catalog db) name = Some t"
    using refines_withD(6) [OF assms(1), of name] assms(2) by auto
  then show thesis using refines_at [OF assms(1)] assms(2) that by blast
qed

lemma refines_with_mono:
  assumes "refines_with rt K F db S" "K \<le> K1" "K1 \<le> INVALID_PAGE_ID"
  shows "refines_with rt K1 F db S"
proof (rule refines_withI)
  fix m t ts assume "get_table (db_catalog db) m = Some t" "S m = Some ts"
  from refines_at [OF assms(1) this] assms(2)
  show "table_refines rt (db_pool db) m (F m) t ts \<and>
    assoc_get m (db_heaps db) \<in> {None, Some (F m)} \<and> 0 \<le> ti_row_count t \<and> ti_row_count t \<le> K1"
    by simp
qed (use refines_withD(1,2,4,6) [OF assms(1)] refines_apart [OF assms(1)] assms(2,3) in simp_all)

lemma refines_pool:
  assumes "refines_with rt K F db S" "ready b" "pool_view b = pool_view (db_pool db)" "dk_num_pages (bp_disk b) = file_pages db"
  shows "refines_with rt K F (db\<lparr>db_pool := b\<rparr>) S"
proof (rule refines_withI)
  fix m t ts assume "get_table (db_catalog (db\<lparr>db_pool := b\<rparr>)) m = Some t" and ts: "S m = Some ts"
  then have t: "get_table (db_catalog db) m = Some t" by simp
  note at = refines_at [OF assms(1) t ts]
  have "table_refines rt b m (F m) t ts"
    by (rule table_refines_frame [OF at(1)]) (use assms(2-4) refines_withD(2,3) [OF assms(1)] in simp_all)
  then show "table_refines rt (db_pool (db\<lparr>db_pool := b\<rparr>)) m (F m) t ts \<and>
    assoc_get m (db_heaps (db\<lparr>db_pool := b\<rparr>)) \<in> {None, Some (F m)} \<and> 0 \<le> ti_row_count t \<and> ti_row_count t \<le> K"
    using at(2-4) by simp
qed (use refines_withD(2-4,6) [OF assms(1)] refines_apart [OF assms(1)] assms(2,4) in simp_all)

lemma refines_cached:
  assumes "refines_with rt K F db S"
  shows "refines_with rt K F (db\<lparr>db_heaps := assoc_put name (F name) (db_heaps db)\<rparr>) S"
proof (rule refines_withI)
  fix m t ts assume "get_table (db_catalog (db\<lparr>db_heaps := assoc_put name (F name) (db_heaps db)\<rparr>)) m = Some t"
    and ts: "S m = Some ts"
  then have t: "get_table (db_catalog db) m = Some t" by simp
  show "table_refines rt (db_pool (db\<lparr>db_heaps := assoc_put name (F name) (db_heaps db)\<rparr>)) m (F m) t ts \<and>
    assoc_get m (db_heaps (db\<lparr>db_heaps := assoc_put name (F name) (db_heaps db)\<rparr>)) \<in> {None, Some (F m)} \<and>
    0 \<le> ti_row_count t \<and> ti_row_count t \<le> K"
    using refines_at [OF assms t ts] by (simp add: assoc_get_put)
qed (use refines_withD(1-4,6) [OF assms] refines_apart [OF assms] in simp_all)

section \<open>Opening a table\<close>

lemma refines_opened:
  assumes "refines_with rt K F db S" "S name = Some ts"
  obtains t db1 where "get_table (db_catalog db) name = Some t" "get_schema (base_rt rt) t = Inr (hf_schema (F name))"
    "get_or_create_heap rt name (hf_schema (F name)) db = Some (db1, Inr (F name))" "db_catalog db1 = db_catalog db"
    "assoc_get name (db_heaps db1) = Some (F name)" "refines_with rt K F db1 S"
proof (rule refines_table [OF assms])
  fix t assume t: "get_table (db_catalog db) name = Some t" "table_refines rt (db_pool db) name (F name) t ts"
    "assoc_get name (db_heaps db) \<in> {None, Some (F name)}"
  then have h: "heap_inv (db_pool db) (F name)" "get_schema (base_rt rt) t = Inr (hf_schema (F name))"
    "ti_first_page_id t = first_page_id (F name)" by (simp_all add: table_refines_def)
  show thesis
  proof (cases "assoc_get name (db_heaps db)")
    case None
    obtain b1 where b1: "get_or_create_heap rt name (hf_schema (F name)) db =
        Some (db\<lparr>db_pool := b1, db_heaps := assoc_put name (F name) (db_heaps db)\<rparr>, Inr (F name))"
      "heap_inv b1 (F name)" "pool_view b1 = pool_view (db_pool db)"
      "dk_num_pages (bp_disk b1) = dk_num_pages (bp_disk (db_pool db))"
      by (rule reopen_heap [OF t(1) h(2) None h(3) refines_withD(1) [OF assms(1)] refl h(1) refl])
    have "ready b1" using b1(2) by (simp add: heap_inv_def)
    then have "refines_with rt K F (db\<lparr>db_pool := b1, db_heaps := assoc_put name (F name) (db_heaps db)\<rparr>) S"
      using refines_cached [OF refines_pool [OF assms(1) _ b1(3,4)], of name] by simp
    then show thesis using that t(1) h(2) b1(1) by (simp add: assoc_get_put)
  next
    case (Some hf)
    then have "assoc_get name (db_heaps db) = Some (F name)" using t(3) by simp
    then show thesis using that t(1) h(2) heap_cached assms(1) by blast
  qed
qed

lemma refines_holds:
  assumes "refines_with rt K F db S" "S name = Some ts" "assoc_get name (db_heaps db) = Some (F name)"
  obtains t rows where "table_holds rt db name t rows" "mset rows = tb_rows ts" "ti_columns t = tb_columns ts"
    "ti_name t = name" "ti_primary_key t = None" "tb_appendable ts \<longrightarrow> table_tight db name"
    "0 \<le> ti_row_count t" "ti_row_count t \<le> K" "table_exact rt db name"
proof (rule refines_table [OF assms(1,2)])
  fix t assume t: "get_table (db_catalog db) name = Some t" "table_refines rt (db_pool db) name (F name) t ts"
    and n: "0 \<le> ti_row_count t" "ti_row_count t \<le> K"
  obtain rows where "decode_rows rt (hf_schema (F name)) (file_records (db_pool db) (F name)) = Inr rows" "mset rows = tb_rows ts"
    using t(2) by (auto simp: table_refines_def)
  then show thesis using that t n assms(3) by (simp add: table_holds_def table_refines_def table_tight_def table_exact_def)
qed

section \<open>Changing one table\<close>

lemma current_stats:
  assumes "catalog_current c" "get_table c name = Some t"
  shows "catalog_current (update_table_stats c name n)"
    "get_table (update_table_stats c name n) = (get_table c)(name \<mapsto> t\<lparr>ti_row_count := n\<rparr>)"
proof -
  let ?c = "c\<lparr>ct_tables := with_table name (ti_row_count_update (\<lambda>_. n)) (ct_tables c)\<rparr>"
  have u: "update_table_stats c name n = catalog_save ?c"
    using assms(2) by (simp add: update_table_stats_def table_exists_def get_table_def)
  have "catalog_inv ?c" using assms(1) by (intro inv_map_tables) (simp_all add: catalog_current_def)
  then show "catalog_current (update_table_stats c name n)"
    using open_save assms(1) by (simp add: u catalog_current_def) (simp add: catalog_save_def)
  show "get_table (update_table_stats c name n) = (get_table c)(name \<mapsto> t\<lparr>ti_row_count := n\<rparr>)"
    using assms(2) by (auto simp: u get_table_def catalog_save_def with_table_def assoc_get_put fun_eq_iff)
qed

lemma refines_pages:
  assumes "refines_with rt K F db S" "S m \<noteq> None" "q \<in> set (hf_page_ids (F m))"
  shows "q < file_pages db"
  using refines_table [OF assms(1), of m] assms(2,3) by (auto simp: table_refines_def heap_inv_def in_file_def)

text \<open>A table is added or replaced; the other tables keep their pages.\<close>

lemma refines_put:
  assumes r: "refines_with rt K F db S"
    and mine: "table_refines rt (db_pool db1) name hf t ts" "assoc_get name (db_heaps db1) = Some hf"
      "0 \<le> ti_row_count t" "ti_row_count t \<le> K1"
    and cat: "get_table (db_catalog db1) = (get_table (db_catalog db))(name \<mapsto> t)" "catalog_current (db_catalog db1)"
    and heaps: "\<forall>m. m \<noteq> name \<longrightarrow> assoc_get m (db_heaps db1) = assoc_get m (db_heaps db)"
    and bounds: "file_pages db \<le> file_pages db1" "file_pages db1 \<le> K1" "K \<le> K1" "K1 \<le> INVALID_PAGE_ID"
    and view: "\<forall>q. q \<notin> set (hf_page_ids hf) \<longrightarrow> pool_view (db_pool db1) q = pool_view (db_pool db) q"
    and apart: "\<And>m. m \<noteq> name \<Longrightarrow> S m \<noteq> None \<Longrightarrow> disjnt (set (hf_page_ids hf)) (set (hf_page_ids (F m)))"
  shows "refines_with rt K1 (F(name := hf)) db1 (S(name \<mapsto> ts))"
proof (rule refines_withI)
  show rdy: "ready (db_pool db1)" using mine(1) by (simp add: table_refines_def heap_inv_def)
  show "get_table (db_catalog db1) m = None \<longleftrightarrow> (S(name \<mapsto> ts)) m = None" for m
    using refines_withD(6) [OF r, of m] by (simp add: cat(1))
  fix m u us
  assume u: "get_table (db_catalog db1) m = Some u" "(S(name \<mapsto> ts)) m = Some us"
  show "table_refines rt (db_pool db1) m ((F(name := hf)) m) u us \<and>
    assoc_get m (db_heaps db1) \<in> {None, Some ((F(name := hf)) m)} \<and> 0 \<le> ti_row_count u \<and> ti_row_count u \<le> K1"
  proof (cases "m = name")
    case True
    then show ?thesis using mine u by (simp add: cat(1))
  next
    case False
    then have u': "get_table (db_catalog db) m = Some u" "S m = Some us" using u by (simp_all add: cat(1))
    note at = refines_at [OF r u']
    have "table_refines rt (db_pool db1) m (F m) u us"
      using table_refines_frame [OF at(1) rdy] bounds view apart [OF False] u'(2) by (auto simp: disjnt_iff)
    then show ?thesis using False at(2-4) heaps bounds(3) by simp
  qed
next
  fix m k assume "(S(name \<mapsto> ts)) m \<noteq> None" "(S(name \<mapsto> ts)) k \<noteq> None" "m \<noteq> k"
  then show "disjnt (set (hf_page_ids ((F(name := hf)) m))) (set (hf_page_ids ((F(name := hf)) k)))"
    using apart [of m] apart [of k] refines_apart [OF r, of m k]
    by (cases "m = name"; cases "k = name") (simp_all add: disjnt_sym)
qed (use bounds cat(2) in simp_all)

lemma refines_change:
  assumes r: "refines_with rt K F db S" "S name = Some ts" "assoc_get name (db_heaps db) = Some (F name)"
    and ch: "only_changes name db db1" "table_holds rt db1 name (t\<lparr>ti_row_count := n\<rparr>) rows"
    and cat: "get_table (db_catalog db) name = Some t" "catalog_current (db_catalog db1)"
      "get_table (db_catalog db1) = (get_table (db_catalog db))(name \<mapsto> t\<lparr>ti_row_count := n\<rparr>)"
    and bounds: "0 \<le> n" "n \<le> K1" "K \<le> K1" "K1 \<le> INVALID_PAGE_ID" "file_pages db1 \<le> K1"
    and app: "app \<longrightarrow> table_tight db1 name" "table_exact rt db1 name"
  shows "refines_store rt K1 db1 (S(name \<mapsto> ts\<lparr>tb_rows := mset rows, tb_appendable := app\<rparr>))"
proof -
  obtain hf1 where f: "assoc_get name (db_heaps db1) = Some hf1" "first_page_id hf1 = first_page_id (F name)"
    "\<forall>m. m \<noteq> name \<longrightarrow> assoc_get m (db_heaps db1) = assoc_get m (db_heaps db)"
    "set (hf_page_ids hf1) \<subseteq> set (hf_page_ids (F name)) \<union> {file_pages db..<file_pages db1}"
    "file_pages db \<le> file_pages db1"
    "\<forall>q. q \<notin> set (hf_page_ids hf1) \<longrightarrow> pool_view (db_pool db1) q = pool_view (db_pool db) q"
    using ch(1) r(3) unfolding only_changes_def by auto
  let ?t = "t\<lparr>ti_row_count := n\<rparr>" and ?ts = "ts\<lparr>tb_rows := mset rows, tb_appendable := app\<rparr>"
  have "table_refines rt (db_pool db) name (F name) t ts" by (rule refines_at(1) [OF r(1) cat(1) r(2)])
  then have mine: "table_refines rt (db_pool db1) name hf1 ?t ?ts"
    using ch(2) f(1,2) app by (auto simp: table_holds_def table_refines_def table_tight_def table_exact_def)
  have apart: "disjnt (set (hf_page_ids hf1)) (set (hf_page_ids (F m)))" if "m \<noteq> name" "S m \<noteq> None" for m
    using refines_apart [OF r(1) that(2), of name] refines_pages [OF r(1) that(2)] r(2) that(1) f(4)
    by (fastforce simp: disjnt_iff)
  have "refines_with rt K1 (F(name := hf1)) db1 (S(name \<mapsto> ?ts))"
    by (rule refines_put [OF r(1) mine f(1) _ _ cat(3,2) f(3,5) bounds(5,3,4) f(6) apart]) (use bounds in simp_all)
  then show ?thesis unfolding refines_store_def by blast
qed

end
