(* ===== verification/Store_Refinement.thy ===== *)
theory Store_Refinement
  imports Store
begin

text \<open>
  A database implements a store: each statement the store answers, the database answers alike, and
  the relation of \<^verbatim>\<open>Store\<close> holds between the states after it.  From this
  follow the promises for whole texts and for restarts, whatever the buffer pool evicts and wherever
  the rows are put.
\<close>

section \<open>Creating and dropping\<close>

lemma run_actions:
  "bind_db (ret x) k db = k x db"
  "bind_db (modify_db g) k' db = k' () (g db)"
  "bind_db (from_result (Inr y)) k'' db = k'' y db"
  "bind_db (put_heap name hf) k' db = k' () (db\<lparr>db_heaps := assoc_put name hf (db_heaps db)\<rparr>)"
  by (simp_all add: bind_db_def ret_def modify_db_def from_result_def put_heap_def)

lemma run_on:
  "h (db_pool db) = (b, Inr x) \<Longrightarrow> bind_db (on_pool h) k db = k x (db\<lparr>db_pool := b\<rparr>)"
  "g (db_catalog db) = (c, Inr y) \<Longrightarrow> bind_db (on_catalog g) k' db = k' y (db\<lparr>db_catalog := c\<rparr>)"
  by (simp_all add: bind_db_def on_pool_def on_catalog_def)

lemma assoc_get_del_other: "k \<noteq> k' \<Longrightarrow> assoc_get k (assoc_del k' xs) = assoc_get k xs"
  by (induction k' xs rule: assoc_del.induct) auto

lemma current_create:
  assumes "catalog_current c" "get_table c (ti_name t) = None" "ti_indexes t = []"
  obtains c1 where "create_table c t = (c1, Inr ())" "catalog_current c1" "get_table c1 = (get_table c)(ti_name t \<mapsto> t)"
proof -
  let ?c = "c\<lparr>ct_tables := assoc_put (ti_name t) t (ct_tables c)\<rparr>"
  have fresh: "\<not> table_exists c (ti_name t)" using assms(2) by (simp add: table_exists_def get_table_def)
  then have "catalog_inv ?c" using assms(1,3) by (intro inv_create_table) (simp_all add: catalog_current_def)
  then have "catalog_current (catalog_save ?c)"
    using open_save assms(1) by (simp add: catalog_current_def) (simp add: catalog_save_def)
  moreover have "get_table (catalog_save ?c) = (get_table c)(ti_name t \<mapsto> t)"
    by (auto simp: get_table_def catalog_save_def assoc_get_put fun_eq_iff)
  ultimately show thesis using that fresh by (simp add: create_table_def)
qed

lemma current_drop:
  assumes "catalog_current c" "get_table c name \<noteq> None"
  obtains c1 where "drop_table c name = (c1, Inr ())" "catalog_current c1" "get_table c1 = (get_table c)(name := None)"
proof -
  have e: "table_exists c name" using assms(2) by (simp add: table_exists_def get_table_def)
  let ?c = "c\<lparr>ct_indexes := [], ct_tables := filter (\<lambda>(k, _). k \<noteq> name) (ct_tables c)\<rparr>"
  have c: "catalog_inv c" "ct_indexes c = []" using assms(1) by (simp_all add: catalog_current_def)
  have "fst (drop_table c name) = catalog_save ?c" using drop_table_effect [OF c(1) e] c(2) by simp
  moreover have "snd (drop_table c name) = Inr ()" using e by (simp add: drop_table_def Let_def)
  ultimately have "drop_table c name = (catalog_save ?c, Inr ())" by (simp add: prod_eq_iff)
  moreover have "catalog_inv ?c" using inv_drop_table [OF c(1), of name] c(2) by simp
  then have "catalog_current (catalog_save ?c)"
    using open_save by (simp add: catalog_current_def) (simp add: catalog_save_def)
  moreover have "assoc_get m (filter (\<lambda>(k, _). k \<noteq> name) xs) = (if m = name then None else assoc_get m xs)"
    for m and xs :: "(string \<times> table_info) list"
    by (induction xs) auto
  then have "get_table (catalog_save ?c) = (get_table c)(name := None)"
    by (auto simp: get_table_def catalog_save_def fun_eq_iff)
  ultimately show thesis by (rule that)
qed

lemma create_refines:
  assumes "refines_with rt K F db S" "store_create rt S name cols if_not_exists = Some (S1, a)" "K + 1 \<le> INVALID_PAGE_ID"
  shows "\<exists>db1 r. exec_create_table rt (Some (CreateTableStatement name cols if_not_exists cons)) db = Some (db1, r) \<and>
    answers a (as_sql r) \<and> refines_store rt (K + 1) db1 S1"
proof (cases "S name")
  case (Some ts)
  then have "table_exists (db_catalog db) name"
    using refines_withD(6) [OF assms(1), of name] by (simp add: table_exists_def get_table_def)
  moreover have "refines_store rt (K + 1) db S"
    using refines_with_mono [OF assms(1) _ assms(3)] unfolding refines_store_def by auto
  ultimately show ?thesis
    using assms(2) Some by (auto simp: store_create_def exec_create_table_def message_def ret_def fail_def)
next
  case None
  then have free: "get_table (db_catalog db) name = None" "\<not> table_exists (db_catalog db) name"
    using refines_withD(6) [OF assms(1), of name] by (simp_all add: table_exists_def get_table_def)
  have pk: "primary_key_of cols = None" using assms(2) None by (auto simp: store_create_def split: if_splits)
  let ?info = "new_table name (map column_metadata cols)"
  show ?thesis
  proof (cases "get_schema (base_rt rt) ?info")
    case (Inl e)
    have "refines_store rt (K + 1) db S"
      using refines_with_mono [OF assms(1) _ assms(3)] unfolding refines_store_def by auto
    then show ?thesis
      using assms(2) None Inl pk free(2)
      by (auto simp: store_create_def exec_create_table_def new_table_def Let_def bind_db_def [of "from_result _"]
          from_result_def)
  next
    case (Inr s)
    obtain b hf where c: "heap_create s (db_pool db) = (b, Inr hf)" "heap_inv b hf" "heap_tight b hf" "hf_schema hf = s"
      "heap_contents b hf = Map.empty" "dk_num_pages (bp_disk b) = file_pages db + 1" "hf_page_ids hf = [file_pages db]"
      "\<forall>q. q \<noteq> file_pages db \<longrightarrow> pool_view b q = pool_view (db_pool db) q"
      using heap_create_correct [OF refines_withD(1) [OF assms(1)], of s] refines_withD(2) [OF assms(1)] assms(3) by auto
    let ?t = "?info\<lparr>ti_first_page_id := first_page_id hf\<rparr>"
    have "get_table (db_catalog db) (ti_name ?t) = None" "ti_indexes ?t = []"
      using free(1) by (simp_all add: new_table_def)
    from current_create [OF refines_withD(4) [OF assms(1)] this] obtain c1 where
      c1: "create_table (db_catalog db) ?t = (c1, Inr ())" "catalog_current c1"
        "get_table c1 = (get_table (db_catalog db))(name \<mapsto> ?t)"
      by (auto simp: new_table_def)
    define db1 where "db1 = db\<lparr>db_pool := b, db_catalog := c1, db_heaps := assoc_put name hf (db_heaps db)\<rparr>"
    have run: "exec_create_table rt (Some (CreateTableStatement name cols if_not_exists cons)) db =
        Some (db1, Inr (message_result 0 (''Table '' @ quoted name @ '' created successfully'')))"
      using c(1) c1(1) Inr free(2) pk
      by (simp add: exec_create_table_def new_table_def Let_def run_actions run_on(1) [of "heap_create s"]
          run_on(2) [where c = c1] message_def ret_def db1_def)
    have none: "file_records b hf = []"
    proof -
      have "x \<notin> set (file_records b hf)" for x using file_records_set [OF c(2)] c(5) by (cases x) simp
      then show ?thesis by (metis list.set_intros(1) neq_Nil_conv)
    qed
    have schema: "get_schema (base_rt rt) ?t = Inr (hf_schema hf)"
      using Inr c(4) by (simp add: get_schema_def column_names_def)
    have mine: "table_refines rt b name hf ?t (empty_table (map column_metadata cols))"
      using c(2,3) schema none by (simp add: table_refines_def empty_table_def decode_rows_def) (simp add: new_table_def)
    have first: "0 \<le> file_pages db" using c(2,7) by (simp add: heap_inv_def in_file_def)
    have "refines_with rt (K + 1) (F(name := hf)) db1 (S(name \<mapsto> empty_table (map column_metadata cols)))"
      by (rule refines_put [OF assms(1), where t = ?t])
        (use first mine c(6-8) c1(2,3) refines_pages [OF assms(1)] refines_withD(2) [OF assms(1)] assms(3)
          in \<open>auto simp: db1_def assoc_get_put new_table_def disjnt_iff\<close>)
    then have "refines_store rt (K + 1) db1 S1"
      using assms(2) None Inr pk by (auto simp: store_create_def refines_store_def)
    then show ?thesis using run assms(2) None Inr pk by (auto simp: store_create_def)
  qed
qed

lemma drop_refines:
  assumes "refines_with rt K F db S" "store_drop S name if_exists = (S1, a)"
  shows "\<exists>db1 r. exec_drop_table (Some name) (Some (DropTableStatement name if_exists casc)) db = Some (db1, r) \<and>
    answers a (as_sql r) \<and> refines_store rt K db1 S1"
proof (cases "S name")
  case None
  then have "\<not> table_exists (db_catalog db) name"
    using refines_withD(6) [OF assms(1), of name] by (simp add: table_exists_def get_table_def)
  then show ?thesis
    using assms None
    by (cases if_exists) (auto simp: exec_drop_table_def store_drop_def name_or_empty_def message_def ret_def fail_def refines_store_def)
next
  case (Some ts)
  then have t: "get_table (db_catalog db) name \<noteq> None" "table_exists (db_catalog db) name"
    using refines_withD(6) [OF assms(1), of name] by (simp_all add: table_exists_def get_table_def)
  obtain c1 where c1: "drop_table (db_catalog db) name = (c1, Inr ())" "catalog_current c1"
    "get_table c1 = (get_table (db_catalog db))(name := None)"
    by (rule current_drop [OF refines_withD(4) [OF assms(1)] t(1)])
  define db1 where "db1 = db\<lparr>db_heaps := assoc_del name (db_heaps db), db_catalog := c1\<rparr>"
  have "exec_drop_table (Some name) (Some (DropTableStatement name if_exists casc)) db =
      Some (db1, Inr (message_result 0 (''Table '' @ quoted name @ '' dropped successfully'')))"
    using t(2) c1(1) refines_withD(5) [OF assms(1), of name]
    by (simp add: exec_drop_table_def name_or_empty_def run_actions run_on(2) [where c = c1] message_def db1_def)
      (simp add: ret_def)
  moreover have "refines_with rt K F db1 (S(name := None))"
  proof (rule refines_withI)
    fix m u us assume "get_table (db_catalog db1) m = Some u" "(S(name := None)) m = Some us"
    then have "m \<noteq> name" "get_table (db_catalog db) m = Some u" "S m = Some us"
      by (auto simp: db1_def c1(3) split: if_splits)
    then show "table_refines rt (db_pool db1) m (F m) u us \<and> assoc_get m (db_heaps db1) \<in> {None, Some (F m)} \<and>
        0 \<le> ti_row_count u \<and> ti_row_count u \<le> K"
      using refines_at [OF assms(1), of m u us] by (simp add: db1_def assoc_get_del_other)
  qed (use refines_withD(1-3,6) [OF assms(1)] refines_apart [OF assms(1)] c1(2,3) in
      \<open>auto simp: db1_def split: if_splits\<close>)
  ultimately show ?thesis
    using assms(2) Some by (auto simp: store_drop_def refines_store_def)
qed

section \<open>Rows\<close>

lemma missing_table:
  assumes "get_table (db_catalog db) name = None" "pn_table_name f = Some name"
  shows "exec_seq_scan rt f db = Some (db, Inl RuntimeError)"
    and "exec_insert rt f txn db = Some (db, Inl RuntimeError)"
    and "exec_delete rt f cs db = Some (db, Inl RuntimeError)"
proof -
  have "table_named name db = Some (db, Inl RuntimeError)"
    using assms(1) by (simp add: table_named_def fail_def)
  then show "exec_seq_scan rt f db = Some (db, Inl RuntimeError)"
    "exec_insert rt f txn db = Some (db, Inl RuntimeError)" "exec_delete rt f cs db = Some (db, Inl RuntimeError)"
    using assms(2)
    by (simp_all add: exec_seq_scan_def exec_insert_def exec_delete_def name_or_empty_def bind_db_def)
qed

text \<open>A table of the store is open, or is opened by the handlers.\<close>

lemma refines_handlers:
  assumes "refines_with rt K F db S" "S name = Some ts" "pn_table_name f = Some name"
  obtains t db0 rows where "exec_seq_scan rt f db = exec_seq_scan rt f db0" "exec_insert rt f txn db = exec_insert rt f txn db0"
    "exec_delete rt f cs db = exec_delete rt f cs db0" "refines_with rt K F db0 S"
    "assoc_get name (db_heaps db0) = Some (F name)" "table_holds rt db0 name t rows" "mset rows = tb_rows ts"
    "ti_columns t = tb_columns ts" "tb_appendable ts \<longrightarrow> table_tight db0 name" "0 \<le> ti_row_count t" "ti_row_count t \<le> K"
    "insertable rt (new_table name (tb_columns ts)) = insertable rt t" "get_table (db_catalog db0) name = Some t"
    "table_exact rt db0 name" "db_catalog db0 = db_catalog db"
    "get_schema (base_rt rt) (new_table name (tb_columns ts)) = get_schema (base_rt rt) t"
    "\<forall>wh. exec_node rt txn (dml_scan name wh) db = exec_node rt txn (dml_scan name wh) db0"
proof (rule refines_opened [OF assms(1,2)])
  fix t db0
  assume o: "get_table (db_catalog db) name = Some t" "get_schema (base_rt rt) t = Inr (hf_schema (F name))"
    "get_or_create_heap rt name (hf_schema (F name)) db = Some (db0, Inr (F name))" "db_catalog db0 = db_catalog db"
    "assoc_get name (db_heaps db0) = Some (F name)" "refines_with rt K F db0 S"
  obtain t0 rows where h: "table_holds rt db0 name t0 rows" "mset rows = tb_rows ts" "ti_columns t0 = tb_columns ts"
    "ti_name t0 = name" "ti_primary_key t0 = None" "tb_appendable ts \<longrightarrow> table_tight db0 name"
    "0 \<le> ti_row_count t0" "ti_row_count t0 \<le> K" "table_exact rt db0 name"
    by (rule refines_holds [OF o(6) assms(2) o(5)])
  have t0: "t0 = t" "get_table (db_catalog db0) name = Some t" using h(1) o(1,4) by (auto simp: table_holds_def)
  have schema: "get_schema (base_rt rt) (new_table name (tb_columns ts)) = get_schema (base_rt rt) t"
    using h(3-5) by (simp add: t0 get_schema_def new_table_def column_names_def)
  then have ins: "insertable rt (new_table name (tb_columns ts)) = insertable rt t"
    using h(3) by (simp add: t0 insertable_def fun_eq_iff) (simp add: new_table_def)
  have "exec_seq_scan rt g db = exec_seq_scan rt g db0" if "pn_table_name g = Some name" for g
    by (rule handlers_open(1) [OF o(1-5) that])
  then have "exec_node rt txn (dml_scan name wh) db = exec_node rt txn (dml_scan name wh) db0" for wh
    by (cases wh) (simp_all add: dml_scan_def with_child_def child_at_def bind_db_def blank_node_def)
  then have scan: "\<forall>wh. exec_node rt txn (dml_scan name wh) db = exec_node rt txn (dml_scan name wh) db0" by simp
  note h' = h [unfolded t0(1)]
  show thesis
    by (rule that [OF handlers_open [OF o(1-5) assms(3)] o(6,5) h'(1-3,6-8) ins t0(2) h'(9) o(4) schema scan])
qed

lemma evaluated_rows_all:
  "evaluated_rows rt rows = (vss, None) \<Longrightarrow> list_all2 (\<lambda>es vs. mapr (eval_expr rt []) es = Inr vs) rows vss"
proof (induction rows arbitrary: vss)
  case (Cons es rows)
  then show ?case by (cases "mapr (eval_expr rt []) es") (auto split: prod.splits)
qed simp

lemma evaluated_rows_raise:
  assumes "evaluated_rows rt rows = (vss, Some e)"
  obtains good bad rest where "rows = good @ bad # rest" "mapr (eval_expr rt []) bad = Inl e"
    "list_all2 (\<lambda>es vs. mapr (eval_expr rt []) es = Inr vs) good vss"
proof -
  have "\<exists>good bad rest. rows = good @ bad # rest \<and> mapr (eval_expr rt []) bad = Inl e \<and>
      list_all2 (\<lambda>es vs. mapr (eval_expr rt []) es = Inr vs) good vss"
    using assms
  proof (induction rows arbitrary: vss)
    case (Cons es rows)
    show ?case
    proof (cases "mapr (eval_expr rt []) es")
      case (Inl x)
      then have "vss = []" "x = e" using Cons.prems by auto
      then show ?thesis using Inl by (intro exI [of _ "[]"] exI [of _ es] exI [of _ rows]) simp
    next
      case (Inr vs)
      then obtain vss1 where v: "vss = vs # vss1" "evaluated_rows rt rows = (vss1, Some e)"
        using Cons.prems by (auto split: prod.splits)
      obtain good bad rest where "rows = good @ bad # rest" "mapr (eval_expr rt []) bad = Inl e"
        "list_all2 (\<lambda>es vs. mapr (eval_expr rt []) es = Inr vs) good vss1"
        using Cons.IH [OF v(2)] by blast
      then show ?thesis using Inr v(1) by (intro exI [of _ "es # good"]) auto
    qed
  qed simp
  then show thesis using that by blast
qed

lemma insert_refines:
  assumes r: "refines_with rt K F db S" and st: "store_insert rt S name exprss = Some (S1, a)"
    and K: "K + int (length exprss) \<le> INVALID_PAGE_ID"
    and f: "pn_table_name f = Some name" "pn_insert_columns f = None" "pn_values f = Some exprss"
  shows "\<exists>db1 r. exec_insert rt f txn db = Some (db1, r) \<and> answers a (as_sql r) \<and>
    refines_store rt (K + int (length exprss)) db1 S1"
proof (cases "S name")
  case None
  then have "get_table (db_catalog db) name = None" using refines_withD(6) [OF r, of name] by simp
  moreover have "refines_store rt (K + int (length exprss)) db S"
    using refines_with_mono [OF r _ K] unfolding refines_store_def by auto
  ultimately show ?thesis
    using st None missing_table(2) [OF _ f(1)] by (auto simp: store_insert_def)
next
  case (Some ts)
  obtain vss x where v: "evaluated_rows rt exprss = (vss, x)" by (cases "evaluated_rows rt exprss")
  have ok: "tb_appendable ts" "list_all (insertable rt (new_table name (tb_columns ts))) vss"
    and S1: "S1 = S(name \<mapsto> ts\<lparr>tb_rows := tb_rows ts + mset (map normalise_nulls vss)\<rparr>)"
    and a: "a = (case x of Some e \<Rightarrow> Fails e
        | None \<Rightarrow> Message (int (length exprss)) (str_of_int (int (length exprss)) @ '' row(s) inserted''))"
    using st Some v by (auto simp: store_insert_def Let_def split: if_splits)
  obtain t db0 rows where h: "exec_seq_scan rt f db = exec_seq_scan rt f db0"
    "exec_insert rt f txn db = exec_insert rt f txn db0" "exec_delete rt f [] db = exec_delete rt f [] db0"
    "refines_with rt K F db0 S" "assoc_get name (db_heaps db0) = Some (F name)" "table_holds rt db0 name t rows"
    "mset rows = tb_rows ts" "ti_columns t = tb_columns ts" "tb_appendable ts \<longrightarrow> table_tight db0 name"
    "0 \<le> ti_row_count t" "ti_row_count t \<le> K" "insertable rt (new_table name (tb_columns ts)) = insertable rt t"
    "get_table (db_catalog db0) name = Some t" "table_exact rt db0 name" "db_catalog db0 = db_catalog db"
    "get_schema (base_rt rt) (new_table name (tb_columns ts)) = get_schema (base_rt rt) t"
    "\<forall>wh. exec_node rt txn (dml_scan name wh) db = exec_node rt txn (dml_scan name wh) db0"
    by (rule refines_handlers [OF r Some f(1)])
  have tight: "table_tight db0 name" using h(9) ok(1) by simp
  have same: "ts\<lparr>tb_rows := R, tb_appendable := True\<rparr> = ts\<lparr>tb_rows := R\<rparr>" for R using ok(1) by simp
  note idx = refines_withD(5) [OF h(4), of name] and pages = refines_withD(2,3) [OF h(4)]
  note cat = refines_withD(4) [OF h(4)]
  show ?thesis
  proof (cases x)
    case None
    let ?n = "ti_row_count t + int (length vss)"
    have all: "list_all2 (\<lambda>es vs. mapr (eval_expr rt []) es = Inr vs \<and> insertable rt t vs) exprss vss"
      using evaluated_rows_all [OF v [unfolded None]] ok(2) h(12)
      by (auto simp: list_all2_conv_all_nth list_all_length)
    have len: "length vss = length exprss" using list_all2_lengthD [OF all] by simp
    then have small: "file_pages db0 + int (length vss) \<le> INVALID_PAGE_ID" using pages K by simp
    obtain db1 rows1 where i: "exec_insert rt f txn db0 = Some (db1, Inr (inserted_message (int (length vss))))"
      "table_holds rt db1 name (t\<lparr>ti_row_count := ?n\<rparr>) rows1" "mset rows1 = mset rows + mset (map normalise_nulls vss)"
      "db_catalog db1 = update_table_stats (db_catalog db0) name ?n" "only_changes name db0 db1" "table_tight db1 name"
      "file_pages db1 \<le> file_pages db0 + int (length vss)" "table_exact rt db0 name \<longrightarrow> table_exact rt db1 name"
      using insert_rows_held [OF h(6) tight idx all small f] by blast
    have "refines_store rt (K + int (length exprss)) db1 (S(name \<mapsto> ts\<lparr>tb_rows := mset rows1, tb_appendable := True\<rparr>))"
      by (rule refines_change [OF h(4) Some h(5) i(5,2) h(13)])
        (use i(6-8) h(14) current_stats [OF cat h(13)] h(10,11) K pages len in \<open>simp_all add: i(4)\<close>)
    then show ?thesis
      using h(2) i(1,3) a None len by (auto simp: S1 same h(7) inserted_message_def)
  next
    case (Some e)
    obtain good bad rest where g: "exprss = good @ bad # rest" "mapr (eval_expr rt []) bad = Inl e"
      "list_all2 (\<lambda>es vs. mapr (eval_expr rt []) es = Inr vs) good vss"
      by (rule evaluated_rows_raise [OF v [unfolded Some]])
    have all: "list_all2 (\<lambda>es vs. mapr (eval_expr rt []) es = Inr vs \<and> insertable rt t vs) good vss"
      using g(3) ok(2) h(12) by (auto simp: list_all2_conv_all_nth list_all_length)
    have len: "int (length vss) \<le> int (length exprss)" using list_all2_lengthD [OF all] g(1) by simp
    then have small: "file_pages db0 + int (length vss) \<le> INVALID_PAGE_ID" using pages K by simp
    obtain db1 rows1 where i: "exec_insert rt f txn db0 = Some (db1, Inl e)" "table_holds rt db1 name t rows1"
      "mset rows1 = mset rows + mset (map normalise_nulls vss)" "db_catalog db1 = db_catalog db0"
      "only_changes name db0 db1" "table_tight db1 name" "file_pages db1 \<le> file_pages db0 + int (length vss)"
      "table_exact rt db0 name \<longrightarrow> table_exact rt db1 name"
      using insert_rows_raise [OF h(6) tight idx all g(2) small f(1,2) f(3) [unfolded g(1)]] by blast
    have "refines_store rt (K + int (length exprss)) db1 (S(name \<mapsto> ts\<lparr>tb_rows := mset rows1, tb_appendable := True\<rparr>))"
      by (rule refines_change [OF h(4) \<open>S name = Some ts\<close> h(5) i(5) _ h(13), where n = "ti_row_count t"])
        (use i(2,6-8) h(14) cat h(10,11,13) K pages len in \<open>simp_all add: i(4) fun_upd_idem\<close>)
    then show ?thesis using h(2) i(1,3) a Some by (auto simp: S1 same h(7))
  qed
qed

lemma delete_refines:
  assumes r: "refines_with rt K F db S" and st: "store_delete rt S name wh = Some (S1, a)"
    and f: "pn_table_name f = Some name" "child_predicate cs = wh"
  shows "\<exists>db1 r. exec_delete rt f cs db = Some (db1, r) \<and> answers a (as_sql r) \<and> refines_store rt K db1 S1"
proof (cases "S name")
  case None
  then have "get_table (db_catalog db) name = None" using refines_withD(6) [OF r, of name] by simp
  then show ?thesis
    using r st None missing_table(3) [OF _ f(1)] by (auto simp: store_delete_def refines_store_def)
next
  case (Some ts)
  obtain t db0 rows where h: "exec_seq_scan rt f db = exec_seq_scan rt f db0"
    "exec_insert rt f 0 db = exec_insert rt f 0 db0" "exec_delete rt f cs db = exec_delete rt f cs db0"
    "refines_with rt K F db0 S" "assoc_get name (db_heaps db0) = Some (F name)" "table_holds rt db0 name t rows"
    "mset rows = tb_rows ts" "ti_columns t = tb_columns ts" "tb_appendable ts \<longrightarrow> table_tight db0 name"
    "0 \<le> ti_row_count t" "ti_row_count t \<le> K" "insertable rt (new_table name (tb_columns ts)) = insertable rt t"
    "get_table (db_catalog db0) name = Some t" "table_exact rt db0 name" "db_catalog db0 = db_catalog db"
    "get_schema (base_rt rt) (new_table name (tb_columns ts)) = get_schema (base_rt rt) t"
    "\<forall>wh. exec_node rt 0 (dml_scan name wh) db = exec_node rt 0 (dml_scan name wh) db0"
    by (rule refines_handlers [OF r Some f(1)])
  let ?P = "\<lambda>vs. passes rt ts wh vs = Inr True"
  have passes: "passes rt ts wh vs = eval_predicate rt (row_dict (column_names t) vs) wh" for vs
    by (simp add: passes_def column_names_def h(8))
  have ok: "\<forall>vs \<in> set rows. is_ok (passes rt ts wh vs)"
    and S1: "S1 = S(name \<mapsto> ts\<lparr>tb_rows := tb_rows ts - filter_mset ?P (tb_rows ts), tb_appendable := False\<rparr>)"
    and a: "a = Message (int (size (filter_mset ?P (tb_rows ts)))) (str_of_int (int (size (filter_mset ?P (tb_rows ts)))) @ '' row(s) deleted'')"
    using st Some by (auto simp: store_delete_def Let_def h(7) [symmetric] split: if_splits)
  let ?hits = "filter ?P rows"
  have hits: "mset ?hits = filter_mset ?P (tb_rows ts)" "length ?hits = size (filter_mset ?P (tb_rows ts))"
    by (simp_all add: h(7) [symmetric] flip: size_mset)
  have fr: "filter_rows rt (column_names t) (child_predicate cs) rows = Inr ?hits"
    using filter_rows_all [of rows rt "column_names t" wh] ok by (simp add: f(2) passes)
  let ?n = "max 0 (ti_row_count t - int (length ?hits))"
  obtain db1 kept where d: "exec_delete rt f cs db0 = Some (db1, Inr (deleted_message (int (length ?hits))))"
    "table_holds rt db1 name (t\<lparr>ti_row_count := ?n\<rparr>) kept" "mset rows = mset ?hits + mset kept"
    "db_catalog db1 = update_table_stats (db_catalog db0) name ?n" "only_changes name db0 db1"
    "file_pages db1 = file_pages db0" "table_exact rt db0 name \<longrightarrow> table_exact rt db1 name"
    using delete_held [OF h(6) f(1) fr] by blast
  have bounds: "0 \<le> K" using h(10,11) by simp
  have "refines_store rt K db1 (S(name \<mapsto> ts\<lparr>tb_rows := mset kept, tb_appendable := False\<rparr>))"
    by (rule refines_change [OF h(4) Some h(5) d(5,2) h(13)])
      (use current_stats [OF refines_withD(4) [OF h(4)] h(13)] h(10,11,14) d(7) refines_withD(2,3) [OF h(4)] bounds
        in \<open>simp_all add: d(4,6)\<close>)
  moreover have "mset kept = tb_rows ts - filter_mset ?P (tb_rows ts)"
    using d(3) hits(1) h(7) by (metis add_diff_cancel_left')
  ultimately show ?thesis using h(3) d(1) a S1 hits(2) by (auto simp: deleted_message_def)
qed

lemma update_refines:
  assumes r: "refines_with rt K F db S" and st: "store_update rt S name assigns wh = Some (S1, a)"
    and f: "pn_table_name f = Some name" "pn_type f = P_UPDATE" "pn_assignments f = Some assigns"
  shows "\<exists>db1 r. exec_node rt txn (PlanNode f [dml_scan name wh]) db = Some (db1, r) \<and> answers a (as_sql r) \<and>
    refines_store rt K db1 S1"
proof (cases "S name")
  case None
  then have "table_named name db = Some (db, Inl RuntimeError)"
    using refines_withD(6) [OF r, of name] by (simp add: table_named_def fail_def)
  then show ?thesis
    using r st None f
    by (auto simp: store_update_def refines_store_def exec_update_def name_or_empty_def bind_db_def)
next
  case (Some ts)
  obtain t db0 rows where h: "exec_seq_scan rt f db = exec_seq_scan rt f db0"
    "exec_insert rt f txn db = exec_insert rt f txn db0" "exec_delete rt f [] db = exec_delete rt f [] db0"
    "refines_with rt K F db0 S" "assoc_get name (db_heaps db0) = Some (F name)" "table_holds rt db0 name t rows"
    "mset rows = tb_rows ts" "ti_columns t = tb_columns ts" "tb_appendable ts \<longrightarrow> table_tight db0 name"
    "0 \<le> ti_row_count t" "ti_row_count t \<le> K" "insertable rt (new_table name (tb_columns ts)) = insertable rt t"
    "get_table (db_catalog db0) name = Some t" "table_exact rt db0 name" "db_catalog db0 = db_catalog db"
    "get_schema (base_rt rt) (new_table name (tb_columns ts)) = get_schema (base_rt rt) t"
    "\<forall>wh. exec_node rt txn (dml_scan name wh) db = exec_node rt txn (dml_scan name wh) db0"
    by (rule refines_handlers [OF r Some f(1)])
  let ?t = "new_table name (tb_columns ts)"
  have cols: "column_names ?t = column_names t" by (simp add: column_names_def new_table_def h(8))
  have eqs: "row_passes_now rt ?t = row_passes_now rt t" "assigned rt ?t = assigned rt t" "updated_row rt ?t = updated_row rt t"
    "updatable rt ?t = updatable rt t" "same_bytes rt ?t = same_bytes rt t"
    by (simp_all add: fun_eq_iff row_passes_now_def assigned_def updated_row_def updatable_def same_bytes_def row_bytes_def cols h(16))
  have passes: "passes rt ts wh vs = row_passes_now rt t wh vs" for vs
    by (simp add: passes_def row_passes_now_def column_names_def h(8))
  let ?P = "\<lambda>vs. row_passes_now rt t wh vs = Inr True"
  let ?app = "tb_appendable ts \<and> (\<forall>vs \<in> set rows. same_bytes rt t wh assigns vs)"
  have ok: "ti_columns t \<noteq> []" "\<forall>vs \<in> set rows. updatable rt t wh assigns vs"
    and S1: "S1 = S(name \<mapsto> ts\<lparr>tb_rows := image_mset (updated_row rt t wh assigns) (tb_rows ts), tb_appendable := ?app\<rparr>)"
    and a: "a = Message (int (length (filter ?P rows))) (str_of_int (int (length (filter ?P rows))) @ '' row(s) updated'')"
    using st Some by (auto simp: store_update_def Let_def h(8) eqs passes h(7) [symmetric] split: if_splits simp flip: size_mset)
  obtain db1 rows1 where d: "exec_node rt txn (PlanNode f [dml_scan name wh]) db0 =
      Some (db1, Inr (updated_message (int (length (filter ?P rows)))))" "table_holds rt db1 name t rows1"
    "mset rows1 = image_mset (updated_row rt t wh assigns) (mset rows)" "db_catalog db1 = db_catalog db0"
    "only_changes name db0 db1" "file_pages db1 = file_pages db0" "table_exact rt db1 name"
    "(\<forall>vs \<in> set rows. same_bytes rt t wh assigns vs) \<longrightarrow> table_tight db0 name \<longrightarrow> table_tight db1 name"
    using update_held [OF h(6,14) ok f(2,1,3), of txn] by blast
  have "table_named name db = Some (db, Inr t)" "table_named name db0 = Some (db0, Inr t)"
    using h(13,15) by (simp_all add: table_named_found)
  then have "exec_update rt f [c] m db = exec_update rt f [c] m db0" if "m db = m db0" for c and m :: "table action"
    using that f(1) by (simp add: exec_update_def name_or_empty_def Let_def bind_db_def)
  then have "exec_node rt txn (PlanNode f [dml_scan name wh]) db = exec_node rt txn (PlanNode f [dml_scan name wh]) db0"
    using f(2) spec [OF h(17), of wh] by (simp add: child_at_def)
  moreover have "refines_store rt K db1 (S(name \<mapsto> ts\<lparr>tb_rows := mset rows1, tb_appendable := ?app\<rparr>))"
    by (rule refines_change [OF h(4) Some h(5) d(5) _ h(13), where n = "ti_row_count t"])
      (use d(2,6-8) h(9-11,13) refines_withD(2-4) [OF h(4)] in \<open>simp_all add: d(4) fun_upd_idem\<close>)
  ultimately show ?thesis using d(1,3) a S1 h(7) by (auto simp: updated_message_def)
qed

lemma select_refines:
  assumes r: "refines_with rt K F db S" and st: "store_select rt S items name wh = Some (S1, a)"
    and f: "pn_table_name f = Some name" "pn_predicate f = wh" and items: "items \<noteq> []"
  shows "\<exists>db1 r. with_child (exec_seq_scan rt f) (exec_project rt (Some items)) db = Some (db1, r) \<and>
    answers a (as_sql r) \<and> refines_store rt K db1 S1"
proof (cases "S name")
  case None
  then have "get_table (db_catalog db) name = None" using refines_withD(6) [OF r, of name] by simp
  then show ?thesis
    using r st None missing_table(1) [OF _ f(1)]
    by (auto simp: store_select_def refines_store_def with_child_def bind_db_def)
next
  case (Some ts)
  obtain t db0 rows where h: "exec_seq_scan rt f db = exec_seq_scan rt f db0"
    "exec_insert rt f 0 db = exec_insert rt f 0 db0" "exec_delete rt f [] db = exec_delete rt f [] db0"
    "refines_with rt K F db0 S" "assoc_get name (db_heaps db0) = Some (F name)" "table_holds rt db0 name t rows"
    "mset rows = tb_rows ts" "ti_columns t = tb_columns ts" "tb_appendable ts \<longrightarrow> table_tight db0 name"
    "0 \<le> ti_row_count t" "ti_row_count t \<le> K" "insertable rt (new_table name (tb_columns ts)) = insertable rt t"
    "get_table (db_catalog db0) name = Some t" "table_exact rt db0 name" "db_catalog db0 = db_catalog db"
    "get_schema (base_rt rt) (new_table name (tb_columns ts)) = get_schema (base_rt rt) t"
    "\<forall>wh. exec_node rt 0 (dml_scan name wh) db = exec_node rt 0 (dml_scan name wh) db0"
    by (rule refines_handlers [OF r Some f(1)])
  let ?P = "\<lambda>vs. passes rt ts wh vs = Inr True" and ?cols = "map ci_name (tb_columns ts)"
  let ?hits = "filter ?P rows"
  have cols: "column_names t = ?cols" by (simp add: column_names_def h(8))
  have ok: "\<forall>vs \<in> set rows. is_ok (passes rt ts wh vs)" "\<forall>vs \<in> set ?hits. is_ok (project_row rt ?cols items vs)"
    and S1: "S1 = S" and a: "a = Rows (concat (map (item_columns rt ?cols) items))
        (image_mset (\<lambda>vs. projr (project_row rt ?cols items vs)) (mset ?hits))"
    using st Some by (auto simp: store_select_def Let_def h(7) [symmetric] split: if_splits)
  have fr: "filter_rows rt ?cols wh rows = Inr ?hits"
    using filter_rows_all [of rows rt ?cols wh] ok(1) by (simp add: passes_def)
  obtain b where b: "exec_seq_scan rt f db0 = Some (db0\<lparr>db_pool := b\<rparr>, Inr (table_result ?cols ?hits))"
    "ready b" "pool_view b = pool_view (db_pool db0)" "dk_num_pages (bp_disk b) = file_pages db0"
    using scan_held [OF h(6) f(1)] fr
    by (auto simp: exec_filter_def table_result_def f(2) cols table_holds_def heap_inv_def)
  have "mapr (project_row rt ?cols items) ?hits = Inr (map (projr \<circ> project_row rt ?cols items) ?hits)"
    using ok(2) by (simp add: mapr_ok_iff)
  then have p: "exec_project rt (Some items) (table_result ?cols ?hits) =
      Inr (table_result (concat (map (item_columns rt ?cols) items)) (map (projr \<circ> project_row rt ?cols items) ?hits))"
    using items by (cases items) (simp_all add: exec_project_def table_result_def)
  let ?out = "table_result (concat (map (item_columns rt ?cols) items)) (map (projr \<circ> project_row rt ?cols items) ?hits)"
  have "with_child (exec_seq_scan rt f) (exec_project rt (Some items)) db = Some (db0\<lparr>db_pool := b\<rparr>, Inr ?out)"
    using b(1) p h(1) by (simp add: with_child_def bind_db_def from_result_def)
  moreover have "refines_store rt K (db0\<lparr>db_pool := b\<rparr>) S"
    using refines_pool [OF h(4) b(2-4)] unfolding refines_store_def by blast
  moreover have "answers a (as_sql (Inr ?out))"
    by (auto simp: a comp_def intro!: exI [of _ "map (projr \<circ> project_row rt ?cols items) ?hits"])
  ultimately show ?thesis using S1 by blast
qed

section \<open>Planning\<close>

lemma counts_floats:
  assumes "counts_rows rt" "0 \<le> n" "n \<le> INVALID_PAGE_ID"
  obtains x where "rt_float_of_int rt n = Inr x"
  using assms unfolding counts_rows_def is_ok_def by (cases "rt_float_of_int rt n") auto

lemma float_steps:
  "py_mul rt (VFloat x) (VFloat y) = Inr (VFloat (ra_mul rt x y))"
  "py_add rt (VFloat x) (VFloat y) = Inr (VFloat (ra_add rt x y))"
  "rt_float_of_int rt i = Inr x \<Longrightarrow> py_mul rt (VInt i) (VFloat y) = Inr (VFloat (ra_mul rt x y))"
  "rt_float_of_int rt i = Inr x \<Longrightarrow> py_add rt (VInt i) (VFloat y) = Inr (VFloat (ra_add rt x y))"
  by (simp_all add: py_mul_def py_add_def num_op_def)

lemma plan_insert_runs:
  assumes "counts_rows rt" "int (length rows) \<le> INVALID_PAGE_ID"
  obtains f where "plan_insert rt name None rows = Inr (PlanNode f [])" "pn_type f = P_INSERT"
    "pn_table_name f = Some name" "pn_insert_columns f = None" "pn_values f = Some rows"
proof -
  obtain x where "rt_float_of_int rt (int (length rows)) = Inr x"
    by (rule counts_floats [OF assms(1) _ assms(2)]) simp
  then show thesis using that by (simp add: plan_insert_def float_steps blank_node_def)
qed

lemma plan_delete_runs:
  assumes "counts_rows rt"
  obtains f cs where "plan_delete rt name wh = Inr (PlanNode f cs)" "pn_type f = P_DELETE"
    "pn_table_name f = Some name" "child_predicate cs = wh"
proof -
  obtain x where x: "rt_float_of_int rt 1000 = Inr x"
    by (rule counts_floats [OF assms, of 1000]) (simp_all add: INVALID_PAGE_ID_def)
  obtain y where y: "rt_float_of_int rt 1100 = Inr y"
    by (rule counts_floats [OF assms, of 1100]) (simp_all add: INVALID_PAGE_ID_def)
  obtain z where "rt_float_of_int rt 330 = Inr z"
    by (rule counts_floats [OF assms, of 330]) (simp_all add: INVALID_PAGE_ID_def)
  then show thesis
    using that x y
    by (cases wh) (simp_all add: plan_delete_def plan_dml_def dml_scan_def estimates_def plus_times_def float_steps
        child_predicate_def blank_node_def)
qed

lemma plan_update_runs:
  assumes "counts_rows rt"
  obtains f where "plan_update rt name assigns wh = Inr (PlanNode f [dml_scan name wh])" "pn_type f = P_UPDATE"
    "pn_table_name f = Some name" "pn_assignments f = Some assigns"
proof -
  obtain x where x: "rt_float_of_int rt 1000 = Inr x"
    by (rule counts_floats [OF assms, of 1000]) (simp_all add: INVALID_PAGE_ID_def)
  obtain y where y: "rt_float_of_int rt 1100 = Inr y"
    by (rule counts_floats [OF assms, of 1100]) (simp_all add: INVALID_PAGE_ID_def)
  obtain z where "rt_float_of_int rt 330 = Inr z"
    by (rule counts_floats [OF assms, of 330]) (simp_all add: INVALID_PAGE_ID_def)
  then show thesis
    using that x y
    by (cases wh) (simp_all add: plan_update_def plan_dml_def dml_scan_def estimates_def plus_times_def float_steps blank_node_def)
qed

lemma estimate_floats:
  assumes "counts_rows rt" "pn_cost fp = VFloat k" "pn_rows fp = VFloat n" "pn_cost fs = VFloat j"
  shows "\<exists>c. estimate_costs rt (PlanNode fp [PlanNode fs []]) = Inr (PlanNode (fp\<lparr>pn_cost := c\<rparr>) [PlanNode fs []])"
proof -
  obtain y where y: "py_sum rt [VFloat j] = Inr (VFloat y)"
    using assms(1) by (auto simp: counts_rows_def py_sum_def)
  have "comparable (py_key (VFloat k)) (py_key (VFloat y))" by (simp split: option.split)
  then have "is_ok (py_lt (VFloat k) (VFloat y))" by (simp add: py_lt_def is_ok_def)
  then obtain b where b: "py_lt (VFloat k) (VFloat y) = Inr b"
    by (cases "py_lt (VFloat k) (VFloat y)") (simp_all add: is_ok_def)
  show ?thesis
  proof (cases b)
    case True
    then show ?thesis using y b assms(2-4) by (simp add: plus_times_def float_steps) blast
  next
    case False
    then have "estimate_costs rt (PlanNode fp [PlanNode fs []]) = Inr (PlanNode fp [PlanNode fs []])"
      using y b assms(2-4) by simp
    then show ?thesis by (intro exI [of _ "pn_cost fp"]) simp
  qed
qed

lemma plan_query_runs:
  assumes "counts_rows rt" "\<And>t. get_table c name = Some t \<Longrightarrow> 0 \<le> ti_row_count t \<and> ti_row_count t \<le> INVALID_PAGE_ID"
    and "get_indexes_for_table c name = []" "\<not> has_aggregates items"
  obtains fp fs where "plan rt c (Select (SelectStatement items (Some (SimpleTableRef name al)) wh None None None None off False)) =
      Inr (PlanNode fp [PlanNode fs []])" "pn_type fp = P_PROJECT" "pn_columns fp = Some items"
    "pn_type fs = P_SEQ_SCAN" "pn_table_name fs = Some name" "pn_predicate fs = wh"
proof -
  let ?n = "case get_table c name of Some t \<Rightarrow> ti_row_count t | None \<Rightarrow> 1000"
  have "0 \<le> ?n \<and> ?n \<le> INVALID_PAGE_ID" using assms(2) by (auto simp: INVALID_PAGE_ID_def split: option.split)
  then obtain x where x: "rt_float_of_int rt ?n = Inr x" using counts_floats [OF assms(1), of ?n] by blast
  have no_index: "find_applicable_index c name e = None" for e
    using assms(3) by (simp add: find_applicable_index_def)
  let ?k = "ra_mul rt x 0x3FF0000000000000" and ?r = "ra_mul rt x 0x3FD51EB851EB851F"
  let ?scan = "(blank_node P_SEQ_SCAN)\<lparr>pn_table_name := Some name, pn_alias := al\<rparr>"
  let ?proj = "(blank_node P_PROJECT)\<lparr>pn_columns := Some items\<rparr>"
  obtain fp fs where p: "plan rt c (Select (SelectStatement items (Some (SimpleTableRef name al)) wh None None None None off False)) =
      estimate_costs rt (PlanNode fp [PlanNode fs []])" "pn_type fp = P_PROJECT" "pn_columns fp = Some items"
    "pn_type fs = P_SEQ_SCAN" "pn_table_name fs = Some name" "pn_predicate fs = wh"
    "\<exists>i j k. pn_cost fp = VFloat i \<and> pn_rows fp = VFloat j \<and> pn_cost fs = VFloat k"
  proof (cases wh)
    case None
    show thesis
      by (rule that [of "?proj\<lparr>pn_rows := VFloat x, pn_cost := VFloat (ra_add rt ?k (ra_mul rt x 0x3F847AE147AE147B))\<rparr>"
            "?scan\<lparr>pn_rows := VFloat x, pn_cost := VFloat ?k\<rparr>"])
        (use x None assms(4) no_index in \<open>simp_all add: scan_node_def when_some_def project_over_def node_over_def
          estimates_def plus_times_def float_steps optimize_def select_index_def blank_node_def Let_def
          del: estimate_costs.simps\<close>)
  next
    case (Some e)
    show thesis
      by (rule that [of "?proj\<lparr>pn_rows := VFloat ?r, pn_cost := VFloat (ra_add rt
              (ra_add rt ?k (ra_mul rt x 0x3FB999999999999A)) (ra_mul rt ?r 0x3F847AE147AE147B))\<rparr>"
            "?scan\<lparr>pn_predicate := Some e, pn_rows := VFloat ?r, pn_cost := VFloat ?k\<rparr>"])
        (use x Some assms(4) no_index in \<open>simp_all add: scan_node_def when_some_def filter_over_def project_over_def node_over_def
          estimates_def plus_times_def float_steps optimize_def select_index_def blank_node_def Let_def
          del: estimate_costs.simps\<close>)
  qed
  obtain k where k: "estimate_costs rt (PlanNode fp [PlanNode fs []]) = Inr (PlanNode (fp\<lparr>pn_cost := k\<rparr>) [PlanNode fs []])"
    using estimate_floats [OF assms(1)] p(7) by blast
  show thesis by (rule that [of "fp\<lparr>pn_cost := k\<rparr>" fs]) (use p(1-6) k in simp_all)
qed

section \<open>Statements\<close>

lemma auto_run:
  assumes "begin_transaction (db_mvcc db) SNAPSHOT = (m, x)" "exec_node rt x p (db\<lparr>db_mvcc := m\<rparr>) = Some (db1, r)"
  obtains m2 where "execute_plan rt p None db = Some (db1\<lparr>db_mvcc := m2\<rparr>, r)"
proof (cases r)
  case (Inl e)
  then have "execute_plan rt p None db = Some (abort_auto x db1, Inl e)"
    using assms by (simp add: execute_plan_def bind_db_def begin_auto_def)
  then show thesis using that Inl by (simp add: abort_auto_def)
next
  case (Inr t)
  then show thesis using auto_commit [OF assms(1)] assms(2) that by metis
qed

lemma planned_refines:
  assumes "plan rt (db_catalog db) s = Inr p"
    and "\<And>x m. \<exists>db1 r. exec_node rt x p (db\<lparr>db_mvcc := m\<rparr>) = Some (db1, r) \<and> answers a (as_sql r) \<and> refines_store rt K1 db1 S1"
  shows "\<exists>db1 r. exec_statement rt s db = Some (db1, r) \<and> answers a r \<and> refines_store rt K1 db1 S1"
proof -
  obtain m x where m: "begin_transaction (db_mvcc db) SNAPSHOT = (m, x)"
    by (cases "begin_transaction (db_mvcc db) SNAPSHOT")
  obtain db1 r where d: "exec_node rt x p (db\<lparr>db_mvcc := m\<rparr>) = Some (db1, r)" "answers a (as_sql r)" "refines_store rt K1 db1 S1"
    using assms(2) by blast
  obtain m2 where "execute_plan rt p None db = Some (db1\<lparr>db_mvcc := m2\<rparr>, r)"
    by (rule auto_run [OF m d(1)])
  then show ?thesis using assms(1) d(2,3) by (simp add: exec_statement_def)
qed

lemma step_refines:
  assumes r: "refines_store rt K db S" and rt: "counts_rows rt" and st: "store_step rt S s = Some (S1, a)"
    and K: "K + statement_cost s \<le> INVALID_PAGE_ID"
  shows "\<exists>db1 r. exec_statement rt s db = Some (db1, r) \<and> answers a r \<and> refines_store rt (K + statement_cost s) db1 S1"
proof -
  obtain F where F0: "refines_with rt K F db S" using r by (auto simp: refines_store_def)
  then have F: "refines_with rt K F (db\<lparr>db_mvcc := m\<rparr>) S" for m by simp
  show ?thesis
  proof (cases s)
    case (Select q)
    obtain items name al wh off where q: "q = SelectStatement items (Some (SimpleTableRef name al)) wh None None None None off False"
      "items \<noteq> []" "\<not> has_aggregates items" "store_select rt S items name wh = Some (S1, a)"
      using st Select by (cases q) (auto split: option.splits table_ref.splits if_splits)
    have counts: "0 \<le> ti_row_count t \<and> ti_row_count t \<le> INVALID_PAGE_ID" if t: "get_table (db_catalog db) name = Some t" for t
    proof -
      obtain ts where "S name = Some ts" using t refines_withD(6) [OF F0, of name] by auto
      then show ?thesis using refines_at(3,4) [OF F0 t] refines_withD(3) [OF F0] by fastforce
    qed
    obtain fp fs where p: "plan rt (db_catalog db) s = Inr (PlanNode fp [PlanNode fs []])" "pn_type fp = P_PROJECT"
      "pn_columns fp = Some items" "pn_type fs = P_SEQ_SCAN" "pn_table_name fs = Some name" "pn_predicate fs = wh"
      using plan_query_runs [OF rt counts refines_withD(5) [OF F0] q(3), where al = al and wh = wh and off = off] Select q(1) by metis
    show ?thesis
      by (rule planned_refines [OF p(1)])
        (use select_refines [OF F q(4) p(5,6) q(2)] p(2-4) Select in \<open>simp add: child_at_def\<close>)
  next
    case (InsertStatement name cols rows)
    then have i: "cols = None" "store_insert rt S name rows = Some (S1, a)" "statement_cost s = int (length rows)"
      using st by (auto split: if_splits)
    have small: "int (length rows) \<le> INVALID_PAGE_ID" "K + int (length rows) \<le> INVALID_PAGE_ID"
      using K i(3) refines_withD(2) [OF F0] pool_pages [OF refines_withD(1) [OF F0]] by simp_all
    obtain f where p: "plan_insert rt name None rows = Inr (PlanNode f [])" "pn_type f = P_INSERT"
      "pn_table_name f = Some name" "pn_insert_columns f = None" "pn_values f = Some rows"
      by (rule plan_insert_runs [OF rt small(1)])
    have "plan rt (db_catalog db) s = Inr (PlanNode f [])" using p(1) InsertStatement i(1) by simp
    then show ?thesis
      by (rule planned_refines) (use insert_refines [OF F i(2) small(2) p(3-5)] p(2) i(3) in simp)
  next
    case (UpdateStatement name assigns wh)
    then have u: "store_update rt S name assigns wh = Some (S1, a)" using st by simp
    obtain f where p: "plan_update rt name assigns wh = Inr (PlanNode f [dml_scan name wh])" "pn_type f = P_UPDATE"
      "pn_table_name f = Some name" "pn_assignments f = Some assigns"
      by (rule plan_update_runs [OF rt])
    have "plan rt (db_catalog db) s = Inr (PlanNode f [dml_scan name wh])" using p(1) UpdateStatement by simp
    then show ?thesis
      by (rule planned_refines) (use update_refines [OF F u p(3,2,4)] UpdateStatement in \<open>simp del: exec_node.simps\<close>)
  next
    case (DeleteStatement name wh)
    then have d: "store_delete rt S name wh = Some (S1, a)" using st by simp
    obtain f cs where p: "plan_delete rt name wh = Inr (PlanNode f cs)" "pn_type f = P_DELETE"
      "pn_table_name f = Some name" "child_predicate cs = wh"
      by (rule plan_delete_runs [OF rt])
    have "plan rt (db_catalog db) s = Inr (PlanNode f cs)" using p(1) DeleteStatement by simp
    then show ?thesis
      by (rule planned_refines) (use delete_refines [OF F d p(3,4)] p(2) DeleteStatement in simp)
  next
    case (CreateTableStatement name cols if_not_exists cons)
    then have c: "store_create rt S name cols if_not_exists = Some (S1, a)" "K + 1 \<le> INVALID_PAGE_ID"
      using st K by simp_all
    have "plan rt (db_catalog db) s = Inr (PlanNode ((blank_node P_CREATE_TABLE)\<lparr>pn_statement := Some s\<rparr>) [])"
      using CreateTableStatement by simp
    then show ?thesis
      by (rule planned_refines) (use create_refines [OF F c] CreateTableStatement in \<open>simp add: blank_node_def\<close>)
  next
    case (DropTableStatement name if_exists casc)
    then have d: "store_drop S name if_exists = (S1, a)" using st by simp
    have "plan rt (db_catalog db) s = Inr (PlanNode ((blank_node P_DROP_TABLE)\<lparr>pn_statement := Some s, pn_table_name := Some name\<rparr>) [])"
      using DropTableStatement by simp
    then show ?thesis
      by (rule planned_refines) (use drop_refines [OF F d] DropTableStatement in \<open>simp add: blank_node_def\<close>)
  qed (use st in simp_all)
qed

section \<open>Scripts\<close>

text \<open>The statements of a text run one after the other until one raises.\<close>

fun store_run :: "sql_runtime \<Rightarrow> store \<Rightarrow> statement list \<Rightarrow> (store \<times> answer list) option" where
  "store_run rt S [] = Some (S, [])"
| "store_run rt S (s # ss) =
     (case store_step rt S s of
        None \<Rightarrow> None
      | Some (S1, Fails e) \<Rightarrow> Some (S1, [Fails e])
      | Some (S1, a) \<Rightarrow> map_option (\<lambda>(S2, as). (S2, a # as)) (store_run rt S1 ss))"

text \<open>The results of all statements, or the exception of the last one that ran.\<close>

definition script_answers :: "answer list \<Rightarrow> table list sql_result \<Rightarrow> bool" where
  "script_answers as r =
     (case r of
        Inr ts \<Rightarrow> list_all2 (\<lambda>a t. answers a (Inr t)) as ts
      | Inl e \<Rightarrow> as \<noteq> [] \<and> answers (last as) (Inl e))"

definition script_cost :: "statement list \<Rightarrow> int" where
  "script_cost ss = sum_list (map statement_cost ss)"

lemma cost_nonneg: "0 \<le> statement_cost s" "0 \<le> script_cost ss"
proof -
  show c: "0 \<le> statement_cost s" for s by (cases s) simp_all
  show "0 \<le> script_cost ss" unfolding script_cost_def by (intro sum_list_nonneg) (use c in auto)
qed

lemma refines_store_mono:
  "refines_store rt K db S \<Longrightarrow> K \<le> K1 \<Longrightarrow> K1 \<le> INVALID_PAGE_ID \<Longrightarrow> refines_store rt K1 db S"
  unfolding refines_store_def using refines_with_mono by blast

lemma run_refines:
  assumes "refines_store rt K db S" "counts_rows rt" "store_run rt S ss = Some (S1, as)"
    and "K + script_cost ss \<le> INVALID_PAGE_ID" "list_all2 (\<lambda>a t. answers a (Inr t)) before results"
  shows "\<exists>db1 r. exec_statements rt ss results db = Some (db1, r) \<and> script_answers (before @ as) r \<and>
    refines_store rt (K + script_cost ss) db1 S1"
  using assms
proof (induction ss arbitrary: K db S as before results)
  case Nil
  then show ?case by (simp add: script_answers_def script_cost_def)
next
  case (Cons s ss)
  obtain S2 a where st: "store_step rt S s = Some (S2, a)" using Cons.prems(3) by (auto split: option.splits)
  have cost: "script_cost (s # ss) = statement_cost s + script_cost ss" by (simp add: script_cost_def)
  then have small: "K + statement_cost s \<le> INVALID_PAGE_ID" using Cons.prems(4) cost_nonneg(2) [of ss] by simp
  obtain db1 r where d: "exec_statement rt s db = Some (db1, r)" "answers a r" "refines_store rt (K + statement_cost s) db1 S2"
    using step_refines [OF Cons.prems(1,2) st small] by blast
  show ?case
  proof (cases r)
    case (Inl e)
    then have a: "\<exists>x. a = Fails x" using d(2) by (cases a) auto
    then have S1: "S1 = S2" "as = [a]" using Cons.prems(3) st by auto
    have "refines_store rt (K + script_cost (s # ss)) db1 S2"
      by (rule refines_store_mono [OF d(3)]) (use cost cost_nonneg(2) [of ss] Cons.prems(4) in simp_all)
    then show ?thesis using d(1,2) Inl S1 by (simp add: script_answers_def)
  next
    case (Inr t)
    then have "\<nexists>x. a = Fails x" using d(2) by (cases a) auto
    then obtain as2 where as2: "store_run rt S2 ss = Some (S1, as2)" "as = a # as2"
      using Cons.prems(3) st by (cases a) (auto split: option.splits)
    have "list_all2 (\<lambda>a t. answers a (Inr t)) (before @ [a]) (results @ [t])"
      using Cons.prems(5) d(2) Inr by (simp add: list_all2_appendI)
    from Cons.IH [OF d(3) Cons.prems(2) as2(1) _ this] show ?thesis
      using d(1) Inr as2(2) Cons.prems(4) cost by (simp add: add.assoc)
  qed
qed

section \<open>The two promises\<close>

text \<open>
  C1: the database implements a store of tables.  When a database stands for a store, running a
  source text, through the parser, the planner, the executor, the buffer pool and the pages, gives
  the answers the store gives, statement by statement, and leaves a database that stands for the
  store's new state.  A text that raises keeps what the statements before did, and the rows that an
  \<^verbatim>\<open>INSERT\<close> had stored when it raised.
\<close>

theorem script_refines_store:
  assumes "refines_store rt K db S" "counts_rows rt" "parse_sql (base_rt rt) sql = Inr ss"
    and "store_run rt S ss = Some (S1, as)" "K + script_cost ss \<le> INVALID_PAGE_ID"
  shows "\<exists>db1 r. execute_many rt sql db = Some (db1, r) \<and> script_answers as r \<and>
    refines_store rt (K + script_cost ss) db1 S1"
  using run_refines [OF assms(1,2,4,5), of "[]" "[]"] assms(3) by (simp add: execute_many_def)

text \<open>
  C2: the store survives a restart: when a database stands for a store and the checkpoint record
  can be written to its log, it can be closed, and the database opened from its files with a pool
  of at least two frames stands for the same store.  (Linking a new page to the chain of a table pins
  two pages, so a smaller pool could not hold a growing table.)
\<close>

theorem restart_refines_store:
  assumes "refines_store rt K db S" "is_ok (snd (log_checkpoint (db_wal db)))" "2 \<le> n"
  shows "\<exists>db1 db2. database_close db = (db1, Inr ()) \<and> database_open (database_files db1) n = Inr db2 \<and>
    refines_store rt K db2 S"
proof -
  obtain F where F: "refines_with rt K F db S" using assms(1) by (auto simp: refines_store_def)
  obtain db1 db2 where d: "database_close db = (db1, Inr ())" "database_open (database_files db1) n = Inr db2"
    "db_catalog db2 = db_catalog db" "db_heaps db2 = []" "ready (db_pool db2)"
    "pool_view (db_pool db2) = pool_view (db_pool db)" "file_pages db2 = file_pages db"
    by (rule reopen_database [OF refines_withD(1) [OF F] _ assms(2,3)])
      (use refines_withD(4) [OF F] in \<open>simp add: catalog_current_def\<close>)
  have "refines_with rt K F db2 S"
  proof (rule refines_withI)
    fix m t ts assume "get_table (db_catalog db2) m = Some t" and ts: "S m = Some ts"
    then have t: "get_table (db_catalog db) m = Some t" using d(3) by simp
    note at = refines_at [OF F t ts]
    have "table_refines rt (db_pool db2) m (F m) t ts"
      by (rule table_refines_frame [OF at(1)]) (use d(5-7) refines_withD(2,3) [OF F] in simp_all)
    then show "table_refines rt (db_pool db2) m (F m) t ts \<and>
      assoc_get m (db_heaps db2) \<in> {None, Some (F m)} \<and> 0 \<le> ti_row_count t \<and> ti_row_count t \<le> K"
      using at(3,4) d(4) by simp
  qed (use d(3,5,7) refines_withD(2-4,6) [OF F] refines_apart [OF F] in simp_all)
  then show ?thesis using d(1,2) unfolding refines_store_def by blast
qed

section \<open>Examples\<close>

definition store_runtime :: sql_runtime where
  "store_runtime = float_sql_runtime\<lparr>ra_sum := \<lambda>_. Inr (VFloat 0), rt_int_of_str := \<lambda>_. Some 7\<rparr>"

lemma store_runtime_counts: "counts_rows store_runtime"
  by (simp add: counts_rows_def store_runtime_def float_sql_runtime_def is_ok_def)

text \<open>A new database stands for the store without tables.\<close>

definition new_files :: db_files where
  "new_files = \<lparr>fs_data = None, fs_wal = None, fs_catalog = Missing\<rparr>"

lemma new_database:
  assumes "2 \<le> n"
  obtains db where "database_open new_files n = Inr db" "refines_store rt 0 db Map.empty"
    "is_ok (snd (log_checkpoint (db_wal db)))"
proof -
  let ?db = "\<lparr>db_catalog = catalog_open Missing, db_pool = pool_new (disk_open None) n, db_wal = projr (wal_open None),
      db_mvcc = mvcc_new, db_heaps = [], db_indexes = []\<rparr>"
  have "database_open new_files n = Inr ?db"
    by (simp add: database_open_def new_files_def wal_open_def Let_def database_recover_def recover_def
        read_all_empty recover_lsn_def)
  moreover have "refines_with rt 0 F ?db Map.empty" for F
    by (rule refines_withI)
      (use new_pool_ready [OF assms] empty_inv in
        \<open>simp_all add: catalog_current_def pool_new_def disk_open_new INVALID_PAGE_ID_def get_table_def\<close>)
  moreover have "is_ok (snd (log_checkpoint (db_wal ?db)))" using new_log_checkpoint by simp
  ultimately show thesis using that unfolding refines_store_def by blast
qed

definition demo_text :: string where
  "demo_text = ''CREATE TABLE t (id INTEGER, ok BOOLEAN); INSERT INTO t VALUES (7, NULL); ''
     @ ''UPDATE t SET id = id + 7 WHERE ok IS NULL; SELECT id FROM t''"

definition demo_columns :: "column_def list" where
  "demo_columns = [\<lparr>cd_name = ''id'', cd_data_type = ''INTEGER'', cd_constraints = []\<rparr>,
     \<lparr>cd_name = ''ok'', cd_data_type = ''BOOLEAN'', cd_constraints = []\<rparr>]"

definition ok_is_null :: expr where
  "ok_is_null = IsNullExpr (ColumnRef ''ok'' None) False"

definition demo_script :: "statement list" where
  "demo_script = [CreateTableStatement ''t'' demo_columns False [],
     InsertStatement ''t'' None [[Literal (VInt 7) ''integer'', Literal VNone ''null'']],
     UpdateStatement ''t'' seven_more (Some ok_is_null),
     Select (SelectStatement [PlainItem (ColumnRef ''id'' None)] (Some (SimpleTableRef ''t'' None)) None None None None None None False)]"

definition demo_table :: "int \<Rightarrow> table_state" where
  "demo_table i = \<lparr>tb_columns = ti_columns sample_table, tb_rows = {#[VInt i, VNull]#}, tb_appendable = True\<rparr>"

lemma demo_parsed: "parse_sql (base_rt store_runtime) demo_text = Inr demo_script"
  by code_simp

lemma demo_metadata: "map column_metadata demo_columns = ti_columns sample_table"
  by code_simp

lemma demo_schema: "get_schema rt (new_table ''t'' (ti_columns sample_table)) = Inr sample_schema"
  using sample_get_schema [of rt] by (simp add: get_schema_def new_table_def column_names_def sample_table_def)

lemma demo_insertable: "insertable rt (new_table ''t'' (ti_columns sample_table)) [VInt 7, VNull]"
  using sample_insertable [of rt] demo_schema sample_get_schema
  by (simp add: insertable_def) (simp add: new_table_def)

lemma demo_updates:
  "row_passes_now store_runtime (new_table ''t'' (ti_columns sample_table)) (Some ok_is_null) [VInt 7, VNull] = Inr True"
  "assigned store_runtime (new_table ''t'' (ti_columns sample_table)) seven_more [VInt 7, VNull] = Inr [VInt 14, VNull]"
  by code_simp+

definition demo_answers :: "answer list" where
  "demo_answers = [Message 0 (''Table '' @ quoted ''t'' @ '' created successfully''),
     Message 1 (str_of_int 1 @ '' row(s) inserted''), Message 1 (str_of_int 1 @ '' row(s) updated''), Rows [''id''] {#[VInt 14]#}]"

lemma demo_run: "store_run store_runtime Map.empty demo_script = Some ([''t'' \<mapsto> demo_table 14], demo_answers)"
proof -
  have c: "store_create store_runtime Map.empty ''t'' demo_columns False =
      Some ([''t'' \<mapsto> empty_table (ti_columns sample_table)], Message 0 (''Table '' @ quoted ''t'' @ '' created successfully''))"
  proof -
    have "primary_key_of demo_columns = None" by code_simp
    then show ?thesis by (simp add: store_create_def demo_metadata demo_schema)
  qed
  have i: "store_insert store_runtime [''t'' \<mapsto> empty_table (ti_columns sample_table)] ''t'' [[Literal (VInt 7) ''integer'', Literal VNone ''null'']] =
      Some ([''t'' \<mapsto> demo_table 7], Message 1 (str_of_int 1 @ '' row(s) inserted''))"
    using demo_insertable [of store_runtime]
    by (simp add: store_insert_def empty_table_def demo_table_def normalise_nulls_def null_like_def is_null_value_def)
  have u: "store_update store_runtime [''t'' \<mapsto> demo_table 7] ''t'' seven_more (Some ok_is_null) =
      Some ([''t'' \<mapsto> demo_table 14], Message 1 (str_of_int 1 @ '' row(s) updated''))"
  proof -
    have "passes store_runtime (demo_table 7) (Some ok_is_null) [VInt 7, VNull] = Inr True" by code_simp
    moreover have "ti_columns sample_table \<noteq> []" by (simp add: sample_table_def)
    ultimately show ?thesis
      using seven_updated [OF demo_updates demo_schema] by (simp add: store_update_def Let_def demo_table_def)
  qed
  have s: "store_select store_runtime [''t'' \<mapsto> demo_table 14] [PlainItem (ColumnRef ''id'' None)] ''t'' None =
      Some ([''t'' \<mapsto> demo_table 14], Rows [''id''] {#[VInt 14]#})"
  proof -
    have "project_row store_runtime [''id'', ''ok''] [PlainItem (ColumnRef ''id'' None)] [VInt 14, VNull] = Inr [VInt 14]"
      "concat (map (item_columns store_runtime [''id'', ''ok'']) [PlainItem (ColumnRef ''id'' None)]) = [''id'']"
      "map ci_name (ti_columns sample_table) = [''id'', ''ok'']"
      by code_simp+
    then show ?thesis
      by (simp add: store_select_def demo_table_def passes_def eval_predicate_def is_ok_def)
  qed
  show ?thesis using c i u s by (simp add: demo_script_def demo_answers_def has_aggregates_def)
qed

lemma demo_cost: "script_cost demo_script = 2"
  by (simp add: script_cost_def demo_script_def)

theorem script_refines_store_witness:
  "\<exists>db db1. database_open new_files 2 = Inr db \<and>
     execute_many store_runtime demo_text db =
       Some (db1, Inr [message_result 0 (''Table '' @ quoted ''t'' @ '' created successfully''),
         message_result 1 (str_of_int 1 @ '' row(s) inserted''), message_result 1 (str_of_int 1 @ '' row(s) updated''),
         table_result [''id''] [[VInt 14]]]) \<and>
     refines_store store_runtime 2 db1 [''t'' \<mapsto> demo_table 14]"
proof -
  obtain db where db: "database_open new_files 2 = Inr db" "refines_store store_runtime 0 db Map.empty"
    by (rule new_database [of 2]) simp_all
  have "0 + script_cost demo_script \<le> INVALID_PAGE_ID" by (simp add: demo_cost INVALID_PAGE_ID_def)
  from script_refines_store [OF db(2) store_runtime_counts demo_parsed demo_run this]
  obtain db1 r where r: "execute_many store_runtime demo_text db = Some (db1, r)" "script_answers demo_answers r"
    "refines_store store_runtime 2 db1 [''t'' \<mapsto> demo_table 14]"
    by (auto simp: demo_cost)
  have "r = Inr [message_result 0 (''Table '' @ quoted ''t'' @ '' created successfully''),
      message_result 1 (str_of_int 1 @ '' row(s) inserted''), message_result 1 (str_of_int 1 @ '' row(s) updated''),
      table_result [''id''] [[VInt 14]]]"
    using r(2) by (cases r) (auto simp: script_answers_def demo_answers_def list_all2_Cons1)
  then show ?thesis using db(1) r(1,3) by blast
qed

text \<open>The database after the script, with a new log, is closed and opened with five frames.\<close>

theorem restart_refines_store_witness:
  "\<exists>db db1 db2. refines_store store_runtime 2 db [''t'' \<mapsto> demo_table 14] \<and> database_close db = (db1, Inr ()) \<and>
     database_open (database_files db1) 5 = Inr db2 \<and> refines_store store_runtime 2 db2 [''t'' \<mapsto> demo_table 14]"
proof -
  obtain db0 where "refines_store store_runtime 0 db0 Map.empty" by (rule new_database [of 2]) simp_all
  from run_refines [OF this store_runtime_counts demo_run, of "[]" "[]"]
  obtain db3 where db3: "refines_store store_runtime 2 db3 [''t'' \<mapsto> demo_table 14]"
    by (auto simp: demo_cost INVALID_PAGE_ID_def)
  let ?db = "db3\<lparr>db_wal := projr (wal_open None)\<rparr>"
  have db: "refines_store store_runtime 2 ?db [''t'' \<mapsto> demo_table 14]" using db3 by simp
  moreover have log: "is_ok (snd (log_checkpoint (db_wal ?db)))" using new_log_checkpoint by simp
  moreover have "2 \<le> (5 :: nat)" by simp
  ultimately show ?thesis using restart_refines_store [OF db log, of 5] by blast
qed

end
