(* ===== verification/Shell.thy ===== *)
theory Shell
  imports Database
begin

text \<open>
  The interactive shell, \<^verbatim>\<open>src/pysql/cli.py\<close>: statements typed over several
  lines, dot commands, and the printing of results; with the statistics the
  \<^verbatim>\<open>.stats\<close> command reports.  A session is a function of the lines typed; what is
  printed is a list of outputs.  The banner, the help text, the text of an exception, the elapsed
  time and the arrow of a plan line are outputs of their own, without their text.
\<close>

section \<open>Statistics\<close>

record pool_stats =
  ps_pool_size :: nat
  ps_pages_in_pool :: nat
  ps_hits :: nat
  ps_misses :: nat
  ps_evictions :: nat
  ps_hit_rate :: string
  ps_dirty_pages :: nat
  ps_pinned_pages :: nat

text \<open>The percentage of hits is formatted from the two counts it divides.\<close>

definition pool_get_stats :: "(nat \<Rightarrow> nat \<Rightarrow> string) \<Rightarrow> pool \<Rightarrow> pool_stats" where
  "pool_get_stats percent b = \<lparr>ps_pool_size = bp_size b, ps_pages_in_pool = card (dom (bp_table b)),
     ps_hits = bp_hits b, ps_misses = bp_misses b, ps_evictions = bp_evictions b,
     ps_hit_rate = percent (bp_hits b) (bp_hits b + bp_misses b),
     ps_dirty_pages = length (filter fr_is_dirty (bp_headers b)),
     ps_pinned_pages = length (filter (\<lambda>h. fr_pin_count h > 0) (bp_headers b))\<rparr>"

record mvcc_stats =
  ms_active :: nat
  ms_committed :: nat
  ms_aborted :: nat
  ms_total_versions :: nat
  ms_tables :: nat

definition mvcc_get_stats :: "('k, 'd) mvcc \<Rightarrow> mvcc_stats" where
  "mvcc_get_stats m = \<lparr>ms_active = length (mv_active m), ms_committed = card (mv_committed m),
     ms_aborted = card (mv_aborted m),
     ms_total_versions = sum_list (map (\<lambda>(name, chains). sum_list (map (\<lambda>(k, chain). length chain) chains)) (mv_versions m)),
     ms_tables = length (mv_versions m)\<rparr>"

record db_stats =
  ds_tables :: "string list"
  ds_pool :: pool_stats
  ds_mvcc :: mvcc_stats
  ds_next_lsn :: int
  ds_flushed_lsn :: int
  ds_total_pages :: int

definition database_stats :: "(nat \<Rightarrow> nat \<Rightarrow> string) \<Rightarrow> database \<Rightarrow> db_stats" where
  "database_stats percent db = \<lparr>ds_tables = list_tables (db_catalog db),
     ds_pool = pool_get_stats percent (db_pool db), ds_mvcc = mvcc_get_stats (db_mvcc db),
     ds_next_lsn = wal_next_lsn (db_wal db), ds_flushed_lsn = wal_flushed_lsn (db_wal db),
     ds_total_pages = get_num_pages (bp_disk (db_pool db))\<rparr>"

section \<open>Text\<close>

text \<open>The ANSI codes of \<^verbatim>\<open>Colors\<close>.\<close>

definition ansi :: "string \<Rightarrow> string" where
  "ansi code = CHR 0x1B # ''['' @ code @ ''m''"

definition CYAN :: string where "CYAN = ansi ''96''"
definition GREEN :: string where "GREEN = ansi ''92''"
definition YELLOW :: string where "YELLOW = ansi ''93''"
definition RED :: string where "RED = ansi ''91''"
definition BOLD :: string where "BOLD = ansi ''1''"
definition DIM :: string where "DIM = ansi ''2''"
definition RESET :: string where "RESET = ansi ''0''"

definition coloured :: "string \<Rightarrow> string \<Rightarrow> string" where
  "coloured colour s = colour @ s @ RESET"

definition str_rstrip :: "string \<Rightarrow> string" where
  "str_rstrip s = rev (dropWhile py_isspace (rev s))"

text \<open>\<^verbatim>\<open>s.rstrip(";")\<close> takes off all the semicolons at the end.\<close>

definition strip_semicolons :: "string \<Rightarrow> string" where
  "strip_semicolons s = rev (dropWhile (\<lambda>c. c = CHR '';'') (rev s))"

definition ends_with_semicolon :: "string \<Rightarrow> bool" where
  "ends_with_semicolon s = (s \<noteq> [] \<and> last s = CHR '';'')"

section \<open>Output and the end of a session\<close>

datatype shell_out =
    Line string
  | Prompt string
  | Banner
  | Help
  | Plan_Line nat string
  | Failure sql_error
  | Timing

datatype shell_exit = At_End | Interrupted | Quit | Raised pyerr

type_synonym shell_state = "database \<times> string \<times> shell_out list"

definition goodbye :: string where
  "goodbye = coloured DIM ''Goodbye!''"

text \<open>The first word of a command in lower case, and the rest of it.\<close>

definition split_command :: "string \<Rightarrow> string \<times> string" where
  "split_command s =
     (let t = dropWhile py_isspace s
      in (str_lower (takeWhile (\<lambda>c. \<not> py_isspace c) t),
          str_strip (dropWhile (\<lambda>c. \<not> py_isspace c) t)))"

section \<open>Dot commands\<close>

definition table_line :: "catalog \<Rightarrow> string \<Rightarrow> shell_out" where
  "table_line c t =
     (let info = get_table c t;
          cols = (case info of Some i \<Rightarrow> int (length (ti_columns i)) | None \<Rightarrow> 0);
          rows = (case info of Some i \<Rightarrow> ti_row_count i | None \<Rightarrow> 0)
      in Line (''  '' @ coloured CYAN t @ '' ('' @ str_of_int cols @ '' columns, ~'' @ str_of_int rows @ '' rows)''))"

definition show_tables :: "catalog \<Rightarrow> shell_out list" where
  "show_tables c =
     (let tables = list_tables c in
      if tables \<noteq> [] then
        Line (newline # coloured BOLD ''Tables:'') # map (table_line c) tables @ [Line []]
      else [Line (coloured DIM ''No tables found.'' @ [newline])])"

definition column_line :: "nat \<Rightarrow> nat \<times> column_info \<Rightarrow> shell_out" where
  "column_line n ic =
     (let (i, c) = ic;
          constraints = (if ci_constraints c \<noteq> [] then '' '' @ join_str '' '' (ci_constraints c) else []);
          comma = (if int i < int n - 1 then '','' else [])
      in Line (''  '' @ coloured CYAN (ci_name c) @ '' '' @ ci_type c @ constraints @ comma))"

definition show_schema :: "catalog \<Rightarrow> string \<Rightarrow> shell_out list" where
  "show_schema c arg =
     (if arg = [] then [Line (coloured RED ''Usage: .schema <table_name>'')]
      else case get_table c arg of
        None \<Rightarrow> [Line (coloured RED (''Table '' @ quoted arg @ '' not found.''))]
      | Some info \<Rightarrow>
          Line (newline # coloured BOLD (''CREATE TABLE '' @ arg @ '' (''))
          # map (column_line (length (ti_columns info))) (enumerate 0 (ti_columns info))
          @ [Line (coloured BOLD '');'' @ [newline])])"

definition show_stats :: "db_stats \<Rightarrow> shell_out list" where
  "show_stats s =
     (let n = \<lambda>k :: nat. str_of_int (int k); bp = ds_pool s; m = ds_mvcc s;
          tables = join_str '', '' (ds_tables s) in
      [Line (newline # coloured BOLD ''Database Statistics:''),
       Line (''  Tables: '' @ (if tables = [] then ''none'' else tables)),
       Line (''  Buffer Pool: '' @ n (ps_pages_in_pool bp) @ ''/'' @ n (ps_pool_size bp) @ '' pages, hit rate: ''
         @ ps_hit_rate bp),
       Line (''  Disk Pages: '' @ str_of_int (ds_total_pages s)),
       Line (''  MVCC: '' @ n (ms_active m) @ '' active, '' @ n (ms_committed m) @ '' committed txns''),
       Line (''  WAL: next LSN='' @ str_of_int (ds_next_lsn s) @ '', flushed='' @ str_of_int (ds_flushed_lsn s)
         @ [newline])])"

definition show_plan :: "sql_runtime \<Rightarrow> database \<Rightarrow> string \<Rightarrow> shell_out list" where
  "show_plan rt db arg =
     (if arg = [] then [Line (coloured RED ''Usage: .explain <SQL statement>'')]
      else case explain_sql rt db arg of
        Inl e \<Rightarrow> [Failure e]
      | Inr None \<Rightarrow> [Line (newline # coloured BOLD ''Query Plan:''), Line ''No statement to explain'']
      | Inr (Some ls) \<Rightarrow>
          Line (newline # coloured BOLD ''Query Plan:'') # map (\<lambda>(d, l). Plan_Line d l) ls @ [Line []])"

definition index_line :: "index_info \<Rightarrow> shell_out" where
  "index_line i = Line (''  '' @ coloured CYAN (ix_name i) @ '': '' @ (if ix_unique i then ''UNIQUE '' else [])
     @ ''('' @ join_comma (ix_columns i) @ '')'' @ (if ix_primary i then '' (PRIMARY KEY)'' else []))"

definition show_indexes :: "catalog \<Rightarrow> string \<Rightarrow> shell_out list" where
  "show_indexes c arg =
     (if arg = [] then [Line (coloured RED ''Usage: .indexes <table_name>'')]
      else let indexes = get_indexes_for_table c arg in
        if indexes \<noteq> [] then
          Line (newline # coloured BOLD (''Indexes on '' @ arg @ '':'')) # map index_line indexes @ [Line []]
        else [Line (coloured DIM (''No indexes found for '' @ quoted arg @ ''.'') @ [newline])])"

text \<open>Quitting closes the database, and raises what closing raises.\<close>

definition handle_meta_command ::
  "sql_runtime \<Rightarrow> (nat \<Rightarrow> nat \<Rightarrow> string) \<Rightarrow> string \<Rightarrow> database \<Rightarrow> database \<times> shell_out list \<times> shell_exit option"
where
  "handle_meta_command rt percent command db =
     (let (cmd, arg) = split_command command; c = db_catalog db in
      if cmd \<in> set [''.quit'', ''.exit'', ''.q''] then
        (case database_close db of
           (db1, Inl e) \<Rightarrow> (db1, [], Some (Raised e))
         | (db1, Inr _) \<Rightarrow> (db1, [Line goodbye], Some Quit))
      else (db,
        (if cmd = ''.help'' then [Help]
         else if cmd = ''.tables'' then show_tables c
         else if cmd = ''.schema'' then show_schema c arg
         else if cmd = ''.stats'' then show_stats (database_stats percent db)
         else if cmd = ''.explain'' then show_plan rt db arg
         else if cmd = ''.indexes'' then show_indexes c arg
         else [Line (coloured RED (''Unknown command: '' @ cmd @ ''. Type .help for help.''))]), None))"

section \<open>Statements\<close>

definition show_table :: "sql_runtime \<Rightarrow> table \<Rightarrow> shell_out list" where
  "show_table rt t =
     (case to_table_string (base_rt rt) t 30 of
        Inl e \<Rightarrow> [Failure (PyError e)]
      | Inr s \<Rightarrow> [Line s, Timing])"

definition show_result :: "sql_runtime \<Rightarrow> table \<Rightarrow> shell_out list" where
  "show_result rt t =
     (if qr_columns t \<noteq> [] \<and> qr_rows t \<noteq> [] then show_table rt t
      else if qr_message t \<noteq> [] then [Line (coloured GREEN (qr_message t)), Timing]
      else if qr_affected t > 0 then
        [Line (coloured GREEN (str_of_int (qr_affected t) @ '' row(s) affected'')), Timing]
      else if qr_columns t \<noteq> [] then show_table rt t
      else [Timing])"

definition execute_sql :: "sql_runtime \<Rightarrow> string \<Rightarrow> database \<Rightarrow> (database \<times> shell_out list) option" where
  "execute_sql rt sql db =
     map_option (\<lambda>(db1, r). (db1, case r of Inl e \<Rightarrow> [Failure e] | Inr t \<Rightarrow> show_result rt t)) (execute rt sql db)"

section \<open>The loop\<close>

definition prompt_for :: "string \<Rightarrow> shell_out" where
  "prompt_for buffer = Prompt (if buffer \<noteq> [] then coloured DIM ''   ...>'' @ '' '' else coloured GREEN ''pysql>'' @ '' '')"

text \<open>One typed line: the database and the buffer after it, what was printed, and whether to stop.\<close>

definition shell_line ::
  "sql_runtime \<Rightarrow> (nat \<Rightarrow> nat \<Rightarrow> string) \<Rightarrow> string \<Rightarrow> database \<Rightarrow> string \<Rightarrow>
   (database \<times> string \<times> shell_out list \<times> shell_exit option) option"
where
  "shell_line rt percent line db buffer =
     (let stripped = str_strip line in
      if stripped = [] \<and> buffer = [] then Some (db, buffer, [], None)
      else if buffer = [] \<and> starts_with ''.'' stripped then
        (case handle_meta_command rt percent stripped db of (db1, out, x) \<Rightarrow> Some (db1, buffer, out, x))
      else
        (let text = buffer @ (if buffer \<noteq> [] then '' '' @ line else line) in
         if ends_with_semicolon (str_rstrip text) then
           (let sql = strip_semicolons (str_rstrip text) in
            if str_strip sql = [] then Some (db, [], [], None)
            else map_option (\<lambda>(db1, out). (db1, [], out, None)) (execute_sql rt sql db))
         else Some (db, if str_strip text = [] then [] else text, [], None)))"

datatype shell_input = Typed string | Ctrl_C

fun shell_loop ::
  "sql_runtime \<Rightarrow> (nat \<Rightarrow> nat \<Rightarrow> string) \<Rightarrow> shell_input list \<Rightarrow> shell_state \<Rightarrow> (shell_state \<times> shell_exit) option"
where
  "shell_loop rt percent [] (db, buffer, out) =
     Some ((db, buffer, out @ [prompt_for buffer, Line []]), At_End)"
| "shell_loop rt percent (Ctrl_C # ins) (db, buffer, out) =
     Some ((db, buffer, out @ [prompt_for buffer,
       Line (newline # coloured YELLOW ''Interrupted. Use .quit to exit.'')]), Interrupted)"
| "shell_loop rt percent (Typed line # ins) (db, buffer, out) =
     (case shell_line rt percent line db buffer of
        None \<Rightarrow> None
      | Some (db1, buffer1, out1, x) \<Rightarrow>
          (let s = (db1, buffer1, out @ prompt_for buffer # out1) in
           case x of None \<Rightarrow> shell_loop rt percent ins s | Some e \<Rightarrow> Some (s, e)))"

text \<open>However the loop ends, the database is closed after it; an exception of closing replaces
  the reason it ended for.\<close>

definition shell_finish :: "shell_state \<times> shell_exit \<Rightarrow> shell_state \<times> shell_exit" where
  "shell_finish r =
     (case r of ((db, buffer, out), x) \<Rightarrow>
        (case database_close db of
           (db1, Inl e) \<Rightarrow> ((db1, buffer, out), Raised e)
         | (db1, Inr _) \<Rightarrow> ((db1, buffer, out @ [Line (newline # goodbye)]), x)))"

definition shell_session ::
  "sql_runtime \<Rightarrow> (nat \<Rightarrow> nat \<Rightarrow> string) \<Rightarrow> string \<Rightarrow> shell_input list \<Rightarrow> database \<Rightarrow> (shell_state \<times> shell_exit) option"
where
  "shell_session rt percent path ins db =
     map_option shell_finish (shell_loop rt percent ins (db, [],
       [Banner, Line (''  '' @ coloured DIM (''Connected to database: '' @ path)), Line []]))"

section \<open>A single command\<close>

text \<open>With \<^verbatim>\<open>-c\<close> the shell runs one text, prints, closes and exits with 0 or 1.\<close>

definition command_output :: "sql_runtime \<Rightarrow> table \<Rightarrow> shell_out \<times> int" where
  "command_output rt t =
     (if qr_columns t \<noteq> [] then
        (case to_table_string (base_rt rt) t 30 of
           Inl e \<Rightarrow> (Failure (PyError e), 1) | Inr s \<Rightarrow> (Line s, 0))
      else if qr_message t \<noteq> [] then (Line (qr_message t), 0)
      else (Line (str_of_int (qr_affected t) @ '' row(s) affected''), 0))"

definition run_command :: "sql_runtime \<Rightarrow> string \<Rightarrow> database \<Rightarrow> (database \<times> shell_out \<times> int result) option" where
  "run_command rt sql db =
     (case execute rt sql db of
        None \<Rightarrow> None
      | Some (db1, r) \<Rightarrow>
          (case (case r of Inl e \<Rightarrow> (Failure e, 1) | Inr t \<Rightarrow> command_output rt t) of
             (out, code) \<Rightarrow>
               (case database_close db1 of
                  (db2, Inl e) \<Rightarrow> Some (db2, out, Inl e) | (db2, Inr _) \<Rightarrow> Some (db2, out, Inr code))))"

text \<open>The exit status; a session that is not ended by an exception has status 0.\<close>

fun exit_code :: "shell_exit \<Rightarrow> int result" where
  "exit_code (Raised e) = Inl e"
| "exit_code _ = Inr 0"

definition shell_main ::
  "sql_runtime \<Rightarrow> (nat \<Rightarrow> nat \<Rightarrow> string) \<Rightarrow> string \<Rightarrow> nat \<Rightarrow> string option \<Rightarrow> db_files \<Rightarrow> shell_input list \<Rightarrow>
   (database \<times> shell_out list \<times> int result) option result"
where
  "shell_main rt percent path pool_size command fs ins =
     bindr (database_open fs pool_size) (\<lambda>db. Inr
       (if command \<noteq> None \<and> command \<noteq> Some [] then
          map_option (\<lambda>(db1, out, code). (db1, [out], code)) (run_command rt (the command) db)
        else
          map_option (\<lambda>((db1, buffer, out), x). (db1, out, exit_code x)) (shell_session rt percent path ins db)))"

section \<open>Statements over several lines\<close>

definition join_lines :: "string \<Rightarrow> string list \<Rightarrow> string" where
  "join_lines buffer ls = foldl (\<lambda>b l. b @ '' '' @ l) buffer ls"

abbreviation complete :: "string \<Rightarrow> bool" where
  "complete text \<equiv> ends_with_semicolon (str_rstrip text)"

lemma join_lines_simps [simp]:
  "join_lines b [] = b" "join_lines b (l # ls) = join_lines (b @ '' '' @ l) ls"
  by (simp_all add: join_lines_def)

lemma strip_nonempty: "str_strip s \<noteq> [] \<longleftrightarrow> (\<exists>c \<in> set s. \<not> py_isspace c)"
  unfolding str_strip_def by (auto simp: dropWhile_eq_Nil_conv dest: set_dropWhileD)
    (metis Un_iff dropWhile_eq_Nil_conv set_append set_dropWhileD takeWhile_dropWhile_id set_takeWhileD)

lemma strip_append: "str_strip s \<noteq> [] \<Longrightarrow> str_strip (s @ t) \<noteq> []"
  by (auto simp: strip_nonempty)

text \<open>A line that does not complete the statement is kept; the one that does runs it.\<close>

lemma continued_line:
  assumes "buffer \<noteq> []" "str_strip buffer \<noteq> []" "\<not> complete (buffer @ '' '' @ l)"
  shows "shell_line rt percent l db buffer = Some (db, buffer @ '' '' @ l, [], None)"
  using assms strip_append [OF assms(2), of "'' '' @ l"] by (simp add: shell_line_def Let_def)

lemma completing_line:
  assumes "buffer \<noteq> []" "complete (buffer @ '' '' @ l)"
    and "str_strip (strip_semicolons (str_rstrip (buffer @ '' '' @ l))) \<noteq> []"
  shows "shell_line rt percent l db buffer =
    map_option (\<lambda>(db1, out). (db1, [], out, None)) (execute_sql rt (strip_semicolons (str_rstrip (buffer @ '' '' @ l))) db)"
  using assms by (simp add: shell_line_def Let_def)

lemma continued_lines:
  assumes "buffer \<noteq> []" "str_strip buffer \<noteq> []" "ls \<noteq> []"
    and "\<forall>k \<in> {0<..<length ls}. \<not> complete (join_lines buffer (take k ls))" "complete (join_lines buffer ls)"
    and "str_strip (strip_semicolons (str_rstrip (join_lines buffer ls))) \<noteq> []"
  shows "shell_loop rt percent (map Typed ls @ ins) (db, buffer, out) =
    (case execute_sql rt (strip_semicolons (str_rstrip (join_lines buffer ls))) db of
       None \<Rightarrow> None
     | Some (db1, res) \<Rightarrow>
         shell_loop rt percent ins (db1, [], out @ replicate (length ls) (prompt_for buffer) @ res))"
  using assms
proof (induction ls arbitrary: buffer out)
  case (Cons l ls)
  let ?text = "buffer @ '' '' @ l"
  have same: "prompt_for ?text = prompt_for buffer" using Cons.prems(1) by (simp add: prompt_for_def)
  show ?case
  proof (cases "ls = []")
    case True
    then show ?thesis
      using completing_line [of buffer l rt percent db] Cons.prems by (auto split: option.split)
  next
    case False
    have "\<not> complete ?text" using Cons.prems(4) False by (auto dest!: bspec [of _ _ "Suc 0"])
    then have step: "shell_line rt percent l db buffer = Some (db, ?text, [], None)"
      using Cons.prems(1,2) by (rule continued_line [rotated 2])
    have inner: "\<forall>k \<in> {0<..<length ls}. \<not> complete (join_lines ?text (take k ls))"
    proof
      fix k assume "k \<in> {0<..<length ls}"
      then show "\<not> complete (join_lines ?text (take k ls))"
        using Cons.prems(4) by (auto dest!: bspec [of _ _ "Suc k"])
    qed
    have "shell_loop rt percent (map Typed ls @ ins) (db, ?text, out @ [prompt_for buffer]) =
      (case execute_sql rt (strip_semicolons (str_rstrip (join_lines ?text ls))) db of
         None \<Rightarrow> None
       | Some (db1, res) \<Rightarrow> shell_loop rt percent ins
           (db1, [], (out @ [prompt_for buffer]) @ replicate (length ls) (prompt_for ?text) @ res))"
      by (rule Cons.IH) (use Cons.prems False inner strip_append [OF Cons.prems(2)] in simp_all)
    then show ?thesis
      using step same by (cases "execute_sql rt (strip_semicolons (str_rstrip (join_lines ?text ls))) db") auto
  qed
qed simp

text \<open>
  C33: a statement can be typed over several lines: when the text is complete, and not before, the
  shell executes exactly the lines joined by blanks without the final semicolons, prints one prompt
  for each line and the result, and goes on with an empty buffer.
\<close>

theorem lines_make_one_statement:
  assumes "str_strip l \<noteq> []" "\<not> starts_with ''.'' (str_strip l)"
    and "\<forall>k < length ls. \<not> complete (join_lines l (take k ls))" "complete (join_lines l ls)"
    and "str_strip (strip_semicolons (str_rstrip (join_lines l ls))) \<noteq> []"
  shows "shell_loop rt percent (map Typed (l # ls) @ ins) (db, [], out) =
    (case execute_sql rt (strip_semicolons (str_rstrip (join_lines l ls))) db of
       None \<Rightarrow> None
     | Some (db1, res) \<Rightarrow> shell_loop rt percent ins
         (db1, [], out @ prompt_for [] # replicate (length ls) (prompt_for l) @ res))"
proof (cases "ls = []")
  case True
  then show ?thesis
    using assms by (auto simp: shell_line_def Let_def split: option.split)
next
  case False
  have l: "l \<noteq> []" using assms(1) by (auto simp: str_strip_def)
  have "\<not> complete l" using assms(3) False by (auto dest!: spec [of _ 0])
  then have "shell_line rt percent l db [] = Some (db, l, [], None)"
    using assms(1,2) by (simp add: shell_line_def Let_def)
  then show ?thesis
    using continued_lines [OF l assms(1) False _ assms(4,5), of rt percent ins db "out @ [prompt_for []]"] assms(3)
    by (cases "execute_sql rt (strip_semicolons (str_rstrip (join_lines l ls))) db") auto
qed

theorem lines_make_one_statement_witness:
  "shell_loop null_sql_runtime (\<lambda>_ _. ''0%'') (map Typed [''EXPLAIN'', '' ; ''] @ []) (empty_db, [], []) =
    (case execute_sql null_sql_runtime ''EXPLAIN  '' empty_db of
       None \<Rightarrow> None
     | Some (db1, res) \<Rightarrow> shell_loop null_sql_runtime (\<lambda>_ _. ''0%'') []
         (db1, [], [] @ prompt_for [] # replicate (length ['' ; '']) (prompt_for ''EXPLAIN'') @ res))"
proof -
  have sql: "strip_semicolons (str_rstrip (join_lines ''EXPLAIN'' ['' ; ''])) = ''EXPLAIN  ''" by code_simp
  have "\<forall>k < length ['' ; '']. \<not> complete (join_lines ''EXPLAIN'' (take k ['' ; '']))" by code_simp
  moreover have "complete (join_lines ''EXPLAIN'' ['' ; ''])" by code_simp
  moreover have "str_strip ''EXPLAIN'' \<noteq> []" "\<not> starts_with ''.'' (str_strip ''EXPLAIN'')"
    "str_strip ''EXPLAIN  '' \<noteq> []" by code_simp+
  ultimately show ?thesis
    using lines_make_one_statement [of "''EXPLAIN''" "['' ; '']"] sql by metis
qed

end
